(* ===== verification/Prelude.thy ===== *)
theory Prelude
  imports Main "HOL-Library.Word"
begin

text \<open>
  What every component shares: the machine types, the error codes of
  \<^verbatim>\<open>src/src/core/srs_kernel_error.hpp\<close>, the result type of fallible code, the
  little-endian memory image of an integer, the byte view of a \<^verbatim>\<open>std::string\<close>, and the
  generic lemmas on lists and words.
\<close>

unbundle bit_operations_syntax

named_theorems srs_simps \<open>evaluation rules of the result and buffer monads\<close>
named_theorems srs_codec \<open>length and inversion rules of the byte codecs\<close>

section \<open>Machine types\<close>

type_synonym byte = "8 word"

text \<open>
  A \<^verbatim>\<open>double\<close> is its IEEE 754 bit pattern: the program stores, copies and compares doubles
  but does no arithmetic on them.
\<close>

type_synonym double = "64 word"

section \<open>Error codes and results\<close>

datatype (plugins only: code size) SrsErrorCode =
    ERROR_SUCCESS
  | ERROR_SOCKET_CREATE | ERROR_SOCKET_SETREUSE | ERROR_SOCKET_BIND | ERROR_SOCKET_LISTEN
  | ERROR_SOCKET_CLOSED | ERROR_SOCKET_READ | ERROR_SOCKET_READ_FULLY | ERROR_SOCKET_WRITE
  | ERROR_SOCKET_TIMEOUT | ERROR_SYSTEM_PACKET_INVALID | ERROR_SYSTEM_CLIENT_INVALID
  | ERROR_SYSTEM_ASSERT_FAILED | ERROR_READER_BUFFER_OVERFLOW | ERROR_SYSTEM_STREAM_BUSY
  | ERROR_THREAD_DISPOSED | ERROR_THREAD_INTERRUPED | ERROR_THREAD_TERMINATED
  | ERROR_THREAD_DUMMY | ERROR_THREAD_STARTED | ERROR_SOCKET_ACCEPT | ERROR_THREAD_CREATE
  | ERROR_THREAD_FINISHED
  | ERROR_SYSTEM_FILE_OPENE | ERROR_SYSTEM_FILE_WRITE | ERROR_SYSTEM_FILE_RENAME
  | ERROR_SYSTEM_FILE_NOT_EXISTS
  | ERROR_RTMP_PLAIN_REQUIRED | ERROR_RTMP_CHUNK_START | ERROR_RTMP_MSG_INVALID_SIZE
  | ERROR_RTMP_AMF0_DECODE | ERROR_RTMP_AMF0_INVALID | ERROR_RTMP_REQ_CONNECT
  | ERROR_RTMP_REQ_TCURL | ERROR_RTMP_MESSAGE_DECODE | ERROR_RTMP_MESSAGE_ENCODE
  | ERROR_RTMP_AMF0_ENCODE | ERROR_RTMP_CHUNK_SIZE | ERROR_RTMP_PACKET_SIZE
  | ERROR_RTMP_HANDSHAKE | ERROR_RTMP_NO_REQUEST | ERROR_RTMP_STREAM_NOT_FOUND
  | ERROR_RTMP_STREAM_NAME_EMPTY | ERROR_RTMP_MESSAGE_CREATE | ERROR_RTMP_CREATE_STREAM_DEPTH
  | ERROR_CONTROL_RTMP_CLOSE | ERROR_CONTROL_REPUBLISH
  | ERROR_HLS_DECODE_ERROR | ERROR_HLS_CREATE_DIR | ERROR_HLS_AVC_SAMPLE_SIZE
  | ERROR_HTTP_PARSE_HEADER | ERROR_MP4_ILLEGAL_MOOF | ERROR_AVC_NALU_UEV
  | ERROR_USER_DISCONNECT | ERROR_SOURCE_NOT_FOUND

text \<open>
  A computation fails in one of four ways: it returns an \<^verbatim>\<open>srs_error_t\<close> (of which the code is
  kept: \<^verbatim>\<open>srs_error_wrap\<close> adds a message and keeps the code), it stops the process because an
  \<^verbatim>\<open>srs_assert\<close> does not hold, it dereferences a null pointer, or a fuel-bounded loop of the
  model is cut (the components prove that this last value never occurs).
\<close>

datatype failure = Srs_error SrsErrorCode | Srs_abort | Srs_null_deref | Out_of_fuel

type_synonym 'a result = "failure + 'a"

definition srs_is_system_control_error :: "failure \<Rightarrow> bool" where
  "srs_is_system_control_error err \<longleftrightarrow>
     err = Srs_error ERROR_CONTROL_RTMP_CLOSE \<or> err = Srs_error ERROR_CONTROL_REPUBLISH"

definition srs_is_client_gracefully_close :: "failure \<Rightarrow> bool" where
  "srs_is_client_gracefully_close err \<longleftrightarrow>
     err = Srs_error ERROR_SOCKET_READ \<or> err = Srs_error ERROR_SOCKET_READ_FULLY
     \<or> err = Srs_error ERROR_SOCKET_WRITE"

text \<open>\<open>is_error r\<close>: the call returned an error value (it did not stop the process).\<close>

fun is_error :: "'a result \<Rightarrow> bool" where
  "is_error (Inl (Srs_error _)) = True"
| "is_error _ = False"

text \<open>
  \<open>safe r\<close>: the call came back, with a value or with an error code. A result that is not safe
  is a failed assertion, a null dereference or a loop that was cut.
\<close>

fun safe :: "'a result \<Rightarrow> bool" where
  "safe (Inr _) = True"
| "safe (Inl (Srs_error _)) = True"
| "safe (Inl _) = False"

lemma safe_Inl_iff [simp]: "safe (Inl e) \<longleftrightarrow> (\<exists>c. e = Srs_error c)"
  by (cases e) auto

section \<open>The state and error monad\<close>

text \<open>
  \<open>bnd m f\<close> is the source's
  \<^verbatim>\<open>if ((err = m) != srs_success) return srs_error_wrap(err, ...)\<close> followed by \<open>f\<close>. The
  state of a computation that failed is dropped: its callers free the object it worked on.
\<close>

definition ret :: "'a \<Rightarrow> 's \<Rightarrow> ('a \<times> 's) result" where
  "ret x s = Inr (x, s)"

definition fail :: "failure \<Rightarrow> 's \<Rightarrow> ('a \<times> 's) result" where
  "fail e s = Inl e"

definition bnd :: "('s \<Rightarrow> ('a \<times> 's) result) \<Rightarrow> ('a \<Rightarrow> 's \<Rightarrow> ('b \<times> 's) result)
                   \<Rightarrow> 's \<Rightarrow> ('b \<times> 's) result" where
  "bnd m f s = (case m s of Inl e \<Rightarrow> Inl e | Inr (x, s') \<Rightarrow> f x s')"

definition srs_assert :: "('s \<Rightarrow> bool) \<Rightarrow> 's \<Rightarrow> (unit \<times> 's) result" where
  "srs_assert P s = (if P s then Inr ((), s) else Inl Srs_abort)"

lemma ret_app [srs_simps]: "ret x s = Inr (x, s)"
  by (simp add: ret_def)

lemma fail_app [srs_simps]: "fail e s = Inl e"
  by (simp add: fail_def)

lemma bnd_Inr [srs_simps]: "m s = Inr (x, s') \<Longrightarrow> bnd m f s = f x s'"
  by (simp add: bnd_def)

lemma bnd_Inl [srs_simps]: "m s = Inl e \<Longrightarrow> bnd m f s = Inl e"
  by (simp add: bnd_def)

lemma bnd_eq_Inr_iff: "bnd m f s = Inr r \<longleftrightarrow> (\<exists>x s'. m s = Inr (x, s') \<and> f x s' = Inr r)"
  by (auto simp: bnd_def split: sum.splits)

lemma bnd_eq_Inl_iff:
  "bnd m f s = Inl e \<longleftrightarrow> m s = Inl e \<or> (\<exists>x s'. m s = Inr (x, s') \<and> f x s' = Inl e)"
  by (auto simp: bnd_def split: sum.splits)

lemma safe_bnd:
  "safe (m s) \<Longrightarrow> (\<And>x s'. m s = Inr (x, s') \<Longrightarrow> safe (f x s')) \<Longrightarrow> safe (bnd m f s)"
  by (cases "m s") (auto simp: bnd_def)

lemma safe_Inr_cases: "safe r \<Longrightarrow> (\<And>x. r = Inr x \<Longrightarrow> P) \<Longrightarrow> (\<And>c. r = Inl (Srs_error c) \<Longrightarrow> P) \<Longrightarrow> P"
  by (cases r rule: safe.cases) auto

section \<open>The memory image of an integer\<close>

text \<open>
  The code reads and writes integers through a \<^verbatim>\<open>char*\<close> to their memory. On the little-endian
  hosts it supports, byte \<open>i\<close> of that memory is digit \<open>i\<close> in base 256: \<open>le_bytes n v\<close> is the
  memory of an \<open>n\<close>-byte integer of value \<open>v\<close> and \<open>le_val\<close> reads it back.
\<close>

fun le_val :: "byte list \<Rightarrow> int" where
  "le_val [] = 0"
| "le_val (b # bs) = uint b + 256 * le_val bs"

fun le_bytes :: "nat \<Rightarrow> int \<Rightarrow> byte list" where
  "le_bytes 0 v = []"
| "le_bytes (Suc n) v = word_of_int v # le_bytes n (v div 256)"

lemma length_le_bytes [simp, srs_codec]: "length (le_bytes n v) = n"
  by (induction n arbitrary: v) auto

lemma le_bytes_numeral:
  "le_bytes (numeral k) v = word_of_int v # le_bytes (pred_numeral k) (v div 256)"
  by (simp add: numeral_eq_Suc)

lemma uint_byte_bound [simp]: "uint (b :: byte) < 256" "0 \<le> uint (b :: byte)"
  using uint_lt2p [of b] by auto

lemma le_val_le_bytes [srs_codec]: "le_val (le_bytes n v) = v mod 256 ^ n"
proof (induction n arbitrary: v)
  case 0
  then show ?case by simp
next
  case (Suc n)
  have "v mod 256 + 256 * (v div 256 mod 256 ^ n) = v mod (256 * 256 ^ n)"
    using zmod_zmult2_eq [of "256 ^ n" v 256] by simp
  with Suc show ?case
    by (simp add: unsigned_of_int take_bit_eq_mod)
qed

lemma le_val_bounds: "0 \<le> le_val bs \<and> le_val bs < 256 ^ length bs"
proof (induction bs)
  case Nil
  then show ?case by simp
next
  case (Cons b bs)
  have "uint b \<le> 255"
    using uint_byte_bound(1) [of b] by linarith
  moreover have "256 * le_val bs \<le> 256 * (256 ^ length bs - 1)"
    using Cons by simp
  ultimately have "uint b + 256 * le_val bs \<le> 255 + 256 * (256 ^ length bs - 1)"
    by linarith
  with Cons uint_byte_bound(2) [of b] show ?case
    by (simp add: algebra_simps)
qed

lemma le_val_nonneg [simp]: "0 \<le> le_val bs"
  using le_val_bounds by blast

lemma le_val_less: "le_val bs < 256 ^ length bs"
  using le_val_bounds by blast

lemma le_bytes_le_val [srs_codec]: "le_bytes (length bs) (le_val bs) = bs"
proof (induction bs)
  case Nil
  then show ?case by simp
next
  case (Cons b bs)
  have "(uint b + 256 * le_val bs) div 256 = le_val bs"
    using uint_byte_bound [of b] by simp
  moreover have "word_of_int (uint b + 256 * le_val bs) = b"
  proof (rule word_uint_eqI)
    have "(uint b + 256 * le_val bs) mod 256 = uint b"
      using uint_byte_bound [of b] by simp
    then show "uint (word_of_int (uint b + 256 * le_val bs) :: byte) = uint b"
      by (simp only: uint_word_of_int) simp
  qed
  ultimately show ?case using Cons by simp
qed

lemma take_le_bytes: "n \<le> m \<Longrightarrow> take n (le_bytes m v) = le_bytes n v"
proof (induction n arbitrary: m v)
  case (Suc n)
  then obtain k where "m = Suc k" by (cases m) auto
  with Suc show ?case by simp
qed simp

text \<open>Reading the memory of a word of \<open>8 * n\<close> bits gives the word back.\<close>

lemma word_of_le_bytes:
  assumes "LENGTH('a :: len) = 8 * n"
  shows "word_of_int (le_val (le_bytes n (uint (w :: 'a word)))) = w"
proof -
  have "(256 :: int) ^ n = 2 ^ LENGTH('a)"
    using assms by (simp add: power_mult)
  then have "uint w mod 256 ^ n = uint w"
    by (simp add: mod_pos_pos_trivial)
  then show ?thesis by (simp add: le_val_le_bytes)
qed

section \<open>The cursor interface\<close>

text \<open>
  Two parts of the program hand out bytes in order: \<^verbatim>\<open>SrsBuffer\<close> over the payload of a
  message, and \<^verbatim>\<open>SrsFastStream\<close> over a socket. Their clients rely on one contract: asking for
  \<open>n\<close> bytes gives the next \<open>n\<close> bytes and moves on, as long as that many are left.
\<close>

locale byte_cursor =
  fixes rest :: "'s \<Rightarrow> byte list"
    and wf :: "'s \<Rightarrow> bool"
    and get :: "nat \<Rightarrow> 's \<Rightarrow> (byte list \<times> 's) result"
    and capacity :: "'s \<Rightarrow> nat"
  assumes get_ok: "wf s \<Longrightarrow> n \<le> length (rest s) \<Longrightarrow> n \<le> capacity s \<Longrightarrow>
      \<exists>s'. get n s = Inr (take n (rest s), s') \<and> rest s' = drop n (rest s) \<and> wf s'
        \<and> capacity s' = capacity s"
begin

lemma get_append:
  assumes "wf s" and "rest s = xs @ ys" and "length xs \<le> capacity s"
  shows "\<exists>s'. get (length xs) s = Inr (xs, s') \<and> rest s' = ys \<and> wf s' \<and> capacity s' = capacity s"
  using get_ok [of s "length xs"] assms by auto

lemma get_le_bytes:
  assumes "wf s" and "rest s = le_bytes n v @ ys" and "n \<le> capacity s" and "0 \<le> v" and "v < 256 ^ n"
  shows "\<exists>bs s'. get n s = Inr (bs, s') \<and> le_val bs = v \<and> rest s' = ys \<and> wf s'
    \<and> capacity s' = capacity s"
  using get_append [of s "le_bytes n v" ys] assms by (auto simp: le_val_le_bytes)

lemma get_be_bytes:
  assumes "wf s" and "rest s = rev (le_bytes n v) @ ys" and "n \<le> capacity s" and "0 \<le> v" and "v < 256 ^ n"
  shows "\<exists>bs s'. get n s = Inr (bs, s') \<and> le_val (rev bs) = v \<and> rest s' = ys \<and> wf s'
    \<and> capacity s' = capacity s"
  using get_append [of s "rev (le_bytes n v)" ys] assms by (auto simp: le_val_le_bytes)

lemma get_twice:
  assumes "wf s" and "n + m \<le> length (rest s)" and "n \<le> capacity s" and "m \<le> capacity s"
  shows "\<exists>s'. bnd (get n) (\<lambda>xs. bnd (get m) (\<lambda>ys. ret (xs @ ys))) s = Inr (take (n + m) (rest s), s')
    \<and> rest s' = drop (n + m) (rest s) \<and> wf s' \<and> capacity s' = capacity s"
proof -
  obtain s1 where s1: "get n s = Inr (take n (rest s), s1)" "rest s1 = drop n (rest s)" "wf s1"
      "capacity s1 = capacity s"
    using get_ok [of s n] assms by auto
  moreover have "m \<le> length (rest s1)" using s1 assms by simp
  ultimately obtain s2 where "get m s1 = Inr (take m (rest s1), s2)" "rest s2 = drop m (rest s1)"
      "wf s2" "capacity s2 = capacity s"
    using get_ok [of s1 m] assms by auto
  with s1 show ?thesis
    by (simp add: bnd_def ret_def take_add [symmetric] add.commute [of m n])
qed

end

section \<open>Strings as bytes\<close>

text \<open>A \<^verbatim>\<open>std::string\<close> is a \<open>string\<close>; on the wire each character is one byte.\<close>

definition byte_of_char :: "char \<Rightarrow> byte" where
  "byte_of_char c = word_of_nat (of_char c)"

definition char_of_byte :: "byte \<Rightarrow> char" where
  "char_of_byte b = char_of (unat b)"

abbreviation string_bytes :: "string \<Rightarrow> byte list" where
  "string_bytes s \<equiv> map byte_of_char s"

abbreviation bytes_string :: "byte list \<Rightarrow> string" where
  "bytes_string bs \<equiv> map char_of_byte bs"

lemma char_of_byte_of_char [simp]: "char_of_byte (byte_of_char c) = c"
proof -
  have "of_char c < (256 :: nat)"
    using of_char_of [of "of_char c :: nat"] by simp
  then have "unat (word_of_nat (of_char c) :: byte) = of_char c"
    by (simp add: unsigned_of_nat take_bit_nat_eq_self)
  then show ?thesis by (simp add: byte_of_char_def char_of_byte_def)
qed

lemma byte_of_char_of_byte [simp]: "byte_of_char (char_of_byte b) = b"
proof -
  have "unat b < 256" using unsigned_less [of b] by simp
  then show ?thesis by (simp add: byte_of_char_def char_of_byte_def of_char_of)
qed

lemma char_byte_comp [simp]: "char_of_byte \<circ> byte_of_char = id"
  by (rule ext) simp

lemma bytes_string_string_bytes [simp]: "bytes_string (string_bytes s) = s"
  by (induction s) auto

lemma string_bytes_bytes_string [simp]: "string_bytes (bytes_string bs) = bs"
  by (induction bs) auto

section \<open>Lists\<close>

lemma take_drop_append_exact [simp]:
  "length xs = n \<Longrightarrow> take n (xs @ ys) = xs" "length xs = n \<Longrightarrow> drop n (xs @ ys) = ys"
  by auto

lemma list_all_replicate_iff: "list_all P (replicate n x) \<longleftrightarrow> n = 0 \<or> P x"
  by (cases n) (auto simp: list_all_iff)

section \<open>Binary logarithm\<close>

fun log2 :: "nat \<Rightarrow> nat" where
  "log2 v = (if v < 2 then 0 else Suc (log2 (v div 2)))"

declare log2.simps [simp del]

lemma log2_bounds: "0 < v \<Longrightarrow> 2 ^ log2 v \<le> v \<and> v < 2 ^ Suc (log2 v)"
proof (induction v rule: log2.induct)
  case (1 v)
  show ?case
  proof (cases "v < 2")
    case True
    then show ?thesis using 1(2) by (simp add: log2.simps)
  next
    case False
    then have "2 ^ log2 (v div 2) \<le> v div 2 \<and> v div 2 < 2 ^ Suc (log2 (v div 2))" using 1 by simp
    then have "2 * 2 ^ log2 (v div 2) \<le> v \<and> v < 2 * 2 ^ Suc (log2 (v div 2))" by auto
    with False show ?thesis by (simp add: log2.simps [of v])
  qed
qed

end
