(* ===== verification/Buffer.thy ===== *)
theory Buffer
  imports Prelude
begin

text \<open>
  The byte buffers of \<^verbatim>\<open>src/src/kernel/srs_kernel_buffer.cpp\<close> and
  \<^verbatim>\<open>src/src/kernel/srs_kernel_stream.cpp\<close>: \<^verbatim>\<open>SrsBuffer\<close> (a cursor over a fixed region, used
  for reading and for writing), \<^verbatim>\<open>SrsBitBuffer\<close> (bits, most significant first) and
  \<^verbatim>\<open>SrsSimpleStream\<close> (a growing vector). A region is never null here: every caller checks its
  pointer before it makes a buffer over it. Reads and writes past the end fail the
  \<^verbatim>\<open>srs_assert\<close> of the code, the value \<open>Srs_abort\<close>.
\<close>

section \<open>SrsBuffer\<close>

record SrsBuffer =
  buf_bytes :: "byte list"
  buf_p :: nat

definition SrsBuffer_new :: "byte list \<Rightarrow> SrsBuffer" where
  "SrsBuffer_new bs = \<lparr>buf_bytes = bs, buf_p = 0\<rparr>"

definition SrsBuffer_size :: "SrsBuffer \<Rightarrow> int" where
  "SrsBuffer_size b = int (length (buf_bytes b))"

definition SrsBuffer_pos :: "SrsBuffer \<Rightarrow> int" where
  "SrsBuffer_pos b = int (buf_p b)"

definition SrsBuffer_left :: "SrsBuffer \<Rightarrow> int" where
  "SrsBuffer_left b = int (length (buf_bytes b)) - int (buf_p b)"

definition SrsBuffer_empty :: "SrsBuffer \<Rightarrow> bool" where
  "SrsBuffer_empty b \<longleftrightarrow> buf_p b \<ge> length (buf_bytes b)"

definition SrsBuffer_require :: "int \<Rightarrow> SrsBuffer \<Rightarrow> bool" where
  "SrsBuffer_require required_size b \<longleftrightarrow>
     (if required_size < 0 then False else required_size \<le> SrsBuffer_left b)"

definition SrsBuffer_skip :: "int \<Rightarrow> SrsBuffer \<Rightarrow> (unit \<times> SrsBuffer) result" where
  "SrsBuffer_skip sz b =
     (if int (buf_p b) + sz \<ge> 0 \<and> int (buf_p b) + sz \<le> int (length (buf_bytes b))
      then Inr ((), b\<lparr>buf_p := nat (int (buf_p b) + sz)\<rparr>)
      else Inl Srs_abort)"

text \<open>
  \<open>fetch n\<close> is \<open>n\<close> times \<^verbatim>\<open>*p++\<close>, and \<open>store\<close> writes bytes at the cursor; the public
  operations guard them by \<^verbatim>\<open>srs_assert(require(n))\<close>.
\<close>

definition fetch :: "nat \<Rightarrow> SrsBuffer \<Rightarrow> (byte list \<times> SrsBuffer) result" where
  "fetch n b = Inr (take n (drop (buf_p b) (buf_bytes b)), b\<lparr>buf_p := buf_p b + n\<rparr>)"

definition store :: "byte list \<Rightarrow> SrsBuffer \<Rightarrow> (unit \<times> SrsBuffer) result" where
  "store xs b = Inr ((), b\<lparr>buf_bytes := take (buf_p b) (buf_bytes b) @ xs
                             @ drop (buf_p b + length xs) (buf_bytes b),
                           buf_p := buf_p b + length xs\<rparr>)"

definition read_bytes :: "nat \<Rightarrow> SrsBuffer \<Rightarrow> (byte list \<times> SrsBuffer) result" where
  "read_bytes sz = bnd (srs_assert (SrsBuffer_require (int sz))) (\<lambda>_. fetch sz)"

definition read_1bytes :: "SrsBuffer \<Rightarrow> (byte \<times> SrsBuffer) result" where
  "read_1bytes = bnd (srs_assert (SrsBuffer_require 1)) (\<lambda>_.
     bnd (fetch 1) (\<lambda>bs. ret (hd bs)))"

definition read_2bytes :: "SrsBuffer \<Rightarrow> (16 word \<times> SrsBuffer) result" where
  "read_2bytes = bnd (srs_assert (SrsBuffer_require 2)) (\<lambda>_.
     bnd (fetch 2) (\<lambda>bs. ret (word_of_int (le_val (rev bs)))))"

definition read_3bytes :: "SrsBuffer \<Rightarrow> (32 word \<times> SrsBuffer) result" where
  "read_3bytes = bnd (srs_assert (SrsBuffer_require 3)) (\<lambda>_.
     bnd (fetch 3) (\<lambda>bs. ret (word_of_int (le_val (rev bs @ [0])))))"

definition read_4bytes :: "SrsBuffer \<Rightarrow> (32 word \<times> SrsBuffer) result" where
  "read_4bytes = bnd (srs_assert (SrsBuffer_require 4)) (\<lambda>_.
     bnd (fetch 4) (\<lambda>bs. ret (word_of_int (le_val (rev bs)))))"

definition read_le4bytes :: "SrsBuffer \<Rightarrow> (32 word \<times> SrsBuffer) result" where
  "read_le4bytes = bnd (srs_assert (SrsBuffer_require 4)) (\<lambda>_.
     bnd (fetch 4) (\<lambda>bs. ret (word_of_int (le_val bs))))"

definition read_8bytes :: "SrsBuffer \<Rightarrow> (64 word \<times> SrsBuffer) result" where
  "read_8bytes = bnd (srs_assert (SrsBuffer_require 8)) (\<lambda>_.
     bnd (fetch 8) (\<lambda>bs. ret (word_of_int (le_val (rev bs)))))"

definition read_string :: "int \<Rightarrow> SrsBuffer \<Rightarrow> (string \<times> SrsBuffer) result" where
  "read_string len = bnd (srs_assert (SrsBuffer_require len)) (\<lambda>_.
     bnd (fetch (nat len)) (\<lambda>bs. ret (bytes_string bs)))"

definition write_1bytes :: "byte \<Rightarrow> SrsBuffer \<Rightarrow> (unit \<times> SrsBuffer) result" where
  "write_1bytes value = bnd (srs_assert (SrsBuffer_require 1)) (\<lambda>_. store [value])"

definition write_2bytes :: "16 word \<Rightarrow> SrsBuffer \<Rightarrow> (unit \<times> SrsBuffer) result" where
  "write_2bytes value = bnd (srs_assert (SrsBuffer_require 2)) (\<lambda>_.
     store (rev (le_bytes 2 (uint value))))"

definition write_3bytes :: "32 word \<Rightarrow> SrsBuffer \<Rightarrow> (unit \<times> SrsBuffer) result" where
  "write_3bytes value = bnd (srs_assert (SrsBuffer_require 3)) (\<lambda>_.
     store (rev (take 3 (le_bytes 4 (uint value)))))"

definition write_4bytes :: "32 word \<Rightarrow> SrsBuffer \<Rightarrow> (unit \<times> SrsBuffer) result" where
  "write_4bytes value = bnd (srs_assert (SrsBuffer_require 4)) (\<lambda>_.
     store (rev (le_bytes 4 (uint value))))"

definition write_le4bytes :: "32 word \<Rightarrow> SrsBuffer \<Rightarrow> (unit \<times> SrsBuffer) result" where
  "write_le4bytes value = bnd (srs_assert (SrsBuffer_require 4)) (\<lambda>_.
     store (le_bytes 4 (uint value)))"

definition write_8bytes :: "64 word \<Rightarrow> SrsBuffer \<Rightarrow> (unit \<times> SrsBuffer) result" where
  "write_8bytes value = bnd (srs_assert (SrsBuffer_require 8)) (\<lambda>_.
     store (rev (le_bytes 8 (uint value))))"

definition write_string :: "string \<Rightarrow> SrsBuffer \<Rightarrow> (unit \<times> SrsBuffer) result" where
  "write_string value =
     (if value = [] then ret ()
      else bnd (srs_assert (SrsBuffer_require (int (length value)))) (\<lambda>_.
             store (string_bytes value)))"

definition write_bytes :: "byte list \<Rightarrow> SrsBuffer \<Rightarrow> (unit \<times> SrsBuffer) result" where
  "write_bytes data =
     (if data = [] then ret ()
      else bnd (srs_assert (SrsBuffer_require (int (length data)))) (\<lambda>_. store data))"

section \<open>SrsBitBuffer\<close>

record SrsBitBuffer =
  bb_cb :: byte
  bb_cb_left :: nat
  bb_stream :: SrsBuffer

definition SrsBitBuffer_new :: "SrsBuffer \<Rightarrow> SrsBitBuffer" where
  "SrsBitBuffer_new b = \<lparr>bb_cb = 0, bb_cb_left = 0, bb_stream = b\<rparr>"

definition SrsBitBuffer_empty :: "SrsBitBuffer \<Rightarrow> bool" where
  "SrsBitBuffer_empty bb \<longleftrightarrow> (if bb_cb_left bb \<noteq> 0 then False else SrsBuffer_empty (bb_stream bb))"

definition read_bit :: "SrsBitBuffer \<Rightarrow> (bool \<times> SrsBitBuffer) result" where
  "read_bit bb =
     (let refill = (if bb_cb_left bb = 0
            then (if SrsBuffer_empty (bb_stream bb) then Inl Srs_abort
                  else case read_1bytes (bb_stream bb) of
                         Inl e \<Rightarrow> Inl e
                       | Inr (c, s) \<Rightarrow> Inr (bb\<lparr>bb_cb := c, bb_cb_left := 8, bb_stream := s\<rparr>))
            else Inr bb)
      in case refill of
           Inl e \<Rightarrow> Inl e
         | Inr bb' \<Rightarrow> Inr (bit (bb_cb bb') (bb_cb_left bb' - 1),
                          bb'\<lparr>bb_cb_left := bb_cb_left bb' - 1\<rparr>))"

section \<open>SrsSimpleStream\<close>

record SrsSimpleStream =
  ss_data :: "byte list"

definition SrsSimpleStream_new :: SrsSimpleStream where
  "SrsSimpleStream_new = \<lparr>ss_data = []\<rparr>"

definition SrsSimpleStream_length :: "SrsSimpleStream \<Rightarrow> int" where
  "SrsSimpleStream_length s = int (length (ss_data s))"

definition SrsSimpleStream_erase :: "int \<Rightarrow> SrsSimpleStream \<Rightarrow> SrsSimpleStream" where
  "SrsSimpleStream_erase sz s =
     (if sz \<le> 0 then s
      else if sz \<ge> SrsSimpleStream_length s then s\<lparr>ss_data := []\<rparr>
      else s\<lparr>ss_data := drop (nat sz) (ss_data s)\<rparr>)"

definition SrsSimpleStream_append :: "byte list \<Rightarrow> SrsSimpleStream \<Rightarrow> SrsSimpleStream result" where
  "SrsSimpleStream_append bytes s =
     (if int (length bytes) > 0 then Inr (s\<lparr>ss_data := ss_data s @ bytes\<rparr>) else Inl Srs_abort)"

definition SrsSimpleStream_append_stream ::
    "SrsSimpleStream \<Rightarrow> SrsSimpleStream \<Rightarrow> SrsSimpleStream result" where
  "SrsSimpleStream_append_stream src s =
     (if SrsSimpleStream_length src > 0 then SrsSimpleStream_append (ss_data src) s else Inr s)"

section \<open>The view of a buffer: what is left to read\<close>

definition buf_rest :: "SrsBuffer \<Rightarrow> byte list" where
  "buf_rest b = drop (buf_p b) (buf_bytes b)"

definition buf_wf :: "SrsBuffer \<Rightarrow> bool" where
  "buf_wf b \<longleftrightarrow> buf_p b \<le> length (buf_bytes b)"

definition buf_adv :: "nat \<Rightarrow> SrsBuffer \<Rightarrow> SrsBuffer" where
  "buf_adv n b = b\<lparr>buf_p := buf_p b + n\<rparr>"

lemma buf_rest_adv [simp]: "buf_rest (buf_adv n b) = drop n (buf_rest b)"
  by (simp add: buf_rest_def buf_adv_def add.commute)

lemma buf_bytes_adv [simp]: "buf_bytes (buf_adv n b) = buf_bytes b"
  by (simp add: buf_adv_def)

lemma buf_p_adv [simp]: "buf_p (buf_adv n b) = buf_p b + n"
  by (simp add: buf_adv_def)

lemma buf_adv_adv [simp]: "buf_adv n (buf_adv m b) = buf_adv (m + n) b"
  by (simp add: buf_adv_def)

lemma buf_adv_0 [simp]: "buf_adv 0 b = b"
  by (simp add: buf_adv_def)

lemma buf_wf_adv: "buf_wf b \<Longrightarrow> n \<le> length (buf_rest b) \<Longrightarrow> buf_wf (buf_adv n b)"
  by (auto simp: buf_wf_def buf_rest_def buf_adv_def)

lemma buf_wf_new [simp]: "buf_wf (SrsBuffer_new bs)"
  by (simp add: buf_wf_def SrsBuffer_new_def)

lemma buf_rest_new [simp]: "buf_rest (SrsBuffer_new bs) = bs"
  by (simp add: buf_rest_def SrsBuffer_new_def)

lemma require_iff:
  "0 < n \<Longrightarrow> SrsBuffer_require n b \<longleftrightarrow> nat n \<le> length (buf_rest b)"
  by (auto simp: SrsBuffer_require_def SrsBuffer_left_def buf_rest_def)

lemma require_wf_iff:
  "buf_wf b \<Longrightarrow> SrsBuffer_require n b \<longleftrightarrow> 0 \<le> n \<and> nat n \<le> length (buf_rest b)"
  by (auto simp: SrsBuffer_require_def SrsBuffer_left_def buf_rest_def buf_wf_def)

lemma empty_iff [simp]: "SrsBuffer_empty b \<longleftrightarrow> buf_rest b = []"
  by (simp add: SrsBuffer_empty_def buf_rest_def)

text \<open>Each read, as a function of what is left.\<close>

lemma fetch_eq: "fetch n b = Inr (take n (buf_rest b), buf_adv n b)"
  by (simp add: fetch_def buf_rest_def buf_adv_def)

lemmas buf_read_defs = bnd_def srs_assert_def ret_def fetch_eq require_iff

lemma read_bytes_eq:
  "0 < n \<Longrightarrow> read_bytes n b =
     (if n \<le> length (buf_rest b) then Inr (take n (buf_rest b), buf_adv n b) else Inl Srs_abort)"
  by (simp add: read_bytes_def buf_read_defs)

lemma read_1bytes_eq [srs_simps]:
  "read_1bytes b = (case buf_rest b of [] \<Rightarrow> Inl Srs_abort | x # _ \<Rightarrow> Inr (x, buf_adv 1 b))"
  by (auto simp: read_1bytes_def buf_read_defs split: list.splits)

lemma read_2bytes_eq:
  "read_2bytes b = (if 2 \<le> length (buf_rest b)
     then Inr (word_of_int (le_val (rev (take 2 (buf_rest b)))), buf_adv 2 b) else Inl Srs_abort)"
  by (simp add: read_2bytes_def buf_read_defs)

lemma le_val_snoc_0 [simp]: "le_val (bs @ [0]) = le_val bs"
  by (induction bs) auto

lemma read_3bytes_eq:
  "read_3bytes b = (if 3 \<le> length (buf_rest b)
     then Inr (word_of_int (le_val (rev (take 3 (buf_rest b)))), buf_adv 3 b) else Inl Srs_abort)"
  by (simp add: read_3bytes_def buf_read_defs)

lemma read_4bytes_eq:
  "read_4bytes b = (if 4 \<le> length (buf_rest b)
     then Inr (word_of_int (le_val (rev (take 4 (buf_rest b)))), buf_adv 4 b) else Inl Srs_abort)"
  by (simp add: read_4bytes_def buf_read_defs)

lemma read_le4bytes_eq:
  "read_le4bytes b = (if 4 \<le> length (buf_rest b)
     then Inr (word_of_int (le_val (take 4 (buf_rest b))), buf_adv 4 b) else Inl Srs_abort)"
  by (simp add: read_le4bytes_def buf_read_defs)

lemma read_8bytes_eq:
  "read_8bytes b = (if 8 \<le> length (buf_rest b)
     then Inr (word_of_int (le_val (rev (take 8 (buf_rest b)))), buf_adv 8 b) else Inl Srs_abort)"
  by (simp add: read_8bytes_def buf_read_defs)

lemma read_string_eq:
  "0 < n \<Longrightarrow> read_string n b = (if nat n \<le> length (buf_rest b)
     then Inr (bytes_string (take (nat n) (buf_rest b)), buf_adv (nat n) b) else Inl Srs_abort)"
  by (simp add: read_string_def buf_read_defs)

text \<open>\<^verbatim>\<open>SrsBuffer\<close> is a cursor: the contract that the packet decoders rely on.\<close>

interpretation buf: byte_cursor buf_rest buf_wf read_bytes "\<lambda>b. length (buf_bytes b)"
proof unfold_locales
  fix b n
  assume wf: "buf_wf b" and n: "n \<le> length (buf_rest b)"
  have "read_bytes n b = Inr (take n (buf_rest b), buf_adv n b)"
    using wf n by (simp add: read_bytes_def bnd_def srs_assert_def require_wf_iff fetch_eq)
  then show "\<exists>b'. read_bytes n b = Inr (take n (buf_rest b), b') \<and> buf_rest b' = drop n (buf_rest b)
      \<and> buf_wf b' \<and> length (buf_bytes b') = length (buf_bytes b)"
    using wf n by (auto intro: buf_wf_adv)
qed

section \<open>Writing: what an operation stores\<close>

text \<open>
  \<open>writes m xs\<close>: wherever there is room for \<open>xs\<close>, the operation \<open>m\<close> stores exactly \<open>xs\<close> at the
  cursor and moves past it. The encoders are described by the bytes they write.
\<close>

named_theorems writes_intros \<open>the bytes each writing operation stores\<close>

definition writes :: "(SrsBuffer \<Rightarrow> (unit \<times> SrsBuffer) result) \<Rightarrow> byte list \<Rightarrow> bool" where
  "writes m xs \<longleftrightarrow> (\<forall>b. buf_wf b \<longrightarrow> length xs \<le> length (buf_rest b) \<longrightarrow> m b = store xs b)"

lemma store_props:
  assumes "buf_wf b" and "length xs \<le> length (buf_rest b)" and "store xs b = Inr (u, b')"
  shows "buf_wf b'" and "buf_rest b' = drop (length xs) (buf_rest b)"
    and "length (buf_bytes b') = length (buf_bytes b)"
  using assms by (auto simp: store_def buf_wf_def buf_rest_def add.commute)

lemma store_append:
  assumes "buf_wf b" and "length (xs @ ys) \<le> length (buf_rest b)"
  shows "bnd (store xs) (\<lambda>_. store ys) b = store (xs @ ys) b"
  using assms by (simp add: bnd_def store_def buf_wf_def buf_rest_def min_def ac_simps)

lemma writes_bnd [writes_intros]:
  assumes "writes m xs" and "writes n ys"
  shows "writes (bnd m (\<lambda>_. n)) (xs @ ys)"
  unfolding writes_def
proof (intro allI impI)
  fix b assume wf: "buf_wf b" and len: "length (xs @ ys) \<le> length (buf_rest b)"
  obtain b' where b': "store xs b = Inr ((), b')" by (simp add: store_def)
  have "buf_wf b'" "length ys \<le> length (buf_rest b')"
    using store_props [OF wf _ b'] len by auto
  then have "n b' = store ys b'" using assms(2) by (simp add: writes_def)
  moreover have "m b = Inr ((), b')" using assms(1) wf len b' by (simp add: writes_def)
  ultimately show "bnd m (\<lambda>_. n) b = store (xs @ ys) b"
    using store_append [OF wf len] b' by (simp add: bnd_def)
qed

lemma writes_ret [writes_intros]: "writes (ret ()) []"
  by (simp add: writes_def ret_def store_def)

lemma writes_if [writes_intros]:
  "(P \<Longrightarrow> writes m xs) \<Longrightarrow> (\<not> P \<Longrightarrow> writes n ys)
    \<Longrightarrow> writes (if P then m else n) (if P then xs else ys)"
  by auto

text \<open>A guard \<^verbatim>\<open>if (!stream->require(n)) return error\<close> passes when there is room for what follows.\<close>

definition guard_require :: "int \<Rightarrow> SrsErrorCode \<Rightarrow> SrsBuffer \<Rightarrow> (unit \<times> SrsBuffer) result" where
  "guard_require n c b = (if SrsBuffer_require n b then Inr ((), b) else Inl (Srs_error c))"

lemma writes_guard [writes_intros]:
  assumes "writes m xs" and "n \<le> int (length xs)" and "0 \<le> n"
  shows "writes (bnd (guard_require n c) (\<lambda>_. m)) xs"
  using assms by (auto simp: writes_def bnd_def guard_require_def require_wf_iff)

lemma writes_1bytes [writes_intros]: "writes (write_1bytes v) [v]"
  by (auto simp: writes_def write_1bytes_def bnd_def srs_assert_def require_iff)

lemma writes_2bytes [writes_intros]: "writes (write_2bytes v) (rev (le_bytes 2 (uint v)))"
  by (auto simp: writes_def write_2bytes_def bnd_def srs_assert_def require_iff)

lemma writes_3bytes [writes_intros]: "writes (write_3bytes v) (rev (take 3 (le_bytes 4 (uint v))))"
  by (auto simp: writes_def write_3bytes_def bnd_def srs_assert_def require_iff)

lemma writes_4bytes [writes_intros]: "writes (write_4bytes v) (rev (le_bytes 4 (uint v)))"
  by (auto simp: writes_def write_4bytes_def bnd_def srs_assert_def require_iff)

lemma writes_le4bytes [writes_intros]: "writes (write_le4bytes v) (le_bytes 4 (uint v))"
  by (auto simp: writes_def write_le4bytes_def bnd_def srs_assert_def require_iff)

lemma writes_8bytes [writes_intros]: "writes (write_8bytes v) (rev (le_bytes 8 (uint v)))"
  by (auto simp: writes_def write_8bytes_def bnd_def srs_assert_def require_iff)

lemma writes_string [writes_intros]: "writes (write_string s) (string_bytes s)"
  by (auto simp: writes_def write_string_def bnd_def srs_assert_def require_iff store_def ret_def)

lemma writes_bytes [writes_intros]: "writes (write_bytes xs) xs"
  by (auto simp: writes_def write_bytes_def bnd_def srs_assert_def require_iff store_def ret_def)

text \<open>On a fresh region of exactly the right size the operation succeeds and fills it.\<close>

lemma writes_exact:
  assumes "writes m xs" and "length ys = length xs"
  shows "m (SrsBuffer_new ys) = Inr ((), \<lparr>buf_bytes = xs, buf_p = length xs\<rparr>)"
  using assms(1) [unfolded writes_def, rule_format, of "SrsBuffer_new ys"] assms(2)
  by (simp add: store_def) (simp add: SrsBuffer_new_def)

section \<open>Reading: what an operation decodes\<close>

text \<open>
  \<open>reads m v xs\<close>: wherever the bytes ahead start with \<open>xs\<close>, the operation \<open>m\<close> returns \<open>v\<close> and
  moves just past \<open>xs\<close>. Together with \<open>writes\<close> it states the round trips.
\<close>

named_theorems reads_intros \<open>what each reading operation returns\<close>

definition reads :: "(SrsBuffer \<Rightarrow> ('a \<times> SrsBuffer) result) \<Rightarrow> 'a \<Rightarrow> byte list \<Rightarrow> bool" where
  "reads m v xs \<longleftrightarrow>
     (\<forall>b ys. buf_wf b \<longrightarrow> buf_rest b = xs @ ys \<longrightarrow> m b = Inr (v, buf_adv (length xs) b))"

lemma readsD: "reads m v xs \<Longrightarrow> buf_wf b \<Longrightarrow> buf_rest b = xs @ ys \<Longrightarrow> m b = Inr (v, buf_adv (length xs) b)"
  by (auto simp: reads_def)

lemma reads_bnd [reads_intros]:
  assumes "reads m v xs" and "reads (f v) w ys"
  shows "reads (bnd m f) w (xs @ ys)"
  unfolding reads_def
proof (intro allI impI)
  fix b zs assume wf: "buf_wf b" and rest: "buf_rest b = (xs @ ys) @ zs"
  have "m b = Inr (v, buf_adv (length xs) b)"
    using readsD [OF assms(1) wf] rest by simp
  moreover have "f v (buf_adv (length xs) b) = Inr (w, buf_adv (length ys) (buf_adv (length xs) b))"
    using rest by (intro readsD [OF assms(2) buf_wf_adv [OF wf]]) auto
  ultimately show "bnd m f b = Inr (w, buf_adv (length (xs @ ys)) b)"
    by (simp add: bnd_def)
qed

lemma reads_ret [reads_intros]: "reads (ret v) v []"
  by (simp add: reads_def ret_def)

lemma reads_guard [reads_intros]:
  assumes "reads m v xs" and "n \<le> int (length xs)" and "0 \<le> n"
  shows "reads (bnd (guard_require n c) (\<lambda>_. m)) v xs"
  using assms by (auto simp: reads_def bnd_def guard_require_def require_wf_iff)

lemma reads_1bytes [reads_intros]: "reads read_1bytes v [v]"
  by (simp add: reads_def read_1bytes_eq)

lemma reads_2bytes [reads_intros]: "reads read_2bytes v (rev (le_bytes 2 (uint v)))"
  by (simp add: reads_def read_2bytes_eq word_of_le_bytes)

lemma reads_4bytes [reads_intros]: "reads read_4bytes v (rev (le_bytes 4 (uint v)))"
  by (simp add: reads_def read_4bytes_eq word_of_le_bytes)

lemma reads_le4bytes [reads_intros]: "reads read_le4bytes v (le_bytes 4 (uint v))"
  by (simp add: reads_def read_le4bytes_eq word_of_le_bytes)

lemma reads_8bytes [reads_intros]: "reads read_8bytes v (rev (le_bytes 8 (uint v)))"
  by (simp add: reads_def read_8bytes_eq word_of_le_bytes)

lemma reads_3bytes [reads_intros]:
  "reads read_3bytes (take_bit 24 v) (rev (take 3 (le_bytes 4 (uint v))))"
proof -
  have "uint v mod 16777216 = uint (take_bit 24 v)"
    by (simp only: unsigned_take_bit_eq) (simp add: take_bit_eq_mod)
  then show ?thesis
    by (simp add: reads_def read_3bytes_eq take_le_bytes le_val_le_bytes)
qed

lemma reads_string [reads_intros]: "reads (read_string (int (length s))) s (string_bytes s)"
  by (auto simp: reads_def read_string_def bnd_def srs_assert_def require_wf_iff fetch_eq ret_def)

lemma reads_bytes [reads_intros]: "reads (read_bytes (length xs)) xs xs"
  by (auto simp: reads_def read_bytes_def bnd_def srs_assert_def require_wf_iff fetch_eq)

text \<open>What one operation writes and another reads comes back, and the cursor is where it was.\<close>

lemma write_skip_read:
  assumes "writes m xs" and "reads get v xs" and "buf_wf b" and "length xs \<le> length (buf_rest b)"
  shows "\<exists>b'. m b = Inr ((), b') \<and> bnd (SrsBuffer_skip (- int (length xs))) (\<lambda>_. get) b' = Inr (v, b')"
proof -
  define b' where "b' = b\<lparr>buf_bytes := take (buf_p b) (buf_bytes b) @ xs @ drop (buf_p b + length xs) (buf_bytes b),
      buf_p := buf_p b + length xs\<rparr>"
  define b0 where "b0 = b'\<lparr>buf_p := buf_p b\<rparr>"
  have m: "m b = Inr ((), b')"
    using assms by (simp add: writes_def store_def b'_def)
  have "buf_wf b0" "buf_rest b0 = xs @ drop (buf_p b + length xs) (buf_bytes b)"
    using assms(3) by (auto simp: b0_def b'_def buf_wf_def buf_rest_def)
  then have "get b0 = Inr (v, buf_adv (length xs) b0)"
    by (rule readsD [OF assms(2)])
  moreover have "SrsBuffer_skip (- int (length xs)) b' = Inr ((), b0)"
    using assms(3,4) by (auto simp: SrsBuffer_skip_def b0_def b'_def buf_wf_def buf_rest_def)
  moreover have "buf_adv (length xs) b0 = b'"
    by (simp add: b0_def b'_def buf_adv_def)
  ultimately show ?thesis using m by (simp add: bnd_def)
qed

section \<open>Operations that never stop the process\<close>

text \<open>
  \<open>safely L k m\<close>: on any buffer with at most \<open>L\<close> bytes left, \<open>m\<close> returns (a value or an error
  code), and when it succeeds it has consumed at least \<open>k\<close> bytes. The rules follow the code: an
  access is covered by the \<^verbatim>\<open>require\<close> that guards it, and a sequence adds up what it consumes.
\<close>

named_theorems safely_intros \<open>operations that never fail an assertion\<close>

definition safely :: "nat \<Rightarrow> nat \<Rightarrow> (SrsBuffer \<Rightarrow> ('a \<times> SrsBuffer) result) \<Rightarrow> bool" where
  "safely L k m \<longleftrightarrow> (\<forall>b. buf_wf b \<longrightarrow> length (buf_rest b) \<le> L \<longrightarrow>
     safe (m b) \<and> (\<forall>v b'. m b = Inr (v, b') \<longrightarrow>
       buf_wf b' \<and> length (buf_rest b') + k \<le> length (buf_rest b)))"

lemma safelyD:
  assumes "safely L k m" and "buf_wf b" and "length (buf_rest b) \<le> L"
  shows "safe (m b)" and "m b = Inr (v, b') \<Longrightarrow> buf_wf b' \<and> length (buf_rest b') + k \<le> length (buf_rest b)"
  using assms by (auto simp: safely_def)

lemma safely_bnd:
  assumes "safely L k m" and "\<And>v. k \<le> L \<Longrightarrow> safely (L - k) j (f v)"
  shows "safely L (k + j) (bnd m f)"
  unfolding safely_def
proof (intro allI impI)
  fix b assume b: "buf_wf b" "length (buf_rest b) \<le> L"
  show "safe (bnd m f b) \<and> (\<forall>v b'. bnd m f b = Inr (v, b') \<longrightarrow>
      buf_wf b' \<and> length (buf_rest b') + (k + j) \<le> length (buf_rest b))"
  proof (cases "m b")
    case (Inl e)
    then show ?thesis using safelyD(1) [OF assms(1) b] by (simp add: bnd_def)
  next
    case (Inr r)
    then obtain v b1 where r: "m b = Inr (v, b1)" by (cases r) auto
    then have b1: "buf_wf b1" "length (buf_rest b1) + k \<le> length (buf_rest b)"
      using safelyD(2) [OF assms(1) b] by auto
    with b have L: "k \<le> L" "length (buf_rest b1) \<le> L - k" by auto
    show ?thesis
      using safelyD [OF assms(2) [OF L(1)] b1(1) L(2)] b1 r by (fastforce simp: bnd_def)
  qed
qed

lemma safely_weaken: "safely L k m \<Longrightarrow> L' \<le> L \<Longrightarrow> k' \<le> k \<Longrightarrow> safely L' k' m"
  unfolding safely_def by (meson add_le_mono order.trans order_refl)

lemma safely_bnd0 [safely_intros]:
  "safely L 0 m \<Longrightarrow> (\<And>v. safely L j (f v)) \<Longrightarrow> safely L j (bnd m f)"
  using safely_bnd [of L 0 m j f] by simp

lemma safely_ret [safely_intros]: "safely L 0 (ret v)"
  by (simp add: safely_def ret_def)

lemma safely_fail [safely_intros]: "safely L k (fail (Srs_error c))"
  by (simp add: safely_def fail_def)

lemma safely_if [safely_intros]:
  "(P \<Longrightarrow> safely L k m) \<Longrightarrow> (\<not> P \<Longrightarrow> safely L k n) \<Longrightarrow> safely L k (if P then m else n)"
  by auto

text \<open>A guarded operation: \<open>n\<close> bytes are required, the operation uses just these.\<close>

definition uses :: "nat \<Rightarrow> (SrsBuffer \<Rightarrow> ('a \<times> SrsBuffer) result) \<Rightarrow> bool" where
  "uses n m \<longleftrightarrow> (\<forall>b. buf_wf b \<longrightarrow> n \<le> length (buf_rest b) \<longrightarrow>
     (\<exists>v b'. m b = Inr (v, b') \<and> buf_wf b' \<and> length (buf_rest b') + n = length (buf_rest b)))"

lemma uses_reads: "uses 1 read_1bytes" "uses 2 read_2bytes" "uses 3 read_3bytes" "uses 4 read_4bytes"
  "uses 4 read_le4bytes" "uses 8 read_8bytes" "uses n (read_bytes n)"
  by (auto simp: uses_def read_1bytes_eq read_2bytes_eq read_3bytes_eq read_4bytes_eq read_le4bytes_eq
      read_8bytes_eq read_bytes_def bnd_def srs_assert_def require_wf_iff fetch_eq buf_wf_adv split: list.splits)

lemma uses_string: "0 \<le> n \<Longrightarrow> uses (nat n) (read_string n)"
  by (auto simp: uses_def read_string_def bnd_def srs_assert_def require_wf_iff fetch_eq ret_def buf_wf_adv)

lemma uses_writes: "writes m xs \<Longrightarrow> length xs = n \<Longrightarrow> uses n m"
  unfolding uses_def
proof (intro allI impI)
  fix b assume m: "writes m xs" "length xs = n" and b: "buf_wf b" "n \<le> length (buf_rest b)"
  obtain b' where "store xs b = Inr ((), b')" by (simp add: store_def)
  with store_props [of b xs "()" b'] m b
  show "\<exists>v b'. m b = Inr (v, b') \<and> buf_wf b' \<and> length (buf_rest b') + n = length (buf_rest b)"
    by (auto simp: writes_def)
qed

lemma safely_guard:
  assumes "uses k m" and "nat n = k" 
  shows "safely L k (bnd (guard_require n c) (\<lambda>_. m))"
  using assms by (auto simp: safely_def uses_def bnd_def guard_require_def require_wf_iff) 

text \<open>The same when more follows the guarded access.\<close>

lemma bnd_assoc: "bnd (bnd m f) g = bnd m (\<lambda>x. bnd (f x) g)"
  by (rule ext) (simp add: bnd_def split: sum.splits)

lemma safely_guard_bnd:
  assumes "uses k m" and "nat n = k" and "\<And>v. k \<le> L \<Longrightarrow> safely (L - k) j (f v)"
  shows "safely L (k + j) (bnd (guard_require n c) (\<lambda>_. bnd m f))"
  using safely_bnd [OF safely_guard [OF assms(1,2)] assms(3)] by (simp add: bnd_assoc)

lemma safely_guard_bnd0:
  assumes "uses k m" and "nat n = k" and "\<And>v. safely L j (f v)"
  shows "safely L j (bnd (guard_require n c) (\<lambda>_. bnd m f))"
  using safely_weaken [OF safely_guard_bnd [OF assms(1,2), of L j f c], of L j] safely_weaken [OF assms(3)]
  by simp

lemma safely_guard_then:
  assumes "uses k m" and "nat n = k" and "\<And>v. safely (L - k) 0 (f v)"
  shows "safely L k (bnd (guard_require n c) (\<lambda>_. bnd m f))"
  using safely_guard_bnd [OF assms(1,2), of L 0 f c] assms(3) by simp

lemma safely_then:
  "safely L k m \<Longrightarrow> (\<And>v. k \<le> L \<Longrightarrow> safely (L - k) 0 (f v)) \<Longrightarrow> safely L k (bnd m f)"
  using safely_bnd [of L k m 0 f] by simp

lemma safely_map: "safely L k m \<Longrightarrow> safely L k (bnd m (\<lambda>x. ret (f x)))"
  by (rule safely_then) (auto intro: safely_ret)

lemmas safely_guards [safely_intros] =
  safely_guard_bnd0 [OF uses_reads(1), of 1, simplified]
  safely_guard_bnd0 [OF uses_reads(2), of 2, simplified]
  safely_guard_bnd0 [OF uses_reads(3), of 3, simplified]
  safely_guard_bnd0 [OF uses_reads(4), of 4, simplified]
  safely_guard_bnd0 [OF uses_reads(5), of 4, simplified]
  safely_guard_bnd0 [OF uses_reads(6), of 8, simplified]

lemma safely_safe: "(\<And>L. safely L k m) \<Longrightarrow> buf_wf b \<Longrightarrow> safe (m b)"
  using safelyD(1) by blast

section \<open>Properties\<close>

text \<open>\<open>roundtrips put get n v b\<close>: with room for \<open>n\<close> bytes, \<open>put\<close> succeeds, and stepping back and
  reading with \<open>get\<close> returns \<open>v\<close> and the buffer as \<open>put\<close> left it.\<close>

definition roundtrips :: "(SrsBuffer \<Rightarrow> (unit \<times> SrsBuffer) result) \<Rightarrow> (SrsBuffer \<Rightarrow> ('a \<times> SrsBuffer) result)
    \<Rightarrow> nat \<Rightarrow> 'a \<Rightarrow> SrsBuffer \<Rightarrow> bool" where
  "roundtrips put get n v b \<longleftrightarrow> (n \<le> length (buf_rest b) \<longrightarrow>
     (\<exists>b'. put b = Inr ((), b') \<and> bnd (SrsBuffer_skip (- int n)) (\<lambda>_. get) b' = Inr (v, b')))"

lemma roundtripsI:
  assumes "writes m xs" and "reads get v xs" and "buf_wf b" and "length xs = n"
  shows "roundtrips m get n v b"
  using write_skip_read [OF assms(1-3)] assms(4) by (auto simp: roundtrips_def)

text \<open>Every width of \<^verbatim>\<open>SrsBuffer\<close> round-trips: an integer, string or byte run that was
  written at any position with room for it, after \<^verbatim>\<open>skip\<close> back, is read back unchanged (the
  three-byte write keeps the low 24 bits of its \<^verbatim>\<open>int32_t\<close>), big-endian and little-endian alike.\<close>

theorem buffer_roundtrip:
  assumes "buf_wf b"
  shows "roundtrips (write_1bytes v1) read_1bytes 1 v1 b
    \<and> roundtrips (write_2bytes v2) read_2bytes 2 v2 b
    \<and> roundtrips (write_3bytes v3) read_3bytes 3 (take_bit 24 v3) b
    \<and> roundtrips (write_4bytes v4) read_4bytes 4 v4 b
    \<and> roundtrips (write_le4bytes v4) read_le4bytes 4 v4 b
    \<and> roundtrips (write_8bytes v8) read_8bytes 8 v8 b
    \<and> roundtrips (write_string s) (read_string (int (length s))) (length s) s b
    \<and> roundtrips (write_bytes bs) (read_bytes (length bs)) (length bs) bs b"
  by (intro conjI; rule roundtripsI, (rule writes_intros), (rule reads_intros), rule assms, simp)

theorem buffer_roundtrip_witness:
  "roundtrips (write_4bytes 305419896) read_4bytes 4 305419896 (SrsBuffer_new [1, 2, 3, 4, 5])
    \<and> write_4bytes 305419896 (SrsBuffer_new [1, 2, 3, 4, 5])
        = Inr ((), \<lparr>buf_bytes = [18, 52, 86, 120, 5], buf_p = 4\<rparr>)"
proof (rule conjI)
  show "roundtrips (write_4bytes 305419896) read_4bytes 4 305419896 (SrsBuffer_new [1, 2, 3, 4, 5])"
    using buffer_roundtrip [of "SrsBuffer_new [1, 2, 3, 4, 5]"] by simp
qed (simp add: le_bytes_numeral write_4bytes_def bnd_def srs_assert_def store_def SrsBuffer_require_def
    SrsBuffer_left_def SrsBuffer_new_def)

text \<open>Reading \<open>n\<close> bits, as the SPS parser does in its loops.\<close>

fun read_bits :: "nat \<Rightarrow> SrsBitBuffer \<Rightarrow> (bool list \<times> SrsBitBuffer) result" where
  "read_bits 0 bb = Inr ([], bb)"
| "read_bits (Suc n) bb = bnd read_bit (\<lambda>x. bnd (read_bits n) (\<lambda>xs. ret (x # xs))) bb"

text \<open>The bits of a byte, most significant first, and all the bits a bit buffer has left.\<close>

definition byte_bits :: "byte \<Rightarrow> bool list" where
  "byte_bits b = map (bit b) (rev [0..<8])"

definition bb_rest :: "SrsBitBuffer \<Rightarrow> bool list" where
  "bb_rest bb = drop (8 - bb_cb_left bb) (byte_bits (bb_cb bb)) @ concat (map byte_bits (buf_rest (bb_stream bb)))"

lemma read_bit_step:
  assumes "bb_cb_left bb \<le> 8"
  shows "case bb_rest bb of [] \<Rightarrow> read_bit bb = Inl Srs_abort
    | x # xs \<Rightarrow> \<exists>bb'. read_bit bb = Inr (x, bb') \<and> bb_rest bb' = xs \<and> bb_cb_left bb' \<le> 8"
proof (cases "bb_cb_left bb")
  case 0
  then show ?thesis
    by (cases "buf_rest (bb_stream bb)")
      (auto simp: read_bit_def bb_rest_def read_1bytes_eq byte_bits_def upt_rec numeral_eq_Suc)
next
  case (Suc k)
  then have "k < 8" using assms by simp
  then have "rev [0..<8] = rev [Suc k..<8] @ k # rev [0..<k]"
    by (metis append.assoc append_Cons append_Nil less_imp_add_positive rev.simps(2) rev_append rev_is_rev_conv upt_add_eq_append upt_rec zero_le less_imp_le)
  then have "drop (8 - Suc k) (rev [0..<8]) = k # rev [0..<k]" and "drop (8 - k) (rev [0..<8]) = rev [0..<k]"
    using \<open>k < 8\<close> by auto
  then show ?thesis using Suc \<open>k < 8\<close>
    by (simp add: read_bit_def bb_rest_def byte_bits_def drop_map)
qed

lemma read_bits_ok:
  assumes "bb_cb_left bb \<le> 8" and "n \<le> length (bb_rest bb)"
  shows "\<exists>bb'. read_bits n bb = Inr (take n (bb_rest bb), bb') \<and> bb_rest bb' = drop n (bb_rest bb)
     \<and> bb_cb_left bb' \<le> 8"
  using assms
proof (induction n arbitrary: bb)
  case (Suc n)
  then obtain x xs where rest: "bb_rest bb = x # xs" by (cases "bb_rest bb") auto
  with read_bit_step [OF Suc.prems(1)] obtain bb' where
    "read_bit bb = Inr (x, bb')" "bb_rest bb' = xs" "bb_cb_left bb' \<le> 8" by auto
  with Suc.IH [of bb'] Suc.prems rest show ?case
    by (auto simp: bnd_def ret_def)
qed auto

text \<open>\<^verbatim>\<open>SrsBitBuffer\<close> delivers the bits of the underlying bytes in order, most significant
  bit of each byte first, and does not fail its assertion while bits are left.\<close>

theorem bit_buffer_msb_first:
  assumes "n \<le> 8 * length (buf_rest b)"
  shows "\<exists>bb'. read_bits n (SrsBitBuffer_new b) =
     Inr (take n (concat (map byte_bits (buf_rest b))), bb')"
proof -
  have "length (concat (map byte_bits bs)) = 8 * length bs" for bs
    by (induction bs) (auto simp: byte_bits_def)
  then have "n \<le> length (bb_rest (SrsBitBuffer_new b))"
    using assms by (simp add: bb_rest_def SrsBitBuffer_new_def)
  from read_bits_ok [OF _ this] show ?thesis
    by (auto simp: bb_rest_def SrsBitBuffer_new_def byte_bits_def)
qed

theorem bit_buffer_msb_first_witness:
  "\<exists>bb'. read_bits 10 (SrsBitBuffer_new (SrsBuffer_new [165, 192])) =
     Inr ([True, False, True, False, False, True, False, True, True, True], bb')"
  using bit_buffer_msb_first [of 10 "SrsBuffer_new [165, 192]"]
  by (simp add: byte_bits_def upt_rec bit_iff_odd_drop_bit)

end
