(* ===== verification/Amf0.thy ===== *)
theory Amf0
  imports Buffer
begin

text \<open>
  The AMF0 values of \<^verbatim>\<open>src/src/protocol/srs_protocol_amf0.cpp\<close>: the class hierarchy below
  \<^verbatim>\<open>SrsAmf0Any\<close> as a datatype, the ordered property table \<^verbatim>\<open>SrsUnSortedHashtable\<close>, the sizes of
  \<^verbatim>\<open>SrsAmf0Size\<close>, and the readers and writers over \<^verbatim>\<open>SrsBuffer\<close>. The recursion of the reader
  (an object holds any values, which may be objects) is bounded by fuel; the entry points give one
  more than the bytes that are left, and \<open>amf0_read_any_safe\<close> proves that this is always enough.
\<close>

section \<open>Values\<close>

datatype SrsAmf0Any =
    SrsAmf0String string
  | SrsAmf0Boolean bool
  | SrsAmf0Number double
  | SrsAmf0Null
  | SrsAmf0Undefined
  | SrsAmf0Object "(string \<times> SrsAmf0Any) list"
  | SrsAmf0ObjectEOF
  | SrsAmf0EcmaArray "32 word" "(string \<times> SrsAmf0Any) list"

type_synonym SrsUnSortedHashtable = "(string \<times> SrsAmf0Any) list"

abbreviation (input) RTMP_AMF0_Number :: byte where "RTMP_AMF0_Number \<equiv> 0x00"
abbreviation (input) RTMP_AMF0_Boolean :: byte where "RTMP_AMF0_Boolean \<equiv> 0x01"
abbreviation (input) RTMP_AMF0_String :: byte where "RTMP_AMF0_String \<equiv> 0x02"
abbreviation (input) RTMP_AMF0_Object :: byte where "RTMP_AMF0_Object \<equiv> 0x03"
abbreviation (input) RTMP_AMF0_Null :: byte where "RTMP_AMF0_Null \<equiv> 0x05"
abbreviation (input) RTMP_AMF0_Undefined :: byte where "RTMP_AMF0_Undefined \<equiv> 0x06"
abbreviation (input) RTMP_AMF0_EcmaArray :: byte where "RTMP_AMF0_EcmaArray \<equiv> 0x08"
abbreviation (input) RTMP_AMF0_ObjectEnd :: byte where "RTMP_AMF0_ObjectEnd \<equiv> 0x09"

fun amf0_marker :: "SrsAmf0Any \<Rightarrow> byte" where
  "amf0_marker (SrsAmf0String _) = RTMP_AMF0_String"
| "amf0_marker (SrsAmf0Boolean _) = RTMP_AMF0_Boolean"
| "amf0_marker (SrsAmf0Number _) = RTMP_AMF0_Number"
| "amf0_marker SrsAmf0Null = RTMP_AMF0_Null"
| "amf0_marker SrsAmf0Undefined = RTMP_AMF0_Undefined"
| "amf0_marker (SrsAmf0Object _) = RTMP_AMF0_Object"
| "amf0_marker SrsAmf0ObjectEOF = RTMP_AMF0_ObjectEnd"
| "amf0_marker (SrsAmf0EcmaArray _ _) = RTMP_AMF0_EcmaArray"

definition amf0_is_string :: "SrsAmf0Any \<Rightarrow> bool" where
  "amf0_is_string v \<longleftrightarrow> amf0_marker v = RTMP_AMF0_String"

definition amf0_is_boolean :: "SrsAmf0Any \<Rightarrow> bool" where
  "amf0_is_boolean v \<longleftrightarrow> amf0_marker v = RTMP_AMF0_Boolean"

definition amf0_is_number :: "SrsAmf0Any \<Rightarrow> bool" where
  "amf0_is_number v \<longleftrightarrow> amf0_marker v = RTMP_AMF0_Number"

definition amf0_is_null :: "SrsAmf0Any \<Rightarrow> bool" where
  "amf0_is_null v \<longleftrightarrow> amf0_marker v = RTMP_AMF0_Null"

definition amf0_is_undefined :: "SrsAmf0Any \<Rightarrow> bool" where
  "amf0_is_undefined v \<longleftrightarrow> amf0_marker v = RTMP_AMF0_Undefined"

definition amf0_is_object :: "SrsAmf0Any \<Rightarrow> bool" where
  "amf0_is_object v \<longleftrightarrow> amf0_marker v = RTMP_AMF0_Object"

definition amf0_is_object_eof :: "SrsAmf0Any \<Rightarrow> bool" where
  "amf0_is_object_eof v \<longleftrightarrow> amf0_marker v = RTMP_AMF0_ObjectEnd"

definition amf0_is_ecma_array :: "SrsAmf0Any \<Rightarrow> bool" where
  "amf0_is_ecma_array v \<longleftrightarrow> amf0_marker v = RTMP_AMF0_EcmaArray"

definition amf0_is_complex_object :: "SrsAmf0Any \<Rightarrow> bool" where
  "amf0_is_complex_object v \<longleftrightarrow> amf0_is_object v \<or> amf0_is_object_eof v \<or> amf0_is_ecma_array v"

text \<open>The checked downcasts: \<^verbatim>\<open>srs_assert(dynamic_cast<...>(this) != NULL)\<close>.\<close>

fun amf0_to_str :: "SrsAmf0Any \<Rightarrow> string result" where
  "amf0_to_str (SrsAmf0String s) = Inr s"
| "amf0_to_str _ = Inl Srs_abort"

fun amf0_to_boolean :: "SrsAmf0Any \<Rightarrow> bool result" where
  "amf0_to_boolean (SrsAmf0Boolean b) = Inr b"
| "amf0_to_boolean _ = Inl Srs_abort"

fun amf0_to_number :: "SrsAmf0Any \<Rightarrow> double result" where
  "amf0_to_number (SrsAmf0Number d) = Inr d"
| "amf0_to_number _ = Inl Srs_abort"

fun amf0_to_object :: "SrsAmf0Any \<Rightarrow> SrsUnSortedHashtable result" where
  "amf0_to_object (SrsAmf0Object ps) = Inr ps"
| "amf0_to_object _ = Inl Srs_abort"

fun amf0_to_ecma_array :: "SrsAmf0Any \<Rightarrow> (32 word \<times> SrsUnSortedHashtable) result" where
  "amf0_to_ecma_array (SrsAmf0EcmaArray c ps) = Inr (c, ps)"
| "amf0_to_ecma_array _ = Inl Srs_abort"

fun amf0_set_number :: "double \<Rightarrow> SrsAmf0Any \<Rightarrow> SrsAmf0Any result" where
  "amf0_set_number x (SrsAmf0Number _) = Inr (SrsAmf0Number x)"
| "amf0_set_number _ _ = Inl Srs_abort"

section \<open>The property table\<close>

definition ht_count :: "SrsUnSortedHashtable \<Rightarrow> int" where
  "ht_count ps = int (length ps)"

definition ht_key_at :: "nat \<Rightarrow> SrsUnSortedHashtable \<Rightarrow> string result" where
  "ht_key_at i ps = (if int i < ht_count ps then Inr (fst (ps ! i)) else Inl Srs_abort)"

definition ht_value_at :: "nat \<Rightarrow> SrsUnSortedHashtable \<Rightarrow> SrsAmf0Any result" where
  "ht_value_at i ps = (if int i < ht_count ps then Inr (snd (ps ! i)) else Inl Srs_abort)"

text \<open>\<^verbatim>\<open>set\<close> erases the first entry of that name and appends the new one (none when it is null).\<close>

fun ht_erase_first :: "string \<Rightarrow> SrsUnSortedHashtable \<Rightarrow> SrsUnSortedHashtable" where
  "ht_erase_first key [] = []"
| "ht_erase_first key ((name, any) # ps) =
     (if key = name then ps else (name, any) # ht_erase_first key ps)"

definition ht_set :: "string \<Rightarrow> SrsAmf0Any option \<Rightarrow> SrsUnSortedHashtable \<Rightarrow> SrsUnSortedHashtable" where
  "ht_set key val ps =
     (case val of None \<Rightarrow> ht_erase_first key ps | Some v \<Rightarrow> ht_erase_first key ps @ [(key, v)])"

fun ht_get_property :: "string \<Rightarrow> SrsUnSortedHashtable \<Rightarrow> SrsAmf0Any option" where
  "ht_get_property name [] = None"
| "ht_get_property name ((key, any) # ps) = (if key = name then Some any else ht_get_property name ps)"

definition ht_ensure_property_string :: "string \<Rightarrow> SrsUnSortedHashtable \<Rightarrow> SrsAmf0Any option" where
  "ht_ensure_property_string name ps =
     (case ht_get_property name ps of
        None \<Rightarrow> None
      | Some prop \<Rightarrow> if \<not> amf0_is_string prop then None else Some prop)"

definition ht_ensure_property_number :: "string \<Rightarrow> SrsUnSortedHashtable \<Rightarrow> SrsAmf0Any option" where
  "ht_ensure_property_number name ps =
     (case ht_get_property name ps of
        None \<Rightarrow> None
      | Some prop \<Rightarrow> if \<not> amf0_is_number prop then None else Some prop)"

fun ht_remove :: "string \<Rightarrow> SrsUnSortedHashtable \<Rightarrow> SrsUnSortedHashtable" where
  "ht_remove name [] = []"
| "ht_remove name ((key, any) # ps) =
     (if key = name then ht_remove name ps else (key, any) # ht_remove name ps)"

text \<open>
  The deep copy of a value. A string is copied through \<^verbatim>\<open>c_str()\<close>, so up to its first NUL;
  the properties of an object are added one after the other to a new table.
\<close>

definition c_str :: "string \<Rightarrow> string" where
  "c_str s = takeWhile (\<lambda>c. c \<noteq> CHR 0x00) s"

function amf0_copy :: "SrsAmf0Any \<Rightarrow> SrsAmf0Any"
  and ht_copy :: "SrsUnSortedHashtable \<Rightarrow> SrsUnSortedHashtable \<Rightarrow> SrsUnSortedHashtable" where
  "amf0_copy (SrsAmf0String s) = SrsAmf0String (c_str s)"
| "amf0_copy (SrsAmf0Boolean b) = SrsAmf0Boolean b"
| "amf0_copy (SrsAmf0Number d) = SrsAmf0Number d"
| "amf0_copy SrsAmf0Null = SrsAmf0Null"
| "amf0_copy SrsAmf0Undefined = SrsAmf0Undefined"
| "amf0_copy (SrsAmf0Object ps) = SrsAmf0Object (ht_copy ps [])"
| "amf0_copy SrsAmf0ObjectEOF = SrsAmf0ObjectEOF"
| "amf0_copy (SrsAmf0EcmaArray c ps) = SrsAmf0EcmaArray c (ht_copy ps [])"
| "ht_copy [] dst = dst"
| "ht_copy ((key, any) # src) dst = ht_copy src (ht_set key (Some (amf0_copy any)) dst)"
  by pat_completeness auto
termination
  by (relation "measure (case_sum size (\<lambda>(src, _). size_list (size_prod (\<lambda>_. 0) size) src))") auto

section \<open>Sizes\<close>

definition SrsAmf0Size_utf8 :: "string \<Rightarrow> int" where
  "SrsAmf0Size_utf8 s = 2 + int (length s)"

definition SrsAmf0Size_str :: "string \<Rightarrow> int" where
  "SrsAmf0Size_str s = 1 + SrsAmf0Size_utf8 s"

definition SrsAmf0Size_number :: int where "SrsAmf0Size_number = 1 + 8"
definition SrsAmf0Size_null :: int where "SrsAmf0Size_null = 1"
definition SrsAmf0Size_undefined :: int where "SrsAmf0Size_undefined = 1"
definition SrsAmf0Size_boolean :: int where "SrsAmf0Size_boolean = 1 + 1"
definition SrsAmf0Size_object_eof :: int where "SrsAmf0Size_object_eof = 2 + 1"

function amf0_total_size :: "SrsAmf0Any \<Rightarrow> int"
  and amf0_props_size :: "SrsUnSortedHashtable \<Rightarrow> int" where
  "amf0_total_size (SrsAmf0String s) = SrsAmf0Size_str s"
| "amf0_total_size (SrsAmf0Boolean b) = SrsAmf0Size_boolean"
| "amf0_total_size (SrsAmf0Number d) = SrsAmf0Size_number"
| "amf0_total_size SrsAmf0Null = SrsAmf0Size_null"
| "amf0_total_size SrsAmf0Undefined = SrsAmf0Size_undefined"
| "amf0_total_size (SrsAmf0Object ps) = 1 + amf0_props_size ps + SrsAmf0Size_object_eof"
| "amf0_total_size SrsAmf0ObjectEOF = SrsAmf0Size_object_eof"
| "amf0_total_size (SrsAmf0EcmaArray c ps) = (1 + 4) + amf0_props_size ps + SrsAmf0Size_object_eof"
| "amf0_props_size [] = 0"
| "amf0_props_size ((name, v) # ps) = SrsAmf0Size_utf8 name + amf0_total_size v + amf0_props_size ps"
  by pat_completeness auto
termination
  by (relation "measure (case_sum size (size_list (size_prod (\<lambda>_. 0) size)))") auto

text \<open>\<^verbatim>\<open>SrsAmf0Size::object\<close>, \<^verbatim>\<open>::ecma_array\<close> and \<^verbatim>\<open>::any\<close> count a null pointer as 0 bytes.\<close>

definition SrsAmf0Size_any :: "SrsAmf0Any option \<Rightarrow> int" where
  "SrsAmf0Size_any o' = (case o' of None \<Rightarrow> 0 | Some v \<Rightarrow> amf0_total_size v)"

definition SrsAmf0Size_object :: "SrsUnSortedHashtable option \<Rightarrow> int" where
  "SrsAmf0Size_object obj = (case obj of None \<Rightarrow> 0 | Some ps \<Rightarrow> amf0_total_size (SrsAmf0Object ps))"

section \<open>Strings, numbers and markers on the wire\<close>

definition srs_amf0_read_utf8 :: "string \<Rightarrow> SrsBuffer \<Rightarrow> (string \<times> SrsBuffer) result" where
  "srs_amf0_read_utf8 val =
     bnd (guard_require 2 ERROR_RTMP_AMF0_DECODE) (\<lambda>_.
     bnd read_2bytes (\<lambda>len.
       if sint len \<le> 0 then ret val
       else bnd (guard_require (sint len) ERROR_RTMP_AMF0_DECODE) (\<lambda>_. read_string (sint len))))"

definition srs_amf0_write_utf8 :: "string \<Rightarrow> SrsBuffer \<Rightarrow> (unit \<times> SrsBuffer) result" where
  "srs_amf0_write_utf8 val =
     bnd (guard_require 2 ERROR_RTMP_AMF0_ENCODE) (\<lambda>_.
     bnd (write_2bytes (word_of_nat (length val))) (\<lambda>_.
       if length val \<le> 0 then ret ()
       else bnd (guard_require (int (length val)) ERROR_RTMP_AMF0_ENCODE) (\<lambda>_. write_string val)))"

definition srs_amf0_is_object_eof :: "SrsBuffer \<Rightarrow> (bool \<times> SrsBuffer) result" where
  "srs_amf0_is_object_eof b =
     (if SrsBuffer_require 3 b
      then bnd read_3bytes (\<lambda>flag. bnd (SrsBuffer_skip (- 3)) (\<lambda>_. ret (0x09 = flag))) b
      else Inr (False, b))"

text \<open>The first lines of every reader: require one byte, read it, compare it with the marker.\<close>

definition read_marker :: "byte \<Rightarrow> SrsBuffer \<Rightarrow> (unit \<times> SrsBuffer) result" where
  "read_marker expected =
     bnd (guard_require 1 ERROR_RTMP_AMF0_DECODE) (\<lambda>_.
     bnd read_1bytes (\<lambda>marker.
       if marker \<noteq> expected then fail (Srs_error ERROR_RTMP_AMF0_DECODE) else ret ()))"

definition write_marker :: "byte \<Rightarrow> SrsBuffer \<Rightarrow> (unit \<times> SrsBuffer) result" where
  "write_marker m = bnd (guard_require 1 ERROR_RTMP_AMF0_ENCODE) (\<lambda>_. write_1bytes m)"

definition srs_amf0_read_string :: "string \<Rightarrow> SrsBuffer \<Rightarrow> (string \<times> SrsBuffer) result" where
  "srs_amf0_read_string val = bnd (read_marker RTMP_AMF0_String) (\<lambda>_. srs_amf0_read_utf8 val)"

definition srs_amf0_write_string :: "string \<Rightarrow> SrsBuffer \<Rightarrow> (unit \<times> SrsBuffer) result" where
  "srs_amf0_write_string val = bnd (write_marker RTMP_AMF0_String) (\<lambda>_. srs_amf0_write_utf8 val)"

definition srs_amf0_read_boolean :: "SrsBuffer \<Rightarrow> (bool \<times> SrsBuffer) result" where
  "srs_amf0_read_boolean = bnd (read_marker RTMP_AMF0_Boolean) (\<lambda>_.
     bnd (guard_require 1 ERROR_RTMP_AMF0_DECODE) (\<lambda>_. bnd read_1bytes (\<lambda>x. ret (x \<noteq> 0))))"

definition srs_amf0_write_boolean :: "bool \<Rightarrow> SrsBuffer \<Rightarrow> (unit \<times> SrsBuffer) result" where
  "srs_amf0_write_boolean val = bnd (write_marker RTMP_AMF0_Boolean) (\<lambda>_.
     bnd (guard_require 1 ERROR_RTMP_AMF0_ENCODE) (\<lambda>_.
       if val then write_1bytes 0x01 else write_1bytes 0x00))"

definition srs_amf0_read_number :: "SrsBuffer \<Rightarrow> (double \<times> SrsBuffer) result" where
  "srs_amf0_read_number = bnd (read_marker RTMP_AMF0_Number) (\<lambda>_.
     bnd (guard_require 8 ERROR_RTMP_AMF0_DECODE) (\<lambda>_. read_8bytes))"

definition srs_amf0_write_number :: "double \<Rightarrow> SrsBuffer \<Rightarrow> (unit \<times> SrsBuffer) result" where
  "srs_amf0_write_number val = bnd (write_marker RTMP_AMF0_Number) (\<lambda>_.
     bnd (guard_require 8 ERROR_RTMP_AMF0_ENCODE) (\<lambda>_. write_8bytes val))"

definition srs_amf0_read_null :: "SrsBuffer \<Rightarrow> (unit \<times> SrsBuffer) result" where
  "srs_amf0_read_null = read_marker RTMP_AMF0_Null"

definition srs_amf0_write_null :: "SrsBuffer \<Rightarrow> (unit \<times> SrsBuffer) result" where
  "srs_amf0_write_null = write_marker RTMP_AMF0_Null"

definition srs_amf0_read_undefined :: "SrsBuffer \<Rightarrow> (unit \<times> SrsBuffer) result" where
  "srs_amf0_read_undefined = read_marker RTMP_AMF0_Undefined"

definition srs_amf0_write_undefined :: "SrsBuffer \<Rightarrow> (unit \<times> SrsBuffer) result" where
  "srs_amf0_write_undefined = write_marker RTMP_AMF0_Undefined"

definition SrsAmf0ObjectEOF_read :: "SrsBuffer \<Rightarrow> (unit \<times> SrsBuffer) result" where
  "SrsAmf0ObjectEOF_read =
     bnd (guard_require 2 ERROR_RTMP_AMF0_DECODE) (\<lambda>_.
     bnd read_2bytes (\<lambda>temp.
       if temp \<noteq> 0x00 then fail (Srs_error ERROR_RTMP_AMF0_DECODE)
       else read_marker RTMP_AMF0_ObjectEnd))"

definition SrsAmf0ObjectEOF_write :: "SrsBuffer \<Rightarrow> (unit \<times> SrsBuffer) result" where
  "SrsAmf0ObjectEOF_write =
     bnd (guard_require 2 ERROR_RTMP_AMF0_ENCODE) (\<lambda>_.
     bnd (write_2bytes 0x00) (\<lambda>_. write_marker RTMP_AMF0_ObjectEnd))"

section \<open>Reading any value\<close>

text \<open>
  \<^verbatim>\<open>discovery\<close> looks at the bytes ahead, without consuming them, and makes the empty value of the
  class they announce.
\<close>

definition amf0_discovery :: "SrsBuffer \<Rightarrow> (SrsAmf0Any \<times> SrsBuffer) result" where
  "amf0_discovery =
     bnd srs_amf0_is_object_eof (\<lambda>eof.
       if eof then ret SrsAmf0ObjectEOF
       else bnd (guard_require 1 ERROR_RTMP_AMF0_DECODE) (\<lambda>_.
            bnd read_1bytes (\<lambda>marker.
            bnd (SrsBuffer_skip (- 1)) (\<lambda>_.
              if marker = RTMP_AMF0_String then ret (SrsAmf0String [])
              else if marker = RTMP_AMF0_Boolean then ret (SrsAmf0Boolean False)
              else if marker = RTMP_AMF0_Number then ret (SrsAmf0Number 0)
              else if marker = RTMP_AMF0_Null then ret SrsAmf0Null
              else if marker = RTMP_AMF0_Undefined then ret SrsAmf0Undefined
              else if marker = RTMP_AMF0_Object then ret (SrsAmf0Object [])
              else if marker = RTMP_AMF0_EcmaArray then ret (SrsAmf0EcmaArray 0 [])
              else fail (Srs_error ERROR_RTMP_AMF0_INVALID)))))"

text \<open>
  The virtual \<^verbatim>\<open>read\<close> of each class. \<open>read_props n ps\<close> is the \<^verbatim>\<open>while\<close> loop that objects and
  arrays share, adding to the properties \<open>ps\<close> that the value already has.
\<close>

function read_props :: "nat \<Rightarrow> SrsUnSortedHashtable \<Rightarrow> SrsBuffer \<Rightarrow> (SrsUnSortedHashtable \<times> SrsBuffer) result"
  and object_read :: "nat \<Rightarrow> SrsUnSortedHashtable \<Rightarrow> SrsBuffer \<Rightarrow> (SrsUnSortedHashtable \<times> SrsBuffer) result"
  and ecma_array_read :: "nat \<Rightarrow> SrsUnSortedHashtable \<Rightarrow> SrsBuffer \<Rightarrow> (SrsAmf0Any \<times> SrsBuffer) result"
  and amf0_read :: "nat \<Rightarrow> SrsAmf0Any \<Rightarrow> SrsBuffer \<Rightarrow> (SrsAmf0Any \<times> SrsBuffer) result"
  and read_any :: "nat \<Rightarrow> SrsBuffer \<Rightarrow> (SrsAmf0Any \<times> SrsBuffer) result" where
  "read_props 0 ps = fail Out_of_fuel"
| "read_props (Suc n) ps = (\<lambda>b.
     if SrsBuffer_empty b then Inr (ps, b)
     else bnd srs_amf0_is_object_eof (\<lambda>eof.
            if eof then bnd SrsAmf0ObjectEOF_read (\<lambda>_. ret ps)
            else bnd (srs_amf0_read_utf8 []) (\<lambda>property_name.
                 bnd (read_any n) (\<lambda>property_value.
                 read_props n (ht_set property_name (Some property_value) ps)))) b)"
| "object_read n ps = bnd (read_marker RTMP_AMF0_Object) (\<lambda>_. read_props n ps)"
| "ecma_array_read n ps = bnd (read_marker RTMP_AMF0_EcmaArray) (\<lambda>_.
     bnd (guard_require 4 ERROR_RTMP_AMF0_DECODE) (\<lambda>_.
     bnd read_4bytes (\<lambda>count.
     bnd (read_props n ps) (\<lambda>ps'. ret (SrsAmf0EcmaArray count ps')))))"
| "amf0_read n v =
     (case v of
        SrsAmf0String s \<Rightarrow> bnd (srs_amf0_read_string s) (\<lambda>x. ret (SrsAmf0String x))
      | SrsAmf0Boolean _ \<Rightarrow> bnd srs_amf0_read_boolean (\<lambda>x. ret (SrsAmf0Boolean x))
      | SrsAmf0Number _ \<Rightarrow> bnd srs_amf0_read_number (\<lambda>x. ret (SrsAmf0Number x))
      | SrsAmf0Null \<Rightarrow> bnd srs_amf0_read_null (\<lambda>_. ret SrsAmf0Null)
      | SrsAmf0Undefined \<Rightarrow> bnd srs_amf0_read_undefined (\<lambda>_. ret SrsAmf0Undefined)
      | SrsAmf0Object ps \<Rightarrow> bnd (object_read n ps) (\<lambda>ps'. ret (SrsAmf0Object ps'))
      | SrsAmf0ObjectEOF \<Rightarrow> bnd SrsAmf0ObjectEOF_read (\<lambda>_. ret SrsAmf0ObjectEOF)
      | SrsAmf0EcmaArray _ ps \<Rightarrow> ecma_array_read n ps)"
| "read_any n = bnd amf0_discovery (amf0_read n)"
  by pat_completeness auto
termination
  by (relation "measure (case_sum (case_sum (\<lambda>(n, _). 4 * n) (\<lambda>(n, _). 4 * n + 1))
        (case_sum (\<lambda>(n, _). 4 * n + 1) (case_sum (\<lambda>(n, _). 4 * n + 2) (\<lambda>n. 4 * n + 3))))") auto

declare object_read.simps [simp del] ecma_array_read.simps [simp del] amf0_read.simps [simp del]
  read_any.simps [simp del] read_props.simps [simp del]

definition srs_amf0_read_any :: "SrsBuffer \<Rightarrow> (SrsAmf0Any \<times> SrsBuffer) result" where
  "srs_amf0_read_any b = read_any (Suc (length (buf_rest b))) b"

definition SrsAmf0Object_read :: "SrsUnSortedHashtable \<Rightarrow> SrsBuffer \<Rightarrow> (SrsUnSortedHashtable \<times> SrsBuffer) result" where
  "SrsAmf0Object_read ps b = object_read (Suc (length (buf_rest b))) ps b"

definition SrsAmf0EcmaArray_read :: "SrsUnSortedHashtable \<Rightarrow> SrsBuffer \<Rightarrow> (SrsAmf0Any \<times> SrsBuffer) result" where
  "SrsAmf0EcmaArray_read ps b = ecma_array_read (Suc (length (buf_rest b))) ps b"

section \<open>Writing any value\<close>

function amf0_write :: "SrsAmf0Any \<Rightarrow> SrsBuffer \<Rightarrow> (unit \<times> SrsBuffer) result"
  and write_props :: "SrsUnSortedHashtable \<Rightarrow> SrsBuffer \<Rightarrow> (unit \<times> SrsBuffer) result" where
  "amf0_write (SrsAmf0String s) = srs_amf0_write_string s"
| "amf0_write (SrsAmf0Boolean x) = srs_amf0_write_boolean x"
| "amf0_write (SrsAmf0Number d) = srs_amf0_write_number d"
| "amf0_write SrsAmf0Null = srs_amf0_write_null"
| "amf0_write SrsAmf0Undefined = srs_amf0_write_undefined"
| "amf0_write (SrsAmf0Object ps) =
     bnd (write_marker RTMP_AMF0_Object) (\<lambda>_. bnd (write_props ps) (\<lambda>_. SrsAmf0ObjectEOF_write))"
| "amf0_write SrsAmf0ObjectEOF = SrsAmf0ObjectEOF_write"
| "amf0_write (SrsAmf0EcmaArray c ps) =
     bnd (write_marker RTMP_AMF0_EcmaArray) (\<lambda>_.
     bnd (guard_require 4 ERROR_RTMP_AMF0_ENCODE) (\<lambda>_.
     bnd (write_4bytes c) (\<lambda>_. bnd (write_props ps) (\<lambda>_. SrsAmf0ObjectEOF_write))))"
| "write_props [] = ret ()"
| "write_props ((name, any) # ps) =
     bnd (srs_amf0_write_utf8 name) (\<lambda>_. bnd (amf0_write any) (\<lambda>_. write_props ps))"
  by pat_completeness auto
termination
  by (relation "measure (case_sum size (size_list (size_prod (\<lambda>_. 0) size)))") auto

section \<open>The wire format\<close>

text \<open>What a value looks like on the wire, the reference for readers and writers.\<close>

definition utf8_bytes :: "string \<Rightarrow> byte list" where
  "utf8_bytes s = rev (le_bytes 2 (uint (word_of_nat (length s) :: 16 word))) @ string_bytes s"

function amf0_bytes :: "SrsAmf0Any \<Rightarrow> byte list"
  and amf0_props_bytes :: "SrsUnSortedHashtable \<Rightarrow> byte list" where
  "amf0_bytes (SrsAmf0String s) = RTMP_AMF0_String # utf8_bytes s"
| "amf0_bytes (SrsAmf0Boolean x) = [RTMP_AMF0_Boolean, if x then 1 else 0]"
| "amf0_bytes (SrsAmf0Number d) = RTMP_AMF0_Number # rev (le_bytes 8 (uint d))"
| "amf0_bytes SrsAmf0Null = [RTMP_AMF0_Null]"
| "amf0_bytes SrsAmf0Undefined = [RTMP_AMF0_Undefined]"
| "amf0_bytes (SrsAmf0Object ps) = RTMP_AMF0_Object # amf0_props_bytes ps @ [0, 0, RTMP_AMF0_ObjectEnd]"
| "amf0_bytes SrsAmf0ObjectEOF = [0, 0, RTMP_AMF0_ObjectEnd]"
| "amf0_bytes (SrsAmf0EcmaArray c ps) =
     RTMP_AMF0_EcmaArray # rev (le_bytes 4 (uint c)) @ amf0_props_bytes ps @ [0, 0, RTMP_AMF0_ObjectEnd]"
| "amf0_props_bytes [] = []"
| "amf0_props_bytes ((name, v) # ps) = utf8_bytes name @ amf0_bytes v @ amf0_props_bytes ps"
  by pat_completeness auto
termination
  by (relation "measure (case_sum size (size_list (size_prod (\<lambda>_. 0) size)))") auto

lemmas amf0_size_defs = SrsAmf0Size_utf8_def SrsAmf0Size_str_def SrsAmf0Size_number_def
  SrsAmf0Size_null_def SrsAmf0Size_undefined_def SrsAmf0Size_boolean_def SrsAmf0Size_object_eof_def

lemma length_utf8_bytes [simp]: "length (utf8_bytes s) = 2 + length s"
  by (simp add: utf8_bytes_def)

lemma length_amf0_bytes:
  "int (length (amf0_bytes v)) = amf0_total_size v"
  "int (length (amf0_props_bytes ps)) = amf0_props_size ps"
  by (induction v and ps rule: amf0_bytes_amf0_props_bytes.induct)
    (simp_all add: amf0_size_defs)

subsection \<open>Writers\<close>

lemma writes_guard_bnd [writes_intros]:
  assumes "writes (bnd m f) xs" and "n \<le> int (length xs)" and "0 \<le> n"
  shows "writes (bnd (guard_require n c) (\<lambda>_. bnd m f)) xs"
  using assms by (rule writes_guard)

lemma writes_marker [writes_intros]: "writes (write_marker m) [m]"
  unfolding write_marker_def by (intro writes_guard writes_1bytes) auto

lemma writes_utf8 [writes_intros]: "writes (srs_amf0_write_utf8 s) (utf8_bytes s)"
proof -
  have "writes (if length s \<le> 0 then ret () else bnd (guard_require (int (length s)) ERROR_RTMP_AMF0_ENCODE) (\<lambda>_. write_string s))
     (string_bytes s)"
    using writes_guard [OF writes_string [of s], of "int (length s)"] by (auto simp: writes_ret)
  then show ?thesis
    unfolding srs_amf0_write_utf8_def utf8_bytes_def
    by (intro writes_guard writes_bnd writes_2bytes) auto
qed

lemma writes_eof [writes_intros]: "writes SrsAmf0ObjectEOF_write [0, 0, RTMP_AMF0_ObjectEnd]"
  using writes_guard [OF writes_bnd [OF writes_2bytes [of 0] writes_marker [of RTMP_AMF0_ObjectEnd]], of 2]
  by (simp add: SrsAmf0ObjectEOF_write_def le_bytes_numeral)

lemma writes_boolean: "writes (srs_amf0_write_boolean x) [RTMP_AMF0_Boolean, if x then 1 else 0]"
proof -
  have "writes (if x then write_1bytes 1 else write_1bytes 0) [if x then 1 else 0]"
    by (simp add: writes_1bytes)
  then show ?thesis
    using writes_bnd [OF writes_marker writes_guard [of _ _ 1]] by (fastforce simp: srs_amf0_write_boolean_def)
qed

lemma writes_number: "writes (srs_amf0_write_number d) (RTMP_AMF0_Number # rev (le_bytes 8 (uint d)))"
  using writes_bnd [OF writes_marker [of RTMP_AMF0_Number] writes_guard [OF writes_8bytes [of d], of 8]]
  by (simp add: srs_amf0_write_number_def)

lemma writes_amf0_string: "writes (srs_amf0_write_string s) (RTMP_AMF0_String # utf8_bytes s)"
  using writes_bnd [OF writes_marker writes_utf8] by (simp add: srs_amf0_write_string_def)

lemma writes_amf0 [writes_intros]:
  "writes (amf0_write v) (amf0_bytes v)"
  "writes (write_props ps) (amf0_props_bytes ps)"
proof (induction v and ps rule: amf0_bytes_amf0_props_bytes.induct)
  case (6 ps)
  then show ?case
    using writes_bnd [OF writes_marker writes_bnd [OF 6 writes_eof]] by simp
next
  case (8 c ps)
  then show ?case
    using writes_bnd [OF writes_marker [of RTMP_AMF0_EcmaArray] writes_guard [OF writes_bnd [OF writes_4bytes [of c] writes_bnd [OF 8 writes_eof]], of 4]] 
    by simp
next
  case (10 name v ps)
  then show ?case using writes_bnd [OF writes_utf8 writes_bnd [OF 10]] by simp
qed (simp_all add: writes_boolean writes_number writes_eof writes_ret writes_amf0_string writes_marker
    srs_amf0_write_null_def srs_amf0_write_undefined_def)


subsection \<open>Readers\<close>

lemma is_object_eof_eq:
  assumes "buf_wf b"
  shows "srs_amf0_is_object_eof b = Inr (take 3 (buf_rest b) = [0, 0, RTMP_AMF0_ObjectEnd], b)"
proof (cases "3 \<le> length (buf_rest b)")
  case True
  define xs where "xs = take 3 (buf_rest b)"
  have len: "length xs = 3" using True by (simp add: xs_def)
  then have bound: "le_val (rev xs) < 2 ^ 24"
    using le_val_less [of "rev xs"] by simp
  have "(word_of_int (le_val (rev xs)) = (9 :: 32 word)) \<longleftrightarrow> le_val (rev xs) = 9"
  proof
    assume "word_of_int (le_val (rev xs)) = (9 :: 32 word)"
    then have "uint (word_of_int (le_val (rev xs)) :: 32 word) = 9" by simp
    then show "le_val (rev xs) = 9"
      using bound by (simp add: uint_word_of_int mod_pos_pos_trivial)
  qed simp
  also have "\<dots> \<longleftrightarrow> rev xs = le_bytes 3 9"
  proof
    assume "le_val (rev xs) = 9"
    then show "rev xs = le_bytes 3 9" using le_bytes_le_val [of "rev xs"] len by simp
  qed (simp add: le_bytes_numeral)
  also have "\<dots> \<longleftrightarrow> xs = [0, 0, 9]" by (auto simp: rev_swap le_bytes_numeral)
  finally have flag: "(9 = (word_of_int (le_val (rev xs)) :: 32 word)) \<longleftrightarrow> xs = [0, 0, 9]" by auto
  have "SrsBuffer_skip (- 3) (buf_adv 3 b) = Inr ((), b)"
    using assms True by (simp add: SrsBuffer_skip_def buf_adv_def buf_rest_def)
  then show ?thesis
    using True flag by (simp add: srs_amf0_is_object_eof_def require_iff bnd_def read_3bytes_eq ret_def xs_def)
next
  case False
  moreover from this have "take 3 (buf_rest b) \<noteq> [0, 0, 9]" by (auto dest: arg_cong [where f = length])
  ultimately show ?thesis by (simp add: srs_amf0_is_object_eof_def require_iff)
qed

lemma reads_marker [reads_intros]: "reads (read_marker m) () [m]"
  by (auto simp: reads_def read_marker_def bnd_def guard_require_def require_wf_iff read_1bytes_eq ret_def)

lemma reads_utf8 [reads_intros]:
  assumes "length s < 32768"
  shows "reads (srs_amf0_read_utf8 v) (if s = [] then v else s) (utf8_bytes s)"
proof -
  let ?len = "word_of_nat (length s) :: 16 word"
  have "sint ?len = int (length s)"
    using assms by (simp add: signed_of_nat signed_take_bit_eq_if_positive bit_iff_odd drop_bit_eq_div take_bit_int_eq_self)
  then have "reads (if sint ?len \<le> 0 then ret v else bnd (guard_require (sint ?len) ERROR_RTMP_AMF0_DECODE) (\<lambda>_. read_string (sint ?len)))
      (if s = [] then v else s) (string_bytes s)"
    using reads_guard [OF reads_string [of s], of "int (length s)"] by (auto simp: reads_ret)
  then show ?thesis
    unfolding srs_amf0_read_utf8_def utf8_bytes_def
    by (intro reads_guard reads_bnd [OF reads_2bytes]) auto
qed


lemma take_eof_append: "take 3 (x # xs) = [0, 0, 9] \<longleftrightarrow> x = 0 \<and> take 2 xs = [0, 9]"
  by (simp add: numeral_3_eq_3 numeral_2_eq_2)

lemma number_bytes_eof:
  assumes "drop_bit 48 d \<noteq> (9 :: double)"
  shows "take 2 (rev (le_bytes 8 (uint d))) \<noteq> [0, 9]"
proof
  assume eq: "take 2 (rev (le_bytes 8 (uint d))) = [0, 9]"
  have "uint d < 2 ^ 64" using uint_lt2p [of d] by simp
  then have v: "uint d div 2 ^ 56 < 256" "0 \<le> uint d div 2 ^ 56"
    by (auto simp: pos_imp_zdiv_nonneg_iff)
  have a: "word_of_int (uint d div 2 ^ 56) = (0 :: byte)" "word_of_int (uint d div 2 ^ 48) = (9 :: byte)"
    using eq by (auto simp: zdiv_zmult2_eq [symmetric] le_bytes_numeral)
  have "uint d div 2 ^ 56 = uint (word_of_int (uint d div 2 ^ 56) :: byte)"
    using v by (simp add: uint_word_of_int mod_pos_pos_trivial)
  then have "uint d div 2 ^ 56 = 0" using a by simp
  then have w: "uint d div 2 ^ 48 < 256" by simp
  have "uint d div 2 ^ 48 = uint (word_of_int (uint d div 2 ^ 48) :: byte)"
    using w by (simp add: uint_word_of_int mod_pos_pos_trivial pos_imp_zdiv_nonneg_iff)
  then have "uint d div 2 ^ 48 = 9" using a by simp
  then have "uint (drop_bit 48 d) = 9"
    by (simp add: drop_bit_eq_div uint_div)
  then have "drop_bit 48 d = 9" by (metis word_of_int_uint word_of_int_numeral)
  with assms show False by simp
qed

text \<open>
  The values the wire format can carry: strings and names below 32768 bytes, the names of an object
  distinct, and no number whose big-endian pattern starts with \<open>00 09\<close> (with the marker \<open>00\<close> it
  would be taken for an object end).
\<close>

function amf0_wf :: "SrsAmf0Any \<Rightarrow> bool" and amf0_props_wf :: "SrsUnSortedHashtable \<Rightarrow> bool" where
  "amf0_wf (SrsAmf0String s) \<longleftrightarrow> length s < 32768"
| "amf0_wf (SrsAmf0Boolean _) \<longleftrightarrow> True"
| "amf0_wf (SrsAmf0Number d) \<longleftrightarrow> drop_bit 48 d \<noteq> 9"
| "amf0_wf SrsAmf0Null \<longleftrightarrow> True"
| "amf0_wf SrsAmf0Undefined \<longleftrightarrow> True"
| "amf0_wf (SrsAmf0Object ps) \<longleftrightarrow> amf0_props_wf ps"
| "amf0_wf SrsAmf0ObjectEOF \<longleftrightarrow> True"
| "amf0_wf (SrsAmf0EcmaArray _ ps) \<longleftrightarrow> amf0_props_wf ps"
| "amf0_props_wf [] \<longleftrightarrow> True"
| "amf0_props_wf ((name, v) # ps) \<longleftrightarrow>
     length name < 32768 \<and> name \<notin> fst ` set ps \<and> amf0_wf v \<and> amf0_props_wf ps"
  by pat_completeness auto
termination
  by (relation "measure (case_sum size (size_list (size_prod (\<lambda>_. 0) size)))") auto

lemma erase_first_notin [simp]: "key \<notin> fst ` set ps \<Longrightarrow> ht_erase_first key ps = ps"
  by (induction ps) auto

lemma reads_eof [reads_intros]: "reads SrsAmf0ObjectEOF_read () [0, 0, RTMP_AMF0_ObjectEnd]"
  using reads_guard [OF reads_bnd [OF reads_2bytes [of 0], of
      "\<lambda>temp. if temp \<noteq> 0 then fail (Srs_error ERROR_RTMP_AMF0_DECODE) else read_marker RTMP_AMF0_ObjectEnd"],
      of "()" "[RTMP_AMF0_ObjectEnd]" 2]
  by (simp add: SrsAmf0ObjectEOF_read_def reads_marker le_bytes_numeral)

lemma discovery_eq:
  assumes "buf_wf b" and "buf_rest b = x # xs"
  shows "amf0_discovery b =
     (if take 3 (buf_rest b) = [0, 0, RTMP_AMF0_ObjectEnd] then Inr (SrsAmf0ObjectEOF, b)
      else if x = RTMP_AMF0_String then Inr (SrsAmf0String [], b)
      else if x = RTMP_AMF0_Boolean then Inr (SrsAmf0Boolean False, b)
      else if x = RTMP_AMF0_Number then Inr (SrsAmf0Number 0, b)
      else if x = RTMP_AMF0_Null then Inr (SrsAmf0Null, b)
      else if x = RTMP_AMF0_Undefined then Inr (SrsAmf0Undefined, b)
      else if x = RTMP_AMF0_Object then Inr (SrsAmf0Object [], b)
      else if x = RTMP_AMF0_EcmaArray then Inr (SrsAmf0EcmaArray 0 [], b)
      else Inl (Srs_error ERROR_RTMP_AMF0_INVALID))"
proof -
  have "SrsBuffer_skip (- 1) (buf_adv 1 b) = Inr ((), b)"
    using assms by (cases "drop (buf_p b) (buf_bytes b)") (auto simp: SrsBuffer_skip_def buf_adv_def buf_rest_def buf_wf_def)
  then show ?thesis
    using assms by (simp add: amf0_discovery_def bnd_def is_object_eof_eq ret_def fail_def guard_require_def
        require_wf_iff read_1bytes_eq)
qed


text \<open>
  The bytes ahead of a well-formed value announce it: discovery makes the value of its class, and
  inside an object its name and value are not taken for the end.
\<close>

fun amf0_fresh :: "SrsAmf0Any \<Rightarrow> SrsAmf0Any" where
  "amf0_fresh (SrsAmf0String _) = SrsAmf0String []"
| "amf0_fresh (SrsAmf0Boolean _) = SrsAmf0Boolean False"
| "amf0_fresh (SrsAmf0Number _) = SrsAmf0Number 0"
| "amf0_fresh SrsAmf0Null = SrsAmf0Null"
| "amf0_fresh SrsAmf0Undefined = SrsAmf0Undefined"
| "amf0_fresh (SrsAmf0Object _) = SrsAmf0Object []"
| "amf0_fresh SrsAmf0ObjectEOF = SrsAmf0ObjectEOF"
| "amf0_fresh (SrsAmf0EcmaArray _ _) = SrsAmf0EcmaArray 0 []"

lemma discovery_bytes:
  assumes "buf_wf b" and "buf_rest b = amf0_bytes v @ ys" and "amf0_wf v"
  shows "amf0_discovery b = Inr (amf0_fresh v, b)"
proof -
  obtain x xs where x: "amf0_bytes v = x # xs" by (cases v) auto
  have "buf_rest b = x # (xs @ ys)" using assms(2) x by simp
  note d = discovery_eq [OF assms(1) this]
  have num: "take 2 (rev (le_bytes 8 (uint e)) @ ys) = take 2 (rev (le_bytes 8 (uint e)))" for e :: double
    by simp
  show ?thesis
    using assms x unfolding d
    by (cases v) (auto simp: take_eof_append num number_bytes_eof)
qed

lemma props_not_eof:
  assumes "length name < 32768"
  shows "take 3 (utf8_bytes name @ amf0_bytes v @ ys) \<noteq> [0, 0, 9]"
proof
  assume eq: "take 3 (utf8_bytes name @ amf0_bytes v @ ys) = [0, 0, 9]"
  show False
  proof (cases name)
    case Nil
    then show False using eq by (cases v) (auto simp: utf8_bytes_def le_bytes_numeral)
  next
    case (Cons c cs)
    let ?w = "word_of_nat (length name) :: 16 word"
    have "rev (le_bytes 2 (uint ?w)) = [0, 0]"
      using eq by (simp add: utf8_bytes_def le_bytes_numeral numeral_3_eq_3)
    then have "le_bytes 2 (uint ?w) = [0, 0]" by (simp add: rev_swap)
    then have "uint ?w mod 256 ^ 2 = 0" using le_val_le_bytes [of 2 "uint ?w"] by simp
    moreover have "uint ?w = int (length name)"
      using assms by (simp add: unsigned_of_nat take_bit_nat_eq_self)
    ultimately show False using assms Cons by simp
  qed
qed

lemma reads_discovered:
  assumes "amf0_wf v" and "reads (amf0_read n (amf0_fresh v)) v (amf0_bytes v)"
  shows "reads (read_any n) v (amf0_bytes v)"
  using assms(2) discovery_bytes [OF _ _ assms(1)] by (auto simp: reads_def read_any.simps bnd_def)


lemma reads_map:
  assumes "reads m v xs" shows "reads (bnd m (\<lambda>x. ret (f x))) (f v) xs"
  using reads_bnd [OF assms reads_ret] by simp

lemma reads_props_step:
  assumes "reads (bnd (srs_amf0_read_utf8 []) (\<lambda>property_name. bnd (read_any m) (\<lambda>property_value.
          read_props m (ht_set property_name (Some property_value) ps0)))) ps xs"
    and "\<And>ys. take 3 (xs @ ys) \<noteq> [0, 0, RTMP_AMF0_ObjectEnd]" and "xs \<noteq> []"
  shows "reads (read_props (Suc m) ps0) ps xs"
  using assms by (auto simp: reads_def read_props.simps bnd_def [of srs_amf0_is_object_eof] is_object_eof_eq)

lemma reads_props:
  assumes "amf0_props_wf ps" and "length (amf0_props_bytes ps) < n"
    and "fst ` set ps0 \<inter> fst ` set ps = {}"
    and "\<And>name v m. (name, v) \<in> set ps \<Longrightarrow> length (amf0_bytes v) \<le> m \<Longrightarrow> reads (read_any m) v (amf0_bytes v)"
  shows "reads (read_props n ps0) (ps0 @ ps) (amf0_props_bytes ps @ [0, 0, RTMP_AMF0_ObjectEnd])"
  using assms
proof (induction ps arbitrary: ps0 n)
  case Nil
  then obtain m where n: "n = Suc m" by (cases n) auto
  have "reads (bnd SrsAmf0ObjectEOF_read (\<lambda>_. ret ps0)) ps0 [0, 0, RTMP_AMF0_ObjectEnd]"
    by (rule reads_map [OF reads_eof])
  then show ?case
    by (auto simp: reads_def n read_props.simps bnd_def [of srs_amf0_is_object_eof] is_object_eof_eq)
next
  case (Cons p ps)
  obtain name v where p: "p = (name, v)" by (cases p)
  obtain m where n: "n = Suc m" using Cons.prems by (cases n) auto
  let ?rest = "amf0_props_bytes ps @ [0, 0, RTMP_AMF0_ObjectEnd]"
  have wf: "length name < 32768" "amf0_wf v" "amf0_props_wf ps" "name \<notin> fst ` set ps" "name \<notin> fst ` set ps0"
    using Cons.prems p by auto
  have v: "reads (read_any m) v (amf0_bytes v)"
    using Cons.prems(2) p n by (intro Cons.prems(4) [of name]) auto
  have rest: "reads (read_props m (ht_set name (Some v) ps0)) (ps0 @ p # ps) ?rest"
    using Cons.IH [of m "ps0 @ [p]"] Cons.prems p n wf by (force simp: ht_set_def)
  have "reads (bnd (srs_amf0_read_utf8 []) (\<lambda>property_name. bnd (read_any m) (\<lambda>property_value.
          read_props m (ht_set property_name (Some property_value) ps0))))
        (ps0 @ p # ps) (utf8_bytes name @ amf0_bytes v @ ?rest)"
    using reads_utf8 [OF wf(1), of "[]"]
    by (intro reads_bnd [where v = name] reads_bnd [OF v] rest) (simp split: if_splits)
  then show ?case
    unfolding n p amf0_props_bytes.simps append_assoc
    by (rule reads_props_step) (simp_all only: append_assoc props_not_eof [OF wf(1)] not_False_eq_True, simp)
qed

lemma reads_object:
  assumes "reads (read_props n ps0) ps xs"
  shows "reads (object_read n ps0) ps (RTMP_AMF0_Object # xs)"
  using reads_bnd [OF reads_marker assms] by (simp add: object_read.simps)

lemma reads_ecma_array:
  assumes "reads (read_props n ps0) ps xs"
  shows "reads (ecma_array_read n ps0) (SrsAmf0EcmaArray c ps) (RTMP_AMF0_EcmaArray # rev (le_bytes 4 (uint c)) @ xs)"
proof -
  have "reads (bnd (read_props n ps0) (\<lambda>ps'. ret (SrsAmf0EcmaArray c ps'))) (SrsAmf0EcmaArray c ps) (xs @ [])"
    by (rule reads_bnd [OF assms reads_ret])
  then have "reads (bnd (guard_require 4 ERROR_RTMP_AMF0_DECODE) (\<lambda>_. bnd read_4bytes (\<lambda>count.
       bnd (read_props n ps0) (\<lambda>ps'. ret (SrsAmf0EcmaArray count ps')))))
     (SrsAmf0EcmaArray c ps) (rev (le_bytes 4 (uint c)) @ xs)"
    by (intro reads_guard reads_bnd [OF reads_4bytes]) auto
  from reads_bnd [OF reads_marker this] show ?thesis by (simp add: ecma_array_read.simps)
qed

lemma reads_boolean: "reads srs_amf0_read_boolean x [RTMP_AMF0_Boolean, if x then 1 else 0]"
proof -
  have "reads (bnd (guard_require 1 ERROR_RTMP_AMF0_DECODE) (\<lambda>_. bnd read_1bytes (\<lambda>y. ret (y \<noteq> 0)))) x ([if x then 1 else 0] @ [])"
    using reads_ret [of "(if x then 1 else 0 :: byte) \<noteq> 0"]
    by (intro reads_guard reads_bnd [OF reads_1bytes]) (auto split: if_splits)
  from reads_bnd [OF reads_marker this] show ?thesis by (simp add: srs_amf0_read_boolean_def)
qed

lemma reads_number: "reads srs_amf0_read_number d (RTMP_AMF0_Number # rev (le_bytes 8 (uint d)))"
  using reads_bnd [OF reads_marker [of RTMP_AMF0_Number] reads_guard [OF reads_8bytes [of d], of 8]]
  by (simp add: srs_amf0_read_number_def)

lemma reads_amf0_string:
  assumes "length s < 32768"
  shows "reads (srs_amf0_read_string v) (if s = [] then v else s) (RTMP_AMF0_String # utf8_bytes s)"
  using reads_bnd [where f = "\<lambda>_. srs_amf0_read_utf8 v", OF reads_marker [of RTMP_AMF0_String] reads_utf8 [OF assms]]
  by (simp add: srs_amf0_read_string_def)

lemma reads_amf0:
  "amf0_wf v \<Longrightarrow> length (amf0_bytes v) \<le> n \<Longrightarrow> reads (read_any n) v (amf0_bytes v)"
  "amf0_props_wf ps \<Longrightarrow> (name, v) \<in> set ps \<Longrightarrow> length (amf0_bytes v) \<le> n \<Longrightarrow> reads (read_any n) v (amf0_bytes v)"
proof (induction v and ps arbitrary: n and name v n rule: amf0_wf_amf0_props_wf.induct)
  case (1 s)
  then show ?case
    using reads_map [OF reads_amf0_string [of s "[]"], of SrsAmf0String] 
    by (intro reads_discovered) (auto simp: amf0_read.simps split: if_splits)
next
  case (2 x)
  then show ?case using reads_map [OF reads_boolean [of x], of SrsAmf0Boolean]
    by (intro reads_discovered) (simp_all add: amf0_read.simps)
next
  case (3 d)
  then show ?case using reads_map [OF reads_number]
    by (intro reads_discovered) (auto simp: amf0_read.simps)
next
  case 4
  then show ?case using reads_map [OF reads_marker [of RTMP_AMF0_Null], of "\<lambda>_. SrsAmf0Null"]
    by (intro reads_discovered) (auto simp: amf0_read.simps srs_amf0_read_null_def)
next
  case 5
  then show ?case using reads_map [OF reads_marker [of RTMP_AMF0_Undefined], of "\<lambda>_. SrsAmf0Undefined"]
    by (intro reads_discovered) (auto simp: amf0_read.simps srs_amf0_read_undefined_def)
next
  case (6 ps)
  then have "reads (read_props n []) ([] @ ps) (amf0_props_bytes ps @ [0, 0, RTMP_AMF0_ObjectEnd])"
    by (intro reads_props) auto
  from reads_map [OF reads_object [OF this], of SrsAmf0Object] 6 show ?case
    by (intro reads_discovered) (auto simp: amf0_read.simps)
next
  case 7
  then show ?case using reads_map [OF reads_eof, of "\<lambda>_. SrsAmf0ObjectEOF"]
    by (intro reads_discovered) (auto simp: amf0_read.simps)
next
  case (8 c ps)
  then have "reads (read_props n []) ([] @ ps) (amf0_props_bytes ps @ [0, 0, RTMP_AMF0_ObjectEnd])"
    by (intro reads_props) auto
  from reads_ecma_array [OF this] 8 show ?case
    by (intro reads_discovered) (auto simp: amf0_read.simps)
qed auto


section \<open>Reading never stops the process\<close>

lemma safely_marker: "safely L 1 (read_marker m)"
  unfolding read_marker_def
  by (rule safely_guard_then [OF uses_reads(1)]) (auto intro: safely_intros)

lemma safely_utf8: "safely L 2 (srs_amf0_read_utf8 v)"
proof -
  have "safely K 0 (if sint w \<le> 0 then ret v
      else bnd (guard_require (sint w) ERROR_RTMP_AMF0_DECODE) (\<lambda>_. read_string (sint w)))" for K and w :: "16 word"
    using safely_weaken [OF safely_guard [OF uses_string [of "sint w"] refl], of K K 0] by (auto intro: safely_ret)
  then show ?thesis
    unfolding srs_amf0_read_utf8_def by (intro safely_guard_then [OF uses_reads(2)]) auto
qed

lemma safely_is_object_eof [safely_intros]: "safely L 0 srs_amf0_is_object_eof"
  by (simp add: safely_def is_object_eof_eq)

lemma safely_then_marker:
  assumes "\<And>v. safely (L - 1) 0 (f v)" shows "safely L 1 (bnd (read_marker m) f)"
  using assms by (intro safely_then safely_marker)

lemma safely_discovery [safely_intros]: "safely L 0 amf0_discovery"
  unfolding safely_def
proof (intro allI impI)
  fix b :: SrsBuffer assume b: "buf_wf b"
  show "safe (amf0_discovery b) \<and> (\<forall>v b'. amf0_discovery b = Inr (v, b') \<longrightarrow>
      buf_wf b' \<and> length (buf_rest b') + 0 \<le> length (buf_rest b))"
  proof (cases "buf_rest b")
    case Nil
    with b show ?thesis
      by (simp add: amf0_discovery_def bnd_def is_object_eof_eq guard_require_def require_wf_iff)
  next
    case (Cons x xs)
    with b show ?thesis by (simp add: discovery_eq)
  qed
qed

lemma safely_eof: "safely L 0 SrsAmf0ObjectEOF_read"
  unfolding SrsAmf0ObjectEOF_read_def
  by (auto intro!: safely_intros safely_weaken [OF safely_marker order_refl])

lemma safely_string: "safely L 1 (srs_amf0_read_string v)"
  unfolding srs_amf0_read_string_def
  by (intro safely_then_marker safely_weaken [OF safely_utf8 order_refl]) simp

lemma safely_boolean: "safely L 1 srs_amf0_read_boolean"
  unfolding srs_amf0_read_boolean_def by (intro safely_then_marker safely_intros)

lemma safely_number: "safely L 1 srs_amf0_read_number"
  unfolding srs_amf0_read_number_def
  by (intro safely_then_marker safely_weaken [OF safely_guard [OF uses_reads(6)] order_refl]) auto

lemma safely_object: "safely (L - 1) 0 (read_props n ps) \<Longrightarrow> safely L 1 (object_read n ps)"
  unfolding object_read.simps by (rule safely_then_marker)

lemma safely_ecma: "safely (L - 1) 0 (read_props n ps) \<Longrightarrow> safely L 1 (ecma_array_read n ps)"
  unfolding ecma_array_read.simps by (intro safely_then_marker safely_intros)

lemma safely_eof1: "safely L 1 SrsAmf0ObjectEOF_read"
  unfolding SrsAmf0ObjectEOF_read_def
  by (rule safely_weaken [OF safely_guard_then [OF uses_reads(2)]])
    (auto intro!: safely_intros safely_weaken [OF safely_marker order_refl])

lemma safely_amf0_read:
  assumes "\<And>ps. safely (L - 1) 0 (read_props n ps)"
  shows "safely L 1 (amf0_read n v)"
  unfolding amf0_read.simps
  by (cases v) (auto simp del: One_nat_def intro!: safely_map safely_string safely_boolean safely_number safely_eof1 safely_marker
      safely_object safely_ecma assms simp: srs_amf0_read_null_def srs_amf0_read_undefined_def)

lemma safely_read_any:
  assumes "\<And>ps. safely (L - 1) 0 (read_props n ps)"
  shows "safely L 1 (read_any n)"
  unfolding read_any.simps by (intro safely_intros safely_amf0_read assms)

text \<open>With more fuel than bytes left the loop is never cut: a round consumes a name and a value.\<close>

lemma safely_read_props: "L < n \<Longrightarrow> safely L 0 (read_props n ps)"
proof (induction n arbitrary: L ps)
  case (Suc n)
  have any: "safely (L - 2) 1 (read_any n)" if "2 \<le> L"
    using Suc that by (intro safely_read_any) auto
  have "safely (L - 2) 0 (bnd (read_any n) (\<lambda>v. read_props n (ht_set k (Some v) ps)))" if "2 \<le> L" for k
    using safely_bnd [OF any [OF that], of 0 "\<lambda>v. read_props n (ht_set k (Some v) ps)"] Suc that
    by (auto intro: safely_weaken)
  then have "safely L 2 (bnd (srs_amf0_read_utf8 []) (\<lambda>k. bnd (read_any n) (\<lambda>v. read_props n (ht_set k (Some v) ps))))"
    by (rule safely_then [OF safely_utf8])
  then have "safely L 0 (bnd srs_amf0_is_object_eof (\<lambda>eof.
            if eof then bnd SrsAmf0ObjectEOF_read (\<lambda>_. ret ps)
            else bnd (srs_amf0_read_utf8 []) (\<lambda>k. bnd (read_any n) (\<lambda>v. read_props n (ht_set k (Some v) ps)))))"
    by (intro safely_bnd0 [OF safely_is_object_eof] safely_if safely_map safely_eof)
      (auto elim: safely_weaken)
  then show ?case by (auto simp: safely_def read_props.simps)
qed simp

lemma safely_amf0_reads [safely_intros]:
  "safely L 1 srs_amf0_read_any" "safely L 1 (SrsAmf0Object_read ps)" "safely L 1 (SrsAmf0EcmaArray_read ps)"
proof -
  have "safely (length (buf_rest b)) 1 (read_any (Suc (length (buf_rest b))))"
    "safely (length (buf_rest b)) 1 (object_read (Suc (length (buf_rest b))) ps)"
    "safely (length (buf_rest b)) 1 (ecma_array_read (Suc (length (buf_rest b))) ps)" for b
    by (auto simp del: One_nat_def intro!: safely_read_any safely_object safely_ecma safely_read_props)
  then show "safely L 1 srs_amf0_read_any" "safely L 1 (SrsAmf0Object_read ps)" "safely L 1 (SrsAmf0EcmaArray_read ps)"
    unfolding safely_def srs_amf0_read_any_def SrsAmf0Object_read_def SrsAmf0EcmaArray_read_def by blast+
qed

section \<open>The property table is a map\<close>

text \<open>
  What the users of a property table rely on: after \<^verbatim>\<open>set\<close>, that name gives the new value and every
  other name what it gave before.
\<close>

locale property_table =
  fixes empty_table :: 't
    and put :: "string \<Rightarrow> 'v option \<Rightarrow> 't \<Rightarrow> 't"
    and look :: "string \<Rightarrow> 't \<Rightarrow> 'v option"
    and ok :: "'t \<Rightarrow> bool"
  assumes look_empty: "look k empty_table = None"
    and ok_empty: "ok empty_table"
    and ok_put: "ok t \<Longrightarrow> ok (put k v t)"
    and look_put: "ok t \<Longrightarrow> look k' (put k v t) = (if k = k' then v else look k' t)"
begin

definition put_all :: "(string \<times> 'v) list \<Rightarrow> 't \<Rightarrow> 't" where
  "put_all kvs t = fold (\<lambda>(k, v). put k (Some v)) kvs t"

lemma put_all_Nil [simp]: "put_all [] t = t"
  by (simp add: put_all_def)

lemma put_all_Cons [simp]: "put_all ((k, v) # kvs) t = put_all kvs (put k (Some v) t)"
  by (simp add: put_all_def)

lemma ok_put_all: "ok t \<Longrightarrow> ok (put_all kvs t)"
  by (induction kvs arbitrary: t) (auto simp: ok_put)

lemma look_put_all:
  "ok t \<Longrightarrow> look k (put_all kvs t) = (case map_of (rev kvs) k of None \<Rightarrow> look k t | Some v \<Rightarrow> Some v)"
  by (induction kvs arbitrary: t) (auto simp: ok_put look_put map_add_def split: option.splits)

lemma look_put_put: "ok t \<Longrightarrow> look k' (put k v (put k w t)) = look k' (put k v t)"
  by (simp add: look_put ok_put)

end

definition ht_ok :: "SrsUnSortedHashtable \<Rightarrow> bool" where
  "ht_ok ps \<longleftrightarrow> distinct (map fst ps)"

lemma get_property_map_of: "ht_get_property k ps = map_of ps k"
  by (induction ps) auto

lemma set_erase_first: "distinct (map fst ps) \<Longrightarrow> set (ht_erase_first k ps) = {p \<in> set ps. fst p \<noteq> k}"
  by (induction ps) force+

lemma erase_first_filter: "distinct (map fst ps) \<Longrightarrow> ht_erase_first k ps = filter (\<lambda>p. fst p \<noteq> k) ps"
proof (induction ps)
  case (Cons p ps)
  moreover have "filter (\<lambda>p. fst p \<noteq> k) ps = ps" if "k \<notin> fst ` set ps"
    using that by (auto simp: filter_id_conv)
  ultimately show ?case by (cases p) auto
qed simp

lemma distinct_map_fst_filter: "distinct (map fst ps) \<Longrightarrow> distinct (map fst (filter P ps))"
  by (induction ps) auto

lemma map_of_filter_ne: "map_of (filter (\<lambda>p. fst p \<noteq> k) ps) k' = (if k = k' then None else map_of ps k')"
  by (induction ps) auto

interpretation ht: property_table "[] :: SrsUnSortedHashtable" ht_set ht_get_property ht_ok
proof unfold_locales
  fix t :: SrsUnSortedHashtable and k v k'
  assume t: "ht_ok t"
  show "ht_ok (ht_set k v t)"
    using t by (auto simp: ht_ok_def ht_set_def erase_first_filter distinct_map_fst_filter split: option.split)
  show "ht_get_property k' (ht_set k v t) = (if k = k' then v else ht_get_property k' t)"
    using t by (auto simp: ht_ok_def ht_set_def erase_first_filter get_property_map_of map_of_filter_ne
        map_add_def split: option.split)
qed (auto simp: ht_ok_def)

lemma ht_remove_filter: "ht_remove k ps = filter (\<lambda>p. fst p \<noteq> k) ps"
  by (induction ps) auto

text \<open>Copying a table adds the copies of its values one after the other.\<close>

lemma ht_copy_put_all: "ht_copy src dst = ht.put_all (map (\<lambda>(k, v). (k, amf0_copy v)) src) dst"
  by (induction src arbitrary: dst) (auto)

function amf0_nul_free :: "SrsAmf0Any \<Rightarrow> bool" and props_nul_free :: "SrsUnSortedHashtable \<Rightarrow> bool" where
  "amf0_nul_free (SrsAmf0String s) \<longleftrightarrow> CHR 0x00 \<notin> set s"
| "amf0_nul_free (SrsAmf0Boolean _) \<longleftrightarrow> True"
| "amf0_nul_free (SrsAmf0Number d) \<longleftrightarrow> True"
| "amf0_nul_free SrsAmf0Null \<longleftrightarrow> True"
| "amf0_nul_free SrsAmf0Undefined \<longleftrightarrow> True"
| "amf0_nul_free (SrsAmf0Object ps) \<longleftrightarrow> ht_ok ps \<and> props_nul_free ps"
| "amf0_nul_free SrsAmf0ObjectEOF \<longleftrightarrow> True"
| "amf0_nul_free (SrsAmf0EcmaArray _ ps) \<longleftrightarrow> ht_ok ps \<and> props_nul_free ps"
| "props_nul_free [] \<longleftrightarrow> True"
| "props_nul_free ((name, v) # ps) \<longleftrightarrow> amf0_nul_free v \<and> props_nul_free ps"
  by pat_completeness auto
termination
  by (relation "measure (case_sum size (size_list (size_prod (\<lambda>_. 0) size)))") auto

lemma c_str_id: "CHR 0x00 \<notin> set s \<Longrightarrow> c_str s = s"
  by (induction s) (auto simp: c_str_def)

lemma c_str_cut: "c_str (s @ CHR 0x00 # t) = c_str s"
  by (induction s) (auto simp: c_str_def)

lemma copy_id:
  "amf0_nul_free v \<Longrightarrow> amf0_copy v = v"
  "props_nul_free ps \<Longrightarrow> distinct (map fst (dst @ ps)) \<Longrightarrow> ht_copy ps dst = dst @ ps"
proof (induction v and ps arbitrary: and dst rule: amf0_nul_free_props_nul_free.induct)
  case (1 s)
  then show ?case by (simp add: c_str_id)
next
  case (10 name v ps)
  have "name \<notin> fst ` set dst" using 10(4) by auto
  moreover have "ht_copy ps (dst @ [(name, v)]) = (dst @ [(name, v)]) @ ps"
    using 10 by (intro 10(2)) auto
  ultimately show ?case using 10 by (simp add: ht_set_def del: map_append)
qed (auto simp: ht_ok_def)

section \<open>Properties\<close>

text \<open>The property table behaves as a map from names to values: \<^verbatim>\<open>set\<close> replaces or (given a null
  value) removes just its own name, \<^verbatim>\<open>remove\<close> drops just its own name, the names stay distinct, and
  the new entry is the last one, so that the order of the table is the order of the latest \<^verbatim>\<open>set\<close>s.\<close>

theorem hashtable_is_a_map:
  assumes "ht_ok ps"
  shows "ht_get_property k' (ht_set k val ps) = (if k = k' then val else ht_get_property k' ps)
    \<and> ht_get_property k' (ht_remove k ps) = (if k = k' then None else ht_get_property k' ps)
    \<and> ht_ok (ht_set k val ps) \<and> ht_ok (ht_remove k ps)
    \<and> ht_set k (Some v) ps = ht_remove k ps @ [(k, v)]"
  using assms ht.look_put [OF assms] ht.ok_put [OF assms]
  by (simp add: ht_remove_filter get_property_map_of map_of_filter_ne ht_ok_def distinct_map_fst_filter
      ht_set_def erase_first_filter)

theorem hashtable_is_a_map_witness:
  "ht_ok [(''a'', SrsAmf0Null), (''b'', SrsAmf0Undefined)]
   \<and> ht_set ''a'' (Some (SrsAmf0Boolean True)) [(''a'', SrsAmf0Null), (''b'', SrsAmf0Undefined)]
       = [(''b'', SrsAmf0Undefined), (''a'', SrsAmf0Boolean True)]"
  using hashtable_is_a_map [of "[(''a'', SrsAmf0Null), (''b'', SrsAmf0Undefined)]" "''a''" "''a''" None
      "SrsAmf0Boolean True"]
  by (simp add: ht_ok_def)

text \<open>C22. Encoding is exact: given a region of just \<^verbatim>\<open>total_size()\<close> bytes, \<^verbatim>\<open>write\<close> of any value
  (nested objects and arrays included) succeeds, fills it to the last byte with the wire format,
  and no guard of the writers fires.\<close>

theorem amf0_write_exact:
  assumes "int (length region) = amf0_total_size v"
  shows "amf0_write v (SrsBuffer_new region) = Inr ((), \<lparr>buf_bytes = amf0_bytes v, buf_p = length region\<rparr>)"
proof -
  have "length region = length (amf0_bytes v)" using assms length_amf0_bytes(1) [of v] by simp
  with writes_exact [OF writes_amf0(1)] show ?thesis by metis
qed

theorem amf0_write_exact_witness:
  "amf0_write (SrsAmf0Object [(''a'', SrsAmf0Boolean True)]) (SrsBuffer_new (replicate 9 7))
     = Inr ((), \<lparr>buf_bytes = [3, 0, 1, 97, 1, 1, 0, 0, 9], buf_p = 9\<rparr>)"
  using amf0_write_exact [of "replicate 9 7" "SrsAmf0Object [(''a'', SrsAmf0Boolean True)]"]
  by (simp add: amf0_size_defs utf8_bytes_def le_bytes_numeral byte_of_char_def)

text \<open>C23. What is written is read back: any value whose strings and names are below 32768 bytes,
  whose objects have distinct names and whose numbers are not mistaken for an object end, comes
  back unchanged from \<^verbatim>\<open>srs_amf0_read_any\<close>, whatever follows it, and the cursor stops right
  behind it.\<close>

theorem amf0_roundtrip:
  assumes "amf0_wf v" and "buf_wf b" and "buf_rest b = amf0_bytes v @ ys"
  shows "srs_amf0_read_any b = Inr (v, buf_adv (length (amf0_bytes v)) b)
    \<and> buf_rest (buf_adv (length (amf0_bytes v)) b) = ys"
  using readsD [OF reads_amf0(1) [OF assms(1), of "Suc (length (buf_rest b))"] assms(2,3)] assms(3)
  by (simp add: srs_amf0_read_any_def)

theorem amf0_roundtrip_witness:
  "srs_amf0_read_any (SrsBuffer_new [3, 0, 1, 97, 1, 1, 0, 0, 9, 5])
     = Inr (SrsAmf0Object [(''a'', SrsAmf0Boolean True)], buf_adv 9 (SrsBuffer_new [3, 0, 1, 97, 1, 1, 0, 0, 9, 5]))"
  using amf0_roundtrip [of "SrsAmf0Object [(''a'', SrsAmf0Boolean True)]" "SrsBuffer_new [3, 0, 1, 97, 1, 1, 0, 0, 9, 5]" "[5]"]
  by (simp add: utf8_bytes_def le_bytes_numeral byte_of_char_def)

text \<open>C24. Reading is safe on every input: whatever bytes a peer sends, \<^verbatim>\<open>srs_amf0_read_any\<close> returns
  a value or an error code; no assertion of the buffer fails, the recursion ends, and a success has
  consumed at least one byte and never moves past the end.\<close>

theorem amf0_read_any_safe:
  assumes "buf_wf b"
  shows "safe (srs_amf0_read_any b)
    \<and> (\<forall>v b'. srs_amf0_read_any b = Inr (v, b') \<longrightarrow> buf_wf b' \<and> length (buf_rest b') < length (buf_rest b))"
  using safelyD [OF safely_amf0_reads(1) assms order_refl] by fastforce

theorem amf0_read_any_safe_witness:
  "safe (srs_amf0_read_any (SrsBuffer_new [3, 0, 1, 97, 8, 0]))"
  using amf0_read_any_safe [of "SrsBuffer_new [3, 0, 1, 97, 8, 0]"] by simp

text \<open>A deep copy equals the original when no string in it has an embedded NUL and the names of
  each object are distinct; a string with a NUL is cut there.\<close>

theorem amf0_copy_faithful:
  shows "(amf0_nul_free v \<longrightarrow> amf0_copy v = v)
    \<and> amf0_copy (SrsAmf0String (s @ CHR 0x00 # t)) = SrsAmf0String (c_str s)"
  by (simp add: copy_id(1) c_str_cut)

theorem amf0_copy_faithful_witness:
  "amf0_copy (SrsAmf0Object [(''a'', SrsAmf0String ''b'')]) = SrsAmf0Object [(''a'', SrsAmf0String ''b'')]"
  using amf0_copy_faithful [of "SrsAmf0Object [(''a'', SrsAmf0String ''b'')]"] by (simp add: ht_ok_def)

section \<open>Where the wire format does not round-trip\<close>

text \<open>
  The length of a string is read as \<^verbatim>\<open>int16_t\<close>: a string of 32768 bytes or more, which the writer
  encodes with an unsigned length, is taken for an empty one, its value is not assigned and its
  bytes are left in the stream.
\<close>

lemma read_utf8_long:
  assumes "32768 \<le> length s" and "length s < 65536" and "buf_wf b" and "buf_rest b = utf8_bytes s @ ys"
  shows "srs_amf0_read_utf8 v b = Inr (v, buf_adv 2 b)"
proof -
  let ?w = "word_of_nat (length s) :: 16 word"
  have "int (length s) div 32768 = 1"
    using assms(1,2) by (intro int_div_pos_eq [of _ 32768 1 "int (length s) - 32768"]) auto
  then have "\<not> (0 \<le> sint ?w)"
    by (simp add: signed_of_nat bit_iff_odd drop_bit_eq_div)
  then have "reads (if sint ?w \<le> 0 then ret v
      else bnd (guard_require (sint ?w) ERROR_RTMP_AMF0_DECODE) (\<lambda>_. read_string (sint ?w))) v []"
    by (simp add: reads_ret)
  then have "reads (srs_amf0_read_utf8 v) v (rev (le_bytes 2 (uint ?w)) @ [])"
    unfolding srs_amf0_read_utf8_def by (intro reads_guard reads_bnd [OF reads_2bytes]) auto
  from readsD [OF this assms(3)] assms(4) show ?thesis by (simp add: utf8_bytes_def)
qed

text \<open>A number whose pattern starts with \<open>00 09\<close> is discovered as the end of an object.\<close>

lemma number_read_as_eof:
  assumes "take 2 (rev (le_bytes 8 (uint d))) = [0, 9]" and "buf_wf b"
    and "buf_rest b = amf0_bytes (SrsAmf0Number d) @ ys"
  shows "srs_amf0_read_any b = Inr (SrsAmf0ObjectEOF, buf_adv 3 b)"
proof -
  have eof: "take 3 (buf_rest b) = [0, 0, 9]" and rest: "buf_rest b = 0 # rev (le_bytes 8 (uint d)) @ ys"
    using assms by (auto simp: take_eof_append)
  have "buf_rest b = [0, 0, 9] @ drop 3 (buf_rest b)"
    using eof by (metis append_take_drop_id)
  from readsD [OF reads_eof assms(2) this] discovery_eq [OF assms(2) rest] eof show ?thesis
    by (simp add: srs_amf0_read_any_def read_any.simps amf0_read.simps bnd_def ret_def)
qed

end
