(* ===== verification/Message.thy ===== *)
theory Message
  imports Prelude
begin

text \<open>
  RTMP messages in memory, \<^verbatim>\<open>src/src/kernel/srs_kernel_flv.cpp\<close>: the message header, the message
  being received (\<^verbatim>\<open>SrsCommonMessage\<close>), the message being sent (\<^verbatim>\<open>SrsSharedPtrMessage\<close>) and the
  two chunk headers of the sender. A \<^verbatim>\<open>char*\<close> with its size is a byte list. The messages here are
  values; the reference count that lets copies share one payload is the subject of \<open>SharedPtr\<close>,
  which relates it to these values.
\<close>

section \<open>Constants\<close>

abbreviation (input) RTMP_MSG_SetChunkSize :: byte where "RTMP_MSG_SetChunkSize \<equiv> 0x01"
abbreviation (input) RTMP_MSG_AbortMessage :: byte where "RTMP_MSG_AbortMessage \<equiv> 0x02"
abbreviation (input) RTMP_MSG_Acknowledgement :: byte where "RTMP_MSG_Acknowledgement \<equiv> 0x03"
abbreviation (input) RTMP_MSG_UserControlMessage :: byte where "RTMP_MSG_UserControlMessage \<equiv> 0x04"
abbreviation (input) RTMP_MSG_WindowAcknowledgementSize :: byte where
  "RTMP_MSG_WindowAcknowledgementSize \<equiv> 0x05"
abbreviation (input) RTMP_MSG_SetPeerBandwidth :: byte where "RTMP_MSG_SetPeerBandwidth \<equiv> 0x06"
abbreviation (input) RTMP_MSG_AMF3CommandMessage :: byte where "RTMP_MSG_AMF3CommandMessage \<equiv> 17"
abbreviation (input) RTMP_MSG_AMF0CommandMessage :: byte where "RTMP_MSG_AMF0CommandMessage \<equiv> 20"
abbreviation (input) RTMP_MSG_AMF0DataMessage :: byte where "RTMP_MSG_AMF0DataMessage \<equiv> 18"
abbreviation (input) RTMP_MSG_AMF3DataMessage :: byte where "RTMP_MSG_AMF3DataMessage \<equiv> 15"
abbreviation (input) RTMP_MSG_AudioMessage :: byte where "RTMP_MSG_AudioMessage \<equiv> 8"
abbreviation (input) RTMP_MSG_VideoMessage :: byte where "RTMP_MSG_VideoMessage \<equiv> 9"
abbreviation (input) RTMP_MSG_AggregateMessage :: byte where "RTMP_MSG_AggregateMessage \<equiv> 22"

abbreviation (input) RTMP_CID_ProtocolControl :: int where "RTMP_CID_ProtocolControl \<equiv> 0x02"
abbreviation (input) RTMP_CID_OverConnection :: int where "RTMP_CID_OverConnection \<equiv> 0x03"
abbreviation (input) RTMP_CID_OverConnection2 :: int where "RTMP_CID_OverConnection2 \<equiv> 0x04"
abbreviation (input) RTMP_CID_OverStream :: int where "RTMP_CID_OverStream \<equiv> 0x05"
abbreviation (input) RTMP_CID_Video :: int where "RTMP_CID_Video \<equiv> 0x06"
abbreviation (input) RTMP_CID_Audio :: int where "RTMP_CID_Audio \<equiv> 0x07"

abbreviation (input) RTMP_EXTENDED_TIMESTAMP :: int where "RTMP_EXTENDED_TIMESTAMP \<equiv> 0xFFFFFF"
abbreviation (input) SRS_CONSTS_RTMP_MAX_FMT0_HEADER_SIZE :: nat where
  "SRS_CONSTS_RTMP_MAX_FMT0_HEADER_SIZE \<equiv> 16"
abbreviation (input) SRS_CONSTS_RTMP_MAX_FMT3_HEADER_SIZE :: nat where
  "SRS_CONSTS_RTMP_MAX_FMT3_HEADER_SIZE \<equiv> 5"

section \<open>The message header\<close>

record SrsMessageHeader =
  timestamp_delta :: int
  payload_length :: int
  message_type :: byte
  stream_id :: "32 word"
  timestamp :: int
  prefer_cid :: int

definition SrsMessageHeader_new :: SrsMessageHeader where
  "SrsMessageHeader_new = \<lparr>timestamp_delta = 0, payload_length = 0, message_type = 0, stream_id = 0,
     timestamp = 0, prefer_cid = RTMP_CID_OverConnection\<rparr>"

definition is_audio :: "SrsMessageHeader \<Rightarrow> bool" where
  "is_audio h \<longleftrightarrow> message_type h = RTMP_MSG_AudioMessage"
definition is_video :: "SrsMessageHeader \<Rightarrow> bool" where
  "is_video h \<longleftrightarrow> message_type h = RTMP_MSG_VideoMessage"
definition is_amf0_command :: "SrsMessageHeader \<Rightarrow> bool" where
  "is_amf0_command h \<longleftrightarrow> message_type h = RTMP_MSG_AMF0CommandMessage"
definition is_amf0_data :: "SrsMessageHeader \<Rightarrow> bool" where
  "is_amf0_data h \<longleftrightarrow> message_type h = RTMP_MSG_AMF0DataMessage"
definition is_amf3_command :: "SrsMessageHeader \<Rightarrow> bool" where
  "is_amf3_command h \<longleftrightarrow> message_type h = RTMP_MSG_AMF3CommandMessage"
definition is_amf3_data :: "SrsMessageHeader \<Rightarrow> bool" where
  "is_amf3_data h \<longleftrightarrow> message_type h = RTMP_MSG_AMF3DataMessage"
definition is_window_ackledgement_size :: "SrsMessageHeader \<Rightarrow> bool" where
  "is_window_ackledgement_size h \<longleftrightarrow> message_type h = RTMP_MSG_WindowAcknowledgementSize"
definition is_ackledgement :: "SrsMessageHeader \<Rightarrow> bool" where
  "is_ackledgement h \<longleftrightarrow> message_type h = RTMP_MSG_Acknowledgement"
definition is_set_chunk_size :: "SrsMessageHeader \<Rightarrow> bool" where
  "is_set_chunk_size h \<longleftrightarrow> message_type h = RTMP_MSG_SetChunkSize"
definition is_user_control_message :: "SrsMessageHeader \<Rightarrow> bool" where
  "is_user_control_message h \<longleftrightarrow> message_type h = RTMP_MSG_UserControlMessage"
definition is_set_peer_bandwidth :: "SrsMessageHeader \<Rightarrow> bool" where
  "is_set_peer_bandwidth h \<longleftrightarrow> message_type h = RTMP_MSG_SetPeerBandwidth"
definition is_aggregate :: "SrsMessageHeader \<Rightarrow> bool" where
  "is_aggregate h \<longleftrightarrow> message_type h = RTMP_MSG_AggregateMessage"

definition initialize_amf0_script :: "int \<Rightarrow> 32 word \<Rightarrow> SrsMessageHeader \<Rightarrow> SrsMessageHeader" where
  "initialize_amf0_script sz stream h = h\<lparr>message_type := RTMP_MSG_AMF0DataMessage, payload_length := sz,
     timestamp_delta := 0, timestamp := 0, stream_id := stream, prefer_cid := RTMP_CID_OverConnection2\<rparr>"

definition initialize_audio :: "int \<Rightarrow> 32 word \<Rightarrow> 32 word \<Rightarrow> SrsMessageHeader \<Rightarrow> SrsMessageHeader" where
  "initialize_audio sz time stream h = h\<lparr>message_type := RTMP_MSG_AudioMessage, payload_length := sz,
     timestamp_delta := sint time, timestamp := uint time, stream_id := stream,
     prefer_cid := RTMP_CID_Audio\<rparr>"

definition initialize_video :: "int \<Rightarrow> 32 word \<Rightarrow> 32 word \<Rightarrow> SrsMessageHeader \<Rightarrow> SrsMessageHeader" where
  "initialize_video sz time stream h = h\<lparr>message_type := RTMP_MSG_VideoMessage, payload_length := sz,
     timestamp_delta := sint time, timestamp := uint time, stream_id := stream,
     prefer_cid := RTMP_CID_Video\<rparr>"

section \<open>The received message\<close>

text \<open>
  \<open>cm_payload\<close> is \<open>None\<close> for a null payload; while a message is being received it holds the bytes
  that have arrived, so that the field \<^verbatim>\<open>size\<close> of the code is its length.
\<close>

record SrsCommonMessage =
  cm_header :: SrsMessageHeader
  cm_payload :: "byte list option"

definition SrsCommonMessage_new :: SrsCommonMessage where
  "SrsCommonMessage_new = \<lparr>cm_header = SrsMessageHeader_new, cm_payload = None\<rparr>"

definition cm_size :: "SrsCommonMessage \<Rightarrow> int" where
  "cm_size msg = (case cm_payload msg of None \<Rightarrow> 0 | Some bs \<Rightarrow> int (length bs))"

definition SrsCommonMessage_create :: "SrsMessageHeader \<Rightarrow> byte list \<Rightarrow> SrsCommonMessage \<Rightarrow> SrsCommonMessage" where
  "SrsCommonMessage_create pheader body msg = msg\<lparr>cm_header := pheader, cm_payload := Some body\<rparr>"

section \<open>The message to send\<close>

record SrsSharedPtrMessage =
  sm_timestamp :: int
  sm_stream_id :: "32 word"
  sm_payload_length :: int
  sm_message_type :: byte
  sm_prefer_cid :: int
  sm_payload :: "byte list"

definition SrsSharedPtrMessage_create ::
    "SrsMessageHeader \<Rightarrow> byte list \<Rightarrow> int \<Rightarrow> SrsSharedPtrMessage result" where
  "SrsSharedPtrMessage_create pheader payload sz =
     (if sz < 0 then Inl (Srs_error ERROR_RTMP_MESSAGE_CREATE)
      else Inr \<lparr>sm_timestamp = timestamp pheader, sm_stream_id = stream_id pheader,
                sm_payload_length = sz, sm_message_type = message_type pheader,
                sm_prefer_cid = prefer_cid pheader, sm_payload = take (nat sz) payload\<rparr>)"

text \<open>\<^verbatim>\<open>create(SrsCommonMessage*)\<close> also takes the payload away from the received message.\<close>

definition SrsSharedPtrMessage_create_msg ::
    "SrsCommonMessage \<Rightarrow> (SrsSharedPtrMessage \<times> SrsCommonMessage) result" where
  "SrsSharedPtrMessage_create_msg msg =
     (case SrsSharedPtrMessage_create (cm_header msg)
             (case cm_payload msg of None \<Rightarrow> [] | Some bs \<Rightarrow> bs) (cm_size msg) of
        Inl e \<Rightarrow> Inl e
      | Inr m \<Rightarrow> Inr (m, msg\<lparr>cm_payload := None\<rparr>))"

definition sm_size :: "SrsSharedPtrMessage \<Rightarrow> int" where
  "sm_size m = int (length (sm_payload m))"

definition sm_check :: "32 word \<Rightarrow> SrsSharedPtrMessage \<Rightarrow> bool \<times> SrsSharedPtrMessage" where
  "sm_check sid m =
     (let m1 = (if sm_prefer_cid m < 2 \<or> sm_prefer_cid m > 63
                then m\<lparr>sm_prefer_cid := RTMP_CID_ProtocolControl\<rparr> else m)
      in if sm_stream_id m1 = sid then (True, m1) else (False, m1\<lparr>sm_stream_id := sid\<rparr>))"

definition sm_is_av :: "SrsSharedPtrMessage \<Rightarrow> bool" where
  "sm_is_av m \<longleftrightarrow> sm_message_type m = RTMP_MSG_AudioMessage \<or> sm_message_type m = RTMP_MSG_VideoMessage"

definition sm_is_audio :: "SrsSharedPtrMessage \<Rightarrow> bool" where
  "sm_is_audio m \<longleftrightarrow> sm_message_type m = RTMP_MSG_AudioMessage"

definition sm_is_video :: "SrsSharedPtrMessage \<Rightarrow> bool" where
  "sm_is_video m \<longleftrightarrow> sm_message_type m = RTMP_MSG_VideoMessage"

section \<open>Chunk headers\<close>

text \<open>
  The two headers of the sender, as the bytes written to a cache of \<open>nb_cache\<close> bytes; no bytes when
  the cache is too small. \<^verbatim>\<open>(char*)&timestamp\<close> is the little-endian memory of the 32-bit timestamp.
\<close>

definition srs_chunk_header_c0 ::
    "int \<Rightarrow> 32 word \<Rightarrow> int \<Rightarrow> byte \<Rightarrow> 32 word \<Rightarrow> nat \<Rightarrow> byte list" where
  "srs_chunk_header_c0 cid ts plen mtype sid nb_cache =
     (if nb_cache < SRS_CONSTS_RTMP_MAX_FMT0_HEADER_SIZE then []
      else [0x00 OR (word_of_int cid AND 0x3F)]
        @ (if uint ts < RTMP_EXTENDED_TIMESTAMP then rev (take 3 (le_bytes 4 (uint ts))) else [0xFF, 0xFF, 0xFF])
        @ rev (take 3 (le_bytes 4 plen))
        @ [mtype]
        @ le_bytes 4 (uint sid)
        @ (if uint ts \<ge> RTMP_EXTENDED_TIMESTAMP then rev (le_bytes 4 (uint ts)) else []))"

definition srs_chunk_header_c3 :: "int \<Rightarrow> 32 word \<Rightarrow> nat \<Rightarrow> byte list" where
  "srs_chunk_header_c3 cid ts nb_cache =
     (if nb_cache < SRS_CONSTS_RTMP_MAX_FMT3_HEADER_SIZE then []
      else [0xC0 OR (word_of_int cid AND 0x3F)]
        @ (if uint ts \<ge> RTMP_EXTENDED_TIMESTAMP then rev (le_bytes 4 (uint ts)) else []))"

definition sm_chunk_header :: "nat \<Rightarrow> bool \<Rightarrow> SrsSharedPtrMessage \<Rightarrow> byte list" where
  "sm_chunk_header nb_cache c0 m =
     (if c0 then srs_chunk_header_c0 (sm_prefer_cid m) (word_of_int (sm_timestamp m))
                   (sm_payload_length m) (sm_message_type m) (sm_stream_id m) nb_cache
      else srs_chunk_header_c3 (sm_prefer_cid m) (word_of_int (sm_timestamp m)) nb_cache)"

section \<open>Lemmas\<close>

lemma length_chunk_header_c0:
  "16 \<le> nb \<Longrightarrow> length (srs_chunk_header_c0 cid ts plen mtype sid nb)
     = (if uint ts \<ge> RTMP_EXTENDED_TIMESTAMP then 16 else 12)"
  by (simp add: srs_chunk_header_c0_def)

lemma length_chunk_header_c3:
  "5 \<le> nb \<Longrightarrow> length (srs_chunk_header_c3 cid ts nb) = (if uint ts \<ge> RTMP_EXTENDED_TIMESTAMP then 5 else 1)"
  by (simp add: srs_chunk_header_c3_def)

lemma chunk_header_nonempty [simp]: "sm_chunk_header 16 c0 m \<noteq> []"
  by (simp add: sm_chunk_header_def srs_chunk_header_c0_def srs_chunk_header_c3_def)

text \<open>The chunk header always fits the 16 bytes that the sender keeps for it.\<close>

lemma length_chunk_header: "length (sm_chunk_header 16 c0 m) \<le> 16"
  by (simp add: sm_chunk_header_def length_chunk_header_c0 length_chunk_header_c3)

text \<open>After \<^verbatim>\<open>check\<close> the chunk stream id fits the one-byte basic header, and a second check is a no-op.\<close>

lemma sm_check_cid: "2 \<le> sm_prefer_cid (snd (sm_check sid m))" "sm_prefer_cid (snd (sm_check sid m)) \<le> 63"
  by (auto simp: sm_check_def Let_def)

lemma sm_check_stream: "sm_stream_id (snd (sm_check sid m)) = sid"
  by (auto simp: sm_check_def Let_def)

lemma sm_check_payload: "sm_payload (snd (sm_check sid m)) = sm_payload m"
  by (auto simp: sm_check_def Let_def)

lemma sm_check_idem: "sm_check sid (snd (sm_check sid m)) = (True, snd (sm_check sid m))"
  by (auto simp: sm_check_def Let_def)

end
