(* ===== verification/SharedPtr.thy ===== *)
theory SharedPtr
  imports Message
begin

text \<open>
  \<^verbatim>\<open>SrsSharedPtrMessage\<close> of \<^verbatim>\<open>src/src/kernel/srs_kernel_flv.cpp\<close> as it is in memory: message objects that point to a
  reference-counted payload. The rest of the development uses messages as values; here the operations
  on the heap are related to those values, and the reference count to the objects that are alive. The
  count is a plain \<^verbatim>\<open>int\<close> that several threads change; the last section shows what this can lead to.
\<close>

section \<open>The heap\<close>

record SrsSharedPtrPayload =
  sp_message_type :: byte
  sp_payload_length :: int
  sp_prefer_cid :: int
  sp_payload :: "byte list"
  shared_count :: int

record message_object =
  mo_timestamp :: int
  mo_stream_id :: "32 word"
  mo_ptr :: "nat option"

record heap =
  h_payloads :: "nat \<Rightarrow> SrsSharedPtrPayload option"
  h_messages :: "nat \<Rightarrow> message_object option"

text \<open>\<open>heap_new\<close> allocates a message at the address \<open>m\<close>, \<open>heap_create\<close> its payload at \<open>p\<close>; a freed address is a dangling pointer.\<close>

definition heap_new :: "nat \<Rightarrow> heap \<Rightarrow> heap" where
  "heap_new m h = h\<lparr>h_messages := (h_messages h)(m \<mapsto> \<lparr>mo_timestamp = 0, mo_stream_id = 0, mo_ptr = None\<rparr>)\<rparr>"

definition heap_create :: "nat \<Rightarrow> SrsMessageHeader \<Rightarrow> byte list \<Rightarrow> int \<Rightarrow> nat \<Rightarrow> heap \<Rightarrow> heap result" where
  "heap_create p pheader payload sz m h =
     (case h_messages h m of
        None \<Rightarrow> Inl Srs_null_deref
      | Some obj \<Rightarrow>
          if sz < 0 then Inl (Srs_error ERROR_RTMP_MESSAGE_CREATE)
          else if mo_ptr obj \<noteq> None then Inl Srs_abort
          else Inr (h\<lparr>h_payloads := (h_payloads h)(p \<mapsto> \<lparr>sp_message_type = message_type pheader, sp_payload_length = sz,
                        sp_prefer_cid = prefer_cid pheader, sp_payload = take (nat sz) payload, shared_count = 0\<rparr>),
                      h_messages := (h_messages h)(m \<mapsto> \<lparr>mo_timestamp = timestamp pheader, mo_stream_id = stream_id pheader,
                        mo_ptr = Some p\<rparr>)\<rparr>))"

definition heap_copy :: "nat \<Rightarrow> nat \<Rightarrow> heap \<Rightarrow> heap result" where
  "heap_copy m m' h =
     (case h_messages h m of
        None \<Rightarrow> Inl Srs_null_deref
      | Some obj \<Rightarrow>
          (case mo_ptr obj of
             None \<Rightarrow> Inl Srs_abort
           | Some p \<Rightarrow>
               (case h_payloads h p of
                  None \<Rightarrow> Inl Srs_null_deref
                | Some pl \<Rightarrow> Inr (h\<lparr>h_payloads := (h_payloads h)(p \<mapsto> pl\<lparr>shared_count := shared_count pl + 1\<rparr>),
                                    h_messages := (h_messages h)(m' \<mapsto> obj)\<rparr>))))"

definition heap_destroy :: "nat \<Rightarrow> heap \<Rightarrow> heap result" where
  "heap_destroy m h =
     (case h_messages h m of
        None \<Rightarrow> Inl Srs_null_deref
      | Some obj \<Rightarrow>
          let h1 = h\<lparr>h_messages := (h_messages h)(m := None)\<rparr> in
          (case mo_ptr obj of
             None \<Rightarrow> Inr h1
           | Some p \<Rightarrow>
               (case h_payloads h1 p of
                  None \<Rightarrow> Inl Srs_null_deref
                | Some pl \<Rightarrow> Inr (h1\<lparr>h_payloads := (h_payloads h1)(p :=
                      if shared_count pl = 0 then None else Some (pl\<lparr>shared_count := shared_count pl - 1\<rparr>))\<rparr>))))"

definition heap_count :: "nat \<Rightarrow> heap \<Rightarrow> int" where
  "heap_count m h =
     (case h_messages h m of None \<Rightarrow> 0
      | Some obj \<Rightarrow> (case mo_ptr obj of None \<Rightarrow> 0
         | Some p \<Rightarrow> (case h_payloads h p of None \<Rightarrow> 0 | Some pl \<Rightarrow> shared_count pl)))"

text \<open>The message as a value.\<close>

definition heap_value :: "heap \<Rightarrow> nat \<Rightarrow> SrsSharedPtrMessage option" where
  "heap_value h m =
     (case h_messages h m of None \<Rightarrow> None
      | Some obj \<Rightarrow> (case mo_ptr obj of None \<Rightarrow> None
         | Some p \<Rightarrow> (case h_payloads h p of None \<Rightarrow> None
            | Some pl \<Rightarrow> Some \<lparr>sm_timestamp = mo_timestamp obj, sm_stream_id = mo_stream_id obj, sm_payload_length = sp_payload_length pl,
                sm_message_type = sp_message_type pl, sm_prefer_cid = sp_prefer_cid pl, sm_payload = sp_payload pl\<rparr>)))"

section \<open>Reference counting\<close>

definition refs :: "heap \<Rightarrow> nat \<Rightarrow> nat set" where
  "refs h p = {m. \<exists>obj. h_messages h m = Some obj \<and> mo_ptr obj = Some p}"

text \<open>The count of a payload is one less than the messages that point to it, and no message points to a freed payload.\<close>

definition heap_ok :: "heap \<Rightarrow> bool" where
  "heap_ok h \<longleftrightarrow> finite (dom (h_messages h)) \<and>
     (\<forall>p. case h_payloads h p of None \<Rightarrow> refs h p = {} | Some pl \<Rightarrow> int (card (refs h p)) = shared_count pl + 1 \<and> refs h p \<noteq> {})"

lemma refs_finite: "heap_ok h \<Longrightarrow> finite (refs h p)"
  by (rule finite_subset [of _ "dom (h_messages h)"]) (auto simp: refs_def heap_ok_def)

lemma heap_okD:
  assumes "heap_ok h"
  shows "h_payloads h p = None \<Longrightarrow> refs h p = {}"
    and "h_payloads h p = Some pl \<Longrightarrow> int (card (refs h p)) = shared_count pl + 1 \<and> refs h p \<noteq> {}"
  using assms unfolding heap_ok_def by (auto dest: spec [where x = p])

lemma heap_okI:
  assumes "finite (dom (h_messages h))" and "\<And>p. h_payloads h p = None \<Longrightarrow> refs h p = {}"
    and "\<And>p pl. h_payloads h p = Some pl \<Longrightarrow> int (card (refs h p)) = shared_count pl + 1 \<and> refs h p \<noteq> {}"
  shows "heap_ok h"
  using assms unfolding heap_ok_def by (auto split: option.splits)

lemma heap_ok_same:
  assumes "heap_ok h" and "h_payloads h' = h_payloads h" and "\<And>q. refs h' q = refs h q" and "finite (dom (h_messages h'))"
  shows "heap_ok h'"
  using assms(1,4) unfolding heap_ok_def assms(2,3) by blast

text \<open>A live message with a payload points to a live payload.\<close>

lemma live_payload:
  assumes "heap_ok h" and "h_messages h m = Some obj" and "mo_ptr obj = Some p"
  obtains pl where "h_payloads h p = Some pl" and "m \<in> refs h p"
proof -
  have r: "m \<in> refs h p" using assms(2,3) by (auto simp: refs_def)
  then show thesis using that heap_okD(1) [OF assms(1), of p] by (cases "h_payloads h p") auto
qed

lemma refs_new: "h_messages h m = None \<Longrightarrow> refs (h\<lparr>h_payloads := P, h_messages := (h_messages h)(m \<mapsto> obj)\<rparr>) q
    = (if mo_ptr obj = Some q then insert m (refs h q) else refs h q)"
  by (auto simp: refs_def)

lemma refs_del: "refs (h\<lparr>h_messages := (h_messages h)(m := None), h_payloads := P\<rparr>) q = refs h q - {m}"
  by (auto simp: refs_def)

lemma heap_copy_ok:
  assumes ok: "heap_ok h" and m: "h_messages h m = Some obj" "mo_ptr obj = Some p" and fresh: "h_messages h m' = None"
  shows "\<exists>h'. heap_copy m m' h = Inr h' \<and> heap_ok h' \<and> heap_value h' m' = heap_value h m
     \<and> (\<forall>k. k \<noteq> m' \<longrightarrow> heap_value h' k = heap_value h k)"
proof -
  obtain pl where pl: "h_payloads h p = Some pl" "m \<in> refs h p" using live_payload [OF ok m] by blast
  let ?P = "(h_payloads h)(p \<mapsto> pl\<lparr>shared_count := shared_count pl + 1\<rparr>)"
  let ?h = "h\<lparr>h_payloads := ?P, h_messages := (h_messages h)(m' \<mapsto> obj)\<rparr>"
  have c: "heap_copy m m' h = Inr ?h" using m pl by (simp add: heap_copy_def)
  have r: "refs ?h q = (if q = p then insert m' (refs h p) else refs h q)" for q
    using refs_new [OF fresh, where P = ?P and obj = obj and q = q] m by auto
  have new: "m' \<notin> refs h p" using fresh by (simp add: refs_def)
  have "heap_ok ?h"
  proof (rule heap_okI)
    show "finite (dom (h_messages ?h))" using ok by (simp add: heap_ok_def)
    show "refs ?h q = {}" if "h_payloads ?h q = None" for q using that heap_okD(1) [OF ok, of q] r by (auto split: if_splits)
    show "int (card (refs ?h q)) = shared_count ql + 1 \<and> refs ?h q \<noteq> {}" if "h_payloads ?h q = Some ql" for q ql
      using that heap_okD(2) [OF ok, of q] heap_okD(2) [OF ok pl(1)] r new refs_finite [OF ok, of p] by (auto split: if_splits)
  qed
  moreover have "heap_value ?h m' = heap_value h m" using m pl by (simp add: heap_value_def)
  moreover have "heap_value ?h k = heap_value h k" if "k \<noteq> m'" for k
    using that pl by (auto simp: heap_value_def split: option.splits)
  ultimately show ?thesis using c by blast
qed

lemma heap_destroy_ok:
  assumes ok: "heap_ok h" and m: "h_messages h m = Some obj"
  shows "\<exists>h'. heap_destroy m h = Inr h' \<and> heap_ok h' \<and> h_messages h' m = None
     \<and> (\<forall>k. k \<noteq> m \<longrightarrow> heap_value h' k = heap_value h k)
     \<and> (\<forall>p. mo_ptr obj = Some p \<longrightarrow> refs h p = {m} \<longrightarrow> h_payloads h' p = None)"
proof (cases "mo_ptr obj")
  case None
  let ?h = "h\<lparr>h_messages := (h_messages h)(m := None)\<rparr>"
  have r: "refs ?h q = refs h q" for q using m None by (auto simp: refs_def)
  have "heap_ok ?h" using ok by (intro heap_ok_same [OF ok _ r]) (simp_all add: heap_ok_def)
  moreover have "heap_value ?h k = heap_value h k" if "k \<noteq> m" for k
    using that by (auto simp: heap_value_def split: option.splits)
  ultimately show ?thesis using m None by (intro exI [of _ ?h]) (auto simp: heap_destroy_def)
next
  case (Some p)
  obtain pl where pl: "h_payloads h p = Some pl" "m \<in> refs h p" using live_payload [OF ok m Some] by blast
  let ?P = "(h_payloads h)(p := if shared_count pl = 0 then None else Some (pl\<lparr>shared_count := shared_count pl - 1\<rparr>))"
  let ?h = "h\<lparr>h_messages := (h_messages h)(m := None), h_payloads := ?P\<rparr>"
  have d: "heap_destroy m h = Inr ?h" using m Some pl by (simp add: heap_destroy_def)
  have r: "refs ?h q = refs h q - {m}" for q by (rule refs_del)
  have same: "q \<noteq> p \<Longrightarrow> refs h q - {m} = refs h q" for q using m Some by (auto simp: refs_def)
  have card: "int (card (refs h p)) = shared_count pl + 1" using heap_okD(2) [OF ok pl(1)] by blast
  have fin: "finite (refs h p)" by (rule refs_finite [OF ok])
  have card': "int (card (refs h p - {m})) = shared_count pl" 
    using card card.remove [OF fin pl(2)] by simp
  have zero: "shared_count pl = 0 \<longleftrightarrow> refs h p - {m} = {}" using card' fin by (metis card_0_eq finite_Diff of_nat_eq_0_iff)
  have "heap_ok ?h"
  proof (rule heap_okI)
    show "finite (dom (h_messages ?h))" using ok by (simp add: heap_ok_def)
    show "refs ?h q = {}" if "h_payloads ?h q = None" for q
      using that heap_okD(1) [OF ok, of q] r [of q] same [of q] zero by (auto split: if_splits)
    show "int (card (refs ?h q)) = shared_count ql + 1 \<and> refs ?h q \<noteq> {}" if "h_payloads ?h q = Some ql" for q ql
      using that heap_okD(2) [OF ok, of q] r [of q] same [of q] zero card' by (auto split: if_splits)
  qed
  moreover have "heap_value ?h k = heap_value h k" if "k \<noteq> m" for k
  proof (cases "k \<in> refs h p")
    case True
    then have "shared_count pl \<noteq> 0" using zero that by auto
    then show ?thesis using that pl by (auto simp: heap_value_def split: option.splits)
  next
    case False
    then show ?thesis using that by (auto simp: heap_value_def refs_def split: option.splits)
  qed
  moreover have "refs h p = {m} \<Longrightarrow> h_payloads ?h p = None" using zero by simp
  ultimately show ?thesis using d Some by (intro exI [of _ ?h]) auto
qed


lemma heap_create_ok:
  assumes ok: "heap_ok h" and m: "h_messages h m = Some obj" "mo_ptr obj = None" and p: "h_payloads h p = None" and sz: "0 \<le> sz"
  shows "\<exists>h'. heap_create p header bs sz m h = Inr h' \<and> heap_ok h'
     \<and> Inr (the (heap_value h' m)) = SrsSharedPtrMessage_create header bs sz
     \<and> (\<forall>k. k \<noteq> m \<longrightarrow> heap_value h' k = heap_value h k)"
proof -
  let ?pl = "\<lparr>sp_message_type = message_type header, sp_payload_length = sz, sp_prefer_cid = prefer_cid header, sp_payload = take (nat sz) bs, shared_count = 0\<rparr>"
  let ?o = "\<lparr>mo_timestamp = timestamp header, mo_stream_id = stream_id header, mo_ptr = Some p\<rparr>"
  let ?h = "h\<lparr>h_payloads := (h_payloads h)(p \<mapsto> ?pl), h_messages := (h_messages h)(m \<mapsto> ?o)\<rparr>"
  have c: "heap_create p header bs sz m h = Inr ?h" using m sz by (simp add: heap_create_def)
  have none: "refs h p = {}" by (rule heap_okD(1) [OF ok p])
  have r: "refs ?h q = (if q = p then {m} else refs h q)" for q using m none by (auto simp: refs_def)
  have "heap_ok ?h"
  proof (rule heap_okI)
    show "finite (dom (h_messages ?h))" using ok by (simp add: heap_ok_def)
    show "refs ?h q = {}" if "h_payloads ?h q = None" for q using that heap_okD(1) [OF ok, of q] r [of q] by (auto split: if_splits)
    show "int (card (refs ?h q)) = shared_count ql + 1 \<and> refs ?h q \<noteq> {}" if "h_payloads ?h q = Some ql" for q ql
      using that heap_okD(2) [OF ok, of q ql] r [of q] by (auto split: if_splits)
  qed
  moreover have "Inr (the (heap_value ?h m)) = SrsSharedPtrMessage_create header bs sz"
    using sz by (simp add: heap_value_def SrsSharedPtrMessage_create_def)
  moreover have "heap_value ?h k = heap_value h k" if "k \<noteq> m" for k
  proof -
    have "k \<notin> refs h p" using none by simp
    then show ?thesis using that by (auto simp: heap_value_def refs_def split: option.splits)
  qed
  ultimately show ?thesis using c by blast
qed

text \<open>The heaps that the program can build: allocations at free addresses, and operations on live messages.\<close>

inductive heap_reachable :: "heap \<Rightarrow> bool" where
  empty: "heap_reachable \<lparr>h_payloads = \<lambda>_. None, h_messages = \<lambda>_. None\<rparr>"
| new: "heap_reachable h \<Longrightarrow> h_messages h m = None \<Longrightarrow> heap_reachable (heap_new m h)"
| create: "heap_reachable h \<Longrightarrow> h_messages h m = Some obj \<Longrightarrow> h_payloads h p = None \<Longrightarrow>
     heap_create p header bs sz m h = Inr h' \<Longrightarrow> heap_reachable h'"
| copy: "heap_reachable h \<Longrightarrow> h_messages h m' = None \<Longrightarrow> heap_copy m m' h = Inr h' \<Longrightarrow> heap_reachable h'"
| destroy: "heap_reachable h \<Longrightarrow> heap_destroy m h = Inr h' \<Longrightarrow> heap_reachable h'"

lemma heap_new_ok:
  assumes "heap_ok h" and "h_messages h m = None"
  shows "heap_ok (heap_new m h)"
  using assms by (intro heap_ok_same [OF assms(1)]) (auto simp: heap_new_def refs_def heap_ok_def)

lemma heap_reachable_ok: "heap_reachable h \<Longrightarrow> heap_ok h"
proof (induction rule: heap_reachable.induct)
  case empty
  then show ?case by (auto intro!: heap_okI simp: refs_def)
next
  case (new h m)
  then show ?case by (intro heap_new_ok)
next
  case (create h m obj p header bs sz h')
  then have "mo_ptr obj = None" "0 \<le> sz" by (auto simp: heap_create_def split: if_splits)
  then obtain h'' where "heap_create p header bs sz m h = Inr h''" "heap_ok h''"
    using heap_create_ok [OF create(5,2) _ create(3), of sz header bs] by blast
  then show ?case using create(4) by simp
next
  case (copy h m' m h')
  then obtain obj p where "h_messages h m = Some obj" "mo_ptr obj = Some p" by (auto simp: heap_copy_def split: option.splits)
  then obtain h'' where "heap_copy m m' h = Inr h''" "heap_ok h''" using heap_copy_ok [OF copy(4) _ _ copy(2)] by blast
  then show ?case using copy(3) by simp
next
  case (destroy h m h')
  then obtain obj where "h_messages h m = Some obj" by (auto simp: heap_destroy_def split: option.splits)
  then obtain h'' where "heap_destroy m h = Inr h''" "heap_ok h''" using heap_destroy_ok [OF destroy(3)] by blast
  then show ?case using destroy(2) by simp
qed

text \<open>C32. Reference counting is right as long as its operations do not overlap: in every heap that the program can
  build, the count of a payload is one less than the messages that share it; copying a live message
  gives an equal message; destroying one changes no other message and frees the payload exactly when
  it was the last. No operation on a live message meets a freed payload.\<close>

theorem shared_ptr_values:
  assumes "heap_reachable h" and "h_messages h m = Some obj"
  shows "(\<forall>p. mo_ptr obj = Some p \<longrightarrow> heap_count m h = int (card (refs h p)) - 1)
     \<and> (mo_ptr obj \<noteq> None \<longrightarrow> h_messages h m' = None \<longrightarrow>
          (\<exists>h'. heap_copy m m' h = Inr h' \<and> heap_value h' m' = heap_value h m \<and> (\<forall>k. k \<noteq> m' \<longrightarrow> heap_value h' k = heap_value h k)))
     \<and> (\<exists>h'. heap_destroy m h = Inr h' \<and> (\<forall>k. k \<noteq> m \<longrightarrow> heap_value h' k = heap_value h k)
          \<and> (\<forall>p. mo_ptr obj = Some p \<longrightarrow> (h_payloads h' p = None \<longleftrightarrow> refs h p = {m})))"
proof (intro conjI allI impI)
  note ok = heap_reachable_ok [OF assms(1)]
  show "heap_count m h = int (card (refs h p)) - 1" if p: "mo_ptr obj = Some p" for p
  proof -
    obtain pl where pl: "h_payloads h p = Some pl" using live_payload [OF ok assms(2) p] by blast
    then show ?thesis using heap_okD(2) [OF ok pl] assms(2) p by (simp add: heap_count_def)
  qed
  show "\<exists>h'. heap_copy m m' h = Inr h' \<and> heap_value h' m' = heap_value h m \<and> (\<forall>k. k \<noteq> m' \<longrightarrow> heap_value h' k = heap_value h k)"
    if "mo_ptr obj \<noteq> None" "h_messages h m' = None"
    using heap_copy_ok [OF ok assms(2) _ that(2)] that(1) by blast
  obtain h' where h': "heap_destroy m h = Inr h'" "heap_ok h'" "h_messages h' m = None"
      "\<forall>k. k \<noteq> m \<longrightarrow> heap_value h' k = heap_value h k"
      "\<forall>p. mo_ptr obj = Some p \<longrightarrow> refs h p = {m} \<longrightarrow> h_payloads h' p = None"
    using heap_destroy_ok [OF ok assms(2)] by blast
  have "refs h p = {m}" if p: "mo_ptr obj = Some p" and n: "h_payloads h' p = None" for p
  proof -
    have "refs h' p = refs h p - {m}" using h'(1) assms(2) p by (auto simp: heap_destroy_def refs_def Let_def split: option.splits if_splits)
    then show ?thesis using heap_okD(1) [OF h'(2) n] assms(2) p by (auto simp: refs_def)
  qed
  then show "\<exists>h'. heap_destroy m h = Inr h' \<and> (\<forall>k. k \<noteq> m \<longrightarrow> heap_value h' k = heap_value h k)
          \<and> (\<forall>p. mo_ptr obj = Some p \<longrightarrow> (h_payloads h' p = None \<longleftrightarrow> refs h p = {m}))"
    using h' by blast
qed

theorem shared_ptr_values_witness:
  "\<exists>h h'. heap_create 0 SrsMessageHeader_new [7] 1 1 (heap_new 1 \<lparr>h_payloads = \<lambda>_. None, h_messages = \<lambda>_. None\<rparr>) = Inr h
     \<and> heap_copy 1 2 h = Inr h' \<and> heap_value h' 2 = heap_value h 1"
proof -
  let ?n = "heap_new 1 \<lparr>h_payloads = \<lambda>_. None, h_messages = \<lambda>_. None\<rparr>"
  have n: "heap_reachable ?n" by (intro heap_reachable.intros) simp
  obtain h where c: "heap_create 0 SrsMessageHeader_new [7] 1 1 ?n = Inr h" by (simp add: heap_create_def heap_new_def)
  have r: "heap_reachable h" by (rule heap_reachable.create [OF n _ _ c]) (simp_all add: heap_new_def)
  obtain obj where o: "h_messages h 1 = Some obj" "mo_ptr obj = Some 0" "h_messages h 2 = None"
    using c by (auto simp: heap_create_def heap_new_def)
  then show ?thesis using shared_ptr_values [OF r o(1), of 2] c by blast
qed

section \<open>Overlapping operations\<close>

text \<open>
  \<^verbatim>\<open>shared_count++\<close> and \<^verbatim>\<open>shared_count--\<close> on a plain \<^verbatim>\<open>int\<close>: each thread loads the count into a register and stores the
  new one. The publisher copies a message to a queue under the locks of the source and the consumer;
  a player destroys its messages after sending them, under no lock.
\<close>

datatype count_instr = Load_count | Store_inc | Store_dec

fun count_step :: "nat \<times> count_instr \<Rightarrow> int \<times> (nat \<Rightarrow> int) \<Rightarrow> int \<times> (nat \<Rightarrow> int)" where
  "count_step (t, Load_count) (c, r) = (c, r(t := c))"
| "count_step (t, Store_inc) (c, r) = (r t + 1, r)"
| "count_step (t, Store_dec) (c, r) = (r t - 1, r)"

definition copy_instrs :: "nat \<Rightarrow> (nat \<times> count_instr) list" where
  "copy_instrs t = [(t, Load_count), (t, Store_inc)]"

definition destroy_instrs :: "nat \<Rightarrow> (nat \<times> count_instr) list" where
  "destroy_instrs t = [(t, Load_count), (t, Store_dec)]"

definition shared_by :: "int \<Rightarrow> nat set \<Rightarrow> heap" where
  "shared_by c ms = \<lparr>h_payloads = [0 \<mapsto> \<lparr>sp_message_type = 9, sp_payload_length = 1, sp_prefer_cid = 6, sp_payload = [0x17], shared_count = c\<rparr>],
     h_messages = (\<lambda>m. if m \<in> ms then Some \<lparr>mo_timestamp = 0, mo_stream_id = 1, mo_ptr = Some 0\<rparr> else None)\<rparr>"

text \<open>Overlapping operations break the count: of two messages that share a payload, let the publisher copy the
  first while a player destroys the second. One interleaving leaves the count at 0 with two messages
  alive; destroying one of them frees the payload of the other, and destroying that one then uses freed
  memory. Without overlap the count is 1 and the other message stays valid.\<close>

theorem shared_count_race:
  "(\<exists>sched \<in> shuffles (copy_instrs 0) (destroy_instrs 1). fst (fold count_step sched (1, \<lambda>_. 0)) = 0)
   \<and> fst (fold count_step (copy_instrs 0 @ destroy_instrs 1) (1, \<lambda>_. 0)) = 1
   \<and> (\<exists>h'. heap_destroy 1 (shared_by 0 {1, 3}) = Inr h' \<and> heap_value (shared_by 0 {1, 3}) 3 \<noteq> None
        \<and> heap_value h' 3 = None \<and> heap_destroy 3 h' = Inl Srs_null_deref)
   \<and> (\<exists>h'. heap_destroy 1 (shared_by 1 {1, 3}) = Inr h' \<and> heap_value h' 3 = heap_value (shared_by 1 {1, 3}) 3)"
proof (intro conjI)
  have "[(0, Load_count), (1, Load_count), (0, Store_inc), (1, Store_dec)] \<in> shuffles (copy_instrs 0) (destroy_instrs 1)"
    by (simp add: copy_instrs_def destroy_instrs_def Cons_in_shuffles_iff)
  moreover have "fst (fold count_step [(0, Load_count), (1, Load_count), (0, Store_inc), (1, Store_dec)] (1, \<lambda>_. 0)) = 0" by simp
  ultimately show "\<exists>sched \<in> shuffles (copy_instrs 0) (destroy_instrs 1). fst (fold count_step sched (1, \<lambda>_. 0)) = 0" by blast
qed (simp_all add: copy_instrs_def destroy_instrs_def heap_destroy_def shared_by_def heap_value_def Let_def)

end
