(* ===== verification/Codec.thy ===== *)
theory Codec
  imports Message Buffer "HOL-Library.Sublist"
begin

text \<open>
  \<^verbatim>\<open>src/src/kernel/srs_kernel_codec.cpp\<close>: the FLV tag predicates that the source uses to tell
  sequence headers and keyframes, and \<^verbatim>\<open>SrsFormat\<close>, which parses the payload of audio and video
  messages: the AudioSpecificConfig, the AVCDecoderConfigurationRecord with its SPS and PPS, the
  picture size in the SPS, and the samples of a frame. A caller of \<^verbatim>\<open>SrsFormat\<close> goes on after an
  error, so its operations return the error, if any, together with the state they leave.
\<close>

section \<open>FLV tags\<close>

abbreviation (input) SrsVideoCodecIdAVC :: byte where "SrsVideoCodecIdAVC \<equiv> 7"
abbreviation (input) SrsVideoAvcFrameTypeForbidden :: byte where "SrsVideoAvcFrameTypeForbidden \<equiv> 0"
abbreviation (input) SrsVideoAvcFrameTypeKeyFrame :: byte where "SrsVideoAvcFrameTypeKeyFrame \<equiv> 1"
abbreviation (input) SrsVideoAvcFrameTraitSequenceHeader :: byte where "SrsVideoAvcFrameTraitSequenceHeader \<equiv> 0"
abbreviation (input) SrsVideoAvcFrameTraitNALU :: byte where "SrsVideoAvcFrameTraitNALU \<equiv> 1"
abbreviation (input) SrsAudioCodecIdAAC :: byte where "SrsAudioCodecIdAAC \<equiv> 10"
abbreviation (input) SrsAudioAacFrameTraitSequenceHeader :: byte where "SrsAudioAacFrameTraitSequenceHeader \<equiv> 0"
abbreviation (input) SrsAvcNaluTypeIDR :: byte where "SrsAvcNaluTypeIDR \<equiv> 5"
abbreviation (input) SrsAvcNaluTypeSPS :: byte where "SrsAvcNaluTypeSPS \<equiv> 7"
abbreviation (input) SrsAacObjectTypeForbidden :: byte where "SrsAacObjectTypeForbidden \<equiv> 0"
abbreviation (input) SrsMaxNbSamples :: nat where "SrsMaxNbSamples \<equiv> 256"

definition SrsFlvVideo_keyframe :: "byte list \<Rightarrow> bool" where
  "SrsFlvVideo_keyframe data \<longleftrightarrow>
     (if length data < 1 then False else drop_bit 4 (data ! 0 AND 0x7f) AND 0x0F = SrsVideoAvcFrameTypeKeyFrame)"

definition SrsFlvVideo_h264 :: "byte list \<Rightarrow> bool" where
  "SrsFlvVideo_h264 data \<longleftrightarrow> (if length data < 1 then False else data ! 0 AND 0x0F = SrsVideoCodecIdAVC)"

definition SrsFlvVideo_sh :: "byte list \<Rightarrow> bool" where
  "SrsFlvVideo_sh data \<longleftrightarrow>
     (if \<not> SrsFlvVideo_h264 data then False else if length data < 2 then False
      else drop_bit 4 (data ! 0) AND 0x0F = SrsVideoAvcFrameTypeKeyFrame
           \<and> data ! 1 = SrsVideoAvcFrameTraitSequenceHeader)"

definition SrsFlvAudio_aac :: "byte list \<Rightarrow> bool" where
  "SrsFlvAudio_aac data \<longleftrightarrow> (if length data < 1 then False else drop_bit 4 (data ! 0) AND 0x0F = SrsAudioCodecIdAAC)"

definition SrsFlvAudio_sh :: "byte list \<Rightarrow> bool" where
  "SrsFlvAudio_sh data \<longleftrightarrow>
     (if \<not> SrsFlvAudio_aac data then False else if length data < 2 then False
      else data ! 1 = SrsAudioAacFrameTraitSequenceHeader)"

definition srs_aac_srates :: "int list" where
  "srs_aac_srates = [96000, 88200, 64000, 48000, 44100, 32000, 24000, 22050, 16000, 12000, 11025, 8000, 7350, 0, 0, 0]"

text \<open>The object types 1 (main), 2 (LC), 3 (SSR), 5 (HE), 29 (HEv2) to the ADTS profiles; 3 is reserved.\<close>

definition srs_aac_rtmp2ts :: "byte \<Rightarrow> byte" where
  "srs_aac_rtmp2ts object_type =
     (if object_type = 1 then 0
      else if object_type = 5 \<or> object_type = 29 \<or> object_type = 2 then 1
      else if object_type = 3 then 2
      else 3)"

section \<open>Codec configuration and frames\<close>

record SrsAudioCodecConfig =
  ac_id :: byte
  aac_extra_data :: "byte list"
  aac_object :: byte
  aac_sample_rate :: byte
  aac_channels :: byte

definition SrsAudioCodecConfig_new :: SrsAudioCodecConfig where
  "SrsAudioCodecConfig_new = \<lparr>ac_id = 0, aac_extra_data = [], aac_object = SrsAacObjectTypeForbidden,
     aac_sample_rate = 0, aac_channels = 0\<rparr>"

definition is_aac_codec_ok :: "SrsAudioCodecConfig \<Rightarrow> bool" where
  "is_aac_codec_ok c \<longleftrightarrow> aac_object c \<noteq> SrsAacObjectTypeForbidden"

record SrsVideoCodecConfig =
  vc_id :: byte
  vc_width :: int
  vc_height :: int
  avc_extra_data :: "byte list"
  NAL_unit_length :: byte
  sequenceParameterSetNALUnit :: "byte list"
  pictureParameterSetNALUnit :: "byte list"

definition SrsVideoCodecConfig_new :: SrsVideoCodecConfig where
  "SrsVideoCodecConfig_new = \<lparr>vc_id = 0, vc_width = 0, vc_height = 0, avc_extra_data = [], NAL_unit_length = 0,
     sequenceParameterSetNALUnit = [], pictureParameterSetNALUnit = []\<rparr>"

definition is_avc_codec_ok :: "SrsVideoCodecConfig \<Rightarrow> bool" where
  "is_avc_codec_ok c \<longleftrightarrow> sequenceParameterSetNALUnit c \<noteq> []"

text \<open>The samples of a frame; \<^verbatim>\<open>nb_samples\<close> is their number, at most 256.\<close>

definition add_sample :: "byte list \<Rightarrow> byte list list \<Rightarrow> byte list list result" where
  "add_sample bytes samples =
     (if length samples \<ge> SrsMaxNbSamples then Inl (Srs_error ERROR_HLS_DECODE_ERROR) else Inr (samples @ [bytes]))"

record SrsAudioFrame =
  af_dts :: int
  af_cts :: int
  af_samples :: "byte list list"
  aac_packet_type :: byte

definition SrsAudioFrame_new :: SrsAudioFrame where
  "SrsAudioFrame_new = \<lparr>af_dts = 0, af_cts = 0, af_samples = [], aac_packet_type = SrsAudioAacFrameTraitSequenceHeader\<rparr>"

record SrsVideoFrame =
  vf_dts :: int
  vf_cts :: int
  vf_samples :: "byte list list"
  frame_type :: byte
  avc_packet_type :: byte
  has_idr :: bool

definition SrsVideoFrame_new :: SrsVideoFrame where
  "SrsVideoFrame_new = \<lparr>vf_dts = 0, vf_cts = 0, vf_samples = [], frame_type = SrsVideoAvcFrameTypeForbidden,
     avc_packet_type = SrsVideoAvcFrameTraitSequenceHeader, has_idr = False\<rparr>"

text \<open>\<open>fmt_raw\<close> is the view \<^verbatim>\<open>raw\<close>, \<^verbatim>\<open>nb_raw\<close> of the payload behind the tag header.\<close>

record SrsFormat =
  fmt_audio :: "SrsAudioFrame option"
  fmt_video :: "SrsVideoFrame option"
  fmt_acodec :: "SrsAudioCodecConfig option"
  fmt_vcodec :: "SrsVideoCodecConfig option"
  fmt_raw :: "byte list"

definition SrsFormat_new :: SrsFormat where
  "SrsFormat_new = \<lparr>fmt_audio = None, fmt_video = None, fmt_acodec = None, fmt_vcodec = None, fmt_raw = []\<rparr>"

type_synonym 'f outcome = "failure option \<times> 'f"

text \<open>An operation with state \<open>f\<close> gives its error, if any, and the new state; \<open>andthen\<close> goes on when there is none.\<close>

definition andthen :: "('c \<Rightarrow> 'c outcome) \<Rightarrow> ('c \<Rightarrow> 'c outcome) \<Rightarrow> 'c \<Rightarrow> 'c outcome" where
  "andthen m f c = (case m c of (Some e, c') \<Rightarrow> (Some e, c') | (None, c') \<Rightarrow> f c')"

text \<open>A read of the local buffer inside an operation on \<open>f\<close>.\<close>

definition rd :: "('a \<times> SrsBuffer) result \<Rightarrow> 'f \<Rightarrow> ('a \<Rightarrow> SrsBuffer \<Rightarrow> 'f outcome) \<Rightarrow> 'f outcome" where
  "rd r f k = (case r of Inl e \<Rightarrow> (Some e, f) | Inr (x, b) \<Rightarrow> k x b)"

section \<open>Audio\<close>

definition audio_aac_sequence_header_demux :: "byte list \<Rightarrow> SrsAudioCodecConfig \<Rightarrow> SrsAudioCodecConfig outcome" where
  "audio_aac_sequence_header_demux data acodec =
     (if length data < 2 then (Some (Srs_error ERROR_HLS_DECODE_ERROR), acodec)
      else let b0 = data ! 0; b1 = data ! 1;
               samplingFrequencyIndex = (push_bit 1 b0 AND 0x0e) OR (drop_bit 7 b1 AND 0x01);
               profile_ObjectType = drop_bit 3 b0 AND 0x1f;
               acodec' = acodec\<lparr>aac_channels := drop_bit 3 b1 AND 0x0f, aac_sample_rate := samplingFrequencyIndex,
                                aac_object := profile_ObjectType\<rparr>
           in if aac_object acodec' = SrsAacObjectTypeForbidden then (Some (Srs_error ERROR_HLS_DECODE_ERROR), acodec')
              else if aac_sample_rate acodec' > 12 then (Some (Srs_error ERROR_HLS_DECODE_ERROR), acodec')
              else (None, acodec'))"

definition audio_aac_demux :: "int \<Rightarrow> SrsAudioCodecConfig \<Rightarrow> SrsAudioFrame \<Rightarrow> SrsBuffer \<Rightarrow> SrsFormat \<Rightarrow> SrsFormat outcome" where
  "audio_aac_demux ts acodec audio buffer f =
     (let audio1 = audio\<lparr>af_samples := [], af_dts := ts, af_cts := 0\<rparr>;
          f1 = f\<lparr>fmt_audio := Some audio1\<rparr>
      in rd (read_1bytes buffer) f1 (\<lambda>b buffer1.
           let sound_format = drop_bit 4 b AND 0x0f;
               acodec1 = acodec\<lparr>ac_id := sound_format\<rparr>;
               f2 = f1\<lparr>fmt_acodec := Some acodec1\<rparr>
           in if sound_format \<noteq> SrsAudioCodecIdAAC then (None, f2)
              else if SrsBuffer_empty buffer1 then (None, f2)
              else rd (read_1bytes buffer1) f2 (\<lambda>ptype buffer2.
                     let audio2 = audio1\<lparr>aac_packet_type := ptype\<rparr>;
                         f3 = f2\<lparr>fmt_audio := Some audio2, fmt_raw := buf_rest buffer2\<rparr>
                     in if ptype = SrsAudioAacFrameTraitSequenceHeader
                        then let (err, acodec2) = audio_aac_sequence_header_demux (buf_rest buffer2)
                                   (acodec1\<lparr>aac_extra_data := buf_rest buffer2\<rparr>)
                             in (err, f3\<lparr>fmt_acodec := Some acodec2\<rparr>)
                        else if \<not> is_aac_codec_ok acodec1 then (None, f3)
                        else case add_sample (buf_rest buffer2) (af_samples audio2) of
                               Inl e \<Rightarrow> (Some e, f3)
                             | Inr samples \<Rightarrow> (None, f3\<lparr>fmt_audio := Some (audio2\<lparr>af_samples := samples\<rparr>)\<rparr>))))"

definition SrsFormat_on_audio :: "int \<Rightarrow> byte list \<Rightarrow> SrsFormat \<Rightarrow> SrsFormat outcome" where
  "SrsFormat_on_audio ts data f =
     (if data = [] then (None, f)
      else let acodec = (case fmt_acodec f of None \<Rightarrow> SrsAudioCodecConfig_new | Some c \<Rightarrow> c);
               audio = (case fmt_audio f of None \<Rightarrow> SrsAudioFrame_new | Some a \<Rightarrow> a)
           in audio_aac_demux ts acodec audio (SrsBuffer_new data)
                (f\<lparr>fmt_acodec := Some acodec, fmt_audio := Some audio\<rparr>))"

section \<open>The sequence parameter set\<close>

text \<open>
  Dropping the emulation prevention bytes: \<open>rbsp\<close> is what was written so far. The array of the code
  has the size of the input; \<open>rbsp_length\<close> shows that it is never exceeded.
\<close>

function srs_rbsp_remove_emulation_bytes :: "byte list \<Rightarrow> byte list \<Rightarrow> byte list" where
  "srs_rbsp_remove_emulation_bytes rbsp [] = rbsp"
| "srs_rbsp_remove_emulation_bytes rbsp (c # cs) =
     (if length rbsp \<ge> 2 \<and> rbsp ! (length rbsp - 2) = 0 \<and> rbsp ! (length rbsp - 1) = 0 \<and> c = 3
      then case cs of
             [] \<Rightarrow> rbsp @ [c]
           | ev # cs' \<Rightarrow> srs_rbsp_remove_emulation_bytes (if ev > 3 then rbsp @ [c, ev] else rbsp @ [ev]) cs'
      else srs_rbsp_remove_emulation_bytes (rbsp @ [c]) cs)"
  by pat_completeness auto
termination
  by (relation "measure (\<lambda>(_, cs). length cs)") auto

text \<open>The bits a bit buffer has left; every read takes one.\<close>

definition bits_left :: "SrsBitBuffer \<Rightarrow> nat" where
  "bits_left bb = bb_cb_left bb + 8 * length (buf_rest (bb_stream bb))"

lemma read_bit_left: "read_bit bb = Inr (b, bb') \<Longrightarrow> bits_left bb' + 1 = bits_left bb"
  by (auto simp: read_bit_def bits_left_def read_1bytes_eq Let_def split: if_splits) (cases "buf_rest (bb_stream bb)", auto)

function uev_zeros :: "int \<Rightarrow> bool \<Rightarrow> SrsBitBuffer \<Rightarrow> (int \<times> SrsBitBuffer) result" where
  "uev_zeros leadingZeroBits b bb =
     (if \<not> b \<and> \<not> SrsBitBuffer_empty bb
      then case read_bit bb of Inl e \<Rightarrow> Inl e | Inr (b', bb') \<Rightarrow> uev_zeros (leadingZeroBits + 1) b' bb'
      else Inr (leadingZeroBits, bb))"
  by pat_completeness auto
termination
  by (relation "measure (\<lambda>(_, _, bb). bits_left bb)") (auto dest: read_bit_left)

declare uev_zeros.simps [simp del]

fun uev_value :: "nat \<Rightarrow> int \<Rightarrow> SrsBitBuffer \<Rightarrow> (int \<times> SrsBitBuffer) result" where
  "uev_value 0 v = ret v"
| "uev_value (Suc n) v = (\<lambda>bb.
     if SrsBitBuffer_empty bb then Inl (Srs_error ERROR_AVC_NALU_UEV)
     else bnd read_bit (\<lambda>b. uev_value n (v + (if b then 2 ^ n else 0))) bb)"

definition srs_avc_nalu_read_uev :: "SrsBitBuffer \<Rightarrow> (int \<times> SrsBitBuffer) result" where
  "srs_avc_nalu_read_uev bb =
     (if SrsBitBuffer_empty bb then Inl (Srs_error ERROR_AVC_NALU_UEV)
      else bnd (uev_zeros (- 1) False) (\<lambda>leadingZeroBits.
             if leadingZeroBits \<ge> 31 then fail (Srs_error ERROR_AVC_NALU_UEV)
             else uev_value (nat leadingZeroBits) (2 ^ nat leadingZeroBits - 1)) bb)"

definition srs_avc_nalu_read_bit :: "SrsBitBuffer \<Rightarrow> (bool \<times> SrsBitBuffer) result" where
  "srs_avc_nalu_read_bit bb = (if SrsBitBuffer_empty bb then Inl (Srs_error ERROR_AVC_NALU_UEV) else read_bit bb)"

fun sps_scaling_flags :: "nat \<Rightarrow> SrsBitBuffer \<Rightarrow> (unit \<times> SrsBitBuffer) result" where
  "sps_scaling_flags 0 = ret ()"
| "sps_scaling_flags (Suc n) = bnd srs_avc_nalu_read_bit (\<lambda>flag.
     if flag then fail (Srs_error ERROR_HLS_DECODE_ERROR) else sps_scaling_flags n)"

text \<open>The loop over the reference frames, which ends at the latest with the bits.\<close>

fun sps_skip_uevs :: "nat \<Rightarrow> SrsBitBuffer \<Rightarrow> (unit \<times> SrsBitBuffer) result" where
  "sps_skip_uevs 0 = ret ()"
| "sps_skip_uevs (Suc n) = bnd srs_avc_nalu_read_uev (\<lambda>_. sps_skip_uevs n)"

definition sps_chroma_profiles :: "byte list" where
  "sps_chroma_profiles = [100, 110, 122, 244, 44, 83, 86, 118, 128]"

definition sps_chroma :: "byte \<Rightarrow> SrsBitBuffer \<Rightarrow> (unit \<times> SrsBitBuffer) result" where
  "sps_chroma profile_idc =
     (if profile_idc \<in> set sps_chroma_profiles
      then bnd srs_avc_nalu_read_uev (\<lambda>chroma_format_idc.
           bnd (if chroma_format_idc = 3 then bnd srs_avc_nalu_read_bit (\<lambda>_. ret ()) else ret ()) (\<lambda>_.
           bnd srs_avc_nalu_read_uev (\<lambda>_.
           bnd srs_avc_nalu_read_uev (\<lambda>_.
           bnd srs_avc_nalu_read_bit (\<lambda>_.
           bnd srs_avc_nalu_read_bit (\<lambda>seq_scaling_matrix_present_flag.
             if seq_scaling_matrix_present_flag
             then sps_scaling_flags (if chroma_format_idc \<noteq> 3 then 8 else 12) else ret ()))))))
      else ret ())"

definition sps_pic_order :: "SrsBitBuffer \<Rightarrow> (unit \<times> SrsBitBuffer) result" where
  "sps_pic_order =
     bnd srs_avc_nalu_read_uev (\<lambda>pic_order_cnt_type.
       if pic_order_cnt_type = 0 then bnd srs_avc_nalu_read_uev (\<lambda>_. ret ())
       else if pic_order_cnt_type = 1
       then bnd srs_avc_nalu_read_bit (\<lambda>_.
            bnd srs_avc_nalu_read_uev (\<lambda>_.
            bnd srs_avc_nalu_read_uev (\<lambda>_.
            bnd srs_avc_nalu_read_uev (\<lambda>num_ref_frames_in_pic_order_cnt_cycle.
              if num_ref_frames_in_pic_order_cnt_cycle < 0 then fail (Srs_error ERROR_HLS_DECODE_ERROR)
              else sps_skip_uevs (nat num_ref_frames_in_pic_order_cnt_cycle)))))
       else ret ())"

definition sps_cropping :: "SrsBitBuffer \<Rightarrow> ((int \<times> int \<times> int \<times> int) \<times> SrsBitBuffer) result" where
  "sps_cropping =
     bnd srs_avc_nalu_read_bit (\<lambda>frame_cropping_flag.
       if frame_cropping_flag
       then bnd srs_avc_nalu_read_uev (\<lambda>l.
            bnd srs_avc_nalu_read_uev (\<lambda>r.
            bnd srs_avc_nalu_read_uev (\<lambda>t.
            bnd srs_avc_nalu_read_uev (\<lambda>b. ret (l, r, t, b)))))
       else ret (0, 0, 0, 0))"

text \<open>
  The \<^verbatim>\<open>int\<close> arithmetic of the picture size, with the wrap-around of the 32-bit result (the
  overflow is undefined in C++ and wraps on the supported compilers).
\<close>

definition to_int32 :: "int \<Rightarrow> int" where
  "to_int32 i = sint (word_of_int i :: 32 word)"

definition sps_picture_size :: "SrsBitBuffer \<Rightarrow> ((int \<times> int) \<times> SrsBitBuffer) result" where
  "sps_picture_size =
     bnd srs_avc_nalu_read_uev (\<lambda>_.
     bnd srs_avc_nalu_read_bit (\<lambda>_.
     bnd srs_avc_nalu_read_uev (\<lambda>pic_width_in_mbs_minus1.
     bnd srs_avc_nalu_read_uev (\<lambda>pic_height_in_map_units_minus1.
     bnd srs_avc_nalu_read_bit (\<lambda>frame_mbs_only_flag.
     bnd (if \<not> frame_mbs_only_flag then bnd srs_avc_nalu_read_bit (\<lambda>_. ret ()) else ret ()) (\<lambda>_.
     bnd srs_avc_nalu_read_bit (\<lambda>_.
     bnd sps_cropping (\<lambda>(l, r, t, b).
       ret (to_int32 ((pic_width_in_mbs_minus1 + 1) * 16 - l * 2 - r * 2),
            to_int32 ((2 - (if frame_mbs_only_flag then 1 else 0)) * (pic_height_in_map_units_minus1 + 1) * 16
                      - t * 2 - b * 2))))))))))"

definition avc_demux_sps_rbsp :: "byte list \<Rightarrow> (int \<times> int) result" where
  "avc_demux_sps_rbsp rbsp =
     (let e = Srs_error ERROR_HLS_DECODE_ERROR in
      case bnd (guard_require 3 ERROR_HLS_DECODE_ERROR) (\<lambda>_.
           bnd read_1bytes (\<lambda>profile_idc. if profile_idc = 0 then fail e else
           bnd read_1bytes (\<lambda>flags. if flags AND 0x03 \<noteq> 0 then fail e else
           bnd read_1bytes (\<lambda>level_idc. if level_idc = 0 then fail e else ret profile_idc)))) (SrsBuffer_new rbsp) of
        Inl e \<Rightarrow> Inl e
      | Inr (profile_idc, stream) \<Rightarrow>
          (case bnd srs_avc_nalu_read_uev (\<lambda>seq_parameter_set_id. if seq_parameter_set_id < 0 then fail e else
                bnd (sps_chroma profile_idc) (\<lambda>_.
                bnd srs_avc_nalu_read_uev (\<lambda>_.
                bnd sps_pic_order (\<lambda>_. sps_picture_size)))) (SrsBitBuffer_new stream) of
             Inl e \<Rightarrow> Inl e
           | Inr (sz, _) \<Rightarrow> Inr sz))"

definition avc_demux_sps :: "SrsVideoCodecConfig \<Rightarrow> SrsVideoCodecConfig outcome" where
  "avc_demux_sps vcodec =
     (let sps = sequenceParameterSetNALUnit vcodec; e = Srs_error ERROR_HLS_DECODE_ERROR in
      if sps = [] then (None, vcodec)
      else rd (bnd (guard_require 1 ERROR_HLS_DECODE_ERROR) (\<lambda>_. read_1bytes) (SrsBuffer_new sps)) vcodec (\<lambda>nutv stream.
        if drop_bit 7 nutv AND 0x01 \<noteq> 0 then (Some e, vcodec)
        else if drop_bit 5 nutv AND 0x03 = 0 then (Some e, vcodec)
        else if nutv AND 0x1f \<noteq> SrsAvcNaluTypeSPS then (Some e, vcodec)
        else case avc_demux_sps_rbsp (srs_rbsp_remove_emulation_bytes [] (buf_rest stream)) of
               Inl e \<Rightarrow> (Some e, vcodec)
             | Inr (w, h) \<Rightarrow> (None, vcodec\<lparr>vc_width := w, vc_height := h\<rparr>)))"

section \<open>Video\<close>

text \<open>
  The loop over the parameter sets of the record: only the first one that is not empty is kept, and
  only when there is none from before. \<open>c\<close> is the one that is kept so far.
\<close>

fun demux_parameter_sets :: "nat \<Rightarrow> byte list \<Rightarrow> SrsBuffer \<Rightarrow> failure option \<times> byte list \<times> SrsBuffer" where
  "demux_parameter_sets 0 c stream = (None, c, stream)"
| "demux_parameter_sets (Suc n) c stream =
     (if \<not> SrsBuffer_require 2 stream then (Some (Srs_error ERROR_HLS_DECODE_ERROR), c, stream)
      else case read_2bytes stream of
             Inl e \<Rightarrow> (Some e, c, stream)
           | Inr (l, stream1) \<Rightarrow>
               let len = uint l in
               if \<not> SrsBuffer_require len stream1 then (Some (Srs_error ERROR_HLS_DECODE_ERROR), c, stream1)
               else let c' = (if len > 0 \<and> c = [] then take (nat len) (buf_rest stream1) else c)
                    in case SrsBuffer_skip len stream1 of
                         Inl e \<Rightarrow> (Some e, c', stream1)
                       | Inr (_, stream2) \<Rightarrow> demux_parameter_sets n c' stream2)"

definition avc_demux_sps_pps :: "SrsBuffer \<Rightarrow> SrsVideoCodecConfig \<Rightarrow> SrsVideoCodecConfig outcome" where
  "avc_demux_sps_pps stream vcodec =
     (let e = Srs_error ERROR_HLS_DECODE_ERROR in
      if \<not> SrsBuffer_require 6 stream then (Some e, vcodec)
      else let v1 = vcodec\<lparr>avc_extra_data := buf_rest stream\<rparr>
      in rd (SrsBuffer_skip 4 stream) v1 (\<lambda>_ s1.
         rd (read_1bytes s1) v1 (\<lambda>b s2.
           let v2 = v1\<lparr>NAL_unit_length := b AND 0x03\<rparr>
           in if NAL_unit_length v2 = 2 then (Some e, v2)
              else rd (read_1bytes s2) v2 (\<lambda>n s3.
                let (err, sps, s4) = demux_parameter_sets (unat (n AND 0x1f)) (sequenceParameterSetNALUnit v2) s3;
                    v3 = v2\<lparr>sequenceParameterSetNALUnit := sps\<rparr>
                in if err \<noteq> None then (err, v3)
                   else if \<not> SrsBuffer_require 1 s4 then (Some e, v3)
                   else rd (read_1bytes s4) v3 (\<lambda>m s5.
                     let (err, pps, s6) = demux_parameter_sets (unat (m AND 0x1f)) (pictureParameterSetNALUnit v3) s5;
                         v4 = v3\<lparr>pictureParameterSetNALUnit := pps\<rparr>
                     in if err \<noteq> None then (err, v4)
                        else if \<not> is_avc_codec_ok v4 then (Some e, v4)
                        else (case avc_demux_sps v4 of
                                (Some (Srs_error _), v5) \<Rightarrow> (None, v5)
                              | r \<Rightarrow> r))))))"

text \<open>The length prefix of a NALU, of \<^verbatim>\<open>NAL_unit_length + 1\<close> bytes.\<close>

definition read_nalu_length :: "byte \<Rightarrow> SrsBuffer \<Rightarrow> (int \<times> SrsBuffer) result" where
  "read_nalu_length nul =
     (if nul = 3 then bnd read_4bytes (\<lambda>w. ret (sint w))
      else if nul = 1 then bnd read_2bytes (\<lambda>w. ret (uint w))
      else bnd read_1bytes (\<lambda>w. ret (uint w)))"

lemma read_nalu_length_rest:
  "read_nalu_length nul b = Inr (n, b') \<Longrightarrow> length (buf_rest b') < length (buf_rest b)"
  by (auto simp: read_nalu_length_def bnd_def ret_def read_1bytes_eq read_2bytes_eq read_4bytes_eq require_iff
      split: if_splits list.splits)

lemma skip_rest: "SrsBuffer_skip n b = Inr (u, b') \<Longrightarrow> 0 \<le> n \<Longrightarrow> length (buf_rest b') \<le> length (buf_rest b)"
  by (auto simp: SrsBuffer_skip_def buf_rest_def bnd_def srs_assert_def ret_def split: if_splits)

function avc_demux_ibmf_format :: "byte \<Rightarrow> SrsBuffer \<Rightarrow> SrsVideoFrame \<Rightarrow> SrsVideoFrame outcome" where
  "avc_demux_ibmf_format nul stream video =
     (if SrsBuffer_empty stream then (None, video)
      else if \<not> SrsBuffer_require (uint nul + 1) stream then (Some (Srs_error ERROR_HLS_AVC_SAMPLE_SIZE), video)
      else case read_nalu_length nul stream of
             Inl e \<Rightarrow> (Some e, video)
           | Inr (len, s1) \<Rightarrow>
               if len < 0 \<or> \<not> SrsBuffer_require len s1 then (Some (Srs_error ERROR_HLS_AVC_SAMPLE_SIZE), video)
               else if len = 0 then avc_demux_ibmf_format nul s1 video
               else let nalu = take (nat len) (buf_rest s1);
                        v1 = (if nalu ! 0 AND 0x1f = SrsAvcNaluTypeIDR then video\<lparr>has_idr := True\<rparr> else video)
                    in case add_sample nalu (vf_samples v1) of
                         Inl e \<Rightarrow> (Some e, v1)
                       | Inr samples \<Rightarrow>
                           (case SrsBuffer_skip len s1 of
                              Inl e \<Rightarrow> (Some e, v1\<lparr>vf_samples := samples\<rparr>)
                            | Inr (_, s2) \<Rightarrow> avc_demux_ibmf_format nul s2 (v1\<lparr>vf_samples := samples\<rparr>)))"
  by pat_completeness auto
termination
  by (relation "measure (\<lambda>(_, stream, _). length (buf_rest stream))") (auto dest!: read_nalu_length_rest skip_rest)

declare avc_demux_ibmf_format.simps [simp del]

definition video_avc_demux :: "int \<Rightarrow> SrsVideoCodecConfig \<Rightarrow> SrsVideoFrame \<Rightarrow> SrsBuffer \<Rightarrow> SrsFormat \<Rightarrow> SrsFormat outcome" where
  "video_avc_demux ts vcodec video buffer f =
     (let v1 = video\<lparr>vf_samples := [], has_idr := False, vf_dts := ts, vf_cts := 0\<rparr>;
          f1 = f\<lparr>fmt_video := Some v1\<rparr>
      in rd (read_1bytes buffer) f1 (\<lambda>b b1.
           let codec_id = b AND 0x0f;
               v2 = v1\<lparr>frame_type := drop_bit 4 b AND 0x0f\<rparr>;
               c1 = vcodec\<lparr>vc_id := codec_id\<rparr>;
               f2 = f1\<lparr>fmt_video := Some v2, fmt_vcodec := Some c1\<rparr>
           in if codec_id \<noteq> SrsVideoCodecIdAVC then (None, f2)
              else if \<not> SrsBuffer_require 4 b1 then (Some (Srs_error ERROR_HLS_DECODE_ERROR), f2)
              else rd (read_1bytes b1) f2 (\<lambda>ptype b2.
                   rd (read_3bytes b2) f2 (\<lambda>ct b3.
                     let composition_time = (if ct AND 0x00800000 \<noteq> 0 then ct OR 0xff000000 else ct);
                         v3 = v2\<lparr>avc_packet_type := ptype, vf_cts := sint composition_time\<rparr>;
                         f3 = f2\<lparr>fmt_video := Some v3, fmt_raw := buf_rest b3\<rparr>
                     in if ptype = SrsVideoAvcFrameTraitSequenceHeader
                        then let (err, c2) = avc_demux_sps_pps b3 c1 in (err, f3\<lparr>fmt_vcodec := Some c2\<rparr>)
                        else if ptype = SrsVideoAvcFrameTraitNALU
                        then if \<not> is_avc_codec_ok c1 then (None, f3)
                             else let (err, v4) = avc_demux_ibmf_format (NAL_unit_length c1) b3 v3
                                  in (err, f3\<lparr>fmt_video := Some v4\<rparr>)
                        else (None, f3)))))"

definition SrsFormat_on_video :: "int \<Rightarrow> byte list \<Rightarrow> SrsFormat \<Rightarrow> SrsFormat outcome" where
  "SrsFormat_on_video ts data f =
     (if data = [] then (None, f)
      else let vcodec = (case fmt_vcodec f of None \<Rightarrow> SrsVideoCodecConfig_new | Some c \<Rightarrow> c);
               video = (case fmt_video f of None \<Rightarrow> SrsVideoFrame_new | Some v \<Rightarrow> v)
           in video_avc_demux ts vcodec video (SrsBuffer_new data)
                (f\<lparr>fmt_vcodec := Some vcodec, fmt_video := Some video\<rparr>))"

section \<open>Reading bits\<close>

text \<open>
  \<open>breads m v xs\<close>: with the bits \<open>xs\<close> ahead, \<open>m\<close> returns \<open>v\<close> and consumes just them. \<open>bsafe m\<close>: on any
  bits, \<open>m\<close> returns a value or an error code.
\<close>

definition breads :: "(SrsBitBuffer \<Rightarrow> ('a \<times> SrsBitBuffer) result) \<Rightarrow> 'a \<Rightarrow> bool list \<Rightarrow> bool" where
  "breads m v xs \<longleftrightarrow> (\<forall>bb ys. bb_cb_left bb \<le> 8 \<longrightarrow> bb_rest bb = xs @ ys \<longrightarrow>
     (\<exists>bb'. m bb = Inr (v, bb') \<and> bb_rest bb' = ys \<and> bb_cb_left bb' \<le> 8))"

definition bsafe :: "(SrsBitBuffer \<Rightarrow> ('a \<times> SrsBitBuffer) result) \<Rightarrow> bool" where
  "bsafe m \<longleftrightarrow> (\<forall>bb. bb_cb_left bb \<le> 8 \<longrightarrow>
     (case m bb of Inl e \<Rightarrow> (\<exists>c. e = Srs_error c) | Inr (_, bb') \<Rightarrow> bb_cb_left bb' \<le> 8))"

lemma length_byte_bits [simp]: "length (byte_bits b) = 8"
  by (simp add: byte_bits_def)

lemma bits_empty_iff:
  assumes "bb_cb_left bb \<le> 8"
  shows "SrsBitBuffer_empty bb \<longleftrightarrow> bb_rest bb = []"
proof -
  have "drop (8 - n) (byte_bits b) = [] \<longleftrightarrow> n = 0" if "n \<le> 8" for n b using that by auto
  moreover have "concat (map byte_bits bs) = [] \<longleftrightarrow> bs = []" for bs
    by (cases bs) (simp_all add: byte_bits_def)
  ultimately show ?thesis using assms by (simp add: SrsBitBuffer_empty_def bb_rest_def)
qed

lemma breadsD:
  "breads m v xs \<Longrightarrow> bb_cb_left bb \<le> 8 \<Longrightarrow> bb_rest bb = xs @ ys \<Longrightarrow>
     \<exists>bb'. m bb = Inr (v, bb') \<and> bb_rest bb' = ys \<and> bb_cb_left bb' \<le> 8"
  unfolding breads_def by blast

lemma breads_bnd:
  assumes "breads m v xs" and "breads (f v) w ys"
  shows "breads (bnd m f) w (xs @ ys)"
  unfolding breads_def
proof (intro allI impI)
  fix bb zs assume bb: "bb_cb_left bb \<le> 8" "bb_rest bb = (xs @ ys) @ zs"
  obtain bb1 where b1: "m bb = Inr (v, bb1)" "bb_rest bb1 = ys @ zs" "bb_cb_left bb1 \<le> 8"
    using breadsD [OF assms(1) bb(1), of "ys @ zs"] bb(2) by auto
  show "\<exists>bb'. bnd m f bb = Inr (w, bb') \<and> bb_rest bb' = zs \<and> bb_cb_left bb' \<le> 8"
    using breadsD [OF assms(2) b1(3,2)] b1(1) by (simp add: bnd_def)
qed

lemma breads_ret: "breads (ret v) v []"
  by (simp add: breads_def ret_def)

lemma breads_bit: "breads read_bit x [x]"
  unfolding breads_def
proof (intro allI impI)
  fix bb ys assume bb: "bb_cb_left bb \<le> 8" "bb_rest bb = [x] @ ys"
  then show "\<exists>bb'. read_bit bb = Inr (x, bb') \<and> bb_rest bb' = ys \<and> bb_cb_left bb' \<le> 8"
    using read_bit_step [OF bb(1)] by simp
qed

lemma breads_nalu_bit: "breads srs_avc_nalu_read_bit x [x]"
  unfolding breads_def
proof (intro allI impI)
  fix bb ys assume bb: "bb_cb_left bb \<le> 8" "bb_rest bb = [x] @ ys"
  show "\<exists>bb'. srs_avc_nalu_read_bit bb = Inr (x, bb') \<and> bb_rest bb' = ys \<and> bb_cb_left bb' \<le> 8"
    using breadsD [OF breads_bit bb] bb by (simp add: srs_avc_nalu_read_bit_def bits_empty_iff)
qed

lemma bsafeD:
  assumes "bsafe m" and "bb_cb_left bb \<le> 8"
  obtains (error) c where "m bb = Inl (Srs_error c)" | (read) v bb' where "m bb = Inr (v, bb')" "bb_cb_left bb' \<le> 8"
proof -
  have "case m bb of Inl e \<Rightarrow> (\<exists>c. e = Srs_error c) | Inr (_, bb') \<Rightarrow> bb_cb_left bb' \<le> 8"
    using assms by (simp add: bsafe_def)
  then show ?thesis using that by (cases "m bb") auto
qed

lemma bsafe_bnd:
  assumes "bsafe m" and "\<And>v. bsafe (f v)"
  shows "bsafe (bnd m f)"
  unfolding bsafe_def
proof (intro allI impI)
  fix bb :: SrsBitBuffer assume bb: "bb_cb_left bb \<le> 8"
  from assms(1) bb show "case bnd m f bb of Inl e \<Rightarrow> (\<exists>c. e = Srs_error c) | Inr (_, bb') \<Rightarrow> bb_cb_left bb' \<le> 8"
  proof (cases rule: bsafeD)
    case (error c)
    then show ?thesis by (simp add: bnd_def)
  next
    case (read v bb')
    from assms(2) [of v] read(2) show ?thesis using read(1) by (cases rule: bsafeD) (auto simp: bnd_def)
  qed
qed

lemma bsafe_ret: "bsafe (ret v)"
  by (simp add: bsafe_def ret_def)

lemma bsafe_fail: "bsafe (fail (Srs_error c))"
  by (simp add: bsafe_def fail_def)

lemma bsafe_if: "bsafe m \<Longrightarrow> bsafe n \<Longrightarrow> bsafe (if c then m else n)"
  by simp

lemma read_bit_ok:
  assumes "bb_cb_left bb \<le> 8" and "\<not> SrsBitBuffer_empty bb"
  obtains b bb' where "read_bit bb = Inr (b, bb')" "bb_cb_left bb' \<le> 8" "bb_rest bb = b # bb_rest bb'"
  using read_bit_step [OF assms(1)] assms(2) bits_empty_iff [OF assms(1)] by (auto split: list.splits)

lemma bsafe_nalu_bit: "bsafe srs_avc_nalu_read_bit"
  unfolding bsafe_def
proof (intro allI impI)
  fix bb :: SrsBitBuffer assume bb: "bb_cb_left bb \<le> 8"
  show "case srs_avc_nalu_read_bit bb of Inl e \<Rightarrow> (\<exists>c. e = Srs_error c) | Inr (_, bb') \<Rightarrow> bb_cb_left bb' \<le> 8"
    by (cases "SrsBitBuffer_empty bb") (auto simp: srs_avc_nalu_read_bit_def elim: read_bit_ok [OF bb])
qed

section \<open>Exp-Golomb codes\<close>

text \<open>The code of \<open>v\<close>: as many zeros as \<open>v + 1\<close> has digits behind its leading one, then \<open>v + 1\<close> in binary.\<close>

fun bin :: "nat \<Rightarrow> nat \<Rightarrow> bool list" where
  "bin 0 v = []"
| "bin (Suc n) v = (if 2 ^ n \<le> v then True # bin n (v - 2 ^ n) else False # bin n v)"

definition uev_code :: "nat \<Rightarrow> bool list" where
  "uev_code v = (let n = log2 (v + 1) in replicate n False @ True # bin n (v + 1 - 2 ^ n))"

lemma breads_nonempty: "breads (bnd read_bit f) v (x # xs) \<Longrightarrow>
    breads (\<lambda>bb. if SrsBitBuffer_empty bb then e bb else bnd read_bit f bb) v (x # xs)"
  unfolding breads_def by (simp add: bits_empty_iff)

lemma breads_value: "v < 2 ^ n \<Longrightarrow> breads (uev_value n u) (u + int v) (bin n v)"
proof (induction n arbitrary: u v)
  case 0
  then show ?case by (simp add: breads_ret)
next
  case (Suc n)
  let ?b = "2 ^ n \<le> v" and ?v = "if 2 ^ n \<le> v then v - 2 ^ n else v"
  have "breads (uev_value n (u + (if ?b then 2 ^ n else 0))) (u + (if ?b then 2 ^ n else 0) + int ?v) (bin n ?v)"
    using Suc.prems by (intro Suc.IH) auto
  moreover have "u + (if ?b then 2 ^ n else 0) + int ?v = u + int v" by (auto simp: of_nat_diff)
  ultimately have r: "breads (uev_value n (u + (if ?b then 2 ^ n else 0))) (u + int v) (bin n ?v)" by simp
  have "breads (bnd read_bit (\<lambda>b. uev_value n (u + (if b then 2 ^ n else 0)))) (u + int v) ([?b] @ bin n ?v)"
    using r by (intro breads_bnd [where v = ?b] breads_bit)
  from breads_nonempty [of "\<lambda>b. uev_value n (u + (if b then 2 ^ n else 0))" "u + int v" ?b "bin n ?v"] this show ?case
    by (cases ?b) auto
qed

lemma breads_zeros: "breads (uev_zeros k False) (k + 1 + int n) (replicate n False @ [True])"
  unfolding breads_def
proof (intro allI impI)
  fix bb ys assume bb: "bb_cb_left bb \<le> 8" "bb_rest bb = (replicate n False @ [True]) @ ys"
  then show "\<exists>bb'. uev_zeros k False bb = Inr (k + 1 + int n, bb') \<and> bb_rest bb' = ys \<and> bb_cb_left bb' \<le> 8"
  proof (induction n arbitrary: k bb)
    case 0
    then obtain bb' where "read_bit bb = Inr (True, bb')" "bb_rest bb' = ys" "bb_cb_left bb' \<le> 8"
      using breadsD [OF breads_bit, of bb True ys] by auto
    with 0 show ?case by (simp add: uev_zeros.simps [of _ False] uev_zeros.simps [of _ True] bits_empty_iff)
  next
    case (Suc n)
    then obtain bb' where b: "read_bit bb = Inr (False, bb')" "bb_rest bb' = (replicate n False @ [True]) @ ys" "bb_cb_left bb' \<le> 8"
      using breadsD [OF breads_bit, of bb False "(replicate n False @ [True]) @ ys"] by auto
    then have "uev_zeros k False bb = uev_zeros (k + 1) False bb'"
      using Suc.prems by (subst uev_zeros.simps) (simp add: bits_empty_iff)
    with Suc.IH [OF b(3,2), of "k + 1"] show ?case by (simp add: algebra_simps)
  qed
qed

lemma breads_uev:
  assumes "v < 2 ^ 31 - 1"
  shows "breads srs_avc_nalu_read_uev (int v) (uev_code v)"
proof -
  define n where "n = log2 (v + 1)"
  have b: "2 ^ n \<le> v + 1" "v + 1 < 2 ^ Suc n" using log2_bounds [of "v + 1"] by (auto simp: n_def)
  have n: "n < 31"
  proof (rule ccontr)
    assume "\<not> n < 31"
    then have "(2::nat) ^ 31 \<le> 2 ^ n" by (intro power_increasing) auto
    with b assms show False by simp
  qed
  let ?f = "\<lambda>leadingZeroBits. if leadingZeroBits \<ge> 31 then fail (Srs_error ERROR_AVC_NALU_UEV)
             else uev_value (nat leadingZeroBits) (2 ^ nat leadingZeroBits - 1)"
  have "v + 1 - 2 ^ n < 2 ^ n" using b by simp
  from breads_value [OF this, of "2 ^ n - 1"]
  have "breads (?f (int n)) (int v) (bin n (v + 1 - 2 ^ n))"
    using n b by (simp add: of_nat_diff)
  with breads_zeros [of "- 1" n] have "breads (bnd (uev_zeros (- 1) False) ?f) (int v) ((replicate n False @ [True]) @ bin n (v + 1 - 2 ^ n))"
    by (intro breads_bnd [where v = "int n"]) auto
  moreover have "uev_code v = (replicate n False @ [True]) @ bin n (v + 1 - 2 ^ n)"
    by (simp add: uev_code_def n_def Let_def)
  ultimately show ?thesis
    unfolding breads_def srs_avc_nalu_read_uev_def by (auto simp: bits_empty_iff)
qed

lemma uev_zeros_safe:
  "bb_cb_left bb \<le> 8 \<Longrightarrow> \<exists>n bb'. uev_zeros k b bb = Inr (n, bb') \<and> bb_cb_left bb' \<le> 8"
proof (induction k b bb rule: uev_zeros.induct)
  case (1 k b bb)
  show ?case
  proof (cases "\<not> b \<and> \<not> SrsBitBuffer_empty bb")
    case True
    then obtain c bb' where r: "read_bit bb = Inr (c, bb')" "bb_cb_left bb' \<le> 8"
      using read_bit_ok [OF 1(2)] by blast
    then have "uev_zeros k b bb = uev_zeros (k + 1) c bb'" using True by (subst uev_zeros.simps) simp
    then show ?thesis using 1(1) [OF True r(1) refl r(2)] by simp
  next
    case False
    then show ?thesis using 1(2) by (subst uev_zeros.simps) auto
  qed
qed

lemma bsafe_value: "bsafe (uev_value n v)"
proof (induction n arbitrary: v)
  case 0
  then show ?case by (simp add: bsafe_ret)
next
  case (Suc n)
  show ?case unfolding bsafe_def
  proof (intro allI impI)
    fix bb :: SrsBitBuffer assume bb: "bb_cb_left bb \<le> 8"
    show "case uev_value (Suc n) v bb of Inl e \<Rightarrow> (\<exists>c. e = Srs_error c) | Inr (_, bb') \<Rightarrow> bb_cb_left bb' \<le> 8"
    proof (cases "SrsBitBuffer_empty bb")
      case False
      then obtain b bb' where r: "read_bit bb = Inr (b, bb')" "bb_cb_left bb' \<le> 8" using read_bit_ok [OF bb] by blast
      from Suc [of "v + (if b then 2 ^ n else 0)"] r(2) show ?thesis
        using False r(1) by (cases rule: bsafeD) (auto simp: bnd_def)
    qed simp
  qed
qed

lemma bsafe_uev: "bsafe srs_avc_nalu_read_uev"
  unfolding bsafe_def
proof (intro allI impI)
  fix bb :: SrsBitBuffer assume bb: "bb_cb_left bb \<le> 8"
  obtain n bb1 where z: "uev_zeros (- 1) False bb = Inr (n, bb1)" "bb_cb_left bb1 \<le> 8" using uev_zeros_safe [OF bb] by blast
  have v: "bsafe (uev_value (nat n) (2 ^ nat n - 1))" by (rule bsafe_value)
  from v z(2) show "case srs_avc_nalu_read_uev bb of Inl e \<Rightarrow> (\<exists>c. e = Srs_error c) | Inr (_, bb') \<Rightarrow> bb_cb_left bb' \<le> 8"
    using z(1) by (cases rule: bsafeD) (auto simp: srs_avc_nalu_read_uev_def bnd_def fail_def)
qed

lemmas bsafe_intros = bsafe_bnd bsafe_ret bsafe_fail bsafe_if bsafe_uev bsafe_nalu_bit

lemma bsafe_scaling: "bsafe (sps_scaling_flags n)"
  by (induction n) (auto intro!: bsafe_intros)

lemma bsafe_skip: "bsafe (sps_skip_uevs n)"
  by (induction n) (auto intro!: bsafe_intros)

lemma bsafe_sps: "bsafe (sps_chroma p)" "bsafe sps_pic_order" "bsafe sps_cropping"
  unfolding sps_chroma_def sps_pic_order_def sps_cropping_def
  by (intro bsafe_intros bsafe_scaling bsafe_skip)+

lemma bsafe_picture: "bsafe sps_picture_size"
  unfolding sps_picture_size_def
  by (intro bsafe_intros bsafe_sps) (auto intro: bsafe_ret split: prod.splits)

section \<open>The parsers return on any bytes\<close>

fun returns :: "'f outcome \<Rightarrow> bool" where
  "returns (None, f) = True"
| "returns (Some (Srs_error _), f) = True"
| "returns (Some _, f) = False"

lemma returns_Some [simp]: "returns (Some e, f) \<longleftrightarrow> (\<exists>c. e = Srs_error c)"
  by (cases e) auto

lemma returns_rd: "(\<And>x b. r = Inr (x, b) \<Longrightarrow> returns (k x b)) \<Longrightarrow> safe r \<Longrightarrow> returns (rd r f k)"
  by (cases r) (auto simp: rd_def)

lemma sps_rbsp_safe: "safe (avc_demux_sps_rbsp rbsp)"
proof -
  let ?e = "Srs_error ERROR_HLS_DECODE_ERROR"
  let ?m = "bnd (guard_require 3 ERROR_HLS_DECODE_ERROR) (\<lambda>_.
           bnd read_1bytes (\<lambda>profile_idc. if profile_idc = 0 then fail ?e else
           bnd read_1bytes (\<lambda>flags. if flags AND 0x03 \<noteq> 0 then fail ?e else
           bnd read_1bytes (\<lambda>level_idc. if level_idc = 0 then fail ?e else ret profile_idc))))"
  let ?n = "\<lambda>profile_idc. bnd srs_avc_nalu_read_uev (\<lambda>seq_parameter_set_id. if seq_parameter_set_id < 0 then fail ?e else
                bnd (sps_chroma profile_idc) (\<lambda>_.
                bnd srs_avc_nalu_read_uev (\<lambda>_.
                bnd sps_pic_order (\<lambda>_. sps_picture_size))))"
  have m: "safe (?m (SrsBuffer_new rbsp))"
    by (auto simp: bnd_def guard_require_def read_1bytes_eq require_iff fail_def ret_def split: list.splits)
  have n: "bsafe (?n p)" for p by (intro bsafe_intros bsafe_sps bsafe_picture)
  show ?thesis
  proof (cases "?m (SrsBuffer_new rbsp)")
    case (Inl e)
    then show ?thesis using m by (auto simp: avc_demux_sps_rbsp_def Let_def)
  next
    case (Inr r)
    obtain p s where r: "r = (p, s)" by (cases r)
    have left: "bb_cb_left (SrsBitBuffer_new s) \<le> 8" by (simp add: SrsBitBuffer_new_def)
    from n [of p] left show ?thesis using Inr r by (cases rule: bsafeD) (auto simp: avc_demux_sps_rbsp_def Let_def)
  qed
qed

lemma sps_returns: "returns (avc_demux_sps c)"
proof -
  have "safe (bnd (guard_require 1 ERROR_HLS_DECODE_ERROR) (\<lambda>_. read_1bytes) (SrsBuffer_new sps))" for sps
    by (auto simp: bnd_def guard_require_def read_1bytes_eq require_iff split: list.splits)
  moreover have "returns (case avc_demux_sps_rbsp bs of Inl e \<Rightarrow> (Some e, c) | Inr (w, h) \<Rightarrow> (None, c\<lparr>vc_width := w, vc_height := h\<rparr>))" for bs
    using sps_rbsp_safe [of bs] by (cases "avc_demux_sps_rbsp bs") auto
  ultimately show ?thesis by (auto simp: avc_demux_sps_def Let_def intro!: returns_rd)
qed

lemma skip_ok:
  assumes "buf_wf b" and "SrsBuffer_require n b"
  shows "SrsBuffer_skip n b = Inr ((), buf_adv (nat n) b)" and "buf_wf (buf_adv (nat n) b)"
proof -
  have n: "0 \<le> n" "int (buf_p b) + n \<le> int (length (buf_bytes b))"
    using assms by (auto simp: SrsBuffer_require_def SrsBuffer_left_def buf_wf_def split: if_splits)
  then show "SrsBuffer_skip n b = Inr ((), buf_adv (nat n) b)" "buf_wf (buf_adv (nat n) b)"
    by (auto simp: SrsBuffer_skip_def buf_adv_def buf_wf_def nat_add_distrib)
qed

lemma parameter_sets_returns:
  "buf_wf s \<Longrightarrow> (case demux_parameter_sets n c s of (err, c', s') \<Rightarrow>
     (\<forall>e. err = Some e \<longrightarrow> (\<exists>x. e = Srs_error x)) \<and> (err = None \<longrightarrow> buf_wf s'))"
proof (induction n arbitrary: c s)
  case 0
  then show ?case by simp
next
  case (Suc n)
  show ?case
  proof (cases "SrsBuffer_require 2 s")
    case False
    then show ?thesis by simp
  next
    case True
    obtain l where r: "read_2bytes s = Inr (l, buf_adv 2 s)" using True by (simp add: read_2bytes_eq require_iff)
    have wf: "buf_wf (buf_adv 2 s)" using Suc.prems True by (simp add: buf_wf_adv require_iff)
    show ?thesis
    proof (cases "SrsBuffer_require (uint l) (buf_adv 2 s)")
      case False
      then show ?thesis using True r by simp
    next
      case rq: True
      note sk = skip_ok [OF wf rq]
      then show ?thesis using True rq r sk Suc.IH [of "buf_adv (nat (uint l)) (buf_adv 2 s)"] by (simp add: Let_def)
    qed
  qed
qed

lemma safe_read_1bytes: "SrsBuffer_require 1 b \<Longrightarrow> safe (read_1bytes b)"
  by (auto simp: read_1bytes_eq require_iff split: list.splits)

lemma buf_cases: "buf_wf b \<Longrightarrow> read_1bytes b = Inr (x, b') \<Longrightarrow> buf_wf b' \<and> length (buf_rest b) = Suc (length (buf_rest b'))"
  by (auto simp: read_1bytes_eq buf_wf_adv split: list.splits)

lemma sps_pps_returns: "buf_wf s \<Longrightarrow> returns (avc_demux_sps_pps s c)"
proof (cases "SrsBuffer_require 6 s")
  case False
  then show ?thesis by (simp add: avc_demux_sps_pps_def)
next
  case True
  assume wf: "buf_wf s"
  have len: "6 \<le> length (buf_rest s)" using True by (simp add: require_iff)
  have skip: "SrsBuffer_skip 4 s = Inr ((), buf_adv 4 s)" "buf_wf (buf_adv 4 s)"
    using skip_ok [OF wf, of 4] len by (auto simp: require_iff)
  obtain b s2 where r1: "read_1bytes (buf_adv 4 s) = Inr (b, s2)" using len
    by (cases "drop 4 (buf_rest s)") (auto simp: read_1bytes_eq)
  note w2 = buf_cases [OF skip(2) r1]
  obtain n s3 where r2: "read_1bytes s2 = Inr (n, s3)" using len w2
    by (cases "buf_rest s2") (auto simp: read_1bytes_eq)
  have w3: "buf_wf s3" using buf_cases [OF _ r2] w2 by blast
  have tail: "returns (case avc_demux_sps v of (Some (Srs_error x), v5) \<Rightarrow> (None, v5) | r \<Rightarrow> r)" for v
    using sps_returns [of v] by (cases "avc_demux_sps v" rule: returns.cases) auto
  obtain err sps s4 where d1: "demux_parameter_sets (unat (n AND 0x1f)) (sequenceParameterSetNALUnit c) s3 = (err, sps, s4)"
    by (cases "demux_parameter_sets (unat (n AND 0x1f)) (sequenceParameterSetNALUnit c) s3") auto
  note e1 = parameter_sets_returns [OF w3, of "unat (n AND 0x1f)" "sequenceParameterSetNALUnit c", unfolded d1 prod.case]
  have fin: "returns (let (err, pps, s6) = demux_parameter_sets k c' s5; v4 = v3\<lparr>pictureParameterSetNALUnit := pps\<rparr>
      in if err \<noteq> None then (err, v4) else if \<not> is_avc_codec_ok v4 then (Some (Srs_error ERROR_HLS_DECODE_ERROR), v4)
         else case avc_demux_sps v4 of (Some (Srs_error x), v5) \<Rightarrow> (None, v5) | r \<Rightarrow> r)" if "buf_wf s5" for k c' s5 v3
    using parameter_sets_returns [OF that, of k c'] tail
    by (cases "demux_parameter_sets k c' s5") (auto simp: Let_def split: option.splits)
  show ?thesis
  proof (cases "b AND 0x03 = 2 \<or> err \<noteq> None \<or> \<not> SrsBuffer_require 1 s4")
    case True
    then show ?thesis using \<open>SrsBuffer_require 6 s\<close> skip r1 r2 d1 e1
      by (auto simp: avc_demux_sps_pps_def Let_def rd_def)
  next
    case False
    then obtain m s5 where r3: "read_1bytes s4 = Inr (m, s5)"
      by (cases "buf_rest s4") (auto simp: read_1bytes_eq require_iff)
    have w5: "buf_wf s5" using buf_cases [OF _ r3] e1 False by blast
    show ?thesis using \<open>SrsBuffer_require 6 s\<close> skip r1 r2 r3 d1 False fin [OF w5]
      by (simp add: avc_demux_sps_pps_def Let_def rd_def)
  qed
qed

lemma ibmf_returns: "buf_wf s \<Longrightarrow> returns (avc_demux_ibmf_format nul s v)"
proof (induction nul s v rule: avc_demux_ibmf_format.induct)
  case (1 nul s v)
  show ?case
  proof (cases "buf_rest s = [] \<or> \<not> SrsBuffer_require (uint nul + 1) s")
    case True
    then show ?thesis by (subst avc_demux_ibmf_format.simps) auto
  next
    case False
    then have rq: "buf_rest s \<noteq> []" "SrsBuffer_require (uint nul + 1) s" by auto
    then have n: "nat (uint nul + 1) \<le> length (buf_rest s)" using require_iff [of "uint nul + 1" s] by simp
    have "\<exists>len s1. read_nalu_length nul s = Inr (len, s1) \<and> buf_wf s1"
      using 1(3) n rq(1) by (cases "nul = 3"; cases "nul = 1")
        (auto simp: read_nalu_length_def bnd_def ret_def read_1bytes_eq read_2bytes_eq read_4bytes_eq buf_wf_adv neq_Nil_conv)
    then obtain len s1 where r: "read_nalu_length nul s = Inr (len, s1)" "buf_wf s1" by blast
    show ?thesis
    proof (cases "len < 0 \<or> \<not> SrsBuffer_require len s1")
      case True
      then show ?thesis using rq r by (subst avc_demux_ibmf_format.simps) simp
    next
      case l: False
      then have len: "\<not> len < 0" "SrsBuffer_require len s1" by auto
      note sk = skip_ok [OF r(2) len(2)]
      show ?thesis
      proof (cases "len = 0")
        case True
        then show ?thesis using rq r len 1(1) [OF _ _ r(1) refl l True r(2)]
          by (subst avc_demux_ibmf_format.simps) (simp del: avc_demux_ibmf_format.simps)
      next
        case ne: False
        let ?nalu = "take (nat len) (buf_rest s1)"
        let ?v = "if ?nalu ! 0 AND 0x1f = SrsAvcNaluTypeIDR then v\<lparr>has_idr := True\<rparr> else v"
        show ?thesis
        proof (cases "add_sample ?nalu (vf_samples ?v)")
          case (Inl e)
          then show ?thesis using rq r len ne
            by (subst avc_demux_ibmf_format.simps) (auto simp: Let_def add_sample_def split: if_splits)
        next
          case (Inr samples)
          then show ?thesis using rq r len ne sk 1(2) [OF _ _ r(1) refl l ne refl refl Inr sk(1) refl sk(2)]
            by (subst avc_demux_ibmf_format.simps) (simp add: Let_def)
        qed
      qed
    qed
  qed
qed

lemma on_video_returns: "returns (SrsFormat_on_video ts data f)"
proof (cases "data = []")
  case True
  then show ?thesis by (simp add: SrsFormat_on_video_def)
next
  case False
  let ?b = "SrsBuffer_new data"
  obtain b b1 where r0: "read_1bytes ?b = Inr (b, b1)" "buf_wf b1"
    using False by (cases data) (auto simp: read_1bytes_eq buf_wf_adv)
  have "returns (video_avc_demux ts c v ?b g)" for c v g
  proof (cases "SrsBuffer_require 4 b1")
    case False
    then show ?thesis using r0 by (simp add: video_avc_demux_def rd_def Let_def)
  next
    case True
    then have len: "4 \<le> length (buf_rest b1)" by (simp add: require_iff)
    obtain t b2 where r1: "read_1bytes b1 = Inr (t, b2)" using len by (cases "buf_rest b1") (auto simp: read_1bytes_eq)
    note w2 = buf_cases [OF r0(2) r1]
    obtain ct where r2: "read_3bytes b2 = Inr (ct, buf_adv 3 b2)" "buf_wf (buf_adv 3 b2)"
      using len w2 by (auto simp: read_3bytes_eq buf_wf_adv)
    have "returns (let (err, c2) = avc_demux_sps_pps (buf_adv 3 b2) c1 in (err, h c2))" for c1 and h :: "SrsVideoCodecConfig \<Rightarrow> SrsFormat"
      using sps_pps_returns [OF r2(2), of c1] by (cases "avc_demux_sps_pps (buf_adv 3 b2) c1" rule: returns.cases) auto
    moreover have "returns (let (err, v4) = avc_demux_ibmf_format n (buf_adv 3 b2) v3 in (err, h v4))" for n v3 and h :: "SrsVideoFrame \<Rightarrow> SrsFormat"
      using ibmf_returns [OF r2(2), of n v3] by (cases "avc_demux_ibmf_format n (buf_adv 3 b2) v3" rule: returns.cases) auto
    ultimately show ?thesis using r0 r1 r2 by (simp add: video_avc_demux_def rd_def Let_def)
  qed
  then show ?thesis using False by (simp add: SrsFormat_on_video_def Let_def)
qed

lemma on_audio_returns: "returns (SrsFormat_on_audio ts data f)"
proof (cases "data = []")
  case True
  then show ?thesis by (simp add: SrsFormat_on_audio_def)
next
  case False
  have sh: "returns (let (err, c2) = audio_aac_sequence_header_demux bs c1 in (err, h c2))" for bs c1 and h :: "SrsAudioCodecConfig \<Rightarrow> SrsFormat"
    by (auto simp: audio_aac_sequence_header_demux_def Let_def)
  have "returns (audio_aac_demux ts c a (SrsBuffer_new data) g)" for c a g
    using False sh by (auto simp: audio_aac_demux_def rd_def Let_def read_1bytes_eq add_sample_def split: list.splits)
  then show ?thesis using False by (simp add: SrsFormat_on_audio_def Let_def)
qed

text \<open>The samples of a video frame are never empty.\<close>

definition format_ok :: "SrsFormat \<Rightarrow> bool" where
  "format_ok f \<longleftrightarrow> (\<forall>v. fmt_video f = Some v \<longrightarrow> [] \<notin> set (vf_samples v))"

lemma ibmf_samples: "[] \<notin> set (vf_samples v) \<Longrightarrow> avc_demux_ibmf_format nul s v = (e, v') \<Longrightarrow> [] \<notin> set (vf_samples v')"
proof (induction nul s v arbitrary: e v' rule: avc_demux_ibmf_format.induct)
  case (1 nul s v)
  show ?case
  proof (cases "buf_rest s = [] \<or> \<not> SrsBuffer_require (uint nul + 1) s")
    case True
    then show ?thesis using 1(3,4) by (subst (asm) avc_demux_ibmf_format.simps) (auto split: if_splits)
  next
    case False
    then have rq: "buf_rest s \<noteq> []" "SrsBuffer_require (uint nul + 1) s" by auto
    show ?thesis
    proof (cases "read_nalu_length nul s")
      case (Inl x)
      then show ?thesis using 1(3,4) rq by (subst (asm) avc_demux_ibmf_format.simps) (auto split: if_splits)
    next
      case (Inr r)
      obtain len s1 where r: "read_nalu_length nul s = Inr (len, s1)" using Inr by (cases r) auto
      show ?thesis
      proof (cases "len < 0 \<or> \<not> SrsBuffer_require len s1")
        case True
        then show ?thesis using 1(3,4) rq r by (subst (asm) avc_demux_ibmf_format.simps) (auto split: if_splits)
      next
        case l: False
        show ?thesis
        proof (cases "len = 0")
          case True
          have "avc_demux_ibmf_format nul s1 v = (e, v')" using 1(4) rq r l True by (subst (asm) avc_demux_ibmf_format.simps) simp
          from 1(1) [OF _ _ r refl l True 1(3) this] rq show ?thesis by simp
        next
          case ne: False
          let ?nalu = "take (nat len) (buf_rest s1)"
          let ?v = "if ?nalu ! 0 AND 0x1f = SrsAvcNaluTypeIDR then v\<lparr>has_idr := True\<rparr> else v"
          have n: "?nalu \<noteq> []" using l ne require_iff [of len s1] by (cases "buf_rest s1") auto
          show ?thesis
          proof (cases "add_sample ?nalu (vf_samples ?v)")
            case (Inl x)
            then show ?thesis using 1(3,4) rq r l ne by (subst (asm) avc_demux_ibmf_format.simps) (auto simp: Let_def split: if_splits)
          next
            case (Inr samples)
            then have sm: "[] \<notin> set samples" using n 1(3) by (auto simp: add_sample_def split: if_splits)
            show ?thesis
            proof (cases "SrsBuffer_skip len s1")
              case (Inl x)
              have "v' = ?v\<lparr>vf_samples := samples\<rparr>" using 1(4) rq r l ne Inr Inl by (subst (asm) avc_demux_ibmf_format.simps) (simp add: Let_def)
              then show ?thesis using sm by simp
            next
              case (Inr us)
              obtain u s2 where us: "us = (u, s2)" by (cases us)
              have "avc_demux_ibmf_format nul s2 (?v\<lparr>vf_samples := samples\<rparr>) = (e, v')"
                using 1(4) rq r l ne \<open>add_sample _ _ = _\<close> Inr us by (subst (asm) avc_demux_ibmf_format.simps) (simp add: Let_def)
              from 1(2) [OF _ _ r refl l ne refl refl \<open>add_sample _ _ = _\<close> Inr us [symmetric] _ this] rq sm show ?thesis by simp
            qed
          qed
        qed
      qed
    qed
  qed
qed

lemma on_video_format_ok: "format_ok f \<Longrightarrow> format_ok (snd (SrsFormat_on_video ts data f))"
proof (cases "data = []")
  case False
  have "format_ok (snd (video_avc_demux ts c v b g))" for c v b g
    by (auto simp: video_avc_demux_def rd_def Let_def format_ok_def split: sum.splits prod.splits dest!: ibmf_samples [rotated])
  then show ?thesis using False by (simp add: SrsFormat_on_video_def Let_def)
qed (simp add: SrsFormat_on_video_def)

lemma on_audio_format_ok: "format_ok f \<Longrightarrow> format_ok (snd (SrsFormat_on_audio ts data f))"
  by (auto simp: SrsFormat_on_audio_def audio_aac_demux_def rd_def Let_def format_ok_def split: sum.splits prod.splits)

section \<open>What the parsers deliver\<close>

text \<open>C37. \<^verbatim>\<open>SrsFormat::on_audio\<close> and \<^verbatim>\<open>SrsFormat::on_video\<close> return, with success or an error code, on the
  payload of any audio or video message and in any state, also one that an earlier error left: no
  read goes past the end of the payload, no assertion of the buffers fails and every loop ends.\<close>

theorem format_safe:
  "returns (SrsFormat_on_audio ts data f) \<and> returns (SrsFormat_on_video ts data f)"
  by (simp add: on_audio_returns on_video_returns)

subsection \<open>Emulation prevention\<close>

text \<open>
  The escaping of the H.264 standard, annex B: behind two zeros a byte up to 3 gets a 3 in front;
  \<open>z\<close> counts the zeros since the last other byte or escape.
\<close>

fun rbsp_escape :: "nat \<Rightarrow> byte list \<Rightarrow> byte list" where
  "rbsp_escape z [] = []"
| "rbsp_escape z (b # bs) =
     (if 2 \<le> z \<and> b \<le> 3 then 3 # b # rbsp_escape (if b = 0 then 1 else 0) bs
      else b # rbsp_escape (if b = 0 then z + 1 else 0) bs)"

definition ends :: "byte list \<Rightarrow> byte list \<Rightarrow> bool" where
  "ends xs out \<longleftrightarrow> (\<exists>us. out = us @ xs)"

lemma rbsp_length: "length (srs_rbsp_remove_emulation_bytes rbsp cs) \<le> length rbsp + length cs"
proof (induction rbsp cs rule: srs_rbsp_remove_emulation_bytes.induct)
  case (2 rbsp c cs)
  then show ?case by (cases cs) (auto split: if_splits)
qed simp

lemma ends_00: "ends [0, 0] rbsp \<longleftrightarrow> length rbsp \<ge> 2 \<and> rbsp ! (length rbsp - 2) = 0 \<and> rbsp ! (length rbsp - 1) = 0"
proof
  assume "ends [0, 0] rbsp"
  then show "length rbsp \<ge> 2 \<and> rbsp ! (length rbsp - 2) = 0 \<and> rbsp ! (length rbsp - 1) = 0"
    by (auto simp: ends_def nth_append)
next
  assume r: "length rbsp \<ge> 2 \<and> rbsp ! (length rbsp - 2) = 0 \<and> rbsp ! (length rbsp - 1) = 0"
  then obtain us y where "rbsp = us @ [y]" by (cases rbsp rule: rev_cases) auto
  moreover from this r obtain vs x where "us = vs @ [x]" by (cases us rule: rev_cases) auto
  ultimately show "ends [0, 0] rbsp" using r by (auto simp: ends_def nth_append)
qed

lemma remove_step:
  "srs_rbsp_remove_emulation_bytes rbsp (c # cs) =
     (if ends [0, 0] rbsp \<and> c = 3
      then case cs of [] \<Rightarrow> rbsp @ [c]
           | ev # cs' \<Rightarrow> srs_rbsp_remove_emulation_bytes (if ev > 3 then rbsp @ [c, ev] else rbsp @ [ev]) cs'
      else srs_rbsp_remove_emulation_bytes (rbsp @ [c]) cs)"
  by (simp add: ends_00)

text \<open>How the count \<open>z\<close> of the escaping relates to the bytes that are written back.\<close>

definition esc_inv :: "nat \<Rightarrow> byte list \<Rightarrow> bool" where
  "esc_inv z out \<longleftrightarrow> (z = 0 \<longrightarrow> \<not> ends [0] out) \<and> (1 \<le> z \<longrightarrow> ends [0] out) \<and> (2 \<le> z \<longrightarrow> ends [0, 0] out)
     \<and> (z = 1 \<longrightarrow> ends [0, 0] out \<longrightarrow> ends [0, 0, 0] out)"

lemma ends_snoc: "ends (xs @ [x]) (out @ [y]) \<longleftrightarrow> x = y \<and> ends xs out"
  by (auto simp: ends_def)

lemma ends_snocs [simp]: "ends [x] (out @ [y]) \<longleftrightarrow> x = y" "ends [x, x'] (out @ [y]) \<longleftrightarrow> x' = y \<and> ends [x] out"
  "ends [x, x', x''] (out @ [y]) \<longleftrightarrow> x'' = y \<and> ends [x, x'] out"
  using ends_snoc [of "[]" x out y] ends_snoc [of "[x]" x' out y] ends_snoc [of "[x, x']" x'' out y]
  by (auto simp: ends_def)

lemma ends_00_0: "ends [0, 0] out \<Longrightarrow> ends [0] out"
  by (auto simp: ends_def)

lemma remove_escape:
  "esc_inv z out \<Longrightarrow> \<not> sublist [0, 0, 0, 3] (out @ bs) \<Longrightarrow>
     srs_rbsp_remove_emulation_bytes out (rbsp_escape z bs) = out @ bs"
proof (induction bs arbitrary: z out)
  case Nil
  then show ?case by simp
next
  case (Cons b bs)
  have no: "\<not> sublist [0, 0, 0, 3] ((out @ [b]) @ bs)" using Cons.prems by simp
  show ?case
  proof (cases "2 \<le> z \<and> b \<le> 3")
    case True
    have "esc_inv (if b = 0 then 1 else 0) (out @ [b])" using True Cons.prems(1) by (auto simp: esc_inv_def)
    from Cons.IH [OF this no] show ?thesis using True Cons.prems(1)
      by (auto simp: remove_step esc_inv_def dest: leD simp del: srs_rbsp_remove_emulation_bytes.simps)
  next
    case False
    have "\<not> (ends [0, 0] out \<and> b = 3)"
    proof
      assume e: "ends [0, 0] out \<and> b = 3"
      with False have "\<not> 2 \<le> z" by simp
      with e Cons.prems(1) have "ends [0, 0, 0] out"
        using ends_00_0 [of out] by (cases "z = 0"; cases "z = 1") (auto simp: esc_inv_def)
      then obtain us where "out = us @ [0, 0, 0]" by (auto simp: ends_def)
      then show False using Cons.prems(2) e by (auto simp: sublist_def)
    qed
    moreover have "esc_inv (if b = 0 then z + 1 else 0) (out @ [b])"
      using Cons.prems(1) by (cases z) (auto simp: esc_inv_def dest: ends_00_0)
    ultimately show ?thesis using Cons.IH [OF _ no] False
      by (auto simp: remove_step simp del: srs_rbsp_remove_emulation_bytes.simps)
  qed
qed

text \<open>\<^verbatim>\<open>srs_rbsp_remove_emulation_bytes\<close> undoes the escaping of the H.264 standard on every byte
  sequence that does not hold 00 00 00 03. The condition is needed: behind an emulation byte that it
  dropped the code counts the zeros before it again, so that it takes the 3 of 00 00 00 03 01, which
  is escaped as 00 00 03 00 03 01, for an emulation byte too.\<close>

theorem rbsp_roundtrip:
  "(\<not> sublist [0, 0, 0, 3] bs \<longrightarrow> srs_rbsp_remove_emulation_bytes [] (rbsp_escape 0 bs) = bs)
   \<and> srs_rbsp_remove_emulation_bytes [] (rbsp_escape 0 [0, 0, 0, 3, 1]) = [0, 0, 0, 1]"
  using remove_escape [of 0 "[]" bs] by (auto simp: esc_inv_def ends_def)

theorem rbsp_roundtrip_witness:
  "\<not> sublist [0, 0, 0, 3] [103, 0, 0, 1, 0, 0, 2, 0, 0, 0 :: byte]
   \<and> srs_rbsp_remove_emulation_bytes [] (rbsp_escape 0 [103, 0, 0, 1, 0, 0, 2, 0, 0, 0]) = [103, 0, 0, 1, 0, 0, 2, 0, 0, 0]"
proof -
  have n: "\<not> sublist [0, 0, 0, 3] [103, 0, 0, 1, 0, 0, 2, 0, 0, 0 :: byte]" by code_simp
  with rbsp_roundtrip [of "[103, 0, 0, 1, 0, 0, 2, 0, 0, 0]"] show ?thesis by blast
qed

subsection \<open>Samples\<close>

text \<open>The AVCC form of NALUs, each behind its length in \<open>n\<close> bytes.\<close>

definition avcc_bytes :: "nat \<Rightarrow> byte list list \<Rightarrow> byte list" where
  "avcc_bytes n nalus = concat (map (\<lambda>nalu. rev (le_bytes n (int (length nalu))) @ nalu) nalus)"

definition is_idr :: "byte list \<Rightarrow> bool" where
  "is_idr nalu \<longleftrightarrow> nalu \<noteq> [] \<and> hd nalu AND 0x1f = SrsAvcNaluTypeIDR"

text \<open>The lengths that the prefix of \<^verbatim>\<open>NAL_unit_length + 1\<close> bytes can hold; that of 4 bytes is signed.\<close>

definition nalu_limit :: "byte \<Rightarrow> nat" where
  "nalu_limit nul = (if nul = 3 then 2 ^ 31 else if nul = 1 then 2 ^ 16 else 2 ^ 8)"

lemma uint_of_len:
  "n < 2 ^ LENGTH('a) \<Longrightarrow> uint (word_of_nat n :: 'a::len word) = int n"
  by (simp add: unsigned_of_nat take_bit_nat_eq_self)

lemma reads_nalu_length:
  assumes "nul \<in> {0, 1, 3}" and "n < nalu_limit nul"
  shows "reads (read_nalu_length nul) (int n) (rev (le_bytes (unat nul + 1) (int n)))"
proof -
  consider (four) "nul = 3" | (two) "nul = 1" | (one) "nul = 0" using assms(1) by auto
  then show ?thesis
  proof cases
    case four
    let ?w = "word_of_nat n :: 32 word"
    have u: "uint ?w = int n" using assms(2) four by (simp add: nalu_limit_def uint_of_len)
    have s: "sint ?w = int n" using u assms(2) four by (simp add: sint_uint nalu_limit_def signed_take_bit_int_eq_self)
    have "reads (bnd read_4bytes (\<lambda>w. ret (sint w))) (sint ?w) (rev (le_bytes 4 (uint ?w)) @ [])"
      by (intro reads_bnd [where v = ?w] reads_4bytes reads_ret)
    then show ?thesis using four u s by (simp add: read_nalu_length_def)
  next
    case two
    let ?w = "word_of_nat n :: 16 word"
    have u: "uint ?w = int n" using assms(2) two by (simp add: nalu_limit_def uint_of_len)
    have "reads (bnd read_2bytes (\<lambda>w. ret (uint w))) (uint ?w) (rev (le_bytes 2 (uint ?w)) @ [])"
      by (intro reads_bnd [where v = ?w] reads_2bytes reads_ret)
    then show ?thesis using two u by (simp add: read_nalu_length_def numeral_2_eq_2)
  next
    case one
    let ?w = "word_of_nat n :: byte"
    have u: "uint ?w = int n" using assms(2) one by (simp add: nalu_limit_def uint_of_len)
    have "reads (bnd read_1bytes (\<lambda>w. ret (uint w))) (uint ?w) ([?w] @ [])"
      by (intro reads_bnd [where v = ?w] reads_1bytes reads_ret)
    then show ?thesis using one u by (simp add: read_nalu_length_def)
  qed
qed

text \<open>One round of the loop.\<close>

lemma ibmf_step:
  assumes nul: "nul \<in> {0, 1, 3}" and nalu: "nalu \<noteq> []" "length nalu < nalu_limit nul"
    and wf: "buf_wf s" and rest: "buf_rest s = rev (le_bytes (unat nul + 1) (int (length nalu))) @ nalu @ zs"
    and few: "length (vf_samples v) < SrsMaxNbSamples"
  shows "\<exists>s'. buf_wf s' \<and> buf_rest s' = zs \<and> avc_demux_ibmf_format nul s v =
     avc_demux_ibmf_format nul s' (v\<lparr>has_idr := has_idr v \<or> is_idr nalu, vf_samples := vf_samples v @ [nalu]\<rparr>)"
proof -
  let ?s1 = "buf_adv (unat nul + 1) s" and ?n = "length nalu"
  have len: "unat nul + 1 + ?n \<le> length (buf_rest s)" using rest by simp
  have rd: "read_nalu_length nul s = Inr (int ?n, ?s1)"
    using readsD [OF reads_nalu_length [OF nul nalu(2)] wf rest] by simp
  have wf1: "buf_wf ?s1" using wf len by (intro buf_wf_adv) auto
  have rq0: "SrsBuffer_require (uint nul + 1) s" using len by (simp add: require_iff nat_add_distrib)
  have "?n \<le> length (buf_rest ?s1)" using len by simp
  then have rq1: "SrsBuffer_require (int ?n) ?s1" using require_iff [of "int ?n" ?s1] nalu(1) by simp
  note sk = skip_ok [OF wf1 rq1]
  have tk: "take ?n (buf_rest ?s1) = nalu" and dr: "drop ?n (buf_rest ?s1) = zs" using rest by simp_all
  have idr: "nalu ! 0 AND 0x1f = SrsAvcNaluTypeIDR \<longleftrightarrow> is_idr nalu" using nalu(1) by (simp add: is_idr_def hd_conv_nth)
  let ?v = "v\<lparr>has_idr := has_idr v \<or> is_idr nalu, vf_samples := vf_samples v @ [nalu]\<rparr>"
  have "avc_demux_ibmf_format nul s v = avc_demux_ibmf_format nul (buf_adv ?n ?s1) ?v"
    using nalu few rd rq0 rq1 sk tk idr rest
    by (subst avc_demux_ibmf_format.simps) (auto simp: add_sample_def Let_def)
  then show ?thesis using sk(2) dr by (intro exI [of _ "buf_adv ?n ?s1"]) (simp add: add.commute)
qed

lemma ibmf_nalus:
  assumes "nul \<in> {0, 1, 3}"
  shows "list_all (\<lambda>nalu. nalu \<noteq> [] \<and> length nalu < nalu_limit nul) nalus \<Longrightarrow> buf_wf s \<Longrightarrow>
     buf_rest s = avcc_bytes (unat nul + 1) nalus \<Longrightarrow> length (vf_samples v) + length nalus \<le> SrsMaxNbSamples \<Longrightarrow>
     avc_demux_ibmf_format nul s v =
       (None, v\<lparr>has_idr := has_idr v \<or> list_ex is_idr nalus, vf_samples := vf_samples v @ nalus\<rparr>)"
proof (induction nalus arbitrary: s v)
  case Nil
  then show ?case by (subst avc_demux_ibmf_format.simps) (simp add: avcc_bytes_def)
next
  case (Cons nalu nalus)
  let ?v = "v\<lparr>has_idr := has_idr v \<or> is_idr nalu, vf_samples := vf_samples v @ [nalu]\<rparr>"
  have rest: "buf_rest s = rev (le_bytes (unat nul + 1) (int (length nalu))) @ nalu @ avcc_bytes (unat nul + 1) nalus"
    using Cons.prems by (simp add: avcc_bytes_def)
  obtain s' where "buf_wf s'" "buf_rest s' = avcc_bytes (unat nul + 1) nalus"
    "avc_demux_ibmf_format nul s v = avc_demux_ibmf_format nul s' ?v"
    using ibmf_step [OF assms _ _ Cons.prems(2) rest, of v] Cons.prems by auto
  with Cons.IH [of s' ?v] Cons.prems show ?case by (simp add: disj_assoc)
qed

text \<open>C38. A video message with the NALUs of a frame, each behind its length in the 1, 2 or 4 bytes that
  the sequence header announced, is split into exactly these NALUs, up to the 256 that a frame can
  hold, and the frame has an IDR picture iff one of them is; the timestamps and the frame type are those of the tag.\<close>

lemma avc_tag_byte:
  assumes "ft < 16"
  shows "(push_bit 4 ft OR 7) AND 0x0f = (7 :: byte)" and "drop_bit 4 (push_bit 4 ft OR 7) AND 0x0f = (ft :: byte)"
proof -
  define k where "k = unat ft"
  have ft: "ft = word_of_nat k" by (simp add: k_def)
  have "k < 16" using assms by (simp add: k_def word_less_nat_alt)
  then have "k \<in> {0, 1, 2, 3, 4, 5, 6, 7, 8, 9, 10, 11, 12, 13, 14, 15}" by (simp add: less_Suc_eq numeral_eq_Suc) 
  then show "(push_bit 4 ft OR 7) AND 0x0f = (7 :: byte)" and "drop_bit 4 (push_bit 4 ft OR 7) AND 0x0f = (ft :: byte)"
    unfolding ft by (elim insertE emptyE; simp)+
qed

lemma sign_extend_24:
  assumes "- (2 ^ 23) \<le> i" and "i < 2 ^ 23"
  defines "w \<equiv> word_of_int (i mod 2 ^ 24) :: 32 word"
  shows "sint (if w AND 0x00800000 \<noteq> 0 then w OR 0xff000000 else w) = i"
proof -
  have b: "w AND 0x00800000 \<noteq> 0 \<longleftrightarrow> i < 0"
  proof -
    have "w AND 0x00800000 \<noteq> 0 \<longleftrightarrow> bit w 23" using and_exp_eq_0_iff_not_bit [of w 23] by simp
    also have "\<dots> \<longleftrightarrow> bit (i mod 2 ^ 24) 23" by (simp add: w_def bit_word_of_int_iff)
    also have "\<dots> \<longleftrightarrow> i < 0"
    proof (cases "i < 0")
      case True
      then have "i mod 2 ^ 24 = i + 2 ^ 24" using assms(1) mod_pos_pos_trivial [of "i + 2 ^ 24" "2 ^ 24"] by simp
      moreover have "(i + 2 ^ 24) div 2 ^ 23 = 1" using True assms by (simp add: div_pos_geq)
      ultimately show ?thesis using True by (simp add: bit_iff_odd)
    next
      case False
      then have "i mod 2 ^ 24 = i" using assms(2) by simp
      then show ?thesis using False assms(2) by (simp add: bit_iff_odd)
    qed
    finally show ?thesis .
  qed
  have s: "sint (word_of_int i :: 32 word) = i"
    using assms(1,2) by (simp add: sint_sbintrunc' signed_take_bit_int_eq_self)
  show ?thesis
  proof (cases "i < 0")
    case True
    have "w AND 0xff000000 = 0"
    proof (rule bit_eqI)
      fix n assume "possible_bit TYPE(32 word) n"
      have "w = word_of_int (take_bit 24 i)" by (simp add: w_def take_bit_eq_mod)
      then have "bit w n \<Longrightarrow> n < 24" by (simp add: bit_word_of_int_iff bit_take_bit_iff)
      moreover have "bit (0xff000000 :: 32 word) n \<Longrightarrow> 24 \<le> n"
      proof (rule ccontr)
        assume b: "bit (0xff000000 :: 32 word) n" "\<not> 24 \<le> n"
        have "(0xff000000 :: 32 word) = push_bit 24 0xff" by simp
        with b show False by (simp only: bit_push_bit_iff simp_thms)
      qed
      ultimately show "bit (w AND 0xff000000) n = bit (0 :: 32 word) n" by (auto simp: bit_and_iff)
    qed
    then have "w OR 0xff000000 = w + 0xff000000" by (simp add: disjunctive_add_eq_or)
    also have "\<dots> = word_of_int (i mod 2 ^ 24 + 0xff000000)" by (simp add: w_def)
    also have "i mod 2 ^ 24 + 0xff000000 = i + 2 ^ 32"
      using True assms(1) mod_pos_pos_trivial [of "i + 2 ^ 24" "2 ^ 24"] by simp
    also have "(word_of_int (i + 2 ^ 32) :: 32 word) = word_of_int i" by simp
    finally show ?thesis using b True s by simp
  next
    case False
    then have "i mod 2 ^ 24 = i" using assms(2) by simp
    then show ?thesis using b False s by (simp add: w_def)
  qed
qed

theorem video_samples:
  assumes "fmt_vcodec f = Some c" and "is_avc_codec_ok c" and "NAL_unit_length c \<in> {0, 1, 3}"
    and "list_all (\<lambda>nalu. nalu \<noteq> [] \<and> length nalu < nalu_limit (NAL_unit_length c)) nalus"
    and "length nalus \<le> SrsMaxNbSamples" and "ft < 16" and "- (2 ^ 23) \<le> cts" and "cts < 2 ^ 23"
  shows "\<exists>f'. SrsFormat_on_video ts ([push_bit 4 ft OR 7, 1] @ rev (le_bytes 3 cts)
                @ avcc_bytes (unat (NAL_unit_length c) + 1) nalus) f = (None, f')
     \<and> fmt_video f' = Some \<lparr>vf_dts = ts, vf_cts = cts, vf_samples = nalus, frame_type = ft, avc_packet_type = 1,
                           has_idr = list_ex is_idr nalus\<rparr>
     \<and> fmt_vcodec f' = Some (c\<lparr>vc_id := 7\<rparr>)"
proof -
  let ?c = "c\<lparr>vc_id := 7\<rparr>" and ?n = "unat (NAL_unit_length c) + 1"
  let ?bs = "rev (le_bytes 3 cts) @ avcc_bytes ?n nalus"
  let ?b0 = "SrsBuffer_new ((push_bit 4 ft OR 7) # 1 # ?bs)"
  define w where "w = (word_of_int (cts mod 2 ^ 24) :: 32 word)"
  have sx: "sint (if w AND 0x00800000 \<noteq> 0 then w OR 0xff000000 else w) = cts"
    using sign_extend_24 [OF assms(7,8)] by (simp only: w_def)
  have r0: "read_1bytes ?b0 = Inr (push_bit 4 ft OR 7, buf_adv 1 ?b0)"
    and r1: "read_1bytes (buf_adv 1 ?b0) = Inr (1, buf_adv 2 ?b0)" by (simp_all add: read_1bytes_eq)
  have r2: "read_3bytes (buf_adv 2 ?b0) = Inr (w, buf_adv 5 ?b0)"
    using take_append [of 3 "rev (le_bytes 3 cts)"] by (simp add: read_3bytes_eq le_val_le_bytes w_def)
  have rq: "SrsBuffer_require 4 (buf_adv 1 ?b0)" by (simp add: require_iff)
  have wf: "buf_wf (buf_adv 5 ?b0)" by (intro buf_wf_adv) simp_all
  have rest: "buf_rest (buf_adv 5 ?b0) = avcc_bytes ?n nalus"
    using drop_append [of 3 "rev (le_bytes 3 cts)"] by (simp add: numeral_eq_Suc)
  define v where "v = \<lparr>vf_dts = ts, vf_cts = cts, vf_samples = [], frame_type = ft, avc_packet_type = 1, has_idr = False\<rparr>"
  have ib: "avc_demux_ibmf_format (NAL_unit_length c) (buf_adv 5 ?b0) v = (None, v\<lparr>has_idr := list_ex is_idr nalus, vf_samples := nalus\<rparr>)"
    using ibmf_nalus [OF assms(3,4) wf rest, of v] assms(5) by (simp add: v_def)
  have "video_avc_demux ts c v' ?b0 g = (None, g\<lparr>fmt_video := Some (v\<lparr>has_idr := list_ex is_idr nalus, vf_samples := nalus\<rparr>),
      fmt_vcodec := Some ?c, fmt_raw := avcc_bytes ?n nalus\<rparr>)" for v' g
    using avc_tag_byte [OF assms(6)] sx assms(2) r0 r1 r2 rq rest ib
    by (cases v'; cases g) (simp add: video_avc_demux_def rd_def Let_def v_def is_avc_codec_ok_def)
  then show ?thesis using assms(1) by (simp add: SrsFormat_on_video_def v_def)
qed

theorem video_samples_witness:
  "\<exists>f'. SrsFormat_on_video 40 ([push_bit 4 1 OR 7, 1] @ rev (le_bytes 3 (- 2)) @ avcc_bytes (unat (3 :: byte) + 1) [[0x65, 1, 2], [0x41]])
       (SrsFormat_new\<lparr>fmt_vcodec := Some (SrsVideoCodecConfig_new\<lparr>NAL_unit_length := 3, sequenceParameterSetNALUnit := [0x67]\<rparr>)\<rparr>) = (None, f')
     \<and> fmt_video f' = Some \<lparr>vf_dts = 40, vf_cts = - 2, vf_samples = [[0x65, 1, 2], [0x41]], frame_type = 1, avc_packet_type = 1, has_idr = True\<rparr>"
  using video_samples [of "SrsFormat_new\<lparr>fmt_vcodec := Some (SrsVideoCodecConfig_new\<lparr>NAL_unit_length := 3, sequenceParameterSetNALUnit := [0x67]\<rparr>)\<rparr>"
      "SrsVideoCodecConfig_new\<lparr>NAL_unit_length := 3, sequenceParameterSetNALUnit := [0x67]\<rparr>" "[[0x65, 1, 2], [0x41]]" 1 "- 2" 40]
  by (auto simp: is_avc_codec_ok_def nalu_limit_def is_idr_def)

subsection \<open>The picture size and the parameter sets\<close>

text \<open>The bits of a sequence parameter set behind the level, for a profile without chroma information.\<close>

record sps_fields =
  sf_id :: nat
  sf_log2_max_frame_num :: nat
  sf_log2_max_poc :: nat
  sf_ref_frames :: nat
  sf_gaps :: bool
  sf_width_mbs :: nat
  sf_height_units :: nat
  sf_frame_mbs_only :: bool
  sf_adaptive :: bool
  sf_direct8x8 :: bool
  sf_crop :: "(nat \<times> nat \<times> nat \<times> nat) option"

definition crop_bits :: "(nat \<times> nat \<times> nat \<times> nat) option \<Rightarrow> bool list" where
  "crop_bits c = (case c of None \<Rightarrow> [False]
     | Some (l, r, t, b) \<Rightarrow> [True] @ uev_code l @ uev_code r @ uev_code t @ uev_code b @ [])"

definition size_bits :: "sps_fields \<Rightarrow> bool list" where
  "size_bits s = uev_code (sf_ref_frames s) @ [sf_gaps s] @ uev_code (sf_width_mbs s - 1) @ uev_code (sf_height_units s - 1)
     @ [sf_frame_mbs_only s] @ (if sf_frame_mbs_only s then [] else [sf_adaptive s] @ []) @ [sf_direct8x8 s] @ crop_bits (sf_crop s) @ []"

definition sps_bits :: "sps_fields \<Rightarrow> bool list" where
  "sps_bits s = uev_code (sf_id s) @ [] @ uev_code (sf_log2_max_frame_num s)
     @ (uev_code 0 @ uev_code (sf_log2_max_poc s) @ []) @ size_bits s"

text \<open>The picture size of the standard, 4:2:0: macroblocks of 16 by 16, the cropping in units of two samples.\<close>

definition crop :: "sps_fields \<Rightarrow> nat \<times> nat \<times> nat \<times> nat" where
  "crop s = (case sf_crop s of None \<Rightarrow> (0, 0, 0, 0) | Some c \<Rightarrow> c)"

definition sps_size :: "sps_fields \<Rightarrow> int \<times> int" where
  "sps_size s = (case crop s of (l, r, t, b) \<Rightarrow>
     (int (sf_width_mbs s) * 16 - 2 * int l - 2 * int r,
      (if sf_frame_mbs_only s then 1 else 2) * int (sf_height_units s) * 16 - 2 * int t - 2 * int b))"

definition sps_ok :: "sps_fields \<Rightarrow> bool" where
  "sps_ok s \<longleftrightarrow> sf_id s < 2 ^ 31 - 1 \<and> sf_log2_max_frame_num s < 2 ^ 31 - 1 \<and> sf_log2_max_poc s < 2 ^ 31 - 1
     \<and> sf_ref_frames s < 2 ^ 31 - 1 \<and> 0 < sf_width_mbs s \<and> sf_width_mbs s \<le> 2 ^ 16 \<and> 0 < sf_height_units s \<and> sf_height_units s \<le> 2 ^ 16
     \<and> (case crop s of (l, r, t, b) \<Rightarrow> l \<le> 2 ^ 16 \<and> r \<le> 2 ^ 16 \<and> t \<le> 2 ^ 16 \<and> b \<le> 2 ^ 16)"

lemma to_int32_id: "- (2 ^ 31) \<le> i \<Longrightarrow> i < 2 ^ 31 \<Longrightarrow> to_int32 i = i"
  by (simp add: to_int32_def sint_sbintrunc' signed_take_bit_int_eq_self)

lemma breads_map: "breads m v xs \<Longrightarrow> breads (bnd m (\<lambda>_. ret u)) u (xs @ [])"
  by (rule breads_bnd [OF _ breads_ret])

lemma breads_crop:
  assumes "sps_ok s"
  shows "breads sps_cropping (case crop s of (l, r, t, b) \<Rightarrow> (int l, int r, int t, int b)) (crop_bits (sf_crop s))"
proof (cases "sf_crop s")
  case None
  have "breads (bnd srs_avc_nalu_read_bit (\<lambda>flag. if flag then bnd srs_avc_nalu_read_uev (\<lambda>l.
            bnd srs_avc_nalu_read_uev (\<lambda>r. bnd srs_avc_nalu_read_uev (\<lambda>t. bnd srs_avc_nalu_read_uev (\<lambda>b. ret (l, r, t, b)))))
       else ret (0, 0, 0, 0))) (0, 0, 0, 0) ([False] @ [])"
    by (rule breads_bnd [where v = False]) (simp_all add: breads_nalu_bit breads_ret)
  then show ?thesis using None by (simp add: sps_cropping_def crop_bits_def crop_def)
next
  case (Some c)
  obtain l r t b where c: "c = (l, r, t, b)" by (cases c)
  have lim: "l < 2 ^ 31 - 1" "r < 2 ^ 31 - 1" "t < 2 ^ 31 - 1" "b < 2 ^ 31 - 1"
    using assms Some c by (auto simp: sps_ok_def crop_def)
  have "breads sps_cropping (int l, int r, int t, int b) ([True] @ uev_code l @ uev_code r @ uev_code t @ uev_code b @ [])"
    unfolding sps_cropping_def
    apply (rule breads_bnd [where v = True], rule breads_nalu_bit, simp only: if_True)
    apply (rule breads_bnd [where v = "int l"], rule breads_uev [OF lim(1)])
    apply (rule breads_bnd [where v = "int r"], rule breads_uev [OF lim(2)])
    apply (rule breads_bnd [where v = "int t"], rule breads_uev [OF lim(3)])
    apply (rule breads_bnd [where v = "int b"], rule breads_uev [OF lim(4)])
    apply (rule breads_ret)
    done
  then show ?thesis using Some c by (simp add: crop_bits_def crop_def)
qed

lemma breads_size:
  assumes ok: "sps_ok s"
  shows "breads sps_picture_size (sps_size s) (size_bits s)"
proof -
  obtain l r t b where c: "crop s = (l, r, t, b)" by (cases "crop s")
  have lim: "sf_ref_frames s < 2 ^ 31 - 1" "sf_width_mbs s - 1 < 2 ^ 31 - 1" "sf_height_units s - 1 < 2 ^ 31 - 1"
    and pos: "0 < sf_width_mbs s" "0 < sf_height_units s"
    using ok by (auto simp: sps_ok_def)
  have w: "to_int32 ((int (sf_width_mbs s - 1) + 1) * 16 - int l * 2 - int r * 2) = fst (sps_size s)"
    using ok c by (subst to_int32_id) (auto simp: sps_ok_def sps_size_def of_nat_diff)
  have h: "to_int32 ((2 - (if sf_frame_mbs_only s then 1 else 0)) * (int (sf_height_units s - 1) + 1) * 16 - int t * 2 - int b * 2)
      = snd (sps_size s)"
    using ok c by (subst to_int32_id) (auto simp: sps_ok_def sps_size_def of_nat_diff)
  have ad: "breads (if \<not> sf_frame_mbs_only s then bnd srs_avc_nalu_read_bit (\<lambda>_. ret ()) else ret ()) ()
      (if sf_frame_mbs_only s then [] else [sf_adaptive s] @ [])"
    using breads_map [OF breads_nalu_bit] breads_ret by auto
  have cr: "breads sps_cropping (int l, int r, int t, int b) (crop_bits (sf_crop s))" using breads_crop [OF ok] c by simp
  show ?thesis
    unfolding sps_picture_size_def size_bits_def
    apply (rule breads_bnd, rule breads_uev [OF lim(1)])
    apply (rule breads_bnd, rule breads_nalu_bit)
    apply (rule breads_bnd, rule breads_uev [OF lim(2)])
    apply (rule breads_bnd, rule breads_uev [OF lim(3)])
    apply (rule breads_bnd, rule breads_nalu_bit)
    apply (rule breads_bnd, rule ad)
    apply (rule breads_bnd, rule breads_nalu_bit)
    apply (rule breads_bnd, rule cr)
    apply (simp only: prod.case w h prod.collapse, rule breads_ret)
    done
qed


definition sps_640x480 :: sps_fields where
  "sps_640x480 = \<lparr>sf_id = 0, sf_log2_max_frame_num = 0, sf_log2_max_poc = 0, sf_ref_frames = 1, sf_gaps = False, sf_width_mbs = 40,
     sf_height_units = 30, sf_frame_mbs_only = True, sf_adaptive = False, sf_direct8x8 = True, sf_crop = None\<rparr>"


lemma demux_keeps: "c \<noteq> [] \<Longrightarrow> fst (snd (demux_parameter_sets n c s)) = c"
  by (induction n c s rule: demux_parameter_sets.induct) (auto simp: Let_def split: sum.splits)

lemma demux_sps_keeps:
  "sequenceParameterSetNALUnit (snd (avc_demux_sps c)) = sequenceParameterSetNALUnit c"
  "pictureParameterSetNALUnit (snd (avc_demux_sps c)) = pictureParameterSetNALUnit c"
  by (auto simp: avc_demux_sps_def rd_def Let_def split: sum.splits prod.splits)

lemma sps_pps_keeps:
  assumes "sequenceParameterSetNALUnit c \<noteq> []" and "pictureParameterSetNALUnit c \<noteq> []"
  shows "sequenceParameterSetNALUnit (snd (avc_demux_sps_pps s c)) = sequenceParameterSetNALUnit c
     \<and> pictureParameterSetNALUnit (snd (avc_demux_sps_pps s c)) = pictureParameterSetNALUnit c"
proof -
  have d: "demux_parameter_sets n p s' = (err, p', s'') \<Longrightarrow> p \<noteq> [] \<Longrightarrow> p' = p" for n p s' err p' s''
    using demux_keeps [of p n s'] by simp
  have k: "sequenceParameterSetNALUnit (snd (case avc_demux_sps v of (Some (Srs_error x), v5) \<Rightarrow> (None, v5) | r \<Rightarrow> r)) = sequenceParameterSetNALUnit v"
    "pictureParameterSetNALUnit (snd (case avc_demux_sps v of (Some (Srs_error x), v5) \<Rightarrow> (None, v5) | r \<Rightarrow> r)) = pictureParameterSetNALUnit v" for v
    using demux_sps_keeps [of v] by (auto split: prod.splits option.splits failure.splits)
  show ?thesis
    unfolding avc_demux_sps_pps_def Let_def rd_def
    using assms by (auto simp: k dest!: d split: sum.splits prod.splits if_splits)
qed

text \<open>Once a stream has a sequence and a picture parameter set, no message replaces them: a later
  sequence header (the encoder restarts with another resolution) stores its configuration record and
  its NALU length size, but keeps the old parameter sets and with them the old picture size.\<close>

theorem parameter_sets_stick:
  assumes "fmt_vcodec f = Some c" and "sequenceParameterSetNALUnit c \<noteq> []" and "pictureParameterSetNALUnit c \<noteq> []"
  shows "\<exists>c'. fmt_vcodec (snd (SrsFormat_on_video ts data f)) = Some c'
     \<and> sequenceParameterSetNALUnit c' = sequenceParameterSetNALUnit c
     \<and> pictureParameterSetNALUnit c' = pictureParameterSetNALUnit c"
proof -
  have k: "avc_demux_sps_pps s (c\<lparr>vc_id := i\<rparr>) = (err, c') \<Longrightarrow>
      sequenceParameterSetNALUnit c' = sequenceParameterSetNALUnit c \<and> pictureParameterSetNALUnit c' = pictureParameterSetNALUnit c" for s i err c'
    using sps_pps_keeps [of "c\<lparr>vc_id := i\<rparr>" s] assms(2,3) by simp
  have "\<exists>c'. fmt_vcodec (snd (video_avc_demux ts c v b (f\<lparr>fmt_vcodec := Some c, fmt_video := Some v\<rparr>))) = Some c'
     \<and> sequenceParameterSetNALUnit c' = sequenceParameterSetNALUnit c
     \<and> pictureParameterSetNALUnit c' = pictureParameterSetNALUnit c" for v b
    by (auto simp: video_avc_demux_def rd_def Let_def dest: k split: sum.splits prod.splits if_splits)
  then show ?thesis using assms(1) assms(2,3) by (cases "data = []") (simp_all add: SrsFormat_on_video_def Let_def)
qed

theorem parameter_sets_stick_witness:
  "\<exists>c'. fmt_vcodec (snd (SrsFormat_on_video 0
          [0x17, 0, 0, 0, 0, 1, 66, 0, 30, 0xff, 0xe1, 0, 2, 0x67, 9, 1, 0, 1, 0x68]
          (SrsFormat_new\<lparr>fmt_vcodec := Some (SrsVideoCodecConfig_new\<lparr>sequenceParameterSetNALUnit := [0x67, 1],
             pictureParameterSetNALUnit := [0x68, 1]\<rparr>)\<rparr>))) = Some c'
     \<and> sequenceParameterSetNALUnit c' = [0x67, 1] \<and> pictureParameterSetNALUnit c' = [0x68, 1]"
  using parameter_sets_stick [of "SrsFormat_new\<lparr>fmt_vcodec := Some (SrsVideoCodecConfig_new\<lparr>sequenceParameterSetNALUnit := [0x67, 1],
             pictureParameterSetNALUnit := [0x68, 1]\<rparr>)\<rparr>"
      "SrsVideoCodecConfig_new\<lparr>sequenceParameterSetNALUnit := [0x67, 1], pictureParameterSetNALUnit := [0x68, 1]\<rparr>" 0
      "[0x17, 0, 0, 0, 0, 1, 66, 0, 30, 0xff, 0xe1, 0, 2, 0x67, 9, 1, 0, 1, 0x68]"]
  by simp

end
