(* ===== verification/Consumer.thy ===== *)
theory Consumer
  imports Codec "HOL-Library.While_Combinator" "HOL-Library.Signed_Division"
begin

text \<open>
  \<^verbatim>\<open>src/src/app/srs_app_source.cpp\<close>, the side of one player: \<^verbatim>\<open>SrsRtmpJitter\<close> rewrites the
  timestamps of the stream, \<^verbatim>\<open>SrsMessageQueue\<close> holds the messages that the player has not got yet
  and drops them when they span too much time, \<^verbatim>\<open>SrsLiveConsumer\<close> joins the two under a lock and
  lets the sending thread wait for messages. The operations of a consumer run under its mutex, so
  that one operation is one step. A message is a value here: the queue holds copies that share an
  immutable payload.

  The times are mathematical integers: the code's are \<^verbatim>\<open>int64_t\<close> and stay far from their limits,
  since a timestamp has 32 bits on the wire and the jitter adds at most 250 to it per message.
\<close>

section \<open>Jitter\<close>

datatype SrsRtmpJitterAlgorithm =
    SrsRtmpJitterAlgorithmFULL | SrsRtmpJitterAlgorithmZERO | SrsRtmpJitterAlgorithmOFF

abbreviation (input) CONST_MAX_JITTER_MS :: int where "CONST_MAX_JITTER_MS \<equiv> 250"
abbreviation (input) CONST_MAX_JITTER_MS_NEG :: int where "CONST_MAX_JITTER_MS_NEG \<equiv> - 250"
abbreviation (input) DEFAULT_FRAME_TIME_MS :: int where "DEFAULT_FRAME_TIME_MS \<equiv> 10"

record SrsRtmpJitter =
  last_pkt_time :: int
  last_pkt_correct_time :: int

definition SrsRtmpJitter_new :: SrsRtmpJitter where
  "SrsRtmpJitter_new = \<lparr>last_pkt_time = 0, last_pkt_correct_time = - 1\<rparr>"

definition jitter_correct ::
    "SrsRtmpJitterAlgorithm \<Rightarrow> SrsSharedPtrMessage \<Rightarrow> SrsRtmpJitter \<Rightarrow> SrsSharedPtrMessage \<times> SrsRtmpJitter" where
  "jitter_correct ag msg j =
     (case ag of
        SrsRtmpJitterAlgorithmOFF \<Rightarrow> (msg, j)
      | SrsRtmpJitterAlgorithmZERO \<Rightarrow>
          let j' = (if last_pkt_correct_time j = - 1 then j\<lparr>last_pkt_correct_time := sm_timestamp msg\<rparr> else j)
          in (msg\<lparr>sm_timestamp := sm_timestamp msg - last_pkt_correct_time j'\<rparr>, j')
      | SrsRtmpJitterAlgorithmFULL \<Rightarrow>
          if \<not> sm_is_av msg then (msg\<lparr>sm_timestamp := 0\<rparr>, j)
          else let time = sm_timestamp msg;
                   delta = time - last_pkt_time j;
                   delta' = (if delta < CONST_MAX_JITTER_MS_NEG \<or> delta > CONST_MAX_JITTER_MS
                             then DEFAULT_FRAME_TIME_MS else delta);
                   correct_time = max 0 (last_pkt_correct_time j + delta')
               in (msg\<lparr>sm_timestamp := correct_time\<rparr>, \<lparr>last_pkt_time = time, last_pkt_correct_time = correct_time\<rparr>))"

definition jitter_get_time :: "SrsRtmpJitter \<Rightarrow> int" where
  "jitter_get_time j = last_pkt_correct_time j"

section \<open>The message queue\<close>

abbreviation (input) SRS_UTIME_MILLISECONDS :: int where "SRS_UTIME_MILLISECONDS \<equiv> 1000"

definition srsu2ms :: "int \<Rightarrow> int" where
  "srsu2ms us = us sdiv SRS_UTIME_MILLISECONDS"

record SrsMessageQueue =
  av_start_time :: int
  av_end_time :: int
  max_queue_size :: int
  q_msgs :: "SrsSharedPtrMessage list"

definition SrsMessageQueue_new :: SrsMessageQueue where
  "SrsMessageQueue_new = \<lparr>av_start_time = - 1, av_end_time = - 1, max_queue_size = 0, q_msgs = []\<rparr>"

definition queue_size :: "SrsMessageQueue \<Rightarrow> int" where
  "queue_size q = int (length (q_msgs q))"

definition queue_duration :: "SrsMessageQueue \<Rightarrow> int" where
  "queue_duration q = av_end_time q - av_start_time q"

definition set_queue_size :: "int \<Rightarrow> SrsMessageQueue \<Rightarrow> SrsMessageQueue" where
  "set_queue_size n q = q\<lparr>max_queue_size := n\<rparr>"

text \<open>The loop of \<^verbatim>\<open>shrink\<close>: the last video and audio sequence header of the queue.\<close>

definition is_video_sh :: "SrsSharedPtrMessage \<Rightarrow> bool" where
  "is_video_sh msg \<longleftrightarrow> sm_is_video msg \<and> SrsFlvVideo_sh (sm_payload msg)"

definition is_audio_sh :: "SrsSharedPtrMessage \<Rightarrow> bool" where
  "is_audio_sh msg \<longleftrightarrow> sm_is_audio msg \<and> SrsFlvAudio_sh (sm_payload msg)"

fun mark_sequence_headers ::
    "SrsSharedPtrMessage option \<Rightarrow> SrsSharedPtrMessage option \<Rightarrow> SrsSharedPtrMessage list
     \<Rightarrow> SrsSharedPtrMessage option \<times> SrsSharedPtrMessage option" where
  "mark_sequence_headers video_sh audio_sh [] = (video_sh, audio_sh)"
| "mark_sequence_headers video_sh audio_sh (msg # msgs) =
     (if is_video_sh msg then mark_sequence_headers (Some msg) audio_sh msgs
      else if is_audio_sh msg then mark_sequence_headers video_sh (Some msg) msgs
      else mark_sequence_headers video_sh audio_sh msgs)"

definition restamped :: "int \<Rightarrow> SrsSharedPtrMessage option \<Rightarrow> SrsSharedPtrMessage list" where
  "restamped t sh = (case sh of None \<Rightarrow> [] | Some msg \<Rightarrow> [msg\<lparr>sm_timestamp := t\<rparr>])"

definition shrink :: "SrsMessageQueue \<Rightarrow> SrsMessageQueue" where
  "shrink q =
     (let (video_sh, audio_sh) = mark_sequence_headers None None (q_msgs q);
          t = srsu2ms (av_end_time q)
      in q\<lparr>av_start_time := av_end_time q, q_msgs := restamped t video_sh @ restamped t audio_sh\<rparr>)"

definition queue_push :: "SrsSharedPtrMessage \<Rightarrow> SrsMessageQueue \<Rightarrow> SrsMessageQueue" where
  "queue_push msg q =
     (let q1 = q\<lparr>q_msgs := q_msgs q @ [msg]\<rparr>; t = sm_timestamp msg * SRS_UTIME_MILLISECONDS in
      if sm_is_av msg \<and> sm_timestamp msg \<noteq> 0
      then q1\<lparr>av_start_time := (if av_start_time q1 = - 1 then t else av_start_time q1), av_end_time := t\<rparr>
      else q1)"

text \<open>
  The queue and whether it overflowed. The loop is a \<^const>\<open>while\<close>; \<open>shrink_loop_ends\<close> shows that it
  ends, after one round at most, for every queue that has a limit.
\<close>

definition queue_enqueue :: "SrsSharedPtrMessage \<Rightarrow> SrsMessageQueue \<Rightarrow> SrsMessageQueue \<times> bool" where
  "queue_enqueue msg q =
     (let q1 = queue_push msg q in
      if max_queue_size q1 \<le> 0 then (q1, False)
      else while (\<lambda>(q, _). av_end_time q - av_start_time q > max_queue_size q) (\<lambda>(q, _). (shrink q, True)) (q1, False))"

definition queue_dump_packets :: "int \<Rightarrow> SrsMessageQueue \<Rightarrow> (SrsSharedPtrMessage list \<times> SrsMessageQueue) result" where
  "queue_dump_packets max_count q =
     (if q_msgs q = [] then Inr ([], q)
      else if \<not> max_count > 0 then Inl Srs_abort
      else let n = nat (min max_count (queue_size q));
               msgs = take n (q_msgs q)
           in Inr (msgs, q\<lparr>av_start_time := sm_timestamp (last msgs) * SRS_UTIME_MILLISECONDS,
                           q_msgs := drop n (q_msgs q)\<rparr>))"

definition queue_clear :: "SrsMessageQueue \<Rightarrow> SrsMessageQueue" where
  "queue_clear q = q\<lparr>q_msgs := [], av_start_time := - 1, av_end_time := - 1\<rparr>"

section \<open>The consumer\<close>

record SrsLiveConsumer =
  c_jitter :: SrsRtmpJitter
  c_queue :: SrsMessageQueue
  should_update_source_id :: bool
  mw_waiting :: bool
  mw_min_msgs :: int
  mw_duration :: int

definition SrsLiveConsumer_new :: SrsLiveConsumer where
  "SrsLiveConsumer_new = \<lparr>c_jitter = SrsRtmpJitter_new, c_queue = SrsMessageQueue_new,
     should_update_source_id = False, mw_waiting = False, mw_min_msgs = 0, mw_duration = 0\<rparr>"

definition consumer_set_queue_size :: "int \<Rightarrow> SrsLiveConsumer \<Rightarrow> SrsLiveConsumer" where
  "consumer_set_queue_size n c = c\<lparr>c_queue := set_queue_size n (c_queue c)\<rparr>"

definition update_source_id :: "SrsLiveConsumer \<Rightarrow> SrsLiveConsumer" where
  "update_source_id c = c\<lparr>should_update_source_id := True\<rparr>"

definition consumer_get_time :: "SrsLiveConsumer \<Rightarrow> int" where
  "consumer_get_time c = jitter_get_time (c_jitter c)"

text \<open>Whether there is enough to send: the test of both \<^verbatim>\<open>enqueue\<close> and \<^verbatim>\<open>wait\<close>.\<close>

definition mw_ready :: "SrsLiveConsumer \<Rightarrow> bool" where
  "mw_ready c \<longleftrightarrow> queue_size (c_queue c) > mw_min_msgs c \<and> queue_duration (c_queue c) > mw_duration c"

text \<open>
  The consumer and whether the waiting thread is notified. Neither \<^verbatim>\<open>correct\<close> nor the queue has a
  path that returns an error, so the consumer has none either.
\<close>

definition notify :: "SrsLiveConsumer \<Rightarrow> SrsLiveConsumer \<times> bool" where
  "notify c = (if mw_waiting c \<and> mw_ready c then (c\<lparr>mw_waiting := False\<rparr>, True) else (c, False))"

definition consumer_enqueue_notify ::
    "SrsRtmpJitterAlgorithm \<Rightarrow> SrsSharedPtrMessage \<Rightarrow> SrsLiveConsumer \<Rightarrow> SrsLiveConsumer \<times> bool" where
  "consumer_enqueue_notify ag msg c =
     (let (msg', j) = jitter_correct ag msg (c_jitter c);
          (q, _) = queue_enqueue msg' (c_queue c)
      in notify (c\<lparr>c_jitter := j, c_queue := q\<rparr>))"

definition consumer_enqueue :: "SrsRtmpJitterAlgorithm \<Rightarrow> SrsSharedPtrMessage \<Rightarrow> SrsLiveConsumer \<Rightarrow> SrsLiveConsumer" where
  "consumer_enqueue ag msg c = fst (consumer_enqueue_notify ag msg c)"

definition queue_dump_to :: "SrsRtmpJitterAlgorithm \<Rightarrow> SrsMessageQueue \<Rightarrow> SrsLiveConsumer \<Rightarrow> SrsLiveConsumer" where
  "queue_dump_to ag q c = fold (consumer_enqueue ag) (q_msgs q) c"

text \<open>\<open>amax\<close> is the capacity of the array of the caller, \<open>count\<close> its request, 0 for all.\<close>

definition consumer_dump_packets :: "int \<Rightarrow> int \<Rightarrow> SrsLiveConsumer \<Rightarrow> (SrsSharedPtrMessage list \<times> SrsLiveConsumer) result" where
  "consumer_dump_packets amax count c =
     (if \<not> count \<ge> 0 \<or> \<not> amax > 0 then Inl Srs_abort
      else case queue_dump_packets (if count \<noteq> 0 then min count amax else amax) (c_queue c) of
             Inl e \<Rightarrow> Inl e
           | Inr (msgs, q) \<Rightarrow> Inr (msgs, c\<lparr>c_queue := q, should_update_source_id := False\<rparr>))"

text \<open>
  \<^verbatim>\<open>wait\<close> has two steps: it returns at once (\<open>False\<close>) or releases the lock and sleeps (\<open>True\<close>) until it
  is notified or 100ms have passed; then it goes on with the lock.
\<close>

definition consumer_wait_begin :: "int \<Rightarrow> int \<Rightarrow> SrsLiveConsumer \<Rightarrow> SrsLiveConsumer \<times> bool" where
  "consumer_wait_begin nb_msgs msgs_duration c =
     (let c1 = c\<lparr>mw_min_msgs := nb_msgs, mw_duration := msgs_duration\<rparr> in
      if mw_ready c1 then (c1, False) else (c1\<lparr>mw_waiting := True\<rparr>, True))"

definition consumer_wait_end :: "SrsLiveConsumer \<Rightarrow> SrsLiveConsumer" where
  "consumer_wait_end c = c\<lparr>mw_waiting := False\<rparr>"

section \<open>The queue\<close>

abbreviation (input) overflowing :: "SrsMessageQueue \<times> bool \<Rightarrow> bool" where
  "overflowing \<equiv> \<lambda>(q, _). av_end_time q - av_start_time q > max_queue_size q"

abbreviation (input) shrink_round :: "SrsMessageQueue \<times> bool \<Rightarrow> SrsMessageQueue \<times> bool" where
  "shrink_round \<equiv> \<lambda>(q, _). (shrink q, True)"

lemma shrink_fields [simp]:
  "av_start_time (shrink q) = av_end_time q" "av_end_time (shrink q) = av_end_time q"
  "max_queue_size (shrink q) = max_queue_size q"
  by (simp_all add: shrink_def Let_def split: prod.splits)

lemma shrink_loop_ends:
  assumes "0 < max_queue_size q"
  shows "while_option overflowing shrink_round (q, b) =
     Some (if queue_duration q > max_queue_size q then (shrink q, True) else (q, b))"
  using assms by (simp add: while_option_unfold [of _ _ "(q, b)"] while_option_unfold [of _ _ "(shrink q, True)"] queue_duration_def)

lemma push_max [simp]: "max_queue_size (queue_push msg q) = max_queue_size q"
  by (simp add: queue_push_def Let_def)

lemma push_msgs [simp]: "q_msgs (queue_push msg q) = q_msgs q @ [msg]"
  by (simp add: queue_push_def Let_def)

lemma enqueue_eq:
  "queue_enqueue msg q =
     (if 0 < max_queue_size q \<and> queue_duration (queue_push msg q) > max_queue_size q
      then (shrink (queue_push msg q), True) else (queue_push msg q, False))"
  by (simp add: queue_enqueue_def Let_def while_def shrink_loop_ends)

text \<open>The last message with a property, as a list of at most one.\<close>

definition last_of :: "('a \<Rightarrow> bool) \<Rightarrow> 'a list \<Rightarrow> 'a list" where
  "last_of P xs = (if filter P xs = [] then [] else [last (filter P xs)])"

lemma sh_disjoint: "is_video_sh m \<Longrightarrow> \<not> is_audio_sh m"
  by (simp add: is_video_sh_def is_audio_sh_def sm_is_video_def sm_is_audio_def)

lemma mark_last:
  "mark_sequence_headers v a ms =
     (if filter is_video_sh ms = [] then v else Some (last (filter is_video_sh ms)),
      if filter is_audio_sh ms = [] then a else Some (last (filter is_audio_sh ms)))"
  by (induction v a ms rule: mark_sequence_headers.induct) (auto simp: sh_disjoint)

lemma shrink_eq:
  "shrink q = q\<lparr>av_start_time := av_end_time q, q_msgs := map (sm_timestamp_update (\<lambda>_. srsu2ms (av_end_time q)))
     (last_of is_video_sh (q_msgs q) @ last_of is_audio_sh (q_msgs q))\<rparr>"
  by (simp add: shrink_def mark_last restamped_def last_of_def Let_def)

text \<open>C35. The queue of a player spans no more than its limit: with a limit, the loop of \<^verbatim>\<open>enqueue\<close> ends, and
  the message is appended when the queue then still spans at most the limit; otherwise everything is
  dropped but the last video and the last audio sequence header, in this order and with the time of
  the end of the queue, and the caller is told.\<close>

theorem queue_overflow:
  assumes "0 < max_queue_size q"
  shows "while_option overflowing shrink_round (queue_push msg q, False) = Some (queue_enqueue msg q)
     \<and> queue_enqueue msg q =
       (let q1 = queue_push msg q; t = srsu2ms (av_end_time q1) in
        if queue_duration q1 \<le> max_queue_size q then (q1, False)
        else (q1\<lparr>av_start_time := av_end_time q1,
                 q_msgs := map (sm_timestamp_update (\<lambda>_. t))
                   (last_of is_video_sh (q_msgs q @ [msg]) @ last_of is_audio_sh (q_msgs q @ [msg]))\<rparr>, True))
     \<and> queue_duration (fst (queue_enqueue msg q)) \<le> max_queue_size q"
proof (intro conjI)
  let ?q1 = "queue_push msg q"
  show "while_option overflowing shrink_round (?q1, False) = Some (queue_enqueue msg q)"
    using shrink_loop_ends [of ?q1 False] assms by (auto simp: enqueue_eq)
  show "queue_enqueue msg q =
       (let q1 = queue_push msg q; t = srsu2ms (av_end_time q1) in
        if queue_duration q1 \<le> max_queue_size q then (q1, False)
        else (q1\<lparr>av_start_time := av_end_time q1,
                 q_msgs := map (sm_timestamp_update (\<lambda>_. t))
                   (last_of is_video_sh (q_msgs q @ [msg]) @ last_of is_audio_sh (q_msgs q @ [msg]))\<rparr>, True))"
    using assms by (simp add: enqueue_eq shrink_eq Let_def not_less)
  show "queue_duration (fst (queue_enqueue msg q)) \<le> max_queue_size q"
    using assms by (simp add: enqueue_eq) (simp add: queue_duration_def)
qed

definition ex_msg :: "byte \<Rightarrow> int \<Rightarrow> byte list \<Rightarrow> SrsSharedPtrMessage" where
  "ex_msg t ts payload = \<lparr>sm_timestamp = ts, sm_stream_id = 1, sm_payload_length = int (length payload),
     sm_message_type = t, sm_prefer_cid = 6, sm_payload = payload\<rparr>"

theorem queue_overflow_witness:
  "map sm_timestamp (q_msgs (fst (queue_enqueue (ex_msg 9 60 [0x27, 1])
     \<lparr>av_start_time = 10000, av_end_time = 10000, max_queue_size = 30000,
      q_msgs = [ex_msg 9 10 [0x17, 0], ex_msg 9 10 [0x17, 1]]\<rparr>))) = [60]"
  using queue_overflow [of "\<lparr>av_start_time = 10000, av_end_time = 10000, max_queue_size = 30000,
      q_msgs = [ex_msg 9 10 [0x17, 0], ex_msg 9 10 [0x17, 1]]\<rparr>" "ex_msg 9 60 [0x27, 1]"]
  by (simp add: queue_push_def queue_duration_def ex_msg_def sm_is_av_def last_of_def is_video_sh_def is_audio_sh_def
      sm_is_video_def sm_is_audio_def SrsFlvVideo_sh_def SrsFlvVideo_h264_def srsu2ms_def signed_divide_int_def)

section \<open>Waiting for messages\<close>

text \<open>
  The consumer and the thread of its player: it runs, sleeps in \<^verbatim>\<open>wait\<close>, or was notified and not yet
  resumed. The publisher can enqueue at any moment, the player's own calls happen while it runs; a
  sleeping thread resumes when it is notified, after the timeout, or for no reason.
\<close>

datatype player = Running | Sleeping | Notified

inductive consumer_step :: "SrsLiveConsumer \<times> player \<Rightarrow> SrsLiveConsumer \<times> player \<Rightarrow> bool" where
  enqueue: "consumer_enqueue_notify ag msg c = (c', n) \<Longrightarrow>
     consumer_step (c, p) (c', if n \<and> p = Sleeping then Notified else p)"
| source_id: "consumer_step (c, p) (update_source_id c, p)"
| dump: "consumer_dump_packets amax count c = Inr (msgs, c') \<Longrightarrow> consumer_step (c, Running) (c', Running)"
| limit: "consumer_step (c, Running) (consumer_set_queue_size n c, Running)"
| wait: "consumer_wait_begin nb dur c = (c', sleep) \<Longrightarrow> consumer_step (c, Running) (c', if sleep then Sleeping else Running)"
| resume: "p \<noteq> Running \<Longrightarrow> consumer_step (c, p) (consumer_wait_end c, Running)"

inductive_cases consumer_stepE: "consumer_step s s'"

inductive consumer_reachable :: "SrsLiveConsumer \<times> player \<Rightarrow> bool" where
  new: "consumer_reachable (SrsLiveConsumer_new, Running)"
| step: "consumer_reachable s \<Longrightarrow> consumer_step s s' \<Longrightarrow> consumer_reachable s'"

fun wait_inv :: "SrsLiveConsumer \<times> player \<Rightarrow> bool" where
  "wait_inv (c, Sleeping) \<longleftrightarrow> mw_waiting c \<and> \<not> mw_ready c"
| "wait_inv (c, _) \<longleftrightarrow> \<not> mw_waiting c"

lemma enqueue_notify_cases:
  assumes "consumer_enqueue_notify ag msg c = (c', n)"
  shows "n \<longleftrightarrow> mw_waiting c \<and> mw_ready c'" "mw_waiting c' \<longleftrightarrow> mw_waiting c \<and> \<not> n"
proof -
  obtain m j where j: "jitter_correct ag msg (c_jitter c) = (m, j)" by fastforce
  obtain q b where q: "queue_enqueue m (c_queue c) = (q, b)" by fastforce
  show "n \<longleftrightarrow> mw_waiting c \<and> mw_ready c'" "mw_waiting c' \<longleftrightarrow> mw_waiting c \<and> \<not> n"
    using assms by (auto simp: consumer_enqueue_notify_def j q notify_def mw_ready_def split: if_splits)
qed

lemma wait_inv_step: "consumer_step s s' \<Longrightarrow> wait_inv s \<Longrightarrow> wait_inv s'"
proof (induction rule: consumer_step.induct)
  case (enqueue ag msg c c' n p)
  then show ?case using enqueue_notify_cases [OF enqueue(1)] by (cases p) auto
next
  case (source_id c p)
  then show ?case by (cases p) (auto simp: update_source_id_def mw_ready_def)
next
  case (dump amax count c msgs c')
  then show ?case by (auto simp: consumer_dump_packets_def split: if_splits sum.splits)
qed (auto simp: consumer_set_queue_size_def consumer_wait_begin_def consumer_wait_end_def mw_ready_def Let_def split: if_splits)

text \<open>C33. No wake-up is lost: in every state that the publisher and the player can reach by any
  interleaving, the player sleeps only while there is not enough to send, and the message that makes
  it enough notifies it.\<close>

theorem no_lost_wakeup:
  assumes "consumer_reachable (c, p)"
  shows "(p = Sleeping \<longrightarrow> mw_waiting c \<and> \<not> mw_ready c)
     \<and> (p = Sleeping \<longrightarrow> mw_ready (fst (consumer_enqueue_notify ag msg c)) \<longrightarrow> snd (consumer_enqueue_notify ag msg c))"
proof -
  have inv: "consumer_reachable s \<Longrightarrow> wait_inv s" for s
    by (induction rule: consumer_reachable.induct) (auto simp: SrsLiveConsumer_new_def intro: wait_inv_step)
  obtain c' n where e: "consumer_enqueue_notify ag msg c = (c', n)" by fastforce
  show ?thesis using inv [OF assms] enqueue_notify_cases [OF e] e by (cases p) auto
qed

theorem no_lost_wakeup_witness:
  "consumer_reachable (SrsLiveConsumer_new\<lparr>mw_waiting := True\<rparr>, Sleeping) \<and> \<not> mw_ready (SrsLiveConsumer_new\<lparr>mw_waiting := True\<rparr>)"
proof -
  have w: "consumer_wait_begin 0 0 SrsLiveConsumer_new = (SrsLiveConsumer_new\<lparr>mw_waiting := True\<rparr>, True)"
    by (simp add: consumer_wait_begin_def mw_ready_def SrsLiveConsumer_new_def queue_size_def SrsMessageQueue_new_def)
  have r: "consumer_reachable (SrsLiveConsumer_new\<lparr>mw_waiting := True\<rparr>, Sleeping)"
    using consumer_reachable.step [OF consumer_reachable.new consumer_step.wait [OF w]] by simp
  with no_lost_wakeup [OF r] show ?thesis by blast
qed

section \<open>Jitter\<close>

fun jitter_all :: "SrsRtmpJitterAlgorithm \<Rightarrow> SrsSharedPtrMessage list \<Rightarrow> SrsRtmpJitter \<Rightarrow> SrsSharedPtrMessage list" where
  "jitter_all ag [] j = []"
| "jitter_all ag (msg # msgs) j = (case jitter_correct ag msg j of (msg', j') \<Rightarrow> msg' # jitter_all ag msgs j')"

text \<open>The steps of the input that FULL makes monotonic: forward, or back by more than 250ms.\<close>

fun clean_steps :: "int \<Rightarrow> int list \<Rightarrow> bool" where
  "clean_steps t [] \<longleftrightarrow> True"
| "clean_steps t (u # us) \<longleftrightarrow> (t \<le> u \<or> u < t - 250) \<and> clean_steps u us"

text \<open>\<open>smooth t us\<close>: from \<open>t\<close> on the times never go back and never jump by more than 250ms.\<close>

fun smooth :: "int \<Rightarrow> int list \<Rightarrow> bool" where
  "smooth t [] \<longleftrightarrow> True"
| "smooth t (u # us) \<longleftrightarrow> t \<le> u \<and> u \<le> t + 250 \<and> smooth u us"

lemma full_step:
  assumes "sm_is_av m"
  shows "\<exists>t. jitter_correct SrsRtmpJitterAlgorithmFULL m j = (m\<lparr>sm_timestamp := t\<rparr>, \<lparr>last_pkt_time = sm_timestamp m, last_pkt_correct_time = t\<rparr>)
     \<and> 0 \<le> t \<and> t \<le> max 0 (last_pkt_correct_time j + 250)
     \<and> (last_pkt_time j \<le> sm_timestamp m \<or> sm_timestamp m < last_pkt_time j - 250 \<longrightarrow> last_pkt_correct_time j \<le> t)"
  using assms by (simp add: jitter_correct_def Let_def) linarith

lemma full_smooth:
  "list_all sm_is_av ms \<Longrightarrow> clean_steps (last_pkt_time j) (map sm_timestamp ms) \<Longrightarrow> - 1 \<le> last_pkt_correct_time j \<Longrightarrow>
     smooth (last_pkt_correct_time j) (map sm_timestamp (jitter_all SrsRtmpJitterAlgorithmFULL ms j))"
proof (induction ms arbitrary: j)
  case (Cons m ms)
  then obtain t where t: "jitter_correct SrsRtmpJitterAlgorithmFULL m j =
      (m\<lparr>sm_timestamp := t\<rparr>, \<lparr>last_pkt_time = sm_timestamp m, last_pkt_correct_time = t\<rparr>)"
      "0 \<le> t" "t \<le> max 0 (last_pkt_correct_time j + 250)"
      "last_pkt_time j \<le> sm_timestamp m \<or> sm_timestamp m < last_pkt_time j - 250 \<longrightarrow> last_pkt_correct_time j \<le> t"
    using full_step [of m j] by auto
  from Cons.IH [of "\<lparr>last_pkt_time = sm_timestamp m, last_pkt_correct_time = t\<rparr>"] Cons.prems t show ?case by auto
qed simp

text \<open>The full jitter correction gives every player a smooth time line: it starts within 250ms of zero,
  never goes back and never jumps by more than 250ms, whatever the absolute times and the jumps of
  the publisher are, as long as the publisher does not step back by 250ms or less. Such a step is
  passed on, so that the time line is then not monotonic.\<close>

theorem jitter_full_smooth:
  "(list_all sm_is_av ms \<longrightarrow> clean_steps 0 (map sm_timestamp ms) \<longrightarrow>
      smooth (- 1) (map sm_timestamp (jitter_all SrsRtmpJitterAlgorithmFULL ms SrsRtmpJitter_new)))
   \<and> map sm_timestamp (jitter_all SrsRtmpJitterAlgorithmFULL [ex_msg 9 100 [], ex_msg 9 60 []] SrsRtmpJitter_new) = [99, 59]"
  using full_smooth [of ms SrsRtmpJitter_new]
  by (simp add: SrsRtmpJitter_new_def jitter_correct_def ex_msg_def sm_is_av_def)

theorem jitter_full_smooth_witness:
  "smooth (- 1) (map sm_timestamp (jitter_all SrsRtmpJitterAlgorithmFULL [ex_msg 9 5000 [], ex_msg 8 5040 [], ex_msg 9 10 []] SrsRtmpJitter_new))"
  using jitter_full_smooth [of "[ex_msg 9 5000 [], ex_msg 8 5040 [], ex_msg 9 10 []]"]
  by (simp add: ex_msg_def sm_is_av_def)

section \<open>The consumer is a queue\<close>

datatype consumer_call = Enqueue SrsSharedPtrMessage | Dump int int

fun enqueued :: "consumer_call list \<Rightarrow> SrsSharedPtrMessage list" where
  "enqueued [] = []"
| "enqueued (Enqueue m # cs) = m # enqueued cs"
| "enqueued (Dump _ _ # cs) = enqueued cs"

text \<open>The messages that the dumps deliver and the consumer after the calls; \<open>None\<close> when a message made the queue overflow.\<close>

fun run_consumer :: "SrsRtmpJitterAlgorithm \<Rightarrow> consumer_call list \<Rightarrow> SrsLiveConsumer
    \<Rightarrow> (SrsSharedPtrMessage list \<times> SrsLiveConsumer) option result" where
  "run_consumer ag [] c = Inr (Some ([], c))"
| "run_consumer ag (Enqueue m # cs) c =
     (if snd (queue_enqueue (fst (jitter_correct ag m (c_jitter c))) (c_queue c)) then Inr None
      else run_consumer ag cs (consumer_enqueue ag m c))"
| "run_consumer ag (Dump amax n # cs) c =
     (case consumer_dump_packets amax n c of
        Inl e \<Rightarrow> Inl e
      | Inr (out, c') \<Rightarrow>
          (case run_consumer ag cs c' of
             Inr (Some (outs, c'')) \<Rightarrow> Inr (Some (out @ outs, c''))
           | r \<Rightarrow> r))"

lemma enqueue_consumer:
  assumes "jitter_correct ag m (c_jitter c) = (m', j)" and "\<not> snd (queue_enqueue m' (c_queue c))"
  shows "c_jitter (consumer_enqueue ag m c) = j" "q_msgs (c_queue (consumer_enqueue ag m c)) = q_msgs (c_queue c) @ [m']"
  using assms by (auto simp: consumer_enqueue_def consumer_enqueue_notify_def enqueue_eq notify_def split: if_splits)

lemma dump_consumer:
  assumes "consumer_dump_packets amax n c = Inr (out, c')"
  shows "c_jitter c' = c_jitter c" "out @ q_msgs (c_queue c') = q_msgs (c_queue c)"
  using assms by (auto simp: consumer_dump_packets_def queue_dump_packets_def Let_def split: if_splits sum.splits)

text \<open>C34. A consumer is a first-in first-out queue: over any interleaving of messages of the publisher and
  dumps of the player, as long as the queue does not overflow, the messages that were delivered,
  followed by those that are still queued, are the messages that were there at first, followed by
  the messages of the publisher with their corrected timestamps: none is lost, doubled or reordered.\<close>

theorem consumer_fifo:
  "run_consumer ag cs c = Inr (Some (outs, c')) \<Longrightarrow>
     outs @ q_msgs (c_queue c') = q_msgs (c_queue c) @ jitter_all ag (enqueued cs) (c_jitter c)"
proof (induction ag cs c arbitrary: outs rule: run_consumer.induct)
  case (2 ag m cs c)
  obtain m' j where j: "jitter_correct ag m (c_jitter c) = (m', j)" by fastforce
  have no: "\<not> snd (queue_enqueue m' (c_queue c))" using 2(2) j by (simp split: if_splits)
  note e = enqueue_consumer [OF j no]
  show ?case using 2 j no e by (simp split: if_splits)
next
  case (3 ag amax n cs c)
  from 3(2) obtain out c1 outs' where d: "consumer_dump_packets amax n c = Inr (out, c1)"
      "run_consumer ag cs c1 = Inr (Some (outs', c'))" "outs = out @ outs'"
    by (auto split: sum.splits option.splits)
  note k = dump_consumer [OF d(1)]
  show ?case using 3(1) [OF d(1) refl d(2)] d(3) k by (metis append.assoc enqueued.simps(3))
qed simp

theorem consumer_fifo_witness:
  "\<exists>outs c'. run_consumer SrsRtmpJitterAlgorithmFULL [Enqueue (ex_msg 9 10 []), Enqueue (ex_msg 8 20 []), Dump 128 1] SrsLiveConsumer_new
       = Inr (Some (outs, c')) \<and> map sm_timestamp (outs @ q_msgs (c_queue c')) = [9, 19]"
proof -
  let ?cs = "[Enqueue (ex_msg 9 10 []), Enqueue (ex_msg 8 20 []), Dump 128 1]" and ?ag = SrsRtmpJitterAlgorithmFULL
  have "case run_consumer ?ag ?cs SrsLiveConsumer_new of Inr (Some _) \<Rightarrow> True | _ \<Rightarrow> False" by code_simp
  then obtain outs c' where r: "run_consumer ?ag ?cs SrsLiveConsumer_new = Inr (Some (outs, c'))"
    by (auto split: sum.splits option.splits)
  have "map sm_timestamp (q_msgs (c_queue SrsLiveConsumer_new) @ jitter_all ?ag (enqueued ?cs) (c_jitter SrsLiveConsumer_new)) = [9, 19]"
    by code_simp
  then have "map sm_timestamp (outs @ q_msgs (c_queue c')) = [9, 19]" by (simp only: consumer_fifo [OF r])
  with r show ?thesis by (intro exI conjI)
qed

end
