(* ===== verification/Packet.thy ===== *)
theory Packet
  imports Amf0 Message
begin

text \<open>
  The RTMP packets of \<^verbatim>\<open>src/src/protocol/srs_protocol_rtmp_stack.cpp\<close>: the classes below
  \<^verbatim>\<open>SrsPacket\<close> with their \<^verbatim>\<open>decode\<close>, \<^verbatim>\<open>get_size\<close> and \<^verbatim>\<open>encode_packet\<close>, and \<^verbatim>\<open>SrsPacket::encode\<close>
  and \<^verbatim>\<open>to_msg\<close>. The constructors of the datatype carry the fields of the classes in their order;
  a \<^verbatim>\<open>command_object\<close> or \<^verbatim>\<open>args\<close> that is always the AMF0 null or undefined value is left out.
  The decoders start from the field values of a newly made packet, as the protocol stack does.
\<close>

section \<open>Numbers the packets compare with\<close>

text \<open>
  Comparing doubles for equality: the patterns are equal and not NaN, or both are a zero.
\<close>

definition double_is_nan :: "double \<Rightarrow> bool" where
  "double_is_nan d \<longleftrightarrow> (d AND 0x7FF0000000000000) = 0x7FF0000000000000 \<and> (d AND 0x000FFFFFFFFFFFFF) \<noteq> 0"

definition double_is_zero :: "double \<Rightarrow> bool" where
  "double_is_zero d \<longleftrightarrow> (d AND 0x7FFFFFFFFFFFFFFF) = 0"

definition double_eq :: "double \<Rightarrow> double \<Rightarrow> bool" where
  "double_eq a b \<longleftrightarrow>
     \<not> double_is_nan a \<and> \<not> double_is_nan b \<and> (a = b \<or> double_is_zero a \<and> double_is_zero b)"

abbreviation (input) double_0 :: double where "double_0 \<equiv> 0"
abbreviation (input) double_1 :: double where "double_1 \<equiv> 0x3FF0000000000000"
abbreviation (input) double_2 :: double where "double_2 \<equiv> 0x4000000000000000"
abbreviation (input) double_3 :: double where "double_3 \<equiv> 0x4008000000000000"
abbreviation (input) double_minus_1 :: double where "double_minus_1 \<equiv> 0xBFF0000000000000"
abbreviation (input) double_minus_2 :: double where "double_minus_2 \<equiv> 0xC000000000000000"

section \<open>Packets\<close>

abbreviation (input) RTMP_AMF0_COMMAND_CONNECT :: string where "RTMP_AMF0_COMMAND_CONNECT \<equiv> ''connect''"
abbreviation (input) RTMP_AMF0_COMMAND_CREATE_STREAM :: string where "RTMP_AMF0_COMMAND_CREATE_STREAM \<equiv> ''createStream''"
abbreviation (input) RTMP_AMF0_COMMAND_PLAY :: string where "RTMP_AMF0_COMMAND_PLAY \<equiv> ''play''"
abbreviation (input) RTMP_AMF0_COMMAND_ON_STATUS :: string where "RTMP_AMF0_COMMAND_ON_STATUS \<equiv> ''onStatus''"
abbreviation (input) RTMP_AMF0_COMMAND_RESULT :: string where "RTMP_AMF0_COMMAND_RESULT \<equiv> ''_result''"
abbreviation (input) RTMP_AMF0_COMMAND_ERROR :: string where "RTMP_AMF0_COMMAND_ERROR \<equiv> ''_error''"
abbreviation (input) RTMP_AMF0_COMMAND_RELEASE_STREAM :: string where "RTMP_AMF0_COMMAND_RELEASE_STREAM \<equiv> ''releaseStream''"
abbreviation (input) RTMP_AMF0_COMMAND_FC_PUBLISH :: string where "RTMP_AMF0_COMMAND_FC_PUBLISH \<equiv> ''FCPublish''"
abbreviation (input) RTMP_AMF0_COMMAND_UNPUBLISH :: string where "RTMP_AMF0_COMMAND_UNPUBLISH \<equiv> ''FCUnpublish''"
abbreviation (input) RTMP_AMF0_COMMAND_PUBLISH :: string where "RTMP_AMF0_COMMAND_PUBLISH \<equiv> ''publish''"
abbreviation (input) RTMP_AMF0_DATA_SAMPLE_ACCESS :: string where "RTMP_AMF0_DATA_SAMPLE_ACCESS \<equiv> ''|RtmpSampleAccess''"
abbreviation (input) SRS_CONSTS_RTMP_SET_DATAFRAME :: string where "SRS_CONSTS_RTMP_SET_DATAFRAME \<equiv> ''@setDataFrame''"
abbreviation (input) SRS_CONSTS_RTMP_ON_METADATA :: string where "SRS_CONSTS_RTMP_ON_METADATA \<equiv> ''onMetaData''"

abbreviation (input) SrcPCUCStreamBegin :: "16 word" where "SrcPCUCStreamBegin \<equiv> 0x00"
abbreviation (input) SrcPCUCSetBufferLength :: "16 word" where "SrcPCUCSetBufferLength \<equiv> 0x03"
abbreviation (input) SrcPCUCPingRequest :: "16 word" where "SrcPCUCPingRequest \<equiv> 0x06"
abbreviation (input) SrcPCUCPingResponse :: "16 word" where "SrcPCUCPingResponse \<equiv> 0x07"
abbreviation (input) SrsPCUCFmsEvent0 :: "16 word" where "SrsPCUCFmsEvent0 \<equiv> 0x1a"

datatype (plugins only: code size) SrsPacket =
    SrsPacketBase
  | SrsConnectAppPacket string double SrsUnSortedHashtable "SrsUnSortedHashtable option"
  | SrsConnectAppResPacket string double SrsUnSortedHashtable SrsUnSortedHashtable
  | SrsCreateStreamPacket string double
  | SrsCreateStreamResPacket string double double
  | SrsFMLEStartPacket string double string
  | SrsFMLEStartResPacket string double
  | SrsPublishPacket string double string string
  | SrsPlayPacket string double string double double bool
  | SrsOnStatusCallPacket string double SrsUnSortedHashtable
  | SrsSampleAccessPacket string bool bool
  | SrsOnMetaDataPacket string SrsUnSortedHashtable
  | SrsSetWindowAckSizePacket "32 word"
  | SrsAcknowledgementPacket "32 word"
  | SrsSetChunkSizePacket "32 word"
  | SrsSetPeerBandwidthPacket "32 word" byte
  | SrsUserControlPacket "16 word" "32 word" "32 word"

section \<open>Decoding\<close>

definition SrsConnectAppPacket_decode :: "SrsBuffer \<Rightarrow> (SrsPacket \<times> SrsBuffer) result" where
  "SrsConnectAppPacket_decode =
     bnd (srs_amf0_read_string RTMP_AMF0_COMMAND_CONNECT) (\<lambda>command_name.
       if command_name = [] \<or> command_name \<noteq> RTMP_AMF0_COMMAND_CONNECT
       then fail (Srs_error ERROR_RTMP_AMF0_DECODE)
       else bnd srs_amf0_read_number (\<lambda>transaction_id.
            bnd (SrsAmf0Object_read []) (\<lambda>command_object b.
              if \<not> SrsBuffer_empty b
              then bnd srs_amf0_read_any (\<lambda>any.
                     ret (SrsConnectAppPacket command_name transaction_id command_object
                            (if \<not> amf0_is_object any then None
                             else case amf0_to_object any of Inl _ \<Rightarrow> None | Inr ps \<Rightarrow> Some ps))) b
              else Inr (SrsConnectAppPacket command_name transaction_id command_object None, b))))"

definition SrsConnectAppResPacket_decode :: "SrsBuffer \<Rightarrow> (SrsPacket \<times> SrsBuffer) result" where
  "SrsConnectAppResPacket_decode =
     bnd (srs_amf0_read_string RTMP_AMF0_COMMAND_RESULT) (\<lambda>command_name.
       if command_name = [] \<or> command_name \<noteq> RTMP_AMF0_COMMAND_RESULT
       then fail (Srs_error ERROR_RTMP_AMF0_DECODE)
       else bnd srs_amf0_read_number (\<lambda>transaction_id.
            bnd (\<lambda>b. if \<not> SrsBuffer_empty b
                      then bnd srs_amf0_read_any (\<lambda>p.
                             ret (if \<not> amf0_is_object p then []
                                  else case amf0_to_object p of Inl _ \<Rightarrow> [] | Inr ps \<Rightarrow> ps)) b
                      else Inr ([], b)) (\<lambda>props.
            bnd (SrsAmf0Object_read []) (\<lambda>info.
            ret (SrsConnectAppResPacket command_name transaction_id props info)))))"

definition SrsCreateStreamPacket_decode :: "SrsBuffer \<Rightarrow> (SrsPacket \<times> SrsBuffer) result" where
  "SrsCreateStreamPacket_decode =
     bnd (srs_amf0_read_string RTMP_AMF0_COMMAND_CREATE_STREAM) (\<lambda>command_name.
       if command_name = [] \<or> command_name \<noteq> RTMP_AMF0_COMMAND_CREATE_STREAM
       then fail (Srs_error ERROR_RTMP_AMF0_DECODE)
       else bnd srs_amf0_read_number (\<lambda>transaction_id.
            bnd srs_amf0_read_null (\<lambda>_.
            ret (SrsCreateStreamPacket command_name transaction_id))))"

definition SrsCreateStreamResPacket_decode :: "SrsBuffer \<Rightarrow> (SrsPacket \<times> SrsBuffer) result" where
  "SrsCreateStreamResPacket_decode =
     bnd (srs_amf0_read_string RTMP_AMF0_COMMAND_RESULT) (\<lambda>command_name.
       if command_name = [] \<or> command_name \<noteq> RTMP_AMF0_COMMAND_RESULT
       then fail (Srs_error ERROR_RTMP_AMF0_DECODE)
       else bnd srs_amf0_read_number (\<lambda>transaction_id.
            bnd srs_amf0_read_null (\<lambda>_.
            bnd srs_amf0_read_number (\<lambda>stream_id.
            ret (SrsCreateStreamResPacket command_name transaction_id stream_id)))))"

definition SrsFMLEStartPacket_decode :: "SrsBuffer \<Rightarrow> (SrsPacket \<times> SrsBuffer) result" where
  "SrsFMLEStartPacket_decode =
     bnd (srs_amf0_read_string RTMP_AMF0_COMMAND_RELEASE_STREAM) (\<lambda>command_name.
       let invalid_command_name = (command_name \<noteq> RTMP_AMF0_COMMAND_RELEASE_STREAM
             \<and> command_name \<noteq> RTMP_AMF0_COMMAND_FC_PUBLISH \<and> command_name \<noteq> RTMP_AMF0_COMMAND_UNPUBLISH)
       in if command_name = [] \<or> invalid_command_name then fail (Srs_error ERROR_RTMP_AMF0_DECODE)
          else bnd srs_amf0_read_number (\<lambda>transaction_id.
               bnd srs_amf0_read_null (\<lambda>_.
               bnd (srs_amf0_read_string []) (\<lambda>stream_name.
               ret (SrsFMLEStartPacket command_name transaction_id stream_name)))))"

definition SrsFMLEStartResPacket_decode :: "SrsBuffer \<Rightarrow> (SrsPacket \<times> SrsBuffer) result" where
  "SrsFMLEStartResPacket_decode =
     bnd (srs_amf0_read_string RTMP_AMF0_COMMAND_RESULT) (\<lambda>command_name.
       if command_name = [] \<or> command_name \<noteq> RTMP_AMF0_COMMAND_RESULT
       then fail (Srs_error ERROR_RTMP_AMF0_DECODE)
       else bnd srs_amf0_read_number (\<lambda>transaction_id.
            bnd srs_amf0_read_null (\<lambda>_.
            bnd srs_amf0_read_undefined (\<lambda>_.
            ret (SrsFMLEStartResPacket command_name transaction_id)))))"

text \<open>\<open>unless_empty m v\<close>: \<^verbatim>\<open>if (!stream->empty() && (err = m) != srs_success) return\<close>, keeping \<open>v\<close>.\<close>

definition unless_empty :: "(SrsBuffer \<Rightarrow> ('a \<times> SrsBuffer) result) \<Rightarrow> 'a \<Rightarrow> SrsBuffer \<Rightarrow> ('a \<times> SrsBuffer) result" where
  "unless_empty m v b = (if \<not> SrsBuffer_empty b then m b else Inr (v, b))"

definition SrsPublishPacket_decode :: "SrsBuffer \<Rightarrow> (SrsPacket \<times> SrsBuffer) result" where
  "SrsPublishPacket_decode =
     bnd (srs_amf0_read_string RTMP_AMF0_COMMAND_PUBLISH) (\<lambda>command_name.
       if command_name = [] \<or> command_name \<noteq> RTMP_AMF0_COMMAND_PUBLISH
       then fail (Srs_error ERROR_RTMP_AMF0_DECODE)
       else bnd srs_amf0_read_number (\<lambda>transaction_id.
            bnd srs_amf0_read_null (\<lambda>_.
            bnd (srs_amf0_read_string []) (\<lambda>stream_name.
            bnd (unless_empty (srs_amf0_read_string ''live'') ''live'') (\<lambda>type.
            ret (SrsPublishPacket command_name transaction_id stream_name type))))))"

text \<open>
  The reset flag of \<^verbatim>\<open>play\<close>. When the value is neither a boolean nor a number the code frees it,
  which sets the pointer to null, and then reads \<^verbatim>\<open>reset_value->marker\<close> for the error message.
\<close>

definition play_reset :: "SrsAmf0Any \<Rightarrow> bool result" where
  "play_reset reset_value =
     (if amf0_is_boolean reset_value then amf0_to_boolean reset_value
      else if amf0_is_number reset_value
      then (case amf0_to_number reset_value of Inl e \<Rightarrow> Inl e | Inr d \<Rightarrow> Inr (\<not> double_eq d double_0))
      else Inl Srs_null_deref)"

definition play_decode_reset ::
    "string \<Rightarrow> double \<Rightarrow> string \<Rightarrow> double \<Rightarrow> double \<Rightarrow> SrsBuffer \<Rightarrow> (SrsPacket \<times> SrsBuffer) result" where
  "play_decode_reset command_name transaction_id stream_name start duration b =
     (if SrsBuffer_empty b
      then Inr (SrsPlayPacket command_name transaction_id stream_name start duration True, b)
      else bnd srs_amf0_read_any (\<lambda>reset_value b'.
             case play_reset reset_value of
               Inl e \<Rightarrow> Inl e
             | Inr reset \<Rightarrow>
                 Inr (SrsPlayPacket command_name transaction_id stream_name start duration reset, b')) b)"

definition SrsPlayPacket_decode :: "SrsBuffer \<Rightarrow> (SrsPacket \<times> SrsBuffer) result" where
  "SrsPlayPacket_decode =
     bnd (srs_amf0_read_string RTMP_AMF0_COMMAND_PLAY) (\<lambda>command_name.
       if command_name = [] \<or> command_name \<noteq> RTMP_AMF0_COMMAND_PLAY
       then fail (Srs_error ERROR_RTMP_AMF0_DECODE)
       else bnd srs_amf0_read_number (\<lambda>transaction_id.
            bnd srs_amf0_read_null (\<lambda>_.
            bnd (srs_amf0_read_string []) (\<lambda>stream_name.
            bnd (unless_empty srs_amf0_read_number double_minus_2) (\<lambda>start.
            bnd (unless_empty srs_amf0_read_number double_minus_1) (\<lambda>duration.
            play_decode_reset command_name transaction_id stream_name start duration))))))"

definition SrsOnMetaDataPacket_decode :: "SrsBuffer \<Rightarrow> (SrsPacket \<times> SrsBuffer) result" where
  "SrsOnMetaDataPacket_decode =
     bnd (srs_amf0_read_string SRS_CONSTS_RTMP_ON_METADATA) (\<lambda>name0.
     bnd (if name0 = SRS_CONSTS_RTMP_SET_DATAFRAME then srs_amf0_read_string name0 else ret name0) (\<lambda>name b.
       if SrsBuffer_empty b then Inr (SrsOnMetaDataPacket name [], b)
       else bnd srs_amf0_read_any (\<lambda>any.
              ret (SrsOnMetaDataPacket name
                     (case any of
                        SrsAmf0Object ps \<Rightarrow> ps
                      | SrsAmf0EcmaArray _ arr \<Rightarrow> fold (\<lambda>(k, v). ht_set k (Some (amf0_copy v))) arr []
                      | _ \<Rightarrow> []))) b))"

definition SrsSetWindowAckSizePacket_decode :: "SrsBuffer \<Rightarrow> (SrsPacket \<times> SrsBuffer) result" where
  "SrsSetWindowAckSizePacket_decode = bnd (guard_require 4 ERROR_RTMP_MESSAGE_DECODE) (\<lambda>_.
     bnd read_4bytes (\<lambda>n. ret (SrsSetWindowAckSizePacket n)))"

definition SrsAcknowledgementPacket_decode :: "SrsBuffer \<Rightarrow> (SrsPacket \<times> SrsBuffer) result" where
  "SrsAcknowledgementPacket_decode = bnd (guard_require 4 ERROR_RTMP_MESSAGE_DECODE) (\<lambda>_.
     bnd read_4bytes (\<lambda>n. ret (SrsAcknowledgementPacket n)))"

definition SrsSetChunkSizePacket_decode :: "SrsBuffer \<Rightarrow> (SrsPacket \<times> SrsBuffer) result" where
  "SrsSetChunkSizePacket_decode = bnd (guard_require 4 ERROR_RTMP_MESSAGE_DECODE) (\<lambda>_.
     bnd read_4bytes (\<lambda>n. ret (SrsSetChunkSizePacket n)))"

definition SrsUserControlPacket_decode :: "SrsBuffer \<Rightarrow> (SrsPacket \<times> SrsBuffer) result" where
  "SrsUserControlPacket_decode =
     bnd (guard_require 2 ERROR_RTMP_MESSAGE_DECODE) (\<lambda>_.
     bnd read_2bytes (\<lambda>event_type.
     bnd (if event_type = SrsPCUCFmsEvent0
          then bnd (guard_require 1 ERROR_RTMP_MESSAGE_DECODE) (\<lambda>_.
               bnd read_1bytes (\<lambda>x. ret (scast x)))
          else bnd (guard_require 4 ERROR_RTMP_MESSAGE_DECODE) (\<lambda>_.
               bnd read_4bytes (\<lambda>x. ret x))) (\<lambda>event_data.
     bnd (if event_type = SrcPCUCSetBufferLength
          then bnd (guard_require 4 ERROR_RTMP_MESSAGE_ENCODE) (\<lambda>_.
               bnd read_4bytes (\<lambda>x. ret x))
          else ret 0) (\<lambda>extra_data.
     ret (SrsUserControlPacket event_type event_data extra_data)))))"

text \<open>The virtual \<^verbatim>\<open>decode\<close> of a newly made packet of a class.\<close>

fun SrsPacket_decode :: "SrsPacket \<Rightarrow> SrsBuffer \<Rightarrow> (SrsPacket \<times> SrsBuffer) result" where
  "SrsPacket_decode (SrsConnectAppPacket _ _ _ _) = SrsConnectAppPacket_decode"
| "SrsPacket_decode (SrsConnectAppResPacket _ _ _ _) = SrsConnectAppResPacket_decode"
| "SrsPacket_decode (SrsCreateStreamPacket _ _) = SrsCreateStreamPacket_decode"
| "SrsPacket_decode (SrsCreateStreamResPacket _ _ _) = SrsCreateStreamResPacket_decode"
| "SrsPacket_decode (SrsFMLEStartPacket _ _ _) = SrsFMLEStartPacket_decode"
| "SrsPacket_decode (SrsFMLEStartResPacket _ _) = SrsFMLEStartResPacket_decode"
| "SrsPacket_decode (SrsPublishPacket _ _ _ _) = SrsPublishPacket_decode"
| "SrsPacket_decode (SrsPlayPacket _ _ _ _ _ _) = SrsPlayPacket_decode"
| "SrsPacket_decode (SrsOnMetaDataPacket _ _) = SrsOnMetaDataPacket_decode"
| "SrsPacket_decode (SrsSetWindowAckSizePacket _) = SrsSetWindowAckSizePacket_decode"
| "SrsPacket_decode (SrsAcknowledgementPacket _) = SrsAcknowledgementPacket_decode"
| "SrsPacket_decode (SrsSetChunkSizePacket _) = SrsSetChunkSizePacket_decode"
| "SrsPacket_decode (SrsUserControlPacket _ _ _) = SrsUserControlPacket_decode"
| "SrsPacket_decode _ = fail (Srs_error ERROR_SYSTEM_PACKET_INVALID)"

section \<open>Encoding\<close>

fun get_prefer_cid :: "SrsPacket \<Rightarrow> int" where
  "get_prefer_cid SrsPacketBase = 0"
| "get_prefer_cid (SrsConnectAppPacket _ _ _ _) = RTMP_CID_OverConnection"
| "get_prefer_cid (SrsConnectAppResPacket _ _ _ _) = RTMP_CID_OverConnection"
| "get_prefer_cid (SrsCreateStreamPacket _ _) = RTMP_CID_OverConnection"
| "get_prefer_cid (SrsCreateStreamResPacket _ _ _) = RTMP_CID_OverConnection"
| "get_prefer_cid (SrsFMLEStartPacket _ _ _) = RTMP_CID_OverConnection"
| "get_prefer_cid (SrsFMLEStartResPacket _ _) = RTMP_CID_OverConnection"
| "get_prefer_cid (SrsPublishPacket _ _ _ _) = RTMP_CID_OverStream"
| "get_prefer_cid (SrsPlayPacket _ _ _ _ _ _) = RTMP_CID_OverStream"
| "get_prefer_cid (SrsOnStatusCallPacket _ _ _) = RTMP_CID_OverStream"
| "get_prefer_cid (SrsSampleAccessPacket _ _ _) = RTMP_CID_OverStream"
| "get_prefer_cid (SrsOnMetaDataPacket _ _) = RTMP_CID_OverConnection2"
| "get_prefer_cid (SrsSetWindowAckSizePacket _) = RTMP_CID_ProtocolControl"
| "get_prefer_cid (SrsAcknowledgementPacket _) = RTMP_CID_ProtocolControl"
| "get_prefer_cid (SrsSetChunkSizePacket _) = RTMP_CID_ProtocolControl"
| "get_prefer_cid (SrsSetPeerBandwidthPacket _ _) = RTMP_CID_ProtocolControl"
| "get_prefer_cid (SrsUserControlPacket _ _ _) = RTMP_CID_ProtocolControl"

fun get_message_type :: "SrsPacket \<Rightarrow> byte" where
  "get_message_type SrsPacketBase = 0"
| "get_message_type (SrsConnectAppPacket _ _ _ _) = RTMP_MSG_AMF0CommandMessage"
| "get_message_type (SrsConnectAppResPacket _ _ _ _) = RTMP_MSG_AMF0CommandMessage"
| "get_message_type (SrsCreateStreamPacket _ _) = RTMP_MSG_AMF0CommandMessage"
| "get_message_type (SrsCreateStreamResPacket _ _ _) = RTMP_MSG_AMF0CommandMessage"
| "get_message_type (SrsFMLEStartPacket _ _ _) = RTMP_MSG_AMF0CommandMessage"
| "get_message_type (SrsFMLEStartResPacket _ _) = RTMP_MSG_AMF0CommandMessage"
| "get_message_type (SrsPublishPacket _ _ _ _) = RTMP_MSG_AMF0CommandMessage"
| "get_message_type (SrsPlayPacket _ _ _ _ _ _) = RTMP_MSG_AMF0CommandMessage"
| "get_message_type (SrsOnStatusCallPacket _ _ _) = RTMP_MSG_AMF0CommandMessage"
| "get_message_type (SrsSampleAccessPacket _ _ _) = RTMP_MSG_AMF0DataMessage"
| "get_message_type (SrsOnMetaDataPacket _ _) = RTMP_MSG_AMF0DataMessage"
| "get_message_type (SrsSetWindowAckSizePacket _) = RTMP_MSG_WindowAcknowledgementSize"
| "get_message_type (SrsAcknowledgementPacket _) = RTMP_MSG_Acknowledgement"
| "get_message_type (SrsSetChunkSizePacket _) = RTMP_MSG_SetChunkSize"
| "get_message_type (SrsSetPeerBandwidthPacket _ _) = RTMP_MSG_SetPeerBandwidth"
| "get_message_type (SrsUserControlPacket _ _ _) = RTMP_MSG_UserControlMessage"

definition SrsConnectAppPacket_get_size :: "string \<Rightarrow> SrsUnSortedHashtable \<Rightarrow> SrsUnSortedHashtable option \<Rightarrow> int" where
  "SrsConnectAppPacket_get_size command_name command_object args =
     SrsAmf0Size_str command_name + SrsAmf0Size_number + SrsAmf0Size_object (Some command_object)
     + (if args \<noteq> None then SrsAmf0Size_object args else 0)"

definition SrsPlayPacket_get_size :: "string \<Rightarrow> string \<Rightarrow> double \<Rightarrow> double \<Rightarrow> bool \<Rightarrow> int" where
  "SrsPlayPacket_get_size command_name stream_name start duration reset =
     SrsAmf0Size_str command_name + SrsAmf0Size_number + SrsAmf0Size_null + SrsAmf0Size_str stream_name
     + (if \<not> double_eq start double_minus_2 \<or> \<not> double_eq duration double_minus_1 \<or> \<not> reset then SrsAmf0Size_number else 0)
     + (if \<not> double_eq duration double_minus_1 \<or> \<not> reset then SrsAmf0Size_number else 0)
     + (if \<not> reset then SrsAmf0Size_boolean else 0)"

definition SrsUserControlPacket_get_size :: "16 word \<Rightarrow> int" where
  "SrsUserControlPacket_get_size event_type =
     2 + (if event_type = SrsPCUCFmsEvent0 then 1 else 4) + (if event_type = SrcPCUCSetBufferLength then 4 else 0)"

fun get_size :: "SrsPacket \<Rightarrow> int" where
  "get_size SrsPacketBase = 0"
| "get_size (SrsConnectAppPacket command_name _ command_object args) =
     SrsConnectAppPacket_get_size command_name command_object args"
| "get_size (SrsConnectAppResPacket command_name _ props info) =
     SrsAmf0Size_str command_name + SrsAmf0Size_number + SrsAmf0Size_object (Some props) + SrsAmf0Size_object (Some info)"
| "get_size (SrsCreateStreamPacket command_name _) =
     SrsAmf0Size_str command_name + SrsAmf0Size_number + SrsAmf0Size_null"
| "get_size (SrsCreateStreamResPacket command_name _ _) =
     SrsAmf0Size_str command_name + SrsAmf0Size_number + SrsAmf0Size_null + SrsAmf0Size_number"
| "get_size (SrsFMLEStartPacket command_name _ stream_name) =
     SrsAmf0Size_str command_name + SrsAmf0Size_number + SrsAmf0Size_null + SrsAmf0Size_str stream_name"
| "get_size (SrsFMLEStartResPacket command_name _) =
     SrsAmf0Size_str command_name + SrsAmf0Size_number + SrsAmf0Size_null + SrsAmf0Size_undefined"
| "get_size (SrsPublishPacket command_name _ stream_name type) =
     SrsAmf0Size_str command_name + SrsAmf0Size_number + SrsAmf0Size_null + SrsAmf0Size_str stream_name
     + SrsAmf0Size_str type"
| "get_size (SrsPlayPacket command_name _ stream_name start duration reset) =
     SrsPlayPacket_get_size command_name stream_name start duration reset"
| "get_size (SrsOnStatusCallPacket command_name _ data) =
     SrsAmf0Size_str command_name + SrsAmf0Size_number + SrsAmf0Size_null + SrsAmf0Size_object (Some data)"
| "get_size (SrsSampleAccessPacket command_name _ _) =
     SrsAmf0Size_str command_name + SrsAmf0Size_boolean + SrsAmf0Size_boolean"
| "get_size (SrsOnMetaDataPacket name metadata) =
     SrsAmf0Size_str name + SrsAmf0Size_object (Some metadata)"
| "get_size (SrsSetWindowAckSizePacket _) = 4"
| "get_size (SrsAcknowledgementPacket _) = 4"
| "get_size (SrsSetChunkSizePacket _) = 4"
| "get_size (SrsSetPeerBandwidthPacket _ _) = 5"
| "get_size (SrsUserControlPacket event_type _ _) = SrsUserControlPacket_get_size event_type"

text \<open>The first fields of every command packet: its name and its transaction.\<close>

definition write_command :: "string \<Rightarrow> double \<Rightarrow> SrsBuffer \<Rightarrow> (unit \<times> SrsBuffer) result" where
  "write_command command_name transaction_id =
     bnd (srs_amf0_write_string command_name) (\<lambda>_. srs_amf0_write_number transaction_id)"

definition SrsConnectAppPacket_encode_packet ::
    "string \<Rightarrow> double \<Rightarrow> SrsUnSortedHashtable \<Rightarrow> SrsUnSortedHashtable option \<Rightarrow> SrsBuffer \<Rightarrow> (unit \<times> SrsBuffer) result" where
  "SrsConnectAppPacket_encode_packet command_name transaction_id command_object args =
     bnd (write_command command_name transaction_id) (\<lambda>_.
     bnd (amf0_write (SrsAmf0Object command_object)) (\<lambda>_.
     case args of None \<Rightarrow> ret () | Some ps \<Rightarrow> amf0_write (SrsAmf0Object ps)))"

definition SrsConnectAppResPacket_encode_packet ::
    "string \<Rightarrow> double \<Rightarrow> SrsUnSortedHashtable \<Rightarrow> SrsUnSortedHashtable \<Rightarrow> SrsBuffer \<Rightarrow> (unit \<times> SrsBuffer) result" where
  "SrsConnectAppResPacket_encode_packet command_name transaction_id props info =
     bnd (write_command command_name transaction_id) (\<lambda>_.
     bnd (amf0_write (SrsAmf0Object props)) (\<lambda>_. amf0_write (SrsAmf0Object info)))"

definition SrsCreateStreamPacket_encode_packet :: "string \<Rightarrow> double \<Rightarrow> SrsBuffer \<Rightarrow> (unit \<times> SrsBuffer) result" where
  "SrsCreateStreamPacket_encode_packet command_name transaction_id =
     bnd (write_command command_name transaction_id) (\<lambda>_. srs_amf0_write_null)"

definition SrsCreateStreamResPacket_encode_packet ::
    "string \<Rightarrow> double \<Rightarrow> double \<Rightarrow> SrsBuffer \<Rightarrow> (unit \<times> SrsBuffer) result" where
  "SrsCreateStreamResPacket_encode_packet command_name transaction_id sid =
     bnd (write_command command_name transaction_id) (\<lambda>_.
     bnd srs_amf0_write_null (\<lambda>_. srs_amf0_write_number sid))"

definition SrsFMLEStartPacket_encode_packet ::
    "string \<Rightarrow> double \<Rightarrow> string \<Rightarrow> SrsBuffer \<Rightarrow> (unit \<times> SrsBuffer) result" where
  "SrsFMLEStartPacket_encode_packet command_name transaction_id stream_name =
     bnd (write_command command_name transaction_id) (\<lambda>_.
     bnd srs_amf0_write_null (\<lambda>_. srs_amf0_write_string stream_name))"

definition SrsFMLEStartResPacket_encode_packet :: "string \<Rightarrow> double \<Rightarrow> SrsBuffer \<Rightarrow> (unit \<times> SrsBuffer) result" where
  "SrsFMLEStartResPacket_encode_packet command_name transaction_id =
     bnd (write_command command_name transaction_id) (\<lambda>_.
     bnd srs_amf0_write_null (\<lambda>_. srs_amf0_write_undefined))"

definition SrsPublishPacket_encode_packet ::
    "string \<Rightarrow> double \<Rightarrow> string \<Rightarrow> string \<Rightarrow> SrsBuffer \<Rightarrow> (unit \<times> SrsBuffer) result" where
  "SrsPublishPacket_encode_packet command_name transaction_id stream_name type =
     bnd (write_command command_name transaction_id) (\<lambda>_.
     bnd srs_amf0_write_null (\<lambda>_.
     bnd (srs_amf0_write_string stream_name) (\<lambda>_. srs_amf0_write_string type)))"

definition SrsPlayPacket_encode_packet ::
    "string \<Rightarrow> double \<Rightarrow> string \<Rightarrow> double \<Rightarrow> double \<Rightarrow> bool \<Rightarrow> SrsBuffer \<Rightarrow> (unit \<times> SrsBuffer) result" where
  "SrsPlayPacket_encode_packet command_name transaction_id stream_name start duration reset =
     bnd (write_command command_name transaction_id) (\<lambda>_.
     bnd srs_amf0_write_null (\<lambda>_.
     bnd (srs_amf0_write_string stream_name) (\<lambda>_.
     bnd (if \<not> double_eq start double_minus_2 \<or> \<not> double_eq duration double_minus_1 \<or> \<not> reset
          then srs_amf0_write_number start else ret ()) (\<lambda>_.
     bnd (if \<not> double_eq duration double_minus_1 \<or> \<not> reset
          then srs_amf0_write_number duration else ret ()) (\<lambda>_.
     if \<not> reset then srs_amf0_write_boolean reset else ret ())))))"

definition SrsOnStatusCallPacket_encode_packet ::
    "string \<Rightarrow> double \<Rightarrow> SrsUnSortedHashtable \<Rightarrow> SrsBuffer \<Rightarrow> (unit \<times> SrsBuffer) result" where
  "SrsOnStatusCallPacket_encode_packet command_name transaction_id data =
     bnd (write_command command_name transaction_id) (\<lambda>_.
     bnd srs_amf0_write_null (\<lambda>_. amf0_write (SrsAmf0Object data)))"

definition SrsSampleAccessPacket_encode_packet ::
    "string \<Rightarrow> bool \<Rightarrow> bool \<Rightarrow> SrsBuffer \<Rightarrow> (unit \<times> SrsBuffer) result" where
  "SrsSampleAccessPacket_encode_packet command_name video_sample_access audio_sample_access =
     bnd (srs_amf0_write_string command_name) (\<lambda>_.
     bnd (srs_amf0_write_boolean video_sample_access) (\<lambda>_. srs_amf0_write_boolean audio_sample_access))"

definition SrsOnMetaDataPacket_encode_packet ::
    "string \<Rightarrow> SrsUnSortedHashtable \<Rightarrow> SrsBuffer \<Rightarrow> (unit \<times> SrsBuffer) result" where
  "SrsOnMetaDataPacket_encode_packet name metadata =
     bnd (srs_amf0_write_string name) (\<lambda>_. amf0_write (SrsAmf0Object metadata))"

definition write_one_4bytes :: "32 word \<Rightarrow> SrsBuffer \<Rightarrow> (unit \<times> SrsBuffer) result" where
  "write_one_4bytes v = bnd (guard_require 4 ERROR_RTMP_MESSAGE_ENCODE) (\<lambda>_. write_4bytes v)"

definition SrsSetPeerBandwidthPacket_encode_packet :: "32 word \<Rightarrow> byte \<Rightarrow> SrsBuffer \<Rightarrow> (unit \<times> SrsBuffer) result" where
  "SrsSetPeerBandwidthPacket_encode_packet bandwidth type =
     bnd (guard_require 5 ERROR_RTMP_MESSAGE_ENCODE) (\<lambda>_.
     bnd (write_4bytes bandwidth) (\<lambda>_. write_1bytes type))"

definition SrsUserControlPacket_encode_packet ::
    "16 word \<Rightarrow> 32 word \<Rightarrow> 32 word \<Rightarrow> SrsBuffer \<Rightarrow> (unit \<times> SrsBuffer) result" where
  "SrsUserControlPacket_encode_packet event_type event_data extra_data =
     bnd (guard_require (SrsUserControlPacket_get_size event_type) ERROR_RTMP_MESSAGE_ENCODE) (\<lambda>_.
     bnd (write_2bytes event_type) (\<lambda>_.
     bnd (if event_type = SrsPCUCFmsEvent0 then write_1bytes (ucast event_data) else write_4bytes event_data) (\<lambda>_.
     if event_type = SrcPCUCSetBufferLength then write_4bytes extra_data else ret ())))"

fun encode_packet :: "SrsPacket \<Rightarrow> SrsBuffer \<Rightarrow> (unit \<times> SrsBuffer) result" where
  "encode_packet SrsPacketBase = fail (Srs_error ERROR_SYSTEM_PACKET_INVALID)"
| "encode_packet (SrsConnectAppPacket n t obj args) = SrsConnectAppPacket_encode_packet n t obj args"
| "encode_packet (SrsConnectAppResPacket n t props info) = SrsConnectAppResPacket_encode_packet n t props info"
| "encode_packet (SrsCreateStreamPacket n t) = SrsCreateStreamPacket_encode_packet n t"
| "encode_packet (SrsCreateStreamResPacket n t sid) = SrsCreateStreamResPacket_encode_packet n t sid"
| "encode_packet (SrsFMLEStartPacket n t s) = SrsFMLEStartPacket_encode_packet n t s"
| "encode_packet (SrsFMLEStartResPacket n t) = SrsFMLEStartResPacket_encode_packet n t"
| "encode_packet (SrsPublishPacket n t s type) = SrsPublishPacket_encode_packet n t s type"
| "encode_packet (SrsPlayPacket n t s start duration reset) = SrsPlayPacket_encode_packet n t s start duration reset"
| "encode_packet (SrsOnStatusCallPacket n t data) = SrsOnStatusCallPacket_encode_packet n t data"
| "encode_packet (SrsSampleAccessPacket n v a) = SrsSampleAccessPacket_encode_packet n v a"
| "encode_packet (SrsOnMetaDataPacket n md) = SrsOnMetaDataPacket_encode_packet n md"
| "encode_packet (SrsSetWindowAckSizePacket v) = write_one_4bytes v"
| "encode_packet (SrsAcknowledgementPacket v) = write_one_4bytes v"
| "encode_packet (SrsSetChunkSizePacket v) = write_one_4bytes v"
| "encode_packet (SrsSetPeerBandwidthPacket v t) = SrsSetPeerBandwidthPacket_encode_packet v t"
| "encode_packet (SrsUserControlPacket e d x) = SrsUserControlPacket_encode_packet e d x"

text \<open>
  \<^verbatim>\<open>encode\<close> allocates \<^verbatim>\<open>get_size()\<close> bytes; \<open>fresh\<close> is what the allocation returns, any bytes of that
  number. No payload when the size is 0.
\<close>

definition SrsPacket_encode :: "(nat \<Rightarrow> byte list) \<Rightarrow> SrsPacket \<Rightarrow> (int \<times> byte list option) result" where
  "SrsPacket_encode fresh p =
     (let sz = get_size p
      in if sz > 0
         then case encode_packet p (SrsBuffer_new (fresh (nat sz))) of
                Inl e \<Rightarrow> Inl e
              | Inr (_, b) \<Rightarrow> Inr (sz, Some (buf_bytes b))
         else Inr (sz, None))"

definition to_msg :: "(nat \<Rightarrow> byte list) \<Rightarrow> SrsPacket \<Rightarrow> 32 word \<Rightarrow> SrsCommonMessage \<Rightarrow> SrsCommonMessage result" where
  "to_msg fresh p sid msg =
     (case SrsPacket_encode fresh p of
        Inl e \<Rightarrow> Inl e
      | Inr (sz, payload) \<Rightarrow>
          (case payload of
             None \<Rightarrow> Inr msg
           | Some body \<Rightarrow>
               if sz \<le> 0 then Inr msg
               else let header = SrsMessageHeader_new\<lparr>payload_length := sz, message_type := get_message_type p,
                                   stream_id := sid, prefer_cid := get_prefer_cid p\<rparr>
                    in Inr (SrsCommonMessage_create header body msg)))"

section \<open>The wire format of a packet\<close>

definition command_bytes :: "string \<Rightarrow> double \<Rightarrow> byte list" where
  "command_bytes n t = amf0_bytes (SrsAmf0String n) @ amf0_bytes (SrsAmf0Number t)"

definition be4 :: "32 word \<Rightarrow> byte list" where
  "be4 v = rev (le_bytes 4 (uint v))"

fun packet_bytes :: "SrsPacket \<Rightarrow> byte list" where
  "packet_bytes SrsPacketBase = []"
| "packet_bytes (SrsConnectAppPacket n t obj args) = command_bytes n t @ amf0_bytes (SrsAmf0Object obj)
     @ (case args of None \<Rightarrow> [] | Some ps \<Rightarrow> amf0_bytes (SrsAmf0Object ps))"
| "packet_bytes (SrsConnectAppResPacket n t props info) = command_bytes n t
     @ amf0_bytes (SrsAmf0Object props) @ amf0_bytes (SrsAmf0Object info)"
| "packet_bytes (SrsCreateStreamPacket n t) = command_bytes n t @ amf0_bytes SrsAmf0Null"
| "packet_bytes (SrsCreateStreamResPacket n t sid) = command_bytes n t @ amf0_bytes SrsAmf0Null
     @ amf0_bytes (SrsAmf0Number sid)"
| "packet_bytes (SrsFMLEStartPacket n t s) = command_bytes n t @ amf0_bytes SrsAmf0Null @ amf0_bytes (SrsAmf0String s)"
| "packet_bytes (SrsFMLEStartResPacket n t) = command_bytes n t @ amf0_bytes SrsAmf0Null @ amf0_bytes SrsAmf0Undefined"
| "packet_bytes (SrsPublishPacket n t s type) = command_bytes n t @ amf0_bytes SrsAmf0Null
     @ amf0_bytes (SrsAmf0String s) @ amf0_bytes (SrsAmf0String type)"
| "packet_bytes (SrsPlayPacket n t s start duration reset) = command_bytes n t @ amf0_bytes SrsAmf0Null
     @ amf0_bytes (SrsAmf0String s)
     @ (if \<not> double_eq start double_minus_2 \<or> \<not> double_eq duration double_minus_1 \<or> \<not> reset
        then amf0_bytes (SrsAmf0Number start) else [])
     @ (if \<not> double_eq duration double_minus_1 \<or> \<not> reset then amf0_bytes (SrsAmf0Number duration) else [])
     @ (if \<not> reset then amf0_bytes (SrsAmf0Boolean reset) else [])"
| "packet_bytes (SrsOnStatusCallPacket n t data) = command_bytes n t @ amf0_bytes SrsAmf0Null
     @ amf0_bytes (SrsAmf0Object data)"
| "packet_bytes (SrsSampleAccessPacket n v a) = amf0_bytes (SrsAmf0String n) @ amf0_bytes (SrsAmf0Boolean v)
     @ amf0_bytes (SrsAmf0Boolean a)"
| "packet_bytes (SrsOnMetaDataPacket n md) = amf0_bytes (SrsAmf0String n) @ amf0_bytes (SrsAmf0Object md)"
| "packet_bytes (SrsSetWindowAckSizePacket v) = be4 v"
| "packet_bytes (SrsAcknowledgementPacket v) = be4 v"
| "packet_bytes (SrsSetChunkSizePacket v) = be4 v"
| "packet_bytes (SrsSetPeerBandwidthPacket v t) = be4 v @ [t]"
| "packet_bytes (SrsUserControlPacket e d x) = rev (le_bytes 2 (uint e))
     @ (if e = SrsPCUCFmsEvent0 then [ucast d] else be4 d)
     @ (if e = SrcPCUCSetBufferLength then be4 x else [])"

lemma length_be4 [simp]: "length (be4 v) = 4"
  by (simp add: be4_def)

lemma length_command_bytes: "int (length (command_bytes n t)) = SrsAmf0Size_str n + SrsAmf0Size_number"
  by (simp add: command_bytes_def amf0_size_defs)

lemma length_packet_bytes: "int (length (packet_bytes p)) = get_size p"
  by (cases p) (auto simp: length_command_bytes length_amf0_bytes(1) SrsConnectAppPacket_get_size_def
      SrsPlayPacket_get_size_def SrsUserControlPacket_get_size_def SrsAmf0Size_object_def of_nat_add
      simp del: amf0_bytes.simps split: option.split)
  

text \<open>Each encoder writes just these bytes.\<close>

lemma writes_atoms [writes_intros]:
  "writes (srs_amf0_write_string s) (amf0_bytes (SrsAmf0String s))"
  "writes (srs_amf0_write_number d) (amf0_bytes (SrsAmf0Number d))"
  "writes (srs_amf0_write_boolean x) (amf0_bytes (SrsAmf0Boolean x))"
  "writes srs_amf0_write_null (amf0_bytes SrsAmf0Null)"
  "writes srs_amf0_write_undefined (amf0_bytes SrsAmf0Undefined)"
  using writes_amf0(1) [of "SrsAmf0String s"] writes_amf0(1) [of "SrsAmf0Number d"]
    writes_amf0(1) [of "SrsAmf0Boolean x"] writes_amf0(1) [of SrsAmf0Null] writes_amf0(1) [of SrsAmf0Undefined]
  by simp_all

lemma writes_command [writes_intros]: "writes (write_command n t) (command_bytes n t)"
  unfolding write_command_def command_bytes_def by (intro writes_intros)

lemma writes_be4 [writes_intros]: "writes (write_4bytes v) (be4 v)"
  unfolding be4_def by (rule writes_4bytes)

lemma writes_unless [writes_intros]: "writes m xs \<Longrightarrow> writes (if c then m else ret ()) (if c then xs else [])"
  by (auto intro: writes_ret)

lemma writes_one_4bytes [writes_intros]: "writes (write_one_4bytes v) (be4 v)"
  unfolding write_one_4bytes_def by (intro writes_guard writes_be4) auto

lemma writes_user_control:
  "writes (SrsUserControlPacket_encode_packet e d x) (packet_bytes (SrsUserControlPacket e d x))"
  unfolding SrsUserControlPacket_encode_packet_def packet_bytes.simps
  by (intro writes_guard writes_bnd writes_2bytes writes_unless writes_be4 writes_if writes_1bytes)
    (auto simp: SrsUserControlPacket_get_size_def)

lemma writes_peer_bandwidth:
  "writes (SrsSetPeerBandwidthPacket_encode_packet v t) (packet_bytes (SrsSetPeerBandwidthPacket v t))"
  unfolding SrsSetPeerBandwidthPacket_encode_packet_def packet_bytes.simps
  by (intro writes_guard writes_bnd writes_be4 writes_1bytes) auto

lemma writes_play:
  "writes (SrsPlayPacket_encode_packet n t s start duration reset)
     (packet_bytes (SrsPlayPacket n t s start duration reset))"
  unfolding SrsPlayPacket_encode_packet_def packet_bytes.simps
  by (intro writes_bnd writes_command writes_atoms writes_unless)

lemma writes_connect:
  "writes (SrsConnectAppPacket_encode_packet n t obj args) (packet_bytes (SrsConnectAppPacket n t obj args))"
proof -
  have "writes (case args of None \<Rightarrow> ret () | Some ps \<Rightarrow> amf0_write (SrsAmf0Object ps))
      (case args of None \<Rightarrow> [] | Some ps \<Rightarrow> amf0_bytes (SrsAmf0Object ps))"
    by (cases args) (simp_all only: option.case writes_ret writes_amf0(1))
  then show ?thesis
    unfolding SrsConnectAppPacket_encode_packet_def packet_bytes.simps
    by (intro writes_bnd writes_command writes_amf0(1))
qed

lemma writes_packet:
  assumes "p \<noteq> SrsPacketBase"
  shows "writes (encode_packet p) (packet_bytes p)"
proof -
  note defs = SrsConnectAppResPacket_encode_packet_def SrsCreateStreamPacket_encode_packet_def
    SrsCreateStreamResPacket_encode_packet_def SrsFMLEStartPacket_encode_packet_def
    SrsFMLEStartResPacket_encode_packet_def SrsPublishPacket_encode_packet_def
    SrsOnStatusCallPacket_encode_packet_def SrsSampleAccessPacket_encode_packet_def
    SrsOnMetaDataPacket_encode_packet_def
  show ?thesis
    using assms
    by (cases p) (auto simp only: encode_packet.simps writes_user_control
        writes_peer_bandwidth writes_play writes_connect,
      auto simp only: packet_bytes.simps defs intro!: writes_bnd writes_command writes_atoms writes_one_4bytes
        writes_amf0(1))
qed

lemma encode_exact:
  assumes "p \<noteq> SrsPacketBase" and "length region = length (packet_bytes p)"
  shows "encode_packet p (SrsBuffer_new region) = Inr ((), \<lparr>buf_bytes = packet_bytes p, buf_p = length (packet_bytes p)\<rparr>)"
  using writes_exact [OF writes_packet [OF assms(1)] assms(2)] .

lemma packet_bytes_nonempty: "p \<noteq> SrsPacketBase \<Longrightarrow> packet_bytes p \<noteq> []"
  by (cases p) (auto simp: command_bytes_def be4_def le_bytes_numeral)

lemma encode_all:
  assumes "p \<noteq> SrsPacketBase" and "\<And>n. length (fresh n) = n"
  shows "SrsPacket_encode fresh p = Inr (get_size p, Some (packet_bytes p))"
proof -
  have len: "int (length (packet_bytes p)) = get_size p" by (rule length_packet_bytes)
  have pos: "get_size p > 0" unfolding len [symmetric] using packet_bytes_nonempty [OF assms(1)] by simp
  have "length (fresh (nat (get_size p))) = length (packet_bytes p)" using assms(2) len by simp
  from encode_exact [OF assms(1) this] pos show ?thesis by (simp add: SrsPacket_encode_def)
qed

section \<open>Decoding what was encoded\<close>

text \<open>
  \<open>reads_all m v xs\<close>: on a buffer that holds just \<open>xs\<close>, \<open>m\<close> returns \<open>v\<close> and leaves nothing. The
  decoders look whether the buffer is empty to find their optional last fields.
\<close>

definition reads_all :: "(SrsBuffer \<Rightarrow> ('a \<times> SrsBuffer) result) \<Rightarrow> 'a \<Rightarrow> byte list \<Rightarrow> bool" where
  "reads_all m v xs \<longleftrightarrow>
     (\<forall>b. buf_wf b \<longrightarrow> buf_rest b = xs \<longrightarrow> m b = Inr (v, buf_adv (length xs) b))"

lemma reads_all_reads: "reads m v xs \<Longrightarrow> reads_all m v xs"
  by (simp add: reads_all_def reads_def)

lemma reads_all_bnd:
  assumes "reads m v xs" and "reads_all (f v) w ys"
  shows "reads_all (bnd m f) w (xs @ ys)"
  unfolding reads_all_def
proof (intro allI impI)
  fix b assume b: "buf_wf b" "buf_rest b = xs @ ys"
  have "f v (buf_adv (length xs) b) = Inr (w, buf_adv (length ys) (buf_adv (length xs) b))"
    using assms(2) b by (simp add: reads_all_def buf_wf_adv)
  then show "bnd m f b = Inr (w, buf_adv (length (xs @ ys)) b)"
    using readsD [OF assms(1) b] by (simp add: bnd_def)
qed

lemma reads_all_ret: "reads_all (ret v) v []"
  by (intro reads_all_reads reads_ret)

lemma reads_any: "amf0_wf v \<Longrightarrow> reads srs_amf0_read_any v (amf0_bytes v)"
  using reads_amf0(1) [of v] by (auto simp: reads_def srs_amf0_read_any_def)

lemma reads_Object:
  assumes "amf0_props_wf ps"
  shows "reads (SrsAmf0Object_read []) ps (amf0_bytes (SrsAmf0Object ps))"
  unfolding reads_def
proof (intro allI impI)
  fix b ys assume b: "buf_wf b" "buf_rest b = amf0_bytes (SrsAmf0Object ps) @ ys"
  have "reads (read_props (Suc (length (buf_rest b))) []) ([] @ ps) (amf0_props_bytes ps @ [0, 0, 9])"
    using assms b by (intro reads_props reads_amf0(2)) auto
  from readsD [OF reads_object [OF this] b(1)] b(2)
  show "SrsAmf0Object_read [] b = Inr (ps, buf_adv (length (amf0_bytes (SrsAmf0Object ps))) b)"
    by (simp add: SrsAmf0Object_read_def)
qed

lemma reads_atoms:
  "length s < 32768 \<Longrightarrow> reads (srs_amf0_read_string v) (if s = [] then v else s) (amf0_bytes (SrsAmf0String s))"
  "reads srs_amf0_read_number d (amf0_bytes (SrsAmf0Number d))"
  "reads srs_amf0_read_null () (amf0_bytes SrsAmf0Null)"
  "reads srs_amf0_read_undefined () (amf0_bytes SrsAmf0Undefined)"
  using reads_amf0_string [of s v] reads_number [of d]
  by (simp_all add: srs_amf0_read_null_def srs_amf0_read_undefined_def reads_marker)

lemma reads_string_nonempty:
  "s \<noteq> [] \<Longrightarrow> length s < 32768 \<Longrightarrow> reads (srs_amf0_read_string v) s (amf0_bytes (SrsAmf0String s))"
  using reads_atoms(1) [of s v] by (simp del: amf0_bytes.simps)

lemma reads_string_empty:
  "length s < 32768 \<Longrightarrow> reads (srs_amf0_read_string []) s (amf0_bytes (SrsAmf0String s))"
  using reads_atoms(1) [of s "[]"] by (auto simp del: amf0_bytes.simps split: if_splits)


text \<open>
  The packets that come back from their own encoding: the command name is the one the class
  expects, strings and properties are encodable, a publish type is not empty, and the fields that
  are not sent have their default.
\<close>

fun packet_wf :: "SrsPacket \<Rightarrow> bool" where
  "packet_wf (SrsConnectAppPacket n t obj args) \<longleftrightarrow> n = RTMP_AMF0_COMMAND_CONNECT \<and> amf0_props_wf obj
     \<and> (case args of None \<Rightarrow> True | Some ps \<Rightarrow> amf0_props_wf ps)"
| "packet_wf (SrsConnectAppResPacket n t props info) \<longleftrightarrow> n = RTMP_AMF0_COMMAND_RESULT
     \<and> amf0_props_wf props \<and> amf0_props_wf info"
| "packet_wf (SrsCreateStreamPacket n t) \<longleftrightarrow> n = RTMP_AMF0_COMMAND_CREATE_STREAM"
| "packet_wf (SrsCreateStreamResPacket n t sid) \<longleftrightarrow> n = RTMP_AMF0_COMMAND_RESULT"
| "packet_wf (SrsFMLEStartPacket n t s) \<longleftrightarrow>
     (n = RTMP_AMF0_COMMAND_RELEASE_STREAM \<or> n = RTMP_AMF0_COMMAND_FC_PUBLISH \<or> n = RTMP_AMF0_COMMAND_UNPUBLISH)
     \<and> length s < 32768"
| "packet_wf (SrsFMLEStartResPacket n t) \<longleftrightarrow> n = RTMP_AMF0_COMMAND_RESULT"
| "packet_wf (SrsPublishPacket n t s type) \<longleftrightarrow> n = RTMP_AMF0_COMMAND_PUBLISH \<and> length s < 32768
     \<and> type \<noteq> [] \<and> length type < 32768"
| "packet_wf (SrsPlayPacket n t s start duration reset) \<longleftrightarrow> n = RTMP_AMF0_COMMAND_PLAY \<and> length s < 32768"
| "packet_wf (SrsOnMetaDataPacket n md) \<longleftrightarrow> n \<noteq> [] \<and> n \<noteq> SRS_CONSTS_RTMP_SET_DATAFRAME \<and> length n < 32768
     \<and> amf0_props_wf md"
| "packet_wf (SrsSetWindowAckSizePacket _) \<longleftrightarrow> True"
| "packet_wf (SrsAcknowledgementPacket _) \<longleftrightarrow> True"
| "packet_wf (SrsSetChunkSizePacket _) \<longleftrightarrow> True"
| "packet_wf (SrsUserControlPacket e d x) \<longleftrightarrow>
     (e = SrsPCUCFmsEvent0 \<longrightarrow> scast (ucast d :: byte) = d) \<and> (e \<noteq> SrcPCUCSetBufferLength \<longrightarrow> x = 0)"
| "packet_wf _ \<longleftrightarrow> False"

lemma reads_all_named:
  assumes "n \<noteq> []" and "length n < 32768" and "\<not> bad n" and "reads_all (f n t) p xs"
  shows "reads_all (bnd (srs_amf0_read_string d) (\<lambda>n. if bad n then fail e else bnd srs_amf0_read_number (f n))) p
    (command_bytes n t @ xs)"
proof -
  have "reads_all (if bad n then fail e else bnd srs_amf0_read_number (f n)) p (amf0_bytes (SrsAmf0Number t) @ xs)"
    using reads_all_bnd [where f = "f n", OF reads_atoms(2) assms(4)] assms(3) by (simp del: amf0_bytes.simps)
  from reads_all_bnd [where f = "\<lambda>n. if bad n then fail e else bnd srs_amf0_read_number (f n)",
      OF reads_string_nonempty [OF assms(1,2)] this]
  show ?thesis by (simp only: command_bytes_def append_assoc)
qed

lemma reads_all_null:
  "reads_all (f ()) p xs \<Longrightarrow> reads_all (bnd srs_amf0_read_null f) p (amf0_bytes SrsAmf0Null @ xs)"
  by (rule reads_all_bnd [OF reads_atoms(3)])

lemma reads_all_map: "reads_all m v xs \<Longrightarrow> reads_all (bnd m (\<lambda>x. ret (f x))) (f v) xs"
  by (simp add: reads_all_def bnd_def ret_def)

lemma reads_all_nonempty:
  "xs \<noteq> [] \<Longrightarrow> reads_all m v xs \<Longrightarrow> reads_all (\<lambda>b. if \<not> SrsBuffer_empty b then m b else k b) v xs"
  "xs \<noteq> [] \<Longrightarrow> reads_all m v xs \<Longrightarrow> reads_all (\<lambda>b. if SrsBuffer_empty b then k b else m b) v xs"
  by (auto simp: reads_all_def)

lemma reads_all_empty:
  "reads_all (\<lambda>b. if \<not> SrsBuffer_empty b then m b else Inr (v, b)) v []"
  "reads_all (\<lambda>b. if SrsBuffer_empty b then Inr (v, b) else m b) v []"
  by (auto simp: reads_all_def)

lemma reads_all_unless_some:
  assumes "reads m v xs" and "xs \<noteq> []" and "reads_all (f v) w ys"
  shows "reads_all (bnd (unless_empty m d) f) w (xs @ ys)"
proof -
  have "bnd (unless_empty m d) f b = bnd m f b" if "buf_rest b = xs @ ys" for b
    using that assms(2) by (simp add: bnd_def unless_empty_def)
  then show ?thesis using reads_all_bnd [where f = f, OF assms(1,3)] by (simp add: reads_all_def)
qed

lemma reads_all_unless_none: "reads_all (f d) w [] \<Longrightarrow> reads_all (bnd (unless_empty m d) f) w []"
  by (auto simp: reads_all_def bnd_def unless_empty_def)

lemma amf0_bytes_nonempty [simp]: "amf0_bytes v \<noteq> []"
  by (cases v) auto

lemma reads_all_connect:
  assumes "packet_wf (SrsConnectAppPacket n t obj args)"
  shows "reads_all SrsConnectAppPacket_decode (SrsConnectAppPacket n t obj args)
    (packet_bytes (SrsConnectAppPacket n t obj args))"
proof -
  let ?f = "\<lambda>any. SrsConnectAppPacket n t obj (if \<not> amf0_is_object any then None
       else case amf0_to_object any of Inl _ \<Rightarrow> None | Inr ps \<Rightarrow> Some ps)"
  have "reads_all (\<lambda>b. if \<not> SrsBuffer_empty b then bnd srs_amf0_read_any (\<lambda>any. ret (?f any)) b
           else Inr (SrsConnectAppPacket n t obj None, b))
         (SrsConnectAppPacket n t obj args) (case args of None \<Rightarrow> [] | Some ps \<Rightarrow> amf0_bytes (SrsAmf0Object ps))"
  proof (cases args)
    case None
    then show ?thesis by (simp only: option.case reads_all_empty)
  next
    case (Some ps)
    then have "amf0_wf (SrsAmf0Object ps)" using assms by simp
    then have "reads_all (bnd srs_amf0_read_any (\<lambda>any. ret (?f any))) (?f (SrsAmf0Object ps)) (amf0_bytes (SrsAmf0Object ps))"
      by (intro reads_all_map reads_all_reads reads_any)
    then show ?thesis
      using Some by (simp only: option.case) (rule reads_all_nonempty(1), simp_all add: amf0_is_object_def)
  qed
  then show ?thesis
    unfolding SrsConnectAppPacket_decode_def packet_bytes.simps
    using assms by (intro reads_all_named reads_all_bnd [OF reads_Object]) simp_all
qed


lemma reads_all_connect_res:
  assumes "packet_wf (SrsConnectAppResPacket n t props info)"
  shows "reads_all SrsConnectAppResPacket_decode (SrsConnectAppResPacket n t props info)
    (packet_bytes (SrsConnectAppResPacket n t props info))"
proof -
  let ?f = "\<lambda>p. if \<not> amf0_is_object p then [] else case amf0_to_object p of Inl _ \<Rightarrow> [] | Inr ps \<Rightarrow> ps"
  let ?m = "\<lambda>b. if \<not> SrsBuffer_empty b then bnd srs_amf0_read_any (\<lambda>p. ret (?f p)) b else Inr ([], b)"
  have "reads (bnd srs_amf0_read_any (\<lambda>p. ret (?f p))) (?f (SrsAmf0Object props)) (amf0_bytes (SrsAmf0Object props))"
    using assms by (intro reads_map reads_any) simp
  then have "reads ?m props (amf0_bytes (SrsAmf0Object props))"
    by (auto simp: reads_def amf0_is_object_def simp del: amf0_bytes.simps)
  then show ?thesis
    unfolding SrsConnectAppResPacket_decode_def packet_bytes.simps
    using assms by (intro reads_all_named reads_all_bnd [where v = props] reads_all_map reads_all_reads reads_Object) simp_all
qed

lemma reads_all_publish:
  assumes "packet_wf (SrsPublishPacket n t s type)"
  shows "reads_all SrsPublishPacket_decode (SrsPublishPacket n t s type) (packet_bytes (SrsPublishPacket n t s type))"
proof -
  have "reads_all (bnd (unless_empty (srs_amf0_read_string ''live'') ''live'') (\<lambda>type. ret (SrsPublishPacket n t s type)))
      (SrsPublishPacket n t s type) (amf0_bytes (SrsAmf0String type) @ [])"
    using assms by (intro reads_all_unless_some [OF reads_string_nonempty] reads_all_ret) simp_all
  then show ?thesis
    unfolding SrsPublishPacket_decode_def packet_bytes.simps
    using assms by (intro reads_all_named reads_all_null reads_all_bnd [OF reads_string_empty]) simp_all
qed

lemma double_eq_minus: "double_eq d double_minus_1 \<longleftrightarrow> d = double_minus_1" "double_eq d double_minus_2 \<longleftrightarrow> d = double_minus_2"
  by (auto simp: double_eq_def double_is_nan_def double_is_zero_def)

lemma reads_all_play_reset:
  "reads_all (play_decode_reset n t s start duration) (SrsPlayPacket n t s start duration reset)
     (if \<not> reset then amf0_bytes (SrsAmf0Boolean reset) else [])"
proof (cases reset)
  case True
  then show ?thesis by (simp add: reads_all_def play_decode_reset_def)
next
  case False
  let ?g = "\<lambda>v b'. case play_reset v of Inl e \<Rightarrow> Inl e
             | Inr reset \<Rightarrow> Inr (SrsPlayPacket n t s start duration reset, b')"
  have "reads_all (?g (SrsAmf0Boolean False)) (SrsPlayPacket n t s start duration False) []"
    by (simp add: reads_all_def play_reset_def amf0_is_boolean_def)
  from reads_all_bnd [where f = ?g, OF reads_any [of "SrsAmf0Boolean False"] this]
  have "reads_all (bnd srs_amf0_read_any ?g) (SrsPlayPacket n t s start duration False) (amf0_bytes (SrsAmf0Boolean False))"
    by simp
  with False show ?thesis
    by (simp add: reads_all_def play_decode_reset_def del: amf0_bytes.simps)
qed

text \<open>An optional number: sent unless it and all that follows have their default.\<close>

lemma reads_all_optional_number:
  assumes "reads_all (f d) w ys" and "\<not> c \<Longrightarrow> d = dflt \<and> ys = []"
  shows "reads_all (bnd (unless_empty srs_amf0_read_number dflt) f) w ((if c then amf0_bytes (SrsAmf0Number d) else []) @ ys)"
proof (cases c)
  case True
  then show ?thesis
    using reads_all_unless_some [where f = f, OF reads_atoms(2) amf0_bytes_nonempty assms(1)] by (simp only: if_True)
next
  case False
  then show ?thesis using reads_all_unless_none [of f d w] assms by simp
qed

lemma reads_all_play:
  assumes "packet_wf (SrsPlayPacket n t s start duration reset)"
  shows "reads_all SrsPlayPacket_decode (SrsPlayPacket n t s start duration reset)
    (packet_bytes (SrsPlayPacket n t s start duration reset))"
  unfolding SrsPlayPacket_decode_def packet_bytes.simps
  using assms
  by (intro reads_all_named reads_all_null reads_all_bnd [OF reads_string_empty] reads_all_optional_number reads_all_play_reset)
    (simp_all add: double_eq_minus)

lemma reads_all_metadata:
  assumes "packet_wf (SrsOnMetaDataPacket n md)"
  shows "reads_all SrsOnMetaDataPacket_decode (SrsOnMetaDataPacket n md) (packet_bytes (SrsOnMetaDataPacket n md))"
proof -
  let ?f = "\<lambda>any. SrsOnMetaDataPacket n (case any of SrsAmf0Object ps \<Rightarrow> ps
       | SrsAmf0EcmaArray _ arr \<Rightarrow> fold (\<lambda>(k, v). ht_set k (Some (amf0_copy v))) arr [] | _ \<Rightarrow> [])"
  have "reads_all (bnd srs_amf0_read_any (\<lambda>any. ret (?f any))) (?f (SrsAmf0Object md)) (amf0_bytes (SrsAmf0Object md))"
    using assms by (intro reads_all_map reads_all_reads reads_any) simp
  then have "reads_all (\<lambda>b. if SrsBuffer_empty b then Inr (SrsOnMetaDataPacket n [], b)
        else bnd srs_amf0_read_any (\<lambda>any. ret (?f any)) b) (SrsOnMetaDataPacket n md) (amf0_bytes (SrsAmf0Object md))"
    by (intro reads_all_nonempty(2)) simp_all
  then have "reads_all (bnd (ret n) (\<lambda>name b. if SrsBuffer_empty b then Inr (SrsOnMetaDataPacket name [], b)
        else bnd srs_amf0_read_any (\<lambda>any. ret (SrsOnMetaDataPacket name (case any of SrsAmf0Object ps \<Rightarrow> ps
       | SrsAmf0EcmaArray _ arr \<Rightarrow> fold (\<lambda>(k, v). ht_set k (Some (amf0_copy v))) arr [] | _ \<Rightarrow> []))) b))
     (SrsOnMetaDataPacket n md) ([] @ amf0_bytes (SrsAmf0Object md))"
    by (intro reads_all_bnd [OF reads_ret])
  then show ?thesis
    unfolding SrsOnMetaDataPacket_decode_def packet_bytes.simps
    using assms by (intro reads_all_bnd [OF reads_string_nonempty]) simp_all
qed


lemma reads_be4: "reads read_4bytes v (be4 v)"
  unfolding be4_def by (rule reads_4bytes)

lemma reads_one_4bytes:
  "reads_all (bnd (guard_require 4 c) (\<lambda>_. bnd read_4bytes (\<lambda>n. ret (f n)))) (f v) (be4 v)"
  by (intro reads_all_reads reads_guard reads_map reads_be4) auto

lemma reads_user_control:
  assumes "packet_wf (SrsUserControlPacket e d x)"
  shows "reads SrsUserControlPacket_decode (SrsUserControlPacket e d x) (packet_bytes (SrsUserControlPacket e d x))"
proof -
  have four: "reads (bnd (guard_require 4 c) (\<lambda>_. bnd read_4bytes (\<lambda>x. ret x))) v (be4 v)" for c v
    by (intro reads_guard reads_map reads_be4) auto
  have one: "reads (bnd (guard_require 1 c) (\<lambda>_. bnd read_1bytes (\<lambda>x. ret (scast x)))) (scast v :: 32 word) [v]"
    for c and v :: byte
    by (intro reads_guard reads_map reads_1bytes) auto
  have data: "reads (if e = SrsPCUCFmsEvent0
          then bnd (guard_require 1 ERROR_RTMP_MESSAGE_DECODE) (\<lambda>_. bnd read_1bytes (\<lambda>x. ret (scast x)))
          else bnd (guard_require 4 ERROR_RTMP_MESSAGE_DECODE) (\<lambda>_. bnd read_4bytes (\<lambda>x. ret x))) d
        (if e = SrsPCUCFmsEvent0 then [ucast d] else be4 d)"
    using assms four one [of ERROR_RTMP_MESSAGE_DECODE "ucast d"] by auto
  have extra: "reads (if e = SrcPCUCSetBufferLength
          then bnd (guard_require 4 ERROR_RTMP_MESSAGE_ENCODE) (\<lambda>_. bnd read_4bytes (\<lambda>x. ret x)) else ret 0) x
        (if e = SrcPCUCSetBufferLength then be4 x else [])"
    using assms four by (simp add: reads_ret)
  show ?thesis
    unfolding SrsUserControlPacket_decode_def packet_bytes.simps
    by (intro reads_guard reads_bnd [OF reads_2bytes] reads_bnd [OF data] reads_map extra) auto
qed

lemma packet_roundtrip_all:
  assumes "packet_wf p"
  shows "reads_all (SrsPacket_decode p) p (packet_bytes p)"
proof (cases p)
  case (SrsCreateStreamPacket n t)
  have "reads_all (bnd srs_amf0_read_null (\<lambda>_. ret (SrsCreateStreamPacket n t))) (SrsCreateStreamPacket n t) (amf0_bytes SrsAmf0Null)"
    by (rule reads_all_reads [OF reads_map [OF reads_atoms(3)]])
  with assms SrsCreateStreamPacket show ?thesis
    by (simp only: SrsPacket_decode.simps packet_bytes.simps packet_wf.simps SrsCreateStreamPacket_decode_def)
      (intro reads_all_named, simp_all)
next
  case (SrsCreateStreamResPacket n t sid)
  have "reads_all (bnd srs_amf0_read_number (\<lambda>sid. ret (SrsCreateStreamResPacket n t sid)))
      (SrsCreateStreamResPacket n t sid) (amf0_bytes (SrsAmf0Number sid))"
    by (intro reads_all_reads reads_map reads_atoms(2))
  with assms SrsCreateStreamResPacket show ?thesis
    by (simp only: SrsPacket_decode.simps packet_bytes.simps packet_wf.simps SrsCreateStreamResPacket_decode_def)
      (intro reads_all_named reads_all_null, simp_all)
next
  case (SrsFMLEStartPacket n t s)
  then have "reads_all (bnd (srs_amf0_read_string []) (\<lambda>s. ret (SrsFMLEStartPacket n t s))) p (amf0_bytes (SrsAmf0String s))"
    using assms by (auto intro!: reads_all_reads reads_map reads_string_empty simp del: amf0_bytes.simps)
  with assms SrsFMLEStartPacket show ?thesis
    by (simp only: SrsPacket_decode.simps packet_bytes.simps packet_wf.simps SrsFMLEStartPacket_decode_def Let_def)
      (intro reads_all_named reads_all_null, auto)
next
  case (SrsFMLEStartResPacket n t)
  then have "reads_all (bnd srs_amf0_read_undefined (\<lambda>_. ret (SrsFMLEStartResPacket n t))) p (amf0_bytes SrsAmf0Undefined)"
    by (auto intro!: reads_all_reads reads_map reads_atoms(4) simp del: amf0_bytes.simps)
  with assms SrsFMLEStartResPacket show ?thesis
    by (simp only: SrsPacket_decode.simps packet_bytes.simps packet_wf.simps SrsFMLEStartResPacket_decode_def)
      (intro reads_all_named reads_all_null, simp_all)
qed (use assms in \<open>simp_all only: SrsPacket_decode.simps reads_all_connect reads_all_connect_res reads_all_publish
    reads_all_play reads_all_metadata reads_all_reads [OF reads_user_control] packet_wf.simps(14-)
    SrsSetWindowAckSizePacket_decode_def SrsAcknowledgementPacket_decode_def SrsSetChunkSizePacket_decode_def
    packet_bytes.simps(13-15) reads_one_4bytes packet_wf.simps(1)\<close>)

section \<open>Decoding never stops the process, but for one field\<close>

lemma safely_atom:
  assumes "safely L 1 m" shows "safely L 0 m"
  using assms by (rule safely_weaken) simp_all

lemmas safely_atoms [safely_intros] =
  safely_atom [OF safely_string] safely_atom [OF safely_number]
  safely_atom [OF safely_marker [of _ RTMP_AMF0_Null], folded srs_amf0_read_null_def]
  safely_atom [OF safely_marker [of _ RTMP_AMF0_Undefined], folded srs_amf0_read_undefined_def]
  safely_atom [OF safely_amf0_reads(1)] safely_atom [OF safely_amf0_reads(2)]

lemma safely_when:
  assumes "safely L k m" and "safely L k n"
  shows "safely L k (\<lambda>b. if P b then m b else n b)"
  unfolding safely_def
proof (intro allI impI)
  fix b assume b: "buf_wf b" "length (buf_rest b) \<le> L"
  show "safe (if P b then m b else n b) \<and> (\<forall>v b'. (if P b then m b else n b) = Inr (v, b') \<longrightarrow>
      buf_wf b' \<and> length (buf_rest b') + k \<le> length (buf_rest b))"
    using safelyD [OF assms(1) b] safelyD [OF assms(2) b] by (cases "P b") auto
qed

lemma safely_Inr [safely_intros]: "safely L 0 (\<lambda>b. Inr (v, b))"
  by (simp add: safely_def)

lemma safely_unless [safely_intros]: "safely L 0 m \<Longrightarrow> safely L 0 (unless_empty m v)"
  unfolding unless_empty_def by (intro safely_when safely_Inr)


fun is_play_packet :: "SrsPacket \<Rightarrow> bool" where
  "is_play_packet (SrsPlayPacket _ _ _ _ _ _) = True"
| "is_play_packet _ = False"

lemma safely_decode:
  assumes "\<not> is_play_packet p"
  shows "safely L 0 (SrsPacket_decode p)"
proof -
  note defs = SrsConnectAppPacket_decode_def SrsConnectAppResPacket_decode_def SrsCreateStreamPacket_decode_def
    SrsCreateStreamResPacket_decode_def SrsFMLEStartPacket_decode_def SrsFMLEStartResPacket_decode_def
    SrsPublishPacket_decode_def SrsOnMetaDataPacket_decode_def SrsSetWindowAckSizePacket_decode_def
    SrsAcknowledgementPacket_decode_def SrsSetChunkSizePacket_decode_def SrsUserControlPacket_decode_def Let_def
  show ?thesis
    using assms
    by (cases p) (simp_all only: is_play_packet.simps simp_thms SrsPacket_decode.simps defs,
        (intro safely_intros | rule safely_when)+)
qed

text \<open>Operations that return, or stop at the null dereference of \<^verbatim>\<open>play\<close> and nowhere else.\<close>

definition mostly :: "(SrsBuffer \<Rightarrow> ('a \<times> SrsBuffer) result) \<Rightarrow> bool" where
  "mostly m \<longleftrightarrow> (\<forall>b. buf_wf b \<longrightarrow> safe (m b) \<or> m b = Inl Srs_null_deref)"

lemma mostly_safely: "(\<And>L. safely L 0 m) \<Longrightarrow> mostly m"
  unfolding mostly_def using safely_safe by blast

lemma mostly_bnd:
  assumes m: "\<And>L. safely L 0 m" and f: "\<And>v. mostly (f v)"
  shows "mostly (bnd m f)"
  unfolding mostly_def
proof (intro allI impI)
  fix b :: SrsBuffer assume b: "buf_wf b"
  show "safe (bnd m f b) \<or> bnd m f b = Inl Srs_null_deref"
  proof (cases "m b")
    case (Inl e)
    then show ?thesis using safelyD(1) [OF m b order_refl] by (simp add: bnd_def)
  next
    case (Inr r)
    then obtain v b' where "m b = Inr (v, b')" by (cases r) auto
    with safelyD(2) [OF m b order_refl] f [of v] show ?thesis by (auto simp: bnd_def mostly_def)
  qed
qed

lemma mostly_if: "mostly m \<Longrightarrow> mostly n \<Longrightarrow> mostly (if c then m else n)"
  by simp

lemma mostly_play_reset: "mostly (play_decode_reset n t s start duration)"
proof -
  have "mostly (\<lambda>b'. case play_reset v of Inl e \<Rightarrow> Inl e
      | Inr reset \<Rightarrow> Inr (SrsPlayPacket n t s start duration reset, b'))" for v
    by (cases v) (simp_all add: mostly_def play_reset_def amf0_is_boolean_def amf0_is_number_def)
  then have "mostly (bnd srs_amf0_read_any (\<lambda>v b'. case play_reset v of Inl e \<Rightarrow> Inl e
      | Inr reset \<Rightarrow> Inr (SrsPlayPacket n t s start duration reset, b')))"
    by (intro mostly_bnd safely_atoms)
  then show ?thesis by (auto simp: mostly_def play_decode_reset_def)
qed

lemma mostly_play: "mostly SrsPlayPacket_decode"
  unfolding SrsPlayPacket_decode_def
  by (intro mostly_bnd mostly_if mostly_safely [OF safely_fail] mostly_play_reset safely_intros)

lemma reads_then:
  "reads m v xs \<Longrightarrow> buf_wf b \<Longrightarrow> buf_rest b = xs @ ys \<Longrightarrow> bnd m f b = f v (buf_adv (length xs) b)"
  by (simp add: readsD bnd_def)

definition ends_in :: "(SrsBuffer \<Rightarrow> ('a \<times> SrsBuffer) result) \<Rightarrow> failure \<Rightarrow> byte list \<Rightarrow> bool" where
  "ends_in m e xs \<longleftrightarrow> (\<forall>b. buf_wf b \<longrightarrow> buf_rest b = xs \<longrightarrow> m b = Inl e)"

lemma ends_in_bnd:
  assumes "reads m v xs" and "ends_in (f v) e ys"
  shows "ends_in (bnd m f) e (xs @ ys)"
  unfolding ends_in_def
proof (intro allI impI)
  fix b assume b: "buf_wf b" "buf_rest b = xs @ ys"
  then show "bnd m f b = Inl e"
    using assms(2) by (simp add: reads_then [OF assms(1) b] ends_in_def buf_wf_adv)
qed

lemma ends_in_unless:
  assumes "reads m v xs" and "xs \<noteq> []" and "ends_in (f v) e ys"
  shows "ends_in (bnd (unless_empty m d) f) e (xs @ ys)"
proof -
  have "bnd (unless_empty m d) f b = bnd m f b" if "buf_rest b = xs @ ys" for b
    using that assms(2) by (simp add: bnd_def unless_empty_def)
  then show ?thesis using ends_in_bnd [where f = f, OF assms(1,3)] by (simp add: ends_in_def)
qed

lemma ends_in_play_reset:
  assumes "amf0_wf v" and "\<not> amf0_is_boolean v" and "\<not> amf0_is_number v"
  shows "ends_in (play_decode_reset n t s start duration) Srs_null_deref (amf0_bytes v)"
  unfolding ends_in_def
proof (intro allI impI)
  fix b assume b: "buf_wf b" "buf_rest b = amf0_bytes v"
  then have "buf_rest b = amf0_bytes v @ []" by simp
  from readsD [OF reads_any [OF assms(1)] b(1) this] b assms
  show "play_decode_reset n t s start duration b = Inl Srs_null_deref"
    by (simp add: play_decode_reset_def bnd_def play_reset_def)
qed

section \<open>Properties\<close>

text \<open>C9. Every packet class encodes exactly \<^verbatim>\<open>get_size()\<close> bytes: \<^verbatim>\<open>encode\<close> succeeds, no guard of the
  encoders fires, and every byte of the uninitialised allocation is overwritten with the wire format
  of the packet (so nothing of the heap leaks to the peer).\<close>

theorem packet_encode_exact:
  assumes "p \<noteq> SrsPacketBase" and "\<And>n. length (fresh n) = n"
  shows "SrsPacket_encode fresh p = Inr (get_size p, Some (packet_bytes p))"
  using encode_all [OF assms] .

theorem packet_encode_exact_witness:
  "SrsPacket_encode (\<lambda>n. replicate n 255) (SrsSetPeerBandwidthPacket 2500000 2)
     = Inr (5, Some [0, 38, 37, 160, 2])"
  using packet_encode_exact [of "SrsSetPeerBandwidthPacket 2500000 2" "\<lambda>n. replicate n 255"]
  by (simp add: be4_def le_bytes_numeral)

text \<open>C8. Encoding and decoding are inverse: each packet the stack both sends and receives (connect,
  its result, createStream, its result, releaseStream, FCPublish, FCUnpublish, publish, play with any
  combination of its optional fields, metadata, and the protocol control packets) decodes from its
  own encoding to the same packet, consuming it all.\<close>

theorem packet_roundtrip:
  assumes "packet_wf p"
  shows "SrsPacket_decode p (SrsBuffer_new (packet_bytes p))
     = Inr (p, buf_adv (length (packet_bytes p)) (SrsBuffer_new (packet_bytes p)))"
  using packet_roundtrip_all [OF assms] by (simp add: reads_all_def)

theorem packet_roundtrip_witness:
  "\<exists>b. SrsPacket_decode (SrsPlayPacket ''play'' 0 ''s'' 0 double_minus_1 True)
     (SrsBuffer_new (packet_bytes (SrsPlayPacket ''play'' 0 ''s'' 0 double_minus_1 True)))
     = Inr (SrsPlayPacket ''play'' 0 ''s'' 0 double_minus_1 True, b)"
  using packet_roundtrip [of "SrsPlayPacket ''play'' 0 ''s'' 0 double_minus_1 True"] by (simp del: packet_bytes.simps)

text \<open>C10. Decoding untrusted bytes: whatever the payload, \<^verbatim>\<open>decode\<close> of every packet class returns a
  packet or an error code, with the single exception of \<^verbatim>\<open>play\<close>, whose only other outcome is the
  null dereference on its reset field.\<close>

theorem packet_decode_safe:
  assumes "buf_wf b"
  shows "(\<not> is_play_packet p \<longrightarrow> safe (SrsPacket_decode p b))
    \<and> (safe (SrsPacket_decode p b) \<or> SrsPacket_decode p b = Inl Srs_null_deref)"
proof -
  have "safe (SrsPacket_decode p b)" if "\<not> is_play_packet p"
    using safely_safe [OF safely_decode [OF that] assms] .
  moreover have "SrsPacket_decode p = SrsPlayPacket_decode" if "is_play_packet p"
    using that by (cases p) simp_all
  ultimately show ?thesis using mostly_play assms by (cases "is_play_packet p") (auto simp: mostly_def)
qed

theorem packet_decode_safe_witness:
  "safe (SrsPacket_decode (SrsConnectAppPacket [] 0 [] None) (SrsBuffer_new [2, 0, 7, 99]))"
  using packet_decode_safe [of "SrsBuffer_new [2, 0, 7, 99]" "SrsConnectAppPacket [] 0 [] None"] by simp

text \<open>C28. A client can stop the server with one \<^verbatim>\<open>play\<close> command: when the reset field is any value
  other than a boolean or a number (null, a string, an object), \<^verbatim>\<open>SrsPlayPacket::decode\<close> frees it,
  which sets the pointer to null, and dereferences it for its error message.\<close>

theorem play_decode_null_deref:
  assumes "length s < 32768" and "amf0_wf v" and "\<not> amf0_is_boolean v" and "\<not> amf0_is_number v"
  shows "SrsPlayPacket_decode (SrsBuffer_new (command_bytes ''play'' t @ amf0_bytes SrsAmf0Null
      @ amf0_bytes (SrsAmf0String s) @ amf0_bytes (SrsAmf0Number start) @ amf0_bytes (SrsAmf0Number duration)
      @ amf0_bytes v)) = Inl Srs_null_deref"
proof -
  let ?tail = "\<lambda>n t. bnd srs_amf0_read_null (\<lambda>_. bnd (srs_amf0_read_string []) (\<lambda>stream_name.
      bnd (unless_empty srs_amf0_read_number double_minus_2) (\<lambda>start.
      bnd (unless_empty srs_amf0_read_number double_minus_1) (\<lambda>duration. play_decode_reset n t stream_name start duration))))"
  have "ends_in (?tail ''play'' t) Srs_null_deref (amf0_bytes SrsAmf0Null @ amf0_bytes (SrsAmf0String s)
      @ amf0_bytes (SrsAmf0Number start) @ amf0_bytes (SrsAmf0Number duration) @ amf0_bytes v)"
    using assms
    by (intro ends_in_bnd [OF reads_atoms(3)] ends_in_bnd [OF reads_string_empty] ends_in_unless [OF reads_atoms(2)]
        ends_in_play_reset amf0_bytes_nonempty)
  then have "ends_in (if ''play'' = [] \<or> ''play'' \<noteq> ''play'' then fail (Srs_error ERROR_RTMP_AMF0_DECODE)
        else bnd srs_amf0_read_number (?tail ''play'')) Srs_null_deref (amf0_bytes (SrsAmf0Number t) @ amf0_bytes SrsAmf0Null
        @ amf0_bytes (SrsAmf0String s) @ amf0_bytes (SrsAmf0Number start) @ amf0_bytes (SrsAmf0Number duration) @ amf0_bytes v)"
    using ends_in_bnd [where f = "?tail ''play''", OF reads_atoms(2)] by (simp del: amf0_bytes.simps)
  then have "ends_in SrsPlayPacket_decode Srs_null_deref (amf0_bytes (SrsAmf0String ''play'') @ amf0_bytes (SrsAmf0Number t)
        @ amf0_bytes SrsAmf0Null @ amf0_bytes (SrsAmf0String s) @ amf0_bytes (SrsAmf0Number start)
        @ amf0_bytes (SrsAmf0Number duration) @ amf0_bytes v)"
    unfolding SrsPlayPacket_decode_def by (intro ends_in_bnd [OF reads_string_nonempty]) simp_all
  then show ?thesis by (simp add: ends_in_def command_bytes_def del: amf0_bytes.simps)
qed

theorem play_decode_null_deref_witness:
  "SrsPlayPacket_decode (SrsBuffer_new (command_bytes ''play'' 0 @ amf0_bytes SrsAmf0Null
      @ amf0_bytes (SrsAmf0String ''livestream'') @ amf0_bytes (SrsAmf0Number double_minus_2)
      @ amf0_bytes (SrsAmf0Number double_minus_1) @ amf0_bytes SrsAmf0Null)) = Inl Srs_null_deref"
  using play_decode_null_deref [of "''livestream''" SrsAmf0Null 0 double_minus_2 double_minus_1]
  by (simp add: amf0_is_boolean_def amf0_is_number_def del: amf0_bytes.simps)

end
