(* ===== verification/Caches.thy ===== *)
theory Caches
  imports Consumer Packet
begin

text \<open>
  \<^verbatim>\<open>src/src/app/srs_app_source.cpp\<close>, what a source keeps for the players that join later:
  \<^verbatim>\<open>SrsGopCache\<close>, the frames since the last keyframe, and \<^verbatim>\<open>SrsMetaCache\<close>, the metadata and the
  sequence headers. Both belong to one source and are used under its lock. The copies that they hold
  are values here.
\<close>

section \<open>The GOP cache\<close>

abbreviation (input) SRS_PURE_AUDIO_GUESS_COUNT :: int where "SRS_PURE_AUDIO_GUESS_COUNT \<equiv> 115"

record SrsGopCache =
  enable_gop_cache :: bool
  gop_cache_max_frames :: int
  cached_video_count :: int
  audio_after_last_video_count :: int
  gop_cache :: "SrsSharedPtrMessage list"

definition SrsGopCache_new :: SrsGopCache where
  "SrsGopCache_new = \<lparr>enable_gop_cache = True, gop_cache_max_frames = 0, cached_video_count = 0,
     audio_after_last_video_count = 0, gop_cache = []\<rparr>"

definition gop_clear :: "SrsGopCache \<Rightarrow> SrsGopCache" where
  "gop_clear g = g\<lparr>gop_cache := [], cached_video_count := 0, audio_after_last_video_count := 0\<rparr>"

definition gop_set :: "bool \<Rightarrow> SrsGopCache \<Rightarrow> SrsGopCache" where
  "gop_set v g = (let g1 = g\<lparr>enable_gop_cache := v\<rparr> in if \<not> v then gop_clear g1 else g1)"

definition set_gop_cache_max_frames :: "int \<Rightarrow> SrsGopCache \<Rightarrow> SrsGopCache" where
  "set_gop_cache_max_frames v g = g\<lparr>gop_cache_max_frames := v\<rparr>"

definition pure_audio :: "SrsGopCache \<Rightarrow> bool" where
  "pure_audio g \<longleftrightarrow> cached_video_count g = 0"

definition gop_cache_frame :: "SrsSharedPtrMessage \<Rightarrow> SrsGopCache \<Rightarrow> SrsGopCache" where
  "gop_cache_frame msg g =
     (if \<not> enable_gop_cache g then g
      else if sm_is_video msg \<and> \<not> SrsFlvVideo_h264 (sm_payload msg) then g
      else let g1 = (if sm_is_video msg
                     then g\<lparr>cached_video_count := cached_video_count g + 1, audio_after_last_video_count := 0\<rparr> else g)
           in if pure_audio g1 then g1
              else let g2 = (if sm_is_audio msg
                             then g1\<lparr>audio_after_last_video_count := audio_after_last_video_count g1 + 1\<rparr> else g1)
                   in if audio_after_last_video_count g2 > SRS_PURE_AUDIO_GUESS_COUNT then gop_clear g2
                      else let g3 = (if sm_is_video msg \<and> SrsFlvVideo_keyframe (sm_payload msg)
                                     then (gop_clear g2)\<lparr>cached_video_count := 1\<rparr> else g2);
                               g4 = g3\<lparr>gop_cache := gop_cache g3 @ [msg]\<rparr>
                           in if gop_cache_max_frames g4 > 0 \<and> int (length (gop_cache g4)) > gop_cache_max_frames g4
                              then gop_clear g4 else g4)"

definition gop_dump :: "SrsRtmpJitterAlgorithm \<Rightarrow> SrsGopCache \<Rightarrow> SrsLiveConsumer \<Rightarrow> SrsLiveConsumer" where
  "gop_dump ag g c = fold (consumer_enqueue ag) (gop_cache g) c"

definition gop_empty :: "SrsGopCache \<Rightarrow> bool" where
  "gop_empty g \<longleftrightarrow> gop_cache g = []"

definition gop_start_time :: "SrsGopCache \<Rightarrow> int" where
  "gop_start_time g = (if gop_empty g then 0 else sm_timestamp (hd (gop_cache g)) * SRS_UTIME_MILLISECONDS)"

section \<open>The metadata cache\<close>

record SrsMetaCache =
  mc_meta :: "SrsSharedPtrMessage option"
  mc_video :: "SrsSharedPtrMessage option"
  mc_audio :: "SrsSharedPtrMessage option"

definition SrsMetaCache_new :: SrsMetaCache where
  "SrsMetaCache_new = \<lparr>mc_meta = None, mc_video = None, mc_audio = None\<rparr>"

definition meta_clear :: "SrsMetaCache \<Rightarrow> SrsMetaCache" where
  "meta_clear m = \<lparr>mc_meta = None, mc_video = None, mc_audio = None\<rparr>"

definition enqueue_opt :: "SrsRtmpJitterAlgorithm \<Rightarrow> SrsSharedPtrMessage option \<Rightarrow> SrsLiveConsumer \<Rightarrow> SrsLiveConsumer" where
  "enqueue_opt ag m c = (case m of None \<Rightarrow> c | Some msg \<Rightarrow> consumer_enqueue ag msg c)"

definition meta_dumps :: "SrsRtmpJitterAlgorithm \<Rightarrow> bool \<Rightarrow> bool \<Rightarrow> SrsMetaCache \<Rightarrow> SrsLiveConsumer \<Rightarrow> SrsLiveConsumer" where
  "meta_dumps ag dm ds m c =
     (let c1 = (if dm then enqueue_opt ag (mc_meta m) c else c);
          c2 = (if ds then enqueue_opt ag (mc_audio m) c1 else c1)
      in if ds then enqueue_opt ag (mc_video m) c2 else c2)"

abbreviation (input) RTMP_SIG_SRS_SERVER :: string where "RTMP_SIG_SRS_SERVER \<equiv> ''SRS_SIMPLE/0.1.0''"
abbreviation (input) RTMP_SIG_SRS_VERSION :: string where "RTMP_SIG_SRS_VERSION \<equiv> ''0.1.0''"

text \<open>
  The metadata object that the players get: without its duration, with the server and its version. The
  properties that the code reads in between go to the log only.
\<close>

definition server_metadata :: "SrsUnSortedHashtable \<Rightarrow> SrsUnSortedHashtable" where
  "server_metadata md =
     (let md1 = (if ht_get_property ''duration'' md \<noteq> None then ht_remove ''duration'' md else md);
          md2 = ht_set ''server'' (Some (SrsAmf0String RTMP_SIG_SRS_SERVER)) md1
      in ht_set ''server_version'' (Some (SrsAmf0String RTMP_SIG_SRS_VERSION)) md2)"

text \<open>The cache and whether the metadata was updated. \<open>fresh\<close> is the content of newly allocated memory.\<close>

definition update_data :: "(nat \<Rightarrow> byte list) \<Rightarrow> SrsMessageHeader \<Rightarrow> string \<Rightarrow> SrsUnSortedHashtable \<Rightarrow> SrsMetaCache
    \<Rightarrow> (bool \<times> SrsMetaCache) result" where
  "update_data fresh header name md m =
     (case SrsPacket_encode fresh (SrsOnMetaDataPacket name (server_metadata md)) of
        Inl e \<Rightarrow> Inl e
      | Inr (sz, payload) \<Rightarrow>
          if sz \<le> 0 then Inr (False, m)
          else (case SrsSharedPtrMessage_create header (case payload of None \<Rightarrow> [] | Some bs \<Rightarrow> bs) sz of
                  Inl e \<Rightarrow> Inl e
                | Inr msg \<Rightarrow> Inr (True, m\<lparr>mc_meta := Some msg\<rparr>)))"

definition update_ash :: "SrsSharedPtrMessage \<Rightarrow> SrsMetaCache \<Rightarrow> SrsMetaCache" where
  "update_ash msg m = m\<lparr>mc_audio := Some msg\<rparr>"

definition update_vsh :: "SrsSharedPtrMessage \<Rightarrow> SrsMetaCache \<Rightarrow> SrsMetaCache" where
  "update_vsh msg m = m\<lparr>mc_video := Some msg\<rparr>"

section \<open>What the GOP cache holds\<close>

definition is_h264 :: "SrsSharedPtrMessage \<Rightarrow> bool" where
  "is_h264 msg \<longleftrightarrow> sm_is_video msg \<and> SrsFlvVideo_h264 (sm_payload msg)"

definition is_keyframe :: "SrsSharedPtrMessage \<Rightarrow> bool" where
  "is_keyframe msg \<longleftrightarrow> sm_is_video msg \<and> SrsFlvVideo_keyframe (sm_payload msg)"

text \<open>The audio messages behind the last video.\<close>

definition audio_tail :: "SrsSharedPtrMessage list \<Rightarrow> nat" where
  "audio_tail ms = length (takeWhile sm_is_audio (rev ms))"

text \<open>
  The invariant: the counters count what is cached; the cache starts with an H.264 video frame and all its
  video is H.264; a keyframe can only be the first frame; the number of frames and of audio frames
  behind the last video is limited.
\<close>

definition gop_inv :: "SrsGopCache \<Rightarrow> bool" where
  "gop_inv g \<longleftrightarrow>
     cached_video_count g = int (length (filter sm_is_video (gop_cache g)))
     \<and> audio_after_last_video_count g = int (audio_tail (gop_cache g))
     \<and> audio_tail (gop_cache g) \<le> 115
     \<and> list_all (\<lambda>m. is_h264 m \<or> sm_is_audio m) (gop_cache g)
     \<and> (gop_cache g \<noteq> [] \<longrightarrow> is_h264 (hd (gop_cache g)))
     \<and> list_all (\<lambda>m. \<not> is_keyframe m) (tl (gop_cache g))
     \<and> (\<not> enable_gop_cache g \<longrightarrow> gop_cache g = [])"

definition gop_bounded :: "SrsGopCache \<Rightarrow> bool" where
  "gop_bounded g \<longleftrightarrow> gop_cache_max_frames g > 0 \<longrightarrow> int (length (gop_cache g)) \<le> gop_cache_max_frames g"

lemma audio_not_video: "sm_is_audio m \<Longrightarrow> \<not> sm_is_video m"
  by (simp add: sm_is_audio_def sm_is_video_def)

lemma audio_tail_simps [simp]:
  "audio_tail [] = 0" "audio_tail (ms @ [m]) = (if sm_is_audio m then Suc (audio_tail ms) else 0)"
  by (simp_all add: audio_tail_def)

lemma gop_inv_clear: "gop_inv (gop_clear g)" "gop_bounded (gop_clear g)"
  by (simp_all add: gop_inv_def gop_bounded_def gop_clear_def audio_tail_def)

lemma no_video_empty: "gop_inv g \<Longrightarrow> cached_video_count g = 0 \<longleftrightarrow> gop_cache g = []"
  by (cases "gop_cache g") (auto simp: gop_inv_def is_h264_def)

text \<open>The frame on the branches of the code: what is added to the cache.\<close>

lemma gop_inv_snoc:
  assumes "gop_inv g" and "gop_cache g \<noteq> []" and "is_h264 m \<or> sm_is_audio m" and "\<not> is_keyframe m"
    and "sm_is_audio m \<longrightarrow> audio_tail (gop_cache g) < 115" and "enable_gop_cache g"
  shows "gop_inv (g\<lparr>cached_video_count := cached_video_count g + (if sm_is_video m then 1 else 0),
      audio_after_last_video_count := (if sm_is_audio m then audio_after_last_video_count g + 1 else 0),
      gop_cache := gop_cache g @ [m]\<rparr>)"
  using assms audio_not_video [of m] by (auto simp: gop_inv_def is_h264_def)

lemma gop_inv_single:
  assumes "is_h264 m" and "enable_gop_cache g"
  shows "gop_inv (g\<lparr>cached_video_count := 1, audio_after_last_video_count := 0, gop_cache := [m]\<rparr>)"
  using assms audio_not_video [of m] by (auto simp: gop_inv_def is_h264_def audio_tail_def)

text \<open>The branches of \<^const>\<open>gop_cache_frame\<close> for a message with audio or video, on a cache with the invariant.\<close>

definition gop_limited :: "SrsGopCache \<Rightarrow> SrsGopCache" where
  "gop_limited g = (if gop_cache_max_frames g > 0 \<and> int (length (gop_cache g)) > gop_cache_max_frames g then gop_clear g else g)"

lemma gop_frame_cases:
  assumes inv: "gop_inv g" and av: "sm_is_av msg"
  shows "gop_cache_frame msg g =
     (if \<not> enable_gop_cache g \<or> sm_is_video msg \<and> \<not> is_h264 msg then g
      else if sm_is_audio msg
      then (if gop_cache g = [] then g
            else if audio_tail (gop_cache g) = 115 then gop_clear g
            else gop_limited (g\<lparr>audio_after_last_video_count := audio_after_last_video_count g + 1, gop_cache := gop_cache g @ [msg]\<rparr>))
      else if is_keyframe msg \<or> gop_cache g = []
      then gop_limited (g\<lparr>cached_video_count := 1, audio_after_last_video_count := 0, gop_cache := [msg]\<rparr>)
      else gop_limited (g\<lparr>cached_video_count := cached_video_count g + 1, audio_after_last_video_count := 0, gop_cache := gop_cache g @ [msg]\<rparr>))"
proof -
  have av: "sm_is_video msg \<longleftrightarrow> \<not> sm_is_audio msg"
    using av by (auto simp: sm_is_av_def sm_is_video_def sm_is_audio_def)
  have n: "0 \<le> cached_video_count g" "cached_video_count g = 0 \<longleftrightarrow> gop_cache g = []"
    "audio_after_last_video_count g = int (audio_tail (gop_cache g))" "audio_tail (gop_cache g) \<le> 115"
    using inv no_video_empty [OF inv] by (auto simp: gop_inv_def)
  consider (off) "\<not> enable_gop_cache g \<or> sm_is_video msg \<and> \<not> is_h264 msg"
    | (audio) "enable_gop_cache g" "sm_is_audio msg" | (video) "enable_gop_cache g" "is_h264 msg" "\<not> sm_is_audio msg"
    using av by (auto simp: is_h264_def)
  then show ?thesis
  proof cases
    case off
    then show ?thesis using av by (auto simp: gop_cache_frame_def is_h264_def)
  next
    case audio
    then show ?thesis using n av
      by (auto simp: gop_cache_frame_def pure_audio_def gop_limited_def Let_def gop_clear_def is_h264_def is_keyframe_def)
  next
    case video
    then show ?thesis using n av
      by (auto simp: gop_cache_frame_def pure_audio_def gop_limited_def Let_def gop_clear_def is_h264_def is_keyframe_def)
  qed
qed

lemma gop_limited_inv: "gop_inv g \<Longrightarrow> gop_inv (gop_limited g) \<and> gop_bounded (gop_limited g)"
  using gop_inv_clear [of g] by (simp add: gop_limited_def) (auto simp: gop_bounded_def)

lemma gop_frame_inv:
  assumes inv: "gop_inv g" and av: "sm_is_av msg"
  shows "gop_inv (gop_cache_frame msg g) \<and> (gop_cache_frame msg g = g \<or> gop_bounded (gop_cache_frame msg g))"
proof -
  have v: "\<not> sm_is_audio msg \<Longrightarrow> sm_is_video msg" using av by (auto simp: sm_is_av_def sm_is_video_def sm_is_audio_def)
  have t: "audio_tail (gop_cache g) \<le> 115" using inv by (simp add: gop_inv_def)
  consider (same) "gop_cache_frame msg g = g" | (clear) "gop_cache_frame msg g = gop_clear g"
    | (audio) "enable_gop_cache g" "sm_is_audio msg" "gop_cache g \<noteq> []" "audio_tail (gop_cache g) < 115"
        "gop_cache_frame msg g = gop_limited (g\<lparr>audio_after_last_video_count := audio_after_last_video_count g + 1, gop_cache := gop_cache g @ [msg]\<rparr>)"
    | (key) "enable_gop_cache g" "is_h264 msg"
        "gop_cache_frame msg g = gop_limited (g\<lparr>cached_video_count := 1, audio_after_last_video_count := 0, gop_cache := [msg]\<rparr>)"
    | (video) "enable_gop_cache g" "is_h264 msg" "\<not> sm_is_audio msg" "\<not> is_keyframe msg" "gop_cache g \<noteq> []"
        "gop_cache_frame msg g = gop_limited (g\<lparr>cached_video_count := cached_video_count g + 1, audio_after_last_video_count := 0, gop_cache := gop_cache g @ [msg]\<rparr>)"
    using gop_frame_cases [OF inv av] v t by (auto split: if_splits)
  then show ?thesis
  proof cases
    case same
    then show ?thesis using inv by simp
  next
    case clear
    then show ?thesis by (simp add: gop_inv_clear)
  next
    case audio
    have "\<not> is_keyframe msg" using audio_not_video [OF audio(2)] by (simp add: is_keyframe_def)
    with gop_limited_inv [OF gop_inv_snoc [OF inv audio(3), of msg]] audio audio_not_video [OF audio(2)]
    show ?thesis by simp
  next
    case key
    with gop_limited_inv [OF gop_inv_single] show ?thesis by simp
  next
    case video
    with gop_limited_inv [OF gop_inv_snoc [OF inv video(5), of msg]] v show ?thesis by simp
  qed
qed


lemma gop_frame_options: "enable_gop_cache (gop_cache_frame msg g) = enable_gop_cache g"
  "gop_cache_max_frames (gop_cache_frame msg g) = gop_cache_max_frames g"
  by (simp_all add: gop_cache_frame_def Let_def gop_clear_def)

text \<open>The states of a cache: the source caches audio and video, clears the cache and changes its options.\<close>

inductive gop_reachable :: "SrsGopCache \<Rightarrow> bool" where
  new: "gop_reachable SrsGopCache_new"
| frame: "gop_reachable g \<Longrightarrow> sm_is_av msg \<Longrightarrow> gop_reachable (gop_cache_frame msg g)"
| clear: "gop_reachable g \<Longrightarrow> gop_reachable (gop_clear g)"
| set: "gop_reachable g \<Longrightarrow> gop_reachable (gop_set v g)"
| max_frames: "gop_reachable g \<Longrightarrow> gop_reachable (set_gop_cache_max_frames n g)"

lemma gop_reachable_inv: "gop_reachable g \<Longrightarrow> gop_inv g"
proof (induction rule: gop_reachable.induct)
  case new
  then show ?case by (simp add: gop_inv_def SrsGopCache_new_def)
next
  case (frame g msg)
  then show ?case using gop_frame_inv by blast
next
  case (clear g)
  then show ?case by (simp add: gop_inv_clear)
next
  case (set g v)
  then show ?case by (cases v) (simp add: gop_set_def gop_inv_def, simp add: gop_set_def gop_inv_clear)
next
  case (max_frames g n)
  then show ?case by (simp add: gop_inv_def set_gop_cache_max_frames_def)
qed

text \<open>In every state that the GOP cache can reach its two counters count the cached video frames and the
  audio behind the last of them; it starts with an H.264 video frame, holds only H.264 video and
  audio, and a keyframe only as its first frame; there are at most 115 audio frames behind the last
  video, nothing while it is disabled, and a frame never leaves it with more frames than its limit.\<close>

theorem gop_cache_invariant:
  assumes "gop_reachable g"
  shows "gop_inv g \<and> (sm_is_av msg \<longrightarrow> gop_cache_frame msg g = g \<or> gop_bounded (gop_cache_frame msg g))"
  using gop_reachable_inv [OF assms] gop_frame_inv by blast

theorem gop_cache_invariant_witness:
  "gop_inv (gop_cache_frame (ex_msg 9 40 [0x27, 1]) (gop_cache_frame (ex_msg 9 0 [0x17, 1]) SrsGopCache_new))
   \<and> length (gop_cache (gop_cache_frame (ex_msg 9 40 [0x27, 1]) (gop_cache_frame (ex_msg 9 0 [0x17, 1]) SrsGopCache_new))) = 2"
proof -
  let ?g = "gop_cache_frame (ex_msg 9 40 [0x27, 1]) (gop_cache_frame (ex_msg 9 0 [0x17, 1]) SrsGopCache_new)"
  have "gop_reachable ?g" by (intro gop_reachable.intros) (simp_all add: ex_msg_def sm_is_av_def)
  from gop_cache_invariant [OF this] have "gop_inv ?g" by blast
  moreover have "length (gop_cache ?g) = 2" by code_simp
  ultimately show ?thesis by blast
qed

section \<open>The frames since the last keyframe\<close>

definition cacheable :: "SrsSharedPtrMessage \<Rightarrow> bool" where
  "cacheable m \<longleftrightarrow> sm_is_audio m \<or> is_h264 m"

text \<open>No more than 115 audio frames in a row; \<open>n\<close> counts those before.\<close>

fun audio_runs :: "nat \<Rightarrow> SrsSharedPtrMessage list \<Rightarrow> bool" where
  "audio_runs n [] \<longleftrightarrow> True"
| "audio_runs n (m # ms) \<longleftrightarrow> (if sm_is_audio m then n < 115 \<and> audio_runs (Suc n) ms else audio_runs 0 ms)"

definition fits :: "SrsGopCache \<Rightarrow> nat \<Rightarrow> bool" where
  "fits g n \<longleftrightarrow> (gop_cache_max_frames g > 0 \<longrightarrow> int n \<le> gop_cache_max_frames g)"

lemma gop_frame_plain:
  assumes "gop_inv g" and "enable_gop_cache g" and "gop_cache g \<noteq> []" and "sm_is_av m" and "\<not> (is_h264 m \<and> is_keyframe m)"
    and "cacheable m \<longrightarrow> fits g (Suc (length (gop_cache g)))" and "sm_is_audio m \<longrightarrow> audio_tail (gop_cache g) < 115"
  shows "gop_cache (gop_cache_frame m g) = gop_cache g @ filter cacheable [m]"
proof -
  have "sm_is_video m \<longleftrightarrow> \<not> sm_is_audio m" using assms(4) by (auto simp: sm_is_av_def sm_is_video_def sm_is_audio_def)
  then show ?thesis
    using gop_frame_cases [OF assms(1,4)] assms by (auto simp: gop_limited_def fits_def cacheable_def is_h264_def)
qed

lemma gop_frames_plain:
  "gop_inv g \<Longrightarrow> enable_gop_cache g \<Longrightarrow> gop_cache g \<noteq> [] \<Longrightarrow> list_all sm_is_av ms \<Longrightarrow>
     list_all (\<lambda>m. \<not> (is_h264 m \<and> is_keyframe m)) ms \<Longrightarrow> fits g (length (gop_cache g) + length (filter cacheable ms)) \<Longrightarrow>
     audio_runs (audio_tail (gop_cache g)) (filter cacheable ms) \<Longrightarrow>
     gop_cache (fold gop_cache_frame ms g) = gop_cache g @ filter cacheable ms"
proof (induction ms arbitrary: g)
  case (Cons m ms)
  have f: "gop_cache (gop_cache_frame m g) = gop_cache g @ filter cacheable [m]"
    using Cons.prems by (intro gop_frame_plain) (auto simp: fits_def cacheable_def split: if_splits)
  have "gop_cache (fold gop_cache_frame ms (gop_cache_frame m g)) = gop_cache (gop_cache_frame m g) @ filter cacheable ms"
    using Cons.prems f gop_frame_inv [of g m]
    by (intro Cons.IH) (auto simp: gop_frame_options fits_def split: if_splits)
  then show ?case by (simp add: f)
qed simp

text \<open>C36. The GOP cache holds what a player needs to start: after a keyframe it holds exactly the keyframe and
  the audio and H.264 video that came since, in order, up to its limit of frames and as long as no
  more than 115 audio frames follow each other.\<close>

theorem gop_since_keyframe:
  assumes "gop_reachable g" and "enable_gop_cache g" and "is_h264 k" and "is_keyframe k"
    and "list_all sm_is_av ms" and "list_all (\<lambda>m. \<not> (is_h264 m \<and> is_keyframe m)) ms"
    and "fits g (Suc (length (filter cacheable ms)))" and "audio_runs 0 (filter cacheable ms)"
  shows "gop_cache (fold gop_cache_frame (k # ms) g) = k # filter cacheable ms"
proof -
  have k: "sm_is_av k" "\<not> sm_is_audio k" using assms(3) by (auto simp: is_h264_def sm_is_av_def sm_is_video_def sm_is_audio_def)
  note inv = gop_reachable_inv [OF assms(1)]
  have g: "gop_cache (gop_cache_frame k g) = [k]"
    using gop_frame_cases [OF inv k(1)] assms k(2) by (auto simp: gop_limited_def fits_def)
  have "gop_cache (fold gop_cache_frame ms (gop_cache_frame k g)) = gop_cache (gop_cache_frame k g) @ filter cacheable ms"
    using g gop_frame_inv [OF inv k(1)] assms k(2)
    by (intro gop_frames_plain) (auto simp: gop_frame_options fits_def audio_tail_def)
  then show ?thesis by (simp add: g)
qed

theorem gop_since_keyframe_witness:
  "gop_cache (fold gop_cache_frame [ex_msg 9 0 [0x17, 1], ex_msg 8 10 [0xaf, 1], ex_msg 9 20 [0x24, 1], ex_msg 9 40 [0x27, 1]] SrsGopCache_new)
     = [ex_msg 9 0 [0x17, 1], ex_msg 8 10 [0xaf, 1], ex_msg 9 40 [0x27, 1]]"
proof -
  let ?ms = "[ex_msg 8 10 [0xaf, 1], ex_msg 9 20 [0x24, 1], ex_msg 9 40 [0x27, 1]]" and ?k = "ex_msg 9 0 [0x17, 1]"
  have k: "is_h264 ?k" "is_keyframe ?k" "enable_gop_cache SrsGopCache_new" by code_simp+
  have ms: "list_all sm_is_av ?ms" "list_all (\<lambda>m. \<not> (is_h264 m \<and> is_keyframe m)) ?ms" by code_simp+
  have f: "filter cacheable ?ms = [ex_msg 8 10 [0xaf, 1], ex_msg 9 40 [0x27, 1]]" by code_simp
  have "fits SrsGopCache_new (Suc (length (filter cacheable ?ms)))" "audio_runs 0 (filter cacheable ?ms)" by code_simp+
  from gop_since_keyframe [OF gop_reachable.new k(3,1,2) ms this] show ?thesis unfolding f .
qed

end
