(* ===== verification/Utility.thy ===== *)
theory Utility
  imports Codec Amf0 "HOL-Library.Sublist"
begin

text \<open>
  \<^verbatim>\<open>src/src/protocol/srs_protocol_utility.cpp\<close>: the string helpers, the discovery of host, application
  and stream from the URL of a client, and the URL that identifies a stream; and \<^verbatim>\<open>SrsRequest\<close> of
  \<^verbatim>\<open>src/src/protocol/srs_protocol_rtmp_stack.cpp\<close>, which holds what was discovered. The helpers that ask
  the operating system for the addresses of a socket are not modelled.
\<close>

section \<open>std::string\<close>

fun find_sub :: "string \<Rightarrow> string \<Rightarrow> nat option" where
  "find_sub pat s = (if prefix pat s then Some 0 else case s of [] \<Rightarrow> None | _ # cs \<Rightarrow> map_option Suc (find_sub pat cs))"

declare find_sub.simps [simp del]

fun find_first_of :: "string \<Rightarrow> string \<Rightarrow> nat option" where
  "find_first_of chars [] = None"
| "find_first_of chars (c # cs) = (if c \<in> set chars then Some 0 else map_option Suc (find_first_of chars cs))"

definition rfind_char :: "char \<Rightarrow> string \<Rightarrow> nat option" where
  "rfind_char ch s = (case find_first_of [ch] (rev s) of None \<Rightarrow> None | Some n \<Rightarrow> Some (length s - 1 - n))"

definition substr :: "nat \<Rightarrow> nat \<Rightarrow> string \<Rightarrow> string" where
  "substr pos n s = take n (drop pos s)"

text \<open>\<^verbatim>\<open>atoi\<close> of the C library: blanks, a sign, digits; the value is clamped to 64 bits and cut to 32.\<close>

fun digits_value :: "int \<Rightarrow> string \<Rightarrow> int" where
  "digits_value v [] = v"
| "digits_value v (c # cs) =
     (let d = of_char c :: int in if 48 \<le> d \<and> d \<le> 57 then digits_value (v * 10 + (d - 48)) cs else v)"

definition atoi :: "string \<Rightarrow> int" where
  "atoi s =
     (let t = dropWhile (\<lambda>c. c \<in> {CHR '' '', CHR 0x09, CHR 0x0A, CHR 0x0B, CHR 0x0C, CHR 0x0D}) s;
          v = (case t of [] \<Rightarrow> 0
               | c # cs \<Rightarrow> if c = CHR ''-'' then - digits_value 0 cs else if c = CHR ''+'' then digits_value 0 cs else digits_value 0 t)
      in to_int32 (max (- (2 ^ 63)) (min (2 ^ 63 - 1) v)))"

section \<open>String helpers\<close>

text \<open>
  The loop of \<^verbatim>\<open>srs_string_replace\<close> never looks again at what it has replaced, so that it goes on with
  the rest. For an empty \<open>old\<close>, which no caller passes, the code does not end; the model stops.
\<close>

lemma find_sub_bound: "find_sub pat s = Some n \<Longrightarrow> n + length pat \<le> length s"
proof (induction s arbitrary: n)
  case Nil
  then show ?case by (subst (asm) find_sub.simps) (auto split: if_splits)
next
  case (Cons c s)
  then show ?case by (subst (asm) find_sub.simps) (auto dest: prefix_length_le split: if_splits)
qed

function replace_loop :: "string \<Rightarrow> string \<Rightarrow> string \<Rightarrow> string" where
  "replace_loop old new rest =
     (if old = [] then rest
      else case find_sub old rest of
             None \<Rightarrow> rest
           | Some pos \<Rightarrow> take pos rest @ new @ replace_loop old new (drop (pos + length old) rest))"
  by pat_completeness auto
termination
  by (relation "measure (\<lambda>(_, _, rest). length rest)") (auto dest!: find_sub_bound simp: neq_Nil_conv)

declare replace_loop.simps [simp del]

definition srs_string_replace :: "string \<Rightarrow> string \<Rightarrow> string \<Rightarrow> string" where
  "srs_string_replace str old new = (if old = new then str else replace_loop old new str)"

text \<open>
  The loops over the characters to trim: \<open>chars\<close> are those from the index \<^verbatim>\<open>i\<close> on; after a match the
  index starts again.
\<close>

function trim_end_loop :: "string \<Rightarrow> string \<Rightarrow> string \<Rightarrow> string" where
  "trim_end_loop trim_chars [] s = s"
| "trim_end_loop trim_chars (ch # chars) s =
     (if s \<noteq> [] \<and> last s = ch then trim_end_loop trim_chars trim_chars (butlast s)
      else trim_end_loop trim_chars chars s)"
  by pat_completeness auto
termination
  by (relation "measures [\<lambda>(_, _, s). length s, \<lambda>(_, chars, _). length chars]") auto

definition srs_string_trim_end :: "string \<Rightarrow> string \<Rightarrow> string" where
  "srs_string_trim_end str trim_chars = trim_end_loop trim_chars trim_chars str"

function trim_start_loop :: "string \<Rightarrow> string \<Rightarrow> string \<Rightarrow> string" where
  "trim_start_loop trim_chars [] s = s"
| "trim_start_loop trim_chars (ch # chars) s =
     (if s \<noteq> [] \<and> hd s = ch then trim_start_loop trim_chars trim_chars (tl s)
      else trim_start_loop trim_chars chars s)"
  by pat_completeness auto
termination
  by (relation "measures [\<lambda>(_, _, s). length s, \<lambda>(_, chars, _). length chars]") auto

definition srs_string_trim_start :: "string \<Rightarrow> string \<Rightarrow> string" where
  "srs_string_trim_start str trim_chars = trim_start_loop trim_chars trim_chars str"

function remove_loop :: "string \<Rightarrow> string \<Rightarrow> string \<Rightarrow> string" where
  "remove_loop remove_chars [] s = s"
| "remove_loop remove_chars (ch # chars) s =
     (if ch \<in> set s then remove_loop remove_chars remove_chars (filter (\<lambda>c. c \<noteq> ch) s)
      else remove_loop remove_chars chars s)"
  by pat_completeness auto
termination
  by (relation "measures [\<lambda>(_, _, s). length s, \<lambda>(_, chars, _). length chars]") (auto intro: length_filter_less)

definition srs_string_remove :: "string \<Rightarrow> string \<Rightarrow> string" where
  "srs_string_remove str remove_chars = remove_loop remove_chars remove_chars str"

section \<open>The request of a client\<close>

abbreviation (input) SRS_CONSTS_RTMP_DEFAULT_PORT :: int where "SRS_CONSTS_RTMP_DEFAULT_PORT \<equiv> 1935"
abbreviation (input) SRS_CONSTS_RTMP_DEFAULT_VHOST :: string where "SRS_CONSTS_RTMP_DEFAULT_VHOST \<equiv> ''__defaultVhost__''"
abbreviation (input) SRS_CONSTS_RTMP_DEFAULT_APP :: string where "SRS_CONSTS_RTMP_DEFAULT_APP \<equiv> ''__defaultApp__''"

record SrsRequest =
  rq_ip :: string
  rq_tcUrl :: string
  rq_pageUrl :: string
  rq_swfUrl :: string
  rq_objectEncoding :: double
  rq_schema :: string
  rq_vhost :: string
  rq_host :: string
  rq_port :: int
  rq_app :: string
  rq_param :: string
  rq_stream :: string
  rq_duration :: int
  rq_args :: "SrsUnSortedHashtable option"

definition SrsRequest_new :: SrsRequest where
  "SrsRequest_new = \<lparr>rq_ip = [], rq_tcUrl = [], rq_pageUrl = [], rq_swfUrl = [], rq_objectEncoding = 0, rq_schema = [],
     rq_vhost = [], rq_host = [], rq_port = SRS_CONSTS_RTMP_DEFAULT_PORT, rq_app = [], rq_param = [], rq_stream = [],
     rq_duration = - 1, rq_args = None\<rparr>"

definition srs_generate_stream_url :: "string \<Rightarrow> string \<Rightarrow> string \<Rightarrow> string" where
  "srs_generate_stream_url vhost app stream =
     (if SRS_CONSTS_RTMP_DEFAULT_VHOST \<noteq> vhost then vhost else []) @ ''/'' @ app @ ''/'' @ stream"

definition get_stream_url :: "SrsRequest \<Rightarrow> string" where
  "get_stream_url r = srs_generate_stream_url (rq_vhost r) (rq_app r) (rq_stream r)"

definition srs_path_build_stream :: "string \<Rightarrow> string \<Rightarrow> string \<Rightarrow> string \<Rightarrow> string" where
  "srs_path_build_stream template_path vhost app stream =
     srs_string_replace (srs_string_replace (srs_string_replace template_path ''[vhost]'' vhost) ''[app]'' app) ''[stream]'' stream"

abbreviation (input) blanks :: string where "blanks \<equiv> [CHR '' '', CHR 0x0A, CHR 0x0D, CHR 0x09]"

definition strip :: "SrsRequest \<Rightarrow> SrsRequest" where
  "strip r =
     (let app1 = srs_string_remove (rq_app r) blanks;
          stream1 = srs_string_remove (rq_stream r) blanks;
          app2 = srs_string_trim_end app1 ''/'';
          stream2 = srs_string_trim_end stream1 ''/''
      in r\<lparr>rq_host := srs_string_remove (rq_host r) (CHR ''/'' # blanks),
           rq_vhost := srs_string_remove (rq_vhost r) (CHR ''/'' # blanks),
           rq_app := srs_string_trim_start app2 ''/'',
           rq_stream := srs_string_trim_start stream2 ''/''\<rparr>)"

definition request_copy :: "SrsRequest \<Rightarrow> SrsRequest" where
  "request_copy r = r\<lparr>rq_args := map_option (\<lambda>ps. ht_copy ps []) (rq_args r)\<rparr>"

section \<open>Discovery\<close>

text \<open>The loop over the pairs of a query: \<open>query\<close> is what is left of it.\<close>

function srs_query_get_by_key :: "string \<Rightarrow> string \<Rightarrow> string" where
  "srs_query_get_by_key query key =
     (if query = [] then []
      else let next = find_first_of ''&'' query;
               kv = (case next of None \<Rightarrow> query | Some n \<Rightarrow> take n query);
               more = (case next of None \<Rightarrow> [] | Some n \<Rightarrow> srs_query_get_by_key (drop (Suc n) query) key)
           in case find_first_of ''='' kv of
                Some eq \<Rightarrow> if take eq kv = key then drop (Suc eq) kv else more
              | None \<Rightarrow> more)"
  by pat_completeness auto
termination
  by (relation "measure (\<lambda>(query, _). length query)") auto

declare srs_query_get_by_key.simps [simp del]

text \<open>The URL in standard form: the query of the application moved behind the stream.\<close>

definition tc_full_url :: "SrsRequest \<Rightarrow> string" where
  "tc_full_url r =
     (let u0 = srs_string_replace (rq_tcUrl r) ''...vhost...'' ''?vhost='';
          u1 = u0 @ (case rq_stream r of [] \<Rightarrow> ''/'' | c # _ \<Rightarrow> if c = CHR ''/'' then rq_stream r else ''/'' @ rq_stream r);
          u2 = u1 @ (case rq_param r of [] \<Rightarrow> [] | c # _ \<Rightarrow> if c = CHR ''?'' then rq_param r else ''?'' @ rq_param r);
          u3 = (case (rfind_char (CHR ''/'') u2, find_first_of ''?#'' u2) of
                  (Some rslash, Some query) \<Rightarrow>
                    if query < rslash then take query u2 @ drop rslash u2 @ substr query (rslash - query) u2 else u2
                | _ \<Rightarrow> u2)
      in if find_sub ''/_definst_'' u3 \<noteq> None then srs_string_replace u3 ''/_definst_'' [] else u3)"

definition srs_discovery_tc_url :: "SrsRequest \<Rightarrow> SrsRequest" where
  "srs_discovery_tc_url r =
     (let url = tc_full_url r;
          (schema, rest) = (case find_sub ''://'' url of None \<Rightarrow> (''rtmp'', url) | Some pos \<Rightarrow> (take pos url, drop (pos + 3) url));
          (hostport, path) = (case find_first_of ''/'' rest of None \<Rightarrow> (rest, []) | Some pos \<Rightarrow> (take pos rest, drop (pos + 1) rest));
          (host, port) = (case find_first_of '':'' hostport of
                            None \<Rightarrow> (hostport, SRS_CONSTS_RTMP_DEFAULT_PORT)
                          | Some pos \<Rightarrow> (let p = atoi (drop (pos + 1) hostport)
                                        in (take pos hostport, if p \<le> 0 then SRS_CONSTS_RTMP_DEFAULT_PORT else p)));
          (query, path) = (case find_first_of ''?#'' path of None \<Rightarrow> ([], path) | Some pos \<Rightarrow> (drop (pos + 1) path, take pos path));
          (app, stream) = (case rfind_char (CHR ''/'') path of None \<Rightarrow> (path, []) | Some pos \<Rightarrow> (take pos path, drop (pos + 1) path));
          app = (if app = [] then SRS_CONSTS_RTMP_DEFAULT_APP else app);
          param = (if query = [] then [] else ''?'' @ query);
          v1 = srs_query_get_by_key query ''vhost'';
          vhost_in_query = (if v1 = [] then srs_query_get_by_key query ''domain'' else v1);
          vhost = (if vhost_in_query \<noteq> [] \<and> vhost_in_query \<noteq> SRS_CONSTS_RTMP_DEFAULT_VHOST then vhost_in_query else rq_vhost r);
          vhost = (if vhost = [] then host else vhost);
          param = (if find_first_of ''&'' param = None \<and> vhost_in_query = SRS_CONSTS_RTMP_DEFAULT_VHOST then [] else param)
      in r\<lparr>rq_schema := schema, rq_host := host, rq_vhost := vhost, rq_app := app, rq_stream := stream, rq_port := port,
           rq_param := param\<rparr>)"

section \<open>What the helpers do\<close>

lemma trim_end_eq:
  "set chars \<subseteq> set all \<Longrightarrow> (s \<noteq> [] \<longrightarrow> last s \<in> set all \<longrightarrow> last s \<in> set chars) \<Longrightarrow>
     trim_end_loop all chars s = rev (dropWhile (\<lambda>c. c \<in> set all) (rev s))"
proof (induction all chars s rule: trim_end_loop.induct)
  case (1 all s)
  then show ?case by (cases s rule: rev_cases) auto
next
  case (2 all ch chars s)
  then show ?case by (cases s rule: rev_cases) auto
qed

lemma trim_start_eq:
  "set chars \<subseteq> set all \<Longrightarrow> (s \<noteq> [] \<longrightarrow> hd s \<in> set all \<longrightarrow> hd s \<in> set chars) \<Longrightarrow>
     trim_start_loop all chars s = dropWhile (\<lambda>c. c \<in> set all) s"
proof (induction all chars s rule: trim_start_loop.induct)
  case (1 all s)
  then show ?case by (cases s) auto
next
  case (2 all ch chars s)
  then show ?case by (cases s) auto
qed

lemma remove_eq:
  "set chars \<subseteq> set all \<Longrightarrow> set s \<inter> set all \<subseteq> set chars \<Longrightarrow> remove_loop all chars s = filter (\<lambda>c. c \<notin> set all) s"
proof (induction all chars s rule: remove_loop.induct)
  case (1 all s)
  then show ?case by (auto intro!: filter_True [symmetric])
next
  case (2 all ch chars s)
  have "filter (\<lambda>c. c \<notin> set all) (filter (\<lambda>c. c \<noteq> ch) s) = filter (\<lambda>c. c \<notin> set all) s"
    using 2(3) by (auto intro: filter_cong)
  then show ?case using 2 by auto
qed

text \<open>The loops of the string helpers, which start again after each match, are the plain functions: trimming
  drops the longest run of the given characters at the end or the start, removing drops them all.\<close>

theorem string_helpers:
  "srs_string_trim_end s chars = rev (dropWhile (\<lambda>c. c \<in> set chars) (rev s))
   \<and> srs_string_trim_start s chars = dropWhile (\<lambda>c. c \<in> set chars) s
   \<and> srs_string_remove s chars = filter (\<lambda>c. c \<notin> set chars) s"
  by (simp add: srs_string_trim_end_def srs_string_trim_start_def srs_string_remove_def trim_end_eq trim_start_eq remove_eq)

lemma find_sub_None: "find_sub pat s = None \<longleftrightarrow> \<not> sublist pat s"
proof (induction s)
  case Nil
  then show ?case by (subst find_sub.simps) (auto simp: prefix_def)
next
  case (Cons c s)
  then show ?case by (subst find_sub.simps) (auto simp: sublist_Cons_right)
qed

lemma find_sub_append: "pat \<noteq> [] \<Longrightarrow> hd pat \<notin> set a \<Longrightarrow> find_sub pat (a @ pat @ b) = Some (length a)"
proof (induction a)
  case Nil
  then show ?case by (subst find_sub.simps) simp
next
  case (Cons c a)
  then have "\<not> prefix pat (c # a @ pat @ b)" by (cases pat) auto
  then show ?case using Cons by (subst find_sub.simps) simp
qed

lemma find_first_None: "find_first_of chars s = None \<longleftrightarrow> set s \<inter> set chars = {}"
  by (induction s) auto

lemma find_first_append: "c \<in> set chars \<Longrightarrow> set a \<inter> set chars = {} \<Longrightarrow> find_first_of chars (a @ c # b) = Some (length a)"
  by (induction a) auto

lemma rfind_append: "c \<notin> set b \<Longrightarrow> rfind_char c (a @ c # b) = Some (length a)"
  using find_first_append [of c "[c]" "rev b" "rev a"] by (simp add: rfind_char_def)

lemma rfind_None: "c \<notin> set s \<Longrightarrow> rfind_char c s = None"
  using find_first_None [of "[c]" "rev s"] by (simp add: rfind_char_def)

lemma replace_none: "\<not> sublist old s \<Longrightarrow> srs_string_replace s old new = s"
  using find_sub_None [of old s] by (simp add: srs_string_replace_def replace_loop.simps)

text \<open>The URL of a client is taken apart as it was put together: for
  \<^verbatim>\<open>schema://host/app\<close> and a stream name, with no query and none of the separators inside the parts (the
  application may have several levels), the discovery finds these parts, the default port, no
  parameters, and the host as virtual host unless there is one already.\<close>

theorem tc_url_discovered:
  assumes "rq_tcUrl r = schema @ ''://'' @ host @ ''/'' @ app" and "rq_stream r = stream" and "rq_param r = []"
    and "CHR '':'' \<notin> set schema" and "set host \<inter> set ''/:'' = {}" and "app \<noteq> []" and "stream \<noteq> []" and "CHR ''/'' \<notin> set stream"
    and "set (schema @ host @ app @ stream) \<inter> set ''?#'' = {}"
    and "\<not> sublist ''...vhost...'' (rq_tcUrl r)" and "\<not> sublist ''/_definst_'' (rq_tcUrl r @ ''/'' @ stream)"
  shows "srs_discovery_tc_url r = r\<lparr>rq_schema := schema, rq_host := host, rq_app := app, rq_stream := stream, rq_port := 1935,
     rq_vhost := (if rq_vhost r = [] then host else rq_vhost r)\<rparr>"
proof -
  let ?url = "schema @ ''://'' @ host @ ''/'' @ app @ ''/'' @ stream"
  have noq: "find_first_of ''?#'' ?url = None" using assms(9) by (auto simp: find_first_None)
  have full: "tc_full_url r = ?url"
    using assms(1,2,3,7,8,11) noq replace_none [OF assms(10)]
    by (cases stream) (auto simp: tc_full_url_def find_sub_None Let_def split: option.splits)
  have f1: "find_sub ''://'' ?url = Some (length schema)" using find_sub_append [of "''://''" schema] assms(4) by simp
  have f2: "find_first_of ''/'' (host @ ''/'' @ app @ ''/'' @ stream) = Some (length host)"
    using find_first_append [of "CHR ''/''" "''/''" host] assms(5) by auto
  have f3: "find_first_of '':'' host = None" using assms(5) by (auto simp: find_first_None)
  have f4: "find_first_of ''?#'' (app @ ''/'' @ stream) = None" using assms(9) by (auto simp: find_first_None)
  have f5: "rfind_char (CHR ''/'') (app @ ''/'' @ stream) = Some (length app)" using rfind_append assms(8) by simp
  have q: "srs_query_get_by_key [] k = []" for k by (subst srs_query_get_by_key.simps) simp
  show ?thesis
    using assms(3,6) f1 f2 f3 f4 f5 unfolding srs_discovery_tc_url_def full
    by (cases r) (simp add: q Let_def)
qed

theorem tc_url_discovered_witness:
  "srs_discovery_tc_url (SrsRequest_new\<lparr>rq_tcUrl := ''rtmp://a.b/live/x'', rq_stream := ''s''\<rparr>)
     = SrsRequest_new\<lparr>rq_tcUrl := ''rtmp://a.b/live/x'', rq_schema := ''rtmp'', rq_host := ''a.b'', rq_app := ''live/x'',
         rq_stream := ''s'', rq_port := 1935, rq_vhost := ''a.b''\<rparr>"
proof -
  let ?r = "SrsRequest_new\<lparr>rq_tcUrl := ''rtmp://a.b/live/x'', rq_stream := ''s''\<rparr>"
  have "\<not> sublist ''...vhost...'' ''rtmp://a.b/live/x''" "\<not> sublist ''/_definst_'' ''rtmp://a.b/live/x/s''" by code_simp+
  then show ?thesis using tc_url_discovered [of ?r "''rtmp''" "''a.b''" "''live/x''" "''s''"]
    by (simp add: SrsRequest_new_def)
qed

lemma slash_split: "CHR ''/'' \<notin> set b \<Longrightarrow> CHR ''/'' \<notin> set b' \<Longrightarrow> a @ ''/'' @ b = a' @ ''/'' @ b' \<longleftrightarrow> a = a' \<and> b = b'"
proof
  assume n: "CHR ''/'' \<notin> set b" "CHR ''/'' \<notin> set b'" and e: "a @ ''/'' @ b = a' @ ''/'' @ b'"
  have "rfind_char (CHR ''/'') (a @ ''/'' @ b) = Some (length a)" "rfind_char (CHR ''/'') (a' @ ''/'' @ b') = Some (length a')"
    using rfind_append n by simp_all
  with e show "a = a' \<and> b = b'" by simp
qed simp

lemma slash_split_first: "CHR ''/'' \<notin> set a \<Longrightarrow> CHR ''/'' \<notin> set a' \<Longrightarrow> a @ ''/'' @ b = a' @ ''/'' @ b' \<longleftrightarrow> a = a' \<and> b = b'"
proof
  assume n: "CHR ''/'' \<notin> set a" "CHR ''/'' \<notin> set a'" and e: "a @ ''/'' @ b = a' @ ''/'' @ b'"
  have "find_first_of ''/'' (a @ ''/'' @ b) = Some (length a)" "find_first_of ''/'' (a' @ ''/'' @ b') = Some (length a')"
    using find_first_append [of "CHR ''/''" "''/''"] n by simp_all
  with e show "a = a' \<and> b = b'" by simp
qed simp

lemma stream_url_inj:
  assumes "CHR ''/'' \<notin> set v" "CHR ''/'' \<notin> set v'" "CHR ''/'' \<notin> set s" "CHR ''/'' \<notin> set s'" "v \<noteq> []" "v' \<noteq> []"
    and "srs_generate_stream_url v a s = srs_generate_stream_url v' a' s'"
  shows "v = v' \<and> a = a' \<and> s = s'"
proof -
  let ?n = "\<lambda>v. if SRS_CONSTS_RTMP_DEFAULT_VHOST \<noteq> v then v else []"
  have "?n v @ ''/'' @ a = ?n v' @ ''/'' @ a' \<and> s = s'"
    using assms(7) slash_split [OF assms(3,4), of "?n v @ ''/'' @ a" "?n v' @ ''/'' @ a'"]
    unfolding srs_generate_stream_url_def by simp
  moreover have "?n v = ?n v' \<and> a = a'"
    using calculation slash_split_first [of "?n v" "?n v'" a a'] assms(1,2) by auto
  ultimately show ?thesis using assms(5,6) by (auto split: if_splits)
qed

end
