(* ===== verification/Triple.thy ===== *)
theory Triple
  imports Codec
begin

text \<open>
  Hoare triples for operations with a state and an error: from a state with \<open>P\<close> an operation leads to one with \<open>Q\<close> when
  it succeeds and to one with \<open>R\<close> when it gives an error code; nothing else happens (no failed assertion, no
  null dereference). The rules follow the way the operations are put together.
\<close>

definition triple :: "('s \<Rightarrow> bool) \<Rightarrow> ('s \<Rightarrow> 's outcome) \<Rightarrow> ('s \<Rightarrow> bool) \<Rightarrow> ('s \<Rightarrow> bool) \<Rightarrow> bool" where
  "triple P f Q R \<longleftrightarrow> (\<forall>s. P s \<longrightarrow> (case f s of (None, s') \<Rightarrow> Q s' | (Some e, s') \<Rightarrow> (\<exists>c. e = Srs_error c) \<and> R s'))"

lemma tripleI:
  assumes "\<And>s e s'. P s \<Longrightarrow> f s = (e, s') \<Longrightarrow> (e = None \<and> Q s') \<or> (\<exists>c. e = Some (Srs_error c) \<and> R s')"
  shows "triple P f Q R"
  unfolding triple_def
proof (intro allI impI)
  fix s assume "P s"
  obtain e s' where "f s = (e, s')" by fastforce
  with assms [OF \<open>P s\<close> this] show "case f s of (None, s') \<Rightarrow> Q s' | (Some e, s') \<Rightarrow> (\<exists>c. e = Srs_error c) \<and> R s'" by auto
qed

lemma tripleD:
  assumes "triple P f Q R" and "P s" and "f s = (e, s')"
  shows "(e = None \<and> Q s') \<or> (\<exists>c. e = Some (Srs_error c) \<and> R s')"
  using assms unfolding triple_def by (cases e) force+

lemma triple_skip: "triple P (\<lambda>s. (None, s)) P R"
  by (rule tripleI) auto

lemma triple_fail: "triple P (\<lambda>s. (Some (Srs_error c), s)) Q P"
  by (rule tripleI) auto

lemma triple_andthen:
  assumes "triple P f Q R" and "triple Q g S R"
  shows "triple P (andthen f g) S R"
proof (rule tripleI)
  fix s e s' assume s: "P s" "andthen f g s = (e, s')"
  obtain e1 s1 where f: "f s = (e1, s1)" by fastforce
  from tripleD [OF assms(1) s(1) f] show "(e = None \<and> S s') \<or> (\<exists>c. e = Some (Srs_error c) \<and> R s')"
  proof (elim disjE conjE exE)
    assume a: "e1 = None" "Q s1"
    then have "g s1 = (e, s')" using s(2) f by (simp add: andthen_def)
    then show ?thesis by (rule tripleD [OF assms(2) a(2)])
  qed (use s(2) f in \<open>auto simp: andthen_def\<close>)
qed

lemma triple_conseq:
  assumes "triple P f Q R" and "\<And>s. P' s \<Longrightarrow> P s" and "\<And>s. Q s \<Longrightarrow> Q' s" and "\<And>s. R s \<Longrightarrow> R' s"
  shows "triple P' f Q' R'"
proof (rule tripleI)
  fix s e s' assume "P' s" "f s = (e, s')"
  from tripleD [OF assms(1) assms(2) [OF this(1)] this(2)] show "(e = None \<and> Q' s') \<or> (\<exists>c. e = Some (Srs_error c) \<and> R' s')"
    using assms(3,4) by blast
qed

lemma triple_if: "(b \<Longrightarrow> triple P f Q R) \<Longrightarrow> (\<not> b \<Longrightarrow> triple P g Q R) \<Longrightarrow> triple P (if b then f else g) Q R"
  by simp

text \<open>The operation may depend on the state.\<close>

lemma triple_at:
  assumes "\<And>s. P s \<Longrightarrow> \<exists>g. f s = g s \<and> triple P g Q R"
  shows "triple P f Q R"
proof (rule tripleI)
  fix s e s' assume s: "P s" "f s = (e, s')"
  from assms [OF s(1)] obtain g where "f s = g s" "triple P g Q R" by blast
  with tripleD [of P g Q R s e s'] s show "(e = None \<and> Q s') \<or> (\<exists>c. e = Some (Srs_error c) \<and> R s')" by simp
qed

lemma triple_returns: "triple P f Q R \<Longrightarrow> P s \<Longrightarrow> returns (f s)"
  by (cases "f s") (auto dest!: tripleD)

text \<open>An operation on one component of the state.\<close>

lemma triple_lift:
  assumes "triple P f Q R" and "\<And>s. P' s \<Longrightarrow> P (get s)"
    and "\<And>s x. P' s \<Longrightarrow> Q x \<Longrightarrow> Q' (put x s)" and "\<And>s x. P' s \<Longrightarrow> R x \<Longrightarrow> R' (put x s)"
  shows "triple P' (\<lambda>s. case f (get s) of (e, x) \<Rightarrow> (e, put x s)) Q' R'"
proof (rule tripleI)
  fix s e s' assume s: "P' s" "(case f (get s) of (e, x) \<Rightarrow> (e, put x s)) = (e, s')"
  obtain e1 x where f: "f (get s) = (e1, x)" by fastforce
  from tripleD [OF assms(1) assms(2) [OF s(1)] f] show "(e = None \<and> Q' s') \<or> (\<exists>c. e = Some (Srs_error c) \<and> R' s')"
    using s f assms(3,4) [OF s(1)] by auto
qed

end
