(* ===== verification/Source.thy ===== *)
theory Source
  imports Caches Utility "HOL-Library.Char_ord" "HOL-Library.List_Lexorder" Triple
begin

text \<open>
  \<^verbatim>\<open>src/src/app/srs_app_source.cpp\<close>, the stream: \<^verbatim>\<open>SrsOriginHub\<close> parses the messages and hands them to
  the two HLS writers, \<^verbatim>\<open>SrsLiveSource\<close> sends what one publisher delivers to all consumers and keeps the
  caches for later ones, \<^verbatim>\<open>SrsLiveSourceManager\<close> finds the source of a stream. Each operation of a
  source runs under its mutex and is one step.

  The hub is parametric in the two writers: a \<open>stream_handler\<close> gives the operations that the hub calls,
  on a state of any type (it includes the files the writer has written).
\<close>

section \<open>The hub\<close>

record 'h stream_handler =
  sh_initialize :: "SrsRequest \<Rightarrow> 'h \<Rightarrow> 'h outcome"
  sh_on_publish :: "'h \<Rightarrow> 'h outcome"
  sh_on_unpublish :: "'h \<Rightarrow> 'h"
  sh_on_audio :: "SrsSharedPtrMessage \<Rightarrow> SrsFormat \<Rightarrow> 'h \<Rightarrow> 'h outcome"
  sh_on_video :: "SrsSharedPtrMessage \<Rightarrow> SrsFormat \<Rightarrow> 'h \<Rightarrow> 'h outcome"

record ('h, 'l) SrsOriginHub =
  hub_req :: "SrsRequest option"
  hub_is_active :: bool
  hub_format :: SrsFormat
  hub_hls :: 'h
  hub_llhls :: 'l

definition SrsOriginHub_new :: "'h \<Rightarrow> 'l \<Rightarrow> ('h, 'l) SrsOriginHub" where
  "SrsOriginHub_new h l = \<lparr>hub_req = None, hub_is_active = False, hub_format = SrsFormat_new, hub_hls = h, hub_llhls = l\<rparr>"

definition hub_initialize :: "'h stream_handler \<Rightarrow> 'l stream_handler \<Rightarrow> SrsRequest \<Rightarrow> ('h, 'l) SrsOriginHub
    \<Rightarrow> ('h, 'l) SrsOriginHub outcome" where
  "hub_initialize H L r hub =
     (let hub1 = hub\<lparr>hub_req := Some r\<rparr>; (e1, h) = sh_initialize H r (hub_hls hub1); hub2 = hub1\<lparr>hub_hls := h\<rparr> in
      if e1 \<noteq> None then (e1, hub2)
      else let (e2, l) = sh_initialize L r (hub_llhls hub2) in (e2, hub2\<lparr>hub_llhls := l\<rparr>))"

text \<open>An error of a writer is ignored and unpublishes it; any other failure stops the process.\<close>

fun ignore_error :: "'h stream_handler \<Rightarrow> 'h outcome \<Rightarrow> 'h outcome" where
  "ignore_error H (Some (Srs_error _), h) = (None, sh_on_unpublish H h)"
| "ignore_error H r = r"

definition hub_consume ::
    "(SrsFormat \<Rightarrow> SrsFormat outcome) \<Rightarrow> (SrsFormat \<Rightarrow> 'h \<Rightarrow> 'h outcome) \<Rightarrow> (SrsFormat \<Rightarrow> 'l \<Rightarrow> 'l outcome)
     \<Rightarrow> ('h, 'l) SrsOriginHub \<Rightarrow> ('h, 'l) SrsOriginHub outcome" where
  "hub_consume parse on_h on_l hub =
     (case parse (hub_format hub) of
        (Some (Srs_error _), f) \<Rightarrow> (None, hub\<lparr>hub_format := f\<rparr>)
      | (Some e, f) \<Rightarrow> (Some e, hub\<lparr>hub_format := f\<rparr>)
      | (None, f) \<Rightarrow>
          let (e1, h) = on_h f (hub_hls hub); hub1 = hub\<lparr>hub_format := f, hub_hls := h\<rparr> in
          if e1 \<noteq> None then (e1, hub1)
          else let (e2, l) = on_l f (hub_llhls hub1) in (e2, hub1\<lparr>hub_llhls := l\<rparr>))"

definition hub_on_audio :: "'h stream_handler \<Rightarrow> 'l stream_handler \<Rightarrow> SrsSharedPtrMessage \<Rightarrow> ('h, 'l) SrsOriginHub
    \<Rightarrow> ('h, 'l) SrsOriginHub outcome" where
  "hub_on_audio H L msg =
     hub_consume (SrsFormat_on_audio (sm_timestamp msg) (sm_payload msg))
       (\<lambda>f h. ignore_error H (sh_on_audio H msg f h)) (\<lambda>f l. ignore_error L (sh_on_audio L msg f l))"

definition hub_on_video :: "'h stream_handler \<Rightarrow> 'l stream_handler \<Rightarrow> SrsSharedPtrMessage \<Rightarrow> ('h, 'l) SrsOriginHub
    \<Rightarrow> ('h, 'l) SrsOriginHub outcome" where
  "hub_on_video H L msg =
     hub_consume (SrsFormat_on_video (sm_timestamp msg) (sm_payload msg))
       (\<lambda>f h. ignore_error H (sh_on_video H msg f h)) (\<lambda>f l. ignore_error L (sh_on_video L msg f l))"

definition hub_on_publish :: "'h stream_handler \<Rightarrow> 'l stream_handler \<Rightarrow> ('h, 'l) SrsOriginHub \<Rightarrow> ('h, 'l) SrsOriginHub outcome" where
  "hub_on_publish H L hub =
     (let (e1, h) = sh_on_publish H (hub_hls hub); hub1 = hub\<lparr>hub_hls := h\<rparr> in
      if e1 \<noteq> None then (e1, hub1)
      else let (e2, l) = sh_on_publish L (hub_llhls hub1); hub2 = hub1\<lparr>hub_llhls := l\<rparr> in
           if e2 \<noteq> None then (e2, hub2) else (None, hub2\<lparr>hub_is_active := True\<rparr>))"

definition hub_on_unpublish :: "'h stream_handler \<Rightarrow> 'l stream_handler \<Rightarrow> ('h, 'l) SrsOriginHub \<Rightarrow> ('h, 'l) SrsOriginHub" where
  "hub_on_unpublish H L hub =
     hub\<lparr>hub_is_active := False, hub_hls := sh_on_unpublish H (hub_hls hub), hub_llhls := sh_on_unpublish L (hub_llhls hub)\<rparr>"

section \<open>The source\<close>

text \<open>
  The consumers are listed with their addresses, in the order of the code's vector: a consumer lives exactly
  as long as it is listed.
\<close>

record ('h, 'l) SrsLiveSource =
  src_id :: string
  src_pre_id :: string
  src_req :: "SrsRequest option"
  src_consumers :: "(nat \<times> SrsLiveConsumer) list"
  src_jitter_algorithm :: SrsRtmpJitterAlgorithm
  src_gop :: SrsGopCache
  src_meta :: SrsMetaCache
  src_hub :: "('h, 'l) SrsOriginHub"
  src_can_publish :: bool

definition SrsLiveSource_new :: "'h \<Rightarrow> 'l \<Rightarrow> ('h, 'l) SrsLiveSource" where
  "SrsLiveSource_new h l = \<lparr>src_id = [], src_pre_id = [], src_req = None, src_consumers = [],
     src_jitter_algorithm = SrsRtmpJitterAlgorithmFULL, src_gop = SrsGopCache_new, src_meta = SrsMetaCache_new,
     src_hub = SrsOriginHub_new h l, src_can_publish = True\<rparr>"

definition source_initialize :: "'h stream_handler \<Rightarrow> 'l stream_handler \<Rightarrow> SrsRequest \<Rightarrow> ('h, 'l) SrsLiveSource
    \<Rightarrow> ('h, 'l) SrsLiveSource outcome" where
  "source_initialize H L r s =
     (if src_req s \<noteq> None then (Some Srs_abort, s)
      else let (e, hub) = hub_initialize H L (request_copy r) (src_hub s)
           in (e, s\<lparr>src_req := Some (request_copy r), src_hub := hub\<rparr>))"

definition on_source_id_changed :: "string \<Rightarrow> ('h, 'l) SrsLiveSource \<Rightarrow> ('h, 'l) SrsLiveSource" where
  "on_source_id_changed i s =
     (if src_id s = i then s
      else s\<lparr>src_pre_id := (if src_pre_id s = [] then i else src_pre_id s), src_id := i,
             src_consumers := map (\<lambda>(a, c). (a, update_source_id c)) (src_consumers s)\<rparr>)"

definition fan_out :: "SrsSharedPtrMessage \<Rightarrow> ('h, 'l) SrsLiveSource \<Rightarrow> ('h, 'l) SrsLiveSource" where
  "fan_out msg s = s\<lparr>src_consumers := map (\<lambda>(a, c). (a, consumer_enqueue (src_jitter_algorithm s) msg c)) (src_consumers s)\<rparr>"

definition source_on_meta_data :: "(nat \<Rightarrow> byte list) \<Rightarrow> SrsMessageHeader \<Rightarrow> string \<Rightarrow> SrsUnSortedHashtable
    \<Rightarrow> ('h, 'l) SrsLiveSource \<Rightarrow> ('h, 'l) SrsLiveSource outcome" where
  "source_on_meta_data fresh header name md s =
     (case update_data fresh header name md (src_meta s) of
        Inl e \<Rightarrow> (Some e, s)
      | Inr (updated, m) \<Rightarrow>
          let s1 = s\<lparr>src_meta := m\<rparr> in
          if \<not> updated then (None, s1)
          else (None, case mc_meta m of None \<Rightarrow> s1 | Some msg \<Rightarrow> fan_out msg s1))"

definition on_audio_imp :: "'h stream_handler \<Rightarrow> 'l stream_handler \<Rightarrow> SrsSharedPtrMessage \<Rightarrow> ('h, 'l) SrsLiveSource
    \<Rightarrow> ('h, 'l) SrsLiveSource outcome" where
  "on_audio_imp H L msg s =
     (let is_sequence_header = SrsFlvAudio_sh (sm_payload msg);
          (e, hub) = hub_on_audio H L msg (src_hub s);
          s1 = s\<lparr>src_hub := hub\<rparr>
      in if e \<noteq> None then (e, s1)
         else let s2 = fan_out msg s1;
                  s3 = (if is_sequence_header \<or> mc_audio (src_meta s2) = None
                        then s2\<lparr>src_meta := update_ash msg (src_meta s2)\<rparr> else s2)
              in if is_sequence_header then (None, s3)
                 else (None, s3\<lparr>src_gop := gop_cache_frame msg (src_gop s3)\<rparr>))"

definition on_video_imp :: "'h stream_handler \<Rightarrow> 'l stream_handler \<Rightarrow> SrsSharedPtrMessage \<Rightarrow> ('h, 'l) SrsLiveSource
    \<Rightarrow> ('h, 'l) SrsLiveSource outcome" where
  "on_video_imp H L msg s =
     (let is_sequence_header = SrsFlvVideo_sh (sm_payload msg);
          s0 = (if is_sequence_header then s\<lparr>src_meta := update_vsh msg (src_meta s)\<rparr> else s);
          (e, hub) = hub_on_video H L msg (src_hub s0);
          s1 = s0\<lparr>src_hub := hub\<rparr>
      in if e \<noteq> None then (e, s1)
         else let s2 = fan_out msg s1
              in if is_sequence_header then (None, s2)
                 else (None, s2\<lparr>src_gop := gop_cache_frame msg (src_gop s2)\<rparr>))"

definition source_on_audio :: "'h stream_handler \<Rightarrow> 'l stream_handler \<Rightarrow> SrsCommonMessage \<Rightarrow> ('h, 'l) SrsLiveSource
    \<Rightarrow> ('h, 'l) SrsLiveSource outcome" where
  "source_on_audio H L shared_audio s =
     (case SrsSharedPtrMessage_create_msg shared_audio of Inl e \<Rightarrow> (Some e, s) | Inr (msg, _) \<Rightarrow> on_audio_imp H L msg s)"

definition source_on_video :: "'h stream_handler \<Rightarrow> 'l stream_handler \<Rightarrow> SrsCommonMessage \<Rightarrow> ('h, 'l) SrsLiveSource
    \<Rightarrow> ('h, 'l) SrsLiveSource outcome" where
  "source_on_video H L shared_video s =
     (case SrsSharedPtrMessage_create_msg shared_video of Inl e \<Rightarrow> (Some e, s) | Inr (msg, _) \<Rightarrow> on_video_imp H L msg s)"

text \<open>\<open>cid\<close> is the id of the calling thread.\<close>

definition source_on_publish :: "'h stream_handler \<Rightarrow> 'l stream_handler \<Rightarrow> string \<Rightarrow> ('h, 'l) SrsLiveSource
    \<Rightarrow> ('h, 'l) SrsLiveSource outcome" where
  "source_on_publish H L cid s =
     (if src_req s = None then (Some Srs_abort, s)
      else if \<not> src_can_publish s then (Some (Srs_error ERROR_SYSTEM_STREAM_BUSY), s)
      else let s1 = on_source_id_changed cid (s\<lparr>src_can_publish := False\<rparr>);
               (e, hub) = hub_on_publish H L (src_hub s1);
               s2 = s1\<lparr>src_hub := hub\<rparr>
           in if e \<noteq> None then (e, s2\<lparr>src_can_publish := True\<rparr>)
              else (None, s2\<lparr>src_meta := meta_clear (src_meta s2)\<rparr>))"

definition source_on_unpublish :: "'h stream_handler \<Rightarrow> 'l stream_handler \<Rightarrow> ('h, 'l) SrsLiveSource \<Rightarrow> ('h, 'l) SrsLiveSource" where
  "source_on_unpublish H L s =
     (if src_can_publish s then s
      else s\<lparr>src_hub := hub_on_unpublish H L (src_hub s), src_gop := gop_clear (src_gop s),
             src_pre_id := (if src_id s \<noteq> [] then src_id s else src_pre_id s), src_id := [], src_can_publish := True\<rparr>)"

text \<open>\<open>a\<close> is the address of the new consumer.\<close>

definition create_consumer :: "nat \<Rightarrow> ('h, 'l) SrsLiveSource \<Rightarrow> ('h, 'l) SrsLiveSource" where
  "create_consumer a s = s\<lparr>src_consumers := src_consumers s @ [(a, SrsLiveConsumer_new)]\<rparr>"

abbreviation (input) config_queue_length :: int where "config_queue_length \<equiv> 30000000"

definition dump_to_consumer :: "bool \<Rightarrow> bool \<Rightarrow> bool \<Rightarrow> ('h, 'l) SrsLiveSource \<Rightarrow> SrsLiveConsumer \<Rightarrow> SrsLiveConsumer" where
  "dump_to_consumer ds dm dg s c =
     (let c1 = consumer_set_queue_size config_queue_length c in
      if hub_is_active (src_hub s)
      then let c2 = meta_dumps (src_jitter_algorithm s) dm ds (src_meta s) c1
           in if dg then gop_dump (src_jitter_algorithm s) (src_gop s) c2 else c2
      else c1)"

definition consumer_dumps :: "bool \<Rightarrow> bool \<Rightarrow> bool \<Rightarrow> nat \<Rightarrow> ('h, 'l) SrsLiveSource \<Rightarrow> ('h, 'l) SrsLiveSource" where
  "consumer_dumps ds dm dg a s =
     s\<lparr>src_consumers := map (\<lambda>(a', c). (a', if a' = a then dump_to_consumer ds dm dg s c else c)) (src_consumers s)\<rparr>"

fun erase_consumer :: "nat \<Rightarrow> (nat \<times> SrsLiveConsumer) list \<Rightarrow> (nat \<times> SrsLiveConsumer) list" where
  "erase_consumer a [] = []"
| "erase_consumer a ((a', c) # cs) = (if a' = a then cs else (a', c) # erase_consumer a cs)"

definition on_consumer_destroy :: "nat \<Rightarrow> ('h, 'l) SrsLiveSource \<Rightarrow> ('h, 'l) SrsLiveSource" where
  "on_consumer_destroy a s = s\<lparr>src_consumers := erase_consumer a (src_consumers s)\<rparr>"

definition source_set_cache :: "bool \<Rightarrow> ('h, 'l) SrsLiveSource \<Rightarrow> ('h, 'l) SrsLiveSource" where
  "source_set_cache enabled s = s\<lparr>src_gop := gop_set enabled (src_gop s)\<rparr>"

definition source_set_gop_cache_max_frames :: "int \<Rightarrow> ('h, 'l) SrsLiveSource \<Rightarrow> ('h, 'l) SrsLiveSource" where
  "source_set_gop_cache_max_frames v s = s\<lparr>src_gop := set_gop_cache_max_frames v (src_gop s)\<rparr>"

section \<open>The manager\<close>

text \<open>
  The pool is the content of the code's \<^verbatim>\<open>std::map\<close>, in the order of its keys (strings compare by bytes). A source
  is referred to by its key.
\<close>

type_synonym ('h, 'l) pool = "(string \<times> ('h, 'l) SrsLiveSource) list"

definition fetch_source :: "SrsRequest \<Rightarrow> ('h, 'l) pool \<Rightarrow> ('h, 'l) SrsLiveSource option" where
  "fetch_source r pool = map_of pool (get_stream_url r)"

definition fetch_or_create :: "'h stream_handler \<Rightarrow> 'l stream_handler \<Rightarrow> 'h \<Rightarrow> 'l \<Rightarrow> SrsRequest \<Rightarrow> ('h, 'l) pool
    \<Rightarrow> (string \<times> ('h, 'l) pool) result" where
  "fetch_or_create H L h l r pool =
     (let stream_url = get_stream_url r in
      case map_of pool stream_url of
        Some _ \<Rightarrow> Inr (stream_url, pool)
      | None \<Rightarrow>
          (case source_initialize H L r (SrsLiveSource_new h l) of
             (Some e, _) \<Rightarrow> Inl e
           | (None, source) \<Rightarrow> Inr (stream_url, insort_key fst (stream_url, source) pool)))"

definition fetch_by_name :: "string \<Rightarrow> string \<Rightarrow> ('h, 'l) pool \<Rightarrow> (string \<times> ('h, 'l) SrsLiveSource) option" where
  "fetch_by_name app stream pool = find (\<lambda>(url, _). suffix (''/'' @ app @ ''/'' @ stream) url) pool"

section \<open>Publishing is exclusive\<close>

text \<open>
  The source and the connections that publish it. A connection that got success from \<open>source_on_publish\<close>
  publishes until it calls \<open>source_on_unpublish\<close>; the other operations can come from any thread.
\<close>

inductive source_step :: "'h stream_handler \<Rightarrow> 'l stream_handler \<Rightarrow> ('h, 'l) SrsLiveSource \<times> nat set
    \<Rightarrow> ('h, 'l) SrsLiveSource \<times> nat set \<Rightarrow> bool" for H L where
  publish: "n \<notin> owners \<Longrightarrow> source_on_publish H L cid s = (None, s') \<Longrightarrow> source_step H L (s, owners) (s', insert n owners)"
| refused: "source_on_publish H L cid s = (Some e, s') \<Longrightarrow> source_step H L (s, owners) (s', owners)"
| unpublish: "n \<in> owners \<Longrightarrow> source_step H L (s, owners) (source_on_unpublish H L s, owners - {n})"
| audio: "n \<in> owners \<Longrightarrow> source_on_audio H L msg s = (e, s') \<Longrightarrow> source_step H L (s, owners) (s', owners)"
| video: "n \<in> owners \<Longrightarrow> source_on_video H L msg s = (e, s') \<Longrightarrow> source_step H L (s, owners) (s', owners)"
| metadata: "n \<in> owners \<Longrightarrow> source_on_meta_data fresh header name md s = (e, s') \<Longrightarrow> source_step H L (s, owners) (s', owners)"
| create: "source_step H L (s, owners) (create_consumer a s, owners)"
| dumps: "source_step H L (s, owners) (consumer_dumps ds dm dg a s, owners)"
| destroy: "source_step H L (s, owners) (on_consumer_destroy a s, owners)"
| set_cache: "source_step H L (s, owners) (source_set_cache v s, owners)"
| max_frames: "source_step H L (s, owners) (source_set_gop_cache_max_frames k s, owners)"

inductive source_reachable :: "'h stream_handler \<Rightarrow> 'l stream_handler \<Rightarrow> ('h, 'l) SrsLiveSource \<times> nat set \<Rightarrow> bool" for H L where
  init: "source_initialize H L r (SrsLiveSource_new h l) = (None, s) \<Longrightarrow> source_reachable H L (s, {})"
| step: "source_reachable H L x \<Longrightarrow> source_step H L x y \<Longrightarrow> source_reachable H L y"

fun exclusive :: "('h, 'l) SrsLiveSource \<times> nat set \<Rightarrow> bool" where
  "exclusive (s, owners) \<longleftrightarrow> src_req s \<noteq> None \<and> (if src_can_publish s then owners = {} else \<exists>n. owners = {n})"

lemma can_publish_simps [simp]:
  "src_can_publish (on_source_id_changed i s) = src_can_publish s" "src_can_publish (fan_out m s) = src_can_publish s"
  "src_req (on_source_id_changed i s) = src_req s" "src_req (fan_out m s) = src_req s"
  by (simp_all add: on_source_id_changed_def fan_out_def)

lemma imp_can_publish:
  "on_audio_imp H L m s = (e, s') \<Longrightarrow> src_can_publish s' = src_can_publish s \<and> src_req s' = src_req s"
  "on_video_imp H L m s = (e, s') \<Longrightarrow> src_can_publish s' = src_can_publish s \<and> src_req s' = src_req s"
  by (auto simp: on_audio_imp_def on_video_imp_def Let_def split: prod.splits if_splits)

lemma messages_can_publish:
  "source_on_audio H L m s = (e, s') \<Longrightarrow> src_can_publish s' = src_can_publish s \<and> src_req s' = src_req s"
  "source_on_video H L m s = (e, s') \<Longrightarrow> src_can_publish s' = src_can_publish s \<and> src_req s' = src_req s"
  "source_on_meta_data fresh header name md s = (e, s') \<Longrightarrow> src_can_publish s' = src_can_publish s \<and> src_req s' = src_req s"
  by (auto simp: source_on_audio_def source_on_video_def source_on_meta_data_def Let_def dest: imp_can_publish
      split: sum.splits prod.splits if_splits option.splits)

lemma publish_outcome:
  assumes "source_on_publish H L cid s = (e, s')"
  shows "e = None \<Longrightarrow> src_can_publish s \<and> \<not> src_can_publish s'"
    and "e \<noteq> None \<Longrightarrow> src_can_publish s' = src_can_publish s"
    and "src_req s' = src_req s"
  using assms by (auto simp: source_on_publish_def Let_def split: if_splits prod.splits)

lemma source_step_exclusive: "source_step H L x y \<Longrightarrow> exclusive x \<Longrightarrow> exclusive y"
proof (induction rule: source_step.induct)
  case (publish n owners cid s s')
  then show ?case using publish_outcome(1,3) [OF publish(2)] by auto
next
  case (refused cid s e s' owners)
  then show ?case using publish_outcome(2,3) [OF refused(1)] by auto
next
  case (unpublish n owners s)
  then show ?case by (cases "src_can_publish s") (auto simp: source_on_unpublish_def)
next
  case (audio n owners msg s e s')
  then show ?case using messages_can_publish(1) [OF audio(2)] by auto
next
  case (video n owners msg s e s')
  then show ?case using messages_can_publish(2) [OF video(2)] by auto
next
  case (metadata n owners fresh header name md s e s')
  then show ?case using messages_can_publish(3) [OF metadata(2)] by auto
qed (auto simp: create_consumer_def consumer_dumps_def on_consumer_destroy_def source_set_cache_def source_set_gop_cache_max_frames_def)

lemma source_reachable_exclusive: "source_reachable H L x \<Longrightarrow> exclusive x"
proof (induction rule: source_reachable.induct)
  case (init r h l s)
  then show ?case by (auto simp: source_initialize_def SrsLiveSource_new_def Let_def split: prod.splits)
next
  case (step x y)
  then show ?case using source_step_exclusive by blast
qed

text \<open>C30. A stream has one publisher: in every state that any interleaving of connections can reach, the source is
  free iff nobody publishes it, and at most one connection does; while one does, publishing is
  refused as busy and changes nothing.\<close>

theorem one_publisher:
  assumes "source_reachable H L (s, owners)"
  shows "(src_can_publish s \<longleftrightarrow> owners = {}) \<and> finite owners \<and> card owners \<le> 1
     \<and> (owners \<noteq> {} \<longrightarrow> source_on_publish H L cid s = (Some (Srs_error ERROR_SYSTEM_STREAM_BUSY), s))"
  using source_reachable_exclusive [OF assms] by (auto simp: source_on_publish_def split: if_splits)

text \<open>A writer that does nothing, as the code's with HLS switched off.\<close>

definition disabled_handler :: "unit stream_handler" where
  "disabled_handler = \<lparr>sh_initialize = \<lambda>_ h. (None, h), sh_on_publish = \<lambda>h. (None, h), sh_on_unpublish = \<lambda>h. h,
     sh_on_audio = \<lambda>_ _ h. (None, h), sh_on_video = \<lambda>_ _ h. (None, h)\<rparr>"

definition ex_source :: "(unit, unit) SrsLiveSource" where
  "ex_source = snd (source_initialize disabled_handler disabled_handler SrsRequest_new (SrsLiveSource_new () ()))"

theorem one_publisher_witness:
  "source_on_publish disabled_handler disabled_handler ''b'' (snd (source_on_publish disabled_handler disabled_handler ''a'' ex_source))
     = (Some (Srs_error ERROR_SYSTEM_STREAM_BUSY), snd (source_on_publish disabled_handler disabled_handler ''a'' ex_source))"
proof -
  let ?D = disabled_handler and ?s = "snd (source_on_publish disabled_handler disabled_handler ''a'' ex_source)"
  have i: "source_initialize ?D ?D SrsRequest_new (SrsLiveSource_new () ()) = (None, ex_source)"
    by (simp add: ex_source_def source_initialize_def hub_initialize_def disabled_handler_def SrsLiveSource_new_def)
  have p: "source_on_publish ?D ?D ''a'' ex_source = (None, ?s)"
    by (simp add: source_on_publish_def hub_on_publish_def disabled_handler_def ex_source_def source_initialize_def
        hub_initialize_def SrsLiveSource_new_def on_source_id_changed_def Let_def)
  have r: "source_reachable ?D ?D (?s, {0})"
    using source_reachable.step [OF source_reachable.init [OF i] source_step.publish [OF _ p, of 0]] by simp
  from one_publisher [OF r, of "''b''"] show ?thesis by blast
qed

section \<open>What the players see\<close>

text \<open>
  What a writer is relied on for, with an invariant \<open>I\<close> of its state (\<open>N\<close> holds when it is new): its calls come back, with or without
  an error code, and keep the invariant. The frames it is called with are those that the parser makes.
\<close>

definition handler_safe :: "('h \<Rightarrow> bool) \<Rightarrow> ('h \<Rightarrow> bool) \<Rightarrow> 'h stream_handler \<Rightarrow> bool" where
  "handler_safe N I H \<longleftrightarrow> (\<forall>r. triple N (sh_initialize H r) I I) \<and> triple I (sh_on_publish H) I I
     \<and> (\<forall>h. I h \<longrightarrow> I (sh_on_unpublish H h))
     \<and> (\<forall>m f. format_ok f \<longrightarrow> triple I (sh_on_audio H m f) I I \<and> triple I (sh_on_video H m f) I I)"

definition hub_ok :: "('h \<Rightarrow> bool) \<Rightarrow> ('l \<Rightarrow> bool) \<Rightarrow> ('h, 'l) SrsOriginHub \<Rightarrow> bool" where
  "hub_ok I J hub \<longleftrightarrow> format_ok (hub_format hub) \<and> I (hub_hls hub) \<and> J (hub_llhls hub)"

definition publish_frame :: "'h stream_handler \<Rightarrow> 'l stream_handler \<Rightarrow> SrsSharedPtrMessage \<Rightarrow> ('h, 'l) SrsLiveSource
    \<Rightarrow> ('h, 'l) SrsLiveSource" where
  "publish_frame H L msg s = snd (if sm_is_video msg then on_video_imp H L msg s else on_audio_imp H L msg s)"

lemma ignore_error_safe:
  assumes "handler_safe N I H" and "triple I f I I" and "I h"
  shows "\<exists>h'. ignore_error H (f h) = (None, h') \<and> I h'"
proof -
  obtain e h1 where f: "f h = (e, h1)" by fastforce
  from tripleD [OF assms(2,3) f] show ?thesis using assms(1) f by (auto simp: handler_safe_def)
qed

lemma hub_consume_safe:
  assumes "\<And>f. format_ok f \<Longrightarrow> returns (parse f) \<and> format_ok (snd (parse f))"
    and "\<And>f h. format_ok f \<Longrightarrow> I h \<Longrightarrow> \<exists>h'. on_h f h = (None, h') \<and> I h'"
    and "\<And>f l. format_ok f \<Longrightarrow> J l \<Longrightarrow> \<exists>l'. on_l f l = (None, l') \<and> J l'"
    and "hub_ok I J hub"
  shows "\<exists>hub'. hub_consume parse on_h on_l hub = (None, hub') \<and> hub_is_active hub' = hub_is_active hub \<and> hub_ok I J hub'"
proof -
  have i: "format_ok (hub_format hub)" "I (hub_hls hub)" "J (hub_llhls hub)" using assms(4) by (simp_all add: hub_ok_def)
  obtain e f where p: "parse (hub_format hub) = (e, f)" by fastforce
  have f: "returns (e, f)" "format_ok f" using assms(1) [OF i(1)] p by simp_all
  obtain h where h: "on_h f (hub_hls hub) = (None, h)" "I h" using assms(2) [OF f(2) i(2)] by blast
  obtain l where l: "on_l f (hub_llhls hub) = (None, l)" "J l" using assms(3) [OF f(2) i(3)] by blast
  have "e = None \<or> (\<exists>c. e = Some (Srs_error c))" using f(1) by (cases e) auto
  then show ?thesis using i f(2) h l by (auto simp: hub_consume_def p hub_ok_def Let_def)
qed

lemma hub_frames_safe:
  assumes "handler_safe N I H" and "handler_safe N' J L" and "hub_ok I J hub"
  shows "\<exists>hub'. hub_on_audio H L m hub = (None, hub') \<and> hub_is_active hub' = hub_is_active hub \<and> hub_ok I J hub'"
    "\<exists>hub'. hub_on_video H L m hub = (None, hub') \<and> hub_is_active hub' = hub_is_active hub \<and> hub_ok I J hub'"
proof -
  have t: "triple I (sh_on_audio H m f) I I" "triple I (sh_on_video H m f) I I" "triple J (sh_on_audio L m f) J J" "triple J (sh_on_video L m f) J J"
    if "format_ok f" for f
    using assms(1,2) that unfolding handler_safe_def by blast+
  show "\<exists>hub'. hub_on_audio H L m hub = (None, hub') \<and> hub_is_active hub' = hub_is_active hub \<and> hub_ok I J hub'"
    unfolding hub_on_audio_def
    by (rule hub_consume_safe [OF _ _ _ assms(3)])
      (auto simp: on_audio_returns on_audio_format_ok intro: ignore_error_safe [OF assms(1) t(1)] ignore_error_safe [OF assms(2) t(3)])
  show "\<exists>hub'. hub_on_video H L m hub = (None, hub') \<and> hub_is_active hub' = hub_is_active hub \<and> hub_ok I J hub'"
    unfolding hub_on_video_def
    by (rule hub_consume_safe [OF _ _ _ assms(3)])
      (auto simp: on_video_returns on_video_format_ok intro: ignore_error_safe [OF assms(1) t(2)] ignore_error_safe [OF assms(2) t(4)])
qed

text \<open>One frame: what it does to the consumers and to the caches.\<close>

lemma frame_effect:
  assumes "handler_safe N I H" and "handler_safe N' J L" and "hub_ok I J (src_hub s)"
  shows "src_consumers (publish_frame H L m s) = map (\<lambda>(a, c). (a, consumer_enqueue (src_jitter_algorithm s) m c)) (src_consumers s)"
    "src_jitter_algorithm (publish_frame H L m s) = src_jitter_algorithm s"
    "hub_is_active (src_hub (publish_frame H L m s)) = hub_is_active (src_hub s)"
    "mc_meta (src_meta (publish_frame H L m s)) = mc_meta (src_meta s)"
    "mc_video (src_meta (publish_frame H L m s)) = (if is_video_sh m then Some m else mc_video (src_meta s))"
    "mc_audio (src_meta (publish_frame H L m s)) =
       (if \<not> sm_is_video m \<and> (SrsFlvAudio_sh (sm_payload m) \<or> mc_audio (src_meta s) = None) then Some m else mc_audio (src_meta s))"
    "src_gop (publish_frame H L m s) =
       (if is_video_sh m \<or> \<not> sm_is_video m \<and> SrsFlvAudio_sh (sm_payload m) then src_gop s else gop_cache_frame m (src_gop s))"
    "hub_ok I J (src_hub (publish_frame H L m s))"
proof -
  obtain hub' where a: "hub_on_audio H L m (src_hub s) = (None, hub')" "hub_is_active hub' = hub_is_active (src_hub s)" "hub_ok I J hub'"
    using hub_frames_safe(1) [OF assms] by blast
  obtain hub'' where v: "hub_on_video H L m (src_hub s) = (None, hub'')" "hub_is_active hub'' = hub_is_active (src_hub s)" "hub_ok I J hub''"
    using hub_frames_safe(2) [OF assms] by blast
  note d = publish_frame_def on_video_imp_def on_audio_imp_def fan_out_def update_vsh_def update_ash_def is_video_sh_def
  show "src_consumers (publish_frame H L m s) = map (\<lambda>(a, c). (a, consumer_enqueue (src_jitter_algorithm s) m c)) (src_consumers s)"
    by (simp add: d a v Let_def)
  show "src_jitter_algorithm (publish_frame H L m s) = src_jitter_algorithm s" by (simp add: d a v Let_def)
  show "hub_is_active (src_hub (publish_frame H L m s)) = hub_is_active (src_hub s)" by (simp add: d a v Let_def)
  show "mc_meta (src_meta (publish_frame H L m s)) = mc_meta (src_meta s)" by (simp add: d a v Let_def)
  show "mc_video (src_meta (publish_frame H L m s)) = (if is_video_sh m then Some m else mc_video (src_meta s))"
    by (simp add: d a v Let_def)
  show "mc_audio (src_meta (publish_frame H L m s)) =
       (if \<not> sm_is_video m \<and> (SrsFlvAudio_sh (sm_payload m) \<or> mc_audio (src_meta s) = None) then Some m else mc_audio (src_meta s))"
    by (auto simp: d a v Let_def)
  show "src_gop (publish_frame H L m s) =
       (if is_video_sh m \<or> \<not> sm_is_video m \<and> SrsFlvAudio_sh (sm_payload m) then src_gop s else gop_cache_frame m (src_gop s))"
    by (auto simp: d a v Let_def)
  show "hub_ok I J (src_hub (publish_frame H L m s))" by (simp add: d a v Let_def)
qed

lemma frames_hub_ok:
  "handler_safe N I H \<Longrightarrow> handler_safe N' J L \<Longrightarrow> hub_ok I J (src_hub s) \<Longrightarrow> hub_ok I J (src_hub (fold (publish_frame H L) ms s))"
  by (induction ms arbitrary: s) (simp_all add: frame_effect(8))

text \<open>The caches of a source, and that the consumers have no influence on them.\<close>

definition caches :: "('h, 'l) SrsLiveSource \<Rightarrow> bool \<times> SrsMetaCache \<times> SrsGopCache" where
  "caches s = (hub_is_active (src_hub s), src_meta s, src_gop s)"

lemma frames_caches:
  assumes "handler_safe N I H" and "handler_safe N' J L"
  shows "hub_ok I J (src_hub s) \<Longrightarrow> hub_ok I J (src_hub t) \<Longrightarrow> caches s = caches t \<Longrightarrow> caches (fold (publish_frame H L) ms s) = caches (fold (publish_frame H L) ms t)"
proof (induction ms arbitrary: s t)
  case (Cons m ms)
  have e: "hub_is_active (src_hub s) = hub_is_active (src_hub t)" "src_meta s = src_meta t" "src_gop s = src_gop t"
    using Cons.prems by (simp_all add: caches_def)
  note fe = frame_effect [OF assms Cons.prems(1)] frame_effect [OF assms Cons.prems(2)]
  have m: "src_meta (publish_frame H L m s) = src_meta (publish_frame H L m t)"
    by (rule SrsMetaCache.equality) (simp_all only: fe e, simp)
  have "hub_is_active (src_hub (publish_frame H L m s)) = hub_is_active (src_hub (publish_frame H L m t))"
    "src_gop (publish_frame H L m s) = src_gop (publish_frame H L m t)"
    by (simp_all only: fe e)
  then have "caches (publish_frame H L m s) = caches (publish_frame H L m t)"
    unfolding caches_def using m by (simp only:)
  from Cons.IH [OF fe(8,16) this] show ?case by simp
qed simp

lemma frames_jitter:
  assumes "handler_safe N I H" and "handler_safe N' J L"
  shows "hub_ok I J (src_hub s) \<Longrightarrow> src_jitter_algorithm (fold (publish_frame H L) ms s) = src_jitter_algorithm s"
    and "hub_ok I J (src_hub s) \<Longrightarrow> hub_is_active (src_hub (fold (publish_frame H L) ms s)) = hub_is_active (src_hub s)"
  by (induction ms arbitrary: s) (simp_all add: frame_effect [OF assms])

lemma frames_consumers:
  assumes "handler_safe N I H" and "handler_safe N' J L"
  shows "hub_ok I J (src_hub s) \<Longrightarrow> src_consumers (fold (publish_frame H L) ms s) =
     map (\<lambda>(a, c). (a, fold (consumer_enqueue (src_jitter_algorithm s)) ms c)) (src_consumers s)"
  by (induction ms arbitrary: s) (simp_all add: frame_effect [OF assms] comp_def case_prod_beta)

definition opt_list :: "'a option \<Rightarrow> 'a list" where
  "opt_list x = (case x of None \<Rightarrow> [] | Some y \<Rightarrow> [y])"

text \<open>What a source hands to a player that joins: metadata, audio and video sequence header, the cached frames.\<close>

definition join_list :: "('h, 'l) SrsLiveSource \<Rightarrow> SrsSharedPtrMessage list" where
  "join_list s = (if hub_is_active (src_hub s)
     then opt_list (mc_meta (src_meta s)) @ opt_list (mc_audio (src_meta s)) @ opt_list (mc_video (src_meta s)) @ gop_cache (src_gop s)
     else [])"

lemma dump_join:
  "dump_to_consumer True True True s c =
     fold (consumer_enqueue (src_jitter_algorithm s)) (join_list s) (consumer_set_queue_size config_queue_length c)"
  by (simp add: dump_to_consumer_def join_list_def meta_dumps_def gop_dump_def enqueue_opt_def opt_list_def Let_def split: option.splits)

lemma map_of_map_snd: "map_of (map (\<lambda>(a, c). (a, f a c)) xs) k = map_option (f k) (map_of xs k)"
  by (induction xs) auto

lemma enqueue_limit:
  "consumer_set_queue_size n (SrsLiveConsumer_new) = SrsLiveConsumer_new\<lparr>c_queue := set_queue_size n SrsMessageQueue_new\<rparr>"
  by (simp add: consumer_set_queue_size_def SrsLiveConsumer_new_def)

text \<open>C29. A player sees the stream as one sequence: a consumer that is created, then filled by
  \<^verbatim>\<open>consumer_dumps\<close>, has been given the frames that were published between the two calls, then the
  metadata, the audio and the video sequence header and the cached group of pictures as they are at the
  second call, then every later frame, each once and in order. With no frame between the two calls
  it starts with the metadata and the sequence headers; a frame that comes between them is given to it
  before the headers, and again with the cached frames.\<close>

theorem player_view:
  assumes "handler_safe N I H" and "handler_safe N' J L" and "hub_ok I J (src_hub s)" and "a \<notin> fst ` set (src_consumers s)"
  shows "map_of (src_consumers (fold (publish_frame H L) later (consumer_dumps True True True a
        (fold (publish_frame H L) between (create_consumer a s))))) a =
     Some (fold (consumer_enqueue (src_jitter_algorithm s)) (join_list (fold (publish_frame H L) between s) @ later)
        (consumer_set_queue_size config_queue_length (fold (consumer_enqueue (src_jitter_algorithm s)) between SrsLiveConsumer_new)))"
proof -
  let ?ag = "src_jitter_algorithm s" and ?pub = "fold (publish_frame H L)"
  let ?s1 = "?pub between (create_consumer a s)"
  have ok: "hub_ok I J (src_hub (create_consumer a s))" using assms(3) by (simp add: create_consumer_def)
  then have ok1: "hub_ok I J (src_hub ?s1)" by (rule frames_hub_ok [OF assms(1,2)])
  then have ok2: "hub_ok I J (src_hub (consumer_dumps True True True a ?s1))" by (simp add: consumer_dumps_def)
  have new: "map_of (src_consumers (create_consumer a s)) a = Some SrsLiveConsumer_new"
    using assms(4) by (simp add: create_consumer_def map_add_def map_of_eq_None_iff [THEN iffD2])
  have s1: "map_of (src_consumers ?s1) a = Some (fold (consumer_enqueue ?ag) between SrsLiveConsumer_new)"
    using new by (simp add: frames_consumers [OF assms(1,2) ok] map_of_map_snd) (simp add: create_consumer_def)
  have ag1: "src_jitter_algorithm ?s1 = ?ag" by (simp add: frames_jitter [OF assms(1,2) ok]) (simp add: create_consumer_def)
  have "caches ?s1 = caches (?pub between s)"
    by (rule frames_caches [OF assms(1,2) ok assms(3)]) (simp add: caches_def create_consumer_def)
  then have same: "join_list ?s1 = join_list (?pub between s)" by (simp add: caches_def join_list_def)
  have "map_of (src_consumers (consumer_dumps True True True a ?s1)) a = Some (fold (consumer_enqueue ?ag) (join_list (?pub between s))
      (consumer_set_queue_size config_queue_length (fold (consumer_enqueue ?ag) between SrsLiveConsumer_new)))"
    by (simp add: consumer_dumps_def map_of_map_snd s1 dump_join ag1 same)
  moreover have "src_jitter_algorithm (consumer_dumps True True True a ?s1) = ?ag"
    by (simp add: consumer_dumps_def ag1)
  ultimately show ?thesis by (simp add: frames_consumers [OF assms(1,2) ok2] map_of_map_snd)
qed

lemma disabled_handler_safe: "handler_safe (\<lambda>_. True) (\<lambda>_. True) disabled_handler"
  by (auto simp: handler_safe_def disabled_handler_def triple_skip)

lemma ex_source_ok: "hub_ok (\<lambda>_. True) (\<lambda>_. True) (src_hub ex_source)"
  by (simp add: hub_ok_def ex_source_def source_initialize_def SrsLiveSource_new_def hub_initialize_def disabled_handler_def
      SrsOriginHub_new_def SrsFormat_new_def format_ok_def)

theorem player_view_witness:
  "map_of (src_consumers (fold (publish_frame disabled_handler disabled_handler) [ex_msg 9 40 [0x27, 1]]
      (consumer_dumps True True True 7 (fold (publish_frame disabled_handler disabled_handler) [] (create_consumer 7 ex_source))))) 7 =
   Some (fold (consumer_enqueue SrsRtmpJitterAlgorithmFULL) [ex_msg 9 40 [0x27, 1]]
      (consumer_set_queue_size config_queue_length SrsLiveConsumer_new))"
proof -
  note h = disabled_handler_safe
  have s: "7 \<notin> fst ` set (src_consumers ex_source)" "src_jitter_algorithm ex_source = SrsRtmpJitterAlgorithmFULL" "join_list ex_source = []"
    by (simp_all add: ex_source_def source_initialize_def SrsLiveSource_new_def hub_initialize_def disabled_handler_def
        join_list_def SrsOriginHub_new_def)
  show ?thesis using player_view [OF h h ex_source_ok s(1), of "[ex_msg 9 40 [0x27, 1]]" "[]"] by (simp add: s)
qed

text \<open>The caches follow the stream: after any frames the cached video sequence header is the last one of them,
  the cached audio header is the last AAC sequence header (the first audio message for a codec without
  one), and the GOP cache was given exactly the frames that are no sequence headers; the metadata is untouched.\<close>

theorem source_caches:
  assumes "handler_safe N I H" and "handler_safe N' J L" and "hub_ok I J (src_hub s)" and "list_all sm_is_av ms"
  shows "let s' = fold (publish_frame H L) ms s in
     mc_video (src_meta s') = (case last_of is_video_sh ms of [] \<Rightarrow> mc_video (src_meta s) | m # _ \<Rightarrow> Some m)
     \<and> mc_audio (src_meta s') = (case last_of is_audio_sh ms of
          [] \<Rightarrow> (case (mc_audio (src_meta s), filter sm_is_audio ms) of (None, m # _) \<Rightarrow> Some m | (m, _) \<Rightarrow> m)
        | m # _ \<Rightarrow> Some m)
     \<and> src_gop s' = fold gop_cache_frame (filter (\<lambda>m. \<not> is_video_sh m \<and> \<not> is_audio_sh m) ms) (src_gop s)
     \<and> mc_meta (src_meta s') = mc_meta (src_meta s)"
  using assms(4,3)
proof (induction ms arbitrary: s)
  case Nil
  then show ?case by (simp add: last_of_def split: option.splits)
next
  case (Cons m ms)
  have av: "sm_is_audio m \<longleftrightarrow> \<not> sm_is_video m" using Cons.prems by (auto simp: sm_is_av_def sm_is_audio_def sm_is_video_def)
  note fe = frame_effect [OF assms(1,2) Cons.prems(2)]
  note ih = Cons.IH [of "publish_frame H L m s", OF _ fe(8)]
  show ?case using ih Cons.prems av sh_disjoint [of m]
    by (auto simp: Let_def fe last_of_def is_audio_sh_def is_video_sh_def split: option.splits list.splits if_splits)
qed

theorem source_caches_witness:
  "let s' = fold (publish_frame disabled_handler disabled_handler) [ex_msg 9 0 [0x17, 0], ex_msg 9 0 [0x17, 1], ex_msg 8 0 [0xaf, 1]] ex_source in
     mc_video (src_meta s') = Some (ex_msg 9 0 [0x17, 0]) \<and> mc_audio (src_meta s') = Some (ex_msg 8 0 [0xaf, 1])"
proof -
  let ?ms = "[ex_msg 9 0 [0x17, 0], ex_msg 9 0 [0x17, 1], ex_msg 8 0 [0xaf, 1]]"
  note h = disabled_handler_safe
  have av: "list_all sm_is_av ?ms" by code_simp
  have f: "last_of is_video_sh ?ms = [ex_msg 9 0 [0x17, 0]]" "last_of is_audio_sh ?ms = []" "filter sm_is_audio ?ms = [ex_msg 8 0 [0xaf, 1]]"
    by code_simp+
  have "mc_audio (src_meta ex_source) = None"
    by (simp add: ex_source_def source_initialize_def SrsLiveSource_new_def hub_initialize_def disabled_handler_def SrsMetaCache_new_def)
  then show ?thesis using source_caches [OF h h ex_source_ok av] unfolding f by (simp add: Let_def)
qed

section \<open>One source per stream\<close>

definition pool_ok :: "('h, 'l) pool \<Rightarrow> bool" where
  "pool_ok pool \<longleftrightarrow> sorted (map fst pool) \<and> distinct (map fst pool)"

definition slash_free :: "SrsRequest \<Rightarrow> bool" where
  "slash_free r \<longleftrightarrow> rq_vhost r \<noteq> [] \<and> CHR ''/'' \<notin> set (rq_vhost r) \<and> CHR ''/'' \<notin> set (rq_stream r)"

lemma map_fst_insort: "map fst (insort_key fst (k, v) xs) = insort k (map fst xs)"
  by (induction xs) auto

lemma map_of_insort: "k \<notin> fst ` set xs \<Longrightarrow> map_of (insort_key fst (k, v) xs) = (map_of xs)(k \<mapsto> v)"
proof (induction xs)
  case (Cons x xs)
  then show ?case by (cases x) (auto simp: fun_upd_twist)
qed simp

lemma pool_ok_insert: "pool_ok pool \<Longrightarrow> map_of pool k = None \<Longrightarrow> pool_ok (insort_key fst (k, v) pool)"
  by (auto simp: pool_ok_def map_fst_insort sorted_insort distinct_insort map_of_eq_None_iff)

text \<open>A stream has one source: \<^verbatim>\<open>fetch_or_create\<close> returns the source of the URL of the request, creates it
  only when there is none, and changes no other; the map stays sorted with distinct keys. Two requests
  whose virtual hosts and stream names hold no slash get the same source only for the same virtual
  host, application and stream. The lookup by application and stream alone can return the source of
  another application: \<^verbatim>\<open>b\<close> and \<^verbatim>\<open>c\<close> also find the stream \<^verbatim>\<open>c\<close> of the application \<^verbatim>\<open>a/b\<close>.\<close>

theorem source_per_stream:
  assumes "pool_ok pool" and "fetch_or_create H L h l r pool = Inr (url, pool')"
  shows "pool_ok pool' \<and> url = get_stream_url r \<and> fetch_source r pool' \<noteq> None
     \<and> (fetch_source r pool \<noteq> None \<longrightarrow> pool' = pool)
     \<and> (\<forall>u. u \<noteq> url \<longrightarrow> map_of pool' u = map_of pool u)
     \<and> (slash_free r \<longrightarrow> slash_free r' \<longrightarrow> get_stream_url r' = url \<longrightarrow>
          rq_vhost r' = rq_vhost r \<and> rq_app r' = rq_app r \<and> rq_stream r' = rq_stream r)
     \<and> fetch_by_name ''b'' ''c'' [(''v/a/b/c'', s)] = Some (''v/a/b/c'', s)"
proof -
  have u: "url = get_stream_url r" using assms(2) by (auto simp: fetch_or_create_def Let_def split: option.splits prod.splits)
  have "suffix ''/b/c'' ''v/a/b/c''" by code_simp
  then have f: "fetch_by_name ''b'' ''c'' [(''v/a/b/c'', s)] = Some (''v/a/b/c'', s)" by (simp add: fetch_by_name_def)
  have same: "slash_free r \<longrightarrow> slash_free r' \<longrightarrow> get_stream_url r' = url \<longrightarrow>
      rq_vhost r' = rq_vhost r \<and> rq_app r' = rq_app r \<and> rq_stream r' = rq_stream r"
    using stream_url_inj [of "rq_vhost r'" "rq_vhost r" "rq_stream r'" "rq_stream r" "rq_app r'" "rq_app r"] u
    by (simp add: slash_free_def get_stream_url_def)
  show ?thesis
  proof (cases "map_of pool url")
    case None
    then obtain src where p: "pool' = insort_key fst (url, src) pool"
      using assms(2) u by (auto simp: fetch_or_create_def Let_def split: option.splits prod.splits)
    have m: "map_of pool' = (map_of pool)(url \<mapsto> src)" using None p by (simp add: map_of_insort map_of_eq_None_iff)
    show ?thesis using None p m u f same pool_ok_insert [OF assms(1) None, of src] by (simp add: fetch_source_def)
  next
    case (Some src)
    then have "pool' = pool" using assms(2) u by (simp add: fetch_or_create_def Let_def)
    then show ?thesis using Some assms(1) u f same by (simp add: fetch_source_def)
  qed
qed

theorem source_per_stream_witness:
  "\<exists>pool'. fetch_or_create disabled_handler disabled_handler () () (SrsRequest_new\<lparr>rq_vhost := ''v'', rq_app := ''live'', rq_stream := ''s''\<rparr>) []
       = Inr (''v/live/s'', pool') \<and> pool_ok pool'"
proof -
  let ?D = disabled_handler and ?r = "SrsRequest_new\<lparr>rq_vhost := ''v'', rq_app := ''live'', rq_stream := ''s''\<rparr>"
  have "\<exists>pool'. fetch_or_create ?D ?D () () ?r [] = Inr (''v/live/s'', pool')"
    by (simp add: fetch_or_create_def get_stream_url_def srs_generate_stream_url_def source_initialize_def SrsLiveSource_new_def
        hub_initialize_def disabled_handler_def Let_def)
  then obtain pool' where f: "fetch_or_create ?D ?D () () ?r [] = Inr (''v/live/s'', pool')" by blast
  have "pool_ok ([] :: (unit, unit) pool)" by (simp add: pool_ok_def)
  from source_per_stream [OF this f] f show ?thesis by blast
qed

end
