(* ===== verification/Locks.thy ===== *)
theory Locks
  imports Source
begin

text \<open>
  The mutexes of \<^verbatim>\<open>src/src/app/srs_app_source.cpp\<close>: one of the source and one of each consumer. Every operation
  is the sequence of its lock and unlock actions, taken from the scoped guards of its body and of the
  operations it calls; threads interleave these sequences. The theory shows when they cannot
  deadlock, and that one operation breaks the order that the code documents.
\<close>

section \<open>The locking of the operations\<close>

datatype mutex = Source_lock | Consumer_lock nat

datatype lock_action = Lock mutex | Unlock mutex

definition guarded :: "mutex \<Rightarrow> lock_action list \<Rightarrow> lock_action list" where
  "guarded m body = Lock m # body @ [Unlock m]"

text \<open>\<^verbatim>\<open>enqueue\<close>, \<^verbatim>\<open>set_queue_size\<close>, \<^verbatim>\<open>update_source_id\<close>, \<^verbatim>\<open>get_time\<close> of a consumer.\<close>

definition consumer_call_locks :: "nat \<Rightarrow> lock_action list" where
  "consumer_call_locks a = guarded (Consumer_lock a) []"

text \<open>\<^verbatim>\<open>on_audio\<close>, \<^verbatim>\<open>on_video\<close>, \<^verbatim>\<open>on_meta_data\<close> and \<^verbatim>\<open>on_publish\<close> call each consumer once under the lock of the source.\<close>

definition fan_out_locks :: "nat list \<Rightarrow> lock_action list" where
  "fan_out_locks as = guarded Source_lock (concat (map consumer_call_locks as))"

text \<open>
  \<^verbatim>\<open>source_id\<close>, \<^verbatim>\<open>pre_source_id\<close>, \<^verbatim>\<open>can_publish\<close>, \<^verbatim>\<open>on_unpublish\<close>, \<^verbatim>\<open>create_consumer\<close>, \<^verbatim>\<open>on_consumer_destroy\<close>,
  \<^verbatim>\<open>set_cache\<close> and \<^verbatim>\<open>set_gop_cache_max_frames\<close>.
\<close>

definition source_call_locks :: "lock_action list" where
  "source_call_locks = guarded Source_lock []"

text \<open>\<^verbatim>\<open>consumer_dumps\<close> sets the limit, then enqueues \<open>n\<close> messages and asks for the time.\<close>

definition consumer_dumps_locks :: "nat \<Rightarrow> nat \<Rightarrow> lock_action list" where
  "consumer_dumps_locks n a = guarded Source_lock (concat (replicate (n + 2) (consumer_call_locks a)))"

text \<open>\<^verbatim>\<open>dump_packets\<close> of a consumer asks the source for its two ids when they are to be logged.\<close>

definition dump_packets_locks :: "nat \<Rightarrow> SrsLiveConsumer \<Rightarrow> lock_action list" where
  "dump_packets_locks a c =
     guarded (Consumer_lock a) (if should_update_source_id c then source_call_locks @ source_call_locks else [])"

text \<open>\<^verbatim>\<open>wait\<close> gives the mutex back while it sleeps and takes it again.\<close>

definition wait_locks :: "nat \<Rightarrow> bool \<Rightarrow> lock_action list" where
  "wait_locks a sleep = guarded (Consumer_lock a) [] @ (if sleep then guarded (Consumer_lock a) [] else [])"

section \<open>Threads\<close>

text \<open>Who holds each mutex, and what each thread still has to do.\<close>

type_synonym lock_state = "(mutex \<Rightarrow> nat option) \<times> (nat \<Rightarrow> lock_action list)"

inductive lock_step :: "lock_state \<Rightarrow> lock_state \<Rightarrow> bool" where
  acquire: "todo t = Lock m # rest \<Longrightarrow> owner m = None \<Longrightarrow> lock_step (owner, todo) (owner(m \<mapsto> t), todo(t := rest))"
| release: "todo t = Unlock m # rest \<Longrightarrow> owner m = Some t \<Longrightarrow> lock_step (owner, todo) (owner(m := None), todo(t := rest))"

inductive lock_reachable :: "(nat \<Rightarrow> lock_action list) \<Rightarrow> lock_state \<Rightarrow> bool" for prog where
  start: "lock_reachable prog (\<lambda>_. None, prog)"
| step: "lock_reachable prog x \<Longrightarrow> lock_step x y \<Longrightarrow> lock_reachable prog y"

definition deadlock :: "lock_state \<Rightarrow> bool" where
  "deadlock x \<longleftrightarrow> (\<exists>t. snd x t \<noteq> []) \<and> (\<forall>y. \<not> lock_step x y)"

text \<open>The documented order: the source before a consumer; \<open>held\<close> are the mutexes of the thread.\<close>

fun rank :: "mutex \<Rightarrow> nat" where
  "rank Source_lock = 0"
| "rank (Consumer_lock _) = 1"

fun in_order :: "mutex set \<Rightarrow> lock_action list \<Rightarrow> bool" where
  "in_order held [] \<longleftrightarrow> held = {}"
| "in_order held (Lock m # acts) \<longleftrightarrow> (\<forall>h\<in>held. rank h < rank m) \<and> in_order (insert m held) acts"
| "in_order held (Unlock m # acts) \<longleftrightarrow> m \<in> held \<and> in_order (held - {m}) acts"

definition lock_inv :: "lock_state \<Rightarrow> bool" where
  "lock_inv x \<longleftrightarrow> (\<forall>t. in_order {m. fst x m = Some t} (snd x t))"

lemma lock_inv_step: "lock_step x y \<Longrightarrow> lock_inv x \<Longrightarrow> lock_inv y"
proof (induction rule: lock_step.induct)
  case (acquire todo t m rest owner)
  have "in_order {m'. (owner(m \<mapsto> t)) m' = Some u} ((todo(t := rest)) u)" for u
  proof (cases "u = t")
    case True
    have "{m'. (owner(m \<mapsto> t)) m' = Some t} = insert m {m'. owner m' = Some t}" by auto
    then show ?thesis using acquire True by (auto simp: lock_inv_def dest: spec [where x = t])
  next
    case False
    have "{m'. (owner(m \<mapsto> t)) m' = Some u} = {m'. owner m' = Some u}" using False acquire(2) by auto
    then show ?thesis using acquire(3) False by (simp add: lock_inv_def)
  qed
  then show ?case by (simp add: lock_inv_def)
next
  case (release todo t m rest owner)
  have "in_order {m'. (owner(m := None)) m' = Some u} ((todo(t := rest)) u)" for u
  proof (cases "u = t")
    case True
    have "{m'. (owner(m := None)) m' = Some t} = {m'. owner m' = Some t} - {m}" by auto
    then show ?thesis using release True by (auto simp: lock_inv_def dest: spec [where x = t])
  next
    case False
    have "{m'. (owner(m := None)) m' = Some u} = {m'. owner m' = Some u}" using False release(2) by auto
    then show ?thesis using release(3) False by (simp add: lock_inv_def)
  qed
  then show ?case by (simp add: lock_inv_def)
qed

text \<open>A thread that is stuck waits for a mutex, whose owner is stuck too and waits for one of higher rank.\<close>

lemma stuck_waits:
  assumes "lock_inv (owner, todo)" and "\<forall>y. \<not> lock_step (owner, todo) y" and "todo t \<noteq> []"
  obtains m rest u where "todo t = Lock m # rest" "owner m = Some u" "todo u \<noteq> []"
proof -
  have ord: "in_order {m. owner m = Some t} (todo t)" for t using assms(1) by (simp add: lock_inv_def)
  obtain act rest where todo: "todo t = act # rest" using assms(3) by (cases "todo t") auto
  show thesis
  proof (cases act)
    case (Lock m)
    then obtain u where u: "owner m = Some u" using assms(2) todo lock_step.acquire [of todo t m rest owner] by (cases "owner m") auto
    have "todo u \<noteq> []" using ord [of u] u by (cases "todo u") auto
    then show thesis using that todo Lock u by blast
  next
    case (Unlock m)
    then have "owner m = Some t" using ord [of t] todo by simp
    then show thesis using assms(2) todo Unlock lock_step.release [of todo t m rest owner] by blast
  qed
qed

lemma ordered_no_deadlock:
  assumes "lock_inv x"
  shows "\<not> deadlock x"
proof
  obtain owner todo where x: "x = (owner, todo)" by (cases x)
  assume d: "deadlock x"
  then have no: "\<forall>y. \<not> lock_step (owner, todo) y" by (simp add: deadlock_def x)
  have inv: "lock_inv (owner, todo)" using assms x by simp
  have climb: "\<exists>u m' rest'. todo u = Lock m' # rest' \<and> rank m < rank m'" if t: "todo t = Lock m # rest" for t m rest
  proof -
    obtain u where u: "owner m = Some u" "todo u \<noteq> []" using stuck_waits [OF inv no, of t] t by auto
    obtain m' rest' where m': "todo u = Lock m' # rest'" using stuck_waits [OF inv no u(2)] by blast
    have "in_order {m. owner m = Some u} (Lock m' # rest')" using inv m' by (metis lock_inv_def fst_conv snd_conv)
    then show ?thesis using u(1) m' by auto
  qed
  obtain t where "todo t \<noteq> []" using d by (auto simp: deadlock_def x)
  then obtain m rest where "todo t = Lock m # rest" using stuck_waits [OF inv no, of t] by blast
  then obtain u m1 r1 where m1: "todo u = Lock m1 # r1" "rank m < rank m1" using climb by blast
  then obtain m2 where "rank m1 < rank m2" using climb by blast
  then show False using m1(2) by (cases m2) auto
qed

lemma reachable_inv: "lock_reachable prog x \<Longrightarrow> \<forall>t. in_order {} (prog t) \<Longrightarrow> lock_inv x"
  by (induction rule: lock_reachable.induct) (simp add: lock_inv_def, blast intro: lock_inv_step)

section \<open>Which programs can deadlock\<close>

lemma in_order_guarded_source: "in_order {} (guarded Source_lock body @ acts) \<longleftrightarrow> in_order {Source_lock} (body @ Unlock Source_lock # acts)"
  by (simp add: guarded_def)

lemma in_order_consumer: "held \<subseteq> {Source_lock} \<Longrightarrow> in_order held (consumer_call_locks a @ acts) \<longleftrightarrow> in_order held acts"
  by (drule subset_singletonD) (auto simp: consumer_call_locks_def guarded_def insert_Diff_if)

lemma in_order_consumers: "held \<subseteq> {Source_lock} \<Longrightarrow> in_order held (concat (map consumer_call_locks as) @ acts) \<longleftrightarrow> in_order held acts"
  by (induction as) (simp_all add: in_order_consumer)

text \<open>The operations that follow the documented order, as sequences of calls of a thread.\<close>

inductive ordered_calls :: "lock_action list \<Rightarrow> bool" where
  none: "ordered_calls []"
| fan_out: "ordered_calls acts \<Longrightarrow> ordered_calls (fan_out_locks as @ acts)"
| source_call: "ordered_calls acts \<Longrightarrow> ordered_calls (source_call_locks @ acts)"
| dumps: "ordered_calls acts \<Longrightarrow> ordered_calls (consumer_dumps_locks n a @ acts)"
| dump_packets: "ordered_calls acts \<Longrightarrow> \<not> should_update_source_id c \<Longrightarrow> ordered_calls (dump_packets_locks a c @ acts)"
| wait: "ordered_calls acts \<Longrightarrow> ordered_calls (wait_locks a sleep @ acts)"

lemma in_order_fan_out: "in_order {} (fan_out_locks as @ acts) \<longleftrightarrow> in_order {} acts"
  by (simp add: fan_out_locks_def in_order_guarded_source in_order_consumers)

lemma consumer_dumps_fan_out: "consumer_dumps_locks n a = fan_out_locks (replicate (n + 2) a)"
  by (simp only: consumer_dumps_locks_def fan_out_locks_def map_replicate)

lemma ordered_calls_in_order: "ordered_calls acts \<Longrightarrow> in_order {} acts"
proof (induction rule: ordered_calls.induct)
  case (source_call acts)
  then show ?case by (simp add: source_call_locks_def guarded_def)
next
  case (dump_packets acts c a)
  then show ?case using in_order_consumer [of "{}" a] by (simp add: dump_packets_locks_def consumer_call_locks_def)
next
  case (wait acts a sleep)
  then show ?case using in_order_consumer [of "{}" a] by (simp add: wait_locks_def consumer_call_locks_def)
qed (simp_all only: consumer_dumps_fan_out in_order_fan_out in_order.simps)

text \<open>C31. Threads that only use the operations of the source and its consumers with the documented lock order,
  source before consumer, never deadlock, whatever they call and however they interleave. One
  operation breaks the order: when a publisher has come and the ids of the source are to be logged,
  \<^verbatim>\<open>SrsLiveConsumer::dump_packets\<close> asks the source while it holds the lock of the consumer, so that a
  player that dumps and a publisher that delivers a frame can wait for each other forever.\<close>

theorem lock_order:
  "((\<forall>t. ordered_calls (prog t)) \<longrightarrow> lock_reachable prog x \<longrightarrow> \<not> deadlock x)
   \<and> (\<exists>y. lock_reachable ((\<lambda>_. [])(0 := fan_out_locks [a], 1 := dump_packets_locks a (update_source_id c))) y \<and> deadlock y)"
proof
  show "(\<forall>t. ordered_calls (prog t)) \<longrightarrow> lock_reachable prog x \<longrightarrow> \<not> deadlock x"
    using reachable_inv ordered_no_deadlock ordered_calls_in_order by blast
  let ?C = "Consumer_lock a" and ?prog = "(\<lambda>_ :: nat. [])(0 := fan_out_locks [a], 1 := dump_packets_locks a (update_source_id c))"
  let ?r0 = "[Lock ?C, Unlock ?C, Unlock Source_lock]"
  let ?r1 = "[Lock Source_lock, Unlock Source_lock, Lock Source_lock, Unlock Source_lock, Unlock ?C]"
  define y :: lock_state where "y = ((\<lambda>_. None)(Source_lock \<mapsto> 0, ?C \<mapsto> 1), (\<lambda>_. [])(0 := ?r0, 1 := ?r1))"
  have p0: "?prog 0 = Lock Source_lock # ?r0" "?prog 1 = Lock ?C # ?r1"
    by (simp_all add: fan_out_locks_def consumer_call_locks_def guarded_def dump_packets_locks_def source_call_locks_def update_source_id_def)
  have s1: "lock_step (\<lambda>_. None, ?prog) ((\<lambda>_. None)(Source_lock \<mapsto> 0), ?prog(0 := ?r0))"
    by (rule lock_step.acquire) (use p0 in simp_all)
  have s2: "lock_step ((\<lambda>_. None)(Source_lock \<mapsto> 0), ?prog(0 := ?r0)) ((\<lambda>_. None)(Source_lock \<mapsto> 0, ?C \<mapsto> 1), ?prog(0 := ?r0, 1 := ?r1))"
    by (rule lock_step.acquire) (use p0 in simp_all)
  have "?prog(0 := ?r0, 1 := ?r1) = (\<lambda>_. [])(0 := ?r0, 1 := ?r1)" by auto
  then have "lock_reachable ?prog y"
    using lock_reachable.step [OF lock_reachable.step [OF lock_reachable.start s1] s2] by (simp add: y_def)
  moreover have "deadlock y"
    unfolding deadlock_def
  proof (intro conjI allI notI)
    show "\<exists>t. snd y t \<noteq> []" by (rule exI [of _ 0]) (simp add: y_def)
    fix z assume "lock_step y z"
    then show False by (cases rule: lock_step.cases) (auto simp: y_def split: if_splits)
  qed
  ultimately show "\<exists>y. lock_reachable ?prog y \<and> deadlock y" by blast
qed

theorem lock_order_witness:
  "\<not> deadlock (\<lambda>_. None, (\<lambda>_. [])(0 := fan_out_locks [5], 1 := dump_packets_locks 5 SrsLiveConsumer_new))"
proof -
  let ?prog = "(\<lambda>_ :: nat. [])(0 := fan_out_locks [5], 1 := dump_packets_locks 5 SrsLiveConsumer_new)"
  have "ordered_calls (?prog t)" for t
    using ordered_calls.fan_out [OF ordered_calls.none, of "[5]"] ordered_calls.none
      ordered_calls.dump_packets [OF ordered_calls.none, of SrsLiveConsumer_new 5]
    by (simp add: SrsLiveConsumer_new_def)
  with lock_order [of ?prog "(\<lambda>_. None, ?prog)"] lock_reachable.start [of ?prog] show ?thesis by blast
qed

end
