(* ===== verification/Text.thy ===== *)
theory Text
  imports Utility
begin

text \<open>
  Numbers as text, the way a \<^verbatim>\<open>std::stringstream\<close> of the program prints them: an integer in decimal, and thousandths with
  three digits (\<^verbatim>\<open>std::fixed\<close>, precision 3). A duration in seconds is a double there, a quotient of whole
  milliseconds by 1000; printed to three places it is the milliseconds again, so that no double is needed here.
\<close>

definition digit :: "nat \<Rightarrow> char" where
  "digit d = ''0123456789'' ! d"

fun decimal :: "nat \<Rightarrow> string" where
  "decimal n = (if n < 10 then [digit n] else decimal (n div 10) @ [digit (n mod 10)])"

declare decimal.simps [simp del]

definition show_int :: "int \<Rightarrow> string" where
  "show_int i = (if i < 0 then CHR ''-'' # decimal (nat (- i)) else decimal (nat i))"

text \<open>\<open>ms\<close> thousandths, that is \<^verbatim>\<open>ms / 1000.0\<close>.\<close>

definition show_fixed3 :: "int \<Rightarrow> string" where
  "show_fixed3 ms =
     (let n = nat \<bar>ms\<bar>
      in (if ms < 0 then ''-'' else []) @ decimal (n div 1000) @ CHR ''.'' # [digit (n div 100 mod 10), digit (n div 10 mod 10), digit (n mod 10)])"

text \<open>\<^verbatim>\<open>ceil(ms / 1000.0)\<close>.\<close>

definition ceil_seconds :: "int \<Rightarrow> int" where
  "ceil_seconds ms = - ((- ms) div 1000)"

definition is_digit :: "char \<Rightarrow> bool" where
  "is_digit c \<longleftrightarrow> (of_char c :: nat) \<in> {48..57}"

lemma of_char_digit [simp]: "d < 10 \<Longrightarrow> of_char (digit d) = 48 + d"
proof -
  assume "d < 10"
  then have "d \<in> {0, 1, 2, 3, 4, 5, 6, 7, 8, 9}" by auto
  then show ?thesis by (auto simp: digit_def)
qed

lemma is_digit_digit [simp]: "d < 10 \<Longrightarrow> is_digit (digit d)"
  by (simp add: is_digit_def)

lemma decimal_digits: "list_all is_digit (decimal n)"
  by (induction n rule: decimal.induct) (subst decimal.simps, simp)

lemma decimal_not_Nil [simp]: "decimal n \<noteq> []"
  by (subst decimal.simps) simp

text \<open>The value of a string of digits, and that printing loses nothing.\<close>

definition decimal_value :: "string \<Rightarrow> nat" where
  "decimal_value = foldl (\<lambda>v c. v * 10 + (of_char c - 48)) 0"

lemma decimal_value_decimal [simp]: "decimal_value (decimal n) = n"
proof (induction n rule: decimal.induct)
  case (1 n)
  then show ?case
    by (cases "n < 10") (simp_all add: decimal.simps [of n] decimal_value_def)
qed

lemma decimal_eq_iff [simp]: "decimal m = decimal n \<longleftrightarrow> m = n"
  by (metis decimal_value_decimal)

lemma ceil_seconds_bounds: "ms \<le> ceil_seconds ms * 1000" "ceil_seconds ms * 1000 < ms + 1000"
  unfolding ceil_seconds_def by linarith+

lemma ceil_seconds_mono: "a \<le> b \<Longrightarrow> ceil_seconds a \<le> ceil_seconds b"
  by (simp add: ceil_seconds_def zdiv_mono1)

lemma show_int_eq_iff: "0 \<le> a \<Longrightarrow> 0 \<le> b \<Longrightarrow> show_int a = show_int b \<longleftrightarrow> a = b"
  by (simp add: show_int_def eq_nat_nat_iff)

end
