(* ===== verification/Files.thy ===== *)
theory Files
  imports Codec Text
begin

text \<open>
  Files, \<^verbatim>\<open>src/src/kernel/srs_kernel_file.cpp\<close>: \<^verbatim>\<open>SrsFileWriter\<close> over the calls of the C library and the system, which are a
  parameter: \<open>os_files\<close> gives what each call answers and does to the disk, whose state has any type. A stream is
  known by the path it was opened with. \<open>file_system\<close> states what the calls are relied on for; each may
  fail at any time. \<^verbatim>\<open>SrsFileReader\<close> is not used by the program.
\<close>

section \<open>System calls\<close>

datatype mkdir_answer = Mkdir_done | Mkdir_exists | Mkdir_failed

record 'k os_files =
  os_fopen :: "string \<Rightarrow> 'k \<Rightarrow> bool \<times> 'k"
  os_fwrite :: "string \<Rightarrow> byte list \<Rightarrow> 'k \<Rightarrow> nat \<times> 'k"
  os_rename :: "string \<Rightarrow> string \<Rightarrow> 'k \<Rightarrow> bool \<times> 'k"
  os_unlink :: "string \<Rightarrow> 'k \<Rightarrow> bool \<times> 'k"
  os_exists :: "string \<Rightarrow> 'k \<Rightarrow> bool"
  os_mkdir :: "string \<Rightarrow> 'k \<Rightarrow> mkdir_answer \<times> 'k"

section \<open>SrsFileWriter\<close>

text \<open>\<open>fp\<close> is the open stream, if any; \<open>fw_path\<close> is for messages only.\<close>

record SrsFileWriter =
  fp :: "string option"
  fw_path :: string

definition SrsFileWriter_new :: SrsFileWriter where
  "SrsFileWriter_new = \<lparr>fp = None, fw_path = []\<rparr>"

definition fw_open :: "'k os_files \<Rightarrow> string \<Rightarrow> SrsFileWriter \<times> 'k \<Rightarrow> (SrsFileWriter \<times> 'k) outcome" where
  "fw_open os p = (\<lambda>(f, k).
     if fp f \<noteq> None then (Some (Srs_error ERROR_SYSTEM_FILE_OPENE), (f, k))
     else let (opened, k') = os_fopen os p k in
          if \<not> opened then (Some (Srs_error ERROR_SYSTEM_FILE_OPENE), (f, k'))
          else (None, (f\<lparr>fp := Some p, fw_path := p\<rparr>, k')))"

definition fw_close :: "SrsFileWriter \<Rightarrow> SrsFileWriter" where
  "fw_close f = (if fp f \<noteq> None then f\<lparr>fp := None\<rparr> else f)"

definition fw_is_open :: "SrsFileWriter \<Rightarrow> bool" where
  "fw_is_open f \<longleftrightarrow> fp f \<noteq> None"

definition fw_write :: "'k os_files \<Rightarrow> byte list \<Rightarrow> SrsFileWriter \<times> 'k \<Rightarrow> (SrsFileWriter \<times> 'k) outcome" where
  "fw_write os buf = (\<lambda>(f, k).
     case fp f of
       None \<Rightarrow> (Some (Srs_error ERROR_SYSTEM_FILE_WRITE), (f, k))
     | Some p \<Rightarrow> let (n, k') = os_fwrite os p buf k in
         if n \<noteq> length buf then (Some (Srs_error ERROR_SYSTEM_FILE_WRITE), (f, k')) else (None, (f, k')))"

fun fw_writev :: "'k os_files \<Rightarrow> byte list list \<Rightarrow> SrsFileWriter \<times> 'k \<Rightarrow> (SrsFileWriter \<times> 'k) outcome" where
  "fw_writev os [] = (\<lambda>x. (None, x))"
| "fw_writev os (piov # iov) = andthen (fw_write os piov) (fw_writev os iov)"

section \<open>Directories\<close>

definition srs_path_exists :: "'k os_files \<Rightarrow> string \<Rightarrow> 'k \<Rightarrow> bool" where
  "srs_path_exists os path k = os_exists os path k"

lemma find_first_less: "find_first_of cs s = Some n \<Longrightarrow> n < length s"
  by (induction s arbitrary: n) (auto simp: find_first_of.simps split: if_splits option.splits)

lemma rfind_char_less: "rfind_char c s = Some i \<Longrightarrow> i < length s"
  by (auto simp: rfind_char_def dest: find_first_less split: option.splits)

function srs_create_dir_recursively :: "'k os_files \<Rightarrow> string \<Rightarrow> 'k \<Rightarrow> 'k outcome" where
  "srs_create_dir_recursively os dir = (\<lambda>k.
     if dir = [] \<or> dir = ''/'' \<or> dir = ''.'' then (None, k)
     else andthen
       (case rfind_char (CHR ''/'') dir of
          Some pos \<Rightarrow> if pos \<noteq> 0 then srs_create_dir_recursively os (take pos dir) else (\<lambda>k. (None, k))
        | None \<Rightarrow> (\<lambda>k. (None, k)))
       (\<lambda>k. case os_mkdir os dir k of (a, k') \<Rightarrow> (if a = Mkdir_failed then Some (Srs_error ERROR_HLS_CREATE_DIR) else None, k')) k)"
  by pat_completeness auto
termination
  by (relation "measure (\<lambda>(os, dir). length dir)") (auto dest: rfind_char_less)

declare srs_create_dir_recursively.simps [simp del]

section \<open>What a file system does\<close>

locale file_system =
  fixes os :: "'k os_files" and files :: "'k \<Rightarrow> string \<rightharpoonup> byte list"
  assumes fopen: "os_fopen os p k = (r, k') \<Longrightarrow> files k' = (if r then (files k)(p \<mapsto> []) else files k)"
    and fwrite: "os_fwrite os p bs k = (n, k') \<Longrightarrow> n \<le> length bs
        \<and> files k' = (case files k p of None \<Rightarrow> files k | Some xs \<Rightarrow> (files k)(p \<mapsto> xs @ take n bs))"
    and rename: "os_rename os a b k = (r, k') \<Longrightarrow>
        files k' = (case files k a of Some xs \<Rightarrow> if r then (files k)(a := None, b \<mapsto> xs) else files k | None \<Rightarrow> files k)
        \<and> (r \<longrightarrow> files k a \<noteq> None)"
    and unlink: "os_unlink os p k = (r, k') \<Longrightarrow> files k' = (if r then (files k)(p := None) else files k)"
    and exists: "files k p \<noteq> None \<Longrightarrow> os_exists os p k"
    and mkdir: "os_mkdir os d k = (ans, k') \<Longrightarrow> files k' = files k"
begin

text \<open>Only the files that an operation is about change.\<close>

lemma fw_open_files:
  assumes "fw_open os p (f, k) = (e, (f', k'))"
  shows "(e = None \<and> fp f = None \<and> fp f' = Some p \<and> files k' = (files k)(p \<mapsto> []))
    \<or> (e = Some (Srs_error ERROR_SYSTEM_FILE_OPENE) \<and> f' = f \<and> files k' = files k)"
  using assms fopen [of p k] by (auto simp: fw_open_def Let_def split: if_splits prod.splits)

lemma fw_write_files:
  assumes "fw_write os bs (f, k) = (e, (f', k'))"
  shows "f' = f \<and> (case fp f of None \<Rightarrow> e = Some (Srs_error ERROR_SYSTEM_FILE_WRITE) \<and> files k' = files k
    | Some p \<Rightarrow> \<exists>n \<le> length bs. files k' = (case files k p of None \<Rightarrow> files k | Some xs \<Rightarrow> (files k)(p \<mapsto> xs @ take n bs))
        \<and> e = (if n = length bs then None else Some (Srs_error ERROR_SYSTEM_FILE_WRITE)))"
  using assms fwrite [of _ bs k] by (auto simp: fw_write_def Let_def split: if_splits prod.splits option.splits)

lemma create_dir_files: "srs_create_dir_recursively os dir k = (e, k') \<Longrightarrow> files k' = files k \<and> (e = None \<or> e = Some (Srs_error ERROR_HLS_CREATE_DIR))"
proof (induction "length dir" arbitrary: dir k e k' rule: less_induct)
  case less
  define mk where "mk = (\<lambda>k. case os_mkdir os dir k of (a, k') \<Rightarrow> (if a = Mkdir_failed then Some (Srs_error ERROR_HLS_CREATE_DIR) else None, k'))"
  define parent where "parent = (case rfind_char (CHR ''/'') dir of Some pos \<Rightarrow> if pos \<noteq> 0 then srs_create_dir_recursively os (take pos dir) else (\<lambda>k. (None, k))
        | None \<Rightarrow> (\<lambda>k. (None, k)))"
  have m: "files k2 = files k1 \<and> (e1 = None \<or> e1 = Some (Srs_error ERROR_HLS_CREATE_DIR))" if "mk k1 = (e1, k2)" for k1 e1 k2
    using that mkdir [of dir k1] by (auto simp: mk_def split: prod.splits)
  have p: "files k2 = files k1 \<and> (e1 = None \<or> e1 = Some (Srs_error ERROR_HLS_CREATE_DIR))" if "parent k1 = (e1, k2)" for k1 e1 k2
  proof (cases "rfind_char (CHR ''/'') dir")
    case (Some pos)
    then have "length (take pos dir) < length dir" using rfind_char_less [OF Some] by simp
    from less.hyps [OF this] that Some show ?thesis by (auto simp: parent_def split: if_splits)
  qed (use that in \<open>simp add: parent_def\<close>)
  show ?case
  proof (cases "dir = [] \<or> dir = ''/'' \<or> dir = ''.''")
    case True
    then show ?thesis using less.prems by (auto simp: srs_create_dir_recursively.simps)
  next
    case False
    then have run: "andthen parent mk k = (e, k')" using less.prems unfolding parent_def mk_def by (simp add: srs_create_dir_recursively.simps)
    obtain e1 k1 where k1: "parent k = (e1, k1)" by fastforce
    show ?thesis using run k1 p [OF k1] m by (cases e1) (auto simp: andthen_def)
  qed
qed

end

section \<open>A disk\<close>

text \<open>
  A disk with directories that are always there. The answers to come can be set: a call that finds \<open>False\<close> in
  front of \<open>disk_faults\<close> fails, a write then after half of its bytes.
\<close>

record disk =
  disk_files :: "string \<rightharpoonup> byte list"
  disk_faults :: "bool list"

definition disk_answer :: "disk \<Rightarrow> bool \<times> disk" where
  "disk_answer k = (case disk_faults k of [] \<Rightarrow> (True, k) | b # bs \<Rightarrow> (b, k\<lparr>disk_faults := bs\<rparr>))"

definition disk_os :: "disk os_files" where
  "disk_os = \<lparr>
     os_fopen = (\<lambda>p k. let (r, k1) = disk_answer k in (r, if r then k1\<lparr>disk_files := (disk_files k1)(p \<mapsto> [])\<rparr> else k1)),
     os_fwrite = (\<lambda>p bs k. let (r, k1) = disk_answer k; n = (if r then length bs else length bs div 2) in
        (n, case disk_files k1 p of None \<Rightarrow> k1 | Some xs \<Rightarrow> k1\<lparr>disk_files := (disk_files k1)(p \<mapsto> xs @ take n bs)\<rparr>)),
     os_rename = (\<lambda>a b k. let (r, k1) = disk_answer k in
        case disk_files k1 a of
          Some xs \<Rightarrow> (r, if r then k1\<lparr>disk_files := (disk_files k1)(a := None, b \<mapsto> xs)\<rparr> else k1)
        | None \<Rightarrow> (False, k1)),
     os_unlink = (\<lambda>p k. let (r, k1) = disk_answer k in (r, if r then k1\<lparr>disk_files := (disk_files k1)(p := None)\<rparr> else k1)),
     os_exists = (\<lambda>p k. disk_files k p \<noteq> None),
     os_mkdir = (\<lambda>d k. let (r, k1) = disk_answer k in (if r then Mkdir_done else Mkdir_failed, k1))\<rparr>"

lemma disk_answer_files: "disk_answer k = (r, k') \<Longrightarrow> disk_files k' = disk_files k"
  by (auto simp: disk_answer_def split: list.splits)

interpretation disk: file_system disk_os disk_files
proof unfold_locales
  fix p a b d :: string and bs :: "byte list" and k k' :: disk and r :: bool and n :: nat and m :: mkdir_answer
  show "os_fopen disk_os p k = (r, k') \<Longrightarrow> disk_files k' = (if r then (disk_files k)(p \<mapsto> []) else disk_files k)"
    by (auto simp: disk_os_def Let_def dest: disk_answer_files split: prod.splits if_splits)
  show "os_fwrite disk_os p bs k = (n, k') \<Longrightarrow> n \<le> length bs
      \<and> disk_files k' = (case disk_files k p of None \<Rightarrow> disk_files k | Some xs \<Rightarrow> (disk_files k)(p \<mapsto> xs @ take n bs))"
    by (auto simp: disk_os_def Let_def dest: disk_answer_files split: prod.splits if_splits option.splits)
  show "os_rename disk_os a b k = (r, k') \<Longrightarrow>
      disk_files k' = (case disk_files k a of Some xs \<Rightarrow> if r then (disk_files k)(a := None, b \<mapsto> xs) else disk_files k | None \<Rightarrow> disk_files k)
      \<and> (r \<longrightarrow> disk_files k a \<noteq> None)"
    by (auto simp: disk_os_def Let_def dest: disk_answer_files split: prod.splits if_splits option.splits)
  show "os_unlink disk_os p k = (r, k') \<Longrightarrow> disk_files k' = (if r then (disk_files k)(p := None) else disk_files k)"
    by (auto simp: disk_os_def Let_def dest: disk_answer_files split: prod.splits if_splits)
  show "disk_files k p \<noteq> None \<Longrightarrow> os_exists disk_os p k"
    by (simp add: disk_os_def)
  show "os_mkdir disk_os d k = (m, k') \<Longrightarrow> disk_files k' = disk_files k"
    by (auto simp: disk_os_def Let_def dest: disk_answer_files split: prod.splits if_splits)
qed

end
