(* ===== verification/Fragment.thy ===== *)
theory Fragment
  imports Files
begin

text \<open>
  Media files and the rolling window of them, \<^verbatim>\<open>src/src/app/srs_app_fragment.cpp\<close>: a file is written
  under a temporary name and renamed when it is complete; \<^verbatim>\<open>SrsFragmentWindow\<close> keeps the ones that are in the playlist and
  expires the old ones. A fragment may carry more fields (a segment of HLS does), the operations are for all of them.
  Times are in microseconds.
\<close>

section \<open>SrsFragment\<close>

record SrsFragment =
  fr_dur :: int
  fr_start_dts :: int
  fr_sequence_header :: bool
  fr_filepath :: string

definition SrsFragment_new :: SrsFragment where
  "SrsFragment_new = \<lparr>fr_dur = 0, fr_start_dts = - 1, fr_sequence_header = False, fr_filepath = []\<rparr>"

abbreviation (input) SRS_UTIME_MILLISECONDS :: int where "SRS_UTIME_MILLISECONDS \<equiv> 1000"

definition fragment_append :: "int \<Rightarrow> 'f SrsFragment_scheme \<Rightarrow> 'f SrsFragment_scheme" where
  "fragment_append dts f =
     (let dts_in_tbn = dts * SRS_UTIME_MILLISECONDS;
          start1 = (if fr_start_dts f = - 1 then dts_in_tbn else fr_start_dts f);
          start2 = (if start1 < dts_in_tbn then start1 else dts_in_tbn)
      in f\<lparr>fr_start_dts := start2, fr_dur := dts_in_tbn - start2\<rparr>)"

definition tmppath :: "'f SrsFragment_scheme \<Rightarrow> string" where
  "tmppath f = fr_filepath f @ ''.tmp''"

definition fragment_create_dir :: "'k os_files \<Rightarrow> 'f SrsFragment_scheme \<Rightarrow> 'k \<Rightarrow> 'k outcome" where
  "fragment_create_dir os f k =
     (case rfind_char (CHR ''/'') (fr_filepath f) of
        None \<Rightarrow> (None, k)
      | Some pos \<Rightarrow>
          let dir = take pos (fr_filepath f) in
          if dir = [] \<or> srs_path_exists os dir k then (None, k) else srs_create_dir_recursively os dir k)"

definition fragment_rename :: "'k os_files \<Rightarrow> 'f SrsFragment_scheme \<Rightarrow> 'k \<Rightarrow> 'k outcome" where
  "fragment_rename os f k =
     (let (renamed, k') = os_rename os (tmppath f) (fr_filepath f) k
      in (if renamed then None else Some (Srs_error ERROR_SYSTEM_FILE_RENAME), k'))"

definition unlink_file :: "'k os_files \<Rightarrow> 'f SrsFragment_scheme \<Rightarrow> 'k \<Rightarrow> 'k outcome" where
  "unlink_file os f k =
     (let (unlinked, k') = os_unlink os (fr_filepath f) k
      in (if unlinked then None else Some (Srs_error ERROR_SYSTEM_FILE_WRITE), k'))"

definition unlink_tmpfile :: "'k os_files \<Rightarrow> 'f SrsFragment_scheme \<Rightarrow> 'k \<Rightarrow> 'k outcome" where
  "unlink_tmpfile os f k =
     (if srs_path_exists os (tmppath f) k
      then let (unlinked, k') = os_unlink os (tmppath f) k
           in (if unlinked then None else Some (Srs_error ERROR_SYSTEM_FILE_WRITE), k')
      else (None, k))"

section \<open>SrsFragmentWindow\<close>

record 'f SrsFragmentWindow =
  fragments :: "'f list"
  expired_fragments :: "'f list"

definition SrsFragmentWindow_new :: "'f SrsFragmentWindow" where
  "SrsFragmentWindow_new = \<lparr>fragments = [], expired_fragments = []\<rparr>"

definition window_append :: "'f \<Rightarrow> 'f SrsFragmentWindow \<Rightarrow> 'f SrsFragmentWindow" where
  "window_append f w = w\<lparr>fragments := fragments w @ [f]\<rparr>"

text \<open>The loop from the newest fragment back: the index of the one at which the window is exceeded. The list is reversed.\<close>

fun remove_index :: "int \<Rightarrow> int \<Rightarrow> 'f SrsFragment_scheme list \<Rightarrow> int" where
  "remove_index window duration [] = - 1"
| "remove_index window duration (f # before) =
     (let d = duration + fr_dur f in if d > window then int (length before) else remove_index window d before)"

definition window_shrink :: "int \<Rightarrow> 'f SrsFragment_scheme SrsFragmentWindow \<Rightarrow> 'f SrsFragment_scheme SrsFragmentWindow" where
  "window_shrink window w =
     (let n = nat (remove_index window 0 (rev (fragments w)))
      in w\<lparr>fragments := drop n (fragments w), expired_fragments := expired_fragments w @ take n (fragments w)\<rparr>)"

definition clear_expired :: "'k os_files \<Rightarrow> bool \<Rightarrow> 'f SrsFragment_scheme SrsFragmentWindow \<times> 'k \<Rightarrow> 'f SrsFragment_scheme SrsFragmentWindow \<times> 'k" where
  "clear_expired os delete_files = (\<lambda>(w, k).
     (w\<lparr>expired_fragments := []\<rparr>,
      fold (\<lambda>f k. if delete_files then snd (unlink_file os f k) else k) (expired_fragments w) k))"

definition max_duration :: "'f SrsFragment_scheme SrsFragmentWindow \<Rightarrow> int" where
  "max_duration w = fold (\<lambda>f v. if v < fr_dur f then fr_dur f else v) (fragments w) 0"

section \<open>The duration of a fragment\<close>

lemma fragment_append_selectors [simp]:
  "fr_sequence_header (fragment_append t f) = fr_sequence_header f" "fr_filepath (fragment_append t f) = fr_filepath f"
  "tmppath (fragment_append t f) = tmppath f"
  by (simp_all add: fragment_append_def Let_def tmppath_def)

text \<open>After frames at the times \<open>ts\<close> the duration is from the earliest of them to the last one.\<close>

lemma fragment_append_start:
  "fr_start_dts f \<noteq> - 1 \<Longrightarrow> fr_start_dts (fragment_append t f) = (if fr_start_dts f < t * 1000 then fr_start_dts f else t * 1000)"
  by (simp add: fragment_append_def)

lemma fragment_append_dur:
  "fr_start_dts f \<noteq> - 1 \<Longrightarrow> fr_dur (fragment_append t f) = (if fr_start_dts f < t * 1000 then t * 1000 - fr_start_dts f else 0)"
  by (cases "fr_start_dts f < t * 1000") (simp_all add: fragment_append_def)

lemma fragment_append_step:
  assumes "fr_start_dts f = s * 1000" and "0 \<le> s"
  shows "fr_start_dts (fragment_append t f) = min t s * 1000 \<and> fr_dur (fragment_append t f) = (t - min t s) * 1000"
proof -
  have "fr_start_dts f \<noteq> - 1" using assms by linarith
  from fragment_append_start [OF this, of t] fragment_append_dur [OF this, of t]
  show ?thesis unfolding assms(1) by (cases "s < t") (simp_all add: min_def)
qed

lemma fragment_append_frames:
  assumes "ts \<noteq> []" and "\<forall>t \<in> set ts. 0 \<le> t" and "fr_start_dts f = - 1"
  shows "fr_start_dts (fold fragment_append ts f) = Min (set ts) * 1000 \<and> fr_dur (fold fragment_append ts f) = (last ts - Min (set ts)) * 1000"
  using assms(1,2)
proof (induction ts rule: rev_induct)
  case (snoc t ts)
  show ?case
  proof (cases "ts = []")
    case True
    then show ?thesis using snoc.prems assms(3) by (simp add: fragment_append_def Let_def)
  next
    case False
    have nn: "0 \<le> Min (set ts)" using False snoc.prems(2) by (simp add: Min_ge_iff)
    have m: "Min (set (ts @ [t])) = min t (Min (set ts))" using False by (simp add: Min_insert)
    have i: "fr_start_dts (fold fragment_append ts f) = Min (set ts) * 1000" using snoc False by simp
    show ?thesis using fragment_append_step [OF i nn, of t] unfolding m by simp
  qed
qed simp

lemma fragment_append_nonneg: "0 \<le> fr_dur (fragment_append t f)"
  by (simp add: fragment_append_def Let_def)

section \<open>The window\<close>

definition total_dur :: "'f SrsFragment_scheme list \<Rightarrow> int" where
  "total_dur fs = sum_list (map fr_dur fs)"

lemma total_simps [simp]: "total_dur [] = 0" "total_dur (f # fs) = fr_dur f + total_dur fs" "total_dur (fs @ gs) = total_dur fs + total_dur gs"
  by (simp_all add: total_dur_def)

lemma total_rev [simp]: "total_dur (rev fs) = total_dur fs"
  by (simp add: total_dur_def rev_map [symmetric] sum_list_rev)

lemma remove_index_cases:
  "(remove_index window d fs = - 1 \<and> (fs = [] \<or> d + total_dur fs \<le> window))
   \<or> (\<exists>new f old. fs = new @ f # old \<and> remove_index window d fs = int (length old)
        \<and> (new = [] \<or> d + total_dur new \<le> window) \<and> window < d + total_dur new + fr_dur f)"
proof (induction fs arbitrary: d)
  case (Cons f fs)
  show ?case
  proof (cases "d + fr_dur f > window")
    case True
    then show ?thesis by (intro disjI2 exI [of _ "[]"] exI [of _ f] exI [of _ fs]) (simp add: Let_def)
  next
    case False
    then have r: "remove_index window d (f # fs) = remove_index window (d + fr_dur f) fs" by (simp add: Let_def)
    from Cons.IH [of "d + fr_dur f"] show ?thesis
    proof (rule disjE, goal_cases)
      case 2
      then obtain new g old where a: "fs = new @ g # old" "remove_index window (d + fr_dur f) fs = int (length old)"
        "new = [] \<or> d + fr_dur f + total_dur new \<le> window" "window < d + fr_dur f + total_dur new + fr_dur g"
        by blast
      have "d + total_dur (f # new) \<le> window" using a(3) False by auto
      then show ?thesis unfolding r using a by (intro disjI2 exI [of _ "f # new"] exI [of _ g] exI [of _ old]) (simp add: add.assoc)
    qed (use False r in \<open>auto simp: add.assoc\<close>)
  qed
qed simp

text \<open>
  Shrinking splits the list. Nothing expires as long as all together are not longer than the window; else what is kept is
  longer than the window, and without its oldest fragment it is not.
\<close>

lemma window_shrink_split:
  "\<exists>old. fragments w = old @ fragments (window_shrink window w)
    \<and> expired_fragments (window_shrink window w) = expired_fragments w @ old
    \<and> (fragments (window_shrink window w) = [] \<longrightarrow> fragments w = [])
    \<and> (tl (fragments (window_shrink window w)) = [] \<or> total_dur (tl (fragments (window_shrink window w))) \<le> window \<or> old = [])
    \<and> (if old = [] then total_dur (fragments w) \<le> window \<or> fragments w = [] \<or> total_dur (tl (fragments w)) \<le> window \<or> tl (fragments w) = []
       else window < total_dur (fragments (window_shrink window w)))"
proof -
  have w: "fragments (window_shrink window w) = drop (nat (remove_index window 0 (rev (fragments w)))) (fragments w)"
    "expired_fragments (window_shrink window w) = expired_fragments w @ take (nat (remove_index window 0 (rev (fragments w)))) (fragments w)"
    by (simp_all add: window_shrink_def Let_def)
  from remove_index_cases [of window 0 "rev (fragments w)"] show ?thesis
  proof (rule disjE, goal_cases)
    case 2
    then obtain new f old where a: "rev (fragments w) = new @ f # old" "remove_index window 0 (rev (fragments w)) = int (length old)"
      "new = [] \<or> 0 + total_dur new \<le> window" "window < 0 + total_dur new + fr_dur f"
      by blast
    have f: "fragments w = rev old @ f # rev new" using arg_cong [OF a(1), of rev] by simp
    have s: "fragments (window_shrink window w) = f # rev new" "expired_fragments (window_shrink window w) = expired_fragments w @ rev old"
      unfolding w a(2) by (simp_all add: f)
    show ?thesis using a(3,4) by (intro exI [of _ "rev old"]) (auto simp: s f)
  qed (auto simp: w)
qed

lemma max_duration_ge: "f \<in> set (fragments w) \<Longrightarrow> fr_dur f \<le> max_duration w"
proof -
  have k: "(v \<le> fold (\<lambda>f v. if v < fr_dur f then fr_dur f else v) fs v) \<and> (\<forall>f \<in> set fs. fr_dur f \<le> fold (\<lambda>f v. if v < fr_dur f then fr_dur f else v) fs v)"
    for v :: int and fs :: "'a SrsFragment_scheme list"
  proof (induction fs arbitrary: v)
    case (Cons f fs)
    from Cons.IH [of "if v < fr_dur f then fr_dur f else v"] show ?case by (auto split: if_splits)
  qed simp
  show "f \<in> set (fragments w) \<Longrightarrow> fr_dur f \<le> max_duration w" using k [of 0 "fragments w"] by (simp add: max_duration_def)
qed

section \<open>What the operations do to files\<close>

context file_system
begin

lemma create_dir_keeps: "fragment_create_dir os f k = (e, k') \<Longrightarrow> files k' = files k \<and> (e = None \<or> e = Some (Srs_error ERROR_HLS_CREATE_DIR))"
  by (auto simp: fragment_create_dir_def Let_def split: option.splits if_splits dest: create_dir_files)

lemma rename_files:
  assumes "fragment_rename os f k = (e, k')"
  shows "(e = None \<and> (\<exists>xs. files k (tmppath f) = Some xs \<and> files k' = (files k)(tmppath f := None, fr_filepath f \<mapsto> xs)))
    \<or> (e = Some (Srs_error ERROR_SYSTEM_FILE_RENAME) \<and> files k' = files k)"
proof -
  obtain r k1 where r: "os_rename os (tmppath f) (fr_filepath f) k = (r, k1)" by fastforce
  show ?thesis using assms rename [OF r] by (auto simp: fragment_rename_def r split: option.splits if_splits)
qed

lemma unlink_file_files:
  "unlink_file os f k = (e, k') \<Longrightarrow> files k' = (if e = None then (files k)(fr_filepath f := None) else files k) \<and> (e = None \<or> e = Some (Srs_error ERROR_SYSTEM_FILE_WRITE))"
  using unlink [of "fr_filepath f" k] by (auto simp: unlink_file_def Let_def split: prod.splits if_splits)

lemma unlink_tmpfile_files:
  "unlink_tmpfile os f k = (e, k') \<Longrightarrow> (files k' = files k \<or> files k' = (files k)(tmppath f := None)) \<and> (e = None \<or> e = Some (Srs_error ERROR_SYSTEM_FILE_WRITE))"
  using unlink [of "tmppath f" k] by (auto simp: unlink_tmpfile_def Let_def split: prod.splits if_splits)

lemma clear_expired_files:
  assumes "clear_expired os delete_files (w, k) = (w', k')"
  shows "fragments w' = fragments w" "expired_fragments w' = []"
    and "\<And>p. files k' p = files k p \<or> (files k' p = None \<and> p \<in> fr_filepath ` set (expired_fragments w))"
proof -
  let ?step = "\<lambda>f k. if delete_files then snd (unlink_file os f k) else k"
  show "fragments w' = fragments w" "expired_fragments w' = []" using assms by (auto simp: clear_expired_def)
  have "files (fold ?step fs k) p = files k p \<or> (files (fold ?step fs k) p = None \<and> p \<in> fr_filepath ` set fs)"
    for fs :: "'b SrsFragment_scheme list" and p
  proof (induction fs arbitrary: k)
    case (Cons f fs)
    obtain e k1 where u: "unlink_file os f k = (e, k1)" by fastforce
    have "files (?step f k) p = files k p \<or> (files (?step f k) p = None \<and> p = fr_filepath f)"
      using unlink_file_files [OF u] u by auto
    then show ?case using Cons.IH [of "?step f k"] by auto
  qed simp
  from this [of "expired_fragments w"] show "files k' p = files k p \<or> (files k' p = None \<and> p \<in> fr_filepath ` set (expired_fragments w))" for p
    using assms by (auto simp: clear_expired_def)
qed

end

end
