(* ===== verification/Ts.thy ===== *)
theory Ts
  imports Files
begin

text \<open>
  MPEG-TS, \<^verbatim>\<open>src/src/kernel/srs_kernel_ts.cpp\<close>: \<^verbatim>\<open>SrsTsMessageCache\<close> turns a frame into the payload of a PES packet (ADTS
  frames for AAC, Annex B for H.264), \<^verbatim>\<open>SrsTsContext\<close> writes it in TS packets of 188 bytes behind the tables PAT and
  PMT. The writer is a parameter: \<open>wr_write\<close> is the \<^verbatim>\<open>write\<close> of its \<^verbatim>\<open>ISrsWriter\<close>.
\<close>

section \<open>Checksum\<close>

definition crc_bit :: "32 word \<Rightarrow> 32 word" where
  "crc_bit crc = push_bit 1 crc XOR (if crc AND 0x80000000 \<noteq> 0 then 0x04c11db7 else 0)"

definition crc_byte :: "byte \<Rightarrow> 32 word \<Rightarrow> 32 word" where
  "crc_byte b crc = (crc_bit ^^ 8) (crc XOR push_bit 24 (ucast b))"

definition srs_crc32_mpegts :: "byte list \<Rightarrow> 32 word" where
  "srs_crc32_mpegts bs = fold crc_byte bs 0xffffffff"

section \<open>Messages and channels\<close>

abbreviation (input) SrsTsPESStreamIdAudioCommon :: byte where "SrsTsPESStreamIdAudioCommon \<equiv> 0xc0"
abbreviation (input) SrsTsPESStreamIdVideoCommon :: byte where "SrsTsPESStreamIdVideoCommon \<equiv> 0xe0"
abbreviation (input) SrsTsStreamReserved :: byte where "SrsTsStreamReserved \<equiv> 0"
abbreviation (input) SrsTsStreamAudioAAC :: byte where "SrsTsStreamAudioAAC \<equiv> 0x0f"
abbreviation (input) SrsTsStreamVideoH264 :: byte where "SrsTsStreamVideoH264 \<equiv> 0x1b"
abbreviation (input) TS_PMT_NUMBER :: "16 word" where "TS_PMT_NUMBER \<equiv> 1"
abbreviation (input) TS_PMT_PID :: "16 word" where "TS_PMT_PID \<equiv> 0x1001"
abbreviation (input) TS_VIDEO_AVC_PID :: "16 word" where "TS_VIDEO_AVC_PID \<equiv> 0x100"
abbreviation (input) TS_AUDIO_AAC_PID :: "16 word" where "TS_AUDIO_AAC_PID \<equiv> 0x101"
abbreviation (input) SRS_TS_PACKET_SIZE :: nat where "SRS_TS_PACKET_SIZE \<equiv> 188"
abbreviation (input) SrsVideoCodecIdForbidden :: byte where "SrsVideoCodecIdForbidden \<equiv> 0"
abbreviation (input) SrsAudioCodecIdForbidden :: byte where "SrsAudioCodecIdForbidden \<equiv> 0"

record SrsTsMessage =
  ts_dts :: int
  ts_pts :: int
  ts_sid :: byte
  ts_write_pcr :: bool
  ts_payload :: SrsSimpleStream

definition SrsTsMessage_new :: SrsTsMessage where
  "SrsTsMessage_new = \<lparr>ts_dts = 0, ts_pts = 0, ts_sid = 0, ts_write_pcr = False, ts_payload = SrsSimpleStream_new\<rparr>"

definition ts_is_audio :: "SrsTsMessage \<Rightarrow> bool" where
  "ts_is_audio msg \<longleftrightarrow> drop_bit 5 (ts_sid msg) AND 0x07 = 0x06"

definition ts_is_video :: "SrsTsMessage \<Rightarrow> bool" where
  "ts_is_video msg \<longleftrightarrow> drop_bit 4 (ts_sid msg) AND 0x0f = 0x0e"

record SrsTsChannel =
  ch_pid :: "16 word"
  ch_stream :: byte
  continuity_counter :: byte

record SrsTsContext =
  ctx_vcodec :: byte
  ctx_acodec :: byte
  ctx_pids :: "16 word \<rightharpoonup> SrsTsChannel"

definition SrsTsContext_new :: SrsTsContext where
  "SrsTsContext_new = \<lparr>ctx_vcodec = SrsVideoCodecIdForbidden, ctx_acodec = SrsAudioCodecIdForbidden, ctx_pids = Map.empty\<rparr>"

definition ts_reset :: "SrsTsContext \<Rightarrow> SrsTsContext" where
  "ts_reset c = c\<lparr>ctx_vcodec := SrsVideoCodecIdForbidden, ctx_acodec := SrsAudioCodecIdForbidden\<rparr>"

definition ts_channel :: "16 word \<Rightarrow> byte \<Rightarrow> SrsTsContext \<Rightarrow> SrsTsChannel \<times> SrsTsContext" where
  "ts_channel pid stream c =
     (case ctx_pids c pid of
        Some ch \<Rightarrow> (ch, c)
      | None \<Rightarrow> let ch = \<lparr>ch_pid = pid, ch_stream = stream, continuity_counter = 0\<rparr>
                in (ch, c\<lparr>ctx_pids := (ctx_pids c)(pid \<mapsto> ch)\<rparr>))"

text \<open>\<^verbatim>\<open>continuity_counter++\<close> on the channel of a pid, and its old value.\<close>

definition next_counter :: "16 word \<Rightarrow> byte \<Rightarrow> SrsTsContext \<Rightarrow> byte \<times> SrsTsContext" where
  "next_counter pid stream c =
     (let (ch, c1) = ts_channel pid stream c
      in (continuity_counter ch, c1\<lparr>ctx_pids := (ctx_pids c1)(pid \<mapsto> ch\<lparr>continuity_counter := continuity_counter ch + 1\<rparr>)\<rparr>))"

record 'w ISrsWriter =
  wr_write :: "byte list \<Rightarrow> 'w \<Rightarrow> 'w outcome"

text \<open>Writing one packet.\<close>

definition write_packet :: "'w ISrsWriter \<Rightarrow> byte list \<Rightarrow> SrsTsContext \<times> 'w \<Rightarrow> (SrsTsContext \<times> 'w) outcome" where
  "write_packet W pkt = (\<lambda>(c, w). let (e, w') = wr_write W pkt w in (e, (c, w')))"

section \<open>PAT and PMT\<close>

definition be16 :: "16 word \<Rightarrow> byte list" where
  "be16 v = [ucast (drop_bit 8 v), ucast v]"

definition be32 :: "32 word \<Rightarrow> byte list" where
  "be32 v = [ucast (drop_bit 24 v), ucast (drop_bit 16 v), ucast (drop_bit 8 v), ucast v]"

text \<open>Packet header, section with its checksum, and 0xff up to the size of a packet.\<close>

definition psi_packet :: "byte list \<Rightarrow> byte list \<Rightarrow> byte list" where
  "psi_packet header section =
     (let pkt = header @ section @ be32 (srs_crc32_mpegts section)
      in pkt @ replicate (SRS_TS_PACKET_SIZE - length pkt) 0xff)"

definition pat_section :: "byte list" where
  "pat_section = [0x00, 0xb0, 13, 0x00, 0x01, 0xc1, 0x00, 0x00] @ be16 TS_PMT_NUMBER
     @ [0xe0 OR ucast (drop_bit 8 TS_PMT_PID AND 0x1f), ucast TS_PMT_PID]"

definition pmt_section :: "bool \<Rightarrow> bool \<Rightarrow> 16 word \<Rightarrow> byte \<Rightarrow> 16 word \<Rightarrow> byte \<Rightarrow> byte list" where
  "pmt_section has_video has_audio vpid vs apid as =
     (let nb_es = (if has_video then 1 else 0) + (if has_audio then 1 else 0);
          section_length = (9 + 5 * nb_es + 4 :: 16 word);
          pcr_pid = (if has_video then vpid else apid)
      in [0x02, 0xb0 OR ucast (drop_bit 8 section_length AND 0x0f), ucast section_length] @ be16 TS_PMT_NUMBER
         @ [0xc1, 0x00, 0x00, 0xe0 OR ucast (drop_bit 8 pcr_pid AND 0x1f), ucast pcr_pid, 0xf0, 0x00]
         @ (if has_video then [vs, 0xe0 OR ucast (drop_bit 8 vpid AND 0x1f), ucast vpid, 0xf0, 0x00] else [])
         @ (if has_audio then [as, 0xe0 OR ucast (drop_bit 8 apid AND 0x1f), ucast apid, 0xf0, 0x00] else []))"

definition encode_pat_pmt :: "'w ISrsWriter \<Rightarrow> 16 word \<Rightarrow> byte \<Rightarrow> 16 word \<Rightarrow> byte \<Rightarrow> SrsTsContext \<times> 'w \<Rightarrow> (SrsTsContext \<times> 'w) outcome" where
  "encode_pat_pmt W vpid vs apid as = (\<lambda>(c, w).
     let has_video = (ctx_vcodec c = SrsVideoCodecIdAVC); has_audio = (ctx_acodec c = SrsAudioCodecIdAAC) in
     if \<not> has_video \<and> \<not> has_audio then (Some (Srs_error ERROR_HLS_DECODE_ERROR), (c, w))
     else let (n, c1) = next_counter 0x00 SrsTsStreamReserved c in
       andthen (write_packet W (psi_packet [0x47, 0x40, 0x00, 0x10 OR (n AND 0x0f), 0x00] pat_section)) (\<lambda>(c2, w2).
         let (n', c3) = next_counter TS_PMT_PID SrsTsStreamReserved c2 in
         write_packet W (psi_packet [0x47, 0x40 OR ucast (drop_bit 8 TS_PMT_PID AND 0x1f), ucast TS_PMT_PID, 0x10 OR (n' AND 0x0f), 0x00]
           (pmt_section has_video has_audio vpid vs apid as)) (c3, w2)) (c1, w))"

section \<open>PES\<close>

text \<open>The 33 bits of a time stamp with their markers.\<close>

definition srs_ts_encode_33bits_dts_pts :: "byte \<Rightarrow> int \<Rightarrow> byte list" where
  "srs_ts_encode_33bits_dts_pts fb v0 =
     (let v = word_of_int v0 AND (0x1ffffffff :: 64 word) in
      [(push_bit 4 fb AND 0xf0) OR push_bit 1 (ucast (drop_bit 30 v) AND 0x07) OR 0x01,
       ucast (drop_bit 22 v),
       (ucast (drop_bit 14 v) AND 0xfe) OR 0x01,
       ucast (drop_bit 7 v),
       (ucast (push_bit 1 v) AND 0xfe) OR 0x01])"

definition pes_header :: "SrsTsMessage \<Rightarrow> byte list" where
  "pes_header msg =
     (let write_dts = (ts_dts msg \<noteq> ts_pts msg);
          header_data_length = (if write_dts then 10 else 5);
          len = 3 + header_data_length + SrsSimpleStream_length (ts_payload msg);
          pes_packet_length = (if len > 0xffff then 0 else len)
      in [0x00, 0x00, 0x01, ts_sid msg] @ be16 (word_of_int pes_packet_length)
         @ [0x80, if write_dts then 0xc0 else 0x80, word_of_int header_data_length]
         @ srs_ts_encode_33bits_dts_pts (if write_dts then 0x03 else 0x02) (ts_pts msg)
         @ (if write_dts then srs_ts_encode_33bits_dts_pts 0x01 (ts_dts msg) else []))"

definition pcr_bytes :: "int \<Rightarrow> byte list" where
  "pcr_bytes dts =
     (let pcr = word_of_int dts AND (0x1ffffffff :: 64 word) in
      [ucast (drop_bit 25 pcr), ucast (drop_bit 17 pcr), ucast (drop_bit 9 pcr), ucast (drop_bit 1 pcr),
       push_bit 7 (ucast pcr AND 0x01) OR 0x7e, 0x00])"

text \<open>The adaptation field of \<open>af_size\<close> bytes: its length, the flags, the PCR and 0xff.\<close>

definition adaptation_field :: "SrsTsMessage \<Rightarrow> bool \<Rightarrow> nat \<Rightarrow> byte list" where
  "adaptation_field msg write_pcr af_size =
     (if af_size = 0 then []
      else if af_size = 1 then [0x00]
      else let flags = (if write_pcr then 0x10 OR (if ts_is_video msg then 0x40 else 0) else 0);
               head = [of_nat (af_size - 1), flags] @ (if write_pcr then pcr_bytes (ts_dts msg) else [])
           in head @ replicate (af_size - length head) 0xff)"

definition af_size :: "SrsTsMessage \<Rightarrow> bool \<Rightarrow> nat \<Rightarrow> nat" where
  "af_size msg first left =
     (let n = (if first \<and> ts_write_pcr msg then 8 else 0) in if 184 - n > left then 184 - left else n)"

lemma length_adaptation_field: "length (adaptation_field msg (first \<and> ts_write_pcr msg) (af_size msg first left)) = af_size msg first left"
  by (auto simp: adaptation_field_def af_size_def pcr_bytes_def Let_def)

lemma af_size_less: "0 < left \<Longrightarrow> af_size msg first left < 184"
  by (simp add: af_size_def Let_def)

text \<open>The packets, from the \<open>rest\<close> of the PES packet that is still to be written.\<close>

function pes_packets :: "'w ISrsWriter \<Rightarrow> SrsTsMessage \<Rightarrow> 16 word \<Rightarrow> bool \<Rightarrow> byte list \<Rightarrow> SrsTsContext \<times> 'w \<Rightarrow> (SrsTsContext \<times> 'w) outcome" where
  "pes_packets W msg pid first rest = (\<lambda>(c, w).
     if rest = [] then (None, (c, w))
     else let af = af_size msg first (length rest);
              (n, c1) = next_counter pid (if ts_is_audio msg then SrsTsStreamAudioAAC else SrsTsStreamVideoH264) c;
              header = [0x47, (if first then 0x40 else 0x00) OR ucast (drop_bit 8 pid AND 0x1f), ucast pid,
                        (if af > 0 then 0x30 else 0x10) OR (n AND 0x0f)]
                       @ adaptation_field msg (first \<and> ts_write_pcr msg) af;
              body = SRS_TS_PACKET_SIZE - length header
          in andthen (write_packet W (header @ take body rest)) (pes_packets W msg pid False (drop body rest)) (c1, w))"
  by pat_completeness auto
termination
proof (relation "measure (\<lambda>(W, msg, pid, first, rest). length rest)", goal_cases)
  case (2 W msg pid first rest)
  then show ?case using af_size_less [of "length rest" msg first]
    by (cases rest) (auto simp: length_adaptation_field)
qed simp

declare pes_packets.simps [simp del]

definition encode_pes :: "'w ISrsWriter \<Rightarrow> SrsTsMessage \<Rightarrow> 16 word \<Rightarrow> SrsTsContext \<times> 'w \<Rightarrow> (SrsTsContext \<times> 'w) outcome" where
  "encode_pes W msg pid = (\<lambda>(c, w).
     if SrsSimpleStream_length (ts_payload msg) \<le> 0 then (None, (c, w))
     else let (_, c1) = ts_channel pid (if ts_is_audio msg then SrsTsStreamAudioAAC else SrsTsStreamVideoH264) c
          in pes_packets W msg pid True (pes_header msg @ ss_data (ts_payload msg)) (c1, w))"

definition ts_encode :: "'w ISrsWriter \<Rightarrow> SrsTsMessage \<Rightarrow> byte \<Rightarrow> byte \<Rightarrow> SrsTsContext \<times> 'w \<Rightarrow> (SrsTsContext \<times> 'w) outcome" where
  "ts_encode W msg vc ac = (\<lambda>(c, w).
     andthen
       (\<lambda>(c, w). if ctx_vcodec c \<noteq> vc \<or> ctx_acodec c \<noteq> ac
          then encode_pat_pmt W TS_VIDEO_AVC_PID SrsTsStreamVideoH264 TS_AUDIO_AAC_PID SrsTsStreamAudioAAC
                 (c\<lparr>ctx_vcodec := vc, ctx_acodec := ac\<rparr>, w)
          else (None, (c, w)))
       (\<lambda>(c, w).
          let msg1 = (if ctx_vcodec c \<noteq> SrsVideoCodecIdAVC \<and> ts_is_audio msg then msg\<lparr>ts_write_pcr := True\<rparr> else msg)
          in encode_pes W msg1 (if ts_is_audio msg1 then TS_AUDIO_AAC_PID else TS_VIDEO_AVC_PID) (c, w)) (c, w))"

text \<open>The context and the file of a segment writer are those of the muxer and the segment: they are arguments here.\<close>

record SrsTsContextWriter =
  tscw_acodec :: byte
  tscw_vcodec :: byte

definition SrsTsContextWriter_new :: "byte \<Rightarrow> byte \<Rightarrow> SrsTsContextWriter" where
  "SrsTsContextWriter_new ac vc = \<lparr>tscw_acodec = ac, tscw_vcodec = vc\<rparr>"

definition ts_write_audio :: "'w ISrsWriter \<Rightarrow> SrsTsContextWriter \<Rightarrow> SrsTsMessage \<Rightarrow> SrsTsContext \<times> 'w \<Rightarrow> (SrsTsContext \<times> 'w) outcome" where
  "ts_write_audio W tscw audio = ts_encode W audio (tscw_vcodec tscw) (tscw_acodec tscw)"

definition ts_write_video :: "'w ISrsWriter \<Rightarrow> SrsTsContextWriter \<Rightarrow> SrsTsMessage \<Rightarrow> SrsTsContext \<times> 'w \<Rightarrow> (SrsTsContext \<times> 'w) outcome" where
  "ts_write_video W tscw video = ts_encode W video (tscw_vcodec tscw) (tscw_acodec tscw)"

section \<open>From frames to messages\<close>

record SrsTsMessageCache =
  tc_audio :: "SrsTsMessage option"
  tc_video :: "SrsTsMessage option"

definition SrsTsMessageCache_new :: SrsTsMessageCache where
  "SrsTsMessageCache_new = \<lparr>tc_audio = None, tc_video = None\<rparr>"

text \<open>\<^verbatim>\<open>append\<close> as a step on the stream.\<close>

definition ss_add :: "byte list \<Rightarrow> SrsSimpleStream \<Rightarrow> SrsSimpleStream outcome" where
  "ss_add bs s = (case SrsSimpleStream_append bs s of Inl e \<Rightarrow> (Some e, s) | Inr s' \<Rightarrow> (None, s'))"

definition adts_header :: "SrsAudioCodecConfig \<Rightarrow> nat \<Rightarrow> byte list" where
  "adts_header codec sz =
     (let frame_length = (of_nat sz + 7 :: 32 word) in
      [0xff, 0xf9,
       (push_bit 6 (srs_aac_rtmp2ts (aac_object codec)) AND 0xc0) OR (push_bit 2 (aac_sample_rate codec) AND 0x3c)
         OR (drop_bit 2 (aac_channels codec) AND 0x01),
       (push_bit 6 (aac_channels codec) AND 0xc0) OR ucast (drop_bit 11 frame_length AND 0x03),
       ucast (drop_bit 3 frame_length),
       (ucast (push_bit 5 frame_length) AND 0xe0) OR 0x1f,
       0xfc])"

fun aac_samples :: "SrsAudioCodecConfig \<Rightarrow> byte list list \<Rightarrow> SrsSimpleStream \<Rightarrow> SrsSimpleStream outcome" where
  "aac_samples codec [] = (\<lambda>s. (None, s))"
| "aac_samples codec (sample # samples) =
     (if sample = [] then (\<lambda>s. (Some (Srs_error ERROR_HLS_DECODE_ERROR), s))
      else andthen (ss_add (adts_header codec (length sample))) (andthen (ss_add sample) (aac_samples codec samples)))"

definition do_cache_aac :: "SrsAudioCodecConfig option \<Rightarrow> SrsAudioFrame \<Rightarrow> SrsSimpleStream \<Rightarrow> SrsSimpleStream outcome" where
  "do_cache_aac codec frame s =
     (case codec of
        None \<Rightarrow> (Some (Srs_error ERROR_HLS_DECODE_ERROR), s)
      | Some c \<Rightarrow> if \<not> is_aac_codec_ok c then (Some (Srs_error ERROR_HLS_DECODE_ERROR), s) else aac_samples c (af_samples frame) s)"

text \<open>The start code: of four bytes at the first time.\<close>

definition srs_avc_insert_aud :: "bool \<times> SrsSimpleStream \<Rightarrow> (bool \<times> SrsSimpleStream) outcome" where
  "srs_avc_insert_aud = (\<lambda>(aud_inserted, s).
     if \<not> aud_inserted then let (e, s') = ss_add [0x00, 0x00, 0x00, 0x01] s in (e, (True, s'))
     else let (e, s') = ss_add [0x00, 0x00, 0x01] s in (e, (aud_inserted, s')))"

definition nalu_add :: "byte list \<Rightarrow> bool \<times> SrsSimpleStream \<Rightarrow> (bool \<times> SrsSimpleStream) outcome" where
  "nalu_add bs = andthen srs_avc_insert_aud (\<lambda>(a, s). let (e, s') = ss_add bs s in (e, (a, s')))"

definition nalu_type :: "byte list \<Rightarrow> byte" where
  "nalu_type nalu = nalu ! 0 AND 0x1f"

abbreviation (input) SrsAvcNaluTypeAccessUnitDelimiter :: byte where "SrsAvcNaluTypeAccessUnitDelimiter \<equiv> 9"

fun avc_samples :: "SrsVideoCodecConfig \<Rightarrow> bool \<Rightarrow> byte list list \<Rightarrow> bool \<times> SrsSimpleStream \<Rightarrow> (bool \<times> SrsSimpleStream) outcome" where
  "avc_samples codec is_sps_pps_appended [] = (\<lambda>x. (None, x))"
| "avc_samples codec is_sps_pps_appended (sample # samples) =
     (if nalu_type sample = SrsAvcNaluTypeIDR \<and> \<not> is_sps_pps_appended
      then andthen (if sequenceParameterSetNALUnit codec \<noteq> [] then nalu_add (sequenceParameterSetNALUnit codec) else (\<lambda>x. (None, x)))
        (andthen (if pictureParameterSetNALUnit codec \<noteq> [] then nalu_add (pictureParameterSetNALUnit codec) else (\<lambda>x. (None, x)))
          (andthen (nalu_add sample) (avc_samples codec True samples)))
      else andthen (nalu_add sample) (avc_samples codec is_sps_pps_appended samples))"

definition do_cache_avc :: "SrsVideoCodecConfig option \<Rightarrow> SrsVideoFrame \<Rightarrow> SrsSimpleStream \<Rightarrow> SrsSimpleStream outcome" where
  "do_cache_avc codec frame s =
     (case codec of
        None \<Rightarrow> (Some (Srs_error ERROR_HLS_DECODE_ERROR), s)
      | Some c \<Rightarrow>
          if \<not> is_avc_codec_ok c then (Some (Srs_error ERROR_HLS_DECODE_ERROR), s)
          else let has_aud = (\<exists>nalu \<in> set (vf_samples frame). nalu_type nalu = SrsAvcNaluTypeAccessUnitDelimiter);
                   (e, _, s') = andthen (if has_aud then (\<lambda>x. (None, x)) else nalu_add [0x09, 0xf0])
                                  (avc_samples c False (vf_samples frame)) (False, s)
               in (e, s'))"

definition cache_audio :: "SrsAudioCodecConfig option \<Rightarrow> SrsAudioFrame \<Rightarrow> int \<Rightarrow> SrsTsMessageCache \<Rightarrow> SrsTsMessageCache outcome" where
  "cache_audio codec frame dts tc =
     (let audio = (case tc_audio tc of
                     None \<Rightarrow> SrsTsMessage_new\<lparr>ts_write_pcr := False, ts_dts := dts, ts_pts := dts, ts_sid := SrsTsPESStreamIdAudioCommon\<rparr>
                   | Some m \<Rightarrow> m);
          (e, s) = do_cache_aac codec frame (ts_payload audio)
      in (e, tc\<lparr>tc_audio := Some (audio\<lparr>ts_payload := s\<rparr>)\<rparr>))"

definition cache_video :: "SrsVideoCodecConfig option \<Rightarrow> SrsVideoFrame \<Rightarrow> int \<Rightarrow> SrsTsMessageCache \<Rightarrow> SrsTsMessageCache outcome" where
  "cache_video codec frame dts tc =
     (let video = (case tc_video tc of
                     None \<Rightarrow> SrsTsMessage_new\<lparr>ts_write_pcr := (frame_type frame = SrsVideoAvcFrameTypeKeyFrame),
                       ts_dts := dts, ts_pts := dts + vf_cts frame * 90, ts_sid := SrsTsPESStreamIdVideoCommon\<rparr>
                   | Some m \<Rightarrow> m);
          (e, s) = do_cache_avc codec frame (ts_payload video)
      in (e, tc\<lparr>tc_video := Some (video\<lparr>ts_payload := s\<rparr>)\<rparr>))"

section \<open>Reading packets\<close>

text \<open>What a demultiplexer reads from a packet: its pid, the start of a unit, the counter and the bytes behind the
  adaptation field; and from a PES packet: stream id, time stamps and payload.\<close>

definition ts_pid :: "byte list \<Rightarrow> 16 word" where
  "ts_pid pkt = push_bit 8 (ucast (pkt ! 1 AND 0x1f)) OR ucast (pkt ! 2)"

definition ts_start :: "byte list \<Rightarrow> bool" where
  "ts_start pkt \<longleftrightarrow> pkt ! 1 AND 0x40 \<noteq> 0"

definition ts_counter :: "byte list \<Rightarrow> byte" where
  "ts_counter pkt = pkt ! 3 AND 0x0f"

definition ts_body :: "byte list \<Rightarrow> byte list" where
  "ts_body pkt = drop (4 + (if pkt ! 3 AND 0x20 \<noteq> 0 then 1 + unat (pkt ! 4) else 0)) pkt"

definition is_packet :: "16 word \<Rightarrow> byte list \<Rightarrow> bool" where
  "is_packet pid pkt \<longleftrightarrow> length pkt = 188 \<and> pkt ! 0 = 0x47 \<and> ts_pid pkt = pid"

definition be_int :: "byte list \<Rightarrow> int" where
  "be_int bs = fold (\<lambda>b n. n * 256 + uint b) bs 0"

definition read_33bits :: "byte list \<Rightarrow> int" where
  "read_33bits bs = uint (push_bit 30 (ucast (drop_bit 1 (bs ! 0) AND 0x07)) OR push_bit 22 (ucast (bs ! 1))
     OR push_bit 15 (ucast (drop_bit 1 (bs ! 2))) OR push_bit 7 (ucast (bs ! 3)) OR ucast (drop_bit 1 (bs ! 4)) :: 64 word)"

definition read_pes :: "byte list \<Rightarrow> (byte \<times> int \<times> int \<times> byte list) option" where
  "read_pes pes =
     (let len = be_int (take 2 (drop 4 pes)); n = unat (pes ! 8); pts = read_33bits (drop 9 pes) in
      if take 3 pes \<noteq> [0, 0, 1] \<or> (len \<noteq> 0 \<and> len \<noteq> int (length pes) - 6) then None
      else Some (pes ! 3, pts, if pes ! 7 AND 0x40 \<noteq> 0 then read_33bits (drop 14 pes) else pts, drop (9 + n) pes))"

section \<open>Bits\<close>

lemma and_shift [simp]: "(0x30 OR (n AND 0x0f)) AND 0x20 \<noteq> (0::byte)" "(0x10 OR (n AND 0x0f)) AND 0x20 = (0::byte)"
  "(0x30 OR (n AND 0x0f)) AND 0x0f = n AND (0x0f::byte)" "(0x10 OR (n AND 0x0f)) AND 0x0f = n AND (0x0f::byte)"
  by (simp_all add: bit.conj_disj_distrib2 and.assoc)

lemma bit_int_masks:
  "bit (0xfe :: int) i \<longleftrightarrow> 1 \<le> i \<and> i < 8" "bit (0xf0 :: int) i \<longleftrightarrow> 4 \<le> i \<and> i < 8" "bit (0x07 :: int) i \<longleftrightarrow> i < 3"
  "bit (0x1f :: int) i \<longleftrightarrow> i < 5" "bit (0x1ffffffff :: int) i \<longleftrightarrow> i < 33" "bit (0xffffff :: int) i \<longleftrightarrow> i < 24"
proof -
  have e: "(0xfe :: int) = push_bit 1 (mask 7)" "(0xf0 :: int) = push_bit 4 (mask 4)" "(0x07 :: int) = mask 3"
    "(0x1f :: int) = mask 5" "(0x1ffffffff :: int) = mask 33" "(0xffffff :: int) = mask 24"
    by (simp_all add: mask_eq_exp_minus_1)
  show "bit (0xfe :: int) i \<longleftrightarrow> 1 \<le> i \<and> i < 8" "bit (0xf0 :: int) i \<longleftrightarrow> 4 \<le> i \<and> i < 8" "bit (0x07 :: int) i \<longleftrightarrow> i < 3"
  "bit (0x1f :: int) i \<longleftrightarrow> i < 5" "bit (0x1ffffffff :: int) i \<longleftrightarrow> i < 33" "bit (0xffffff :: int) i \<longleftrightarrow> i < 24"
    unfolding e by (auto simp only: bit_push_bit_iff bit_mask_iff possible_bit_int)
qed

lemma bit_masks:
  "bit (0xfe :: byte) i \<longleftrightarrow> 1 \<le> i \<and> i < 8" "bit (0xf0 :: byte) i \<longleftrightarrow> 4 \<le> i \<and> i < 8" "bit (0x07 :: byte) i \<longleftrightarrow> i < 3"
  "bit (0x1f :: byte) i \<longleftrightarrow> i < 5" "bit (0x1f :: 16 word) i \<longleftrightarrow> i < 5" "bit (0x1ffffffff :: 64 word) i \<longleftrightarrow> i < 33"
  by (auto simp: bit_int_masks)

lemma pid_back:
  fixes pid :: "16 word" and f :: byte
  assumes "pid < 0x2000" and "f AND 0x1f = 0"
  shows "push_bit 8 (ucast ((f OR ucast (drop_bit 8 pid AND 0x1f)) AND 0x1f)) OR ucast (ucast pid :: byte) = pid"
proof (rule bit_word_eqI)
  fix i assume "i < LENGTH(16)"
  have hi: "\<not> bit pid i" if "13 \<le> i" for i
  proof -
    have "uint pid < 2 ^ 13" using assms(1) by (simp add: word_less_def)
    then have "take_bit 13 pid = pid" by (simp add: take_bit_eq_mod word_uint_eq_iff uint_mod_distrib unsigned_take_bit_eq take_bit_int_eq_self)
    then show ?thesis using that by (metis bit_take_bit_iff linorder_not_le)
  qed
  have f: "\<not> bit f i" if "i < 5" for i
  proof -
    have "bit (f AND 0x1f) i = (bit f i \<and> i < 5)" by (auto simp only: bit_and_iff bit_masks)
    then show ?thesis using assms(2) that by simp
  qed
  show "bit (push_bit 8 (ucast ((f OR ucast (drop_bit 8 pid AND 0x1f)) AND 0x1f)) OR ucast (ucast pid :: byte) :: 16 word) i = bit pid i"
    using hi [of i] f [of "i - 8"] \<open>i < LENGTH(16)\<close> by (cases "i < 13") (auto simp: bit_int_masks bit_simps)
qed

lemma low_bits: "ucast (w AND 0x1f) = (ucast w AND 0x1f :: byte)" for w :: "16 word"
  by (rule bit_word_eqI) (auto simp: bit_int_masks bit_simps)

lemma start_bit:
  "((0x40 :: byte) OR ucast (drop_bit 8 (pid :: 16 word) AND 0x1f)) AND 0x40 \<noteq> 0"
  "ucast (drop_bit 8 (pid :: 16 word) AND 0x1f) AND (0x40 :: byte) = 0"
  by (simp_all add: low_bits bit.conj_disj_distrib2 and.assoc)

text \<open>One packet.\<close>

definition pes_packet :: "SrsTsMessage \<Rightarrow> 16 word \<Rightarrow> bool \<Rightarrow> byte \<Rightarrow> byte list \<Rightarrow> byte list" where
  "pes_packet msg pid first n rest =
     (let af = af_size msg first (length rest) in
      [0x47, (if first then 0x40 else 0x00) OR ucast (drop_bit 8 pid AND 0x1f), ucast pid, (if af > 0 then 0x30 else 0x10) OR (n AND 0x0f)]
        @ adaptation_field msg (first \<and> ts_write_pcr msg) af @ take (184 - af) rest)"

lemma pes_packet_read:
  assumes "rest \<noteq> []" and "pid < 0x2000"
  shows "is_packet pid (pes_packet msg pid first n rest)" and "ts_start (pes_packet msg pid first n rest) = first"
    and "ts_counter (pes_packet msg pid first n rest) = n AND 0x0f"
    and "ts_body (pes_packet msg pid first n rest) = take (184 - af_size msg first (length rest)) rest"
proof -
  let ?af = "af_size msg first (length rest)"
  let ?a = "adaptation_field msg (first \<and> ts_write_pcr msg) ?af"
  have len: "length ?a = ?af" by (rule length_adaptation_field)
  have body: "184 - ?af \<le> length rest" "?af < 184"
    using af_size_less [of "length rest" msg first] assms(1) by (auto simp: af_size_def Let_def)
  have a0: "?af > 0 \<Longrightarrow> unat (?a ! 0) = ?af - 1"
  proof -
    assume "?af > 0"
    have "?af - 1 < 2 ^ 8" using body(2) by simp
    then have "unat (of_nat (?af - 1) :: byte) = ?af - 1" by (simp add: unat_of_nat)
    then show ?thesis using \<open>?af > 0\<close> by (auto simp: adaptation_field_def Let_def)
  qed
  have n: "(4 :: nat) = Suc (Suc (Suc (Suc 0)))" by simp
  show "is_packet pid (pes_packet msg pid first n rest)"
    using len body pid_back [OF assms(2), of "if first then 0x40 else 0"] by (simp add: is_packet_def pes_packet_def ts_pid_def Let_def)
  show "ts_start (pes_packet msg pid first n rest) = first"
    using start_bit [of pid] by (simp add: ts_start_def pes_packet_def Let_def)
  show "ts_counter (pes_packet msg pid first n rest) = n AND 0x0f"
    by (simp add: ts_counter_def pes_packet_def Let_def)
  show "ts_body (pes_packet msg pid first n rest) = take (184 - ?af) rest"
  proof (cases "?af > 0")
    case True
    then have ne: "?a \<noteq> []" using len by auto
    then have "(?a @ take (184 - ?af) rest) ! 0 = ?a ! 0" by (simp add: nth_append)
    then have "4 + (1 + unat ((?a @ take (184 - ?af) rest) ! 0)) = Suc (Suc (Suc (Suc (length ?a))))" using True a0 len by simp
    then show ?thesis using True by (simp only: ts_body_def pes_packet_def Let_def append_Cons append_Nil nth_Cons_numeral if_True
        and_shift not_False_eq_True nth_Cons_0 nth_Cons_Suc numeral_nat drop_Suc_Cons append_eq_conv_conj) (simp add: numeral_nat)
  next
    case False
    then show ?thesis using len by (simp add: ts_body_def pes_packet_def Let_def)
  qed
qed

text \<open>All packets of a PES packet, as a function of the counter.\<close>

function packetise :: "SrsTsMessage \<Rightarrow> 16 word \<Rightarrow> bool \<Rightarrow> byte \<Rightarrow> byte list \<Rightarrow> byte list list" where
  "packetise msg pid first n rest =
     (if rest = [] then []
      else pes_packet msg pid first n rest # packetise msg pid False (n + 1) (drop (184 - af_size msg first (length rest)) rest))"
  by pat_completeness auto
termination
proof (relation "measure (\<lambda>(msg, pid, first, n, rest). length rest)", goal_cases)
  case (2 msg pid first n rest)
  then show ?case using af_size_less [of "length rest" msg first] by (cases rest) auto
qed simp

declare packetise.simps [simp del]

lemma packetise_Nil [simp]: "packetise msg pid first n [] = []"
  by (simp add: packetise.simps)

lemma packetise_read:
  shows "pid < 0x2000 \<Longrightarrow> list_all (is_packet pid) (packetise msg pid first n rest)"
    and "pid < 0x2000 \<Longrightarrow> concat (map ts_body (packetise msg pid first n rest)) = rest"
    and "pid < 0x2000 \<Longrightarrow> map ts_start (packetise msg pid first n rest) = (if rest = [] then [] else first # replicate (length (packetise msg pid first n rest) - 1) False)"
    and "pid < 0x2000 \<Longrightarrow> map ts_counter (packetise msg pid first n rest) = map (\<lambda>i. (n + of_nat i) AND 0x0f) [0..<length (packetise msg pid first n rest)]"
proof (induction msg pid first n rest rule: packetise.induct)
  case (1 msg pid first n rest)
  let ?r = "drop (184 - af_size msg first (length rest)) rest"
  have p: "packetise msg pid first n rest = pes_packet msg pid first n rest # packetise msg pid False (n + 1) ?r" if "rest \<noteq> []"
    using that by (subst packetise.simps) simp
  { case 1
    then show ?case using "1.IH"(1) pes_packet_read(1) [OF _ 1] p by (cases "rest = []") simp_all
  next
    case 2
    then show ?case using "1.IH"(2) pes_packet_read(4) [OF _ 2] p by (cases "rest = []") simp_all
  next
    case 3
    show ?case
    proof (cases "rest = []")
      case False
      have "map ts_start (packetise msg pid False (n + 1) ?r) = replicate (length (packetise msg pid False (n + 1) ?r)) False"
        using "1.IH"(3) [OF False 3] by (subst packetise.simps) (auto simp: packetise.simps [of msg pid False "n + 1" ?r] split: if_splits)
      then show ?thesis using False pes_packet_read(2) [OF False 3] p by simp
    qed simp
  next
    case 4
    show ?case
    proof (cases "rest = []")
      case False
      let ?f = "\<lambda>i. (n + of_nat i) AND 0x0f"
      have "map ts_counter (packetise msg pid False (n + 1) ?r) = map (?f \<circ> Suc) [0..<length (packetise msg pid False (n + 1) ?r)]"
        using "1.IH"(4) [OF False 4] by (simp add: comp_def add.assoc)
      then show ?thesis using False pes_packet_read(3) [OF False 4] p
        by (simp add: upt_conv_Cons map_Suc_upt [symmetric] del: upt_Suc)
    qed simp
  }
qed

definition counter_of :: "SrsTsContext \<Rightarrow> 16 word \<Rightarrow> byte" where
  "counter_of c pid = (case ctx_pids c pid of None \<Rightarrow> 0 | Some ch \<Rightarrow> continuity_counter ch)"

lemma next_counter_eq:
  "\<exists>c'. next_counter pid stream c = (counter_of c pid, c') \<and> counter_of c' = (counter_of c)(pid := counter_of c pid + 1)
     \<and> ctx_vcodec c' = ctx_vcodec c \<and> ctx_acodec c' = ctx_acodec c"
  by (auto simp: next_counter_def ts_channel_def counter_of_def Let_def split: option.split)

lemma ts_channel_counter:
  "ts_channel pid stream c = (ch, c') \<Longrightarrow> counter_of c' = counter_of c \<and> ctx_vcodec c' = ctx_vcodec c \<and> ctx_acodec c' = ctx_acodec c"
  by (auto simp: ts_channel_def counter_of_def Let_def fun_eq_iff split: option.splits if_splits)

section \<open>The writer\<close>

text \<open>What the encoder needs of a writer that works: it takes every packet, in order.\<close>

locale packet_writer =
  fixes W :: "'w ISrsWriter" and ok :: "'w \<Rightarrow> bool" and written :: "'w \<Rightarrow> byte list"
  assumes write_all: "ok w \<Longrightarrow> \<exists>w'. wr_write W bs w = (None, w') \<and> written w' = written w @ bs \<and> ok w'"
begin

lemma write_packet_ok:
  assumes "ok w"
  shows "\<exists>w'. write_packet W pkt (c, w) = (None, (c, w')) \<and> written w' = written w @ pkt \<and> ok w'"
  using write_all [OF assms, of pkt] by (auto simp: write_packet_def)

lemma pes_packets_written:
  assumes "ok w"
  shows "\<exists>c' w'. pes_packets W msg pid first rest (c, w) = (None, (c', w')) \<and> ok w'
    \<and> written w' = written w @ concat (packetise msg pid first (counter_of c pid) rest)
    \<and> counter_of c' = (counter_of c)(pid := counter_of c pid + of_nat (length (packetise msg pid first (counter_of c pid) rest)))
    \<and> ctx_vcodec c' = ctx_vcodec c \<and> ctx_acodec c' = ctx_acodec c"
  using assms
proof (induction "length rest" arbitrary: rest first c w rule: less_induct)
  case less
  show ?case
  proof (cases "rest = []")
    case True
    then show ?thesis using less.prems by (simp add: pes_packets.simps)
  next
    case False
    let ?af = "af_size msg first (length rest)" and ?n = "counter_of c pid"
    let ?r = "drop (184 - ?af) rest"
    obtain c1 where c1: "next_counter pid (if ts_is_audio msg then SrsTsStreamAudioAAC else SrsTsStreamVideoH264) c = (?n, c1)"
        "counter_of c1 = (counter_of c)(pid := ?n + 1)" "ctx_vcodec c1 = ctx_vcodec c" "ctx_acodec c1 = ctx_acodec c"
      using next_counter_eq by blast
    obtain w1 where w1: "write_packet W (pes_packet msg pid first ?n rest) (c1, w) = (None, (c1, w1))"
        "written w1 = written w @ pes_packet msg pid first ?n rest" "ok w1"
      using write_packet_ok [OF less.prems] by blast
    have step: "pes_packets W msg pid first rest (c, w) = pes_packets W msg pid False ?r (c1, w1)"
      using False c1(1) w1(1) length_adaptation_field [of msg first "length rest"]
      by (subst pes_packets.simps) (simp add: Let_def andthen_def pes_packet_def)
    have "length ?r < length rest" using False af_size_less [of "length rest" msg first] by (cases rest) auto
    from less.hyps [OF this w1(3), of False c1] obtain c' w' where
      r: "pes_packets W msg pid False ?r (c1, w1) = (None, (c', w'))" "ok w'"
        "written w' = written w1 @ concat (packetise msg pid False (counter_of c1 pid) ?r)"
        "counter_of c' = (counter_of c1)(pid := counter_of c1 pid + of_nat (length (packetise msg pid False (counter_of c1 pid) ?r)))"
        "ctx_vcodec c' = ctx_vcodec c1" "ctx_acodec c' = ctx_acodec c1" by blast
    have p: "packetise msg pid first ?n rest = pes_packet msg pid first ?n rest # packetise msg pid False (?n + 1) ?r"
      using False by (subst packetise.simps) simp
    show ?thesis using step r c1 w1 p by (auto simp: add.assoc)
  qed
qed

end

section \<open>The header of a PES packet\<close>

lemma stamp_word:
  fixes w :: "64 word" and fb :: byte
  shows "push_bit 30 (ucast (drop_bit 1 ((push_bit 4 fb AND 0xf0) OR push_bit 1 (ucast (drop_bit 30 w) AND 0x07) OR 0x01) AND 0x07))
     OR push_bit 22 (ucast (ucast (drop_bit 22 w) :: byte))
     OR push_bit 15 (ucast (drop_bit 1 ((ucast (drop_bit 14 w) AND 0xfe) OR 0x01 :: byte)))
     OR push_bit 7 (ucast (ucast (drop_bit 7 w) :: byte)) OR ucast (drop_bit 1 ((ucast (push_bit 1 w) AND 0xfe) OR 0x01 :: byte))
     = w AND 0x1ffffffff"
proof (rule bit_word_eqI)
  fix i assume "i < LENGTH(64)"
  then consider "i < 7" | "7 \<le> i \<and> i < 15" | "15 \<le> i \<and> i < 22" | "22 \<le> i \<and> i < 30" | "30 \<le> i \<and> i < 33" | "33 \<le> i \<and> i < 64" by fastforce
  then show "bit (push_bit 30 (ucast (drop_bit 1 ((push_bit 4 fb AND 0xf0) OR push_bit 1 (ucast (drop_bit 30 w) AND 0x07) OR 0x01) AND 0x07))
     OR push_bit 22 (ucast (ucast (drop_bit 22 w) :: byte))
     OR push_bit 15 (ucast (drop_bit 1 ((ucast (drop_bit 14 w) AND 0xfe) OR 0x01 :: byte)))
     OR push_bit 7 (ucast (ucast (drop_bit 7 w) :: byte)) OR ucast (drop_bit 1 ((ucast (push_bit 1 w) AND 0xfe) OR 0x01 :: byte)) :: 64 word) i
     = bit (w AND 0x1ffffffff) i"
    by cases (simp_all only: bit_or_iff bit_and_iff bit_push_bit_iff bit_drop_bit_eq bit_unsigned_iff bit_masks comp_def bit_1_iff
        possible_bit_word, auto)
qed

lemma read_33bits_encode: "read_33bits (srs_ts_encode_33bits_dts_pts fb v @ xs) = v mod 2 ^ 33"
proof -
  have "read_33bits (srs_ts_encode_33bits_dts_pts fb v @ xs) = uint ((word_of_int v AND 0x1ffffffff) AND (0x1ffffffff :: 64 word))"
    using stamp_word [of fb "word_of_int v AND 0x1ffffffff"]
    by (simp only: read_33bits_def srs_ts_encode_33bits_dts_pts_def Let_def append_Cons nth_Cons_0 nth_Cons_Suc One_nat_def numeral_nat)
  also have "\<dots> = uint (take_bit 33 (word_of_int v :: 64 word))"
    by (simp add: and.assoc take_bit_eq_mask mask_eq_exp_minus_1)
  also have "\<dots> = take_bit 33 v" by (simp add: unsigned_take_bit_eq unsigned_of_int)
  finally show ?thesis by (simp add: take_bit_eq_mod)
qed

lemma read_33bits_more: "length bs = 5 \<Longrightarrow> read_33bits (bs @ xs) = read_33bits bs"
  by (simp add: read_33bits_def nth_append)

lemma length_stamp [simp]: "length (srs_ts_encode_33bits_dts_pts fb v) = 5"
  by (simp add: srs_ts_encode_33bits_dts_pts_def Let_def)

lemma be_int_16: "0 \<le> n \<Longrightarrow> n < 65536 \<Longrightarrow> be_int (be16 (word_of_int n)) = n"
proof -
  assume n: "0 \<le> n" "n < 65536"
  then have u: "uint (word_of_int n :: 16 word) = n" by (simp add: uint_word_of_int)
  have "uint (ucast (drop_bit 8 (word_of_int n :: 16 word)) :: byte) = n div 256"
    using n u by (simp add: unsigned_ucast_eq take_bit_eq_mod unsigned_drop_bit_eq drop_bit_eq_div uint_div_distrib)
  moreover have "uint (ucast (word_of_int n :: 16 word) :: byte) = n mod 256"
    using n u by (simp add: unsigned_ucast_eq take_bit_eq_mod)
  ultimately show ?thesis by (simp add: be_int_def be16_def)
qed

lemma read_pes_header:
  assumes "ss_data (ts_payload msg) \<noteq> []"
  shows "read_pes (pes_header msg @ ss_data (ts_payload msg))
    = Some (ts_sid msg, ts_pts msg mod 2 ^ 33, ts_dts msg mod 2 ^ 33, ss_data (ts_payload msg))"
proof -
  let ?p = "ss_data (ts_payload msg)"
  have go: "read_pes (pes_header msg @ ?p) = Some (ts_sid msg, ts_pts msg mod 2 ^ 33, ts_dts msg mod 2 ^ 33, ?p)"
    if h: "pes_header msg = [0, 0, 1, ts_sid msg] @ be16 (word_of_int l) @ [0x80, f, word_of_int hl]
        @ srs_ts_encode_33bits_dts_pts fb (ts_pts msg) @ ds"
      and l: "l = (if 3 + hl + int (length ?p) > 0xffff then 0 else 3 + hl + int (length ?p))"
      and ds: "(f = 0xc0 \<and> hl = 10 \<and> ds = srs_ts_encode_33bits_dts_pts 0x01 (ts_dts msg)) \<or> (f = 0x80 \<and> hl = 5 \<and> ds = [] \<and> ts_dts msg = ts_pts msg)"
    for l hl f fb ds
  proof -
    have n: "be_int (be16 (word_of_int l)) = l" using l ds by (intro be_int_16) auto
    obtain x y where xy: "be16 (word_of_int l) = [x, y]" by (simp add: be16_def)
    have len: "l \<noteq> 0 \<longrightarrow> l = int (length (pes_header msg @ ?p)) - 6" using l h xy ds by auto
    show ?thesis using ds
    proof
      assume d: "f = 0xc0 \<and> hl = 10 \<and> ds = srs_ts_encode_33bits_dts_pts 0x01 (ts_dts msg)"
      then show ?thesis using h xy n len by (auto simp: read_pes_def Let_def read_33bits_encode)
    next
      assume d: "f = 0x80 \<and> hl = 5 \<and> ds = [] \<and> ts_dts msg = ts_pts msg"
      then show ?thesis using h xy n len by (auto simp: read_pes_def Let_def read_33bits_encode)
    qed
  qed
  show ?thesis
  proof (cases "ts_dts msg = ts_pts msg")
    case True
    show ?thesis by (rule go [where hl = 5 and f = "0x80" and fb = "0x02" and ds = "[]", OF _ refl]) (use True in \<open>simp_all add: pes_header_def SrsSimpleStream_length_def\<close>)
  next
    case False
    show ?thesis by (rule go [where hl = 10 and f = "0xc0" and fb = "0x03", OF _ refl]) (use False in \<open>simp_all add: pes_header_def SrsSimpleStream_length_def\<close>)
  qed
qed

section \<open>The checksum of a section\<close>

lemma crc_bit_shift: "\<not> bit crc 31 \<Longrightarrow> crc_bit crc = push_bit 1 crc"
proof -
  assume "\<not> bit crc 31"
  then have "crc AND 2 ^ 31 = 0" by (simp only: and_exp_eq_0_iff_not_bit simp_thms)
  then show ?thesis by (simp add: crc_bit_def)
qed

lemma crc_bits_shift:
  assumes "\<And>i. 24 \<le> i \<Longrightarrow> \<not> bit crc i" and "k \<le> 8"
  shows "(crc_bit ^^ k) crc = push_bit k crc"
  using assms(2)
proof (induction k)
  case (Suc k)
  have "\<not> bit (push_bit k crc) 31" using assms(1) [of "31 - k"] Suc.prems by (simp add: bit_push_bit_iff)
  from crc_bit_shift [OF this] Suc show ?case by (simp add: push_bit_push_bit del: push_bit_Suc)
qed simp

lemma crc_byte_top: "crc_byte (ucast (drop_bit 24 crc)) crc = push_bit 8 crc"
proof -
  let ?x = "crc XOR push_bit 24 (ucast (ucast (drop_bit 24 crc) :: byte))"
  have b: "bit ?x i \<longleftrightarrow> bit crc i \<and> i < 24" for i
    using bit_imp_le_length [of crc i] by (auto simp: bit_simps)
  have "(crc_bit ^^ 8) ?x = push_bit 8 ?x" by (rule crc_bits_shift) (auto simp: b)
  also have "\<dots> = push_bit 8 crc"
    by (rule bit_word_eqI) (auto simp: bit_push_bit_iff b)
  finally show ?thesis by (simp add: crc_byte_def)
qed

lemma srs_crc32_mpegts_append: "srs_crc32_mpegts (xs @ ys) = fold crc_byte ys (srs_crc32_mpegts xs)"
  by (simp add: srs_crc32_mpegts_def)

text \<open>A section with its checksum has the checksum 0, which is how a receiver checks it.\<close>

lemma section_checksum: "srs_crc32_mpegts (xs @ be32 (srs_crc32_mpegts xs)) = 0"
proof -
  define c where "c = srs_crc32_mpegts xs"
  have s: "ucast (drop_bit (24 - k) c) = (ucast (drop_bit 24 (push_bit k c)) :: byte)" if "k \<le> 24" for k
    by (rule bit_word_eqI) (use that in \<open>auto simp: bit_simps\<close>)
  have step: "crc_byte (ucast (drop_bit (24 - k) c)) (push_bit k c) = push_bit (8 + k) c" if "k \<le> 24" for k
    unfolding s [OF that] crc_byte_top by (simp add: push_bit_push_bit)
  have "fold crc_byte (be32 c) c = push_bit 32 c"
    using step [of 0] step [of 8] step [of 16] step [of 24] by (simp add: be32_def del: push_bit_numeral)
  also have "\<dots> = 0" by (rule bit_word_eqI) (auto simp: bit_simps)
  finally show ?thesis by (simp add: srs_crc32_mpegts_append c_def)
qed

section \<open>Reading the tables\<close>

definition psi_section :: "byte list \<Rightarrow> byte list" where
  "psi_section pkt = (let b = ts_body pkt in take (3 + nat (be_int [b ! 2 AND 0x0f, b ! 3])) (drop 1 b))"

text \<open>The programs of a PAT, and the PCR pid and the streams of a PMT (type and pid).\<close>

definition read_pid :: "byte \<Rightarrow> byte \<Rightarrow> 16 word" where
  "read_pid h l = push_bit 8 (ucast (h AND 0x1f)) OR ucast l"

definition read_pat :: "byte list \<Rightarrow> (int \<times> 16 word) option" where
  "read_pat sec = (if srs_crc32_mpegts sec \<noteq> 0 \<or> length sec \<noteq> 16 \<or> sec ! 0 \<noteq> 0 then None
     else Some (be_int (take 2 (drop 8 sec)), read_pid (sec ! 10) (sec ! 11)))"

fun read_streams :: "byte list \<Rightarrow> (byte \<times> 16 word) list" where
  "read_streams (t # h # l # _ # _ # bs) = (t, read_pid h l) # read_streams bs"
| "read_streams _ = []"

definition read_pmt :: "byte list \<Rightarrow> (int \<times> 16 word \<times> (byte \<times> 16 word) list) option" where
  "read_pmt sec = (if srs_crc32_mpegts sec \<noteq> 0 \<or> sec ! 0 \<noteq> 2 then None
     else Some (be_int (take 2 (drop 3 sec)), read_pid (sec ! 8) (sec ! 9), read_streams (drop 12 (take (length sec - 4) sec))))"

lemma read_pid_back: "pid < 0x2000 \<Longrightarrow> read_pid (0xe0 OR ucast (drop_bit 8 pid AND 0x1f)) (ucast pid) = pid"
  using pid_back [of pid "0xe0"] by (simp add: read_pid_def)

lemma length_be32 [simp]: "length (be32 v) = 4"
  by (simp add: be32_def)

text \<open>A packet with one section.\<close>

lemma psi_packet_read:
  assumes "length sec + 9 \<le> 188" and "3 \<le> length sec" and "be_int [sec ! 1 AND 0x0f, sec ! 2] = int (length sec) + 1"
  shows "psi_section (psi_packet [0x47, 0x40 OR ucast (drop_bit 8 pid AND 0x1f), ucast pid, 0x10 OR (n AND 0x0f), 0] sec)
      = sec @ be32 (srs_crc32_mpegts sec)"
    and "pid < 0x2000 \<Longrightarrow> is_packet pid (psi_packet [0x47, 0x40 OR ucast (drop_bit 8 pid AND 0x1f), ucast pid, 0x10 OR (n AND 0x0f), 0] sec)"
    and "ts_start (psi_packet [0x47, 0x40 OR ucast (drop_bit 8 pid AND 0x1f), ucast pid, 0x10 OR (n AND 0x0f), 0] sec)"
    and "ts_counter (psi_packet [0x47, 0x40 OR ucast (drop_bit 8 pid AND 0x1f), ucast pid, 0x10 OR (n AND 0x0f), 0] sec) = n AND 0x0f"
proof -
  let ?crc = "be32 (srs_crc32_mpegts sec)"
  let ?p = "psi_packet [0x47, 0x40 OR ucast (drop_bit 8 pid AND 0x1f), ucast pid, 0x10 OR (n AND 0x0f), 0] sec"
  have p: "?p = [0x47, 0x40 OR ucast (drop_bit 8 pid AND 0x1f), ucast pid, 0x10 OR (n AND 0x0f), 0] @ sec @ ?crc @ replicate (188 - (9 + length sec)) 0xff"
    by (simp add: psi_packet_def Let_def)
  obtain a b c sec' where sec: "sec = a # b # c # sec'" using assms(2)
    by (metis One_nat_def Suc_le_length_iff numeral_3_eq_3)
  have body: "ts_body ?p = 0 # sec @ ?crc @ replicate (188 - (9 + length sec)) 0xff" unfolding p ts_body_def by simp
  have "nat (be_int [(sec @ ?crc @ replicate (188 - (9 + length sec)) 0xff) ! 1 AND 0x0f, (sec @ ?crc @ replicate (188 - (9 + length sec)) 0xff) ! 2])
      = length sec + 1" using assms(3) sec by simp
  then show "psi_section ?p = sec @ ?crc" unfolding psi_section_def body by (simp add: Let_def numeral_nat)
  show "pid < 0x2000 \<Longrightarrow> is_packet pid ?p"
    unfolding p using assms(1) pid_back [of pid "0x40"] by (simp add: is_packet_def ts_pid_def)
  show "ts_start ?p" unfolding p using start_bit [of pid] by (simp add: ts_start_def)
  show "ts_counter ?p = n AND 0x0f" unfolding p by (simp add: ts_counter_def)
qed

lemma pat_section_read: "read_pat (pat_section @ be32 (srs_crc32_mpegts pat_section)) = Some (1, 0x1001)"
  using section_checksum [of pat_section]
  by (simp add: read_pat_def) (simp add: pat_section_def be16_def be_int_def read_pid_def)

lemma pmt_section_props:
  assumes "v \<or> a"
  shows "length (pmt_section v a vpid vs apid as) = 12 + (if v then 5 else 0) + (if a then 5 else 0)"
    and "be_int [pmt_section v a vpid vs apid as ! 1 AND 0x0f, pmt_section v a vpid vs apid as ! 2] = int (length (pmt_section v a vpid vs apid as)) + 1"
  using assms by (cases v; cases a; simp add: pmt_section_def be16_def be_int_def Let_def)+

lemma pmt_section_read:
  assumes "v \<or> a" and "vpid < 0x2000" and "apid < 0x2000"
  shows "read_pmt (pmt_section v a vpid vs apid as @ be32 (srs_crc32_mpegts (pmt_section v a vpid vs apid as)))
    = Some (1, if v then vpid else apid, (if v then [(vs, vpid)] else []) @ (if a then [(as, apid)] else []))"
  using section_checksum [of "pmt_section v a vpid vs apid as"] assms read_pid_back [OF assms(2)] read_pid_back [OF assms(3)]
  by (simp add: read_pmt_def) (cases v; cases a; simp add: pmt_section_def be16_def be_int_def Let_def nth_append)

context packet_writer
begin

lemma encode_pes_written:
  assumes "ok w" and "ss_data (ts_payload msg) \<noteq> []"
  shows "\<exists>c' w'. encode_pes W msg pid (c, w) = (None, (c', w')) \<and> ok w'
    \<and> written w' = written w @ concat (packetise msg pid True (counter_of c pid) (pes_header msg @ ss_data (ts_payload msg)))
    \<and> counter_of c' = (counter_of c)(pid := counter_of c pid
        + of_nat (length (packetise msg pid True (counter_of c pid) (pes_header msg @ ss_data (ts_payload msg)))))
    \<and> ctx_vcodec c' = ctx_vcodec c \<and> ctx_acodec c' = ctx_acodec c"
proof -
  obtain ch c1 where c1: "ts_channel pid (if ts_is_audio msg then SrsTsStreamAudioAAC else SrsTsStreamVideoH264) c = (ch, c1)" by fastforce
  note k = ts_channel_counter [OF c1]
  have "encode_pes W msg pid (c, w) = pes_packets W msg pid True (pes_header msg @ ss_data (ts_payload msg)) (c1, w)"
    using assms(2) c1 by (simp add: encode_pes_def SrsSimpleStream_length_def)
  then show ?thesis using pes_packets_written [OF assms(1), of msg pid True "pes_header msg @ ss_data (ts_payload msg)" c1] k by auto
qed

lemma encode_pat_pmt_written:
  assumes "ok w" and "ctx_vcodec c = SrsVideoCodecIdAVC \<or> ctx_acodec c = SrsAudioCodecIdAAC"
  shows "\<exists>c' w'. encode_pat_pmt W vpid vs apid as (c, w) = (None, (c', w')) \<and> ok w'
    \<and> written w' = written w
      @ psi_packet [0x47, 0x40 OR ucast (drop_bit 8 (0 :: 16 word) AND 0x1f), ucast (0 :: 16 word), 0x10 OR (counter_of c 0 AND 0x0f), 0] pat_section
      @ psi_packet [0x47, 0x40 OR ucast (drop_bit 8 TS_PMT_PID AND 0x1f), ucast TS_PMT_PID, 0x10 OR (counter_of c TS_PMT_PID AND 0x0f), 0]
          (pmt_section (ctx_vcodec c = SrsVideoCodecIdAVC) (ctx_acodec c = SrsAudioCodecIdAAC) vpid vs apid as)
    \<and> counter_of c' = (counter_of c)(0 := counter_of c 0 + 1, TS_PMT_PID := counter_of c TS_PMT_PID + 1)
    \<and> ctx_vcodec c' = ctx_vcodec c \<and> ctx_acodec c' = ctx_acodec c"
proof -
  obtain c1 where c1: "next_counter 0x00 SrsTsStreamReserved c = (counter_of c 0, c1)"
      "counter_of c1 = (counter_of c)(0 := counter_of c 0 + 1)" "ctx_vcodec c1 = ctx_vcodec c" "ctx_acodec c1 = ctx_acodec c"
    using next_counter_eq by blast
  obtain w1 where w1: "write_packet W (psi_packet [0x47, 0x40, 0x00, 0x10 OR (counter_of c 0 AND 0x0f), 0x00] pat_section) (c1, w) = (None, (c1, w1))"
      "written w1 = written w @ psi_packet [0x47, 0x40, 0x00, 0x10 OR (counter_of c 0 AND 0x0f), 0x00] pat_section" "ok w1"
    using write_packet_ok [OF assms(1)] by blast
  obtain c2 where c2: "next_counter TS_PMT_PID SrsTsStreamReserved c1 = (counter_of c1 TS_PMT_PID, c2)"
      "counter_of c2 = (counter_of c1)(TS_PMT_PID := counter_of c1 TS_PMT_PID + 1)" "ctx_vcodec c2 = ctx_vcodec c1" "ctx_acodec c2 = ctx_acodec c1"
    using next_counter_eq by blast
  let ?pmt = "psi_packet [0x47, 0x40 OR ucast (drop_bit 8 TS_PMT_PID AND 0x1f), ucast TS_PMT_PID, 0x10 OR (counter_of c TS_PMT_PID AND 0x0f), 0x00]
      (pmt_section (ctx_vcodec c = SrsVideoCodecIdAVC) (ctx_acodec c = SrsAudioCodecIdAAC) vpid vs apid as)"
  obtain w2 where w2: "write_packet W ?pmt (c2, w1) = (None, (c2, w2))" "written w2 = written w1 @ ?pmt" "ok w2"
    using write_packet_ok [OF w1(3)] by blast
  have "counter_of c1 TS_PMT_PID = counter_of c TS_PMT_PID" using c1(2) by simp
  then show ?thesis using assms(2) c1 w1 c2 w2 by (simp add: encode_pat_pmt_def andthen_def Let_def)
qed

end

text \<open>A file on a disk without faults is such a writer.\<close>

definition file_writer :: "'k os_files \<Rightarrow> (SrsFileWriter \<times> 'k) ISrsWriter" where
  "file_writer os = \<lparr>wr_write = fw_write os\<rparr>"

definition disk_ready :: "SrsFileWriter \<times> disk \<Rightarrow> bool" where
  "disk_ready = (\<lambda>(f, k). disk_faults k = [] \<and> (\<exists>p. fp f = Some p \<and> disk_files k p \<noteq> None))"

definition disk_written :: "SrsFileWriter \<times> disk \<Rightarrow> byte list" where
  "disk_written = (\<lambda>(f, k). case fp f of None \<Rightarrow> [] | Some p \<Rightarrow> (case disk_files k p of None \<Rightarrow> [] | Some xs \<Rightarrow> xs))"

interpretation file_packets: packet_writer "file_writer disk_os" disk_ready disk_written
  by unfold_locales (auto simp: file_writer_def fw_write_def disk_os_def disk_ready_def disk_written_def disk_answer_def)

section \<open>Reading elementary streams\<close>

text \<open>ADTS frames: profile, rate index, channels and data. The length of a frame has 13 bits.\<close>

definition adts_length :: "byte list \<Rightarrow> 32 word" where
  "adts_length bs = push_bit 11 (ucast (bs ! 3 AND 0x03)) OR push_bit 3 (ucast (bs ! 4)) OR ucast (drop_bit 5 (bs ! 5))"

function read_adts :: "byte list \<Rightarrow> (byte \<times> byte \<times> byte \<times> byte list) list" where
  "read_adts bs =
     (let len = unat (adts_length bs) in
      if length bs < 7 \<or> len < 7 \<or> length bs < len \<or> bs ! 0 \<noteq> 0xff \<or> bs ! 1 AND 0xf6 \<noteq> 0xf0 then []
      else (drop_bit 6 (bs ! 2), drop_bit 2 (bs ! 2) AND 0x0f, push_bit 2 (bs ! 2 AND 0x01) OR drop_bit 6 (bs ! 3), take (len - 7) (drop 7 bs))
           # read_adts (drop len bs))"
  by pat_completeness auto
termination by (relation "measure length") auto

declare read_adts.simps [simp del]

lemma more_bit_masks:
  "bit (0xc0 :: int) i \<longleftrightarrow> 6 \<le> i \<and> i < 8" "bit (0x3c :: int) i \<longleftrightarrow> 2 \<le> i \<and> i < 6" "bit (0xe0 :: int) i \<longleftrightarrow> 5 \<le> i \<and> i < 8"
  "bit (0x0f :: int) i \<longleftrightarrow> i < 4" "bit (0x03 :: int) i \<longleftrightarrow> i < 2"
proof -
  have e: "(0xc0 :: int) = push_bit 6 (mask 2)" "(0x3c :: int) = push_bit 2 (mask 4)" "(0xe0 :: int) = push_bit 5 (mask 3)"
    "(0x0f :: int) = mask 4" "(0x03 :: int) = mask 2"
    by (simp_all add: mask_eq_exp_minus_1)
  show "bit (0xc0 :: int) i \<longleftrightarrow> 6 \<le> i \<and> i < 8" "bit (0x3c :: int) i \<longleftrightarrow> 2 \<le> i \<and> i < 6" "bit (0xe0 :: int) i \<longleftrightarrow> 5 \<le> i \<and> i < 8"
    "bit (0x0f :: int) i \<longleftrightarrow> i < 4" "bit (0x03 :: int) i \<longleftrightarrow> i < 2"
    unfolding e by (auto simp only: bit_push_bit_iff bit_mask_iff possible_bit_int)
qed

lemma adts_fields:
  fixes p r c :: byte and l :: "32 word"
  shows "drop_bit 6 ((push_bit 6 p AND 0xc0) OR (push_bit 2 r AND 0x3c) OR (drop_bit 2 c AND 0x01)) = p AND 0x03"
    and "drop_bit 2 ((push_bit 6 p AND 0xc0) OR (push_bit 2 r AND 0x3c) OR (drop_bit 2 c AND 0x01)) AND 0x0f = r AND 0x0f"
    and "push_bit 2 (((push_bit 6 p AND 0xc0) OR (push_bit 2 r AND 0x3c) OR (drop_bit 2 c AND 0x01)) AND 0x01)
      OR drop_bit 6 ((push_bit 6 c AND 0xc0) OR ucast (l AND 0x03)) = c AND 0x07"
proof -
  show "drop_bit 6 ((push_bit 6 p AND 0xc0) OR (push_bit 2 r AND 0x3c) OR (drop_bit 2 c AND 0x01)) = p AND 0x03"
    "drop_bit 2 ((push_bit 6 p AND 0xc0) OR (push_bit 2 r AND 0x3c) OR (drop_bit 2 c AND 0x01)) AND 0x0f = r AND 0x0f"
    by (rule bit_word_eqI, auto simp: bit_int_masks more_bit_masks bit_simps)+
  have a: "((push_bit 6 p AND 0xc0) OR (push_bit 2 r AND 0x3c) OR (drop_bit 2 c AND 0x01)) AND 0x01 = drop_bit 2 c AND 0x01"
    by (simp add: bit.conj_disj_distrib2 and.assoc)
  have b: "drop_bit 6 ((push_bit 6 c AND 0xc0) OR ucast (l AND 0x03)) = c AND 0x03"
    by (rule bit_word_eqI) (auto simp: bit_int_masks more_bit_masks bit_simps)
  have "push_bit 2 (drop_bit 2 c AND 0x01) OR (c AND 0x03) = c AND 0x07"
  proof (rule bit_word_eqI)
    fix i assume "i < LENGTH(8)"
    then have "i \<in> {0, 1, 2, 3, 4, 5, 6, 7}" by auto
    then show "bit (push_bit 2 (drop_bit 2 c AND 0x01) OR (c AND 0x03)) i = bit (c AND 0x07) i"
      by (elim insertE emptyE) (simp_all add: bit_push_bit_iff bit_or_iff bit_and_iff bit_drop_bit_eq bit_1_iff bit_int_masks more_bit_masks)
  qed
  with a b show "push_bit 2 (((push_bit 6 p AND 0xc0) OR (push_bit 2 r AND 0x3c) OR (drop_bit 2 c AND 0x01)) AND 0x01)
      OR drop_bit 6 ((push_bit 6 c AND 0xc0) OR ucast (l AND 0x03)) = c AND 0x07" by simp
qed

lemma adts_length_bits:
  fixes l :: "32 word" and c :: byte
  assumes "l < 8192"
  shows "push_bit 11 (ucast (((push_bit 6 c AND 0xc0) OR ucast (drop_bit 11 l AND 0x03)) AND 0x03))
    OR push_bit 3 (ucast (ucast (drop_bit 3 l) :: byte)) OR ucast (drop_bit 5 ((ucast (push_bit 5 l) AND 0xe0) OR 0x1f :: byte)) = l"
proof (rule bit_word_eqI)
  fix i assume "i < LENGTH(32)"
  have hi: "\<not> bit l i" if "13 \<le> i" for i
  proof -
    have "uint l < 2 ^ 13" using assms by (simp add: word_less_def)
    then have "take_bit 13 l = l" by (simp add: take_bit_eq_mod word_uint_eq_iff uint_mod_distrib unsigned_take_bit_eq take_bit_int_eq_self)
    then show ?thesis using that by (metis bit_take_bit_iff linorder_not_le)
  qed
  consider "i < 3" | "3 \<le> i \<and> i < 11" | "11 \<le> i \<and> i < 13" | "13 \<le> i" by fastforce
  then show "bit (push_bit 11 (ucast (((push_bit 6 c AND 0xc0) OR ucast (drop_bit 11 l AND 0x03)) AND 0x03))
    OR push_bit 3 (ucast (ucast (drop_bit 3 l) :: byte)) OR ucast (drop_bit 5 ((ucast (push_bit 5 l) AND 0xe0) OR 0x1f :: byte)) :: 32 word) i = bit l i"
    using hi [of i] \<open>i < LENGTH(32)\<close> by cases (auto simp: bit_int_masks more_bit_masks bit_simps)
qed

definition adts_frame :: "SrsAudioCodecConfig \<Rightarrow> byte list \<Rightarrow> byte list" where
  "adts_frame codec sample = adts_header codec (length sample) @ sample"

lemma length_adts_header [simp]: "length (adts_header codec n) = 7"
  by (simp add: adts_header_def Let_def)

lemma adts_frame_length:
  assumes "length sample + 7 < 8192"
  shows "unat (adts_length (adts_frame codec sample @ xs)) = length sample + 7"
proof -
  let ?l = "of_nat (length sample) + 7 :: 32 word"
  have u: "unat ?l = length sample + 7" using assms by (simp add: unat_word_ariths unat_of_nat)
  then have "?l < 8192" using assms by (simp add: word_less_nat_alt)
  from adts_length_bits [OF this, of "aac_channels codec"] have "adts_length (adts_frame codec sample @ xs) = ?l"
    by (simp only: adts_length_def adts_frame_def adts_header_def Let_def append_Cons nth_Cons_0 nth_Cons_Suc numeral_nat One_nat_def)
  with u show ?thesis by simp
qed

lemma read_adts_frame:
  assumes "length sample + 7 < 8192"
  shows "read_adts (adts_frame codec sample @ xs) = (srs_aac_rtmp2ts (aac_object codec) AND 0x03, aac_sample_rate codec AND 0x0f,
    aac_channels codec AND 0x07, sample) # read_adts xs"
proof -
  let ?bs = "adts_frame codec sample @ xs"
  note len = adts_frame_length [OF assms, of codec xs]
  have h: "take (length sample) (drop 7 ?bs) = sample" "drop (length sample + 7) ?bs = xs"
    by (simp_all add: adts_frame_def)
  have h': "?bs ! 0 = 0xff" "?bs ! 1 AND 0xf6 = 0xf0"
    by (simp_all add: adts_frame_def adts_header_def Let_def)
  have f: "drop_bit 6 (?bs ! 2) = srs_aac_rtmp2ts (aac_object codec) AND 0x03" "drop_bit 2 (?bs ! 2) AND 0x0f = aac_sample_rate codec AND 0x0f"
    "push_bit 2 (?bs ! 2 AND 0x01) OR drop_bit 6 (?bs ! 3) = aac_channels codec AND 0x07"
    using adts_fields [of "srs_aac_rtmp2ts (aac_object codec)" "aac_sample_rate codec" "aac_channels codec"]
    by (simp_all only: adts_frame_def adts_header_def Let_def append_Cons nth_Cons_0 nth_Cons_Suc numeral_nat One_nat_def)
  have "length ?bs \<ge> length sample + 7" by (simp add: adts_frame_def)
  then show ?thesis using len h h' f by (subst read_adts.simps) (simp add: Let_def)
qed

lemma aac_samples_frames:
  assumes "[] \<notin> set samples"
  shows "aac_samples codec samples s = (None, s\<lparr>ss_data := ss_data s @ concat (map (adts_frame codec) samples)\<rparr>)"
  using assms
proof (induction samples arbitrary: s)
  case (Cons sample samples)
  then show ?case
    by (simp add: andthen_def ss_add_def SrsSimpleStream_append_def adts_frame_def eq_commute [of "[]"])
qed simp

lemma read_adts_frames:
  "\<forall>sample \<in> set samples. length sample + 7 < 8192 \<Longrightarrow> read_adts (concat (map (adts_frame codec) samples))
    = map (\<lambda>sample. (srs_aac_rtmp2ts (aac_object codec) AND 0x03, aac_sample_rate codec AND 0x0f, aac_channels codec AND 0x07, sample)) samples"
proof (induction samples)
  case Nil
  then show ?case by (simp add: read_adts.simps)
qed (simp add: read_adts_frame)

text \<open>Annex B: the NALUs, each behind a start code. The parameter sets come in front of the first IDR picture.\<close>

fun annex_b :: "bool \<Rightarrow> byte list list \<Rightarrow> byte list" where
  "annex_b started [] = []"
| "annex_b started (nalu # nalus) = (if started then [0, 0, 1] else [0, 0, 0, 1]) @ nalu @ annex_b True nalus"

definition is_idr :: "byte list \<Rightarrow> bool" where
  "is_idr nalu \<longleftrightarrow> nalu_type nalu = SrsAvcNaluTypeIDR"

definition with_parameter_sets :: "SrsVideoCodecConfig \<Rightarrow> byte list list \<Rightarrow> byte list list" where
  "with_parameter_sets codec nalus = takeWhile (Not \<circ> is_idr) nalus
     @ (if \<exists>nalu \<in> set nalus. is_idr nalu then filter (\<lambda>ps. ps \<noteq> []) [sequenceParameterSetNALUnit codec, pictureParameterSetNALUnit codec] else [])
     @ dropWhile (Not \<circ> is_idr) nalus"

definition access_unit :: "SrsVideoCodecConfig \<Rightarrow> byte list list \<Rightarrow> byte list list" where
  "access_unit codec nalus =
     (if \<exists>nalu \<in> set nalus. nalu_type nalu = SrsAvcNaluTypeAccessUnitDelimiter then [] else [[0x09, 0xf0]]) @ with_parameter_sets codec nalus"

lemma nalu_add_annex:
  "bs \<noteq> [] \<Longrightarrow> nalu_add bs (a, s) = (None, (True, s\<lparr>ss_data := ss_data s @ (if a then [0, 0, 1] else [0, 0, 0, 1]) @ bs\<rparr>))"
  by (auto simp: nalu_add_def andthen_def srs_avc_insert_aud_def ss_add_def SrsSimpleStream_append_def Let_def)

lemma avc_samples_done:
  "[] \<notin> set nalus \<Longrightarrow> avc_samples codec True nalus (a, s) = (None, (a \<or> nalus \<noteq> [], s\<lparr>ss_data := ss_data s @ annex_b a nalus\<rparr>))"
  by (induction nalus arbitrary: a s) (simp_all add: andthen_def nalu_add_annex eq_commute [of "[]"])

lemma avc_samples_annex:
  assumes "[] \<notin> set nalus"
  shows "\<exists>a'. avc_samples codec False nalus (a, s) = (None, (a', s\<lparr>ss_data := ss_data s @ annex_b a (with_parameter_sets codec nalus)\<rparr>))"
  using assms
proof (induction nalus arbitrary: a s)
  case Nil
  then show ?case by (simp add: with_parameter_sets_def)
next
  case (Cons nalu nalus)
  show ?case
  proof (cases "is_idr nalu")
    case True
    then show ?thesis using Cons.prems
      by (auto simp: with_parameter_sets_def andthen_def nalu_add_annex avc_samples_done is_idr_def)
  next
    case False
    then have w: "with_parameter_sets codec (nalu # nalus) = nalu # with_parameter_sets codec nalus"
      by (simp add: with_parameter_sets_def)
    from Cons.IH [of True "s\<lparr>ss_data := ss_data s @ (if a then [0, 0, 1] else [0, 0, 0, 1]) @ nalu\<rparr>"] Cons.prems False w
    show ?thesis by (auto simp: andthen_def nalu_add_annex is_idr_def)
  qed
qed

lemma do_cache_avc_annex:
  assumes "is_avc_codec_ok codec" and "[] \<notin> set (vf_samples frame)"
  shows "do_cache_avc (Some codec) frame s = (None, s\<lparr>ss_data := ss_data s @ annex_b False (access_unit codec (vf_samples frame))\<rparr>)"
proof (cases "\<exists>nalu \<in> set (vf_samples frame). nalu_type nalu = SrsAvcNaluTypeAccessUnitDelimiter")
  case True
  obtain a' where "avc_samples codec False (vf_samples frame) (False, s)
      = (None, (a', s\<lparr>ss_data := ss_data s @ annex_b False (with_parameter_sets codec (vf_samples frame))\<rparr>))"
    using avc_samples_annex [OF assms(2)] by blast
  then show ?thesis using True assms(1) by (simp add: do_cache_avc_def access_unit_def andthen_def)
next
  case False
  let ?s = "s\<lparr>ss_data := ss_data s @ [0, 0, 0, 1] @ [0x09, 0xf0]\<rparr>"
  obtain a' where "avc_samples codec False (vf_samples frame) (True, ?s)
      = (None, (a', ?s\<lparr>ss_data := ss_data ?s @ annex_b True (with_parameter_sets codec (vf_samples frame))\<rparr>))"
    using avc_samples_annex [OF assms(2)] by blast
  then show ?thesis using False assms(1) by (simp add: do_cache_avc_def access_unit_def andthen_def nalu_add_annex)
qed

section \<open>Properties\<close>

text \<open>A demultiplexer gets back what was written: the packets of a message all have 188 bytes and its pid, only the first starts
  a unit, the continuity counter goes up by one with every packet from where the pid left it (and that of no other
  pid changes), and the bytes behind the adaptation fields are one PES packet with the stream id, the time stamps modulo
  2^33 and exactly the payload, whether there is a PCR and however the stuffing falls.\<close>

theorem pes_demux:
  assumes "packet_writer W ok written" and "ok w" and "pid < 0x2000" and "ss_data (ts_payload msg) \<noteq> []"
  shows "\<exists>c' w' pkts. encode_pes W msg pid (c, w) = (None, (c', w')) \<and> ok w' \<and> written w' = written w @ concat pkts
    \<and> list_all (is_packet pid) pkts
    \<and> read_pes (concat (map ts_body pkts)) = Some (ts_sid msg, ts_pts msg mod 2 ^ 33, ts_dts msg mod 2 ^ 33, ss_data (ts_payload msg))
    \<and> map ts_start pkts = True # replicate (length pkts - 1) False
    \<and> map ts_counter pkts = map (\<lambda>i. (counter_of c pid + of_nat i) AND 0x0f) [0..<length pkts]
    \<and> counter_of c' = (counter_of c)(pid := counter_of c pid + of_nat (length pkts))"
proof -
  let ?pes = "pes_header msg @ ss_data (ts_payload msg)"
  note r = packetise_read [OF assms(3), of msg True "counter_of c pid" ?pes]
  obtain c' w' where e: "encode_pes W msg pid (c, w) = (None, (c', w'))" "ok w'"
      "written w' = written w @ concat (packetise msg pid True (counter_of c pid) ?pes)"
      "counter_of c' = (counter_of c)(pid := counter_of c pid + of_nat (length (packetise msg pid True (counter_of c pid) ?pes)))"
    using packet_writer.encode_pes_written [OF assms(1,2,4), of pid c] by blast
  have "read_pes (concat (map ts_body (packetise msg pid True (counter_of c pid) ?pes)))
      = Some (ts_sid msg, ts_pts msg mod 2 ^ 33, ts_dts msg mod 2 ^ 33, ss_data (ts_payload msg))"
    using r(2) read_pes_header [OF assms(4)] by simp
  moreover have "?pes \<noteq> []" using assms(4) by simp
  ultimately show ?thesis using e r(1,3,4) by (intro exI conjI) (assumption | simp)+
qed

definition sample_file :: "SrsFileWriter \<times> disk" where
  "sample_file = (\<lparr>fp = Some ''a.ts'', fw_path = ''a.ts''\<rparr>, \<lparr>disk_files = [''a.ts'' \<mapsto> []], disk_faults = []\<rparr>)"

lemma sample_file_ready: "disk_ready sample_file" "disk_written sample_file = []"
  by (simp_all add: disk_ready_def disk_written_def sample_file_def)

theorem pes_demux_witness:
  "\<exists>c' w' pkts. encode_pes (file_writer disk_os) (SrsTsMessage_new\<lparr>ts_dts := 90, ts_pts := 180, ts_sid := 0xe0, ts_write_pcr := True,
      ts_payload := \<lparr>ss_data = replicate 400 7\<rparr>\<rparr>) TS_VIDEO_AVC_PID (SrsTsContext_new, sample_file) = (None, (c', w')) \<and> disk_written w' = concat pkts
    \<and> read_pes (concat (map ts_body pkts)) = Some (0xe0, 180, 90, replicate 400 7) \<and> list_all (is_packet 0x100) pkts"
proof -
  let ?msg = "SrsTsMessage_new\<lparr>ts_dts := 90, ts_pts := 180, ts_sid := 0xe0, ts_write_pcr := True, ts_payload := \<lparr>ss_data = replicate 400 7\<rparr>\<rparr>"
  have "ss_data (ts_payload ?msg) \<noteq> []" by (simp add: replicate_empty)
  from pes_demux [OF file_packets.packet_writer_axioms sample_file_ready(1) _ this, of TS_VIDEO_AVC_PID SrsTsContext_new]
  obtain c' w' pkts where k: "encode_pes (file_writer disk_os) ?msg TS_VIDEO_AVC_PID (SrsTsContext_new, sample_file) = (None, (c', w'))"
    "disk_written w' = disk_written sample_file @ concat pkts" "list_all (is_packet TS_VIDEO_AVC_PID) pkts"
    "read_pes (concat (map ts_body pkts)) = Some (ts_sid ?msg, ts_pts ?msg mod 2 ^ 33, ts_dts ?msg mod 2 ^ 33, ss_data (ts_payload ?msg))"
    by auto
  then show ?thesis using sample_file_ready(2) by (intro exI [of _ c'] exI [of _ w'] exI [of _ pkts]) simp
qed

text \<open>The tables in front of a segment are valid: PAT and PMT are one packet each with a section of the length it
  says and the right checksum (\<open>read_pat\<close>, \<open>read_pmt\<close> check it), the PAT names the pid of the PMT, and the PMT lists exactly the streams of
  the codecs in use, with the video as the clock when there is one.\<close>

theorem psi_tables:
  assumes "packet_writer W ok written" and "ok w" and "vpid < 0x2000" and "apid < 0x2000"
    and "ctx_vcodec c = SrsVideoCodecIdAVC \<or> ctx_acodec c = SrsAudioCodecIdAAC"
  shows "\<exists>c' w' pat pmt. encode_pat_pmt W vpid vs apid as (c, w) = (None, (c', w')) \<and> ok w' \<and> written w' = written w @ pat @ pmt
    \<and> is_packet 0 pat \<and> ts_start pat \<and> ts_counter pat = counter_of c 0 AND 0x0f \<and> read_pat (psi_section pat) = Some (1, TS_PMT_PID)
    \<and> is_packet TS_PMT_PID pmt \<and> ts_start pmt \<and> ts_counter pmt = counter_of c TS_PMT_PID AND 0x0f
    \<and> read_pmt (psi_section pmt) = Some (1, if ctx_vcodec c = SrsVideoCodecIdAVC then vpid else apid,
        (if ctx_vcodec c = SrsVideoCodecIdAVC then [(vs, vpid)] else []) @ (if ctx_acodec c = SrsAudioCodecIdAAC then [(as, apid)] else []))
    \<and> counter_of c' = (counter_of c)(0 := counter_of c 0 + 1, TS_PMT_PID := counter_of c TS_PMT_PID + 1)"
proof -
  let ?v = "ctx_vcodec c = SrsVideoCodecIdAVC" and ?a = "ctx_acodec c = SrsAudioCodecIdAAC"
  let ?sec = "pmt_section ?v ?a vpid vs apid as"
  have pat: "length pat_section + 9 \<le> 188" "3 \<le> length pat_section" "be_int [pat_section ! 1 AND 0x0f, pat_section ! 2] = int (length pat_section) + 1"
    by (simp_all add: pat_section_def be16_def be_int_def)
  note l = pmt_section_props [OF assms(5), of vpid vs apid as]
  have pmt: "length ?sec + 9 \<le> 188" "3 \<le> length ?sec" using l(1) by auto
  note p1 = psi_packet_read [OF pat, of 0 "counter_of c 0"]
  note p2 = psi_packet_read [OF pmt l(2), of TS_PMT_PID "counter_of c TS_PMT_PID"]
  show ?thesis
    using packet_writer.encode_pat_pmt_written [OF assms(1,2,5), of vpid vs apid as] p1 p2 pat_section_read pmt_section_read [OF assms(5,3,4), of vs as]
    by fastforce
qed

theorem psi_tables_witness:
  "\<exists>c' w' pat pmt. encode_pat_pmt (file_writer disk_os) TS_VIDEO_AVC_PID SrsTsStreamVideoH264 TS_AUDIO_AAC_PID SrsTsStreamAudioAAC
      (SrsTsContext_new\<lparr>ctx_vcodec := 7, ctx_acodec := 10\<rparr>, sample_file) = (None, (c', w')) \<and> disk_written w' = pat @ pmt
    \<and> read_pat (psi_section pat) = Some (1, 0x1001)
    \<and> read_pmt (psi_section pmt) = Some (1, 0x100, [(0x1b, 0x100), (0x0f, 0x101)])"
  using psi_tables [OF file_packets.packet_writer_axioms sample_file_ready(1), of TS_VIDEO_AVC_PID TS_AUDIO_AAC_PID
      "SrsTsContext_new\<lparr>ctx_vcodec := 7, ctx_acodec := 10\<rparr>" SrsTsStreamVideoH264 SrsTsStreamAudioAAC] sample_file_ready(2)
  by fastforce

text \<open>The AAC frames of a message are ADTS frames: a reader of the payload gets each frame with the profile, rate and channels
  of the stream, if no frame is longer than the 13 bits of its length field allow.\<close>

theorem aac_adts:
  assumes "is_aac_codec_ok codec" and "[] \<notin> set (af_samples frame)" and "\<forall>sample \<in> set (af_samples frame). length sample + 7 < 8192"
  shows "\<exists>bs. do_cache_aac (Some codec) frame s = (None, s\<lparr>ss_data := ss_data s @ bs\<rparr>)
    \<and> read_adts bs = map (\<lambda>sample. (srs_aac_rtmp2ts (aac_object codec) AND 0x03, aac_sample_rate codec AND 0x0f, aac_channels codec AND 0x07, sample))
        (af_samples frame)"
  using aac_samples_frames [OF assms(2), of codec s] read_adts_frames [OF assms(3), of codec] assms(1)
  by (intro exI [of _ "concat (map (adts_frame codec) (af_samples frame))"]) (simp add: do_cache_aac_def)

theorem aac_adts_witness:
  "\<exists>bs. do_cache_aac (Some (SrsAudioCodecConfig_new\<lparr>aac_object := 2, aac_sample_rate := 4, aac_channels := 2\<rparr>))
      (SrsAudioFrame_new\<lparr>af_samples := [[1, 2, 3]]\<rparr>) SrsSimpleStream_new = (None, SrsSimpleStream_new\<lparr>ss_data := ss_data SrsSimpleStream_new @ bs\<rparr>)
    \<and> read_adts bs = [(1, 4, 2, [1, 2, 3])]"
  using aac_adts [of "SrsAudioCodecConfig_new\<lparr>aac_object := 2, aac_sample_rate := 4, aac_channels := 2\<rparr>"
      "SrsAudioFrame_new\<lparr>af_samples := [[1, 2, 3]]\<rparr>" SrsSimpleStream_new]
  by (simp add: is_aac_codec_ok_def srs_aac_rtmp2ts_def)

text \<open>C40. The payload of a video message is its access unit in Annex B: an access unit delimiter in front unless the frame
  has one, the SPS and the PPS of the stream in front of the first IDR picture, all NALUs of the frame in order, the first
  behind a start code of four bytes and the others behind one of three.\<close>

theorem avc_annex_b:
  assumes "is_avc_codec_ok codec" and "[] \<notin> set (vf_samples frame)"
  shows "cache_video (Some codec) frame dts \<lparr>tc_audio = a, tc_video = None\<rparr> = (None, \<lparr>tc_audio = a, tc_video = Some
    \<lparr>ts_dts = dts, ts_pts = dts + vf_cts frame * 90, ts_sid = SrsTsPESStreamIdVideoCommon, ts_write_pcr = (frame_type frame = SrsVideoAvcFrameTypeKeyFrame),
     ts_payload = \<lparr>ss_data = annex_b False (access_unit codec (vf_samples frame))\<rparr>\<rparr>\<rparr>)"
  using do_cache_avc_annex [OF assms, of SrsSimpleStream_new]
  by (simp add: cache_video_def SrsTsMessage_new_def SrsSimpleStream_new_def)

theorem avc_annex_b_witness:
  "cache_video (Some (SrsVideoCodecConfig_new\<lparr>sequenceParameterSetNALUnit := [0x67, 1], pictureParameterSetNALUnit := [0x68, 2]\<rparr>))
     (SrsVideoFrame_new\<lparr>vf_samples := [[6, 1], [5, 3]], frame_type := 1, vf_cts := 40\<rparr>) 900 \<lparr>tc_audio = None, tc_video = None\<rparr>
   = (None, \<lparr>tc_audio = None, tc_video = Some \<lparr>ts_dts = 900, ts_pts = 4500, ts_sid = 0xe0, ts_write_pcr = True,
        ts_payload = \<lparr>ss_data = [0, 0, 0, 1, 9, 0xf0, 0, 0, 1, 6, 1, 0, 0, 1, 0x67, 1, 0, 0, 1, 0x68, 2, 0, 0, 1, 5, 3]\<rparr>\<rparr>\<rparr>)"
  using avc_annex_b [of "SrsVideoCodecConfig_new\<lparr>sequenceParameterSetNALUnit := [0x67, 1], pictureParameterSetNALUnit := [0x68, 2]\<rparr>"
      "SrsVideoFrame_new\<lparr>vf_samples := [[6, 1], [5, 3]], frame_type := 1, vf_cts := 40\<rparr>" 900 None]
  by (simp add: is_avc_codec_ok_def access_unit_def with_parameter_sets_def is_idr_def nalu_type_def)

end
