(* ===== verification/Hls.thy ===== *)
theory Hls
  imports Complex_Main Fragment Ts Source
begin

text \<open>
  HLS, \<^verbatim>\<open>src/src/app/srs_app_hls.cpp\<close>: \<^verbatim>\<open>SrsHlsMuxer\<close> writes the segment files and the playlist,
  \<^verbatim>\<open>SrsHlsController\<close> decides when a segment ends, \<^verbatim>\<open>SrsHls\<close> filters the frames of a stream. The context and the
  file writer of a segment are those of the muxer, so that a segment has only its codecs. The disk is part
  of the state; what the system calls answer is the parameter \<open>os\<close>. Time stamps are mathematical integers except
  for \<^verbatim>\<open>update_duration\<close>, which takes an unsigned one. The ratio \<^verbatim>\<open>hls_aof_ratio\<close> is a rational: its product with
  the length of a fragment is exact in the double of the code. Logging is left out.
\<close>

section \<open>Configuration\<close>

record SrsSimpleConfig =
  cf_hls_enabled :: bool
  cf_hls_fragment :: int
  cf_hls_window :: int
  cf_hls_aof_ratio :: rat
  cf_hls_wait_keyframe :: bool
  cf_hls_cleanup :: bool
  cf_hls_path :: string
  cf_hls_m3u8_file :: string
  cf_hls_ts_file :: string

definition srs_config :: SrsSimpleConfig where
  "srs_config = \<lparr>cf_hls_enabled = True, cf_hls_fragment = 10 * 1000000, cf_hls_window = 60 * 1000000, cf_hls_aof_ratio = 21 / 10,
     cf_hls_wait_keyframe = True, cf_hls_cleanup = True, cf_hls_path = ''./objs/hls'', cf_hls_m3u8_file = ''[app]/[stream].m3u8'',
     cf_hls_ts_file = ''[app]/[stream]-[seq].ts''\<rparr>"

section \<open>Segments and the muxer\<close>

abbreviation (input) SRS_HLS_SEGMENT_MIN_DURATION :: int where "SRS_HLS_SEGMENT_MIN_DURATION \<equiv> 100 * SRS_UTIME_MILLISECONDS"

record SrsHlsSegment = SrsFragment +
  seg_sequence_no :: int
  seg_uri :: string
  seg_tscw :: "SrsTsContextWriter option"

definition SrsHlsSegment_new :: "byte \<Rightarrow> byte \<Rightarrow> SrsHlsSegment" where
  "SrsHlsSegment_new ac vc = SrsFragment.extend SrsFragment_new
     \<lparr>seg_sequence_no = 0, seg_uri = [], seg_tscw = Some (SrsTsContextWriter_new ac vc)\<rparr>"

record SrsHlsMuxer =
  mx_req :: "SrsRequest option"
  mx_hls_fragment :: int
  mx_hls_window :: int
  mx_hls_aof_ratio :: rat
  mx_hls_cleanup :: bool
  mx_hls_wait_keyframe :: bool
  mx_hls_path :: string
  mx_hls_ts_file :: string
  mx_m3u8 :: string
  mx_m3u8_dir :: string
  mx_max_td :: int
  mx_sequence_no :: int
  mx_latest_acodec :: byte
  mx_latest_vcodec :: byte
  mx_current :: "SrsHlsSegment option"
  mx_segments :: "SrsHlsSegment SrsFragmentWindow"
  mx_context :: SrsTsContext
  mx_writer :: SrsFileWriter

definition SrsHlsMuxer_new :: SrsHlsMuxer where
  "SrsHlsMuxer_new = \<lparr>mx_req = None, mx_hls_fragment = 0, mx_hls_window = 0, mx_hls_aof_ratio = 1, mx_hls_cleanup = True,
     mx_hls_wait_keyframe = True, mx_hls_path = [], mx_hls_ts_file = [], mx_m3u8 = [], mx_m3u8_dir = [], mx_max_td = 0,
     mx_sequence_no = 0, mx_latest_acodec = SrsAudioCodecIdForbidden, mx_latest_vcodec = SrsVideoCodecIdForbidden,
     mx_current = None, mx_segments = SrsFragmentWindow_new, mx_context = SrsTsContext_new, mx_writer = SrsFileWriter_new\<rparr>"

definition update_config :: "SrsSimpleConfig \<Rightarrow> 'k os_files \<Rightarrow> SrsRequest \<Rightarrow> SrsHlsMuxer \<times> 'k \<Rightarrow> (SrsHlsMuxer \<times> 'k) outcome" where
  "update_config cf os r = (\<lambda>(m, k).
     let req = request_copy r;
         m3u8_file = srs_path_build_stream (cf_hls_m3u8_file cf) (rq_vhost req) (rq_app req) (rq_stream req);
         m1 = m\<lparr>mx_req := Some req, mx_hls_fragment := cf_hls_fragment cf, mx_hls_window := cf_hls_window cf,
                mx_hls_aof_ratio := cf_hls_aof_ratio cf, mx_hls_cleanup := cf_hls_cleanup cf,
                mx_hls_wait_keyframe := cf_hls_wait_keyframe cf, mx_hls_path := cf_hls_path cf, mx_hls_ts_file := cf_hls_ts_file cf,
                mx_max_td := cf_hls_fragment cf, mx_m3u8 := cf_hls_path cf @ ''/'' @ m3u8_file,
                mx_m3u8_dir := (case rfind_char (CHR ''/'') m3u8_file of Some pos \<Rightarrow> take pos m3u8_file | None \<Rightarrow> [])\<rparr>;
         (e, k') = fragment_create_dir os (SrsFragment_new\<lparr>fr_filepath := mx_m3u8 m1\<rparr>) k
     in (e, (m1, k')))"

text \<open>The new segment: its codecs, number, path and the uri in the playlist.\<close>

definition new_segment :: "SrsRequest \<Rightarrow> SrsHlsMuxer \<Rightarrow> SrsHlsSegment" where
  "new_segment r m =
     (let default_acodec = (if mx_latest_acodec m \<noteq> SrsAudioCodecIdForbidden then mx_latest_acodec m else SrsAudioCodecIdAAC);
          default_vcodec = (if mx_latest_vcodec m \<noteq> SrsVideoCodecIdForbidden then mx_latest_vcodec m else SrsVideoCodecIdAVC);
          ts_file = srs_string_replace (srs_path_build_stream (mx_hls_ts_file m) (rq_vhost r) (rq_app r) (rq_stream r))
                      ''[seq]'' (show_int (mx_sequence_no m));
          prefix_dir = mx_m3u8_dir m @ ''/'';
          uri = (if mx_m3u8_dir m \<noteq> [] \<and> take (length prefix_dir) ts_file = prefix_dir then drop (length prefix_dir) ts_file else ts_file)
      in (SrsHlsSegment_new default_acodec default_vcodec)
           \<lparr>seg_sequence_no := mx_sequence_no m, fr_filepath := mx_hls_path m @ ''/'' @ ts_file, seg_uri := uri\<rparr>)"

definition segment_open :: "'k os_files \<Rightarrow> SrsHlsMuxer \<times> 'k \<Rightarrow> (SrsHlsMuxer \<times> 'k) outcome" where
  "segment_open os = (\<lambda>(m, k).
     if mx_current m \<noteq> None then (None, (m, k))
     else case mx_req m of
       None \<Rightarrow> (Some Srs_null_deref, (m, k))
     | Some r \<Rightarrow>
         let seg = new_segment r m;
             m1 = m\<lparr>mx_current := Some seg, mx_sequence_no := mx_sequence_no m + 1\<rparr>
         in andthen (\<lambda>(m, k). let (e, k') = fragment_create_dir os seg k in (e, (m, k')))
              (andthen (\<lambda>(m, k). let (e, (w, k')) = fw_open os (tmppath seg) (mx_writer m, k) in (e, (m\<lparr>mx_writer := w\<rparr>, k')))
                 (\<lambda>(m, k). (None, (m\<lparr>mx_context := ts_reset (mx_context m)\<rparr>, k)))) (m1, k))"

definition muxer_on_sequence_header :: "SrsHlsMuxer \<Rightarrow> SrsHlsMuxer outcome" where
  "muxer_on_sequence_header m =
     (case mx_current m of
        None \<Rightarrow> (Some Srs_abort, m)
      | Some seg \<Rightarrow> (None, m\<lparr>mx_current := Some (seg\<lparr>fr_sequence_header := True\<rparr>)\<rparr>))"

definition is_segment_overflow :: "SrsHlsMuxer \<Rightarrow> bool result" where
  "is_segment_overflow m =
     (case mx_current m of
        None \<Rightarrow> Inl Srs_abort
      | Some seg \<Rightarrow> if fr_dur seg < 2 * SRS_HLS_SEGMENT_MIN_DURATION then Inr False else Inr (fr_dur seg \<ge> mx_max_td m))"

definition is_segment_absolutely_overflow :: "SrsHlsMuxer \<Rightarrow> bool result" where
  "is_segment_absolutely_overflow m =
     (case mx_current m of
        None \<Rightarrow> Inl Srs_abort
      | Some seg \<Rightarrow> if fr_dur seg < 2 * SRS_HLS_SEGMENT_MIN_DURATION then Inr False
                    else Inr (of_int (fr_dur seg) \<ge> mx_hls_aof_ratio m * of_int (mx_hls_fragment m)))"

definition current_tscw :: "SrsHlsMuxer \<Rightarrow> SrsTsContextWriter option" where
  "current_tscw m = (case mx_current m of None \<Rightarrow> None | Some seg \<Rightarrow> seg_tscw seg)"

definition latest_acodec :: "SrsHlsMuxer \<Rightarrow> byte" where
  "latest_acodec m = (case current_tscw m of Some w \<Rightarrow> tscw_acodec w | None \<Rightarrow> mx_latest_acodec m)"

definition latest_vcodec :: "SrsHlsMuxer \<Rightarrow> byte" where
  "latest_vcodec m = (case current_tscw m of Some w \<Rightarrow> tscw_vcodec w | None \<Rightarrow> mx_latest_vcodec m)"

definition set_tscw :: "(SrsTsContextWriter \<Rightarrow> SrsTsContextWriter) \<Rightarrow> SrsHlsMuxer \<Rightarrow> SrsHlsMuxer" where
  "set_tscw f m = m\<lparr>mx_current := map_option (\<lambda>seg. seg\<lparr>seg_tscw := map_option f (seg_tscw seg)\<rparr>) (mx_current m)\<rparr>"

definition set_latest_acodec :: "byte \<Rightarrow> SrsHlsMuxer \<Rightarrow> SrsHlsMuxer" where
  "set_latest_acodec v m = (set_tscw (\<lambda>w. w\<lparr>tscw_acodec := v\<rparr>) m)\<lparr>mx_latest_acodec := v\<rparr>"

definition set_latest_vcodec :: "byte \<Rightarrow> SrsHlsMuxer \<Rightarrow> SrsHlsMuxer" where
  "set_latest_vcodec v m = (set_tscw (\<lambda>w. w\<lparr>tscw_vcodec := v\<rparr>) m)\<lparr>mx_latest_vcodec := v\<rparr>"

text \<open>The time stamp goes through an unsigned 64-bit integer.\<close>

definition update_duration :: "int \<Rightarrow> SrsHlsMuxer \<Rightarrow> SrsHlsMuxer outcome" where
  "update_duration dts m =
     (case mx_current m of
        None \<Rightarrow> (Some Srs_null_deref, m)
      | Some seg \<Rightarrow> (None, m\<lparr>mx_current := Some (fragment_append (dts mod 2 ^ 64 div 90) seg)\<rparr>))"

section \<open>The playlist\<close>

definition srsu2msi :: "int \<Rightarrow> int" where
  "srsu2msi us = to_int32 (us div SRS_UTIME_MILLISECONDS)"

abbreviation (input) LF :: string where "LF \<equiv> [CHR 0x0A]"

definition m3u8_segment :: "SrsHlsSegment \<Rightarrow> string" where
  "m3u8_segment seg =
     (if fr_sequence_header seg then ''#EXT-X-DISCONTINUITY'' @ LF else [])
     @ ''#EXTINF:'' @ show_fixed3 (srsu2msi (fr_dur seg)) @ '', no desc'' @ LF @ seg_uri seg @ LF"

definition target_duration :: "SrsHlsMuxer \<Rightarrow> int" where
  "target_duration m =
     (let d = max_duration (mx_segments m) in ceil_seconds (srsu2msi (if d < mx_max_td m then mx_max_td m else d)))"

definition m3u8_content :: "SrsHlsSegment \<Rightarrow> SrsHlsMuxer \<Rightarrow> string" where
  "m3u8_content first_segment m =
     ''#EXTM3U'' @ LF @ ''#EXT-X-VERSION:3'' @ LF
     @ ''#EXT-X-MEDIA-SEQUENCE:'' @ show_int (seg_sequence_no first_segment) @ LF
     @ ''#EXT-X-TARGETDURATION:'' @ show_int (target_duration m) @ LF
     @ concat (map m3u8_segment (fragments (mx_segments m)))"

definition write_m3u8 :: "'k os_files \<Rightarrow> string \<Rightarrow> SrsHlsMuxer \<Rightarrow> 'k \<Rightarrow> 'k outcome" where
  "write_m3u8 os m3u8_file m k =
     (case fragments (mx_segments m) of
        [] \<Rightarrow> (None, k)
      | first_segment # _ \<Rightarrow>
          let (e, (_, k')) = andthen (fw_open os m3u8_file) (fw_write os (string_bytes (m3u8_content first_segment m))) (SrsFileWriter_new, k)
          in (e, k'))"

definition refresh_m3u8 :: "'k os_files \<Rightarrow> SrsHlsMuxer \<Rightarrow> 'k \<Rightarrow> 'k outcome" where
  "refresh_m3u8 os m k =
     (if fragments (mx_segments m) = [] then (None, k)
      else let temp_m3u8 = mx_m3u8 m @ ''.temp'';
               (err, k1) = andthen (write_m3u8 os temp_m3u8 m)
                 (\<lambda>k. let (renamed, k') = os_rename os temp_m3u8 (mx_m3u8 m) k
                      in (if renamed then None else Some (Srs_error ERROR_SYSTEM_FILE_RENAME), k')) k;
               k2 = (if srs_path_exists os temp_m3u8 k1 then snd (os_unlink os temp_m3u8 k1) else k1)
           in (err, k2))"

section \<open>Closing a segment\<close>

definition finish_close :: "'k os_files \<Rightarrow> SrsHlsMuxer \<times> 'k \<Rightarrow> (SrsHlsMuxer \<times> 'k) outcome" where
  "finish_close os = (\<lambda>(m, k).
     let m1 = m\<lparr>mx_segments := window_shrink (mx_hls_window m) (mx_segments m)\<rparr>;
         (err, k1) = refresh_m3u8 os m1 k;
         (w, k2) = clear_expired os (mx_hls_cleanup m1) (mx_segments m1, k1)
     in (err, (m1\<lparr>mx_segments := w\<rparr>, k2)))"

definition keeps_segment :: "SrsHlsMuxer \<Rightarrow> SrsHlsSegment \<Rightarrow> bool" where
  "keeps_segment m seg \<longleftrightarrow> fr_dur seg \<ge> SRS_HLS_SEGMENT_MIN_DURATION \<and> fr_dur seg \<le> mx_max_td m * 3 * 1000"

definition do_segment_close :: "'k os_files \<Rightarrow> SrsHlsMuxer \<times> 'k \<Rightarrow> (SrsHlsMuxer \<times> 'k) outcome" where
  "do_segment_close os = (\<lambda>(m, k).
     case mx_current m of
       None \<Rightarrow> (None, (m, k))
     | Some seg \<Rightarrow>
         let m1 = m\<lparr>mx_writer := fw_close (mx_writer m)\<rparr> in
         if keeps_segment m1 seg
         then case fragment_rename os seg k of
                (Some e, k1) \<Rightarrow> (Some e, (m1, k1))
              | (None, k1) \<Rightarrow>
                  finish_close os (m1\<lparr>mx_segments := window_append (seg\<lparr>seg_tscw := None\<rparr>) (mx_segments m1), mx_current := None\<rparr>, k1)
         else let m2 = m1\<lparr>mx_sequence_no := mx_sequence_no m1 - 1\<rparr> in
              case unlink_tmpfile os seg k of
                (Some e, k1) \<Rightarrow> (Some e, (m2, k1))
              | (None, k1) \<Rightarrow> finish_close os (m2, k1))"

definition segment_close :: "'k os_files \<Rightarrow> SrsHlsMuxer \<times> 'k \<Rightarrow> (SrsHlsMuxer \<times> 'k) outcome" where
  "segment_close os mk = (let (err, (m, k)) = do_segment_close os mk in (err, (m\<lparr>mx_current := None\<rparr>, k)))"

section \<open>SrsHlsController\<close>

record SrsHlsController =
  ctl_tsmc :: SrsTsMessageCache
  ctl_muxer :: SrsHlsMuxer

definition SrsHlsController_new :: SrsHlsController where
  "SrsHlsController_new = \<lparr>ctl_tsmc = SrsTsMessageCache_new, ctl_muxer = SrsHlsMuxer_new\<rparr>"

text \<open>A call of the muxer.\<close>

definition on_muxer :: "(SrsHlsMuxer \<times> 'k \<Rightarrow> (SrsHlsMuxer \<times> 'k) outcome) \<Rightarrow> SrsHlsController \<times> 'k \<Rightarrow> (SrsHlsController \<times> 'k) outcome" where
  "on_muxer f = (\<lambda>(c, k). let (e, (m, k')) = f (ctl_muxer c, k) in (e, (c\<lparr>ctl_muxer := m\<rparr>, k')))"

text \<open>
  \<^verbatim>\<open>flush_audio\<close> and \<^verbatim>\<open>flush_video\<close> of the muxer, with the cache that they are called with; the message is freed
  when it is written.
\<close>

definition write_current :: "'k os_files \<Rightarrow> (SrsTsContextWriter \<Rightarrow> SrsTsMessage \<Rightarrow> SrsTsContext \<times> SrsFileWriter \<times> 'k \<Rightarrow> (SrsTsContext \<times> SrsFileWriter \<times> 'k) outcome)
    \<Rightarrow> SrsTsMessage \<Rightarrow> SrsHlsMuxer \<times> 'k \<Rightarrow> (SrsHlsMuxer \<times> 'k) outcome" where
  "write_current os write msg = (\<lambda>(m, k).
     case current_tscw m of
       None \<Rightarrow> (Some Srs_null_deref, (m, k))
     | Some tscw \<Rightarrow> let (e, (x, w, k')) = write tscw msg (mx_context m, mx_writer m, k)
                     in (e, (m\<lparr>mx_context := x, mx_writer := w\<rparr>, k')))"

definition flush_audio :: "'k os_files \<Rightarrow> SrsHlsController \<times> 'k \<Rightarrow> (SrsHlsController \<times> 'k) outcome" where
  "flush_audio os = (\<lambda>(c, k).
     if mx_current (ctl_muxer c) = None then (None, (c, k))
     else case tc_audio (ctl_tsmc c) of
       None \<Rightarrow> (None, (c, k))
     | Some audio \<Rightarrow>
         if SrsSimpleStream_length (ts_payload audio) \<le> 0 then (None, (c, k))
         else andthen (on_muxer (\<lambda>(m, k). let (e, m') = update_duration (ts_dts audio) m in (e, (m', k))))
                (andthen (on_muxer (write_current os (ts_write_audio (file_writer os)) audio))
                   (\<lambda>(c, k). (None, (c\<lparr>ctl_tsmc := (ctl_tsmc c)\<lparr>tc_audio := None\<rparr>\<rparr>, k)))) (c, k))"

definition flush_video :: "'k os_files \<Rightarrow> SrsHlsController \<times> 'k \<Rightarrow> (SrsHlsController \<times> 'k) outcome" where
  "flush_video os = (\<lambda>(c, k).
     if mx_current (ctl_muxer c) = None then (None, (c, k))
     else case tc_video (ctl_tsmc c) of
       None \<Rightarrow> (None, (c, k))
     | Some video \<Rightarrow>
         if SrsSimpleStream_length (ts_payload video) \<le> 0 then (None, (c, k))
         else andthen (on_muxer (\<lambda>(m, k). let (e, m') = update_duration (ts_dts video) m in (e, (m', k))))
                (andthen (on_muxer (write_current os (ts_write_video (file_writer os)) video))
                   (\<lambda>(c, k). (None, (c\<lparr>ctl_tsmc := (ctl_tsmc c)\<lparr>tc_video := None\<rparr>\<rparr>, k)))) (c, k))"

definition controller_on_publish :: "SrsSimpleConfig \<Rightarrow> 'k os_files \<Rightarrow> SrsRequest \<Rightarrow> SrsHlsController \<times> 'k \<Rightarrow> (SrsHlsController \<times> 'k) outcome" where
  "controller_on_publish cf os req = andthen (on_muxer (update_config cf os req)) (on_muxer (segment_open os))"

definition controller_on_unpublish :: "'k os_files \<Rightarrow> SrsHlsController \<times> 'k \<Rightarrow> (SrsHlsController \<times> 'k) outcome" where
  "controller_on_unpublish os = andthen (flush_audio os) (andthen (flush_video os) (on_muxer (segment_close os)))"

definition controller_on_sequence_header :: "SrsHlsController \<times> 'k \<Rightarrow> (SrsHlsController \<times> 'k) outcome" where
  "controller_on_sequence_header = on_muxer (\<lambda>(m, k). let (e, m') = muxer_on_sequence_header m in (e, (m', k)))"

definition reap_segment :: "'k os_files \<Rightarrow> SrsHlsController \<times> 'k \<Rightarrow> (SrsHlsController \<times> 'k) outcome" where
  "reap_segment os ck =
     (case on_muxer (segment_close os) ck of
        (Some e, ck1) \<Rightarrow> (Some e, snd (on_muxer (segment_open os) ck1))
      | (None, ck1) \<Rightarrow> andthen (on_muxer (segment_open os)) (andthen (flush_video os) (flush_audio os)) ck1)"

definition when_overflow :: "'k os_files \<Rightarrow> bool result \<Rightarrow> bool \<Rightarrow> SrsHlsController \<times> 'k \<Rightarrow> (SrsHlsController \<times> 'k) outcome" where
  "when_overflow os over may_reap ck =
     (case over of
        Inl e \<Rightarrow> (Some e, ck)
      | Inr b \<Rightarrow> if b \<and> may_reap then reap_segment os ck else (None, ck))"

definition write_audio :: "'k os_files \<Rightarrow> SrsAudioCodecConfig option \<Rightarrow> SrsAudioFrame \<Rightarrow> int \<Rightarrow> SrsHlsController \<times> 'k \<Rightarrow> (SrsHlsController \<times> 'k) outcome" where
  "write_audio os acodec frame dts = (\<lambda>(c, k).
     case acodec of
       None \<Rightarrow> (Some Srs_null_deref, (c, k))
     | Some codec \<Rightarrow>
         let m = ctl_muxer c; m1 = (if latest_acodec m \<noteq> ac_id codec then set_latest_acodec (ac_id codec) m else m) in
         case cache_audio acodec frame dts (ctl_tsmc c) of
           (Some e, tc) \<Rightarrow> (Some e, (c\<lparr>ctl_tsmc := tc, ctl_muxer := m1\<rparr>, k))
         | (None, tc) \<Rightarrow>
             let c1 = c\<lparr>ctl_tsmc := tc, ctl_muxer := m1\<rparr> in
             case tc_audio tc of
               None \<Rightarrow> (Some Srs_null_deref, (c1, k))
             | Some audio \<Rightarrow>
                 andthen (on_muxer (\<lambda>(m, k). let (e, m') = update_duration (ts_dts audio) m in (e, (m', k))))
                   (andthen (\<lambda>(c, k). when_overflow os (is_segment_absolutely_overflow (ctl_muxer c)) True (c, k))
                     (flush_audio os)) (c1, k))"

definition write_video :: "'k os_files \<Rightarrow> SrsVideoCodecConfig option \<Rightarrow> SrsVideoFrame \<Rightarrow> int \<Rightarrow> SrsHlsController \<times> 'k \<Rightarrow> (SrsHlsController \<times> 'k) outcome" where
  "write_video os vcodec frame dts = (\<lambda>(c, k).
     case vcodec of
       None \<Rightarrow> (Some Srs_null_deref, (c, k))
     | Some codec \<Rightarrow>
         let m = ctl_muxer c; m1 = (if latest_vcodec m \<noteq> vc_id codec then set_latest_vcodec (vc_id codec) m else m) in
         case cache_video vcodec frame dts (ctl_tsmc c) of
           (Some e, tc) \<Rightarrow> (Some e, (c\<lparr>ctl_tsmc := tc, ctl_muxer := m1\<rparr>, k))
         | (None, tc) \<Rightarrow>
             let c1 = c\<lparr>ctl_tsmc := tc, ctl_muxer := m1\<rparr> in
             case tc_video tc of
               None \<Rightarrow> (Some Srs_null_deref, (c1, k))
             | Some video \<Rightarrow>
                 andthen (on_muxer (\<lambda>(m, k). let (e, m') = update_duration (ts_dts video) m in (e, (m', k))))
                   (andthen (\<lambda>(c, k). when_overflow os (is_segment_overflow (ctl_muxer c))
                               (\<not> mx_hls_wait_keyframe (ctl_muxer c) \<or> frame_type frame = SrsVideoAvcFrameTypeKeyFrame) (c, k))
                     (flush_video os)) (c1, k))"

section \<open>SrsHls\<close>

record SrsHls =
  hls_controller :: SrsHlsController
  hls_req :: "SrsRequest option"
  hls_enabled :: bool

definition SrsHls_new :: SrsHls where
  "SrsHls_new = \<lparr>hls_controller = SrsHlsController_new, hls_req = None, hls_enabled = False\<rparr>"

definition on_controller :: "(SrsHlsController \<times> 'k \<Rightarrow> (SrsHlsController \<times> 'k) outcome) \<Rightarrow> SrsHls \<times> 'k \<Rightarrow> (SrsHls \<times> 'k) outcome" where
  "on_controller f = (\<lambda>(h, k). let (e, (c, k')) = f (hls_controller h, k) in (e, (h\<lparr>hls_controller := c\<rparr>, k')))"

definition hls_initialize :: "SrsRequest \<Rightarrow> SrsHls \<times> 'k \<Rightarrow> (SrsHls \<times> 'k) outcome" where
  "hls_initialize r = (\<lambda>(h, k). (None, (h\<lparr>hls_req := Some r\<rparr>, k)))"

definition hls_on_publish :: "SrsSimpleConfig \<Rightarrow> 'k os_files \<Rightarrow> SrsHls \<times> 'k \<Rightarrow> (SrsHls \<times> 'k) outcome" where
  "hls_on_publish cf os = (\<lambda>(h, k).
     if \<not> cf_hls_enabled cf then (None, (h, k))
     else case hls_req h of
       None \<Rightarrow> (Some Srs_null_deref, (h, k))
     | Some req \<Rightarrow> andthen (on_controller (controller_on_publish cf os req)) (\<lambda>(h, k). (None, (h\<lparr>hls_enabled := True\<rparr>, k))) (h, k))"

definition hls_on_unpublish :: "'k os_files \<Rightarrow> SrsHls \<times> 'k \<Rightarrow> SrsHls \<times> 'k" where
  "hls_on_unpublish os = (\<lambda>(h, k).
     if \<not> hls_enabled h then (h, k)
     else let (_, (h', k')) = on_controller (controller_on_unpublish os) (h, k) in (h'\<lparr>hls_enabled := False\<rparr>, k'))"

definition hls_on_audio :: "'k os_files \<Rightarrow> SrsSharedPtrMessage \<Rightarrow> SrsFormat \<Rightarrow> SrsHls \<times> 'k \<Rightarrow> (SrsHls \<times> 'k) outcome" where
  "hls_on_audio os shared_audio format = (\<lambda>(h, k).
     if \<not> hls_enabled h then (None, (h, k))
     else case (fmt_acodec format, fmt_audio format) of
       (Some acodec, Some audio) \<Rightarrow>
         if ac_id acodec \<noteq> SrsAudioCodecIdAAC then (None, (h, k))
         else if aac_packet_type audio = SrsAudioAacFrameTraitSequenceHeader then on_controller controller_on_sequence_header (h, k)
         else if af_samples audio = [] then (None, (h, k))
         else if \<not> is_aac_codec_ok acodec then (None, (h, k))
         else on_controller (write_audio os (fmt_acodec format) audio (sm_timestamp shared_audio * 90)) (h, k)
     | _ \<Rightarrow> (None, (h, k)))"

definition hls_on_video :: "'k os_files \<Rightarrow> SrsSharedPtrMessage \<Rightarrow> SrsFormat \<Rightarrow> SrsHls \<times> 'k \<Rightarrow> (SrsHls \<times> 'k) outcome" where
  "hls_on_video os shared_video format = (\<lambda>(h, k).
     if \<not> hls_enabled h then (None, (h, k))
     else case (fmt_vcodec format, fmt_video format) of
       (Some vcodec, Some video) \<Rightarrow>
         if vc_id vcodec \<noteq> SrsVideoCodecIdAVC then (None, (h, k))
         else if avc_packet_type video = SrsVideoAvcFrameTraitSequenceHeader then on_controller controller_on_sequence_header (h, k)
         else if avc_packet_type video \<noteq> SrsVideoAvcFrameTraitNALU \<or> vf_samples video = [] then (None, (h, k))
         else if \<not> is_avc_codec_ok vcodec then (None, (h, k))
         else on_controller (write_video os (fmt_vcodec format) video (sm_timestamp shared_video * 90)) (h, k)
     | _ \<Rightarrow> (None, (h, k)))"

text \<open>The writer that the hub calls.\<close>

definition hls_handler :: "SrsSimpleConfig \<Rightarrow> 'k os_files \<Rightarrow> (SrsHls \<times> 'k) stream_handler" where
  "hls_handler cf os = \<lparr>sh_initialize = hls_initialize, sh_on_publish = hls_on_publish cf os, sh_on_unpublish = hls_on_unpublish os,
     sh_on_audio = hls_on_audio os, sh_on_video = hls_on_video os\<rparr>"

end
