(* ===== verification/HlsSafe.thy ===== *)
theory HlsSafe
  imports Hls Triple
begin

text \<open>
  What the multiplexer keeps of its writer, and the safety of HLS: an invariant of the muxer carries over to the controller and to
  \<^verbatim>\<open>SrsHls\<close> (the locale \<open>muxer_invariant\<close>), and HLS as a writer of the hub ends with an error code at most, whatever the file
  system answers.
\<close>

section \<open>The multiplexer keeps what its writer keeps\<close>

text \<open>What every write of a writer keeps, the multiplexer keeps.\<close>

abbreviation (input) on_writer :: "('w \<Rightarrow> bool) \<Rightarrow> SrsTsContext \<times> 'w \<Rightarrow> bool" where
  "on_writer P \<equiv> \<lambda>(_, w). P w"

lemma write_packet_triple:
  assumes "\<And>bs. triple P (wr_write W bs) P P"
  shows "triple (on_writer P) (write_packet W pkt) (on_writer P) (on_writer P)"
proof (rule tripleI)
  fix s e s' assume s: "on_writer P s" "write_packet W pkt s = (e, s')"
  obtain c w where cw: "s = (c, w)" by fastforce
  obtain e1 w1 where w: "wr_write W pkt w = (e1, w1)" by fastforce
  have "P w" using s(1) cw by simp
  from tripleD [OF assms this w] show "(e = None \<and> on_writer P s') \<or> (\<exists>c. e = Some (Srs_error c) \<and> on_writer P s')"
    using s(2) cw w by (auto simp: write_packet_def)
qed

lemma triple_context: "triple (on_writer P) g (on_writer P) (on_writer P) \<Longrightarrow> triple (on_writer P) (\<lambda>(c, w). g (f c, w)) (on_writer P) (on_writer P)"
proof (rule tripleI)
  fix s e s' assume t: "triple (on_writer P) g (on_writer P) (on_writer P)" and s: "on_writer P s" "(\<lambda>(c, w). g (f c, w)) s = (e, s')"
  obtain c w where cw: "s = (c, w)" by fastforce
  have "on_writer P (f c, w)" using s(1) cw by simp
  from tripleD [OF t this] show "(e = None \<and> on_writer P s') \<or> (\<exists>c. e = Some (Srs_error c) \<and> on_writer P s')" using s(2) cw by simp
qed

lemma pes_packets_triple:
  assumes "\<And>bs. triple P (wr_write W bs) P P"
  shows "triple (on_writer P) (pes_packets W msg pid first rest) (on_writer P) (on_writer P)"
proof (induction "length rest" arbitrary: first rest rule: less_induct)
  case less
  show ?case
  proof (rule tripleI)
    fix s e s' assume s: "on_writer P s" "pes_packets W msg pid first rest s = (e, s')"
    obtain c w where cw: "s = (c, w)" by fastforce
    obtain n c1 where n: "next_counter pid (if ts_is_audio msg then SrsTsStreamAudioAAC else SrsTsStreamVideoH264) c = (n, c1)" by fastforce
    show "(e = None \<and> on_writer P s') \<or> (\<exists>c. e = Some (Srs_error c) \<and> on_writer P s')"
    proof (cases "rest = []")
      case True
      have "pes_packets W msg pid first rest s = (None, s)" by (subst pes_packets.simps) (simp add: cw True)
      then show ?thesis using s by simp
    next
      case False
      define af where "af = af_size msg first (length rest)"
      define header where "header = [0x47, (if first then 0x40 else 0x00) OR ucast (drop_bit 8 pid AND 0x1f), ucast pid,
                        (if af > 0 then 0x30 else 0x10) OR (n AND 0x0f)] @ adaptation_field msg (first \<and> ts_write_pcr msg) af"
      define body where "body = SRS_TS_PACKET_SIZE - length header"
      have r: "andthen (write_packet W (header @ take body rest)) (pes_packets W msg pid False (drop body rest)) (c1, w) = (e, s')"
        using s(2) False unfolding cw by (subst (asm) pes_packets.simps) (simp add: n Let_def af_def header_def body_def)
      have "0 < body" using False af_size_less [of "length rest" msg first]
        by (simp add: body_def header_def af_def length_adaptation_field)
      then have "length (drop body rest) < length rest" using False by simp
      from triple_andthen [OF write_packet_triple [OF assms] less [OF this]]
      have t: "triple (on_writer P) (andthen (write_packet W (header @ take body rest)) (pes_packets W msg pid False (drop body rest))) (on_writer P) (on_writer P)" .
      have "on_writer P (c1, w)" using s(1) cw by simp
      from tripleD [OF t this r] show ?thesis .
    qed
  qed
qed

lemma ts_encode_triple:
  assumes "\<And>bs. triple P (wr_write W bs) P P"
  shows "triple (on_writer P) (ts_encode W msg vc ac) (on_writer P) (on_writer P)"
proof -
  have pes: "triple (on_writer P) (encode_pes W m pid) (on_writer P) (on_writer P)" for m pid
  proof (rule tripleI)
    fix s e s' assume s: "on_writer P s" "encode_pes W m pid s = (e, s')"
    obtain c w where cw: "s = (c, w)" by fastforce
    obtain ch c1 where ch: "ts_channel pid (if ts_is_audio m then SrsTsStreamAudioAAC else SrsTsStreamVideoH264) c = (ch, c1)" by fastforce
    have p: "on_writer P (c1, w)" using s(1) cw by simp
    show "(e = None \<and> on_writer P s') \<or> (\<exists>c. e = Some (Srs_error c) \<and> on_writer P s')"
      using s tripleD [OF pes_packets_triple [OF assms] p] ch cw by (auto simp: encode_pes_def split: if_splits)
  qed
  have psi: "triple (on_writer P) (encode_pat_pmt W vpid vs apid as) (on_writer P) (on_writer P)" for vpid vs apid as
  proof (rule triple_at)
    fix s assume p: "on_writer P s"
    obtain c w where cw: "s = (c, w)" by fastforce
    obtain n c1 where n: "next_counter 0x00 SrsTsStreamReserved c = (n, c1)" by fastforce
    let ?v = "ctx_vcodec c = SrsVideoCodecIdAVC" and ?a = "ctx_acodec c = SrsAudioCodecIdAAC"
    let ?pmt = "\<lambda>(c2, w2). let (n', c3) = next_counter TS_PMT_PID SrsTsStreamReserved c2 in
         write_packet W (psi_packet [0x47, 0x40 OR ucast (drop_bit 8 TS_PMT_PID AND 0x1f), ucast TS_PMT_PID, 0x10 OR (n' AND 0x0f), 0x00]
           (pmt_section ?v ?a vpid vs apid as)) (c3, w2)"
    let ?pat = "psi_packet [0x47, 0x40, 0x00, 0x10 OR (n AND 0x0f), 0x00] pat_section"
    have pmt: "triple (on_writer P) ?pmt (on_writer P) (on_writer P)"
    proof (rule tripleI)
      fix t e t' assume t: "on_writer P t" "?pmt t = (e, t')"
      obtain c2 w2 where cw2: "t = (c2, w2)" by fastforce
      obtain n' c3 where n': "next_counter TS_PMT_PID SrsTsStreamReserved c2 = (n', c3)" by fastforce
      have "on_writer P (c3, w2)" using t(1) cw2 by simp
      from tripleD [OF write_packet_triple [OF assms] this] show "(e = None \<and> on_writer P t') \<or> (\<exists>c. e = Some (Srs_error c) \<and> on_writer P t')"
        using t(2) cw2 n' by simp
    qed
    show "\<exists>g. encode_pat_pmt W vpid vs apid as s = g s \<and> triple (on_writer P) g (on_writer P) (on_writer P)"
    proof (cases "\<not> ?v \<and> \<not> ?a")
      case True
      then show ?thesis by (intro exI [of _ "\<lambda>s. (Some (Srs_error ERROR_HLS_DECODE_ERROR), s)"]) (simp add: cw encode_pat_pmt_def triple_fail)
    next
      case False
      have "triple (on_writer P) (\<lambda>(c, w). andthen (write_packet W ?pat) ?pmt (c1, w)) (on_writer P) (on_writer P)"
        by (rule triple_context [OF triple_andthen [OF write_packet_triple [OF assms] pmt]])
      moreover have "encode_pat_pmt W vpid vs apid as s = (\<lambda>(c, w). andthen (write_packet W ?pat) ?pmt (c1, w)) s"
        using False n unfolding cw encode_pat_pmt_def by (auto simp: Let_def)
      ultimately show ?thesis by blast
    qed
  qed
  show ?thesis
  proof (rule triple_at)
    fix s assume p: "on_writer P s"
    obtain c w where cw: "s = (c, w)" by fastforce
    let ?f = "\<lambda>(c, w). if ctx_vcodec c \<noteq> vc \<or> ctx_acodec c \<noteq> ac
          then encode_pat_pmt W TS_VIDEO_AVC_PID SrsTsStreamVideoH264 TS_AUDIO_AAC_PID SrsTsStreamAudioAAC
                 (c\<lparr>ctx_vcodec := vc, ctx_acodec := ac\<rparr>, w)
          else (None, (c, w))"
    let ?g = "\<lambda>(c, w).
          let msg1 = (if ctx_vcodec c \<noteq> SrsVideoCodecIdAVC \<and> ts_is_audio msg then msg\<lparr>ts_write_pcr := True\<rparr> else msg)
          in encode_pes W msg1 (if ts_is_audio msg1 then TS_AUDIO_AAC_PID else TS_VIDEO_AVC_PID) (c, w)"
    have "triple (on_writer P) ?f (on_writer P) (on_writer P)"
    proof (rule triple_at)
      fix t assume "on_writer P t"
      obtain c w where cw: "t = (c, w)" by fastforce
      show "\<exists>g. ?f t = g t \<and> triple (on_writer P) g (on_writer P) (on_writer P)"
      proof (cases "ctx_vcodec c \<noteq> vc \<or> ctx_acodec c \<noteq> ac")
        case True
        show ?thesis
          by (intro exI conjI, rule_tac [2] triple_context [OF psi [of TS_VIDEO_AVC_PID SrsTsStreamVideoH264 TS_AUDIO_AAC_PID SrsTsStreamAudioAAC], where f = "\<lambda>c. c\<lparr>ctx_vcodec := vc, ctx_acodec := ac\<rparr>"])
            (use True in \<open>simp add: cw\<close>)
      next
        case False
        then show ?thesis by (intro exI conjI, rule_tac [2] triple_skip) (simp add: cw)
      qed
    qed
    moreover have "triple (on_writer P) ?g (on_writer P) (on_writer P)"
    proof (rule triple_at)
      fix t assume "on_writer P t"
      obtain c w where cw: "t = (c, w)" by fastforce
      show "\<exists>g. ?g t = g t \<and> triple (on_writer P) g (on_writer P) (on_writer P)"
        unfolding cw prod.case Let_def by (intro exI conjI, rule refl, rule pes)
    qed
    ultimately show "\<exists>g. ts_encode W msg vc ac s = g s \<and> triple (on_writer P) g (on_writer P) (on_writer P)"
      using triple_andthen [of "on_writer P" ?f "on_writer P" "on_writer P" ?g "on_writer P"] by (intro exI [of _ "andthen ?f ?g"]) (simp add: cw ts_encode_def)
  qed
qed

lemma on_muxer_eq: "on_muxer f = (\<lambda>s. case f ((\<lambda>(c, k). (ctl_muxer c, k)) s) of (e, x) \<Rightarrow> (e, (\<lambda>(m, k') (c, k). (c\<lparr>ctl_muxer := m\<rparr>, k')) x s))"
  by (auto simp: on_muxer_def fun_eq_iff Let_def split: prod.splits)

lemma triple_on_muxer:
  assumes "triple P f Q R"
  shows "triple (\<lambda>(c, k). P (ctl_muxer c, k)) (on_muxer f) (\<lambda>(c, k). Q (ctl_muxer c, k)) (\<lambda>(c, k). R (ctl_muxer c, k))"
  unfolding on_muxer_eq by (rule triple_lift [OF assms]) auto

lemma triple_on_controller:
  assumes "triple P f Q R"
  shows "triple (\<lambda>(h, k). P (hls_controller h, k) \<and> hls_req h = r \<and> hls_enabled h = b) (on_controller f)
    (\<lambda>(h, k). Q (hls_controller h, k) \<and> hls_req h = r \<and> hls_enabled h = b) (\<lambda>(h, k). R (hls_controller h, k) \<and> hls_req h = r \<and> hls_enabled h = b)"
proof (rule tripleI)
  fix s e s' assume s: "(\<lambda>(h, k). P (hls_controller h, k) \<and> hls_req h = r \<and> hls_enabled h = b) s" "on_controller f s = (e, s')"
  obtain h k where hk: "s = (h, k)" by fastforce
  obtain e1 c k1 where f: "f (hls_controller h, k) = (e1, c, k1)" by (metis prod_cases3)
  have "P (hls_controller h, k)" using s(1) hk by simp
  from tripleD [OF assms this f] s hk f show
    "(e = None \<and> (\<lambda>(h, k). Q (hls_controller h, k) \<and> hls_req h = r \<and> hls_enabled h = b) s')
     \<or> (\<exists>c. e = Some (Srs_error c) \<and> (\<lambda>(h, k). R (hls_controller h, k) \<and> hls_req h = r \<and> hls_enabled h = b) s')"
    by (auto simp: on_controller_def)
qed

text \<open>Frames that the parser makes have no empty samples; caching them gives a message or an error code.\<close>

lemma ss_add_nonempty: "bs \<noteq> [] \<Longrightarrow> fst (ss_add bs s) = None"
  by (simp add: ss_add_def SrsSimpleStream_append_def)

lemma aac_samples_returns: "returns (aac_samples codec samples s)"
proof (induction samples arbitrary: s)
  case (Cons x xs)
  show ?case
  proof (cases "x = []")
    case False
    have h: "adts_header codec n \<noteq> []" for n by (simp add: adts_header_def Let_def)
    obtain s1 where s1: "ss_add (adts_header codec (length x)) s = (None, s1)" using ss_add_nonempty [OF h, of "length x" s] by (cases "ss_add (adts_header codec (length x)) s") auto
    obtain s2 where s2: "ss_add x s1 = (None, s2)" using ss_add_nonempty [OF False, of s1] by (cases "ss_add x s1") auto
    show ?thesis using Cons.IH [of s2] False s1 s2 by (simp add: andthen_def)
  qed simp
qed simp

lemma returns_iff: "returns (e, s) \<longleftrightarrow> e = None \<or> (\<exists>c. e = Some (Srs_error c))"
  by (cases e) auto

lemma cache_audio_result:
  "\<exists>e tc' audio. cache_audio codec frame dts tc = (e, tc') \<and> tc_audio tc' = Some audio \<and> (e = None \<or> (\<exists>c. e = Some (Srs_error c)))"
proof -
  have r: "returns (do_cache_aac codec frame s)" for s
    by (cases codec) (auto simp: do_cache_aac_def aac_samples_returns)
  define audio where "audio = (case tc_audio tc of
                     None \<Rightarrow> SrsTsMessage_new\<lparr>ts_write_pcr := False, ts_dts := dts, ts_pts := dts, ts_sid := SrsTsPESStreamIdAudioCommon\<rparr>
                   | Some m \<Rightarrow> m)"
  obtain e s where e: "do_cache_aac codec frame (ts_payload audio) = (e, s)" by fastforce
  then have "cache_audio codec frame dts tc = (e, tc\<lparr>tc_audio := Some (audio\<lparr>ts_payload := s\<rparr>)\<rparr>)"
    by (simp add: cache_audio_def audio_def Let_def)
  then show ?thesis using r [of "ts_payload audio"] e by (auto simp: returns_iff)
qed

lemma cache_video_result:
  assumes "[] \<notin> set (vf_samples frame)"
  shows "\<exists>e tc' video. cache_video codec frame dts tc = (e, tc') \<and> tc_video tc' = Some video \<and> (e = None \<or> (\<exists>c. e = Some (Srs_error c)))"
proof -
  have r: "returns (do_cache_avc codec frame s)" for s
  proof (cases codec)
    case (Some c)
    then show ?thesis using do_cache_avc_annex [OF _ assms, of c s] by (cases "is_avc_codec_ok c") (auto simp: do_cache_avc_def)
  qed (simp add: do_cache_avc_def)
  define video where "video = (case tc_video tc of
                     None \<Rightarrow> SrsTsMessage_new\<lparr>ts_write_pcr := (frame_type frame = SrsVideoAvcFrameTypeKeyFrame),
                       ts_dts := dts, ts_pts := dts + vf_cts frame * 90, ts_sid := SrsTsPESStreamIdVideoCommon\<rparr>
                   | Some m \<Rightarrow> m)"
  obtain e s where e: "do_cache_avc codec frame (ts_payload video) = (e, s)" by fastforce
  then have "cache_video codec frame dts tc = (e, tc\<lparr>tc_video := Some (video\<lparr>ts_payload := s\<rparr>)\<rparr>)"
    by (simp add: cache_video_def video_def Let_def)
  then show ?thesis using r [of "ts_payload video"] e by (auto simp: returns_iff)
qed

text \<open>A multiplexer over a file comes back.\<close>

lemma triple_True: "(\<And>s. returns (f s)) \<Longrightarrow> triple (\<lambda>_. True) f (\<lambda>_. True) (\<lambda>_. True)"
  by (rule tripleI) (metis returns_iff)

lemma returns_andthen: "returns (f s) \<Longrightarrow> (\<And>s'. returns (g s')) \<Longrightarrow> returns (andthen f g s)"
  by (cases "f s"; cases "fst (f s)") (auto simp: andthen_def)

lemma ts_encode_returns: "returns (ts_encode (file_writer os) msg vc ac cw)"
proof -
  have "returns (wr_write (file_writer os) bs fk)" for bs fk
    by (auto simp: file_writer_def fw_write_def Let_def split: option.splits prod.splits)
  from triple_returns [OF ts_encode_triple [OF triple_True [OF this], of msg vc ac], of cw] show ?thesis by (simp add: case_prod_beta)
qed

section \<open>Invariants of the muxer carry over to HLS\<close>

text \<open>
  A muxer is \<open>idle\<close> before it is published, then \<open>conf\<close>igured, and \<open>live\<close> while a segment is open. An invariant of the muxer and the
  disk that its operations keep is one of all of HLS.
\<close>

locale muxer_invariant =
  fixes cf :: SrsSimpleConfig and os :: "'k os_files" and r :: SrsRequest
    and idle conf live :: "SrsHlsMuxer \<times> 'k \<Rightarrow> bool"
  assumes conf_idle: "conf s \<Longrightarrow> idle s"
    and live_iff: "live (m, k) \<longleftrightarrow> conf (m, k) \<and> mx_current m \<noteq> None"
    and tscw: "live (m, k) \<Longrightarrow> current_tscw m \<noteq> None"
    and config: "triple idle (update_config cf os r) conf conf"
    and config_live: "triple live (update_config cf os r) live live"
    and opens: "triple conf (segment_open os) live live"
    and closes: "triple conf (segment_close os) conf conf"
    and duration: "live (m, k) \<Longrightarrow> live (snd (update_duration dts m), k)"
    and header: "live (m, k) \<Longrightarrow> live (snd (muxer_on_sequence_header m), k)"
    and acodec: "live (m, k) \<Longrightarrow> live (set_latest_acodec SrsAudioCodecIdAAC m, k)"
    and vcodec: "live (m, k) \<Longrightarrow> live (set_latest_vcodec SrsVideoCodecIdAVC m, k)"
    and writes: "triple live (write_current os (\<lambda>tscw msg. ts_encode (file_writer os) msg (tscw_vcodec tscw) (tscw_acodec tscw)) msg) live live"
begin

abbreviation ctl :: "(SrsHlsMuxer \<times> 'k \<Rightarrow> bool) \<Rightarrow> SrsHlsController \<times> 'k \<Rightarrow> bool" where
  "ctl P \<equiv> \<lambda>(c, k). P (ctl_muxer c, k)"

lemma triple_duration: "triple (ctl live) (on_muxer (\<lambda>(m, k). let (e, m') = update_duration dts m in (e, (m', k)))) (ctl live) (ctl live)"
proof (rule triple_on_muxer, rule tripleI)
  fix s e s' assume s: "live s" "(\<lambda>(m, k). let (e, m') = update_duration dts m in (e, (m', k))) s = (e, s')"
  obtain m k where mk: "s = (m, k)" by fastforce
  have "mx_current m \<noteq> None" using s(1) mk live_iff by simp
  then show "(e = None \<and> live s') \<or> (\<exists>c. e = Some (Srs_error c) \<and> live s')"
    using s duration [of m k dts] mk by (auto simp: update_duration_def)
qed

lemma triple_header: "triple (ctl live) controller_on_sequence_header (ctl live) (ctl live)"
  unfolding controller_on_sequence_header_def
proof (rule triple_on_muxer, rule tripleI)
  fix s e s' assume s: "live s" "(\<lambda>(m, k). let (e, m') = muxer_on_sequence_header m in (e, (m', k))) s = (e, s')"
  obtain m k where mk: "s = (m, k)" by fastforce
  have "mx_current m \<noteq> None" using s(1) mk live_iff by simp
  then show "(e = None \<and> live s') \<or> (\<exists>c. e = Some (Srs_error c) \<and> live s')"
    using s header [of m k] mk by (auto simp: muxer_on_sequence_header_def)
qed

lemma triple_write:
  "triple (ctl live) (on_muxer (write_current os (ts_write_audio (file_writer os)) msg)) (ctl live) (ctl live)"
  "triple (ctl live) (on_muxer (write_current os (ts_write_video (file_writer os)) msg)) (ctl live) (ctl live)"
proof -
  have w: "ts_write_audio (file_writer os) = (\<lambda>tscw msg. ts_encode (file_writer os) msg (tscw_vcodec tscw) (tscw_acodec tscw))"
    "ts_write_video (file_writer os) = (\<lambda>tscw msg. ts_encode (file_writer os) msg (tscw_vcodec tscw) (tscw_acodec tscw))"
    by (simp_all add: fun_eq_iff ts_write_audio_def ts_write_video_def)
  show "triple (ctl live) (on_muxer (write_current os (ts_write_audio (file_writer os)) msg)) (ctl live) (ctl live)"
    "triple (ctl live) (on_muxer (write_current os (ts_write_video (file_writer os)) msg)) (ctl live) (ctl live)"
    unfolding w by (rule triple_on_muxer [OF writes])+
qed

lemma triple_flush_step:
  assumes "triple (ctl live) w (ctl live) (ctl live)"
  shows "triple (ctl live) (andthen (on_muxer (\<lambda>(m, k). let (e, m') = update_duration dts m in (e, (m', k)))) (andthen w (\<lambda>(c, k). (None, (c\<lparr>ctl_tsmc := f c\<rparr>, k)))))
    (ctl live) (ctl live)"
  by (rule triple_andthen [OF triple_duration triple_andthen [OF assms]]) (auto intro!: tripleI)

lemma triple_flush_live: "triple (ctl live) (flush_audio os) (ctl live) (ctl live)" "triple (ctl live) (flush_video os) (ctl live) (ctl live)"
proof -
  show "triple (ctl live) (flush_audio os) (ctl live) (ctl live)"
  proof (rule triple_at)
    fix s assume "ctl live s"
    obtain c k where s: "s = (c, k)" by fastforce
    show "\<exists>g. flush_audio os s = g s \<and> triple (ctl live) g (ctl live) (ctl live)"
    proof (cases "mx_current (ctl_muxer c) = None \<or> tc_audio (ctl_tsmc c) = None \<or> SrsSimpleStream_length (ts_payload (the (tc_audio (ctl_tsmc c)))) \<le> 0")
      case True
      then have "flush_audio os s = (\<lambda>s. (None, s)) s" by (auto simp: s flush_audio_def split: option.split)
      then show ?thesis using triple_skip by blast
    next
      case False
      then obtain audio where a: "tc_audio (ctl_tsmc c) = Some audio" by auto
      show ?thesis using False triple_flush_step [OF triple_write(1), of "ts_dts audio" audio "\<lambda>c. (ctl_tsmc c)\<lparr>tc_audio := None\<rparr>"]
        by (intro exI conjI) (auto simp: s flush_audio_def a)
    qed
  qed
  show "triple (ctl live) (flush_video os) (ctl live) (ctl live)"
  proof (rule triple_at)
    fix s assume "ctl live s"
    obtain c k where s: "s = (c, k)" by fastforce
    show "\<exists>g. flush_video os s = g s \<and> triple (ctl live) g (ctl live) (ctl live)"
    proof (cases "mx_current (ctl_muxer c) = None \<or> tc_video (ctl_tsmc c) = None \<or> SrsSimpleStream_length (ts_payload (the (tc_video (ctl_tsmc c)))) \<le> 0")
      case True
      then have "flush_video os s = (\<lambda>s. (None, s)) s" by (auto simp: s flush_video_def split: option.split)
      then show ?thesis using triple_skip by blast
    next
      case False
      then obtain video where a: "tc_video (ctl_tsmc c) = Some video" by auto
      show ?thesis using False triple_flush_step [OF triple_write(2), of "ts_dts video" video "\<lambda>c. (ctl_tsmc c)\<lparr>tc_video := None\<rparr>"]
        by (intro exI conjI) (auto simp: s flush_video_def a)
    qed
  qed
qed

text \<open>Without a segment there is nothing to do.\<close>

lemma triple_flush_conf: "triple (ctl conf) (flush_audio os) (ctl conf) (ctl conf)" "triple (ctl conf) (flush_video os) (ctl conf) (ctl conf)"
proof -
  have k: "triple (ctl conf) f (ctl conf) (ctl conf)"
    if "triple (ctl live) f (ctl live) (ctl live)" "\<And>c k. mx_current (ctl_muxer c) = None \<Longrightarrow> f (c, k) = (None, (c, k))" for f
  proof (rule tripleI)
    fix s e s' assume s: "ctl conf s" "f s = (e, s')"
    obtain c k where ck: "s = (c, k)" by fastforce
    show "(e = None \<and> ctl conf s') \<or> (\<exists>c. e = Some (Srs_error c) \<and> ctl conf s')"
    proof (cases "mx_current (ctl_muxer c) = None")
      case False
      then have "ctl live s" using s(1) ck live_iff by simp
      from tripleD [OF that(1) this s(2)] show ?thesis by (auto simp: live_iff split: prod.splits)
    qed (use s ck that(2) in auto)
  qed
  show "triple (ctl conf) (flush_audio os) (ctl conf) (ctl conf)" by (rule k [OF triple_flush_live(1)]) (simp add: flush_audio_def)
  show "triple (ctl conf) (flush_video os) (ctl conf) (ctl conf)" by (rule k [OF triple_flush_live(2)]) (simp add: flush_video_def)
qed

lemma triple_publish: "triple (ctl idle) (controller_on_publish cf os r) (ctl live) (ctl conf)"
  unfolding controller_on_publish_def
proof (rule triple_andthen)
  show "triple (ctl idle) (on_muxer (update_config cf os r)) (ctl conf) (ctl conf)" by (rule triple_on_muxer [OF config])
  show "triple (ctl conf) (on_muxer (segment_open os)) (ctl live) (ctl conf)"
    by (rule triple_conseq [OF triple_on_muxer [OF opens]]) (auto simp: live_iff)
qed

lemma triple_unpublish: "triple (ctl conf) (controller_on_unpublish os) (ctl conf) (ctl conf)"
  unfolding controller_on_unpublish_def
  by (rule triple_andthen [OF triple_flush_conf(1) triple_andthen [OF triple_flush_conf(2) triple_on_muxer [OF closes]]])

lemma triple_reap: "triple (ctl live) (reap_segment os) (ctl live) (ctl live)"
proof (rule tripleI)
  fix s e s' assume s: "ctl live s" "reap_segment os s = (e, s')"
  have "ctl conf s" using s(1) by (cases s) (simp add: live_iff)
  obtain e1 s1 where c: "on_muxer (segment_close os) s = (e1, s1)" by (cases "on_muxer (segment_close os) s") blast
  from tripleD [OF triple_on_muxer [OF closes] \<open>ctl conf s\<close> c] show "(e = None \<and> ctl live s') \<or> (\<exists>c. e = Some (Srs_error c) \<and> ctl live s')"
  proof (elim disjE conjE exE)
    assume a: "e1 = None" "ctl conf s1"
    have "andthen (on_muxer (segment_open os)) (andthen (flush_video os) (flush_audio os)) s1 = (e, s')"
      using s(2) c a(1) by (simp add: reap_segment_def)
    from tripleD [OF triple_andthen [OF triple_on_muxer [OF opens] triple_andthen [OF triple_flush_live(2,1)]] a(2) this] show ?thesis .
  next
    fix x assume a: "e1 = Some (Srs_error x)" "ctl conf s1"
    obtain e2 s2 where o: "on_muxer (segment_open os) s1 = (e2, s2)" by (cases "on_muxer (segment_open os) s1") blast
    have "ctl live s2" using tripleD [OF triple_on_muxer [OF opens] a(2) o] by blast
    then show ?thesis using s(2) c a(1) o by (auto simp: reap_segment_def)
  qed
qed

lemma triple_when_overflow:
  assumes "\<And>c k. live (ctl_muxer c, k) \<Longrightarrow> \<exists>b. over c = Inr b"
  shows "triple (ctl live) (\<lambda>(c, k). when_overflow os (over c) (may c) (c, k)) (ctl live) (ctl live)"
proof (rule triple_at)
  fix s assume l: "ctl live s"
  obtain c k where s: "s = (c, k)" by fastforce
  then obtain b where b: "over c = Inr b" using l assms by auto
  show "\<exists>g. (\<lambda>(c, k). when_overflow os (over c) (may c) (c, k)) s = g s \<and> triple (ctl live) g (ctl live) (ctl live)"
  proof (cases "b \<and> may c")
    case True
    then show ?thesis using triple_reap by (intro exI [of _ "reap_segment os"]) (simp add: s b when_overflow_def)
  next
    case False
    then show ?thesis by (intro exI [of _ "\<lambda>s. (None, s)"]) (auto simp: s b when_overflow_def triple_skip)
  qed
qed

lemma overflow_defined:
  assumes "live (m, k)"
  shows "\<exists>b. is_segment_overflow m = Inr b" "\<exists>b. is_segment_absolutely_overflow m = Inr b"
  using assms by (auto simp: live_iff is_segment_overflow_def is_segment_absolutely_overflow_def)

text \<open>Frames of AAC and H.264.\<close>

lemma triple_write_audio:
  assumes "ac_id codec = SrsAudioCodecIdAAC"
  shows "triple (ctl live) (write_audio os (Some codec) frame dts) (ctl live) (ctl live)"
proof (rule triple_at)
  fix s assume l: "ctl live s"
  obtain c k where s: "s = (c, k)" by fastforce
  define m1 where "m1 = (if latest_acodec (ctl_muxer c) \<noteq> ac_id codec then set_latest_acodec (ac_id codec) (ctl_muxer c) else ctl_muxer c)"
  obtain e tc audio where a: "cache_audio (Some codec) frame dts (ctl_tsmc c) = (e, tc)" "tc_audio tc = Some audio" "e = None \<or> (\<exists>x. e = Some (Srs_error x))"
    using cache_audio_result by blast
  let ?c = "c\<lparr>ctl_tsmc := tc, ctl_muxer := m1\<rparr>"
  have m1: "live (m1, k)" using l s acodec assms by (simp add: m1_def)
  let ?rest = "andthen (on_muxer (\<lambda>(m, k). let (e, m') = update_duration (ts_dts audio) m in (e, (m', k))))
    (andthen (\<lambda>(c, k). when_overflow os (is_segment_absolutely_overflow (ctl_muxer c)) True (c, k)) (flush_audio os))"
  have r: "triple (ctl live) ?rest (ctl live) (ctl live)"
    by (rule triple_andthen [OF triple_duration triple_andthen [OF triple_when_overflow
        [of "\<lambda>c. is_segment_absolutely_overflow (ctl_muxer c)" "\<lambda>_. True"] triple_flush_live(1)]]) (rule overflow_defined)
  show "\<exists>g. write_audio os (Some codec) frame dts s = g s \<and> triple (ctl live) g (ctl live) (ctl live)"
  proof (cases e)
    case None
    obtain e2 s2 where x: "?rest (?c, k) = (e2, s2)" by (cases "?rest (?c, k)") blast
    have "write_audio os (Some codec) frame dts s = ?rest (?c, k)" by (simp add: s write_audio_def a None m1_def Let_def)
    moreover have "ctl live (?c, k)" using m1 by simp
    ultimately show ?thesis using tripleD [OF r _ x] x
      by (intro exI [of _ "\<lambda>_. (e2, s2)"]) (auto intro!: tripleI)
  next
    case (Some y)
    then show ?thesis using a m1
      by (intro exI [of _ "\<lambda>_. (e, (?c, k))"]) (auto simp: s write_audio_def m1_def Let_def intro!: tripleI)
  qed
qed

lemma triple_write_video:
  assumes "vc_id codec = SrsVideoCodecIdAVC" and "[] \<notin> set (vf_samples frame)"
  shows "triple (ctl live) (write_video os (Some codec) frame dts) (ctl live) (ctl live)"
proof (rule triple_at)
  fix s assume l: "ctl live s"
  obtain c k where s: "s = (c, k)" by fastforce
  define m1 where "m1 = (if latest_vcodec (ctl_muxer c) \<noteq> vc_id codec then set_latest_vcodec (vc_id codec) (ctl_muxer c) else ctl_muxer c)"
  obtain e tc video where a: "cache_video (Some codec) frame dts (ctl_tsmc c) = (e, tc)" "tc_video tc = Some video" "e = None \<or> (\<exists>x. e = Some (Srs_error x))"
    using cache_video_result [OF assms(2)] by blast
  let ?c = "c\<lparr>ctl_tsmc := tc, ctl_muxer := m1\<rparr>"
  have m1: "live (m1, k)" using l s vcodec assms(1) by (simp add: m1_def)
  let ?rest = "andthen (on_muxer (\<lambda>(m, k). let (e, m') = update_duration (ts_dts video) m in (e, (m', k))))
    (andthen (\<lambda>(c, k). when_overflow os (is_segment_overflow (ctl_muxer c)) (\<not> mx_hls_wait_keyframe (ctl_muxer c) \<or> frame_type frame = SrsVideoAvcFrameTypeKeyFrame) (c, k)) (flush_video os))"
  have r: "triple (ctl live) ?rest (ctl live) (ctl live)"
    by (rule triple_andthen [OF triple_duration triple_andthen [OF triple_when_overflow
        [of "\<lambda>c. is_segment_overflow (ctl_muxer c)" "\<lambda>c. \<not> mx_hls_wait_keyframe (ctl_muxer c) \<or> frame_type frame = SrsVideoAvcFrameTypeKeyFrame"]
          triple_flush_live(2)]]) (rule overflow_defined)
  show "\<exists>g. write_video os (Some codec) frame dts s = g s \<and> triple (ctl live) g (ctl live) (ctl live)"
  proof (cases e)
    case None
    obtain e2 s2 where x: "?rest (?c, k) = (e2, s2)" by (cases "?rest (?c, k)") blast
    have "write_video os (Some codec) frame dts s = ?rest (?c, k)" by (simp add: s write_video_def a None m1_def Let_def)
    moreover have "ctl live (?c, k)" using m1 by simp
    ultimately show ?thesis using tripleD [OF r _ x] x
      by (intro exI [of _ "\<lambda>_. (e2, s2)"]) (auto intro!: tripleI)
  next
    case (Some y)
    then show ?thesis using a m1
      by (intro exI [of _ "\<lambda>_. (e, (?c, k))"]) (auto simp: s write_video_def m1_def Let_def intro!: tripleI)
  qed
qed

text \<open>The writer as a whole: after it was initialized, every call comes back, whether it is published or not.\<close>

definition hls_inv :: "SrsHls \<times> 'k \<Rightarrow> bool" where
  "hls_inv = (\<lambda>(h, k). hls_req h = Some r \<and> (if hls_enabled h then live (ctl_muxer (hls_controller h), k) else idle (ctl_muxer (hls_controller h), k)))"

lemma hls_frames:
  shows "triple hls_inv (hls_on_audio os m f) hls_inv hls_inv" and "format_ok f \<Longrightarrow> triple hls_inv (hls_on_video os m f) hls_inv hls_inv"
proof -
  have k: "triple hls_inv g hls_inv hls_inv"
    if "\<And>h k. \<not> hls_enabled h \<Longrightarrow> g (h, k) = (None, (h, k))"
      "\<And>h k. hls_enabled h \<Longrightarrow> g (h, k) = (None, (h, k)) \<or> (\<exists>w. g (h, k) = on_controller w (h, k) \<and> triple (ctl live) w (ctl live) (ctl live))" for g
  proof (rule tripleI)
    fix s e s' assume i: "hls_inv s" and g: "g s = (e, s')"
    obtain h k where s: "s = (h, k)" by fastforce
    show "(e = None \<and> hls_inv s') \<or> (\<exists>c. e = Some (Srs_error c) \<and> hls_inv s')"
    proof (cases "hls_enabled h")
      case True
      from that(2) [OF True, of k] show ?thesis
      proof (elim disjE exE conjE)
        fix w assume w: "g (h, k) = on_controller w (h, k)" "triple (ctl live) w (ctl live) (ctl live)"
        from tripleD [OF triple_on_controller [OF w(2), of "Some r" True], of s e s'] show ?thesis
          using i g w(1) True by (auto simp: s hls_inv_def split: prod.splits)
      qed (use i g s in auto)
    qed (use i g s that(1) in auto)
  qed
  show "triple hls_inv (hls_on_audio os m f) hls_inv hls_inv"
  proof (rule k, goal_cases)
    case (2 h k)
    then show ?case using triple_header triple_write_audio
      by (cases "fmt_acodec f"; cases "fmt_audio f") (auto simp: hls_on_audio_def)
  qed (simp add: hls_on_audio_def)
  assume "format_ok f"
  then show "triple hls_inv (hls_on_video os m f) hls_inv hls_inv"
  proof (intro k, goal_cases)
    case (2 h k)
    then show ?case using triple_header triple_write_video
      by (cases "fmt_vcodec f"; cases "fmt_video f") (auto simp: hls_on_video_def format_ok_def)
  qed (simp add: hls_on_video_def)
qed

lemma live_conf: "live s \<Longrightarrow> conf s" and live_idle: "live s \<Longrightarrow> idle s"
  using conf_idle by (cases s; simp add: live_iff)+

lemma hls_publish: "triple hls_inv (hls_on_publish cf os) hls_inv hls_inv"
proof (rule tripleI)
  fix s e s' assume i: "hls_inv s" and p: "hls_on_publish cf os s = (e, s')"
  obtain h k where s: "s = (h, k)" by fastforce
  obtain e1 c k1 where c: "controller_on_publish cf os r (hls_controller h, k) = (e1, c, k1)" by (metis prod_cases3)
  have idle: "ctl idle (hls_controller h, k)" using i live_idle by (auto simp: s hls_inv_def split: if_splits)
  have keep: "ctl live (c, k1)" if "hls_enabled h"
  proof -
    have l: "ctl live (hls_controller h, k)" using i that by (simp add: s hls_inv_def)
    have "triple (ctl live) (controller_on_publish cf os r) (ctl live) (ctl live)"
      unfolding controller_on_publish_def
      by (rule triple_andthen [OF triple_on_muxer [OF config_live] triple_conseq [OF triple_on_muxer [OF opens]]]) (auto dest: live_conf)
    from tripleD [OF this l c] show ?thesis by blast
  qed
  note k = tripleD [OF triple_publish idle c]
  show "(e = None \<and> hls_inv s') \<or> (\<exists>c. e = Some (Srs_error c) \<and> hls_inv s')"
    using p i k c keep conf_idle
    by (auto simp: s hls_inv_def hls_on_publish_def on_controller_def andthen_def split: if_splits)
qed

lemma hls_unpublish: "hls_inv s \<Longrightarrow> hls_inv (hls_on_unpublish os s)"
proof -
  assume i: "hls_inv s"
  obtain h k where s: "s = (h, k)" by fastforce
  obtain e1 c k1 where c: "controller_on_unpublish os (hls_controller h, k) = (e1, c, k1)" by (metis prod_cases3)
  show ?thesis
  proof (cases "hls_enabled h")
    case True
    then have "ctl conf (hls_controller h, k)" using i live_conf by (simp add: s hls_inv_def)
    from tripleD [OF triple_unpublish this c] have "ctl idle (c, k1)" using conf_idle by auto
    then show ?thesis using i c True by (simp add: s hls_inv_def hls_on_unpublish_def on_controller_def)
  qed (use i in \<open>simp add: s hls_on_unpublish_def\<close>)
qed

text \<open>A failed unpublish is logged only: it is an error code.\<close>

lemma unpublish_returns: "hls_inv (h, k) \<Longrightarrow> hls_enabled h \<Longrightarrow> returns (controller_on_unpublish os (hls_controller h, k))"
  by (rule triple_returns [OF triple_unpublish]) (simp add: hls_inv_def live_conf)

end

section \<open>HLS never fails otherwise than with an error code\<close>

definition mux_idle :: "SrsHlsMuxer \<times> 'k \<Rightarrow> bool" where
  "mux_idle = (\<lambda>(m, _). \<forall>seg. mx_current m = Some seg \<longrightarrow> seg_tscw seg \<noteq> None)"

definition mux_conf :: "SrsHlsMuxer \<times> 'k \<Rightarrow> bool" where
  "mux_conf = (\<lambda>(m, k). mux_idle (m, k) \<and> mx_req m \<noteq> None)"

definition mux_live :: "SrsHlsMuxer \<times> 'k \<Rightarrow> bool" where
  "mux_live = (\<lambda>(m, k). mux_conf (m, k) \<and> mx_current m \<noteq> None)"

lemmas mux_defs = mux_live_def mux_conf_def mux_idle_def

lemma new_segment_tscw: "seg_tscw (new_segment r m) \<noteq> None"
  by (simp add: new_segment_def SrsHlsSegment_new_def SrsFragment.defs Let_def)

lemma create_dir_returns: "returns (srs_create_dir_recursively os dir k)"
proof (induction "length dir" arbitrary: dir k rule: less_induct)
  case less
  have m: "returns (case os_mkdir os dir k of (a, k') \<Rightarrow> (if a = Mkdir_failed then Some (Srs_error ERROR_HLS_CREATE_DIR) else None, k'))" for k
    by (auto split: prod.split)
  have p: "returns ((case rfind_char (CHR ''/'') dir of Some pos \<Rightarrow> if pos \<noteq> 0 then srs_create_dir_recursively os (take pos dir) else (\<lambda>k. (None, k))
        | None \<Rightarrow> (\<lambda>k. (None, k))) k)" for k
    using less.hyps rfind_char_less [of "CHR ''/''" dir] by (auto split: option.split)
  show ?case by (subst srs_create_dir_recursively.simps) (simp add: returns_andthen m p)
qed

lemma fragment_create_dir_returns: "returns (fragment_create_dir os f k)"
  by (auto simp: fragment_create_dir_def Let_def create_dir_returns split: option.split)

lemma fw_open_returns: "returns (fw_open os p fk)" and fw_write_returns: "returns (fw_write os bs fk)"
  by (auto simp: fw_open_def fw_write_def Let_def split: prod.split option.split)

lemma refresh_m3u8_returns: "returns (refresh_m3u8 os m k)"
proof -
  have w: "returns (write_m3u8 os p m k)" for p k
  proof (cases "fragments (mx_segments m)")
    case (Cons seg segs)
    have "returns (andthen (fw_open os p) (fw_write os (string_bytes (m3u8_content seg m))) (SrsFileWriter_new, k))"
      by (intro returns_andthen fw_open_returns fw_write_returns)
    then show ?thesis using Cons by (auto simp: write_m3u8_def Let_def returns_iff split: prod.splits)
  qed (simp add: write_m3u8_def)
  have "returns (andthen (write_m3u8 os p m) (\<lambda>k. let (renamed, k') = os_rename os p q k
      in (if renamed then None else Some (Srs_error ERROR_SYSTEM_FILE_RENAME), k')) k)" for p q
    by (rule returns_andthen [OF w]) (auto split: prod.split)
  then show ?thesis by (auto simp: refresh_m3u8_def Let_def returns_iff split: prod.split) (metis returns_iff)+
qed

lemma finish_close_safe:
  assumes "finish_close os (m, k) = (e, (m', k'))"
  shows "returns (e, ()) \<and> mx_current m' = mx_current m \<and> mx_req m' = mx_req m"
  using assms refresh_m3u8_returns [of os "m\<lparr>mx_segments := window_shrink (mx_hls_window m) (mx_segments m)\<rparr>" k]
  by (auto simp: finish_close_def Let_def returns_iff split: prod.splits)

lemma segment_close_safe: "triple mux_conf (segment_close os) mux_conf mux_conf"
proof (rule tripleI)
  fix s e s' assume s: "mux_conf s" "segment_close os s = (e, s')"
  obtain m k where mk: "s = (m, k)" by fastforce
  obtain e1 m1 k1 where d: "do_segment_close os (m, k) = (e1, (m1, k1))" by (metis prod_cases3)
  have "returns (e1, ()) \<and> mx_req m1 = mx_req m"
  proof (cases "mx_current m")
    case (Some seg)
    have u: "returns (unlink_tmpfile os seg k)" "returns (fragment_rename os seg k)"
      by (auto simp: unlink_tmpfile_def fragment_rename_def split: prod.split)
    obtain e2 k2 where u2: "unlink_tmpfile os seg k = (e2, k2)" by fastforce
    obtain e3 k3 where u3: "fragment_rename os seg k = (e3, k3)" by fastforce
    have r: "returns (e2, k2)" "returns (e3, k3)" using u u2 u3 by simp_all
    show ?thesis using d Some u2 u3 r
      by (auto simp: do_segment_close_def Let_def returns_iff split: if_splits option.splits dest!: finish_close_safe)
  qed (use d in \<open>auto simp: do_segment_close_def\<close>)
  then show "(e = None \<and> mux_conf s') \<or> (\<exists>c. e = Some (Srs_error c) \<and> mux_conf s')"
    using s d mk by (auto simp: segment_close_def mux_defs returns_iff)
qed

lemma segment_open_safe: "triple mux_conf (segment_open os) mux_live mux_live"
proof (rule tripleI)
  fix s e s' assume s: "mux_conf s" "segment_open os s = (e, s')"
  obtain m k where mk: "s = (m, k)" by fastforce
  show "(e = None \<and> mux_live s') \<or> (\<exists>c. e = Some (Srs_error c) \<and> mux_live s')"
  proof (cases "mx_current m")
    case None
    obtain r where r: "mx_req m = Some r" using s(1) mk by (auto simp: mux_conf_def)
    let ?seg = "new_segment r m"
    obtain e1 k1 where c: "fragment_create_dir os ?seg k = (e1, k1)" by fastforce
    obtain e2 w k2 where o: "fw_open os (tmppath ?seg) (mx_writer m, k1) = (e2, (w, k2))" by (metis prod_cases3)
    have "returns (e1, k1)" "returns (e2, (w, k2))"
      using fragment_create_dir_returns [of os ?seg k] fw_open_returns [of os "tmppath ?seg" "(mx_writer m, k1)"] c o by simp_all
    then show ?thesis using s(2) None r c o new_segment_tscw [of r m]
      by (auto simp: mk segment_open_def andthen_def Let_def mux_defs returns_iff split: option.splits)
  next
    case (Some seg)
    then show ?thesis using s by (auto simp: mk segment_open_def mux_defs)
  qed
qed

lemma update_config_cases:
  "\<exists>e m' k'. update_config cf os r (m, k) = (e, (m', k')) \<and> (e = None \<or> (\<exists>c. e = Some (Srs_error c)))
     \<and> mx_req m' = Some (request_copy r) \<and> mx_current m' = mx_current m"
proof -
  define p where "p = SrsFragment_new\<lparr>fr_filepath := cf_hls_path cf @ ''/''
    @ srs_path_build_stream (cf_hls_m3u8_file cf) (rq_vhost (request_copy r)) (rq_app (request_copy r)) (rq_stream (request_copy r))\<rparr>"
  obtain e k' where c: "fragment_create_dir os p k = (e, k')" by fastforce
  have "e = None \<or> (\<exists>c. e = Some (Srs_error c))" using fragment_create_dir_returns [of os p k] c by (simp add: returns_iff)
  with c show ?thesis by (auto simp: update_config_def Let_def p_def)
qed

lemma update_config_safe:
  "triple mux_idle (update_config cf os r) mux_conf mux_conf" "triple mux_live (update_config cf os r) mux_live mux_live"
proof -
  have k: "(e = None \<or> (\<exists>c. e = Some (Srs_error c))) \<and> (mux_idle s \<longrightarrow> mux_conf s') \<and> (mux_live s \<longrightarrow> mux_live s')"
    if "update_config cf os r s = (e, s')" for s e s'
    using that update_config_cases [of cf os r "fst s" "snd s"] by (cases s) (auto simp: mux_defs)
  show "triple mux_idle (update_config cf os r) mux_conf mux_conf" by (rule tripleI) (use k in blast)
  show "triple mux_live (update_config cf os r) mux_live mux_live" by (rule tripleI) (use k in blast)
qed

lemma write_current_safe:
  "triple mux_live (write_current os (\<lambda>tscw msg. ts_encode (file_writer os) msg (tscw_vcodec tscw) (tscw_acodec tscw)) msg) mux_live mux_live"
proof (rule tripleI)
  fix s e s' assume s: "mux_live s"
    "write_current os (\<lambda>tscw msg. ts_encode (file_writer os) msg (tscw_vcodec tscw) (tscw_acodec tscw)) msg s = (e, s')"
  obtain m k where mk: "s = (m, k)" by fastforce
  obtain tscw where t: "current_tscw m = Some tscw" using s(1) by (auto simp: mk mux_defs current_tscw_def)
  obtain e1 x w k1 where w: "ts_encode (file_writer os) msg (tscw_vcodec tscw) (tscw_acodec tscw) (mx_context m, mx_writer m, k) = (e1, (x, w, k1))"
    by (metis prod_cases4)
  then have "returns (e1, (x, w, k1))" using ts_encode_returns by metis
  then show "(e = None \<and> mux_live s') \<or> (\<exists>c. e = Some (Srs_error c) \<and> mux_live s')"
    using s t w by (auto simp: mk write_current_def returns_iff mux_defs)
qed

lemma append_segment [simp]: "seg_tscw (fragment_append t seg) = seg_tscw seg" "seg_uri (fragment_append t seg) = seg_uri seg"
  "seg_sequence_no (fragment_append t seg) = seg_sequence_no seg"
  by (simp_all add: fragment_append_def Let_def)

interpretation mux: muxer_invariant cf os r mux_idle mux_conf mux_live
  for cf :: SrsSimpleConfig and os :: "'k os_files" and r :: SrsRequest
  by (unfold_locales; (rule update_config_safe segment_close_safe segment_open_safe write_current_safe | auto simp: mux_defs current_tscw_def
    update_duration_def muxer_on_sequence_header_def set_latest_acodec_def set_latest_vcodec_def set_tscw_def split: option.splits))

text \<open>The state of HLS before and after it was initialized, for the hub.\<close>

definition hls_new :: "SrsHls \<times> 'k \<Rightarrow> bool" where
  "hls_new = (\<lambda>(h, k). \<not> hls_enabled h \<and> mux_idle (ctl_muxer (hls_controller h), k))"

definition hls_ok :: "SrsHls \<times> 'k \<Rightarrow> bool" where
  "hls_ok = (\<lambda>(h, k). hls_req h \<noteq> None \<and> (if hls_enabled h then mux_live (ctl_muxer (hls_controller h), k) else mux_idle (ctl_muxer (hls_controller h), k)))"

lemma hls_ok_iff: "hls_ok s \<longleftrightarrow> (\<exists>r. mux.hls_inv r s)"
  by (cases s) (auto simp: hls_ok_def mux.hls_inv_def)

lemma hls_handler_safe: "handler_safe hls_new hls_ok (hls_handler cf os)"
proof -
  have t: "triple hls_ok f hls_ok hls_ok" if "\<And>r. triple (mux.hls_inv r) f (mux.hls_inv r) (mux.hls_inv r)"
    for f :: "SrsHls \<times> 'a \<Rightarrow> (SrsHls \<times> 'a) outcome"
  proof (rule tripleI)
    fix s e s' assume s: "hls_ok s" "f s = (e, s')"
    then obtain r where "mux.hls_inv r s" by (auto simp: hls_ok_iff)
    from tripleD [OF that this s(2)] show "(e = None \<and> hls_ok s') \<or> (\<exists>c. e = Some (Srs_error c) \<and> hls_ok s')" by (auto simp: hls_ok_iff)
  qed
  have "triple hls_new (sh_initialize (hls_handler cf os) r) hls_ok hls_ok" for r
    by (rule tripleI) (auto simp: hls_handler_def hls_initialize_def hls_new_def hls_ok_def)
  moreover have "triple hls_ok (sh_on_publish (hls_handler cf os)) hls_ok hls_ok"
    using t [OF mux.hls_publish] by (simp add: hls_handler_def)
  moreover have "hls_ok h \<Longrightarrow> hls_ok (sh_on_unpublish (hls_handler cf os) h)" for h
  proof -
    assume "hls_ok h"
    then obtain r where "mux.hls_inv r h" by (auto simp: hls_ok_iff)
    from mux.hls_unpublish [OF this, of os] show ?thesis unfolding hls_ok_iff by (intro exI [of _ r]) (simp add: hls_handler_def)
  qed
  moreover have "triple hls_ok (sh_on_audio (hls_handler cf os) m f) hls_ok hls_ok" for m f
    using t [OF mux.hls_frames(1)] by (simp add: hls_handler_def)
  moreover have "triple hls_ok (sh_on_video (hls_handler cf os) m f) hls_ok hls_ok" if "format_ok f" for m f
    using t [OF mux.hls_frames(2) [OF that]] by (simp add: hls_handler_def)
  ultimately show ?thesis unfolding handler_safe_def by blast
qed

end
