(* ===== verification/HlsFiles.thy ===== *)
theory HlsFiles
  imports HlsSafe
begin

text \<open>
  The segments and the playlist of a stream on a disk where any call may fail: names of files, what every operation of the muxer
  does to the disk (the locale \<open>hls_files\<close>), and what holds of the window, the files and the playlist in every state that HLS reaches.
\<close>

section \<open>Names of files\<close>

text \<open>Replacing behind a part without an opening bracket.\<close>

lemma find_sub_skip: "CHR ''['' \<notin> set a \<Longrightarrow> find_sub (CHR ''['' # p) (a @ s) = map_option (\<lambda>n. length a + n) (find_sub (CHR ''['' # p) s)"
proof (induction a)
  case (Cons c a)
  then have "\<not> prefix (CHR ''['' # p) ((c # a) @ s)" by auto
  then show ?case using Cons by (subst find_sub.simps) (cases "find_sub (CHR ''['' # p) s", auto)
qed (cases "find_sub (CHR ''['' # p) s"; simp)

lemma replace_loop_skip: "CHR ''['' \<notin> set a \<Longrightarrow> replace_loop (CHR ''['' # p) new (a @ s) = a @ replace_loop (CHR ''['' # p) new s"
  by (subst (1 2) replace_loop.simps) (auto simp: find_sub_skip split: option.split)

lemma replace_loop_here: "replace_loop (CHR ''['' # p) new ((CHR ''['' # p) @ s) = new @ replace_loop (CHR ''['' # p) new s"
proof -
  have "find_sub (CHR ''['' # p) ((CHR ''['' # p) @ s) = Some 0" by (simp add: find_sub.simps)
  then show ?thesis by (subst replace_loop.simps) simp
qed

lemma replace_loop_nil: "replace_loop (CHR ''['' # p) new [] = []"
  by (subst replace_loop.simps) (simp add: find_sub.simps)


lemma replace_loop_none: "\<not> sublist old s \<Longrightarrow> replace_loop old new s = s"
  using find_sub_None [of old s] by (simp add: replace_loop.simps)

text \<open>The names of the files: for a stream whose application and name hold no opening bracket.\<close>

definition plain_names :: "SrsRequest \<Rightarrow> bool" where
  "plain_names r \<longleftrightarrow> CHR ''['' \<notin> set (rq_app r) \<and> CHR ''['' \<notin> set (rq_stream r)"

definition ts_path :: "SrsSimpleConfig \<Rightarrow> SrsRequest \<Rightarrow> int \<Rightarrow> string" where
  "ts_path cf r n = cf_hls_path cf @ ''/'' @ srs_string_replace (srs_path_build_stream (cf_hls_ts_file cf) (rq_vhost r) (rq_app r) (rq_stream r))
     ''[seq]'' (show_int n)"

definition m3u8_path :: "SrsSimpleConfig \<Rightarrow> SrsRequest \<Rightarrow> string" where
  "m3u8_path cf r = cf_hls_path cf @ ''/'' @ srs_path_build_stream (cf_hls_m3u8_file cf) (rq_vhost r) (rq_app r) (rq_stream r)"

lemma show_int_plain: "CHR ''['' \<notin> set (show_int n)"
proof -
  have "\<not> is_digit (CHR ''['')" by (simp add: is_digit_def)
  then have "CHR ''['' \<notin> set (decimal m)" for m using decimal_digits [of m] by (auto simp: list_all_iff)
  then show ?thesis by (simp add: show_int_def)
qed

lemma replace_plain: "CHR ''['' \<notin> set new \<Longrightarrow> srs_string_replace s (CHR ''['' # p) new = replace_loop (CHR ''['' # p) new s"
  by (auto simp: srs_string_replace_def)

lemma ts_path_eq:
  assumes "plain_names r"
  shows "ts_path srs_config r n = ''./objs/hls/'' @ rq_app r @ ''/'' @ rq_stream r @ ''-'' @ show_int n @ ''.ts''"
proof -
  have p: "CHR ''['' \<notin> set (rq_app r @ ''/'')" "CHR ''['' \<notin> set (rq_app r)" "CHR ''['' \<notin> set (rq_stream r)"
    "CHR ''['' \<notin> set (rq_app r @ ''/'' @ rq_stream r @ ''-'')" using assms by (simp_all add: plain_names_def)
  have v: "srs_string_replace ''[app]/[stream]-[seq].ts'' ''[vhost]'' (rq_vhost r) = ''[app]/[stream]-[seq].ts''"
    by (rule replace_none) code_simp
  have a: "srs_string_replace ''[app]/[stream]-[seq].ts'' ''[app]'' (rq_app r) = (rq_app r @ ''/'') @ ''[stream]-[seq].ts''"
  proof -
    have "\<not> sublist ''[app]'' ''/[stream]-[seq].ts''" by code_simp
    with replace_loop_here [of "''app]''" "rq_app r" "''/[stream]-[seq].ts''"] show ?thesis
      by (simp add: replace_plain [OF p(2)] replace_loop_none)
  qed
  have st: "srs_string_replace ((rq_app r @ ''/'') @ ''[stream]-[seq].ts'') ''[stream]'' (rq_stream r) = (rq_app r @ ''/'' @ rq_stream r @ ''-'') @ ''[seq].ts''"
  proof -
    have "\<not> sublist ''[stream]'' ''-[seq].ts''" by code_simp
    with replace_loop_here [of "''stream]''" "rq_stream r" "''-[seq].ts''"] show ?thesis
      unfolding replace_plain [OF p(3)] replace_loop_skip [OF p(1)] by (simp add: replace_loop_none)
  qed
  have sq: "srs_string_replace ((rq_app r @ ''/'' @ rq_stream r @ ''-'') @ ''[seq].ts'') ''[seq]'' (show_int n)
      = (rq_app r @ ''/'' @ rq_stream r @ ''-'') @ show_int n @ ''.ts''"
  proof -
    have "\<not> sublist ''[seq]'' ''.ts''" by code_simp
    with replace_loop_here [of "''seq]''" "show_int n" "''.ts''"] show ?thesis
      unfolding replace_plain [OF show_int_plain] replace_loop_skip [OF p(4)] by (simp add: replace_loop_none)
  qed
  show ?thesis unfolding ts_path_def srs_path_build_stream_def srs_config_def SrsSimpleConfig.simps v a st sq by simp
qed

lemma m3u8_path_eq:
  assumes "plain_names r"
  shows "m3u8_path srs_config r = ''./objs/hls/'' @ rq_app r @ ''/'' @ rq_stream r @ ''.m3u8''"
proof -
  have p: "CHR ''['' \<notin> set (rq_app r @ ''/'')" "CHR ''['' \<notin> set (rq_app r)" "CHR ''['' \<notin> set (rq_stream r)"
    using assms by (simp_all add: plain_names_def)
  have v: "srs_string_replace ''[app]/[stream].m3u8'' ''[vhost]'' (rq_vhost r) = ''[app]/[stream].m3u8''"
    by (rule replace_none) code_simp
  have a: "srs_string_replace ''[app]/[stream].m3u8'' ''[app]'' (rq_app r) = (rq_app r @ ''/'') @ ''[stream].m3u8''"
  proof -
    have "\<not> sublist ''[app]'' ''/[stream].m3u8''" by code_simp
    with replace_loop_here [of "''app]''" "rq_app r" "''/[stream].m3u8''"] show ?thesis
      by (simp add: replace_plain [OF p(2)] replace_loop_none)
  qed
  have st: "srs_string_replace ((rq_app r @ ''/'') @ ''[stream].m3u8'') ''[stream]'' (rq_stream r) = (rq_app r @ ''/'') @ rq_stream r @ ''.m3u8''"
  proof -
    have "\<not> sublist ''[stream]'' ''.m3u8''" by code_simp
    with replace_loop_here [of "''stream]''" "rq_stream r" "''.m3u8''"] show ?thesis
      unfolding replace_plain [OF p(3)] replace_loop_skip [OF p(1)] by (simp add: replace_loop_none)
  qed
  show ?thesis unfolding m3u8_path_def srs_path_build_stream_def srs_config_def SrsSimpleConfig.simps v a st by simp
qed

text \<open>No two files of a stream have the same name.\<close>

definition names_apart :: "SrsSimpleConfig \<Rightarrow> SrsRequest \<Rightarrow> bool" where
  "names_apart cf r \<longleftrightarrow> (\<forall>n m. 0 \<le> n \<longrightarrow> 0 \<le> m \<longrightarrow> (ts_path cf r n = ts_path cf r m \<longrightarrow> n = m) \<and> ts_path cf r n \<noteq> ts_path cf r m @ ''.tmp''
     \<and> ts_path cf r n \<noteq> m3u8_path cf r \<and> ts_path cf r n \<noteq> m3u8_path cf r @ ''.temp'' \<and> ts_path cf r n @ ''.tmp'' \<noteq> m3u8_path cf r)"

lemma last_neq: "last xs \<noteq> last ys \<Longrightarrow> xs \<noteq> ys"
  by auto

lemma plain_names_apart: "plain_names r \<Longrightarrow> names_apart srs_config r"
  by (auto simp: names_apart_def ts_path_eq m3u8_path_eq show_int_eq_iff intro!: last_neq dest: arg_cong [of _ _ last])

section \<open>What HLS does to the disk\<close>

context file_system
begin

text \<open>The playlist is replaced as a whole or not at all; only it and the temporary file next to it change.\<close>

lemma write_m3u8_files:
  assumes "write_m3u8 os p m k = (e, k')" and "fragments (mx_segments m) = seg # segs"
  shows "(\<forall>q. q \<noteq> p \<longrightarrow> files k' q = files k q) \<and> (e = None \<longrightarrow> files k' p = Some (string_bytes (m3u8_content seg m)))"
proof -
  let ?bs = "string_bytes (m3u8_content seg m)"
  obtain e1 w1 k1 where o: "fw_open os p (SrsFileWriter_new, k) = (e1, (w1, k1))" by (metis prod_cases3)
  note o' = fw_open_files [OF o]
  show ?thesis
  proof (cases e1)
    case None
    then have w1: "fp w1 = Some p" "files k1 = (files k)(p \<mapsto> [])" using o' by auto
    obtain e2 w2 k2 where w: "fw_write os ?bs (w1, k1) = (e2, (w2, k2))" by (metis prod_cases3)
    have "e = e2" "k' = k2" using assms o w None by (auto simp: write_m3u8_def andthen_def)
    then show ?thesis using fw_write_files [OF w] w1 by (auto split: if_splits)
  next
    case (Some x)
    then have "e = Some x" "k' = k1" using assms o by (auto simp: write_m3u8_def andthen_def)
    then show ?thesis using o' Some by auto
  qed
qed

lemma refresh_m3u8_files:
  assumes "refresh_m3u8 os m k = (e, k')"
  shows "(\<forall>p. p \<noteq> mx_m3u8 m @ ''.temp'' \<longrightarrow> p \<noteq> mx_m3u8 m \<longrightarrow> files k' p = files k p)
    \<and> (fragments (mx_segments m) = [] \<longrightarrow> e = None \<and> files k' = files k)
    \<and> (\<forall>seg segs. fragments (mx_segments m) = seg # segs \<longrightarrow>
        (e = None \<and> files k' (mx_m3u8 m) = Some (string_bytes (m3u8_content seg m)))
        \<or> (e \<noteq> None \<and> files k' (mx_m3u8 m) = files k (mx_m3u8 m)))"
proof (cases "fragments (mx_segments m)")
  case Nil
  then show ?thesis using assms by (simp add: refresh_m3u8_def)
next
  case (Cons seg segs)
  let ?t = "mx_m3u8 m @ ''.temp''" and ?p = "mx_m3u8 m"
  have ne: "?t \<noteq> ?p" by simp
  obtain e1 k1 where w: "write_m3u8 os ?t m k = (e1, k1)" by fastforce
  note w' = write_m3u8_files [OF w Cons]
  obtain r k2 where r: "os_rename os ?t ?p k1 = (r, k2)" by fastforce
  note r' = rename [OF r]
  define e3 where "e3 = (if e1 = None then (if r then None else Some (Srs_error ERROR_SYSTEM_FILE_RENAME)) else e1)"
  define k3 where "k3 = (if e1 = None then k2 else k1)"
  have t: "andthen (write_m3u8 os ?t m)
       (\<lambda>k. let (renamed, k') = os_rename os ?t ?p k in (if renamed then None else Some (Srs_error ERROR_SYSTEM_FILE_RENAME), k')) k = (e3, k3)"
    using w r by (auto simp: andthen_def e3_def k3_def split: option.split)
  have k3: "(\<forall>q. q \<noteq> ?t \<longrightarrow> q \<noteq> ?p \<longrightarrow> files k3 q = files k q)"
    "(e3 = None \<and> files k3 ?p = Some (string_bytes (m3u8_content seg m))) \<or> (e3 \<noteq> None \<and> files k3 ?p = files k ?p)"
    using w' r' ne by (auto simp: e3_def k3_def split: option.splits if_splits)
  obtain u k4 where u: "os_unlink os ?t k3 = (u, k4)" by fastforce
  have k': "e = e3 \<and> k' = (if srs_path_exists os ?t k3 then k4 else k3)"
    using assms Cons t u by (auto simp: refresh_m3u8_def Let_def)
  have "\<forall>q. q \<noteq> ?t \<longrightarrow> files k4 q = files k3 q" using unlink [OF u] by simp
  then have "\<forall>q. q \<noteq> ?t \<longrightarrow> files k' q = files k3 q" using k' by simp
  then show ?thesis using k3 k' Cons ne by auto
qed

end

text \<open>
  The invariant. Segments have increasing numbers, below that of the next one, and the path of their number; the
  playlist is what it was at the start or lists such segments completely; the writer only has temporary files open.
\<close>

definition segment_ok :: "SrsSimpleConfig \<Rightarrow> SrsRequest \<Rightarrow> SrsHlsSegment \<Rightarrow> bool" where
  "segment_ok cf r seg \<longleftrightarrow> 0 \<le> seg_sequence_no seg \<and> fr_filepath seg = ts_path cf r (seg_sequence_no seg)
     \<and> SRS_HLS_SEGMENT_MIN_DURATION \<le> fr_dur seg \<and> fr_dur seg \<le> cf_hls_fragment cf * 3 * 1000"

definition segments_ok :: "SrsSimpleConfig \<Rightarrow> SrsRequest \<Rightarrow> SrsHlsSegment list \<Rightarrow> bool" where
  "segments_ok cf r segs \<longleftrightarrow> sorted_wrt (<) (map seg_sequence_no segs) \<and> list_all (segment_ok cf r) segs"

definition next_no :: "SrsHlsMuxer \<Rightarrow> int" where
  "next_no m = (case mx_current m of None \<Rightarrow> mx_sequence_no m | Some seg \<Rightarrow> seg_sequence_no seg)"

definition window_ok :: "SrsSimpleConfig \<Rightarrow> SrsRequest \<Rightarrow> SrsHlsMuxer \<Rightarrow> bool" where
  "window_ok cf r m \<longleftrightarrow> segments_ok cf r (fragments (mx_segments m)) \<and> expired_fragments (mx_segments m) = [] \<and> 0 \<le> next_no m
     \<and> (\<forall>seg \<in> set (fragments (mx_segments m)). seg_sequence_no seg < next_no m)
     \<and> (\<forall>seg. mx_current m = Some seg \<longrightarrow> mx_sequence_no m = seg_sequence_no seg + 1
          \<and> fr_filepath seg = ts_path cf r (seg_sequence_no seg) \<and> seg_tscw seg \<noteq> None)"

definition playlist_ok :: "SrsSimpleConfig \<Rightarrow> SrsRequest \<Rightarrow> byte list \<Rightarrow> bool" where
  "playlist_ok cf r bs \<longleftrightarrow> (\<exists>m seg segs. fragments (mx_segments m) = seg # segs \<and> segments_ok cf r (seg # segs)
     \<and> mx_max_td m = cf_hls_fragment cf \<and> bs = string_bytes (m3u8_content seg m))"

definition disk_ok :: "SrsSimpleConfig \<Rightarrow> SrsRequest \<Rightarrow> (string \<rightharpoonup> byte list) \<Rightarrow> SrsHlsMuxer \<Rightarrow> (string \<rightharpoonup> byte list) \<Rightarrow> bool" where
  "disk_ok cf r F0 m F \<longleftrightarrow> (\<forall>seg \<in> set (fragments (mx_segments m)). F (fr_filepath seg) \<noteq> None)
     \<and> (\<forall>p. fp (mx_writer m) = Some p \<longrightarrow> (\<exists>n. 0 \<le> n \<and> p = ts_path cf r n @ ''.tmp''))
     \<and> (F (m3u8_path cf r) = F0 (m3u8_path cf r) \<or> (\<exists>bs. F (m3u8_path cf r) = Some bs \<and> playlist_ok cf r bs))"

definition config_ok :: "SrsSimpleConfig \<Rightarrow> SrsRequest \<Rightarrow> SrsHlsMuxer \<Rightarrow> bool" where
  "config_ok cf r m \<longleftrightarrow> mx_req m = Some (request_copy r) \<and> mx_hls_path m = cf_hls_path cf \<and> mx_hls_ts_file m = cf_hls_ts_file cf
     \<and> mx_m3u8 m = m3u8_path cf r \<and> mx_max_td m = cf_hls_fragment cf"

lemma segments_ok_simps [simp]:
  "segments_ok cf r []"
  "segments_ok cf r (segs @ [seg]) \<longleftrightarrow> segments_ok cf r segs \<and> segment_ok cf r seg \<and> (\<forall>s \<in> set segs. seg_sequence_no s < seg_sequence_no seg)"
  by (auto simp: segments_ok_def sorted_wrt_append)

lemma segments_ok_append:
  "segments_ok cf r (xs @ ys) \<Longrightarrow> segments_ok cf r ys \<and> (\<forall>x \<in> set xs. \<forall>y \<in> set ys. seg_sequence_no x < seg_sequence_no y)
    \<and> list_all (segment_ok cf r) xs"
  by (auto simp: segments_ok_def sorted_wrt_append)

lemma ts_path_copy [simp]: "ts_path cf (request_copy r) n = ts_path cf r n" "m3u8_path cf (request_copy r) = m3u8_path cf r"
  by (simp_all add: ts_path_def m3u8_path_def request_copy_def)

lemma new_segment_fields:
  assumes "config_ok cf r m"
  shows "seg_sequence_no (new_segment (request_copy r) m) = mx_sequence_no m"
    "fr_filepath (new_segment (request_copy r) m) = ts_path cf r (mx_sequence_no m)"
    "fr_dur (new_segment (request_copy r) m) = 0"
  using assms by (simp_all add: new_segment_def config_ok_def ts_path_def Let_def request_copy_def
    SrsHlsSegment_new_def SrsFragment.defs SrsFragment_new_def)

lemma update_config_fields:
  assumes "update_config cf os r (m, k) = (e, (m', k'))"
  shows "config_ok cf r m'" "mx_segments m' = mx_segments m" "mx_writer m' = mx_writer m" "mx_current m' = mx_current m"
    "mx_sequence_no m' = mx_sequence_no m" "fragment_create_dir os (SrsFragment_new\<lparr>fr_filepath := m3u8_path cf r\<rparr>) k = (e, k')"
  using assms by (auto simp: update_config_def Let_def config_ok_def m3u8_path_def request_copy_def split: prod.splits)

locale hls_files = file_system os files for os :: "'k os_files" and files +
  fixes cf :: SrsSimpleConfig and r :: SrsRequest and F0 :: "string \<rightharpoonup> byte list"
  assumes apart: "names_apart cf r"
begin

definition files_idle :: "SrsHlsMuxer \<times> 'k \<Rightarrow> bool" where
  "files_idle = (\<lambda>(m, k). window_ok cf r m \<and> disk_ok cf r F0 m (files k))"

definition files_conf :: "SrsHlsMuxer \<times> 'k \<Rightarrow> bool" where
  "files_conf = (\<lambda>(m, k). files_idle (m, k) \<and> config_ok cf r m)"

definition files_live :: "SrsHlsMuxer \<times> 'k \<Rightarrow> bool" where
  "files_live = (\<lambda>(m, k). files_conf (m, k) \<and> mx_current m \<noteq> None)"

lemmas files_defs = files_live_def files_conf_def files_idle_def

lemma apartD:
  assumes "0 \<le> n" and "0 \<le> m"
  shows "ts_path cf r n = ts_path cf r m \<longleftrightarrow> n = m" "ts_path cf r n \<noteq> ts_path cf r m @ ''.tmp''"
  using apart assms unfolding names_apart_def by blast+

lemma apart_list:
  assumes "0 \<le> n"
  shows "ts_path cf r n \<noteq> m3u8_path cf r" "ts_path cf r n \<noteq> m3u8_path cf r @ ''.temp''" "ts_path cf r n @ ''.tmp'' \<noteq> m3u8_path cf r"
    "m3u8_path cf r \<noteq> ts_path cf r n @ ''.tmp''" "m3u8_path cf r \<noteq> ts_path cf r n"
  using apart assms unfolding names_apart_def by metis+

text \<open>A change of the disk that leaves the segments and the playlist.\<close>

lemma disk_ok_weaken:
  assumes "disk_ok cf r F0 m F" and "mx_segments m' = mx_segments m"
    and "\<And>p. fp (mx_writer m') = Some p \<Longrightarrow> \<exists>n. 0 \<le> n \<and> p = ts_path cf r n @ ''.tmp''"
    and "\<And>n. 0 \<le> n \<Longrightarrow> F (ts_path cf r n) \<noteq> None \<Longrightarrow> F' (ts_path cf r n) \<noteq> None"
    and "F' (m3u8_path cf r) = F (m3u8_path cf r)" and "segments_ok cf r (fragments (mx_segments m))"
  shows "disk_ok cf r F0 m' F'"
proof -
  have "F' (fr_filepath seg) \<noteq> None" if "seg \<in> set (fragments (mx_segments m))" for seg
  proof -
    have "segment_ok cf r seg" using that assms(6) by (auto simp: segments_ok_def list_all_iff)
    then show ?thesis using assms(1,4) that by (auto simp: disk_ok_def segment_ok_def)
  qed
  then show ?thesis using assms(1,2,3,5) by (simp add: disk_ok_def)
qed

lemma config_files:
  "triple files_idle (update_config cf os r) files_conf files_conf" "triple files_live (update_config cf os r) files_live files_live"
proof -
  have k: "(e = None \<or> (\<exists>c. e = Some (Srs_error c))) \<and> (files_idle (m, k) \<longrightarrow> files_conf (m', k')) \<and> mx_current m' = mx_current m"
    if "update_config cf os r (m, k) = (e, (m', k'))" for e m k m' k'
  proof -
    note u = update_config_fields [OF that]
    have "window_ok cf r m' = window_ok cf r m" unfolding window_ok_def next_no_def u ..
    moreover have "disk_ok cf r F0 m' F = disk_ok cf r F0 m F" for F by (simp add: disk_ok_def u)
    ultimately show ?thesis using create_dir_keeps [OF u(6)] u(1,4) by (auto simp: files_conf_def files_idle_def)
  qed
  show "triple files_idle (update_config cf os r) files_conf files_conf"
  proof (rule tripleI)
    fix s e s' assume s: "files_idle s" "update_config cf os r s = (e, s')"
    obtain m k m' k' where "s = (m, k)" "s' = (m', k')" by fastforce
    with s k show "(e = None \<and> files_conf s') \<or> (\<exists>c. e = Some (Srs_error c) \<and> files_conf s')" by blast
  qed
  show "triple files_live (update_config cf os r) files_live files_live"
  proof (rule tripleI)
    fix s e s' assume s: "files_live s" "update_config cf os r s = (e, s')"
    obtain m k m' k' where ms: "s = (m, k)" "s' = (m', k')" by fastforce
    with s have "files_idle (m, k)" "mx_current m \<noteq> None" by (auto simp: files_defs)
    with k [of m k e m' k'] s(2) ms show "(e = None \<and> files_live s') \<or> (\<exists>c. e = Some (Srs_error c) \<and> files_live s')"
      by (auto simp: files_live_def)
  qed
qed

end

context hls_files
begin

lemma open_files: "triple files_conf (segment_open os) files_live files_live"
proof (rule tripleI)
  fix s e s' assume s: "files_conf s" "segment_open os s = (e, s')"
  obtain m k where mk: "s = (m, k)" by fastforce
  have i: "window_ok cf r m" "disk_ok cf r F0 m (files k)" "config_ok cf r m" using s(1) by (simp_all add: mk files_conf_def files_idle_def)
  show "(e = None \<and> files_live s') \<or> (\<exists>c. e = Some (Srs_error c) \<and> files_live s')"
  proof (cases "mx_current m")
    case None
    let ?seg = "new_segment (request_copy r) m"
    note sg = new_segment_fields [OF i(3)]
    have n: "0 \<le> mx_sequence_no m" using i(1) None by (simp add: window_ok_def next_no_def)
    have tmp: "tmppath ?seg = ts_path cf r (mx_sequence_no m) @ ''.tmp''" by (simp add: tmppath_def sg)
    obtain e1 k1 where c: "fragment_create_dir os ?seg k = (e1, k1)" by fastforce
    note c' = create_dir_keeps [OF c]
    obtain e2 w k2 where o: "fw_open os (tmppath ?seg) (mx_writer m, k1) = (e2, (w, k2))" by (metis prod_cases3)
    note o' = fw_open_files [OF o]
    let ?m1 = "m\<lparr>mx_current := Some ?seg, mx_sequence_no := mx_sequence_no m + 1\<rparr>"
    have res: "(e = e1 \<and> e1 \<noteq> None \<and> s' = (?m1, k1)) \<or> (e1 = None \<and> e = e2 \<and> e2 \<noteq> None \<and> s' = (?m1\<lparr>mx_writer := w\<rparr>, k2))
       \<or> (e = None \<and> e2 = None \<and> s' = (?m1\<lparr>mx_writer := w, mx_context := ts_reset (mx_context m)\<rparr>, k2))"
      using s(2) None i(3) c o by (cases e1; cases e2) (auto simp: mk segment_open_def config_ok_def andthen_def Let_def)
    have w1: "window_ok cf r m1" if "mx_current m1 = Some ?seg" "mx_sequence_no m1 = mx_sequence_no m + 1" "mx_segments m1 = mx_segments m" for m1
      using i(1) None sg new_segment_tscw [of "request_copy r" m] n by (simp add: that window_ok_def next_no_def)
    have cfg: "config_ok cf r m1" if "mx_req m1 = mx_req m" "mx_hls_path m1 = mx_hls_path m" "mx_hls_ts_file m1 = mx_hls_ts_file m"
      "mx_m3u8 m1 = mx_m3u8 m" "mx_max_td m1 = mx_max_td m" for m1
      using i(3) by (simp add: that config_ok_def)
    have so: "segments_ok cf r (fragments (mx_segments m))" using i(1) by (simp add: window_ok_def)
    have dk: "disk_ok cf r F0 m1 F" if "mx_segments m1 = mx_segments m" "mx_writer m1 = mx_writer m" "F = files k" for m1 F
      by (rule disk_ok_weaken [OF i(2) that(1) _ _ _ so]) (use i(2) that in \<open>auto simp: disk_ok_def\<close>)
    have dw: "disk_ok cf r F0 m1 (files k2)" if "mx_segments m1 = mx_segments m" "mx_writer m1 = w" "e2 = None" "e1 = None" for m1
      by (rule disk_ok_weaken [OF i(2) that(1) _ _ _ so]) (use n apartD(2) apart_list o' c' tmp that in \<open>auto split: if_splits\<close>)
    have err: "(e1 = None \<or> (\<exists>c. e1 = Some (Srs_error c))) \<and> (e2 = None \<or> (\<exists>c. e2 = Some (Srs_error c)))" using c' o' by auto
    have k1: "files k1 = files k" "e2 \<noteq> None \<Longrightarrow> w = mx_writer m \<and> files k2 = files k" using c' o' by auto
    from res show ?thesis
    proof (elim disjE conjE)
      assume "e = e1" "e1 \<noteq> None" "s' = (?m1, k1)"
      then show ?thesis using err k1 w1 cfg dk by (auto simp: files_live_def files_conf_def files_idle_def)
    next
      assume "e = e2" "e2 \<noteq> None" "s' = (?m1\<lparr>mx_writer := w\<rparr>, k2)"
      then show ?thesis using err k1 w1 cfg dk by (auto simp: files_live_def files_conf_def files_idle_def)
    next
      assume a: "e = None" "e2 = None" "s' = (?m1\<lparr>mx_writer := w, mx_context := ts_reset (mx_context m)\<rparr>, k2)"
      have "e1 = None" using s(2) None i(3) c o a by (cases e1) (auto simp: mk segment_open_def config_ok_def andthen_def Let_def)
      then show ?thesis using a w1 cfg dw by (auto simp: files_live_def files_conf_def files_idle_def)
    qed
  next
    case (Some seg)
    then show ?thesis using s by (auto simp: mk segment_open_def files_live_def)
  qed
qed

text \<open>The window after a segment was closed.\<close>

lemma finish_files:
  assumes "finish_close os (m, k) = (e, (m', k'))" and "disk_ok cf r F0 m (files k)" and "segments_ok cf r (fragments (mx_segments m))"
    and "expired_fragments (mx_segments m) = []" and "config_ok cf r m"
  shows "segments_ok cf r (fragments (mx_segments m')) \<and> set (fragments (mx_segments m')) \<subseteq> set (fragments (mx_segments m))
    \<and> expired_fragments (mx_segments m') = [] \<and> disk_ok cf r F0 m' (files k') \<and> config_ok cf r m'
    \<and> mx_current m' = mx_current m \<and> mx_sequence_no m' = mx_sequence_no m \<and> (e = None \<or> (\<exists>c. e = Some (Srs_error c)))"
proof -
  define w where "w = window_shrink (mx_hls_window m) (mx_segments m)"
  define m1 where "m1 = m\<lparr>mx_segments := w\<rparr>"
  obtain old where old: "fragments (mx_segments m) = old @ fragments w" "expired_fragments w = old"
    using window_shrink_split [of "mx_segments m" "mx_hls_window m"] assms(4) by (auto simp: w_def)
  obtain e1 k1 where rf: "refresh_m3u8 os m1 k = (e1, k1)" by fastforce
  obtain w2 k2 where cl: "clear_expired os (mx_hls_cleanup m1) (w, k1) = (w2, k2)" by fastforce
  have res: "e = e1" "m' = m1\<lparr>mx_segments := w2\<rparr>" "k' = k2"
    using assms(1) rf cl by (auto simp: finish_close_def Let_def w_def m1_def)
  note cl' = clear_expired_files [OF cl]
  note rf' = refresh_m3u8_files [OF rf]
  have m3: "mx_m3u8 m1 = m3u8_path cf r" "mx_max_td m1 = cf_hls_fragment cf" using assms(5) by (simp_all add: config_ok_def m1_def)
  have so: "segments_ok cf r (fragments w)" "\<forall>x \<in> set old. \<forall>y \<in> set (fragments w). seg_sequence_no x < seg_sequence_no y"
      "list_all (segment_ok cf r) old"
    using segments_ok_append [of cf r old "fragments w"] assms(3) old(1) by auto
  have seg: "0 \<le> seg_sequence_no x \<and> fr_filepath x = ts_path cf r (seg_sequence_no x)" if "x \<in> set old \<union> set (fragments w)" for x
    using that so(1,3) by (auto simp: segments_ok_def list_all_iff segment_ok_def)
  have keep: "files k2 (fr_filepath x) \<noteq> None" if x: "x \<in> set (fragments w)" for x
  proof -
    have p: "0 \<le> seg_sequence_no x" "fr_filepath x = ts_path cf r (seg_sequence_no x)" using seg [of x] x by auto
    have "files k (fr_filepath x) \<noteq> None" using x old(1) assms(2) by (auto simp: disk_ok_def)
    then have "files k1 (fr_filepath x) \<noteq> None" using rf' apart_list [OF p(1)] p(2) m3 by auto
    moreover have "fr_filepath x \<notin> fr_filepath ` set old"
    proof
      assume "fr_filepath x \<in> fr_filepath ` set old"
      then obtain y where y: "y \<in> set old" "fr_filepath y = fr_filepath x" unfolding image_iff by metis
      then have y': "0 \<le> seg_sequence_no y" "fr_filepath y = ts_path cf r (seg_sequence_no y)" using seg [of y] by auto
      have "ts_path cf r (seg_sequence_no y) = ts_path cf r (seg_sequence_no x)" using y(2) unfolding y'(2) p(2) .
      then have "seg_sequence_no y = seg_sequence_no x" using apartD(1) [OF y'(1) p(1)] by blast
      moreover have "seg_sequence_no y < seg_sequence_no x" using so(2) y(1) x by blast
      ultimately show False by simp
    qed
    moreover have "files k2 (fr_filepath x) = files k1 (fr_filepath x) \<or> fr_filepath x \<in> fr_filepath ` set old"
      using cl'(3) [of "fr_filepath x"] unfolding old(2) by blast
    ultimately show ?thesis by simp
  qed
  have m3old: "m3u8_path cf r \<notin> fr_filepath ` set old"
  proof
    assume "m3u8_path cf r \<in> fr_filepath ` set old"
    then obtain y where y: "y \<in> set old" "m3u8_path cf r = fr_filepath y" by blast
    from y(1) have "0 \<le> seg_sequence_no y" "fr_filepath y = ts_path cf r (seg_sequence_no y)" using seg [of y] by auto
    then show False using y(2) apart_list(5) by simp
  qed
  have "files k2 (m3u8_path cf r) = files k1 (m3u8_path cf r)" using cl'(3) [of "m3u8_path cf r"] m3old unfolding old(2) by blast
  moreover have "files k1 (m3u8_path cf r) = files k (m3u8_path cf r) \<or> (\<exists>bs. files k1 (m3u8_path cf r) = Some bs \<and> playlist_ok cf r bs)"
  proof (cases "fragments w")
    case Nil
    then show ?thesis using rf' by (simp add: m1_def)
  next
    case (Cons sg sgs)
    then have "fragments (mx_segments m1) = sg # sgs" by (simp add: m1_def)
    then show ?thesis using rf' m3 so(1) Cons unfolding playlist_ok_def by metis
  qed
  ultimately have pl: "files k2 (m3u8_path cf r) = F0 (m3u8_path cf r) \<or> (\<exists>bs. files k2 (m3u8_path cf r) = Some bs \<and> playlist_ok cf r bs)"
    using assms(2) unfolding disk_ok_def by metis
  have "returns (e1, k1)" using refresh_m3u8_returns [of os m1 k] rf by simp
  then have err: "e1 = None \<or> (\<exists>c. e1 = Some (Srs_error c))" by (simp add: returns_iff)
  have "disk_ok cf r F0 m' (files k')" using keep pl assms(2) cl'(1) by (simp add: disk_ok_def res m1_def)
  then show ?thesis using so(1) cl'(1,2) old(1) err assms(5) by (simp add: res m1_def config_ok_def)
qed

end

context hls_files
begin

lemma writer_closed [simp]: "fp (fw_close w) = None"
  by (simp add: fw_close_def)

lemma close_parts:
  assumes "files_conf (m, k)" and "mx_current m = Some seg"
  shows "window_ok cf r m" "disk_ok cf r F0 m (files k)" "config_ok cf r m" "segments_ok cf r (fragments (mx_segments m))"
    "expired_fragments (mx_segments m) = []" "0 \<le> seg_sequence_no seg" "fr_filepath seg = ts_path cf r (seg_sequence_no seg)"
    "tmppath seg = ts_path cf r (seg_sequence_no seg) @ ''.tmp''" "mx_sequence_no m = seg_sequence_no seg + 1"
    "\<forall>s \<in> set (fragments (mx_segments m)). seg_sequence_no s < seg_sequence_no seg"
  using assms by (auto simp: files_conf_def files_idle_def window_ok_def next_no_def tmppath_def)

lemma closed_conf:
  assumes "config_ok cf r m" and "segments_ok cf r (fragments (mx_segments m))" and "expired_fragments (mx_segments m) = []"
    and "0 \<le> mx_sequence_no m" and "\<forall>s \<in> set (fragments (mx_segments m)). seg_sequence_no s < mx_sequence_no m"
    and "disk_ok cf r F0 m (files k)"
  shows "files_conf (m\<lparr>mx_current := None\<rparr>, k)"
  using assms by (simp add: files_conf_def files_idle_def window_ok_def next_no_def config_ok_def disk_ok_def)

text \<open>A segment that is kept is renamed, so that the window grows by a complete file.\<close>

lemma close_keep:
  assumes i: "files_conf (m, k)" and seg: "mx_current m = Some seg" and keep: "keeps_segment m seg"
    and d: "do_segment_close os (m, k) = (e, (m', k'))"
  shows "files_conf (m'\<lparr>mx_current := None\<rparr>, k') \<and> (e = None \<or> (\<exists>c. e = Some (Srs_error c)))"
proof -
  note p = close_parts [OF i seg]
  let ?m1 = "m\<lparr>mx_writer := fw_close (mx_writer m)\<rparr>"
  have k1: "keeps_segment ?m1 seg" using keep by (simp add: keeps_segment_def)
  obtain e1 k1 where rn: "fragment_rename os seg k = (e1, k1)" by fastforce
  show ?thesis
  proof (cases e1)
    case (Some x)
    have r: "e = e1" "m' = ?m1" "k' = k1" using d seg k1 rn Some by (auto simp: do_segment_close_def Let_def)
    have k: "files k1 = files k" "e1 = Some (Srs_error ERROR_SYSTEM_FILE_RENAME)" using rename_files [OF rn] Some by auto
    have "disk_ok cf r F0 ?m1 (files k1)" using p(2) k by (simp add: disk_ok_def)
    then have "files_conf (?m1\<lparr>mx_current := None\<rparr>, k1)" using p by (intro closed_conf) (auto simp: config_ok_def)
    then show ?thesis using r k by simp
  next
    case None
    let ?seg = "seg\<lparr>seg_tscw := None\<rparr>"
    let ?m2 = "?m1\<lparr>mx_segments := window_append ?seg (mx_segments ?m1), mx_current := None\<rparr>"
    have f: "finish_close os (?m2, k1) = (e, (m', k'))" using d seg k1 rn None by (simp add: do_segment_close_def Let_def)
    obtain xs where k: "files k1 = (files k)(ts_path cf r (seg_sequence_no seg) @ ''.tmp'' := None, ts_path cf r (seg_sequence_no seg) \<mapsto> xs)"
      using rename_files [OF rn] None p(7,8) by auto
    have ok: "segment_ok cf r ?seg" using p(3,6,7) keep by (simp add: segment_ok_def keeps_segment_def config_ok_def)
    have so: "segments_ok cf r (fragments (mx_segments ?m2))" using p(4,10) ok by (simp add: window_append_def)
    have "F (fr_filepath s) \<noteq> None" if s: "s \<in> set (fragments (mx_segments ?m2))" and F: "F = files k1" for s F
    proof (cases "s = ?seg")
      case False
      then have s': "s \<in> set (fragments (mx_segments m))" using s by (simp add: window_append_def)
      then have "segment_ok cf r s" using p(4) by (auto simp: segments_ok_def list_all_iff)
      then have "0 \<le> seg_sequence_no s" "fr_filepath s = ts_path cf r (seg_sequence_no s)" by (simp_all add: segment_ok_def)
      then have "fr_filepath s \<noteq> ts_path cf r (seg_sequence_no seg) @ ''.tmp''" using apartD(2) p(6) by simp
      then show ?thesis using s' p(2) by (simp add: F k disk_ok_def)
    qed (simp add: F k p(7))
    then have "disk_ok cf r F0 ?m2 (files k1)" using p(2) apart_list [OF p(6)] by (simp add: disk_ok_def k)
    note f' = finish_files [OF f this so]
    have "expired_fragments (mx_segments ?m2) = []" "config_ok cf r ?m2" using p(3,5) by (simp_all add: window_append_def config_ok_def)
    note f' = f' [OF this]
    have "\<forall>s \<in> set (fragments (mx_segments ?m2)). seg_sequence_no s < mx_sequence_no m" using p(9,10) by (auto simp: window_append_def)
    then have "\<forall>s \<in> set (fragments (mx_segments m')). seg_sequence_no s < mx_sequence_no m'" using f' by auto
    then show ?thesis using f' p(6,9) by (intro conjI closed_conf) auto
  qed
qed

text \<open>One that is not kept is removed, and the next one gets its number.\<close>

lemma close_drop:
  assumes i: "files_conf (m, k)" and seg: "mx_current m = Some seg" and drop: "\<not> keeps_segment m seg"
    and d: "do_segment_close os (m, k) = (e, (m', k'))"
  shows "files_conf (m'\<lparr>mx_current := None\<rparr>, k') \<and> (e = None \<or> (\<exists>c. e = Some (Srs_error c)))"
proof -
  note p = close_parts [OF i seg]
  let ?m1 = "m\<lparr>mx_writer := fw_close (mx_writer m)\<rparr>"
  let ?m2 = "?m1\<lparr>mx_sequence_no := mx_sequence_no ?m1 - 1\<rparr>"
  have k1: "\<not> keeps_segment ?m1 seg" using drop by (simp add: keeps_segment_def)
  obtain e1 k1 where un: "unlink_tmpfile os seg k = (e1, k1)" by fastforce
  note un' = unlink_tmpfile_files [OF un]
  have keep: "files k1 (ts_path cf r n) = files k (ts_path cf r n)" if "0 \<le> n" for n
    using un' p(8) apartD(2) [OF that p(6)] by auto
  have pl: "files k1 (m3u8_path cf r) = files k (m3u8_path cf r)" using un' p(8) apart_list [OF p(6)] by auto
  have dk: "disk_ok cf r F0 ?m2 (files k1)" by (rule disk_ok_weaken [OF p(2)]) (use p(4) keep pl in auto)
  have cfg: "config_ok cf r ?m2" using p(3) by (simp add: config_ok_def)
  show ?thesis
  proof (cases e1)
    case (Some x)
    have r: "e = e1" "m' = ?m2" "k' = k1" using d seg k1 un Some by (auto simp: do_segment_close_def Let_def)
    have "files_conf (?m2\<lparr>mx_current := None\<rparr>, k1)" using p dk cfg by (intro closed_conf) auto
    then show ?thesis using r un' by auto
  next
    case None
    have f: "finish_close os (?m2, k1) = (e, (m', k'))" using d seg k1 un None by (simp add: do_segment_close_def Let_def)
    have so: "segments_ok cf r (fragments (mx_segments ?m2))" "expired_fragments (mx_segments ?m2) = []" using p(4,5) by simp_all
    note f' = finish_files [OF f dk so cfg]
    have "\<forall>s \<in> set (fragments (mx_segments m')). seg_sequence_no s < mx_sequence_no m'" "0 \<le> mx_sequence_no m'" using f' p(6,9,10) by auto
    then show ?thesis using f' by (intro conjI closed_conf) auto
  qed
qed

lemma close_files: "triple files_conf (segment_close os) files_conf files_conf"
proof (rule tripleI)
  fix s e s' assume s: "files_conf s" "segment_close os s = (e, s')"
  obtain m k where mk: "s = (m, k)" by fastforce
  obtain e1 m1 k1 where d: "do_segment_close os (m, k) = (e1, (m1, k1))" by (metis prod_cases3)
  have r: "e = e1" "s' = (m1\<lparr>mx_current := None\<rparr>, k1)" using s(2) d mk by (auto simp: segment_close_def)
  have "files_conf (m1\<lparr>mx_current := None\<rparr>, k1) \<and> (e1 = None \<or> (\<exists>c. e1 = Some (Srs_error c)))"
  proof (cases "mx_current m")
    case None
    then have "e1 = None" "m1 = m" "k1 = k" using d by (auto simp: do_segment_close_def)
    moreover have "m\<lparr>mx_current := None\<rparr> = m" using None by simp
    ultimately show ?thesis using s(1) mk by simp
  next
    case (Some seg)
    show ?thesis
    proof (cases "keeps_segment m seg")
      case True
      then show ?thesis using close_keep [OF _ Some True d] s(1) mk by simp
    next
      case False
      then show ?thesis using close_drop [OF _ Some False d] s(1) mk by simp
    qed
  qed
  then show "(e = None \<and> files_conf s') \<or> (\<exists>c. e = Some (Srs_error c) \<and> files_conf s')" using r by blast
qed

end

context file_system
begin

text \<open>Writing a message changes no file but the open one, and that one stays.\<close>

definition only_file :: "string option \<Rightarrow> (string \<rightharpoonup> byte list) \<Rightarrow> SrsFileWriter \<times> 'k \<Rightarrow> bool" where
  "only_file p F = (\<lambda>(w, k). fp w = p \<and> (\<forall>q. (p \<noteq> Some q \<longrightarrow> files k q = F q) \<and> (F q \<noteq> None \<longrightarrow> files k q \<noteq> None)))"

lemma fw_write_only: "triple (only_file p F) (fw_write os bs) (only_file p F) (only_file p F)"
proof (rule tripleI)
  fix s e s' assume s: "only_file p F s" "fw_write os bs s = (e, s')"
  obtain w k w' k' where ws: "s = (w, k)" "s' = (w', k')" by fastforce
  show "(e = None \<and> only_file p F s') \<or> (\<exists>c. e = Some (Srs_error c) \<and> only_file p F s')"
    using s fw_write_files [of bs w k e w' k'] by (auto simp: ws only_file_def split: option.splits if_splits)
qed

lemma encode_only: "triple (on_writer (only_file p F)) (ts_encode (file_writer os) msg vc ac) (on_writer (only_file p F)) (on_writer (only_file p F))"
  by (rule ts_encode_triple) (simp add: file_writer_def fw_write_only)

end

context hls_files
begin

text \<open>Steps that change the open segment only in its duration, its header flag and its codecs.\<close>

lemma live_step:
  assumes "files_live (m, k)" and "mx_current m = Some seg" and "mx_current m' \<noteq> None"
    and "fr_filepath (the (mx_current m')) = fr_filepath seg" "seg_sequence_no (the (mx_current m')) = seg_sequence_no seg" "seg_tscw (the (mx_current m')) \<noteq> None"
    and "mx_segments m' = mx_segments m" "mx_sequence_no m' = mx_sequence_no m" "mx_writer m' = mx_writer m"
    and "mx_req m' = mx_req m" "mx_hls_path m' = mx_hls_path m" "mx_hls_ts_file m' = mx_hls_ts_file m" "mx_m3u8 m' = mx_m3u8 m" "mx_max_td m' = mx_max_td m"
  shows "files_live (m', k)"
  using assms by (cases "mx_current m'") (simp_all add: files_defs window_ok_def next_no_def disk_ok_def config_ok_def)

lemma live_current:
  assumes "files_live (m, k)"
  obtains seg tscw where "mx_current m = Some seg" "seg_tscw seg = Some tscw"
  using assms by (auto simp: files_defs window_ok_def)

lemma write_files:
  "triple files_live (write_current os (\<lambda>tscw msg. ts_encode (file_writer os) msg (tscw_vcodec tscw) (tscw_acodec tscw)) msg) files_live files_live"
proof (rule tripleI)
  fix s e s' assume s: "files_live s"
    "write_current os (\<lambda>tscw msg. ts_encode (file_writer os) msg (tscw_vcodec tscw) (tscw_acodec tscw)) msg s = (e, s')"
  obtain m k where mk: "s = (m, k)" by fastforce
  obtain seg tscw where t: "mx_current m = Some seg" "seg_tscw seg = Some tscw" using live_current s(1) mk by blast
  obtain e1 x w k1 where w: "ts_encode (file_writer os) msg (tscw_vcodec tscw) (tscw_acodec tscw) (mx_context m, mx_writer m, k) = (e1, (x, w, k1))"
    by (metis prod_cases4)
  let ?m' = "m\<lparr>mx_context := x, mx_writer := w\<rparr>"
  have r: "e = e1" "s' = (?m', k1)" using s(2) t w by (simp_all add: mk write_current_def current_tscw_def)
  have "on_writer (only_file (fp (mx_writer m)) (files k)) (mx_context m, mx_writer m, k)" by (simp add: only_file_def)
  from tripleD [OF encode_only this w]
  have o: "only_file (fp (mx_writer m)) (files k) (w, k1)" "e1 = None \<or> (\<exists>c. e1 = Some (Srs_error c))" by auto
  have i: "window_ok cf r m" "disk_ok cf r F0 m (files k)" "config_ok cf r m" using s(1) by (simp_all add: mk files_defs)
  have tmp: "\<exists>n. 0 \<le> n \<and> p = ts_path cf r n @ ''.tmp''" if "fp (mx_writer m) = Some p" for p using i(2) that by (simp add: disk_ok_def)
  have "disk_ok cf r F0 ?m' (files k1)"
  proof (rule disk_ok_weaken [OF i(2)])
    show "files k1 (m3u8_path cf r) = files k (m3u8_path cf r)"
    proof (cases "fp (mx_writer m)")
      case (Some p)
      from tmp [OF Some] obtain n where "0 \<le> n" "p = ts_path cf r n @ ''.tmp''" by blast
      then show ?thesis using o(1) Some apart_list(3) by (auto simp: only_file_def)
    qed (use o(1) in \<open>simp add: only_file_def\<close>)
  qed (use o(1) tmp i(1) in \<open>auto simp: only_file_def window_ok_def\<close>)
  then have "files_live (?m', k1)" using i(1,3) t(1) by (simp add: files_defs window_ok_def next_no_def config_ok_def)
  then show "(e = None \<and> files_live s') \<or> (\<exists>c. e = Some (Srs_error c) \<and> files_live s')" using o(2) r by blast
qed

lemma append_path [simp]: "fr_filepath (fragment_append t f) = fr_filepath f"
  by (simp add: fragment_append_def Let_def)

lemma step_files:
  assumes "files_live (m, k)"
  shows "files_live (snd (update_duration dts m), k)" "files_live (snd (muxer_on_sequence_header m), k)"
    "files_live (set_latest_acodec a m, k)" "files_live (set_latest_vcodec v m, k)"
proof -
  obtain seg tscw where t: "mx_current m = Some seg" "seg_tscw seg = Some tscw" using live_current assms by blast
  show "files_live (snd (update_duration dts m), k)" "files_live (snd (muxer_on_sequence_header m), k)"
    "files_live (set_latest_acodec a m, k)" "files_live (set_latest_vcodec v m, k)"
    by (rule live_step [OF assms t(1)]; simp add: t update_duration_def muxer_on_sequence_header_def set_latest_acodec_def set_latest_vcodec_def set_tscw_def)+
qed

end

sublocale hls_files \<subseteq> files: muxer_invariant cf os r files_idle files_conf files_live
proof unfold_locales
  show "files_conf s \<Longrightarrow> files_idle s" for s by (cases s) (simp add: files_conf_def)
  show "files_live (m, k) \<longleftrightarrow> files_conf (m, k) \<and> mx_current m \<noteq> None" for m k by (simp add: files_live_def)
  show "files_live (m, k) \<Longrightarrow> current_tscw m \<noteq> None" for m k by (erule live_current) (simp add: current_tscw_def)
qed (rule config_files open_files close_files write_files step_files; assumption?)+

section \<open>What HLS can reach\<close>

inductive hls_reach :: "SrsSimpleConfig \<Rightarrow> 'k os_files \<Rightarrow> SrsRequest \<Rightarrow> 'k \<Rightarrow> SrsHls \<times> 'k \<Rightarrow> bool"
  for cf :: SrsSimpleConfig and os :: "'k os_files" and r :: SrsRequest and k0 :: 'k where
  initialize: "hls_initialize r (SrsHls_new, k0) = (e, s) \<Longrightarrow> hls_reach cf os r k0 s"
| publish: "hls_reach cf os r k0 s \<Longrightarrow> hls_on_publish cf os s = (e, s') \<Longrightarrow> hls_reach cf os r k0 s'"
| unpublish: "hls_reach cf os r k0 s \<Longrightarrow> hls_reach cf os r k0 (hls_on_unpublish os s)"
| audio: "hls_reach cf os r k0 s \<Longrightarrow> hls_on_audio os msg fmt s = (e, s') \<Longrightarrow> hls_reach cf os r k0 s'"
| video: "hls_reach cf os r k0 s \<Longrightarrow> format_ok fmt \<Longrightarrow> hls_on_video os msg fmt s = (e, s') \<Longrightarrow> hls_reach cf os r k0 s'"

context muxer_invariant
begin

lemma reach_inv:
  assumes "hls_reach cf os r k0 s" and "idle (SrsHlsMuxer_new, k0)"
  shows "hls_inv s"
  using assms
proof induction
  case (initialize e s)
  then show ?case by (auto simp: hls_initialize_def hls_inv_def SrsHls_new_def SrsHlsController_new_def)
next
  case (publish s e s')
  then show ?case using tripleD [OF hls_publish] by blast
next
  case (unpublish s)
  then show ?case using hls_unpublish by blast
next
  case (audio s msg fmt e s')
  then show ?case using tripleD [OF hls_frames(1)] by blast
next
  case (video s fmt msg e s')
  then show ?case using tripleD [OF hls_frames(2)] by blast
qed

lemma inv_idle: "hls_inv (h, k) \<Longrightarrow> idle (ctl_muxer (hls_controller h), k)"
  using live_idle by (simp add: hls_inv_def split: if_splits)

end

context hls_files
begin

lemma new_files_idle: "F0 = files k0 \<Longrightarrow> files_idle (SrsHlsMuxer_new, k0)"
  unfolding files_idle_def by (simp add: window_ok_def next_no_def disk_ok_def SrsHlsMuxer_new_def SrsFragmentWindow_new_def SrsFileWriter_new_def)

lemma reach_files:
  assumes "hls_reach cf os r k0 (h, k)" and "F0 = files k0"
  shows "window_ok cf r (ctl_muxer (hls_controller h)) \<and> disk_ok cf r F0 (ctl_muxer (hls_controller h)) (files k)"
  using files.inv_idle [OF files.reach_inv [OF assms(1) new_files_idle [OF assms(2)]]] by (simp add: files_idle_def)

end

definition hls_request :: SrsRequest where
  "hls_request = SrsRequest_new\<lparr>rq_vhost := ''__defaultVhost__'', rq_app := ''live'', rq_stream := ''cam''\<rparr>"

lemma hls_request_plain: "plain_names hls_request"
  by (simp add: plain_names_def hls_request_def)

interpretation disk_hls: hls_files disk_os disk_files srs_config hls_request F0 for F0
  by unfold_locales (rule plain_names_apart [OF hls_request_plain])


definition empty_disk :: disk where
  "empty_disk = \<lparr>disk_files = Map.empty, disk_faults = []\<rparr>"


lemma on_muxer_simp: "on_muxer f (c, k) = (case f (ctl_muxer c, k) of (e, m, k') \<Rightarrow> (e, c\<lparr>ctl_muxer := m\<rparr>, k'))"
  by (simp add: on_muxer_def)

text \<open>What writing a message leaves of the muxer.\<close>

lemma flush_video_frame:
  assumes "flush_video os (c, k) = (e, (c', k'))"
  shows "mx_segments (ctl_muxer c') = mx_segments (ctl_muxer c) \<and> mx_sequence_no (ctl_muxer c') = mx_sequence_no (ctl_muxer c)
    \<and> map_option seg_sequence_no (mx_current (ctl_muxer c')) = map_option seg_sequence_no (mx_current (ctl_muxer c))"
  using assms
  by (auto simp: flush_video_def on_muxer_def andthen_def update_duration_def write_current_def split: if_splits option.splits prod.splits)


definition ex_avc_config :: SrsVideoCodecConfig where
  "ex_avc_config = SrsVideoCodecConfig_new\<lparr>vc_id := 7, sequenceParameterSetNALUnit := [0x67], pictureParameterSetNALUnit := [0x68]\<rparr>"


end
