(* ===== verification/TsSegment.thy ===== *)
theory TsSegment
  imports Complex_Main Ts
begin

text \<open>
  A segment file as a whole: a demultiplexer that cuts the file into packets, takes those of a pid, joins their bodies from one start
  of a unit to the next and reads the PES packets, and the round trip of the messages of a segment through it.
\<close>

function ts_packets :: "byte list \<Rightarrow> byte list list" where
  "ts_packets bs = (if length bs < SRS_TS_PACKET_SIZE then [] else take SRS_TS_PACKET_SIZE bs # ts_packets (drop SRS_TS_PACKET_SIZE bs))"
  by pat_completeness auto
termination by (relation "measure length") auto

declare ts_packets.simps [simp del]

function pes_units :: "byte list list \<Rightarrow> byte list list" where
  "pes_units [] = []"
| "pes_units (p # ps) = (ts_body p @ concat (map ts_body (takeWhile (\<lambda>q. \<not> ts_start q) ps))) # pes_units (dropWhile (\<lambda>q. \<not> ts_start q) ps)"
  by pat_completeness auto
termination by (relation "measure length") (auto simp: le_imp_less_Suc length_dropWhile_le)

definition demux :: "16 word \<Rightarrow> byte list list \<Rightarrow> (byte \<times> int \<times> int \<times> byte list) option list" where
  "demux pid pkts = map read_pes (pes_units (filter (\<lambda>p. ts_pid p = pid) pkts))"

text \<open>The messages of a segment, one after the other.\<close>

fun ts_encode_all :: "'w ISrsWriter \<Rightarrow> byte \<Rightarrow> byte \<Rightarrow> SrsTsMessage list \<Rightarrow> SrsTsContext \<times> 'w \<Rightarrow> (SrsTsContext \<times> 'w) outcome" where
  "ts_encode_all W vc ac [] = (\<lambda>s. (None, s))"
| "ts_encode_all W vc ac (msg # msgs) = andthen (ts_encode W msg vc ac) (ts_encode_all W vc ac msgs)"

definition msg_pid :: "SrsTsMessage \<Rightarrow> 16 word" where
  "msg_pid msg = (if ts_is_audio msg then TS_AUDIO_AAC_PID else TS_VIDEO_AVC_PID)"

definition msg_view :: "SrsTsMessage \<Rightarrow> (byte \<times> int \<times> int \<times> byte list) option" where
  "msg_view msg = Some (ts_sid msg, ts_pts msg mod 2 ^ 33, ts_dts msg mod 2 ^ 33, ss_data (ts_payload msg))"

lemma ts_packets_concat: "list_all (\<lambda>p. length p = 188) pkts \<Longrightarrow> ts_packets (concat pkts) = pkts"
proof (induction pkts)
  case Nil
  then show ?case by (simp add: ts_packets.simps)
next
  case (Cons p pkts)
  then show ?case by (subst ts_packets.simps) simp
qed

lemma pes_units_append: "qs = [] \<or> ts_start (hd qs) \<Longrightarrow> pes_units (ps @ qs) = pes_units ps @ pes_units qs"
proof (induction ps rule: pes_units.induct)
  case (2 p ps)
  have q: "takeWhile (\<lambda>q. \<not> ts_start q) qs = []" "dropWhile (\<lambda>q. \<not> ts_start q) qs = qs" using 2(2) by (cases qs; simp)+
  show ?case
  proof (cases "\<forall>x \<in> set ps. \<not> ts_start x")
    case True
    then have a: "takeWhile (\<lambda>q. \<not> ts_start q) ps = ps" "dropWhile (\<lambda>q. \<not> ts_start q) ps = []"
      by (simp_all add: takeWhile_eq_all_conv dropWhile_eq_Nil_conv)
    have b: "takeWhile (\<lambda>q. \<not> ts_start q) (ps @ qs) = ps" "dropWhile (\<lambda>q. \<not> ts_start q) (ps @ qs) = qs"
      using q True by (simp_all add: takeWhile_append2 dropWhile_append2)
    show ?thesis unfolding append_Cons pes_units.simps a b by simp
  next
    case False
    then obtain x where "x \<in> set ps" "\<not> \<not> ts_start x" by auto
    then have a: "takeWhile (\<lambda>q. \<not> ts_start q) (ps @ qs) = takeWhile (\<lambda>q. \<not> ts_start q) ps"
      "dropWhile (\<lambda>q. \<not> ts_start q) (ps @ qs) = dropWhile (\<lambda>q. \<not> ts_start q) ps @ qs"
      by (metis takeWhile_append1) (metis \<open>x \<in> set ps\<close> \<open>\<not> \<not> ts_start x\<close> dropWhile_append1)
    show ?thesis unfolding append_Cons pes_units.simps a "2.IH" [OF 2(2)] by simp
  qed
qed simp

lemma starts_append:
  "ps = [] \<or> ts_start (hd ps) \<Longrightarrow> qs = [] \<or> ts_start (hd qs) \<Longrightarrow> ps @ qs = [] \<or> ts_start (hd (ps @ qs))"
  by (cases ps) auto

text \<open>The packets of one message.\<close>

lemma demux_one:
  assumes "list_all (is_packet pid) pkts" and "map ts_start pkts = True # replicate (length pkts - 1) False"
    and "read_pes (concat (map ts_body pkts)) = v"
  shows "demux q pkts = (if q = pid then [v] else [])" and "filter (\<lambda>p. ts_pid p = q) pkts = [] \<or> ts_start (hd (filter (\<lambda>p. ts_pid p = q) pkts))"
proof -
  have f: "filter (\<lambda>p. ts_pid p = q) pkts = (if q = pid then pkts else [])"
    using assms(1) by (induction pkts) (auto simp: is_packet_def)
  obtain p ps where pkts: "pkts = p # ps" using assms(2) by (cases pkts) auto
  have s: "ts_start p" "map ts_start ps = replicate (length ps) False" using assms(2) by (simp_all add: pkts)
  have n: "\<not> ts_start x" if "x \<in> set ps" for x
  proof -
    from that have "ts_start x \<in> set (map ts_start ps)" by simp
    then show ?thesis unfolding s(2) by (simp split: if_splits)
  qed
  then have "pes_units pkts = [concat (map ts_body pkts)]" by (simp add: pkts takeWhile_eq_all_conv [THEN iffD2] dropWhile_eq_Nil_conv [THEN iffD2])
  then show "demux q pkts = (if q = pid then [v] else [])" using assms(3) f by (simp add: demux_def)
  show "filter (\<lambda>p. ts_pid p = q) pkts = [] \<or> ts_start (hd (filter (\<lambda>p. ts_pid p = q) pkts))" using f s(1) pkts by simp
qed

lemma demux_append:
  "filter (\<lambda>p. ts_pid p = q) qs = [] \<or> ts_start (hd (filter (\<lambda>p. ts_pid p = q) qs)) \<Longrightarrow> demux q (ps @ qs) = demux q ps @ demux q qs"
  by (simp add: demux_def pes_units_append)

context packet_writer
begin

text \<open>Messages behind the tables.\<close>

lemma encode_all_demux:
  assumes "ok w" and "ctx_vcodec c = SrsVideoCodecIdAVC" and "ctx_acodec c = SrsAudioCodecIdAAC"
    and "\<forall>msg \<in> set msgs. ss_data (ts_payload msg) \<noteq> []"
  shows "\<exists>c' w' pkts. ts_encode_all W SrsVideoCodecIdAVC SrsAudioCodecIdAAC msgs (c, w) = (None, (c', w')) \<and> ok w' \<and> written w' = written w @ concat pkts
    \<and> list_all (\<lambda>p. length p = 188) pkts \<and> (\<forall>q. demux q pkts = map msg_view (filter (\<lambda>msg. msg_pid msg = q) msgs)
        \<and> (filter (\<lambda>p. ts_pid p = q) pkts = [] \<or> ts_start (hd (filter (\<lambda>p. ts_pid p = q) pkts))))"
  using assms
proof (induction msgs arbitrary: c w)
  case Nil
  then show ?case by (intro exI [of _ c] exI [of _ w] exI [of _ "[]"]) (simp add: demux_def)
next
  case (Cons msg msgs)
  let ?pid = "msg_pid msg"
  let ?pes = "pes_header msg @ ss_data (ts_payload msg)"
  have p: "?pid < 0x2000" by (simp add: msg_pid_def)
  have ne: "ss_data (ts_payload msg) \<noteq> []" using Cons.prems(4) by simp
  note r = packetise_read [OF p, of msg True "counter_of c ?pid" ?pes]
  let ?pk = "packetise msg ?pid True (counter_of c ?pid) ?pes"
  obtain c1 w1 where e: "encode_pes W msg ?pid (c, w) = (None, (c1, w1))" "ok w1" "written w1 = written w @ concat ?pk"
      "ctx_vcodec c1 = ctx_vcodec c" "ctx_acodec c1 = ctx_acodec c"
    using encode_pes_written [OF Cons.prems(1) ne, of ?pid c] by blast
  have one: "ts_encode W msg SrsVideoCodecIdAVC SrsAudioCodecIdAAC (c, w) = (None, (c1, w1))"
    using e(1) Cons.prems(2,3) by (simp add: ts_encode_def andthen_def msg_pid_def)
  have h: "list_all (is_packet ?pid) ?pk" "map ts_start ?pk = True # replicate (length ?pk - 1) False" "read_pes (concat (map ts_body ?pk)) = msg_view msg"
    using r(1,2,3) read_pes_header [OF ne] ne by (simp_all add: msg_view_def)
  note d = demux_one [OF h]
  obtain c' w' pkts where i: "ts_encode_all W SrsVideoCodecIdAVC SrsAudioCodecIdAAC msgs (c1, w1) = (None, (c', w'))" "ok w'"
      "written w' = written w1 @ concat pkts" "list_all (\<lambda>p. length p = 188) pkts"
      "\<And>q. demux q pkts = map msg_view (filter (\<lambda>msg. msg_pid msg = q) msgs)"
      "\<And>q. filter (\<lambda>p. ts_pid p = q) pkts = [] \<or> ts_start (hd (filter (\<lambda>p. ts_pid p = q) pkts))"
  proof -
    have "ctx_vcodec c1 = SrsVideoCodecIdAVC" "ctx_acodec c1 = SrsAudioCodecIdAAC" "\<forall>msg \<in> set msgs. ss_data (ts_payload msg) \<noteq> []"
      using e(4,5) Cons.prems(2,3,4) by simp_all
    from Cons.IH [OF e(2) this] that show ?thesis by blast
  qed
  have "demux q (?pk @ pkts) = map msg_view (filter (\<lambda>msg. msg_pid msg = q) (msg # msgs))" for q
    using demux_append [OF i(6), of q ?pk] d(1) [of q] i(5) [of q] by auto
  moreover have "filter (\<lambda>p. ts_pid p = q) (?pk @ pkts) = [] \<or> ts_start (hd (filter (\<lambda>p. ts_pid p = q) (?pk @ pkts)))" for q
    using starts_append [OF d(2) [of q] i(6) [of q]] by simp
  moreover have "list_all (\<lambda>p. length p = 188) (?pk @ pkts)" using h(1) i(4) by (auto simp: list_all_iff is_packet_def)
  moreover have "ts_encode_all W SrsVideoCodecIdAVC SrsAudioCodecIdAAC (msg # msgs) (c, w) = (None, (c', w'))" using one i(1) by (simp add: andthen_def)
  moreover have "written w' = written w @ concat (?pk @ pkts)" using e(3) i(3) by simp
  ultimately show ?case using i(2) by blast
qed

end

text \<open>C13. Round trip of a segment: when a multiplexer whose context was reset writes the messages of a segment to a new file, the file is a
  sequence of packets, the PAT and the PMT first; and a demultiplexer gets back, from the pid of the video and from that of the
  audio, exactly the messages of that kind in their order, with the payload and the time stamps modulo 2^33.\<close>

theorem segment_roundtrip:
  assumes "packet_writer W ok written" and "ok w" and "written w = []"
    and "msgs \<noteq> []" and "\<forall>msg \<in> set msgs. ss_data (ts_payload msg) \<noteq> []"
  shows "\<exists>c' w'. ts_encode_all W SrsVideoCodecIdAVC SrsAudioCodecIdAAC msgs (ts_reset c, w) = (None, (c', w'))
    \<and> (let pkts = ts_packets (written w') in concat pkts = written w'
        \<and> read_pat (psi_section (pkts ! 0)) = Some (1, TS_PMT_PID)
        \<and> read_pmt (psi_section (pkts ! 1)) = Some (1, TS_VIDEO_AVC_PID, [(SrsTsStreamVideoH264, TS_VIDEO_AVC_PID), (SrsTsStreamAudioAAC, TS_AUDIO_AAC_PID)])
        \<and> demux TS_VIDEO_AVC_PID pkts = map msg_view (filter (\<lambda>msg. \<not> ts_is_audio msg) msgs)
        \<and> demux TS_AUDIO_AAC_PID pkts = map msg_view (filter ts_is_audio msgs))"
proof -
  let ?c = "(ts_reset c)\<lparr>ctx_vcodec := SrsVideoCodecIdAVC, ctx_acodec := SrsAudioCodecIdAAC\<rparr>"
  have cc: "ctx_vcodec ?c = SrsVideoCodecIdAVC \<or> ctx_acodec ?c = SrsAudioCodecIdAAC" by simp
  obtain msg msgs' where m: "msgs = msg # msgs'" using assms(4) by (cases msgs) auto
  note sec = pmt_section_props [OF disjI1 [OF TrueI], of True TS_VIDEO_AVC_PID SrsTsStreamVideoH264 TS_AUDIO_AAC_PID SrsTsStreamAudioAAC]
  have pat: "length pat_section + 9 \<le> 188" "3 \<le> length pat_section" "be_int [pat_section ! 1 AND 0x0f, pat_section ! 2] = int (length pat_section) + 1"
    by (simp_all add: pat_section_def be16_def be_int_def)
  let ?sec = "pmt_section True True TS_VIDEO_AVC_PID SrsTsStreamVideoH264 TS_AUDIO_AAC_PID SrsTsStreamAudioAAC"
  have pmt: "length ?sec + 9 \<le> 188" "3 \<le> length ?sec" using sec(1) by simp_all
  note p1 = psi_packet_read [OF pat, of 0 "counter_of ?c 0"]
  note p2 = psi_packet_read [OF pmt sec(2), of TS_PMT_PID "counter_of ?c TS_PMT_PID"]
  obtain c1 w1 t1 t2 where e: "encode_pat_pmt W TS_VIDEO_AVC_PID SrsTsStreamVideoH264 TS_AUDIO_AAC_PID SrsTsStreamAudioAAC (?c, w) = (None, (c1, w1))" "ok w1"
      "written w1 = t1 @ t2" "ctx_vcodec c1 = SrsVideoCodecIdAVC" "ctx_acodec c1 = SrsAudioCodecIdAAC"
      "is_packet 0 t1" "read_pat (psi_section t1) = Some (1, TS_PMT_PID)"
      "is_packet TS_PMT_PID t2" "read_pmt (psi_section t2) = Some (1, TS_VIDEO_AVC_PID, [(SrsTsStreamVideoH264, TS_VIDEO_AVC_PID), (SrsTsStreamAudioAAC, TS_AUDIO_AAC_PID)])"
    using packet_writer.encode_pat_pmt_written [OF assms(1,2) cc, of TS_VIDEO_AVC_PID SrsTsStreamVideoH264 TS_AUDIO_AAC_PID SrsTsStreamAudioAAC]
      p1 p2 pat_section_read pmt_section_read [of True True TS_VIDEO_AVC_PID TS_AUDIO_AAC_PID SrsTsStreamVideoH264 SrsTsStreamAudioAAC] assms(3)
    by auto
  obtain c' w' pkts where i: "ts_encode_all W SrsVideoCodecIdAVC SrsAudioCodecIdAAC msgs (c1, w1) = (None, (c', w'))"
      "written w' = written w1 @ concat pkts" "list_all (\<lambda>p. length p = 188) pkts"
      "\<And>q. demux q pkts = map msg_view (filter (\<lambda>msg. msg_pid msg = q) msgs)"
    using packet_writer.encode_all_demux [OF assms(1) e(2,4,5) assms(5)] by auto
  have "ts_encode W msg SrsVideoCodecIdAVC SrsAudioCodecIdAAC (ts_reset c, w) = ts_encode W msg SrsVideoCodecIdAVC SrsAudioCodecIdAAC (c1, w1)"
    using e(1,4,5) by (simp add: ts_encode_def andthen_def ts_reset_def)
  then have all: "ts_encode_all W SrsVideoCodecIdAVC SrsAudioCodecIdAAC msgs (ts_reset c, w) = (None, (c', w'))"
    using i(1) by (simp add: m andthen_def)
  let ?pkts = "t1 # t2 # pkts"
  have len: "list_all (\<lambda>p. length p = 188) ?pkts" using i(3) e(6,8) by (simp add: is_packet_def)
  have w': "written w' = concat ?pkts" using i(2) e(3) by simp
  have "demux q ?pkts = demux q pkts" if "q = TS_VIDEO_AVC_PID \<or> q = TS_AUDIO_AAC_PID" for q
    using e(6,8) that by (auto simp: demux_def is_packet_def)
  then have "demux TS_VIDEO_AVC_PID ?pkts = map msg_view (filter (\<lambda>msg. \<not> ts_is_audio msg) msgs)"
    "demux TS_AUDIO_AAC_PID ?pkts = map msg_view (filter ts_is_audio msgs)"
    unfolding i(4) by (simp_all add: i(4) msg_pid_def if_distrib [of "\<lambda>p. p = _"] cong: filter_cong)
  moreover have "ts_packets (written w') = ?pkts" unfolding w' by (rule ts_packets_concat [OF len])
  ultimately show ?thesis using all e(7,9) w' by (intro exI [of _ c'] exI [of _ w']) (simp add: Let_def)
qed

theorem segment_roundtrip_witness:
  "let msg = (\<lambda>sid t. SrsTsMessage_new\<lparr>ts_dts := t, ts_pts := t, ts_sid := sid, ts_payload := \<lparr>ss_data = replicate 300 7\<rparr>\<rparr>) in
    \<exists>c' w'. ts_encode_all (file_writer disk_os) SrsVideoCodecIdAVC SrsAudioCodecIdAAC [msg 0xe0 90, msg 0xc0 180, msg 0xe0 270] (ts_reset SrsTsContext_new, sample_file) = (None, (c', w'))
      \<and> demux TS_VIDEO_AVC_PID (ts_packets (disk_written w')) = [Some (0xe0, 90, 90, replicate 300 7), Some (0xe0, 270, 270, replicate 300 7)]"
proof -
  let ?msg = "\<lambda>sid t. SrsTsMessage_new\<lparr>ts_dts := t, ts_pts := t, ts_sid := sid, ts_payload := \<lparr>ss_data = replicate 300 7\<rparr>\<rparr>"
  have "\<forall>msg \<in> set [?msg 0xe0 90, ?msg 0xc0 180, ?msg 0xe0 270]. ss_data (ts_payload msg) \<noteq> []" by (simp add: replicate_empty)
  from segment_roundtrip [OF file_packets.packet_writer_axioms sample_file_ready _ this, of SrsTsContext_new]
  show ?thesis by (auto simp: Let_def msg_view_def ts_is_audio_def)
qed

end
