(* ===== verification/Mp4.thy ===== *)
theory Mp4
  imports Complex_Main Ts
begin

text \<open>
  Fragmented MP4, \<^verbatim>\<open>src/src/kernel/srs_kernel_mp4.cpp\<close>: \<^verbatim>\<open>SrsMp4M2tsInitEncoder\<close> writes the initialization segment,
  \<^verbatim>\<open>SrsMp4M2tsSegmentEncoder\<close> one fragment. Boxes are put together in a \<^verbatim>\<open>SrsBuffer\<close>; the size of a box is filled in when it
  is closed, a data offset when the size of the \<^verbatim>\<open>moof\<close> box is known. The numbers of samples and bytes are natural numbers; what is written of
  them has 32 bits.
\<close>

section \<open>Boxes\<close>

definition be3 :: "32 word \<Rightarrow> byte list" where
  "be3 v = rev (take 3 (le_bytes 4 (uint v)))"

definition be4 :: "32 word \<Rightarrow> byte list" where
  "be4 v = rev (le_bytes 4 (uint v))"

definition get_pos :: "SrsBuffer \<Rightarrow> (nat \<times> SrsBuffer) result" where
  "get_pos b = Inr (buf_p b, b)"

text \<open>Writes one after the other.\<close>

fun write_all :: "(SrsBuffer \<Rightarrow> (unit \<times> SrsBuffer) result) list \<Rightarrow> SrsBuffer \<Rightarrow> (unit \<times> SrsBuffer) result" where
  "write_all [] = ret ()"
| "write_all (m # ms) = bnd m (\<lambda>_. write_all ms)"

definition srs_mp4_box_open :: "string \<Rightarrow> SrsBuffer \<Rightarrow> (nat \<times> SrsBuffer) result" where
  "srs_mp4_box_open type = bnd get_pos (\<lambda>start. bnd (write_4bytes 0) (\<lambda>_. bnd (write_bytes (string_bytes type)) (\<lambda>_. ret start)))"

definition srs_mp4_patch_4bytes :: "nat \<Rightarrow> 32 word \<Rightarrow> SrsBuffer \<Rightarrow> (unit \<times> SrsBuffer) result" where
  "srs_mp4_patch_4bytes pos v b = Inr ((), b\<lparr>buf_bytes := take pos (buf_bytes b) @ be4 v @ drop (pos + 4) (buf_bytes b)\<rparr>)"

definition srs_mp4_box_close :: "nat \<Rightarrow> SrsBuffer \<Rightarrow> (unit \<times> SrsBuffer) result" where
  "srs_mp4_box_close start = bnd get_pos (\<lambda>pos. srs_mp4_patch_4bytes start (word_of_nat (pos - start)))"

definition srs_mp4_full_box_open :: "string \<Rightarrow> byte \<Rightarrow> 32 word \<Rightarrow> SrsBuffer \<Rightarrow> (nat \<times> SrsBuffer) result" where
  "srs_mp4_full_box_open type version flags =
     bnd (srs_mp4_box_open type) (\<lambda>start. bnd (write_1bytes version) (\<lambda>_. bnd (write_3bytes flags) (\<lambda>_. ret start)))"

text \<open>From an open to its close, with what is written in between.\<close>

definition mp4_box :: "string \<Rightarrow> (SrsBuffer \<Rightarrow> ('a \<times> SrsBuffer) result) \<Rightarrow> SrsBuffer \<Rightarrow> ('a \<times> SrsBuffer) result" where
  "mp4_box type body = bnd (srs_mp4_box_open type) (\<lambda>start. bnd body (\<lambda>v. bnd (srs_mp4_box_close start) (\<lambda>_. ret v)))"

definition mp4_full_box :: "string \<Rightarrow> byte \<Rightarrow> 32 word \<Rightarrow> (SrsBuffer \<Rightarrow> ('a \<times> SrsBuffer) result) \<Rightarrow> SrsBuffer \<Rightarrow> ('a \<times> SrsBuffer) result" where
  "mp4_full_box type version flags body =
     bnd (srs_mp4_full_box_open type version flags) (\<lambda>start. bnd body (\<lambda>v. bnd (srs_mp4_box_close start) (\<lambda>_. ret v)))"

definition srs_mp4_write_matrix :: "SrsBuffer \<Rightarrow> (unit \<times> SrsBuffer) result" where
  "srs_mp4_write_matrix = write_all (map write_4bytes [0x00010000, 0, 0, 0, 0x00010000, 0, 0, 0, 0x40000000])"

definition srs_mp4_write_tkhd :: "32 word \<Rightarrow> 16 word \<Rightarrow> int \<Rightarrow> int \<Rightarrow> SrsBuffer \<Rightarrow> (unit \<times> SrsBuffer) result" where
  "srs_mp4_write_tkhd tid volume width height =
     mp4_full_box ''tkhd'' 0 3 (write_all (map write_4bytes [0, 0, tid, 0, 0, 0, 0] @ map write_2bytes [0, 0, volume, 0]
       @ [srs_mp4_write_matrix, write_4bytes (push_bit 16 (word_of_int width)), write_4bytes (push_bit 16 (word_of_int height))]))"

definition srs_mp4_write_mdhd :: "SrsBuffer \<Rightarrow> (unit \<times> SrsBuffer) result" where
  "srs_mp4_write_mdhd = mp4_full_box ''mdhd'' 0 0 (write_all (map write_4bytes [0, 0, 1000, 0] @ map write_2bytes [0x55c4, 0]))"

definition srs_mp4_write_hdlr :: "string \<Rightarrow> string \<Rightarrow> SrsBuffer \<Rightarrow> (unit \<times> SrsBuffer) result" where
  "srs_mp4_write_hdlr type name = mp4_full_box ''hdlr'' 0 0
     (write_all [write_4bytes 0, write_bytes (string_bytes type), write_4bytes 0, write_4bytes 0, write_4bytes 0, write_bytes (string_bytes name), write_1bytes 0])"

definition srs_mp4_write_dinf :: "SrsBuffer \<Rightarrow> (unit \<times> SrsBuffer) result" where
  "srs_mp4_write_dinf = mp4_box ''dinf'' (mp4_full_box ''dref'' 0 0 (write_all [write_4bytes 1, mp4_full_box ''url '' 0 1 (ret ())]))"

definition srs_mp4_write_empty_sample_tables :: "SrsBuffer \<Rightarrow> (unit \<times> SrsBuffer) result" where
  "srs_mp4_write_empty_sample_tables = write_all
     [mp4_full_box ''stts'' 0 0 (write_4bytes 0), mp4_full_box ''stsc'' 0 0 (write_4bytes 0),
      mp4_full_box ''stsz'' 0 0 (write_all [write_4bytes 0, write_4bytes 0]), mp4_full_box ''stco'' 0 0 (write_4bytes 0)]"

section \<open>SrsMp4M2tsInitEncoder\<close>

definition write_video_trak :: "SrsVideoCodecConfig \<Rightarrow> 32 word \<Rightarrow> SrsBuffer \<Rightarrow> (unit \<times> SrsBuffer) result" where
  "write_video_trak vcodec tid = mp4_box ''trak'' (write_all
     [srs_mp4_write_tkhd tid 0 (vc_width vcodec) (vc_height vcodec),
      mp4_box ''mdia'' (write_all
        [srs_mp4_write_mdhd, srs_mp4_write_hdlr ''vide'' ''VideoHandler'',
         mp4_box ''minf'' (write_all
           [mp4_full_box ''vmhd'' 0 1 (write_all (map write_2bytes [0, 0, 0, 0])),
            srs_mp4_write_dinf,
            mp4_box ''stbl'' (write_all
              [mp4_full_box ''stsd'' 0 0 (write_all
                 [write_4bytes 1,
                  mp4_box ''avc1'' (write_all (replicate 6 (write_1bytes 0) @ map write_2bytes [1, 0, 0] @ replicate 3 (write_4bytes 0)
                    @ [write_2bytes (word_of_int (vc_width vcodec)), write_2bytes (word_of_int (vc_height vcodec)),
                       write_4bytes 0x00480000, write_4bytes 0x00480000, write_4bytes 0, write_2bytes 1]
                    @ replicate 32 (write_1bytes 0) @ [write_2bytes 0x0018, write_2bytes (- 1),
                       mp4_box ''avcC'' (write_bytes (avc_extra_data vcodec))]))]),
               srs_mp4_write_empty_sample_tables])])])])"

definition mp4_esds :: "byte list \<Rightarrow> SrsBuffer \<Rightarrow> (unit \<times> SrsBuffer) result" where
  "mp4_esds asc = mp4_full_box ''esds'' 0 0 (write_all
     [write_1bytes 0x03, write_1bytes (word_of_nat (23 + length asc)), write_2bytes 0x02, write_1bytes 0x00,
      write_1bytes 0x04, write_1bytes (word_of_nat (15 + length asc)), write_1bytes 0x40, write_1bytes 0x15, write_3bytes 0, write_4bytes 0, write_4bytes 0,
      write_1bytes 0x05, write_1bytes (word_of_nat (length asc)), write_bytes asc,
      write_1bytes 0x06, write_1bytes 0x01, write_1bytes 0x02])"

definition write_audio_trak :: "SrsAudioCodecConfig \<Rightarrow> 32 word \<Rightarrow> SrsBuffer \<Rightarrow> (unit \<times> SrsBuffer) result" where
  "write_audio_trak acodec tid = mp4_box ''trak'' (write_all
     [srs_mp4_write_tkhd tid 0x0100 0 0,
      mp4_box ''mdia'' (write_all
        [srs_mp4_write_mdhd, srs_mp4_write_hdlr ''soun'' ''SoundHandler'',
         mp4_box ''minf'' (write_all
           [mp4_full_box ''smhd'' 0 0 (write_all (map write_2bytes [0, 0])),
            srs_mp4_write_dinf,
            mp4_box ''stbl'' (write_all
              [mp4_full_box ''stsd'' 0 0 (write_all
                 [write_4bytes 1,
                  mp4_box ''mp4a'' (write_all (replicate 6 (write_1bytes 0) @ [write_2bytes 1, write_4bytes 0, write_4bytes 0,
                    write_2bytes (ucast (aac_channels acodec)), write_2bytes 16, write_2bytes 0, write_2bytes 0,
                    write_4bytes (push_bit 16 (word_of_int (srs_aac_srates ! unat (aac_sample_rate acodec)))),
                    mp4_esds (aac_extra_data acodec)]))]),
               srs_mp4_write_empty_sample_tables])])])])"

definition mp4_ftyp :: "SrsBuffer \<Rightarrow> (unit \<times> SrsBuffer) result" where
  "mp4_ftyp = mp4_box ''ftyp'' (write_all [write_bytes (string_bytes ''iso5''), write_4bytes 512, write_bytes (string_bytes ''iso6''), write_bytes (string_bytes ''mp41'')])"

definition mp4_mvhd :: "32 word \<Rightarrow> SrsBuffer \<Rightarrow> (unit \<times> SrsBuffer) result" where
  "mp4_mvhd next_tid = mp4_full_box ''mvhd'' 0 0 (write_all (map write_4bytes [0, 0, 1000, 0, 0x00010000] @ map write_2bytes [0x0100, 0]
     @ map write_4bytes [0, 0] @ [srs_mp4_write_matrix] @ replicate 6 (write_4bytes 0) @ [write_4bytes next_tid]))"

definition mp4_mvex :: "32 word list \<Rightarrow> SrsBuffer \<Rightarrow> (unit \<times> SrsBuffer) result" where
  "mp4_mvex tids = mp4_box ''mvex'' (write_all (map (\<lambda>tid. mp4_full_box ''trex'' 0 0 (write_all (map write_4bytes [tid, 1, 0, 0, 0]))) tids))"

text \<open>The tracks that are written: the codec of the video and its id, and of the audio.\<close>

definition mp4_init :: "(SrsVideoCodecConfig \<times> 32 word) option \<Rightarrow> (SrsAudioCodecConfig \<times> 32 word) option \<Rightarrow> SrsBuffer \<Rightarrow> (unit \<times> SrsBuffer) result" where
  "mp4_init v a =
     (let tids = (case v of Some (_, vid) \<Rightarrow> [vid] | None \<Rightarrow> []) @ (case a of Some (_, aid) \<Rightarrow> [aid] | None \<Rightarrow> []);
          next_tid = (case a of Some (_, aid) \<Rightarrow> aid | None \<Rightarrow> (case v of Some (_, vid) \<Rightarrow> vid | None \<Rightarrow> 0)) + 1
      in write_all [mp4_ftyp, mp4_box ''moov'' (write_all
           ([mp4_mvhd next_tid] @ (case v of Some (c, vid) \<Rightarrow> [write_video_trak c vid] | None \<Rightarrow> [])
             @ (case a of Some (c, aid) \<Rightarrow> [write_audio_trak c aid] | None \<Rightarrow> []) @ [mp4_mvex tids]))])"

record 'w ISrsVectorWriter = "'w ISrsWriter" +
  wr_writev :: "byte list list \<Rightarrow> 'w \<Rightarrow> 'w outcome"

definition init_do_write :: "'w ISrsVectorWriter \<Rightarrow> SrsFormat \<Rightarrow> bool \<Rightarrow> 32 word \<Rightarrow> bool \<Rightarrow> 32 word \<Rightarrow> 'w \<Rightarrow> 'w outcome" where
  "init_do_write W format has_video vid has_audio aid w =
     (let vok = (case fmt_vcodec format of None \<Rightarrow> False | Some c \<Rightarrow> is_avc_codec_ok c);
          aok = (case fmt_acodec format of None \<Rightarrow> False | Some c \<Rightarrow> is_aac_codec_ok c) in
      if has_video \<and> \<not> vok then (Some (Srs_error ERROR_MP4_ILLEGAL_MOOF), w)
      else if has_audio \<and> \<not> aok then (Some (Srs_error ERROR_MP4_ILLEGAL_MOOF), w)
      else let v = (if has_video then map_option (\<lambda>c. (c, vid)) (fmt_vcodec format) else None);
               a = (if has_audio then map_option (\<lambda>c. (c, aid)) (fmt_acodec format) else None);
               nb_data = 2048 + (case v of Some (c, _) \<Rightarrow> length (avc_extra_data c) | None \<Rightarrow> 0) + (case a of Some (c, _) \<Rightarrow> length (aac_extra_data c) | None \<Rightarrow> 0)
           in case mp4_init v a (SrsBuffer_new (replicate nb_data 0)) of
                Inl e \<Rightarrow> (Some e, w)
              | Inr (_, b) \<Rightarrow> wr_write W (take (buf_p b) (buf_bytes b)) w)"

definition init_write_track :: "'w ISrsVectorWriter \<Rightarrow> SrsFormat \<Rightarrow> bool \<Rightarrow> 32 word \<Rightarrow> 'w \<Rightarrow> 'w outcome" where
  "init_write_track W format video tid = (if video then init_do_write W format True tid False 0 else init_do_write W format False 0 True tid)"

definition init_write :: "'w ISrsVectorWriter \<Rightarrow> SrsFormat \<Rightarrow> 'w \<Rightarrow> 'w outcome" where
  "init_write W format = init_do_write W format True 1 True 2"

text \<open>The writer of LL-HLS, \<^verbatim>\<open>SrsLlHlsBufferWriter\<close> of \<^verbatim>\<open>src/src/app/srs_app_llhls.cpp\<close>: it keeps the bytes.\<close>

definition buffer_writer :: "byte list ISrsVectorWriter" where
  "buffer_writer = \<lparr>wr_write = (\<lambda>buf data. (None, data @ buf)), wr_writev = (\<lambda>iov data. (None, data @ concat iov))\<rparr>"

section \<open>SrsMp4M2tsSegmentEncoder\<close>

datatype SrsMp4HandlerType = SrsMp4HandlerTypeForbidden | SrsMp4HandlerTypeVIDE | SrsMp4HandlerTypeSOUN

record SrsMp4Sample =
  ps_type :: SrsMp4HandlerType
  ps_dts :: "64 word"
  ps_pts :: "64 word"
  ps_frame_type :: byte
  ps_nb_data :: "32 word"

record SrsMp4M2tsSegmentEncoder =
  sequence_number :: "32 word"
  track_id :: "32 word"
  enc_audio_tid :: "32 word"
  nb_audios :: nat
  nb_videos :: nat
  mdat_bytes :: nat
  enc_samples :: "SrsMp4Sample list"
  enc_video_data :: "byte list"
  enc_audio_data :: "byte list"

definition SrsMp4M2tsSegmentEncoder_new :: SrsMp4M2tsSegmentEncoder where
  "SrsMp4M2tsSegmentEncoder_new = \<lparr>sequence_number = 0, track_id = 0, enc_audio_tid = 0, nb_audios = 0, nb_videos = 0, mdat_bytes = 0,
     enc_samples = [], enc_video_data = [], enc_audio_data = []\<rparr>"

definition mp4_styp :: "SrsBuffer \<Rightarrow> (unit \<times> SrsBuffer) result" where
  "mp4_styp = mp4_box ''styp'' (write_all [write_bytes (string_bytes ''msdh''), write_4bytes 0, write_bytes (string_bytes ''msdh''), write_bytes (string_bytes ''msix'')])"

definition segment_initialize :: "'w ISrsVectorWriter \<Rightarrow> 32 word \<Rightarrow> 32 word \<Rightarrow> SrsMp4M2tsSegmentEncoder \<times> 'w \<Rightarrow> (SrsMp4M2tsSegmentEncoder \<times> 'w) outcome" where
  "segment_initialize W sequence tid = (\<lambda>(enc, w).
     let enc' = enc\<lparr>track_id := tid, sequence_number := sequence\<rparr> in
     case mp4_styp (SrsBuffer_new (replicate 24 0)) of
       Inl e \<Rightarrow> (Some e, (enc', w))
     | Inr (_, b) \<Rightarrow> let (e, w') = wr_write W (take (buf_p b) (buf_bytes b)) w in (e, (enc', w')))"

definition set_audio_tid :: "32 word \<Rightarrow> SrsMp4M2tsSegmentEncoder \<Rightarrow> SrsMp4M2tsSegmentEncoder" where
  "set_audio_tid tid enc = enc\<lparr>enc_audio_tid := tid\<rparr>"

definition write_sample :: "SrsMp4HandlerType \<Rightarrow> byte \<Rightarrow> 32 word \<Rightarrow> 32 word \<Rightarrow> byte list \<Rightarrow> SrsMp4M2tsSegmentEncoder \<Rightarrow> SrsMp4M2tsSegmentEncoder" where
  "write_sample ht ft dts pts sample enc =
     (let ps = \<lparr>ps_type = ht, ps_dts = ucast dts, ps_pts = ucast pts, ps_frame_type = (if ht = SrsMp4HandlerTypeVIDE then ft else SrsVideoAvcFrameTypeForbidden),
                ps_nb_data = word_of_nat (length sample)\<rparr>;
          cached = (\<lambda>enc. enc\<lparr>enc_samples := enc_samples enc @ [ps], mdat_bytes := mdat_bytes enc + length sample\<rparr>)
      in case ht of
           SrsMp4HandlerTypeVIDE \<Rightarrow> cached (enc\<lparr>nb_videos := nb_videos enc + 1, enc_video_data := enc_video_data enc @ sample\<rparr>)
         | SrsMp4HandlerTypeSOUN \<Rightarrow> cached (enc\<lparr>nb_audios := nb_audios enc + 1, enc_audio_data := enc_audio_data enc @ sample\<rparr>)
         | SrsMp4HandlerTypeForbidden \<Rightarrow> enc)"

text \<open>The durations: to the next sample, and at the end to \<open>end_dts\<close> if that is later, else the one before.\<close>

fun durations :: "64 word \<Rightarrow> 64 word \<Rightarrow> SrsMp4Sample list \<Rightarrow> 64 word list" where
  "durations end_dts previous [] = []"
| "durations end_dts previous [sample] = [if end_dts > ps_dts sample then end_dts - ps_dts sample else previous]"
| "durations end_dts previous (sample # next # samples) = (ps_dts next - ps_dts sample) # durations end_dts (ps_dts next - ps_dts sample) (next # samples)"

definition sample_flags :: "SrsMp4HandlerType \<Rightarrow> SrsMp4Sample \<Rightarrow> 32 word" where
  "sample_flags ht sample =
     (if ht = SrsMp4HandlerTypeVIDE then (if ps_frame_type sample = SrsVideoAvcFrameTypeKeyFrame then 0x02000000 else 0x01010000) else 0x02000000)"

definition trun_entry :: "SrsMp4HandlerType \<Rightarrow> SrsMp4Sample \<times> 64 word \<Rightarrow> 32 word list" where
  "trun_entry ht = (\<lambda>(sample, duration). [ucast duration, ps_nb_data sample, sample_flags ht sample, ucast (ps_pts sample - ps_dts sample)])"

definition trun_version :: "SrsMp4Sample list \<Rightarrow> byte" where
  "trun_version tses = (if \<exists>sample \<in> set tses. ps_pts sample - ps_dts sample <s 0 then 1 else 0)"

text \<open>The position of the data offset is returned.\<close>

definition write_traf :: "SrsMp4Sample list \<Rightarrow> SrsMp4HandlerType \<Rightarrow> 32 word \<Rightarrow> 64 word \<Rightarrow> SrsBuffer \<Rightarrow> (nat \<times> SrsBuffer) result" where
  "write_traf samples ht tid end_dts =
     (let tses = filter (\<lambda>sample. ps_type sample = ht) samples in
      mp4_box ''traf''
        (bnd (mp4_full_box ''tfhd'' 0 0x020000 (write_4bytes tid)) (\<lambda>_.
         bnd (mp4_full_box ''tfdt'' 1 0 (write_8bytes (ps_dts (hd tses)))) (\<lambda>_.
         mp4_full_box ''trun'' (trun_version tses) 0x000f01
           (bnd (write_4bytes (word_of_nat (length tses))) (\<lambda>_.
            bnd get_pos (\<lambda>data_offset_pos.
            bnd (write_4bytes 0) (\<lambda>_.
            bnd (write_all (map write_4bytes (concat (map (trun_entry ht) (zip tses (durations end_dts 0 tses)))))) (\<lambda>_.
            ret data_offset_pos)))))))))"

definition mp4_moof :: "64 word \<Rightarrow> SrsMp4M2tsSegmentEncoder \<Rightarrow> SrsBuffer \<Rightarrow> ((nat option \<times> nat option) \<times> SrsBuffer) result" where
  "mp4_moof dts enc = mp4_box ''moof''
     (bnd (mp4_full_box ''mfhd'' 0 0 (write_4bytes (sequence_number enc))) (\<lambda>_.
      bnd (if nb_videos enc \<noteq> 0 then bnd (write_traf (enc_samples enc) SrsMp4HandlerTypeVIDE (track_id enc) dts) (\<lambda>p. ret (Some p)) else ret None) (\<lambda>video_offset_pos.
      bnd (if nb_audios enc \<noteq> 0
           then bnd (write_traf (enc_samples enc) SrsMp4HandlerTypeSOUN
                       (if enc_audio_tid enc \<noteq> 0 then enc_audio_tid enc else if nb_videos enc \<noteq> 0 then track_id enc + 1 else track_id enc) dts) (\<lambda>p. ret (Some p))
           else ret None) (\<lambda>audio_offset_pos.
      ret (video_offset_pos, audio_offset_pos)))))"

definition mp4_fragment :: "64 word \<Rightarrow> SrsMp4M2tsSegmentEncoder \<Rightarrow> SrsBuffer \<Rightarrow> (unit \<times> SrsBuffer) result" where
  "mp4_fragment dts enc =
     bnd (mp4_moof dts enc) (\<lambda>(video_offset_pos, audio_offset_pos). bnd get_pos (\<lambda>moof_bytes.
     bnd (case video_offset_pos of Some p \<Rightarrow> srs_mp4_patch_4bytes p (word_of_nat (moof_bytes + 8)) | None \<Rightarrow> ret ()) (\<lambda>_.
     case audio_offset_pos of Some p \<Rightarrow> srs_mp4_patch_4bytes p (word_of_nat (moof_bytes + 8 + length (enc_video_data enc))) | None \<Rightarrow> ret ())))"

definition mp4_mdat :: "nat \<Rightarrow> SrsBuffer \<Rightarrow> (unit \<times> SrsBuffer) result" where
  "mp4_mdat n = write_all [write_4bytes (word_of_nat (8 + n)), write_bytes (string_bytes ''mdat'')]"

definition segment_flush :: "'w ISrsVectorWriter \<Rightarrow> 64 word \<Rightarrow> SrsMp4M2tsSegmentEncoder \<times> 'w \<Rightarrow> (SrsMp4M2tsSegmentEncoder \<times> 'w) outcome" where
  "segment_flush W dts = (\<lambda>(enc, w).
     if nb_audios enc = 0 \<and> nb_videos enc = 0 then (Some (Srs_error ERROR_MP4_ILLEGAL_MOOF), (enc, w))
     else case mp4_fragment dts enc (SrsBuffer_new (replicate (256 + 16 * length (enc_samples enc)) 0)) of
       Inl e \<Rightarrow> (Some e, (enc, w))
     | Inr (_, b) \<Rightarrow> (case mp4_mdat (mdat_bytes enc) (SrsBuffer_new (replicate 8 0)) of
         Inl e \<Rightarrow> (Some e, (enc, w))
       | Inr (_, mb) \<Rightarrow>
           let iovs = [take (buf_p b) (buf_bytes b), take 8 (buf_bytes mb)] @ (if enc_video_data enc \<noteq> [] then [enc_video_data enc] else [])
                 @ (if enc_audio_data enc \<noteq> [] then [enc_audio_data enc] else []);
               (e, w') = wr_writev W iovs w
           in (e, (enc, w'))))"

end
