(* ===== verification/LlHls.thy ===== *)
theory LlHls
  imports Complex_Main Hls Mp4
begin

text \<open>
  Low-latency HLS, \<^verbatim>\<open>src/src/app/srs_app_llhls.cpp\<close>: parts and segments in memory, the playlist, \<^verbatim>\<open>SrsLlHlsStorage\<close> with its window, the
  packager \<^verbatim>\<open>SrsLlHlsMuxer\<close> and the handler \<^verbatim>\<open>SrsLlHls\<close> of the hub. A method of the storage runs under its mutex and is one step;
  \<^verbatim>\<open>wait_for\<close>, which sleeps on the condition variable, is split at the places where it gives the mutex up. Times are mathematical integers,
  as in the rest of the development; where the code narrows them, so does the model.
\<close>

section \<open>Configuration\<close>

record SrsLlHlsConfig = SrsSimpleConfig +
  cf_llhls_enabled :: bool
  cf_llhls_segment :: int
  cf_llhls_part :: int
  cf_llhls_segment_count :: int

definition llhls_config :: SrsLlHlsConfig where
  "llhls_config = SrsSimpleConfig.extend srs_config
     \<lparr>cf_llhls_enabled = True, cf_llhls_segment = 2 * 1000000, cf_llhls_part = 500 * SRS_UTIME_MILLISECONDS, cf_llhls_segment_count = 10\<rparr>"

section \<open>Names\<close>

definition srs_llhls_init_uri :: "string \<Rightarrow> string" where
  "srs_llhls_init_uri stream = stream @ ''/init.mp4''"

definition srs_llhls_part_uri :: "string \<Rightarrow> int \<Rightarrow> int \<Rightarrow> string" where
  "srs_llhls_part_uri stream msn psn = stream @ ''/'' @ show_int msn @ ''.'' @ show_int psn @ ''.m4s''"

definition srs_llhls_segment_uri :: "string \<Rightarrow> int \<Rightarrow> string" where
  "srs_llhls_segment_uri stream msn = stream @ ''/'' @ show_int msn @ ''.m4s''"

section \<open>Parts, segments and the playlist\<close>

record SrsLlHlsPart =
  lp_psn :: int
  lp_duration :: int
  lp_independent :: bool
  lp_payload :: "byte list"

record SrsLlHlsSegment =
  lg_msn :: int
  lg_duration :: int
  lg_completed :: bool
  lg_parts :: "SrsLlHlsPart list"

definition SrsLlHlsSegment_new :: "int \<Rightarrow> SrsLlHlsSegment" where
  "SrsLlHlsSegment_new seq = \<lparr>lg_msn = seq, lg_duration = 0, lg_completed = False, lg_parts = []\<rparr>"

record SrsLlHlsChunklist =
  chl_stream :: string
  chl_part_target :: int
  chl_segment_target :: int

definition SrsLlHlsChunklist_new :: SrsLlHlsChunklist where
  "SrsLlHlsChunklist_new = \<lparr>chl_stream = [], chl_part_target = 0, chl_segment_target = 0\<rparr>"

definition chunklist_update_config :: "string \<Rightarrow> int \<Rightarrow> int \<Rightarrow> SrsLlHlsChunklist \<Rightarrow> SrsLlHlsChunklist" where
  "chunklist_update_config stream part_target segment_target c = \<lparr>chl_stream = stream, chl_part_target = part_target, chl_segment_target = segment_target\<rparr>"

abbreviation (input) SRS_LLHLS_PART_SEGMENTS :: int where "SRS_LLHLS_PART_SEGMENTS \<equiv> 3"

definition quoted :: "string \<Rightarrow> string" where
  "quoted s = CHR 0x22 # s @ [CHR 0x22]"

definition llhls_target_duration :: "SrsLlHlsChunklist \<Rightarrow> SrsLlHlsSegment list \<Rightarrow> int" where
  "llhls_target_duration c segments =
     ceil_seconds (srsu2msi (fold (\<lambda>seg v. if v < lg_duration seg then lg_duration seg else v) segments (chl_segment_target c)))"

definition playlist_header :: "SrsLlHlsChunklist \<Rightarrow> SrsLlHlsSegment list \<Rightarrow> string" where
  "playlist_header c segments =
     ''#EXTM3U'' @ LF @ ''#EXT-X-VERSION:6'' @ LF
     @ ''#EXT-X-TARGETDURATION:'' @ show_int (llhls_target_duration c segments) @ LF
     @ ''#EXT-X-SERVER-CONTROL:CAN-BLOCK-RELOAD=YES,PART-HOLD-BACK='' @ show_fixed3 (srsu2msi (3 * chl_part_target c)) @ LF
     @ ''#EXT-X-PART-INF:PART-TARGET='' @ show_fixed3 (srsu2msi (chl_part_target c)) @ LF
     @ ''#EXT-X-MEDIA-SEQUENCE:'' @ show_int (lg_msn (hd segments)) @ LF
     @ ''#EXT-X-MAP:URI='' @ quoted (srs_llhls_init_uri (chl_stream c)) @ LF"

definition part_line :: "string \<Rightarrow> int \<Rightarrow> SrsLlHlsPart \<Rightarrow> string" where
  "part_line stream msn part =
     ''#EXT-X-PART:DURATION='' @ show_fixed3 (srsu2msi (lp_duration part)) @ '',URI='' @ quoted (srs_llhls_part_uri stream msn (lp_psn part))
     @ (if lp_independent part then '',INDEPENDENT=YES'' else []) @ LF"

definition segment_lines :: "SrsLlHlsChunklist \<Rightarrow> int \<Rightarrow> SrsLlHlsSegment \<Rightarrow> string" where
  "segment_lines c last_msn seg =
     (if lg_msn seg > last_msn - SRS_LLHLS_PART_SEGMENTS then concat (map (part_line (chl_stream c) (lg_msn seg)) (lg_parts seg)) else [])
     @ (if lg_completed seg
        then ''#EXTINF:'' @ show_fixed3 (srsu2msi (lg_duration seg)) @ '','' @ LF @ srs_llhls_segment_uri (chl_stream c) (lg_msn seg) @ LF else [])"

definition preload_hint :: "SrsLlHlsChunklist \<Rightarrow> SrsLlHlsSegment \<Rightarrow> string" where
  "preload_hint c last_segment =
     (let hint_msn = (if lg_completed last_segment then lg_msn last_segment + 1 else lg_msn last_segment);
          hint_psn = (if lg_completed last_segment then 0 else int (length (lg_parts last_segment)))
      in ''#EXT-X-PRELOAD-HINT:TYPE=PART,URI='' @ quoted (srs_llhls_part_uri (chl_stream c) hint_msn hint_psn) @ LF)"

definition chunklist_generate :: "SrsLlHlsSegment list \<Rightarrow> bool \<Rightarrow> SrsLlHlsChunklist \<Rightarrow> string" where
  "chunklist_generate segments active c =
     (if segments = [] then []
      else playlist_header c segments @ concat (map (segment_lines c (lg_msn (last segments))) segments)
             @ (if active then preload_hint c (last segments) else []))"

section \<open>SrsLlHlsStorage\<close>

record SrsLlHlsStorage =
  sto_active :: bool
  sto_init :: "byte list"
  sto_segments :: "SrsLlHlsSegment list"
  sto_max_segments :: int
  sto_next_msn :: int
  sto_latest_msn :: int
  sto_latest_psn :: int
  sto_chunklist :: SrsLlHlsChunklist
  sto_playlist :: string

definition SrsLlHlsStorage_new :: "SrsLlHlsConfig \<Rightarrow> SrsLlHlsStorage" where
  "SrsLlHlsStorage_new cf = \<lparr>sto_active = False, sto_init = [], sto_segments = [], sto_max_segments = cf_llhls_segment_count cf, sto_next_msn = 0,
     sto_latest_msn = - 1, sto_latest_psn = - 1, sto_chunklist = SrsLlHlsChunklist_new, sto_playlist = []\<rparr>"

definition storage_update_config :: "int \<Rightarrow> string \<Rightarrow> int \<Rightarrow> int \<Rightarrow> SrsLlHlsStorage \<Rightarrow> SrsLlHlsStorage" where
  "storage_update_config max_segments stream part_target segment_target s =
     s\<lparr>sto_max_segments := max_segments, sto_chunklist := chunklist_update_config stream part_target segment_target (sto_chunklist s)\<rparr>"

definition refresh_playlist :: "SrsLlHlsStorage \<Rightarrow> SrsLlHlsStorage" where
  "refresh_playlist s = s\<lparr>sto_playlist := chunklist_generate (sto_segments s) (sto_active s) (sto_chunklist s)\<rparr>"

definition storage_on_publish :: "SrsLlHlsStorage \<Rightarrow> SrsLlHlsStorage" where
  "storage_on_publish s = s\<lparr>sto_active := True\<rparr>"

definition storage_on_unpublish :: "SrsLlHlsStorage \<Rightarrow> SrsLlHlsStorage" where
  "storage_on_unpublish s =
     (let s1 = s\<lparr>sto_active := False\<rparr>; segs = sto_segments s in
      refresh_playlist
        (if segs \<noteq> [] \<and> \<not> lg_completed (last segs) \<and> lg_parts (last segs) \<noteq> []
         then s1\<lparr>sto_segments := butlast segs @ [(last segs)\<lparr>lg_completed := True\<rparr>]\<rparr> else s1))"

definition set_init :: "byte list \<Rightarrow> SrsLlHlsStorage \<Rightarrow> SrsLlHlsStorage" where
  "set_init v s = s\<lparr>sto_init := v\<rparr>"

definition get_init :: "SrsLlHlsStorage \<Rightarrow> byte list option" where
  "get_init s = (if sto_init s = [] then None else Some (sto_init s))"

text \<open>The loop of \<^verbatim>\<open>shrink\<close>.\<close>

fun shrink_segments :: "int \<Rightarrow> SrsLlHlsSegment list \<Rightarrow> SrsLlHlsSegment list" where
  "shrink_segments max_segments [] = []"
| "shrink_segments max_segments (seg # segs) =
     (if int (length (seg # segs)) > max_segments \<and> lg_completed seg then shrink_segments max_segments segs else seg # segs)"

definition storage_shrink :: "SrsLlHlsStorage \<Rightarrow> SrsLlHlsStorage" where
  "storage_shrink s = s\<lparr>sto_segments := shrink_segments (sto_max_segments s) (sto_segments s)\<rparr>"

text \<open>The segment that a part goes to: the open one, or a new one.\<close>

definition open_segment :: "SrsLlHlsStorage \<Rightarrow> SrsLlHlsStorage" where
  "open_segment s =
     (if sto_segments s = [] \<or> lg_completed (last (sto_segments s))
      then s\<lparr>sto_segments := sto_segments s @ [SrsLlHlsSegment_new (sto_next_msn s)], sto_next_msn := sto_next_msn s + 1\<rparr>
      else s)"

definition append_part :: "byte list \<Rightarrow> int \<Rightarrow> bool \<Rightarrow> bool \<Rightarrow> SrsLlHlsStorage \<Rightarrow> SrsLlHlsStorage" where
  "append_part payload duration indep close_segment s =
     (let s1 = open_segment s;
          seg = last (sto_segments s1);
          part = \<lparr>lp_psn = int (length (lg_parts seg)), lp_duration = duration, lp_independent = indep, lp_payload = payload\<rparr>;
          seg1 = seg\<lparr>lg_parts := lg_parts seg @ [part], lg_duration := lg_duration seg + duration, lg_completed := lg_completed seg \<or> close_segment\<rparr>;
          s2 = s1\<lparr>sto_segments := butlast (sto_segments s1) @ [seg1], sto_latest_msn := lg_msn seg, sto_latest_psn := lp_psn part\<rparr>
      in refresh_playlist (if close_segment then storage_shrink s2 else s2))"

definition get_playlist :: "SrsLlHlsStorage \<Rightarrow> string option" where
  "get_playlist s = (if sto_playlist s = [] then None else Some (sto_playlist s))"

definition storage_find :: "int \<Rightarrow> SrsLlHlsStorage \<Rightarrow> SrsLlHlsSegment option" where
  "storage_find msn s =
     (if sto_segments s = [] then None
      else let idx = msn - lg_msn (hd (sto_segments s))
           in if idx < 0 \<or> idx \<ge> int (length (sto_segments s)) then None else Some (sto_segments s ! nat idx))"

definition get_part :: "int \<Rightarrow> int \<Rightarrow> SrsLlHlsStorage \<Rightarrow> SrsLlHlsPart option" where
  "get_part msn psn s =
     (case storage_find msn s of
        None \<Rightarrow> None
      | Some seg \<Rightarrow> if psn < 0 \<or> psn \<ge> int (length (lg_parts seg)) then None else Some (lg_parts seg ! nat psn))"

definition get_part_payload :: "int \<Rightarrow> int \<Rightarrow> SrsLlHlsStorage \<Rightarrow> byte list option" where
  "get_part_payload msn psn s = map_option lp_payload (get_part msn psn s)"

definition get_segment :: "int \<Rightarrow> SrsLlHlsStorage \<Rightarrow> SrsLlHlsPart list option" where
  "get_segment msn s =
     (case storage_find msn s of
        None \<Rightarrow> None
      | Some seg \<Rightarrow> if \<not> lg_completed seg then None else Some (lg_parts seg))"

definition get_segment_payload :: "int \<Rightarrow> SrsLlHlsStorage \<Rightarrow> byte list option" where
  "get_segment_payload msn s = map_option (\<lambda>parts. concat (map lp_payload parts)) (get_segment msn s)"

definition storage_first_msn :: "SrsLlHlsStorage \<Rightarrow> int" where
  "storage_first_msn s = (if sto_segments s = [] then - 1 else lg_msn (hd (sto_segments s)))"

definition storage_latest :: "SrsLlHlsStorage \<Rightarrow> (int \<times> int) option" where
  "storage_latest s = (if sto_latest_msn s < 0 then None else Some (sto_latest_msn s, sto_latest_psn s))"

definition reached :: "int \<Rightarrow> int \<Rightarrow> SrsLlHlsStorage \<Rightarrow> bool" where
  "reached msn psn s =
     (if sto_latest_msn s < 0 then False
      else if sto_segments s \<noteq> [] \<and> msn < lg_msn (hd (sto_segments s)) then True
      else if sto_latest_msn s \<noteq> msn then sto_latest_msn s > msn
      else sto_latest_psn s \<ge> (if psn < 0 then 0 else psn))"

text \<open>The predicate of \<^verbatim>\<open>wait_for\<close>.\<close>

definition wait_over :: "int \<Rightarrow> int \<Rightarrow> SrsLlHlsStorage \<Rightarrow> bool" where
  "wait_over msn psn s \<longleftrightarrow> \<not> sto_active s \<or> reached msn psn s"

section \<open>SrsLlHlsMuxer\<close>

text \<open>\<open>lm_storage\<close>: whether the pointer to the storage is set.\<close>

record SrsLlHlsMuxer =
  lm_req :: "SrsRequest option"
  lm_storage :: bool
  lm_part_target :: int
  lm_segment_target :: int
  lm_enc :: "SrsMp4M2tsSegmentEncoder option"
  lm_writer :: "byte list"
  lm_sequence :: "32 word"
  lm_part_open :: bool
  lm_part_start_dts :: int
  lm_last_dts :: int
  lm_part_nb_samples :: int
  lm_part_has_video :: bool
  lm_part_independent :: bool
  lm_segment_duration :: int
  lm_init_dirty :: bool
  lm_video_configured :: bool
  lm_latest_avc_extra :: "byte list"
  lm_latest_aac_extra :: "byte list"

definition SrsLlHlsMuxer_new :: SrsLlHlsMuxer where
  "SrsLlHlsMuxer_new = \<lparr>lm_req = None, lm_storage = False, lm_part_target = 0, lm_segment_target = 0, lm_enc = None, lm_writer = [], lm_sequence = 0,
     lm_part_open = False, lm_part_start_dts = 0, lm_last_dts = 0, lm_part_nb_samples = 0, lm_part_has_video = False, lm_part_independent = False,
     lm_segment_duration = 0, lm_init_dirty = False, lm_video_configured = False, lm_latest_avc_extra = [], lm_latest_aac_extra = []\<rparr>"

type_synonym muxer_state = "SrsLlHlsMuxer \<times> SrsLlHlsStorage"

text \<open>A call of the storage through the pointer.\<close>

definition on_storage :: "(SrsLlHlsStorage \<Rightarrow> SrsLlHlsStorage) \<Rightarrow> muxer_state \<Rightarrow> muxer_state outcome" where
  "on_storage f = (\<lambda>(m, s). if lm_storage m then (None, (m, f s)) else (Some Srs_null_deref, (m, s)))"

definition on_mux :: "(SrsLlHlsMuxer \<Rightarrow> SrsLlHlsMuxer) \<Rightarrow> muxer_state \<Rightarrow> muxer_state outcome" where
  "on_mux f = (\<lambda>(m, s). (None, (f m, s)))"

definition llhls_muxer_initialize :: "muxer_state \<Rightarrow> muxer_state outcome" where
  "llhls_muxer_initialize = on_mux (\<lambda>m. m\<lparr>lm_storage := True\<rparr>)"

definition clear_part :: "SrsLlHlsMuxer \<Rightarrow> SrsLlHlsMuxer" where
  "clear_part m = m\<lparr>lm_enc := None, lm_writer := [], lm_part_open := False, lm_part_nb_samples := 0, lm_part_has_video := False, lm_part_independent := False\<rparr>"

definition llhls_update_config :: "SrsLlHlsConfig \<Rightarrow> SrsRequest \<Rightarrow> muxer_state \<Rightarrow> muxer_state outcome" where
  "llhls_update_config cf r =
     andthen (on_mux (\<lambda>m. m\<lparr>lm_req := Some r, lm_part_target := cf_llhls_part cf, lm_segment_target := cf_llhls_segment cf\<rparr>))
       (andthen (on_storage (storage_update_config (cf_llhls_segment_count cf) (rq_stream r) (cf_llhls_part cf) (cf_llhls_segment cf)))
         (on_mux (\<lambda>m. (clear_part m)\<lparr>lm_segment_duration := 0\<rparr>)))"

definition flush_part :: "int \<Rightarrow> bool \<Rightarrow> muxer_state \<Rightarrow> muxer_state outcome" where
  "flush_part end_dts close_segment = (\<lambda>(m, s).
     if \<not> lm_part_open m \<or> lm_part_nb_samples m = 0 then (None, (m, s))
     else case lm_enc m of
       None \<Rightarrow> (Some Srs_null_deref, (m, s))
     | Some enc \<Rightarrow>
         (case segment_flush buffer_writer (word_of_int end_dts) (enc, lm_writer m) of
            (Some e, (enc', w)) \<Rightarrow> (Some e, (m\<lparr>lm_enc := Some enc', lm_writer := w\<rparr>, s))
          | (None, (enc', w)) \<Rightarrow>
              let indep = (if lm_part_has_video m then lm_part_independent m else \<not> lm_video_configured m);
                  duration = (end_dts - lm_part_start_dts m) * SRS_UTIME_MILLISECONDS
              in andthen (on_storage (append_part w duration indep close_segment))
                   (on_mux (\<lambda>m. clear_part (m\<lparr>lm_segment_duration := (if close_segment then 0 else lm_segment_duration m + duration)\<rparr>)))
                   (m\<lparr>lm_enc := Some enc', lm_writer := w\<rparr>, s)))"

definition maybe_cut :: "int \<Rightarrow> bool \<Rightarrow> muxer_state \<Rightarrow> muxer_state outcome" where
  "maybe_cut dts can_end_segment = (\<lambda>(m, s).
     if \<not> lm_part_open m \<or> lm_part_nb_samples m = 0 then (None, (m, s))
     else let part_dur = (dts - lm_part_start_dts m) * SRS_UTIME_MILLISECONDS;
              frame_gap = (dts - lm_last_dts m) * SRS_UTIME_MILLISECONDS
          in if can_end_segment \<and> lm_segment_duration m + part_dur \<ge> lm_segment_target m then flush_part dts True (m, s)
             else if part_dur \<ge> lm_part_target m \<or> (part_dur \<ge> lm_part_target m * 85 sdiv 100 \<and> part_dur + frame_gap > lm_part_target m)
             then flush_part dts False (m, s)
             else (None, (m, s)))"

definition codec_ok_video :: "SrsFormat \<Rightarrow> bool" where
  "codec_ok_video format \<longleftrightarrow> (case fmt_vcodec format of None \<Rightarrow> False | Some c \<Rightarrow> is_avc_codec_ok c)"

definition codec_ok_audio :: "SrsFormat \<Rightarrow> bool" where
  "codec_ok_audio format \<longleftrightarrow> (case fmt_acodec format of None \<Rightarrow> False | Some c \<Rightarrow> is_aac_codec_ok c)"

definition llhls_write_init :: "SrsFormat \<Rightarrow> muxer_state \<Rightarrow> muxer_state outcome" where
  "llhls_write_init format = (\<lambda>(m, s).
     let has_video = codec_ok_video format; has_audio = codec_ok_audio format in
     if \<not> has_video \<and> \<not> has_audio then (None, (m, s))
     else case (if has_video \<and> has_audio then init_write buffer_writer format [] else init_write_track buffer_writer format has_video 1 []) of
       (Some e, w) \<Rightarrow> (Some e, (m, s))
     | (None, w) \<Rightarrow> andthen (on_storage (set_init w)) (on_mux (\<lambda>m. m\<lparr>lm_init_dirty := False, lm_video_configured := has_video\<rparr>)) (m, s))"

definition open_part :: "SrsFormat \<Rightarrow> int \<Rightarrow> muxer_state \<Rightarrow> muxer_state outcome" where
  "open_part format dts =
     andthen (\<lambda>(m, s). if lm_init_dirty m then llhls_write_init format (m, s) else (None, (m, s)))
       (\<lambda>(m, s).
          let m1 = clear_part m in
          case segment_initialize buffer_writer (lm_sequence m1) 1 (SrsMp4M2tsSegmentEncoder_new, lm_writer m1) of
            (Some e, (enc, w)) \<Rightarrow> (Some e, (m1\<lparr>lm_enc := Some enc, lm_writer := w, lm_sequence := lm_sequence m1 + 1\<rparr>, s))
          | (None, (enc, w)) \<Rightarrow>
              (None, (m1\<lparr>lm_enc := Some (set_audio_tid (if lm_video_configured m1 then 2 else 1) enc), lm_writer := w, lm_sequence := lm_sequence m1 + 1,
                        lm_part_open := True, lm_part_start_dts := dts, lm_last_dts := dts, lm_part_nb_samples := 0, lm_part_has_video := False,
                        lm_part_independent := False\<rparr>, s)))"

definition part_for :: "SrsFormat \<Rightarrow> int \<Rightarrow> muxer_state \<Rightarrow> muxer_state outcome" where
  "part_for format dts = (\<lambda>(m, s). if \<not> lm_part_open m then open_part format dts (m, s) else (None, (m, s)))"

text \<open>The sample goes to the encoder of the part.\<close>

definition add_part_sample :: "SrsMp4HandlerType \<Rightarrow> byte \<Rightarrow> int \<Rightarrow> int \<Rightarrow> byte list \<Rightarrow> muxer_state \<Rightarrow> muxer_state outcome" where
  "add_part_sample ht ft dts pts raw = (\<lambda>(m, s).
     case lm_enc m of
       None \<Rightarrow> (Some Srs_null_deref, (m, s))
     | Some enc \<Rightarrow> (None, (m\<lparr>lm_enc := Some (write_sample ht ft (word_of_int dts) (word_of_int pts) raw enc)\<rparr>, s)))"

definition llhls_on_sequence_header :: "SrsFormat \<Rightarrow> muxer_state \<Rightarrow> muxer_state outcome" where
  "llhls_on_sequence_header format = (\<lambda>(m, s).
     let new_avc = (case fmt_vcodec format of Some c \<Rightarrow> if is_avc_codec_ok c \<and> avc_extra_data c \<noteq> lm_latest_avc_extra m then Some (avc_extra_data c) else None | None \<Rightarrow> None);
         new_aac = (case fmt_acodec format of Some c \<Rightarrow> if is_aac_codec_ok c \<and> aac_extra_data c \<noteq> lm_latest_aac_extra m then Some (aac_extra_data c) else None | None \<Rightarrow> None);
         m1 = m\<lparr>lm_latest_avc_extra := (case new_avc of Some x \<Rightarrow> x | None \<Rightarrow> lm_latest_avc_extra m),
                lm_latest_aac_extra := (case new_aac of Some x \<Rightarrow> x | None \<Rightarrow> lm_latest_aac_extra m)\<rparr>
     in if new_avc = None \<and> new_aac = None then (None, (m1, s))
        else andthen (\<lambda>(m, s). if lm_part_open m then flush_part (lm_last_dts m) True (m, s) else (None, (m, s)))
               (on_mux (\<lambda>m. m\<lparr>lm_init_dirty := True\<rparr>)) (m1, s))"

definition llhls_write_audio :: "SrsFormat \<Rightarrow> int \<Rightarrow> muxer_state \<Rightarrow> muxer_state outcome" where
  "llhls_write_audio format dts =
     andthen (\<lambda>(m, s). maybe_cut dts (\<not> lm_video_configured m) (m, s))
       (andthen (part_for format dts)
         (andthen (add_part_sample SrsMp4HandlerTypeSOUN 0 dts dts (fmt_raw format))
           (on_mux (\<lambda>m. m\<lparr>lm_last_dts := dts, lm_part_nb_samples := lm_part_nb_samples m + 1\<rparr>))))"

definition llhls_write_video :: "SrsFormat \<Rightarrow> int \<Rightarrow> muxer_state \<Rightarrow> muxer_state outcome" where
  "llhls_write_video format dts ms =
     (case fmt_video format of
        None \<Rightarrow> (Some Srs_null_deref, ms)
      | Some video \<Rightarrow>
          let keyframe = (frame_type video = SrsVideoAvcFrameTypeKeyFrame) in
          andthen (maybe_cut dts keyframe)
            (andthen (part_for format dts)
              (andthen (add_part_sample SrsMp4HandlerTypeVIDE (frame_type video) dts (dts + vf_cts video) (fmt_raw format))
                (on_mux (\<lambda>m.
                   (if lm_part_has_video m then m else m\<lparr>lm_part_has_video := True, lm_part_independent := keyframe\<rparr>)
                     \<lparr>lm_last_dts := dts, lm_part_nb_samples := lm_part_nb_samples m + 1\<rparr>)))) ms)"

definition llhls_muxer_on_unpublish :: "muxer_state \<Rightarrow> muxer_state outcome" where
  "llhls_muxer_on_unpublish = (\<lambda>(m, s). if lm_part_open m then flush_part (lm_last_dts m) True (m, s) else (None, (m, s)))"

section \<open>SrsLlHls\<close>

record SrsLlHls =
  ll_muxer :: SrsLlHlsMuxer
  ll_storage :: SrsLlHlsStorage
  ll_req :: "SrsRequest option"
  ll_enabled :: bool

definition SrsLlHls_new :: "SrsLlHlsConfig \<Rightarrow> SrsLlHls" where
  "SrsLlHls_new cf = \<lparr>ll_muxer = SrsLlHlsMuxer_new, ll_storage = SrsLlHlsStorage_new cf, ll_req = None, ll_enabled = False\<rparr>"

definition with_muxer :: "(muxer_state \<Rightarrow> muxer_state outcome) \<Rightarrow> SrsLlHls \<Rightarrow> SrsLlHls outcome" where
  "with_muxer f h = (let (e, (m, s)) = f (ll_muxer h, ll_storage h) in (e, h\<lparr>ll_muxer := m, ll_storage := s\<rparr>))"

definition llhls_initialize :: "SrsRequest \<Rightarrow> SrsLlHls \<Rightarrow> SrsLlHls outcome" where
  "llhls_initialize r h = with_muxer llhls_muxer_initialize (h\<lparr>ll_req := Some r\<rparr>)"

definition llhls_on_publish :: "SrsLlHlsConfig \<Rightarrow> SrsLlHls \<Rightarrow> SrsLlHls outcome" where
  "llhls_on_publish cf h =
     (if \<not> cf_llhls_enabled cf then (None, h)
      else case ll_req h of
        None \<Rightarrow> (Some Srs_null_deref, h)
      | Some req \<Rightarrow> andthen (with_muxer (llhls_update_config cf req))
                      (\<lambda>h. (None, h\<lparr>ll_storage := storage_on_publish (ll_storage h), ll_enabled := True\<rparr>)) h)"

definition llhls_on_unpublish :: "SrsLlHls \<Rightarrow> SrsLlHls" where
  "llhls_on_unpublish h =
     (if \<not> ll_enabled h then h
      else let (_, h1) = with_muxer llhls_muxer_on_unpublish h in h1\<lparr>ll_storage := storage_on_unpublish (ll_storage h1), ll_enabled := False\<rparr>)"

definition llhls_on_audio :: "SrsSharedPtrMessage \<Rightarrow> SrsFormat \<Rightarrow> SrsLlHls \<Rightarrow> SrsLlHls outcome" where
  "llhls_on_audio shared_audio format h =
     (if \<not> ll_enabled h then (None, h)
      else case (fmt_acodec format, fmt_audio format) of
        (Some acodec, Some audio) \<Rightarrow>
          if ac_id acodec \<noteq> SrsAudioCodecIdAAC then (None, h)
          else if aac_packet_type audio = SrsAudioAacFrameTraitSequenceHeader then with_muxer (llhls_on_sequence_header format) h
          else if af_samples audio = [] \<or> \<not> is_aac_codec_ok acodec then (None, h)
          else with_muxer (llhls_write_audio format (sm_timestamp shared_audio)) h
      | _ \<Rightarrow> (None, h))"

definition llhls_on_video :: "SrsSharedPtrMessage \<Rightarrow> SrsFormat \<Rightarrow> SrsLlHls \<Rightarrow> SrsLlHls outcome" where
  "llhls_on_video shared_video format h =
     (if \<not> ll_enabled h then (None, h)
      else case (fmt_vcodec format, fmt_video format) of
        (Some vcodec, Some video) \<Rightarrow>
          if vc_id vcodec \<noteq> SrsVideoCodecIdAVC then (None, h)
          else if avc_packet_type video = SrsVideoAvcFrameTraitSequenceHeader then with_muxer (llhls_on_sequence_header format) h
          else if avc_packet_type video \<noteq> SrsVideoAvcFrameTraitNALU \<or> vf_samples video = [] \<or> \<not> is_avc_codec_ok vcodec then (None, h)
          else with_muxer (llhls_write_video format (sm_timestamp shared_video)) h
      | _ \<Rightarrow> (None, h))"

text \<open>The writer that the hub calls.\<close>

definition llhls_handler :: "SrsLlHlsConfig \<Rightarrow> SrsLlHls stream_handler" where
  "llhls_handler cf = \<lparr>sh_initialize = llhls_initialize, sh_on_publish = llhls_on_publish cf, sh_on_unpublish = llhls_on_unpublish,
     sh_on_audio = llhls_on_audio, sh_on_video = llhls_on_video\<rparr>"

end
