(* ===== verification/LlHlsStore.thy ===== *)
theory LlHlsStore
  imports Complex_Main LlHls
begin

text \<open>
  The storage of low-latency HLS under any calls of its publisher: the window of segments, that names keep their bytes, and waiting on its
  condition variable, as steps of threads.
\<close>

section \<open>What holds of the storage\<close>

definition segment_wf :: "SrsLlHlsSegment \<Rightarrow> bool" where
  "segment_wf seg \<longleftrightarrow> lg_parts seg \<noteq> [] \<and> map lp_psn (lg_parts seg) = map int [0..<length (lg_parts seg)] \<and> lg_duration seg = sum_list (map lp_duration (lg_parts seg))"

text \<open>
  The window: the numbers are consecutive and end before the next one to be given, all segments but the last are complete, and the
  latest part is the last one of the last segment.
\<close>

definition window_wf :: "SrsLlHlsStorage \<Rightarrow> bool" where
  "window_wf s \<longleftrightarrow> (let segs = sto_segments s; n = length segs in
     0 < sto_max_segments s
     \<and> (if n = 0 then sto_next_msn s = 0 \<and> sto_latest_msn s = - 1 \<and> sto_latest_psn s = - 1
        else int n \<le> sto_next_msn s \<and> sto_latest_msn s = sto_next_msn s - 1 \<and> sto_latest_psn s = int (length (lg_parts (last segs))) - 1)
     \<and> (\<forall>i < n. lg_msn (segs ! i) = sto_next_msn s - int n + int i)
     \<and> (\<forall>i < n - 1. lg_completed (segs ! i)) \<and> (\<forall>seg \<in> set segs. segment_wf seg))"

lemma window_wfD:
  assumes "window_wf s"
  shows "0 < sto_max_segments s" "sto_segments s = [] \<Longrightarrow> sto_next_msn s = 0 \<and> sto_latest_psn s = - 1" "int (length (sto_segments s)) \<le> sto_next_msn s"
    "sto_latest_msn s = sto_next_msn s - 1" "0 \<le> sto_next_msn s" "sto_next_msn s = 0 \<Longrightarrow> sto_segments s = []"
    "sto_segments s \<noteq> [] \<Longrightarrow> sto_latest_psn s = int (length (lg_parts (last (sto_segments s)))) - 1"
    "i < length (sto_segments s) \<Longrightarrow> lg_msn (sto_segments s ! i) = sto_next_msn s - int (length (sto_segments s)) + int i"
    "i < length (sto_segments s) - 1 \<Longrightarrow> lg_completed (sto_segments s ! i)"
    "seg \<in> set (sto_segments s) \<Longrightarrow> segment_wf seg"
  using assms by (auto simp: window_wf_def Let_def split: if_splits)

lemma first_msn_eq: "window_wf s \<Longrightarrow> sto_segments s \<noteq> [] \<Longrightarrow> lg_msn (hd (sto_segments s)) = sto_next_msn s - int (length (sto_segments s))"
  using window_wfD(8) [of s 0] by (simp add: hd_conv_nth)

lemma find_iff:
  assumes "window_wf s"
  shows "storage_find msn s = Some seg \<longleftrightarrow> seg \<in> set (sto_segments s) \<and> lg_msn seg = msn"
proof
  assume f: "storage_find msn s = Some seg"
  then have ne: "sto_segments s \<noteq> []" by (auto simp: storage_find_def)
  with f first_msn_eq [OF assms ne] have i: "nat (msn - (sto_next_msn s - int (length (sto_segments s)))) < length (sto_segments s)"
      "0 \<le> msn - (sto_next_msn s - int (length (sto_segments s)))"
      "seg = sto_segments s ! nat (msn - (sto_next_msn s - int (length (sto_segments s))))"
    by (auto simp: storage_find_def Let_def split: if_splits)
  then show "seg \<in> set (sto_segments s) \<and> lg_msn seg = msn" using window_wfD(8) [OF assms i(1)] by simp
next
  assume "seg \<in> set (sto_segments s) \<and> lg_msn seg = msn"
  then obtain i where i: "i < length (sto_segments s)" "seg = sto_segments s ! i" "lg_msn seg = msn" by (auto simp: in_set_conv_nth)
  then have ne: "sto_segments s \<noteq> []" by auto
  have "msn - lg_msn (hd (sto_segments s)) = int i" using window_wfD(8) [OF assms i(1)] i(2,3) first_msn_eq [OF assms ne] by simp
  then show "storage_find msn s = Some seg" using i ne by (simp add: storage_find_def)
qed

lemma segment_unique: "window_wf s \<Longrightarrow> seg \<in> set (sto_segments s) \<Longrightarrow> seg' \<in> set (sto_segments s) \<Longrightarrow> lg_msn seg = lg_msn seg' \<Longrightarrow> seg = seg'"
  using find_iff [of s "lg_msn seg"] by (metis option.inject)

lemma msn_bounds: "window_wf s \<Longrightarrow> seg \<in> set (sto_segments s) \<Longrightarrow> 0 \<le> lg_msn seg \<and> lg_msn seg < sto_next_msn s"
  using window_wfD(3) [of s] window_wfD(8) [of s] by (fastforce simp: in_set_conv_nth)

lemma earlier_completed:
  assumes "window_wf s" and "seg \<in> set (sto_segments s)" and "lg_msn seg < sto_latest_msn s"
  shows "lg_completed seg"
proof -
  obtain i where i: "i < length (sto_segments s)" "seg = sto_segments s ! i" using assms(2) by (auto simp: in_set_conv_nth)
  then have "i < length (sto_segments s) - 1" using window_wfD(8) [OF assms(1) i(1)] window_wfD(4) [OF assms(1)] assms(3) by simp
  then show ?thesis using window_wfD(9) [OF assms(1)] i by simp
qed

lemma last_msn: "window_wf s \<Longrightarrow> sto_segments s \<noteq> [] \<Longrightarrow> lg_msn (last (sto_segments s)) = sto_next_msn s - 1"
  using window_wfD(8) [of s "length (sto_segments s) - 1"] by (simp add: last_conv_nth of_nat_diff Suc_leI)

lemma window_new: "0 < cf_llhls_segment_count cf \<Longrightarrow> window_wf (SrsLlHlsStorage_new cf)"
  by (simp add: window_wf_def SrsLlHlsStorage_new_def)

text \<open>Shrinking drops complete segments from the front, and never the last one.\<close>

lemma shrink_drop:
  assumes "0 < mx"
  shows "\<exists>k. shrink_segments mx segs = drop k segs \<and> (\<forall>i < k. lg_completed (segs ! i)) \<and> (segs \<noteq> [] \<longrightarrow> k < length segs)
    \<and> (list_all lg_completed segs \<longrightarrow> int (length (drop k segs)) \<le> mx)"
proof (induction segs)
  case (Cons seg segs)
  then obtain k where k: "shrink_segments mx segs = drop k segs" "\<forall>i < k. lg_completed (segs ! i)" "segs \<noteq> [] \<longrightarrow> k < length segs"
      "list_all lg_completed segs \<longrightarrow> int (length (drop k segs)) \<le> mx" by blast
  show ?case
  proof (cases "int (length (seg # segs)) > mx \<and> lg_completed seg")
    case True
    then have "segs \<noteq> []" using assms by auto
    then show ?thesis using True k by (intro exI [of _ "Suc k"]) (auto simp: nth_Cons less_Suc_eq_0_disj)
  next
    case False
    then show ?thesis by (intro exI [of _ 0]) auto
  qed
qed (use assms in auto)

lemma window_drop:
  assumes "window_wf s" and "k < length (sto_segments s) \<or> sto_segments s = []"
  shows "window_wf (s\<lparr>sto_segments := drop k (sto_segments s)\<rparr>)"
proof (cases "sto_segments s = []")
  case False
  then have k: "k < length (sto_segments s)" using assms(2) by blast
  note w = window_wfD [OF assms(1)]
  have "\<And>seg. seg \<in> set (drop k (sto_segments s)) \<Longrightarrow> segment_wf seg" using w(10) by (meson in_set_dropD)
  moreover have "lg_msn (drop k (sto_segments s) ! i) = sto_next_msn s - int (length (drop k (sto_segments s))) + int i"
    if "i < length (drop k (sto_segments s))" for i
    using w(8) [of "k + i"] that by (simp add: of_nat_diff)
  moreover have "lg_completed (drop k (sto_segments s) ! i)" if "i < length (drop k (sto_segments s)) - 1" for i
    using w(9) [of "k + i"] that by simp
  ultimately show ?thesis using w(1-4) w(7) [OF False] k by (auto simp: window_wf_def Let_def last_drop)
qed (use assms(1) in \<open>simp add: window_wf_def\<close>)

section \<open>A part is appended\<close>

lemma refresh_simps [simp]: "sto_segments (refresh_playlist s) = sto_segments s" "sto_max_segments (refresh_playlist s) = sto_max_segments s"
  "sto_next_msn (refresh_playlist s) = sto_next_msn s" "sto_latest_msn (refresh_playlist s) = sto_latest_msn s" "sto_latest_psn (refresh_playlist s) = sto_latest_psn s"
  "sto_active (refresh_playlist s) = sto_active s" "sto_init (refresh_playlist s) = sto_init s" "sto_chunklist (refresh_playlist s) = sto_chunklist s"
  "window_wf (refresh_playlist s) = window_wf s" "storage_find msn (refresh_playlist s) = storage_find msn s"
  by (simp_all add: refresh_playlist_def window_wf_def storage_find_def Let_def)

text \<open>The window with the part, before it shrinks.\<close>

definition appended :: "byte list \<Rightarrow> int \<Rightarrow> bool \<Rightarrow> bool \<Rightarrow> SrsLlHlsStorage \<Rightarrow> SrsLlHlsStorage" where
  "appended payload duration indep close_segment s =
     (let s1 = open_segment s;
          seg = last (sto_segments s1);
          part = \<lparr>lp_psn = int (length (lg_parts seg)), lp_duration = duration, lp_independent = indep, lp_payload = payload\<rparr>;
          seg1 = seg\<lparr>lg_parts := lg_parts seg @ [part], lg_duration := lg_duration seg + duration, lg_completed := lg_completed seg \<or> close_segment\<rparr>
      in s1\<lparr>sto_segments := butlast (sto_segments s1) @ [seg1], sto_latest_msn := lg_msn seg, sto_latest_psn := lp_psn part\<rparr>)"

lemma append_part_eq: "append_part payload d i c s = refresh_playlist (if c then storage_shrink (appended payload d i c s) else appended payload d i c s)"
  by (simp add: append_part_def appended_def Let_def)

lemma appended_cases:
  assumes "window_wf s"
  shows "let part = \<lambda>n. \<lparr>lp_psn = int n, lp_duration = d, lp_independent = i, lp_payload = payload\<rparr> in
    (sto_segments s = [] \<or> lg_completed (last (sto_segments s))) \<and>
      appended payload d i c s = s\<lparr>sto_segments := sto_segments s @ [\<lparr>lg_msn = sto_next_msn s, lg_duration = d, lg_completed = c, lg_parts = [part 0]\<rparr>],
        sto_next_msn := sto_next_msn s + 1, sto_latest_msn := sto_next_msn s, sto_latest_psn := 0\<rparr>
    \<or> (\<exists>segs seg. sto_segments s = segs @ [seg] \<and> \<not> lg_completed seg \<and> lg_msn seg = sto_next_msn s - 1 \<and>
      appended payload d i c s = s\<lparr>sto_segments := segs @ [seg\<lparr>lg_parts := lg_parts seg @ [part (length (lg_parts seg))], lg_duration := lg_duration seg + d, lg_completed := c\<rparr>],
        sto_latest_psn := int (length (lg_parts seg))\<rparr>)"
proof (cases "sto_segments s = [] \<or> lg_completed (last (sto_segments s))")
  case True
  then show ?thesis by (simp add: appended_def open_segment_def SrsLlHlsSegment_new_def)
next
  case False
  then obtain segs seg where s: "sto_segments s = segs @ [seg]" "\<not> lg_completed seg" by (metis append_butlast_last_id)
  have "lg_msn seg = sto_next_msn s - 1" using last_msn [OF assms] s by simp
  moreover have "sto_latest_msn s = lg_msn seg" using calculation window_wfD(4) [OF assms] by simp
  ultimately show ?thesis using s False by (simp add: appended_def open_segment_def)
qed

lemma window_snoc:
  assumes "sto_segments s = segs @ [seg]"
  shows "window_wf s \<longleftrightarrow> 0 < sto_max_segments s \<and> int (length segs) < sto_next_msn s \<and> sto_latest_msn s = sto_next_msn s - 1
    \<and> sto_latest_psn s = int (length (lg_parts seg)) - 1 \<and> lg_msn seg = sto_next_msn s - 1
    \<and> (\<forall>j < length segs. lg_msn (segs ! j) = sto_next_msn s - 1 - int (length segs) + int j)
    \<and> (\<forall>j < length segs. lg_completed (segs ! j)) \<and> (\<forall>x \<in> set segs. segment_wf x) \<and> segment_wf seg"
proof -
  have "(\<forall>j < length (segs @ [seg]). lg_msn ((segs @ [seg]) ! j) = sto_next_msn s - int (length (segs @ [seg])) + int j)
    \<longleftrightarrow> lg_msn seg = sto_next_msn s - 1 \<and> (\<forall>j < length segs. lg_msn (segs ! j) = sto_next_msn s - 1 - int (length segs) + int j)"
    by (auto simp: less_Suc_eq nth_append all_conj_distrib)
  moreover have "(\<forall>j < length (segs @ [seg]) - 1. lg_completed ((segs @ [seg]) ! j)) \<longleftrightarrow> (\<forall>j < length segs. lg_completed (segs ! j))"
    by (auto simp: nth_append)
  moreover have "int (length (segs @ [seg])) \<le> sto_next_msn s \<longleftrightarrow> int (length segs) < sto_next_msn s" by auto
  ultimately show ?thesis unfolding window_wf_def Let_def assms by (auto simp del: length_append)
qed

lemma window_appended:
  assumes "window_wf s"
  shows "window_wf (appended payload d i c s)"
proof -
  note w = window_wfD [OF assms]
  let ?part = "\<lambda>n. \<lparr>lp_psn = int n, lp_duration = d, lp_independent = i, lp_payload = payload\<rparr>"
  consider (fresh) "sto_segments s = [] \<or> lg_completed (last (sto_segments s))"
      "appended payload d i c s = s\<lparr>sto_segments := sto_segments s @ [\<lparr>lg_msn = sto_next_msn s, lg_duration = d, lg_completed = c, lg_parts = [?part 0]\<rparr>],
        sto_next_msn := sto_next_msn s + 1, sto_latest_msn := sto_next_msn s, sto_latest_psn := 0\<rparr>"
    | (more) segs seg where "sto_segments s = segs @ [seg]"
      "appended payload d i c s = s\<lparr>sto_segments := segs @ [seg\<lparr>lg_parts := lg_parts seg @ [?part (length (lg_parts seg))], lg_duration := lg_duration seg + d, lg_completed := c\<rparr>],
        sto_latest_psn := int (length (lg_parts seg))\<rparr>"
    using appended_cases [OF assms, of d i payload c] unfolding Let_def by blast
  then show ?thesis
  proof cases
    case fresh
    have "lg_completed (sto_segments s ! j)" if "j < length (sto_segments s)" for j
    proof -
      have "sto_segments s \<noteq> []" using that by auto
      then show ?thesis using fresh(1) w(9) [of j] that by (cases "j = length (sto_segments s) - 1") (simp_all add: last_conv_nth)
    qed
    moreover have "segment_wf \<lparr>lg_msn = sto_next_msn s, lg_duration = d, lg_completed = c, lg_parts = [?part 0]\<rparr>" by (simp add: segment_wf_def)
    ultimately show ?thesis unfolding fresh(2) using w(1,3,8,10)
      by (intro iffD2 [OF window_snoc [of _ "sto_segments s" "\<lparr>lg_msn = sto_next_msn s, lg_duration = d, lg_completed = c, lg_parts = [?part 0]\<rparr>"]]) simp_all
  next
    case more
    have "segment_wf (seg\<lparr>lg_parts := lg_parts seg @ [?part (length (lg_parts seg))], lg_duration := lg_duration seg + d, lg_completed := c\<rparr>)"
      using w(10) [of seg] more(1) by (simp add: segment_wf_def)
    then show ?thesis unfolding more(2) using iffD1 [OF window_snoc [OF more(1)] assms]
      by (intro iffD2 [OF window_snoc [of _ segs "seg\<lparr>lg_parts := lg_parts seg @ [?part (length (lg_parts seg))], lg_duration := lg_duration seg + d, lg_completed := c\<rparr>"]]) simp_all
  qed
qed

lemma window_shrink_drop:
  assumes "window_wf s"
  shows "\<exists>k. storage_shrink s = s\<lparr>sto_segments := drop k (sto_segments s)\<rparr> \<and> (k < length (sto_segments s) \<or> sto_segments s = [])
    \<and> (list_all lg_completed (sto_segments s) \<longrightarrow> int (length (drop k (sto_segments s))) \<le> sto_max_segments s)"
  using shrink_drop [OF window_wfD(1) [OF assms], of "sto_segments s"] by (auto simp: storage_shrink_def)

text \<open>A part is appended: what is in the window afterwards.\<close>

lemma append_part_drop:
  assumes "window_wf s"
  obtains k where "append_part payload d i c s = refresh_playlist ((appended payload d i c s)\<lparr>sto_segments := drop k (sto_segments (appended payload d i c s))\<rparr>)"
    "k < length (sto_segments (appended payload d i c s))" "\<not> c \<Longrightarrow> k = 0"
    "c \<Longrightarrow> int (length (drop k (sto_segments (appended payload d i c s)))) \<le> sto_max_segments s"
proof -
  let ?a = "appended payload d i c s"
  have ne: "sto_segments ?a \<noteq> []" by (simp add: appended_def Let_def)
  show ?thesis
  proof (cases c)
    case False
    then show ?thesis using that [of 0] ne by (simp add: append_part_eq)
  next
    case True
    have all: "list_all lg_completed (sto_segments ?a)"
    proof -
      have "lg_completed (sto_segments ?a ! j)" if "j < length (sto_segments ?a)" for j
      proof (cases "j < length (sto_segments ?a) - 1")
        case False
        then have "j = length (sto_segments ?a) - 1" using that by linarith
        then have "sto_segments ?a ! j = last (sto_segments ?a)" using ne by (simp add: last_conv_nth)
        then show ?thesis using True by (simp add: appended_def Let_def)
      qed (use window_wfD(9) [OF window_appended [OF assms]] in blast)
      then show ?thesis by (simp add: list_all_length)
    qed
    have "sto_max_segments ?a = sto_max_segments s" by (simp add: appended_def open_segment_def Let_def)
    moreover obtain k where k: "storage_shrink ?a = ?a\<lparr>sto_segments := drop k (sto_segments ?a)\<rparr>" "k < length (sto_segments ?a) \<or> sto_segments ?a = []"
        "list_all lg_completed (sto_segments ?a) \<longrightarrow> int (length (drop k (sto_segments ?a))) \<le> sto_max_segments ?a"
      using window_shrink_drop [OF window_appended [OF assms]] by blast
    ultimately have "int (length (drop k (sto_segments ?a))) \<le> sto_max_segments s" using all by simp
    moreover have "append_part payload d i c s = refresh_playlist (?a\<lparr>sto_segments := drop k (sto_segments ?a)\<rparr>)"
      using True k(1) by (simp only: append_part_eq if_True)
    moreover have "k < length (sto_segments ?a)" using k(2) ne by blast
    ultimately show ?thesis using that [of k] True by blast
  qed
qed

lemma window_append_part:
  assumes "window_wf s"
  shows "window_wf (append_part payload d i c s)"
proof -
  obtain k where k: "append_part payload d i c s = refresh_playlist ((appended payload d i c s)\<lparr>sto_segments := drop k (sto_segments (appended payload d i c s))\<rparr>)"
    "k < length (sto_segments (appended payload d i c s))" by (rule append_part_drop [OF assms])
  show ?thesis unfolding k(1) using window_drop [OF window_appended [OF assms]] k(2) by simp
qed

lemma window_unpublish: "window_wf s \<Longrightarrow> window_wf (storage_on_unpublish s)"
proof -
  assume "window_wf s"
  note w = window_wfD [OF this]
  have "window_wf (s\<lparr>sto_active := False, sto_segments := butlast (sto_segments s) @ [(last (sto_segments s))\<lparr>lg_completed := True\<rparr>]\<rparr>)"
    if ne: "sto_segments s \<noteq> []"
  proof -
    obtain segs seg where s: "sto_segments s = segs @ [seg]" using ne by (metis append_butlast_last_id)
    have "segment_wf (seg\<lparr>lg_completed := True\<rparr>)" using w(10) [of seg] s by (simp add: segment_wf_def)
    then show ?thesis using iffD1 [OF window_snoc [OF s] \<open>window_wf s\<close>] s
      by (intro iffD2 [OF window_snoc [of _ segs "seg\<lparr>lg_completed := True\<rparr>"]]) simp_all
  qed
  moreover have "window_wf (s\<lparr>sto_active := False\<rparr>)" using \<open>window_wf s\<close> by (simp add: window_wf_def Let_def)
  ultimately show ?thesis by (simp add: storage_on_unpublish_def Let_def)
qed

lemma window_other:
  "window_wf s \<Longrightarrow> window_wf (set_init v s)" "window_wf s \<Longrightarrow> window_wf (storage_on_publish s)" "window_wf s \<Longrightarrow> 0 < mx \<Longrightarrow> window_wf (storage_update_config mx stream pt st s)"
  by (simp_all add: window_wf_def set_init_def storage_on_publish_def storage_update_config_def Let_def)

section \<open>How the storage changes\<close>

text \<open>
  The steps of the publisher, with and without a notification of those that wait; \<open>storage_steps\<close> is any number of them.
  Other threads only read the storage.
\<close>

inductive storage_notify :: "SrsLlHlsStorage \<Rightarrow> SrsLlHlsStorage \<Rightarrow> bool" where
  append: "storage_notify s (append_part payload duration indep close_segment s)"
| init: "storage_notify s (set_init v s)"
| unpublish: "storage_notify s (storage_on_unpublish s)"

inductive storage_silent :: "SrsLlHlsStorage \<Rightarrow> SrsLlHlsStorage \<Rightarrow> bool" where
  publish: "storage_silent s (storage_on_publish s)"
| config: "0 < max_segments \<Longrightarrow> storage_silent s (storage_update_config max_segments stream part_target segment_target s)"

definition storage_step :: "SrsLlHlsStorage \<Rightarrow> SrsLlHlsStorage \<Rightarrow> bool" where
  "storage_step s s' \<longleftrightarrow> storage_notify s s' \<or> storage_silent s s'"

definition storage_steps :: "SrsLlHlsStorage \<Rightarrow> SrsLlHlsStorage \<Rightarrow> bool" where
  "storage_steps = storage_step\<^sup>*\<^sup>*"

text \<open>
  \<open>later s s'\<close>: numbers are not given again, a segment of \<open>s'\<close> that was there in \<open>s\<close> only has more parts at its end, and none if it
  was complete, and the latest part does not go back.
\<close>

definition later :: "SrsLlHlsStorage \<Rightarrow> SrsLlHlsStorage \<Rightarrow> bool" where
  "later s s' \<longleftrightarrow> sto_next_msn s \<le> sto_next_msn s'
     \<and> (\<forall>seg' \<in> set (sto_segments s'). lg_msn seg' < sto_next_msn s \<longrightarrow>
          (\<exists>seg \<in> set (sto_segments s). lg_msn seg = lg_msn seg' \<and> prefix (lg_parts seg) (lg_parts seg')
             \<and> (lg_completed seg \<longrightarrow> lg_completed seg' \<and> lg_parts seg' = lg_parts seg)))
     \<and> (sto_segments s \<noteq> [] \<longrightarrow> sto_segments s' \<noteq> [] \<and> (sto_next_msn s' = sto_next_msn s \<longrightarrow> sto_latest_psn s \<le> sto_latest_psn s'))"

lemma later_refl: "later s s"
  by (auto simp: later_def)

lemma later_trans:
  assumes "later s t" and "later t u"
  shows "later s u"
proof -
  have "\<exists>seg \<in> set (sto_segments s). lg_msn seg = lg_msn seg'' \<and> prefix (lg_parts seg) (lg_parts seg'')
             \<and> (lg_completed seg \<longrightarrow> lg_completed seg'' \<and> lg_parts seg'' = lg_parts seg)"
    if s'': "seg'' \<in> set (sto_segments u)" "lg_msn seg'' < sto_next_msn s" for seg''
  proof -
    have "lg_msn seg'' < sto_next_msn t" using s''(2) assms(1) by (simp add: later_def)
    then obtain seg' where s': "seg' \<in> set (sto_segments t)" "lg_msn seg' = lg_msn seg''" "prefix (lg_parts seg') (lg_parts seg'')"
        "lg_completed seg' \<longrightarrow> lg_completed seg'' \<and> lg_parts seg'' = lg_parts seg'"
      using assms(2) s''(1) unfolding later_def by blast
    then obtain seg where "seg \<in> set (sto_segments s)" "lg_msn seg = lg_msn seg'" "prefix (lg_parts seg) (lg_parts seg')"
        "lg_completed seg \<longrightarrow> lg_completed seg' \<and> lg_parts seg' = lg_parts seg"
      using assms(1) s''(2) unfolding later_def by metis
    then show ?thesis using s' by (intro bexI [of _ seg]) (auto intro: prefix_order.trans)
  qed
  moreover have "sto_next_msn s \<le> sto_next_msn u" using assms by (simp add: later_def)
  moreover have "sto_segments s \<noteq> [] \<longrightarrow> sto_segments u \<noteq> [] \<and> (sto_next_msn u = sto_next_msn s \<longrightarrow> sto_latest_psn s \<le> sto_latest_psn u)"
    using assms unfolding later_def by auto
  ultimately show ?thesis unfolding later_def by blast
qed

lemma later_appended:
  assumes "window_wf s"
  shows "later s (appended payload d i c s)"
proof -
  note b = msn_bounds [OF assms]
  let ?part = "\<lambda>n. \<lparr>lp_psn = int n, lp_duration = d, lp_independent = i, lp_payload = payload\<rparr>"
  consider (fresh) "appended payload d i c s = s\<lparr>sto_segments := sto_segments s @ [\<lparr>lg_msn = sto_next_msn s, lg_duration = d, lg_completed = c, lg_parts = [?part 0]\<rparr>],
        sto_next_msn := sto_next_msn s + 1, sto_latest_msn := sto_next_msn s, sto_latest_psn := 0\<rparr>"
    | (more) segs seg where "sto_segments s = segs @ [seg]" "\<not> lg_completed seg"
      "appended payload d i c s = s\<lparr>sto_segments := segs @ [seg\<lparr>lg_parts := lg_parts seg @ [?part (length (lg_parts seg))], lg_duration := lg_duration seg + d, lg_completed := c\<rparr>],
        sto_latest_psn := int (length (lg_parts seg))\<rparr>"
    using appended_cases [OF assms, of d i payload c] unfolding Let_def by blast
  then show ?thesis
  proof cases
    case fresh
    then show ?thesis unfolding later_def by auto
  next
    case more
    have "sto_latest_psn s = int (length (lg_parts seg)) - 1" using window_wfD(7) [OF assms] more(1) by simp
    then show ?thesis unfolding later_def using more by auto
  qed
qed

lemma later_drop: "k < length (sto_segments s) \<or> sto_segments s = [] \<Longrightarrow> later s (s\<lparr>sto_segments := drop k (sto_segments s)\<rparr>)"
  unfolding later_def by (auto dest: in_set_dropD)

lemma later_same: "sto_segments s' = sto_segments s \<Longrightarrow> sto_next_msn s' = sto_next_msn s \<Longrightarrow> sto_latest_psn s' = sto_latest_psn s \<Longrightarrow> later s s'"
  by (auto simp: later_def)

lemma later_append:
  assumes "window_wf s"
  shows "later s (append_part payload d i c s)"
proof -
  obtain k where k: "append_part payload d i c s = refresh_playlist ((appended payload d i c s)\<lparr>sto_segments := drop k (sto_segments (appended payload d i c s))\<rparr>)"
    "k < length (sto_segments (appended payload d i c s))" by (rule append_part_drop [OF assms])
  have "later ((appended payload d i c s)\<lparr>sto_segments := drop k (sto_segments (appended payload d i c s))\<rparr>) (append_part payload d i c s)"
    unfolding k(1) by (rule later_same) simp_all
  then show ?thesis using later_appended [OF assms] later_drop [OF disjI1 [OF k(2)]] by (blast intro: later_trans)
qed

lemma later_unpublish: "later s (storage_on_unpublish s)"
proof (cases "sto_segments s" rule: rev_cases)
  case (snoc segs seg)
  then show ?thesis unfolding later_def storage_on_unpublish_def Let_def by auto
qed (simp add: later_def storage_on_unpublish_def)

lemma later_other: "later s (set_init v s)" "later s (storage_on_publish s)" "later s (storage_update_config mx stream pt st s)"
  by (rule later_same; simp add: set_init_def storage_on_publish_def storage_update_config_def)+

lemma storage_step_ok: "storage_step s s' \<Longrightarrow> window_wf s \<Longrightarrow> window_wf s' \<and> later s s'"
  unfolding storage_step_def
  by (elim disjE storage_notify.cases storage_silent.cases)
    (simp_all add: window_append_part window_other window_unpublish later_append later_unpublish later_other)

lemma storage_steps_ok: "storage_steps s s' \<Longrightarrow> window_wf s \<Longrightarrow> window_wf s' \<and> later s s'"
  unfolding storage_steps_def by (induction rule: rtranclp_induct) (use storage_step_ok later_trans later_refl in blast)+

section \<open>What readers see\<close>

lemma reached_iff:
  assumes "window_wf s"
  shows "reached msn psn s \<longleftrightarrow> sto_segments s \<noteq> [] \<and> (msn < sto_latest_msn s \<or> msn = sto_latest_msn s \<and> psn \<le> sto_latest_psn s)"
proof (cases "sto_segments s = []")
  case False
  note w = window_wfD [OF assms]
  have "last (sto_segments s) \<in> set (sto_segments s)" using False by simp
  then have "lg_parts (last (sto_segments s)) \<noteq> []" using w(10) by (auto simp: segment_wf_def)
  then have "0 \<le> sto_latest_psn s" using w(7) [OF False] by (simp add: Suc_leI)
  moreover have "0 < sto_next_msn s" using w(5,6) False by force
  moreover have "lg_msn (hd (sto_segments s)) \<le> sto_latest_msn s" using first_msn_eq [OF assms False] w(4) False by (simp add: Suc_leI)
  ultimately show ?thesis using False w(4) by (auto simp: reached_def)
qed (use window_wfD(2,4) [OF assms] in \<open>simp add: reached_def\<close>)

lemma reached_later: "window_wf s \<Longrightarrow> window_wf s' \<Longrightarrow> later s s' \<Longrightarrow> reached msn psn s \<Longrightarrow> reached msn psn s'"
  using window_wfD(4) [of s] window_wfD(4) [of s'] by (auto simp: reached_iff later_def)

lemma get_part_iff:
  assumes "window_wf s"
  shows "get_part msn psn s = Some part \<longleftrightarrow> (\<exists>seg \<in> set (sto_segments s). lg_msn seg = msn \<and> 0 \<le> psn \<and> nat psn < length (lg_parts seg) \<and> part = lg_parts seg ! nat psn)"
proof -
  have "get_part msn psn s = Some part \<longleftrightarrow> (\<exists>seg. storage_find msn s = Some seg \<and> 0 \<le> psn \<and> nat psn < length (lg_parts seg) \<and> part = lg_parts seg ! nat psn)"
    by (auto simp: get_part_def split: option.splits)
  then show ?thesis unfolding find_iff [OF assms] by blast
qed

lemma get_segment_iff:
  assumes "window_wf s"
  shows "get_segment msn s = Some parts \<longleftrightarrow> (\<exists>seg \<in> set (sto_segments s). lg_msn seg = msn \<and> lg_completed seg \<and> parts = lg_parts seg)"
proof -
  have "get_segment msn s = Some parts \<longleftrightarrow> (\<exists>seg. storage_find msn s = Some seg \<and> lg_completed seg \<and> parts = lg_parts seg)"
    by (auto simp: get_segment_def split: option.splits)
  then show ?thesis unfolding find_iff [OF assms] by blast
qed

section \<open>Waiting on the condition variable\<close>

text \<open>
  A shared state \<open>s\<close> and the calls of \<^verbatim>\<open>wait_for\<close> that sleep, or are awake and have to take the mutex: a call that has the mutex
  returns when its predicate holds and sleeps otherwise, giving the mutex up in the same step; it may wake up at any time (a
  timeout) and looks again; a notification wakes all.
\<close>

inductive cv_step :: "('k \<Rightarrow> 's \<Rightarrow> bool) \<Rightarrow> ('s \<Rightarrow> 's \<Rightarrow> bool) \<Rightarrow> ('s \<Rightarrow> 's \<Rightarrow> bool) \<Rightarrow> 's \<times> 'k set \<times> 'k set \<Rightarrow> 's \<times> 'k set \<times> 'k set \<Rightarrow> bool"
  for over notify silent where
  call: "cv_step over notify silent (s, sleeping, awake) (s, sleeping, insert k awake)"
| return: "k \<in> awake \<Longrightarrow> over k s \<Longrightarrow> cv_step over notify silent (s, sleeping, awake) (s, sleeping, awake - {k})"
| sleep: "k \<in> awake \<Longrightarrow> \<not> over k s \<Longrightarrow> cv_step over notify silent (s, sleeping, awake) (s, insert k sleeping, awake - {k})"
| timeout: "k \<in> sleeping \<Longrightarrow> cv_step over notify silent (s, sleeping, awake) (s, sleeping - {k}, awake)"
| spurious: "k \<in> sleeping \<Longrightarrow> cv_step over notify silent (s, sleeping, awake) (s, sleeping - {k}, insert k awake)"
| notify: "notify s s' \<Longrightarrow> cv_step over notify silent (s, sleeping, awake) (s', {}, awake \<union> sleeping)"
| silent: "silent s s' \<Longrightarrow> cv_step over notify silent (s, sleeping, awake) (s', sleeping, awake)"

locale condition_variable =
  fixes over :: "'k \<Rightarrow> 's \<Rightarrow> bool" and notify silent :: "'s \<Rightarrow> 's \<Rightarrow> bool"
  assumes silent_keeps: "silent s s' \<Longrightarrow> over k s' \<Longrightarrow> over k s"
begin

lemma sleeping_step:
  assumes "cv_step over notify silent (s, sleeping, awake) (s', sleeping', awake')" and "\<forall>k \<in> sleeping. \<not> over k s"
  shows "\<forall>k \<in> sleeping'. \<not> over k s'"
  using assms by (cases rule: cv_step.cases) (auto dest: silent_keeps)

lemma sleeping_waits:
  assumes "(cv_step over notify silent)\<^sup>*\<^sup>* (s0, {}, {}) (s, sleeping, awake)"
  shows "\<forall>k \<in> sleeping. \<not> over k s"
  using assms
proof (induction "(s, sleeping, awake)" arbitrary: s sleeping awake rule: rtranclp_induct)
  case (step y)
  obtain s1 S1 A1 where y: "y = (s1, S1, A1)" by (cases y)
  show ?case using sleeping_step [OF step(2) [unfolded y] step(3) [OF y]] .
qed simp

lemma state_steps:
  assumes "(cv_step over notify silent)\<^sup>*\<^sup>* (s0, S, A) (s, sleeping, awake)"
  shows "(\<lambda>s s'. notify s s' \<or> silent s s')\<^sup>*\<^sup>* s0 s"
  using assms
proof (induction "(s, sleeping, awake)" arbitrary: s sleeping awake rule: rtranclp_induct)
  case (step y)
  obtain s1 S1 A1 where y: "y = (s1, S1, A1)" by (cases y)
  have "s = s1 \<or> notify s1 s \<or> silent s1 s" using step(2) unfolding y by (cases rule: cv_step.cases) auto
  then show ?case using step(3) [OF y] by (auto intro: rtranclp.rtrancl_into_rtrancl)
qed simp

end

text \<open>The storage: a call is a thread with the part that it waits for.\<close>

definition call_over :: "nat \<times> int \<times> int \<Rightarrow> SrsLlHlsStorage \<Rightarrow> bool" where
  "call_over = (\<lambda>(thread, msn, psn). wait_over msn psn)"

interpretation holds: condition_variable call_over storage_notify storage_silent
  by unfold_locales (auto elim!: storage_silent.cases
      simp: call_over_def wait_over_def reached_def storage_on_publish_def storage_update_config_def)

definition storage_run :: "SrsLlHlsConfig \<Rightarrow> SrsLlHlsStorage \<times> (nat \<times> int \<times> int) set \<times> (nat \<times> int \<times> int) set \<Rightarrow> bool" where
  "storage_run cf = (cv_step call_over storage_notify storage_silent)\<^sup>*\<^sup>* (SrsLlHlsStorage_new cf, {}, {})"

lemma run_steps: "storage_run cf (s, sleeping, awake) \<Longrightarrow> storage_steps (SrsLlHlsStorage_new cf) s"
  unfolding storage_run_def storage_steps_def using holds.state_steps by (simp add: storage_step_def [abs_def])

lemma run_window: "0 < cf_llhls_segment_count cf \<Longrightarrow> storage_run cf (s, sleeping, awake) \<Longrightarrow> window_wf s"
  using run_steps storage_steps_ok window_new by blast

section \<open>Properties\<close>

lemma llhls_config_count: "0 < cf_llhls_segment_count llhls_config"
  by (simp add: llhls_config_def SrsSimpleConfig.extend_def)

text \<open>C19. No lost wake-up: in every interleaving of a publisher and of requests that wait for a part, a request sleeps only while the
  stream is published and its part is not there and may still come; and once the part came, \<^verbatim>\<open>wait_for\<close> finds it
  reached whenever it looks. A part that is not there although it is reached never comes.\<close>

theorem llhls_no_lost_wakeup:
  assumes "0 < cf_llhls_segment_count cf" and "storage_run cf (s, sleeping, awake)" and "0 \<le> psn"
  shows "((thread, msn, psn) \<in> sleeping \<longrightarrow> sto_active s \<and> get_part msn psn s = None \<and> \<not> reached msn psn s)
    \<and> (get_part msn psn s \<noteq> None \<longrightarrow> reached msn psn s)
    \<and> (storage_steps s s' \<longrightarrow> reached msn psn s \<longrightarrow> reached msn psn s' \<and> (get_part msn psn s = None \<longrightarrow> get_part msn psn s' = None))"
proof -
  note w = run_window [OF assms(1,2)]
  have found: "reached msn psn s" if g: "get_part msn psn s = Some part" for part
  proof -
    obtain seg where seg: "seg \<in> set (sto_segments s)" "lg_msn seg = msn" "nat psn < length (lg_parts seg)"
      using iffD1 [OF get_part_iff [OF w] g] by blast
    have ne: "sto_segments s \<noteq> []" using seg(1) by auto
    show ?thesis
    proof (cases "msn = sto_latest_msn s")
      case True
      have "lg_msn (last (sto_segments s)) = lg_msn seg" using last_msn [OF w ne] window_wfD(4) [OF w] True seg(2) by linarith
      then have e: "last (sto_segments s) = seg" using segment_unique [OF w last_in_set [OF ne] seg(1)] by blast
      have "psn \<le> sto_latest_psn s" using seg(3) window_wfD(7) [OF w ne, unfolded e] assms(3) by linarith
      then show ?thesis using True ne reached_iff [OF w] by blast
    next
      case False
      then have "msn < sto_latest_msn s" using msn_bounds [OF w seg(1)] seg(2) window_wfD(4) [OF w] by linarith
      then show ?thesis using ne reached_iff [OF w] by blast
    qed
  qed
  have gone: "get_part msn psn s' = None" if "storage_steps s s'" "reached msn psn s" "get_part msn psn s = None"
  proof (rule ccontr)
    assume "get_part msn psn s' \<noteq> None"
    then obtain part where p: "get_part msn psn s' = Some part" by auto
    have w': "window_wf s'" and l: "later s s'" using storage_steps_ok [OF that(1) w] by blast+
    obtain seg' where seg': "seg' \<in> set (sto_segments s')" "lg_msn seg' = msn" "nat psn < length (lg_parts seg')"
      using iffD1 [OF get_part_iff [OF w'] p] by blast
    have r: "sto_segments s \<noteq> []" "msn < sto_latest_msn s \<or> msn = sto_latest_msn s \<and> psn \<le> sto_latest_psn s"
      using that(2) reached_iff [OF w] by blast+
    have "msn < sto_next_msn s" using r(2) window_wfD(4) [OF w] by auto
    then obtain seg where seg: "seg \<in> set (sto_segments s)" "lg_msn seg = msn" "lg_completed seg \<longrightarrow> lg_parts seg' = lg_parts seg"
      using l seg'(1,2) unfolding later_def by metis
    have "nat psn < length (lg_parts seg)"
    proof (cases "msn = sto_latest_msn s")
      case True
      have "lg_msn (last (sto_segments s)) = lg_msn seg" using last_msn [OF w r(1)] window_wfD(4) [OF w] True seg(2) by linarith
      then have e: "last (sto_segments s) = seg" using segment_unique [OF w last_in_set [OF r(1)] seg(1)] by blast
      show ?thesis using r(2) True window_wfD(7) [OF w r(1), unfolded e] assms(3) by linarith
    next
      case False
      then have "lg_completed seg" using earlier_completed [OF w seg(1)] seg(2) r(2) by linarith
      then show ?thesis using seg(3) seg'(3) by simp
    qed
    then have "get_part msn psn s = Some (lg_parts seg ! nat psn)" using seg(1,2) assms(3) by (intro iffD2 [OF get_part_iff [OF w]]) blast
    then show False using that(3) by simp
  qed
  have kept: "reached msn psn s'" if "storage_steps s s'" "reached msn psn s"
    using reached_later [OF w] storage_steps_ok [OF that(1) w] that(2) by blast
  have sleeps: "sto_active s \<and> \<not> reached msn psn s" if "(thread, msn, psn) \<in> sleeping"
    using holds.sleeping_waits assms(2) that unfolding storage_run_def by (fastforce simp: call_over_def wait_over_def)
  have there: "reached msn psn s" if "get_part msn psn s \<noteq> None" using that found by auto
  have absent: "get_part msn psn s = None" if "\<not> reached msn psn s" using that there by blast
  show ?thesis using sleeps there absent gone kept by blast
qed

theorem llhls_no_lost_wakeup_witness:
  "let s = storage_on_publish (SrsLlHlsStorage_new llhls_config) in
   ((7 :: nat, 0, 0) \<in> {(7, 0, 0)} \<longrightarrow> sto_active s \<and> get_part 0 0 s = None \<and> \<not> reached 0 0 s)
    \<and> (get_part 0 0 s \<noteq> None \<longrightarrow> reached 0 0 s)
    \<and> (storage_steps s (append_part [1] 500000 True False s) \<longrightarrow> reached 0 0 s \<longrightarrow>
       reached 0 0 (append_part [1] 500000 True False s) \<and> (get_part 0 0 s = None \<longrightarrow> get_part 0 0 (append_part [1] 500000 True False s) = None))"
proof -
  let ?s = "storage_on_publish (SrsLlHlsStorage_new llhls_config)" and ?step = "cv_step call_over storage_notify storage_silent"
  have "?step (SrsLlHlsStorage_new llhls_config, {}, {}) (?s, {}, {})" by (rule cv_step.silent) (rule storage_silent.publish)
  moreover have "?step (?s, {}, {}) (?s, {}, {(7, 0, 0)})" by (rule cv_step.call)
  moreover have "\<not> call_over (7, 0, 0) ?s"
    by (simp add: call_over_def wait_over_def reached_def storage_on_publish_def SrsLlHlsStorage_new_def)
  then have "?step (?s, {}, {(7, 0, 0)}) (?s, insert (7, 0, 0) {}, {(7, 0, 0)} - {(7, 0, 0)})" by (intro cv_step.sleep) simp_all
  ultimately have "storage_run llhls_config (?s, {(7, 0, 0)}, {})"
    unfolding storage_run_def by (auto intro: rtranclp.rtrancl_into_rtrancl)
  from llhls_no_lost_wakeup [OF llhls_config_count this order.refl, of 7 0] show ?thesis unfolding Let_def by blast
qed

text \<open>C20. A name always means the same bytes: whatever the publisher does afterwards, a part that can still be fetched under its
  numbers is the same part, a segment has the same parts, and the bytes of a segment are those of its parts in their order; so a client or
  cache may keep what it fetched.\<close>

theorem llhls_names_fixed:
  assumes "0 < cf_llhls_segment_count cf" and "storage_steps (SrsLlHlsStorage_new cf) s" and "storage_steps s s'"
  shows "(get_part msn psn s = Some part \<longrightarrow> get_part msn psn s' = Some part' \<longrightarrow> part' = part)
    \<and> (get_part msn psn s = Some part \<longrightarrow> lp_psn part = psn)
    \<and> (get_segment msn s = Some parts \<longrightarrow> get_segment msn s' = Some parts' \<longrightarrow> parts' = parts)
    \<and> (get_segment_payload msn s = Some bytes \<longrightarrow>
        (\<exists>n > 0. bytes = concat (map (\<lambda>i. the (get_part_payload msn (int i) s)) [0..<n]) \<and> (\<forall>i < n. get_part_payload msn (int i) s \<noteq> None)
           \<and> get_part_payload msn (int n) s = None))"
proof -
  have w: "window_wf s" using storage_steps_ok [OF assms(2)] window_new [OF assms(1)] by blast
  have w': "window_wf s'" and l: "later s s'" using storage_steps_ok [OF assms(3) w] by blast+
  have same: "\<exists>seg \<in> set (sto_segments s). lg_msn seg = msn \<and> prefix (lg_parts seg) (lg_parts seg') \<and> (lg_completed seg \<longrightarrow> lg_parts seg' = lg_parts seg)"
    if "seg' \<in> set (sto_segments s')" "lg_msn seg' = msn" "seg0 \<in> set (sto_segments s)" "lg_msn seg0 = msn" for seg' seg0
  proof -
    have "lg_msn seg' < sto_next_msn s" using msn_bounds [OF w that(3)] that(2,4) by simp
    moreover have "\<forall>seg' \<in> set (sto_segments s'). lg_msn seg' < sto_next_msn s \<longrightarrow>
          (\<exists>seg \<in> set (sto_segments s). lg_msn seg = lg_msn seg' \<and> prefix (lg_parts seg) (lg_parts seg')
             \<and> (lg_completed seg \<longrightarrow> lg_completed seg' \<and> lg_parts seg' = lg_parts seg))" using l by (simp add: later_def)
    ultimately show ?thesis using that(1,2) by metis
  qed
  have part: "part' = part" if g: "get_part msn psn s = Some part" "get_part msn psn s' = Some part'"
  proof -
    obtain seg where seg: "seg \<in> set (sto_segments s)" "lg_msn seg = msn" "0 \<le> psn" "nat psn < length (lg_parts seg)" "part = lg_parts seg ! nat psn"
      using iffD1 [OF get_part_iff [OF w] g(1)] by blast
    obtain seg' where seg': "seg' \<in> set (sto_segments s')" "lg_msn seg' = msn" "part' = lg_parts seg' ! nat psn"
      using iffD1 [OF get_part_iff [OF w'] g(2)] by blast
    obtain seg1 where seg1: "seg1 \<in> set (sto_segments s)" "lg_msn seg1 = msn" "prefix (lg_parts seg1) (lg_parts seg')" using same [OF seg'(1,2) seg(1,2)] by blast
    have "seg1 = seg" using segment_unique [OF w seg1(1) seg(1)] seg1(2) seg(2) by simp
    then show ?thesis using seg1(3) seg(4,5) seg'(3) by (auto simp: prefix_def nth_append)
  qed
  have psn: "lp_psn part = psn" if g: "get_part msn psn s = Some part"
  proof -
    obtain seg where seg: "seg \<in> set (sto_segments s)" "0 \<le> psn" "nat psn < length (lg_parts seg)" "part = lg_parts seg ! nat psn"
      using iffD1 [OF get_part_iff [OF w] g] by blast
    have "map lp_psn (lg_parts seg) = map int [0..<length (lg_parts seg)]" using window_wfD(10) [OF w seg(1)] by (simp add: segment_wf_def)
    then have "map lp_psn (lg_parts seg) ! nat psn = map int [0..<length (lg_parts seg)] ! nat psn" by simp
    then show ?thesis using seg(2-4) by simp
  qed
  have seg: "parts' = parts" if g: "get_segment msn s = Some parts" "get_segment msn s' = Some parts'"
  proof -
    obtain seg where seg: "seg \<in> set (sto_segments s)" "lg_msn seg = msn" "lg_completed seg" "parts = lg_parts seg"
      using iffD1 [OF get_segment_iff [OF w] g(1)] by blast
    obtain seg' where seg': "seg' \<in> set (sto_segments s')" "lg_msn seg' = msn" "parts' = lg_parts seg'"
      using iffD1 [OF get_segment_iff [OF w'] g(2)] by blast
    obtain seg1 where "seg1 \<in> set (sto_segments s)" "lg_msn seg1 = msn" "lg_completed seg1 \<longrightarrow> lg_parts seg' = lg_parts seg1" using same [OF seg'(1,2) seg(1,2)] by blast
    then show ?thesis using segment_unique [OF w _ seg(1), of seg1] seg(2,3,4) seg'(3) by simp
  qed
  have bytes: "\<exists>n > 0. bytes = concat (map (\<lambda>i. the (get_part_payload msn (int i) s)) [0..<n]) \<and> (\<forall>i < n. get_part_payload msn (int i) s \<noteq> None)
           \<and> get_part_payload msn (int n) s = None" if g: "get_segment_payload msn s = Some bytes"
  proof -
    obtain ps where ps: "get_segment msn s = Some ps" "bytes = concat (map lp_payload ps)" using g by (auto simp: get_segment_payload_def)
    obtain seg where seg: "seg \<in> set (sto_segments s)" "lg_msn seg = msn" "ps = lg_parts seg" using iffD1 [OF get_segment_iff [OF w] ps(1)] by blast
    have p: "get_part_payload msn (int i) s = (if i < length ps then Some (lp_payload (ps ! i)) else None)" for i
      using iffD2 [OF find_iff [OF w], of seg msn] seg by (simp add: get_part_payload_def get_part_def)
    have "ps \<noteq> []" using window_wfD(10) [OF w seg(1)] seg(3) by (simp add: segment_wf_def)
    moreover have "map (\<lambda>i. the (get_part_payload msn (int i) s)) [0..<length ps] = map lp_payload ps" by (rule nth_equalityI) (simp_all add: p)
    ultimately show ?thesis using ps(2) by (intro exI [of _ "length ps"]) (simp add: p)
  qed
  show ?thesis using part psn seg bytes by blast
qed

lemma steps_refl: "storage_steps s s"
  by (simp add: storage_steps_def)

lemma steps_append: "storage_steps s t \<Longrightarrow> storage_steps s (append_part payload d i c t)"
  unfolding storage_steps_def by (erule rtranclp.rtrancl_into_rtrancl) (simp add: storage_step_def storage_notify.append)

theorem llhls_names_fixed_witness:
  "let s = append_part [2, 3] 400000 False True (append_part [1] 500000 True False (SrsLlHlsStorage_new llhls_config));
       s' = append_part [4] 500000 True True s in
   get_part 0 1 s = Some \<lparr>lp_psn = 1, lp_duration = 400000, lp_independent = False, lp_payload = [2, 3]\<rparr> \<and> get_part 0 1 s' = get_part 0 1 s
   \<and> get_segment 0 s' = get_segment 0 s \<and> get_segment 0 s \<noteq> None \<and> get_segment_payload 0 s = Some [1, 2, 3]"
proof -
  define s where "s = append_part [2, 3] 400000 False True (append_part [1] 500000 True False (SrsLlHlsStorage_new llhls_config))"
  define s' where "s' = append_part [4] 500000 True True s"
  have mx: "sto_max_segments s = 10" by (simp add: s_def append_part_def open_segment_def storage_shrink_def Let_def SrsLlHlsStorage_new_def llhls_config_def SrsSimpleConfig.extend_def)
  have g: "sto_segments s = [\<lparr>lg_msn = 0, lg_duration = 900000, lg_completed = True, lg_parts = [\<lparr>lp_psn = 0, lp_duration = 500000, lp_independent = True, lp_payload = [1]\<rparr>,
      \<lparr>lp_psn = 1, lp_duration = 400000, lp_independent = False, lp_payload = [2, 3]\<rparr>]\<rparr>]"
    by (simp add: s_def append_part_def open_segment_def storage_shrink_def Let_def SrsLlHlsStorage_new_def SrsLlHlsSegment_new_def llhls_config_def SrsSimpleConfig.extend_def)
  have g': "\<exists>seg. sto_segments s' = sto_segments s @ [seg]" using mx by (simp add: s'_def append_part_def open_segment_def storage_shrink_def Let_def g)
  have st: "storage_steps (SrsLlHlsStorage_new llhls_config) s" "storage_steps s s'"
    unfolding s_def s'_def by (intro steps_append steps_refl)+
  have f: "get_part 0 1 s = Some (lg_parts (hd (sto_segments s)) ! 1)" "get_segment 0 s = Some (lg_parts (hd (sto_segments s)))"
    by (simp_all add: get_part_def get_segment_def storage_find_def g)
  have f': "get_part 0 1 s' \<noteq> None" "get_segment 0 s' \<noteq> None" using g' by (auto simp: get_part_def get_segment_def storage_find_def g)
  obtain part' parts' where p: "get_part 0 1 s' = Some part'" "get_segment 0 s' = Some parts'" using f' by blast
  note t = llhls_names_fixed [OF llhls_config_count st]
  have "part' = lg_parts (hd (sto_segments s)) ! 1" using t f(1) p(1) by blast
  moreover have "parts' = lg_parts (hd (sto_segments s))" using t f(2) p(2) by blast
  ultimately have "get_part 0 1 s' = get_part 0 1 s" "get_segment 0 s' = get_segment 0 s" using f p by simp_all
  then show ?thesis using f g by (simp add: Let_def get_segment_payload_def flip: s_def s'_def)
qed

end
