(* ===== verification/Mp4Read.thy ===== *)
theory Mp4Read
  imports Complex_Main Mp4
begin

text \<open>
  What the encoders of \<open>Mp4\<close> write, as bytes (\<open>runs\<close>, boxes), a reader of fragmented MP4 for a player, and the round trip
  of a fragment: it gives its samples back.
\<close>

section \<open>What the operations write\<close>

text \<open>
  \<open>runs p m v xs\<close>: at position \<open>p\<close> of a buffer with room the operation \<open>m\<close> returns \<open>v\<close> and has written \<open>xs\<close>. It extends
  \<open>writes\<close> to operations that return a value or depend on the position.
\<close>

definition stored :: "byte list \<Rightarrow> SrsBuffer \<Rightarrow> SrsBuffer" where
  "stored xs b = b\<lparr>buf_bytes := take (buf_p b) (buf_bytes b) @ xs @ drop (buf_p b + length xs) (buf_bytes b), buf_p := buf_p b + length xs\<rparr>"

definition runs :: "nat \<Rightarrow> (SrsBuffer \<Rightarrow> ('a \<times> SrsBuffer) result) \<Rightarrow> 'a \<Rightarrow> byte list \<Rightarrow> bool" where
  "runs p m v xs \<longleftrightarrow> (\<forall>b. buf_wf b \<longrightarrow> buf_p b = p \<longrightarrow> length xs \<le> length (buf_rest b) \<longrightarrow> m b = Inr (v, stored xs b))"

lemma stored_props:
  assumes "buf_wf b" and "length xs \<le> length (buf_rest b)"
  shows "buf_wf (stored xs b)" "buf_p (stored xs b) = buf_p b + length xs" "length (buf_rest (stored xs b)) = length (buf_rest b) - length xs"
    "length (buf_bytes (stored xs b)) = length (buf_bytes b)"
  using assms by (auto simp: stored_def buf_wf_def buf_rest_def)

lemma stored_stored:
  assumes "buf_wf b" and "length (xs @ ys) \<le> length (buf_rest b)"
  shows "stored ys (stored xs b) = stored (xs @ ys) b"
  using assms by (simp add: stored_def buf_wf_def buf_rest_def min_def ac_simps)

lemma runs_writes: "writes m xs \<longleftrightarrow> (\<forall>p. runs p m () xs)"
  by (auto simp: writes_def runs_def store_def stored_def)

lemma runsI_writes: "writes m xs \<Longrightarrow> runs p m () xs"
  by (simp add: runs_writes)

lemma runs_bnd:
  assumes "runs p m v xs" and "runs (p + length xs) (f v) w ys"
  shows "runs p (bnd m f) w (xs @ ys)"
  unfolding runs_def
proof (intro allI impI)
  fix b assume b: "buf_wf b" "buf_p b = p" "length (xs @ ys) \<le> length (buf_rest b)"
  then have l: "length xs \<le> length (buf_rest b)" by simp
  note s = stored_props [OF b(1) l]
  have "m b = Inr (v, stored xs b)" using assms(1) b l by (simp add: runs_def)
  moreover have "f v (stored xs b) = Inr (w, stored ys (stored xs b))" using assms(2) s b by (simp add: runs_def)
  ultimately show "bnd m f b = Inr (w, stored (xs @ ys) b)" using stored_stored [OF b(1,3)] by (simp add: bnd_def)
qed

lemma runs_ret: "runs p (ret v) v []"
  by (simp add: runs_def ret_def stored_def)

lemma runs_get_pos: "runs p get_pos p []"
  by (simp add: runs_def get_pos_def stored_def)

lemma runs_map: "runs p m v xs \<Longrightarrow> runs p (bnd m (\<lambda>v. ret (g v))) (g v) xs"
  using runs_bnd [OF _ runs_ret, of p m v xs g] by simp

section \<open>Boxes as bytes\<close>

definition box_bytes :: "string \<Rightarrow> byte list \<Rightarrow> byte list" where
  "box_bytes type xs = be4 (word_of_nat (8 + length xs)) @ string_bytes type @ xs"

definition full_bytes :: "string \<Rightarrow> byte \<Rightarrow> 32 word \<Rightarrow> byte list \<Rightarrow> byte list" where
  "full_bytes type version flags xs = box_bytes type (version # be3 flags @ xs)"

lemma length_be [simp]: "length (be3 v) = 3" "length (be4 v) = 4"
  by (simp_all add: be3_def be4_def)

lemma length_box [simp]: "length (box_bytes type xs) = 4 + length type + length xs"
  by (simp add: box_bytes_def)

lemma length_full [simp]: "length (full_bytes type version flags xs) = 8 + length type + length xs"
  by (simp add: full_bytes_def)

lemma runs_open: "runs p (srs_mp4_box_open type) p (be4 0 @ string_bytes type)"
proof -
  have "runs p (srs_mp4_box_open type) p ([] @ be4 0 @ string_bytes type @ [])"
    unfolding srs_mp4_box_open_def be4_def
    by (rule runs_bnd runs_get_pos runsI_writes [OF writes_4bytes] runsI_writes [OF writes_bytes] runs_ret)+
  then show ?thesis by simp
qed

text \<open>Closing fills in the size.\<close>

lemma runs_boxed:
  assumes "length type = 4" and "runs p opened p (be4 0 @ string_bytes type @ hs)" and "runs (p + 8 + length hs) body v xs"
  shows "runs p (bnd opened (\<lambda>start. bnd body (\<lambda>v. bnd (srs_mp4_box_close start) (\<lambda>_. ret v)))) v (box_bytes type (hs @ xs))"
  unfolding runs_def
proof (intro allI impI)
  fix b assume b: "buf_wf b" "buf_p b = p" "length (box_bytes type (hs @ xs)) \<le> length (buf_rest b)"
  let ?zs = "be4 0 @ string_bytes type @ hs @ xs"
  have l: "length ?zs \<le> length (buf_rest b)" using b(3) by simp
  have "runs p (bnd opened (\<lambda>start. bnd body (\<lambda>v. ret (start, v)))) (p, v) ((be4 0 @ string_bytes type @ hs) @ xs @ [])"
    by (rule runs_bnd, rule assms(2), rule runs_bnd, use assms(1,3) in \<open>simp add: add.assoc\<close>, rule runs_ret)
  then have r: "bnd opened (\<lambda>start. bnd body (\<lambda>v. ret (start, v))) b = Inr ((p, v), stored ?zs b)"
    using b l by (simp add: runs_def)
  let ?s = "stored ?zs b"
  have p: "buf_p ?s = p + 8 + length hs + length xs" using stored_props(2) [OF b(1) l] b(2) assms(1) by simp
  have len: "p + 8 + length hs + length xs \<le> length (buf_bytes b)" using b assms(1) by (simp add: buf_rest_def)
  have "srs_mp4_box_close p ?s = Inr ((), stored (box_bytes type (hs @ xs)) b)"
    using p b(2) len assms(1)
    by (simp add: srs_mp4_box_close_def get_pos_def bnd_def srs_mp4_patch_4bytes_def stored_def box_bytes_def ac_simps)
  with r show "bnd opened (\<lambda>start. bnd body (\<lambda>v. bnd (srs_mp4_box_close start) (\<lambda>_. ret v))) b = Inr (v, stored (box_bytes type (hs @ xs)) b)"
    by (auto simp: bnd_def ret_def split: sum.splits prod.splits)
qed

lemma runs_box: "length type = 4 \<Longrightarrow> runs (p + 8) body v xs \<Longrightarrow> runs p (mp4_box type body) v (box_bytes type xs)"
  using runs_boxed [of type p "srs_mp4_box_open type" "[]"] runs_open [of p type] by (simp add: mp4_box_def)

lemma runs_full_box:
  assumes "length type = 4" and "runs (p + 12) body v xs"
  shows "runs p (mp4_full_box type version flags body) v (full_bytes type version flags xs)"
proof -
  have "runs p (srs_mp4_full_box_open type version flags) p ((be4 0 @ string_bytes type) @ [version] @ be3 flags @ [])"
    unfolding srs_mp4_full_box_open_def be3_def
    by (rule runs_bnd runs_open runsI_writes [OF writes_1bytes] runsI_writes [OF writes_3bytes] runs_ret)+
  then show ?thesis using runs_boxed [OF assms(1), of p "srs_mp4_full_box_open type version flags" "version # be3 flags" body v xs] assms(2)
    by (simp add: mp4_full_box_def full_bytes_def add.commute)
qed

named_theorems box_writes \<open>what the operations on boxes write\<close>

lemma writes_box [box_writes]: "length type = 4 \<Longrightarrow> writes body xs \<Longrightarrow> writes (mp4_box type body) (box_bytes type xs)"
  by (simp add: runs_writes runs_box)

lemma writes_full_box [box_writes]: "length type = 4 \<Longrightarrow> writes body xs \<Longrightarrow> writes (mp4_full_box type version flags body) (full_bytes type version flags xs)"
  by (simp add: runs_writes runs_full_box)

lemma writes_all_Nil [box_writes]: "writes (write_all []) []"
  by (simp add: writes_ret)

lemma writes_all_Cons [box_writes]: "writes m xs \<Longrightarrow> writes (write_all ms) ys \<Longrightarrow> writes (write_all (m # ms)) (xs @ ys)"
  by (simp add: writes_bnd)

lemma write_all_append: "write_all (ms @ ns) = bnd (write_all ms) (\<lambda>_. write_all ns)"
  by (induction ms) (simp_all add: bnd_def ret_def fun_eq_iff split: sum.split)

lemma writes_all_append [box_writes]: "writes (write_all ms) xs \<Longrightarrow> writes (write_all ns) ys \<Longrightarrow> writes (write_all (ms @ ns)) (xs @ ys)"
  by (simp add: write_all_append writes_bnd)

lemma writes_all_map [box_writes]:
  assumes "\<And>v. writes (f v) (g v)"
  shows "writes (write_all (map f vs)) (concat (map g vs))"
  by (induction vs) (simp_all add: writes_ret writes_bnd assms)

lemma writes_all_replicate [box_writes]: "writes m xs \<Longrightarrow> writes (write_all (replicate n m)) (concat (replicate n xs))"
  by (induction n) (simp_all add: writes_ret writes_bnd)

definition be2 :: "16 word \<Rightarrow> byte list" where
  "be2 v = rev (le_bytes 2 (uint v))"

lemma length_be2 [simp]: "length (be2 v) = 2"
  by (simp add: be2_def)

lemma writes_be [box_writes]: "writes (write_2bytes v2) (be2 v2)" "writes (write_3bytes v) (be3 v)" "writes (write_4bytes v) (be4 v)"
  by (simp_all add: be2_def be3_def be4_def writes_2bytes writes_3bytes writes_4bytes)

lemmas [box_writes] = writes_1bytes writes_bytes writes_ret

section \<open>Reading boxes\<close>

definition rd4 :: "byte list \<Rightarrow> 32 word" where
  "rd4 bs = word_of_int (le_val (rev (take 4 bs)))"

function read_boxes :: "byte list \<Rightarrow> (byte list \<times> byte list) list option" where
  "read_boxes bs =
     (if bs = [] then Some []
      else let n = unat (rd4 bs) in
           if length bs < 8 \<or> n < 8 \<or> length bs < n then None
           else map_option ((#) (take 4 (drop 4 bs), take (n - 8) (drop 8 bs))) (read_boxes (drop n bs)))"
  by pat_completeness auto
termination by (relation "measure length") auto

declare read_boxes.simps [simp del]

lemma rd4_be4 [simp]: "rd4 (be4 v @ xs) = v"
  using word_of_le_bytes [where w = v] by (simp add: rd4_def be4_def)

lemma read_boxes_Nil [simp]: "read_boxes [] = Some []"
  by (simp add: read_boxes.simps)

lemma read_boxes_box [simp]:
  assumes "length type = 4" and "length xs + 8 < 2 ^ 32"
  shows "read_boxes (box_bytes type xs @ ys) = map_option ((#) (string_bytes type, xs)) (read_boxes ys)"
proof -
  have n: "unat (word_of_nat (8 + length xs) :: 32 word) = 8 + length xs" using assms(2) by (simp only: unsigned_of_nat) (simp add: take_bit_nat_eq_self)
  have r: "rd4 (box_bytes type xs @ ys) = word_of_nat (8 + length xs)" by (simp add: box_bytes_def)
  have d: "drop (8 + length xs) (box_bytes type xs @ ys) = ys" using assms(1) by (simp add: box_bytes_def)
  show ?thesis unfolding read_boxes.simps [of "box_bytes type xs @ ys"] Let_def r n d
    using assms(1) by (cases type) (simp_all add: box_bytes_def)
qed

lemma read_boxes_full [simp]:
  "length type = 4 \<Longrightarrow> length xs + 12 < 2 ^ 32 \<Longrightarrow>
    read_boxes (full_bytes type version flags xs @ ys) = map_option ((#) (string_bytes type, version # be3 flags @ xs)) (read_boxes ys)"
  by (simp add: full_bytes_def)

section \<open>The bytes of a fragment\<close>

definition be8 :: "64 word \<Rightarrow> byte list" where
  "be8 v = rev (le_bytes 8 (uint v))"

lemma length_be8 [simp]: "length (be8 v) = 8"
  by (simp add: be8_def)

definition traf_bytes :: "SrsMp4HandlerType \<Rightarrow> 32 word \<Rightarrow> 64 word \<Rightarrow> SrsMp4Sample list \<Rightarrow> 32 word \<Rightarrow> byte list" where
  "traf_bytes ht tid end_dts tses offset = box_bytes ''traf'' (full_bytes ''tfhd'' 0 0x020000 (be4 tid) @ full_bytes ''tfdt'' 1 0 (be8 (ps_dts (hd tses)))
     @ full_bytes ''trun'' (trun_version tses) 0x000f01 (be4 (word_of_nat (length tses)) @ be4 offset
         @ concat (map be4 (concat (map (trun_entry ht) (zip tses (durations end_dts 0 tses)))))))"

lemma length_durations [simp]: "length (durations end_dts previous tses) = length tses"
  by (induction end_dts previous tses rule: durations.induct) auto

lemma length_entries [simp]: "length (concat (map be4 (concat (map (trun_entry ht) xs)))) = 16 * length xs"
  by (induction xs) (auto simp: trun_entry_def)

lemma length_traf [simp]: "length (traf_bytes ht tid end_dts tses offset) = 64 + 16 * length tses"
  by (simp add: traf_bytes_def)

lemma runs_traf:
  "runs p (write_traf samples ht tid end_dts) (p + 60) (traf_bytes ht tid end_dts (filter (\<lambda>sample. ps_type sample = ht) samples) 0)"
proof -
  let ?tses = "filter (\<lambda>sample. ps_type sample = ht) samples"
  let ?es = "concat (map be4 (concat (map (trun_entry ht) (zip ?tses (durations end_dts 0 ?tses)))))"
  have trun: "runs (q + 12) (bnd (write_4bytes (word_of_nat (length ?tses))) (\<lambda>_. bnd get_pos (\<lambda>data_offset_pos. bnd (write_4bytes 0) (\<lambda>_.
      bnd (write_all (map write_4bytes (concat (map (trun_entry ht) (zip ?tses (durations end_dts 0 ?tses)))))) (\<lambda>_. ret data_offset_pos)))))
      (q + 16) (be4 (word_of_nat (length ?tses)) @ [] @ be4 0 @ ?es @ [])" for q
    by (rule runs_bnd, rule runsI_writes [OF writes_be(3)], rule runs_bnd, rule runs_get_pos, rule runs_bnd, rule runsI_writes [OF writes_be(3)],
        rule runs_bnd, rule runsI_writes [OF writes_all_map [OF writes_be(3)]]) (simp add: runs_ret add.commute)
  have "runs (p + 8) (bnd (mp4_full_box ''tfhd'' 0 0x020000 (write_4bytes tid)) (\<lambda>_.
         bnd (mp4_full_box ''tfdt'' 1 0 (write_8bytes (ps_dts (hd ?tses)))) (\<lambda>_.
         mp4_full_box ''trun'' (trun_version ?tses) 0x000f01
           (bnd (write_4bytes (word_of_nat (length ?tses))) (\<lambda>_. bnd get_pos (\<lambda>data_offset_pos. bnd (write_4bytes 0) (\<lambda>_.
            bnd (write_all (map write_4bytes (concat (map (trun_entry ht) (zip ?tses (durations end_dts 0 ?tses)))))) (\<lambda>_. ret data_offset_pos))))))))
      (p + 44 + 16) (full_bytes ''tfhd'' 0 0x020000 (be4 tid) @ full_bytes ''tfdt'' 1 0 (be8 (ps_dts (hd ?tses)))
        @ full_bytes ''trun'' (trun_version ?tses) 0x000f01 (be4 (word_of_nat (length ?tses)) @ [] @ be4 0 @ ?es @ []))"
    by (rule runs_bnd, rule runs_full_box, simp, rule runsI_writes [OF writes_be(3)], rule runs_bnd, rule runs_full_box, simp,
        rule runsI_writes [OF writes_8bytes [folded be8_def]], rule runs_full_box, simp) (use trun [of "p + 44"] in \<open>simp add: add.commute\<close>)
  from runs_box [OF _ this, of "''traf''"] show ?thesis unfolding write_traf_def Let_def traf_bytes_def by (simp add: add.commute)
qed

text \<open>The tracks of a fragment: its samples and the bytes of the \<^verbatim>\<open>moof\<close> box with the two data offsets.\<close>

definition video_samples :: "SrsMp4M2tsSegmentEncoder \<Rightarrow> SrsMp4Sample list" where
  "video_samples enc = filter (\<lambda>sample. ps_type sample = SrsMp4HandlerTypeVIDE) (enc_samples enc)"

definition audio_samples :: "SrsMp4M2tsSegmentEncoder \<Rightarrow> SrsMp4Sample list" where
  "audio_samples enc = filter (\<lambda>sample. ps_type sample = SrsMp4HandlerTypeSOUN) (enc_samples enc)"

definition audio_track :: "SrsMp4M2tsSegmentEncoder \<Rightarrow> 32 word" where
  "audio_track enc = (if enc_audio_tid enc \<noteq> 0 then enc_audio_tid enc else if nb_videos enc \<noteq> 0 then track_id enc + 1 else track_id enc)"

definition moof_bytes :: "64 word \<Rightarrow> SrsMp4M2tsSegmentEncoder \<Rightarrow> 32 word \<Rightarrow> 32 word \<Rightarrow> byte list" where
  "moof_bytes dts enc voff aoff = box_bytes ''moof'' (full_bytes ''mfhd'' 0 0 (be4 (sequence_number enc))
     @ (if nb_videos enc \<noteq> 0 then traf_bytes SrsMp4HandlerTypeVIDE (track_id enc) dts (video_samples enc) voff else [])
     @ (if nb_audios enc \<noteq> 0 then traf_bytes SrsMp4HandlerTypeSOUN (audio_track enc) dts (audio_samples enc) aoff else []))"

definition video_traf_length :: "SrsMp4M2tsSegmentEncoder \<Rightarrow> nat" where
  "video_traf_length enc = (if nb_videos enc \<noteq> 0 then 64 + 16 * length (video_samples enc) else 0)"

lemma length_moof: "length (moof_bytes dts enc voff aoff) = 24 + video_traf_length enc + (if nb_audios enc \<noteq> 0 then 64 + 16 * length (audio_samples enc) else 0)"
  by (simp add: moof_bytes_def video_traf_length_def)

lemma runs_if: "(c \<Longrightarrow> runs p m v xs) \<Longrightarrow> (\<not> c \<Longrightarrow> runs p n w ys) \<Longrightarrow> runs p (if c then m else n) (if c then v else w) (if c then xs else ys)"
  by simp

lemma runs_moof:
  "runs 0 (mp4_moof dts enc) (if nb_videos enc \<noteq> 0 then Some 84 else None, if nb_audios enc \<noteq> 0 then Some (84 + video_traf_length enc) else None)
     (moof_bytes dts enc 0 0)"
proof -
  have v: "runs (8 + length (full_bytes ''mfhd'' 0 0 (be4 (sequence_number enc))))
      (if nb_videos enc \<noteq> 0 then bnd (write_traf (enc_samples enc) SrsMp4HandlerTypeVIDE (track_id enc) dts) (\<lambda>p. ret (Some p)) else ret None)
      (if nb_videos enc \<noteq> 0 then Some 84 else None)
      (if nb_videos enc \<noteq> 0 then traf_bytes SrsMp4HandlerTypeVIDE (track_id enc) dts (video_samples enc) 0 else [])"
    using runs_map [OF runs_traf [of 24 "enc_samples enc" SrsMp4HandlerTypeVIDE "track_id enc" dts], of Some] runs_ret [of 24 "None :: nat option"]
    by (simp add: video_samples_def)
  have a: "runs (8 + length (full_bytes ''mfhd'' 0 0 (be4 (sequence_number enc)))
        + length (if nb_videos enc \<noteq> 0 then traf_bytes SrsMp4HandlerTypeVIDE (track_id enc) dts (video_samples enc) 0 else []))
      (if nb_audios enc \<noteq> 0 then bnd (write_traf (enc_samples enc) SrsMp4HandlerTypeSOUN (audio_track enc) dts) (\<lambda>p. ret (Some p)) else ret None)
      (if nb_audios enc \<noteq> 0 then Some (84 + video_traf_length enc) else None)
      (if nb_audios enc \<noteq> 0 then traf_bytes SrsMp4HandlerTypeSOUN (audio_track enc) dts (audio_samples enc) 0 else [])"
    using runs_map [OF runs_traf [of "24 + video_traf_length enc" "enc_samples enc" SrsMp4HandlerTypeSOUN "audio_track enc" dts], of Some]
      runs_ret [of "24 + video_traf_length enc" "None :: nat option"]
    by (cases "nb_videos enc = 0") (simp_all add: audio_samples_def video_traf_length_def)
  have "runs 8 (bnd (mp4_full_box ''mfhd'' 0 0 (write_4bytes (sequence_number enc))) (\<lambda>_.
      bnd (if nb_videos enc \<noteq> 0 then bnd (write_traf (enc_samples enc) SrsMp4HandlerTypeVIDE (track_id enc) dts) (\<lambda>p. ret (Some p)) else ret None) (\<lambda>video_offset_pos.
      bnd (if nb_audios enc \<noteq> 0
           then bnd (write_traf (enc_samples enc) SrsMp4HandlerTypeSOUN (audio_track enc) dts) (\<lambda>p. ret (Some p))
           else ret None) (\<lambda>audio_offset_pos. ret (video_offset_pos, audio_offset_pos)))))
    (if nb_videos enc \<noteq> 0 then Some 84 else None, if nb_audios enc \<noteq> 0 then Some (84 + video_traf_length enc) else None)
    (full_bytes ''mfhd'' 0 0 (be4 (sequence_number enc))
      @ (if nb_videos enc \<noteq> 0 then traf_bytes SrsMp4HandlerTypeVIDE (track_id enc) dts (video_samples enc) 0 else [])
      @ (if nb_audios enc \<noteq> 0 then traf_bytes SrsMp4HandlerTypeSOUN (audio_track enc) dts (audio_samples enc) 0 else []))"
    by (rule runs_bnd, rule runs_full_box, simp, rule runsI_writes [OF writes_be(3)], rule runs_bnd, rule v, rule runs_map, rule a)
  then show ?thesis unfolding mp4_moof_def audio_track_def [symmetric] moof_bytes_def by (intro runs_box) simp_all
qed

text \<open>A patch inside what was written changes four bytes of it.\<close>

lemma patch_stored:
  assumes "buf_wf b" and "length (xs @ be4 u @ ys) \<le> length (buf_rest b)" and "p = buf_p b + length xs"
  shows "srs_mp4_patch_4bytes p v (stored (xs @ be4 u @ ys) b) = Inr ((), stored (xs @ be4 v @ ys) b)"
  using assms by (simp add: srs_mp4_patch_4bytes_def stored_def buf_wf_def buf_rest_def min_def)

lemma box_split: "box_bytes type (hs @ xs) = (be4 (word_of_nat (8 + length hs + length xs)) @ string_bytes type @ hs) @ xs"
  by (simp add: box_bytes_def add.assoc)

lemma traf_split:
  "\<exists>xs ys. length xs = 60 \<and> (\<forall>offset. traf_bytes ht tid end_dts tses offset = xs @ be4 offset @ ys)"
proof -
  let ?es = "concat (map be4 (concat (map (trun_entry ht) (zip tses (durations end_dts 0 tses)))))"
  let ?h = "full_bytes ''tfhd'' 0 0x020000 (be4 tid) @ full_bytes ''tfdt'' 1 0 (be8 (ps_dts (hd tses)))"
  let ?n = "be4 (word_of_nat (length tses))"
  have "traf_bytes ht tid end_dts tses offset
      = (be4 (word_of_nat (8 + length ?h + (20 + length ?es))) @ string_bytes ''traf'' @ ?h
          @ be4 (word_of_nat (20 + length ?es)) @ string_bytes ''trun'' @ [trun_version tses] @ be3 0x000f01 @ ?n) @ be4 offset @ ?es" for offset
    unfolding traf_bytes_def full_bytes_def [of "''trun''"] box_bytes_def [of "''traf''"] box_bytes_def [of "''trun''"] by (simp add: add.assoc)
  moreover have "length (be4 (word_of_nat (8 + length ?h + (20 + length ?es))) @ string_bytes ''traf'' @ ?h
          @ be4 (word_of_nat (20 + length ?es)) @ string_bytes ''trun'' @ [trun_version tses] @ be3 0x000f01 @ ?n) = 60" by simp
  ultimately show ?thesis by blast
qed

lemma moof_split_video:
  assumes "nb_videos enc \<noteq> 0"
  shows "\<exists>xs ys. length xs = 84 \<and> (\<forall>voff. moof_bytes dts enc voff aoff = xs @ be4 voff @ ys)"
proof -
  obtain xs ys where t: "length xs = 60" "\<And>offset. traf_bytes SrsMp4HandlerTypeVIDE (track_id enc) dts (video_samples enc) offset = xs @ be4 offset @ ys"
    using traf_split by blast
  let ?m = "full_bytes ''mfhd'' 0 0 (be4 (sequence_number enc))"
  let ?a = "if nb_audios enc \<noteq> 0 then traf_bytes SrsMp4HandlerTypeSOUN (audio_track enc) dts (audio_samples enc) aoff else []"
  have "moof_bytes dts enc voff aoff = (be4 (word_of_nat (8 + length (?m @ xs) + (4 + length ys + length ?a))) @ string_bytes ''moof'' @ ?m @ xs) @ be4 voff @ (ys @ ?a)" for voff
    unfolding moof_bytes_def box_bytes_def [of "''moof''"] using assms t by (simp add: add.assoc)
  moreover have "length (be4 (word_of_nat (8 + length (?m @ xs) + (4 + length ys + length ?a))) @ string_bytes ''moof'' @ ?m @ xs) = 84" using t(1) by simp
  ultimately show ?thesis by blast
qed

lemma moof_split_audio:
  assumes "nb_audios enc \<noteq> 0"
  shows "\<exists>xs ys. length xs = 84 + video_traf_length enc \<and> (\<forall>aoff. moof_bytes dts enc voff aoff = xs @ be4 aoff @ ys)"
proof -
  obtain xs ys where t: "length xs = 60" "\<And>offset. traf_bytes SrsMp4HandlerTypeSOUN (audio_track enc) dts (audio_samples enc) offset = xs @ be4 offset @ ys"
    using traf_split by blast
  let ?m = "full_bytes ''mfhd'' 0 0 (be4 (sequence_number enc))"
  let ?v = "if nb_videos enc \<noteq> 0 then traf_bytes SrsMp4HandlerTypeVIDE (track_id enc) dts (video_samples enc) voff else []"
  let ?pre = "be4 (word_of_nat (8 + length (?m @ ?v @ xs) + (4 + length ys))) @ string_bytes ''moof'' @ ?m @ ?v @ xs"
  have "moof_bytes dts enc voff aoff = ?pre @ be4 aoff @ ys" for aoff
    unfolding moof_bytes_def box_bytes_def [of "''moof''"] using assms t by (simp add: add.assoc)
  moreover have "length ?pre = 84 + video_traf_length enc" using t(1) by (simp add: video_traf_length_def)
  ultimately show ?thesis by blast
qed

text \<open>The fragment with its data offsets.\<close>

lemma fragment_written:
  assumes "length (moof_bytes dts enc 0 0) \<le> length bs"
  shows "\<exists>b. mp4_fragment dts enc (SrsBuffer_new bs) = Inr ((), b)
    \<and> take (buf_p b) (buf_bytes b) = moof_bytes dts enc (word_of_nat (length (moof_bytes dts enc 0 0) + 8)) (word_of_nat (length (moof_bytes dts enc 0 0) + 8 + length (enc_video_data enc)))"
proof -
  let ?b = "SrsBuffer_new bs"
  define n where "n = length (moof_bytes dts enc 0 0)"
  let ?voff = "word_of_nat (n + 8) :: 32 word" and ?aoff = "word_of_nat (n + 8 + length (enc_video_data enc)) :: 32 word"
  have n: "length (moof_bytes dts enc voff aoff) = n" for voff aoff unfolding n_def length_moof ..
  have b: "buf_wf ?b" "buf_p ?b = 0" "n \<le> length (buf_rest ?b)" using assms by (simp_all add: n_def) (simp add: SrsBuffer_new_def)
  define vpos where "vpos = (if nb_videos enc \<noteq> 0 then Some 84 else None :: nat option)"
  define apos where "apos = (if nb_audios enc \<noteq> 0 then Some (84 + video_traf_length enc) else None)"
  have 1: "mp4_moof dts enc ?b = Inr ((vpos, apos), stored (moof_bytes dts enc 0 0) ?b)"
    using runs_moof [of dts enc] b n by (simp add: runs_def vpos_def apos_def)
  define voff' where "voff' = (if nb_videos enc \<noteq> 0 then ?voff else 0)"
  have 2: "(case vpos of Some p \<Rightarrow> srs_mp4_patch_4bytes p ?voff | None \<Rightarrow> ret ()) (stored (moof_bytes dts enc 0 0) ?b) = Inr ((), stored (moof_bytes dts enc ?voff 0) ?b)"
  proof (cases "nb_videos enc = 0")
    case True
    have "moof_bytes dts enc ?voff 0 = moof_bytes dts enc 0 0" using True by (simp add: moof_bytes_def)
    then show ?thesis using True by (simp add: vpos_def ret_def)
  next
    case False
    from moof_split_video [OF False, of dts 0] obtain xs ys where s: "length xs = 84" "\<And>voff. moof_bytes dts enc voff 0 = xs @ be4 voff @ ys" by blast
    have "length (xs @ be4 0 @ ys) \<le> length (buf_rest ?b)" using b(3) n [of 0 0] unfolding s(2) by simp
    from patch_stored [OF b(1) this, of 84 ?voff] show ?thesis using False s(1) b(2) unfolding s(2) by (simp add: vpos_def)
  qed
  have 3: "(case apos of Some p \<Rightarrow> srs_mp4_patch_4bytes p ?aoff | None \<Rightarrow> ret ()) (stored (moof_bytes dts enc ?voff 0) ?b) = Inr ((), stored (moof_bytes dts enc ?voff ?aoff) ?b)"
  proof (cases "nb_audios enc = 0")
    case True
    have "moof_bytes dts enc ?voff ?aoff = moof_bytes dts enc ?voff 0" using True by (simp add: moof_bytes_def)
    then show ?thesis using True by (simp add: apos_def ret_def)
  next
    case False
    from moof_split_audio [OF False, of dts ?voff] obtain xs ys where
      s: "length xs = 84 + video_traf_length enc" "\<And>aoff. moof_bytes dts enc ?voff aoff = xs @ be4 aoff @ ys" by blast
    have "length (xs @ be4 0 @ ys) \<le> length (buf_rest ?b)" using b(3) n [of ?voff 0] unfolding s(2) by simp
    from patch_stored [OF b(1) this, of "84 + video_traf_length enc" ?aoff] show ?thesis using False s(1) b(2) unfolding s(2) by (simp add: apos_def)
  qed
  have pos: "get_pos (stored (moof_bytes dts enc 0 0) ?b) = Inr (n, stored (moof_bytes dts enc 0 0) ?b)"
    using stored_props(2) [OF b(1), of "moof_bytes dts enc 0 0"] b n by (simp add: get_pos_def)
  have "mp4_fragment dts enc ?b = Inr ((), stored (moof_bytes dts enc ?voff ?aoff) ?b)"
    using 1 2 3 pos by (simp add: mp4_fragment_def bnd_def)
  moreover have "take (buf_p (stored xs ?b)) (buf_bytes (stored xs ?b)) = xs" for xs
    by (simp add: stored_def SrsBuffer_new_def)
  ultimately show ?thesis unfolding n_def by blast
qed

lemma mdat_written: "\<exists>b. mp4_mdat n (SrsBuffer_new (replicate 8 0)) = Inr ((), b) \<and> take 8 (buf_bytes b) = be4 (word_of_nat (8 + n)) @ string_bytes ''mdat''"
proof -
  have "writes (mp4_mdat n) (be4 (word_of_nat (8 + n)) @ string_bytes ''mdat'' @ [])"
    unfolding mp4_mdat_def by (rule box_writes)+
  from writes_exact [OF this, of "replicate 8 0"] show ?thesis by simp
qed

section \<open>What a player reads\<close>

text \<open>
  The samples of a track: a time that starts with the one in \<^verbatim>\<open>tfdt\<close> and grows by the durations, the flags, the composition
  offset, and the bytes from the data offset on. Times are taken modulo 2^32, the width of the durations.
\<close>

fun read_entries :: "nat \<Rightarrow> byte list \<Rightarrow> (32 word \<times> 32 word \<times> 32 word \<times> 32 word) list" where
  "read_entries 0 bs = []"
| "read_entries (Suc n) bs = (rd4 bs, rd4 (drop 4 bs), rd4 (drop 8 bs), rd4 (drop 12 bs)) # read_entries n (drop 16 bs)"

fun play :: "32 word \<Rightarrow> byte list \<Rightarrow> (32 word \<times> 32 word \<times> 32 word \<times> 32 word) list \<Rightarrow> (32 word \<times> 32 word \<times> 32 word \<times> byte list) list" where
  "play t bs [] = []"
| "play t bs ((duration, sz, flags, cts) # es) = (t, flags, cts, take (unat sz) bs) # play (t + duration) (drop (unat sz) bs) es"

definition read_traf :: "byte list \<Rightarrow> byte list \<Rightarrow> (32 word \<times> (32 word \<times> 32 word \<times> 32 word \<times> byte list) list) option" where
  "read_traf moof_on bs =
     (case read_boxes bs of
        Some [(t1, tfhd), (t2, tfdt), (t3, trun)] \<Rightarrow>
          if t1 = string_bytes ''tfhd'' \<and> t2 = string_bytes ''tfdt'' \<and> t3 = string_bytes ''trun''
          then Some (rd4 (drop 4 tfhd), play (rd4 (drop 8 tfdt)) (drop (unat (rd4 (drop 8 trun))) moof_on) (read_entries (unat (rd4 (drop 4 trun))) (drop 12 trun)))
          else None
      | _ \<Rightarrow> None)"

definition read_fragment :: "byte list \<Rightarrow> (32 word \<times> (32 word \<times> (32 word \<times> 32 word \<times> 32 word \<times> byte list) list) option list) option" where
  "read_fragment file =
     (case read_boxes file of
        Some [(t1, styp), (t2, moof), (t3, mdat)] \<Rightarrow>
          if t1 = string_bytes ''styp'' \<and> t2 = string_bytes ''moof'' \<and> t3 = string_bytes ''mdat''
          then (case read_boxes moof of
                  Some ((t, mfhd) # trafs) \<Rightarrow>
                    if t = string_bytes ''mfhd'' \<and> list_all (\<lambda>x. fst x = string_bytes ''traf'') trafs
                    then Some (rd4 (drop 4 mfhd), map (\<lambda>x. read_traf (drop (8 + length styp) file) (snd x)) trafs) else None
                | _ \<Rightarrow> None)
          else None
      | _ \<Rightarrow> None)"

lemma rd4_app [simp]: "drop 4 (be4 v @ xs) = xs" "drop 8 (be8 u @ xs) = xs"
  by simp_all

lemma read_entries_back:
  "read_entries (length zs) (concat (map be4 (concat (map (trun_entry ht) zs))) @ ys)
    = map (\<lambda>(sample, duration). (ucast duration, ps_nb_data sample, sample_flags ht sample, ucast (ps_pts sample - ps_dts sample))) zs"
proof (induction zs)
  case (Cons z zs)
  obtain s d where z: "z = (s, d)" by fastforce
  let ?r = "concat (map be4 (concat (map (trun_entry ht) zs))) @ ys"
  have e: "concat (map be4 (concat (map (trun_entry ht) (z # zs)))) @ ys
      = be4 (ucast d) @ be4 (ps_nb_data s) @ be4 (sample_flags ht s) @ be4 (ucast (ps_pts s - ps_dts s)) @ ?r"
    by (simp add: z trun_entry_def)
  have d: "drop 8 (be4 a @ be4 b @ xs) = xs" "drop 12 (be4 a @ be4 b @ be4 c @ xs) = xs" "drop 16 (be4 a @ be4 b @ be4 c @ be4 c' @ xs) = xs" for a b c c' xs
    by simp_all
  show ?case unfolding e using Cons.IH by (simp add: z d)
qed simp

lemma word_mod: "(word_of_int (k mod 2 ^ 64) :: 32 word) = word_of_int k"
  by (simp only: word_of_int_eq_iff take_bit_eq_mod) (simp add: mod_mod_cancel)

lemma uint_diff: "uint (x - y :: 64 word) = (uint x - uint y) mod 2 ^ 64"
  using uint_word_ariths(2) [of x y] by simp
lemma ucast_down_diff: "(ucast (x - y :: 64 word) :: 32 word) = ucast x - ucast y"
proof -
  have "(ucast (x - y :: 64 word) :: 32 word) = word_of_int (uint (x - y))" by (rule ucast_eq)
  also have "\<dots> = word_of_int ((uint x - uint y) mod 2 ^ 64)" unfolding uint_diff ..
  also have "\<dots> = word_of_int (uint x - uint y)" by (rule word_mod)
  also have "\<dots> = word_of_int (uint x) - word_of_int (uint y)" by (rule wi_hom_sub [symmetric])
  finally show ?thesis by (simp only: ucast_eq [symmetric])
qed
lemma play_back:
  assumes "map ps_nb_data tses = map (\<lambda>d. word_of_nat (length d)) ds" and "list_all (\<lambda>d. length d < 2 ^ 32) ds" and "tses \<noteq> []"
  shows "play (ucast (ps_dts (hd tses))) (concat ds @ rest)
      (map (\<lambda>(sample, duration). (ucast duration, ps_nb_data sample, sample_flags ht sample, ucast (ps_pts sample - ps_dts sample))) (zip tses (durations end_dts previous tses)))
    = map (\<lambda>(sample, d). (ucast (ps_dts sample), sample_flags ht sample, ucast (ps_pts sample - ps_dts sample), d)) (zip tses ds)"
  using assms
proof (induction end_dts previous tses arbitrary: ds rule: durations.induct)
  case (2 end_dts previous sample)
  then obtain d where d: "ds = [d]" "ps_nb_data sample = word_of_nat (length d)" by (cases ds) auto
  have "unat (word_of_nat (length d) :: 32 word) = length d" using 2(2) d(1) by (simp add: unsigned_of_nat take_bit_nat_eq_self)
  then show ?case using d by simp
next
  case (3 end_dts previous sample nxt samples)
  then obtain d ds' where d: "ds = d # ds'" "ps_nb_data sample = word_of_nat (length d)" "map ps_nb_data (nxt # samples) = map (\<lambda>d. word_of_nat (length d)) ds'"
    "list_all (\<lambda>d. length d < 2 ^ 32) ds'" by (cases ds) auto
  have "unat (word_of_nat (length d) :: 32 word) = length d" using 3(3) d(1) by (simp add: unsigned_of_nat take_bit_nat_eq_self)
  moreover have "ucast (ps_dts sample) + ucast (ps_dts nxt - ps_dts sample) = (ucast (ps_dts nxt) :: 32 word)" by (simp add: ucast_down_diff)
  ultimately show ?case using 3(1) [OF d(3,4)] d(1,2) by simp
qed simp

lemma read_traf_back:
  assumes "map ps_nb_data tses = map (\<lambda>d. word_of_nat (length d)) ds" and "list_all (\<lambda>d. length d < 2 ^ 32) ds" and "tses \<noteq> []"
    and "16 * length tses + 100 < 2 ^ 32" and "drop (unat offset) moof_on = concat ds @ rest"
  shows "\<exists>xs. traf_bytes ht tid end_dts tses offset = box_bytes ''traf'' xs \<and> length xs = 56 + 16 * length tses
    \<and> read_traf moof_on xs = Some (tid, map (\<lambda>(sample, d). (ucast (ps_dts sample), sample_flags ht sample, ucast (ps_pts sample - ps_dts sample), d)) (zip tses ds))"
proof -
  let ?es = "concat (map be4 (concat (map (trun_entry ht) (zip tses (durations end_dts 0 tses)))))"
  let ?xs = "full_bytes ''tfhd'' 0 0x020000 (be4 tid) @ full_bytes ''tfdt'' 1 0 (be8 (ps_dts (hd tses)))
     @ full_bytes ''trun'' (trun_version tses) 0x000f01 (be4 (word_of_nat (length tses)) @ be4 offset @ ?es)"
  have l: "length ?es = 16 * length tses" by simp
  have b3: "read_boxes (full_bytes ''trun'' (trun_version tses) 0x000f01 (be4 (word_of_nat (length tses)) @ be4 offset @ ?es))
      = Some [(string_bytes ''trun'', trun_version tses # be3 0x000f01 @ be4 (word_of_nat (length tses)) @ be4 offset @ ?es)]"
    using read_boxes_full [of "''trun''" "be4 (word_of_nat (length tses)) @ be4 offset @ ?es" "trun_version tses" "0x000f01" "[]"] l assms(4) by simp
  have bx: "read_boxes ?xs = Some [(string_bytes ''tfhd'', 0 # be3 0x020000 @ be4 tid), (string_bytes ''tfdt'', 1 # be3 0 @ be8 (ps_dts (hd tses))),
      (string_bytes ''trun'', trun_version tses # be3 0x000f01 @ be4 (word_of_nat (length tses)) @ be4 offset @ ?es)]"
    using b3 by simp
  have d4: "drop 4 (v # be3 f @ ys) = ys" for v f ys by simp
  have d8: "drop 8 (v # be3 f @ be4 a @ ys) = ys" for v f a ys by simp
  have d12: "drop 12 (v # be3 f @ be4 a @ be4 c @ ys) = ys" for v f a c ys by simp
  have low: "rd4 (drop 8 (1 # be3 0 @ be8 u)) = ucast u" for u
  proof -
    have "drop 8 (1 # be3 0 @ be8 u) = drop 4 (be8 u)" by simp
    also have "\<dots> = rev (take 4 (le_bytes 8 (uint u)))" by (simp add: be8_def rev_take [symmetric] drop_rev)
    finally have "rd4 (drop 8 (1 # be3 0 @ be8 u)) = word_of_int (le_val (take 4 (le_bytes 8 (uint u))))" by (simp add: rd4_def)
    also have "\<dots> = word_of_int (uint u mod 256 ^ 4)" by (simp add: take_le_bytes le_val_le_bytes)
    also have "\<dots> = ucast u" by (simp only: ucast_eq word_of_int_eq_iff take_bit_eq_mod) simp
    finally show ?thesis .
  qed
  have n: "unat (word_of_nat (length tses) :: 32 word) = length tses" using assms(4) by (simp add: unsigned_of_nat take_bit_nat_eq_self)
  have rd: "rd4 (be4 v) = v" for v using rd4_be4 [of v "[]"] by simp
  have es: "read_entries (length tses) ?es = map (\<lambda>(sample, duration). (ucast duration, ps_nb_data sample, sample_flags ht sample, ucast (ps_pts sample - ps_dts sample)))
      (zip tses (durations end_dts 0 tses))"
    using read_entries_back [of "zip tses (durations end_dts 0 tses)" ht "[]"] by simp
  have "read_traf moof_on ?xs = Some (tid, map (\<lambda>(sample, d). (ucast (ps_dts sample), sample_flags ht sample, ucast (ps_pts sample - ps_dts sample), d)) (zip tses ds))"
    unfolding read_traf_def bx option.case list.case prod.case d4 d8 d12 low rd4_be4 n es assms(5) rd
    using play_back [OF assms(1,2,3), of rest ht end_dts 0] by simp
  moreover have "length ?xs = 56 + 16 * length tses" by simp
  ultimately show ?thesis unfolding traf_bytes_def by blast
qed

section \<open>A fragment from its samples\<close>

definition write_samples :: "(SrsMp4HandlerType \<times> byte \<times> 32 word \<times> 32 word \<times> byte list) list \<Rightarrow> SrsMp4M2tsSegmentEncoder \<Rightarrow> SrsMp4M2tsSegmentEncoder" where
  "write_samples ss = fold (\<lambda>(ht, ft, dts, pts, sample). write_sample ht ft dts pts sample) ss"

definition of_type :: "SrsMp4HandlerType \<Rightarrow> (SrsMp4HandlerType \<times> byte \<times> 32 word \<times> 32 word \<times> byte list) list \<Rightarrow> (SrsMp4HandlerType \<times> byte \<times> 32 word \<times> 32 word \<times> byte list) list" where
  "of_type ht ss = filter (\<lambda>s. fst s = ht) ss"

definition sample_meta :: "SrsMp4HandlerType \<times> byte \<times> 32 word \<times> 32 word \<times> byte list \<Rightarrow> SrsMp4Sample" where
  "sample_meta = (\<lambda>(ht, ft, dts, pts, sample). \<lparr>ps_type = ht, ps_dts = ucast dts, ps_pts = ucast pts,
     ps_frame_type = (if ht = SrsMp4HandlerTypeVIDE then ft else SrsVideoAvcFrameTypeForbidden), ps_nb_data = word_of_nat (length sample)\<rparr>)"

definition sample_data :: "SrsMp4HandlerType \<times> byte \<times> 32 word \<times> 32 word \<times> byte list \<Rightarrow> byte list" where
  "sample_data = (\<lambda>(ht, ft, dts, pts, sample). sample)"

text \<open>What a player is to see of a sample.\<close>

definition sample_view :: "SrsMp4HandlerType \<times> byte \<times> 32 word \<times> 32 word \<times> byte list \<Rightarrow> 32 word \<times> 32 word \<times> 32 word \<times> byte list" where
  "sample_view = (\<lambda>(ht, ft, dts, pts, sample).
     (dts, if ht = SrsMp4HandlerTypeVIDE \<and> ft \<noteq> SrsVideoAvcFrameTypeKeyFrame then 0x01010000 else 0x02000000, pts - dts, sample))"

lemma of_type_simps [simp]: "of_type ht [] = []" "of_type ht (s # ss) = (if fst s = ht then s # of_type ht ss else of_type ht ss)"
  by (simp_all add: of_type_def)

lemma write_samples_enc:
  shows "video_samples (write_samples ss enc) = video_samples enc @ map sample_meta (of_type SrsMp4HandlerTypeVIDE ss)"
    and "audio_samples (write_samples ss enc) = audio_samples enc @ map sample_meta (of_type SrsMp4HandlerTypeSOUN ss)"
    and "nb_videos (write_samples ss enc) = nb_videos enc + length (of_type SrsMp4HandlerTypeVIDE ss)"
    and "nb_audios (write_samples ss enc) = nb_audios enc + length (of_type SrsMp4HandlerTypeSOUN ss)"
    and "enc_video_data (write_samples ss enc) = enc_video_data enc @ concat (map sample_data (of_type SrsMp4HandlerTypeVIDE ss))"
    and "enc_audio_data (write_samples ss enc) = enc_audio_data enc @ concat (map sample_data (of_type SrsMp4HandlerTypeSOUN ss))"
    and "sequence_number (write_samples ss enc) = sequence_number enc" "track_id (write_samples ss enc) = track_id enc"
    and "enc_audio_tid (write_samples ss enc) = enc_audio_tid enc"
    and "length (enc_samples (write_samples ss enc)) \<le> length (enc_samples enc) + length ss"
    and "mdat_bytes enc = length (enc_video_data enc) + length (enc_audio_data enc) \<Longrightarrow>
      mdat_bytes (write_samples ss enc) = length (enc_video_data (write_samples ss enc)) + length (enc_audio_data (write_samples ss enc))"
proof -
  have step: "video_samples (write_samples ss enc) = video_samples enc @ map sample_meta (of_type SrsMp4HandlerTypeVIDE ss)
    \<and> audio_samples (write_samples ss enc) = audio_samples enc @ map sample_meta (of_type SrsMp4HandlerTypeSOUN ss)
    \<and> nb_videos (write_samples ss enc) = nb_videos enc + length (of_type SrsMp4HandlerTypeVIDE ss)
    \<and> nb_audios (write_samples ss enc) = nb_audios enc + length (of_type SrsMp4HandlerTypeSOUN ss)
    \<and> enc_video_data (write_samples ss enc) = enc_video_data enc @ concat (map sample_data (of_type SrsMp4HandlerTypeVIDE ss))
    \<and> enc_audio_data (write_samples ss enc) = enc_audio_data enc @ concat (map sample_data (of_type SrsMp4HandlerTypeSOUN ss))
    \<and> sequence_number (write_samples ss enc) = sequence_number enc \<and> track_id (write_samples ss enc) = track_id enc
    \<and> enc_audio_tid (write_samples ss enc) = enc_audio_tid enc
    \<and> length (enc_samples (write_samples ss enc)) \<le> length (enc_samples enc) + length ss
    \<and> (mdat_bytes enc = length (enc_video_data enc) + length (enc_audio_data enc) \<longrightarrow>
      mdat_bytes (write_samples ss enc) = length (enc_video_data (write_samples ss enc)) + length (enc_audio_data (write_samples ss enc)))"
  proof (induction ss arbitrary: enc)
    case (Cons s ss)
    obtain ht ft dts pts d where s: "s = (ht, ft, dts, pts, d)" by (cases s)
    have w: "write_samples (s # ss) enc = write_samples ss (write_sample ht ft dts pts d enc)" by (simp add: write_samples_def s)
    show ?case unfolding w using Cons.IH [of "write_sample ht ft dts pts d enc"]
      by (cases ht) (simp_all add: s write_sample_def sample_meta_def sample_data_def video_samples_def audio_samples_def Let_def)
  qed (simp add: write_samples_def)
  then show "video_samples (write_samples ss enc) = video_samples enc @ map sample_meta (of_type SrsMp4HandlerTypeVIDE ss)"
    "audio_samples (write_samples ss enc) = audio_samples enc @ map sample_meta (of_type SrsMp4HandlerTypeSOUN ss)"
    "nb_videos (write_samples ss enc) = nb_videos enc + length (of_type SrsMp4HandlerTypeVIDE ss)"
    "nb_audios (write_samples ss enc) = nb_audios enc + length (of_type SrsMp4HandlerTypeSOUN ss)"
    "enc_video_data (write_samples ss enc) = enc_video_data enc @ concat (map sample_data (of_type SrsMp4HandlerTypeVIDE ss))"
    "enc_audio_data (write_samples ss enc) = enc_audio_data enc @ concat (map sample_data (of_type SrsMp4HandlerTypeSOUN ss))"
    "sequence_number (write_samples ss enc) = sequence_number enc" "track_id (write_samples ss enc) = track_id enc"
    "enc_audio_tid (write_samples ss enc) = enc_audio_tid enc"
    "length (enc_samples (write_samples ss enc)) \<le> length (enc_samples enc) + length ss"
    "mdat_bytes enc = length (enc_video_data enc) + length (enc_audio_data enc) \<Longrightarrow>
      mdat_bytes (write_samples ss enc) = length (enc_video_data (write_samples ss enc)) + length (enc_audio_data (write_samples ss enc))"
    by simp_all
qed

lemma sample_lengths: "s \<in> set ss \<Longrightarrow> length (sample_data s) \<le> sum_list (map (length \<circ> sample_data) ss)"
  by (induction ss) auto

lemma of_type_lengths: "length (concat (map sample_data (of_type SrsMp4HandlerTypeVIDE ss))) + length (concat (map sample_data (of_type SrsMp4HandlerTypeSOUN ss)))
    \<le> sum_list (map (length \<circ> sample_data) ss)" "length (of_type ht ss) \<le> length ss"
  by (induction ss) (auto simp: sample_data_def)

lemma view_back: "map (\<lambda>(sample, d). (ucast (ps_dts sample), sample_flags ht sample, ucast (ps_pts sample - ps_dts sample), d)) (zip (map sample_meta (of_type ht ss)) (map sample_data (of_type ht ss)))
    = map sample_view (of_type ht ss)"
proof -
  have u: "ucast (ucast (x :: 32 word) :: 64 word) = x" for x by (rule bit_word_eqI) (simp add: bit_simps)
  show ?thesis
    by (induction ss) (auto simp: sample_meta_def sample_data_def sample_view_def sample_flags_def ucast_down_diff u)
qed

lemma styp_written: "mp4_styp (SrsBuffer_new (replicate 24 0)) = Inr ((), \<lparr>buf_bytes = box_bytes ''styp'' (string_bytes ''msdh'' @ be4 0 @ string_bytes ''msdh'' @ string_bytes ''msix''), buf_p = 24\<rparr>)"
proof -
  have "writes mp4_styp (box_bytes ''styp'' (string_bytes ''msdh'' @ be4 0 @ string_bytes ''msdh'' @ string_bytes ''msix'' @ []))"
    unfolding mp4_styp_def by (rule box_writes | simp only: list.size)+
  from writes_exact [OF this, of "replicate 24 0"] show ?thesis by simp
qed

lemma track_back:
  assumes "of_type ht ss \<noteq> []" and "32 * length ss + sum_list (map (length \<circ> sample_data) ss) + 1000 < 2 ^ 31"
    and "drop (unat offset) moof_on = concat (map sample_data (of_type ht ss)) @ rest"
  shows "\<exists>xs. traf_bytes ht tid dts (map sample_meta (of_type ht ss)) offset = box_bytes ''traf'' xs \<and> length xs = 56 + 16 * length (of_type ht ss)
    \<and> read_traf moof_on xs = Some (tid, map sample_view (of_type ht ss))"
proof -
  have nb: "map ps_nb_data (map sample_meta (of_type ht ss)) = map (\<lambda>d. word_of_nat (length d)) (map sample_data (of_type ht ss))"
    by (auto simp: sample_meta_def sample_data_def)
  have small: "list_all (\<lambda>d. length d < 2 ^ 32) (map sample_data (of_type ht ss))"
  proof -
    have "length (sample_data s) < 2 ^ 32" if "s \<in> set (of_type ht ss)" for s
      using sample_lengths [of s ss] that assms(2) by (simp add: of_type_def)
    then show ?thesis by (simp add: list_all_iff)
  qed
  have ne: "map sample_meta (of_type ht ss) \<noteq> []" using assms(1) by simp
  have sz: "16 * length (map sample_meta (of_type ht ss)) + 100 < 2 ^ 32" using of_type_lengths(2) [of ht ss] assms(2) by simp
  from read_traf_back [OF nb small ne sz assms(3), of ht tid dts] show ?thesis unfolding view_back length_map .
qed

lemma fragment_tracks:
  assumes "video_samples enc = map sample_meta (of_type SrsMp4HandlerTypeVIDE ss)" and "audio_samples enc = map sample_meta (of_type SrsMp4HandlerTypeSOUN ss)"
    and "nb_videos enc = length (of_type SrsMp4HandlerTypeVIDE ss)" and "nb_audios enc = length (of_type SrsMp4HandlerTypeSOUN ss)"
    and "v = concat (map sample_data (of_type SrsMp4HandlerTypeVIDE ss))" and "a = concat (map sample_data (of_type SrsMp4HandlerTypeSOUN ss))"
    and "32 * length ss + sum_list (map (length \<circ> sample_data) ss) + 1000 < 2 ^ 31"
    and "drop (unat voff) moof_on = v @ a" and "drop (unat aoff) moof_on = a"
  shows "\<exists>xs. moof_bytes dts enc voff aoff = box_bytes ''moof'' xs \<and> length xs + 8 < 2 ^ 32
    \<and> (\<exists>h trafs. read_boxes xs = Some ((string_bytes ''mfhd'', h) # trafs) \<and> rd4 (drop 4 h) = sequence_number enc
        \<and> list_all (\<lambda>x. fst x = string_bytes ''traf'') trafs
        \<and> map (\<lambda>x. read_traf moof_on (snd x)) trafs
          = (if of_type SrsMp4HandlerTypeVIDE ss = [] then [] else [Some (track_id enc, map sample_view (of_type SrsMp4HandlerTypeVIDE ss))])
          @ (if of_type SrsMp4HandlerTypeSOUN ss = [] then [] else [Some (audio_track enc, map sample_view (of_type SrsMp4HandlerTypeSOUN ss))]))"
proof -
  let ?V = "of_type SrsMp4HandlerTypeVIDE ss" and ?A = "of_type SrsMp4HandlerTypeSOUN ss"
  let ?m = "full_bytes ''mfhd'' 0 0 (be4 (sequence_number enc))"
  note l = of_type_lengths(1) [of ss] TrueI of_type_lengths(2) [of SrsMp4HandlerTypeVIDE ss] of_type_lengths(2) [of SrsMp4HandlerTypeSOUN ss]
  have "\<exists>tv. (if nb_videos enc \<noteq> 0 then traf_bytes SrsMp4HandlerTypeVIDE (track_id enc) dts (video_samples enc) voff else []) = concat (map (box_bytes ''traf'') tv)
      \<and> length (concat (map (box_bytes ''traf'') tv)) \<le> 64 + 16 * length ss
      \<and> map (read_traf moof_on) tv = (if ?V = [] then [] else [Some (track_id enc, map sample_view ?V)]) \<and> length tv \<le> 1"
  proof (cases "?V = []")
    case True
    then show ?thesis using assms(3) by (intro exI [of _ "[]"]) simp
  next
    case False
    have d: "drop (unat voff) moof_on = concat (map sample_data ?V) @ a" using assms(5,8) by simp
    from track_back [OF False assms(7) d, of "track_id enc" dts] obtain xs where
      "traf_bytes SrsMp4HandlerTypeVIDE (track_id enc) dts (map sample_meta ?V) voff = box_bytes ''traf'' xs" "length xs = 56 + 16 * length ?V"
      "read_traf moof_on xs = Some (track_id enc, map sample_view ?V)" by blast
    then show ?thesis using False assms(1,3) l(3) by (intro exI [of _ "[xs]"]) simp
  qed
  then obtain tv where tv: "(if nb_videos enc \<noteq> 0 then traf_bytes SrsMp4HandlerTypeVIDE (track_id enc) dts (video_samples enc) voff else []) = concat (map (box_bytes ''traf'') tv)"
      "length (concat (map (box_bytes ''traf'') tv)) \<le> 64 + 16 * length ss" "map (read_traf moof_on) tv = (if ?V = [] then [] else [Some (track_id enc, map sample_view ?V)])"
      "length tv \<le> 1" by blast
  have "\<exists>ta. (if nb_audios enc \<noteq> 0 then traf_bytes SrsMp4HandlerTypeSOUN (audio_track enc) dts (audio_samples enc) aoff else []) = concat (map (box_bytes ''traf'') ta)
      \<and> length (concat (map (box_bytes ''traf'') ta)) \<le> 64 + 16 * length ss
      \<and> map (read_traf moof_on) ta = (if ?A = [] then [] else [Some (audio_track enc, map sample_view ?A)]) \<and> length ta \<le> 1"
  proof (cases "?A = []")
    case True
    then show ?thesis using assms(4) by (intro exI [of _ "[]"]) simp
  next
    case False
    have d: "drop (unat aoff) moof_on = concat (map sample_data ?A) @ []" using assms(6,9) by simp
    from track_back [OF False assms(7) d, of "audio_track enc" dts] obtain xs where
      "traf_bytes SrsMp4HandlerTypeSOUN (audio_track enc) dts (map sample_meta ?A) aoff = box_bytes ''traf'' xs" "length xs = 56 + 16 * length ?A"
      "read_traf moof_on xs = Some (audio_track enc, map sample_view ?A)" by blast
    then show ?thesis using False assms(2,4) l(4) by (intro exI [of _ "[xs]"]) simp
  qed
  then obtain ta where ta: "(if nb_audios enc \<noteq> 0 then traf_bytes SrsMp4HandlerTypeSOUN (audio_track enc) dts (audio_samples enc) aoff else []) = concat (map (box_bytes ''traf'') ta)"
      "length (concat (map (box_bytes ''traf'') ta)) \<le> 64 + 16 * length ss" "map (read_traf moof_on) ta = (if ?A = [] then [] else [Some (audio_track enc, map sample_view ?A)])"
      "length ta \<le> 1" by blast
  let ?xs = "?m @ concat (map (box_bytes ''traf'') tv) @ concat (map (box_bytes ''traf'') ta)"
  have boxes: "read_boxes (concat (map (box_bytes ''traf'') ts)) = Some (map (Pair (string_bytes ''traf'')) ts)" if "list_all (\<lambda>t. length t + 8 < 2 ^ 32) ts" for ts
    using that by (induction ts) simp_all
  have each: "list_all (\<lambda>t. length t + 8 < 2 ^ 32) ts" if "length (concat (map (box_bytes ''traf'') ts)) \<le> 128 + 32 * length ss" for ts
  proof -
    have "length t + 8 \<le> length (concat (map (box_bytes ''traf'') ts))" if "t \<in> set ts" for t
      using that by (induction ts) auto
    then show ?thesis using that assms(7) by (fastforce simp: list_all_iff)
  qed
  have "concat (map (box_bytes ''traf'') tv) @ concat (map (box_bytes ''traf'') ta) = concat (map (box_bytes ''traf'') (tv @ ta))" by simp
  then have "read_boxes ?xs = Some ((string_bytes ''mfhd'', 0 # be3 0 @ be4 (sequence_number enc)) # map (Pair (string_bytes ''traf'')) (tv @ ta))"
    using boxes [OF each, of "tv @ ta"] tv(2) ta(2) by simp
  moreover have "rd4 (drop 4 (0 # be3 0 @ be4 (sequence_number enc))) = sequence_number enc" using rd4_be4 [of "sequence_number enc" "[]"] by simp
  moreover have "map (\<lambda>x. read_traf moof_on (snd x)) (map (Pair (string_bytes ''traf'')) (tv @ ta))
      = (if ?V = [] then [] else [Some (track_id enc, map sample_view ?V)]) @ (if ?A = [] then [] else [Some (audio_track enc, map sample_view ?A)])"
  proof -
    have "map (\<lambda>x. read_traf moof_on (snd x)) (map (Pair t) ts) = map (read_traf moof_on) ts" for t :: "byte list" and ts by simp
    from this show ?thesis unfolding map_append tv(3) [symmetric] ta(3) [symmetric] by (simp only:)
  qed
  moreover have "list_all (\<lambda>x. fst x = string_bytes ''traf'') (map (Pair (string_bytes ''traf'')) (tv @ ta))" by (auto simp: list_all_iff)
  moreover have "length ?xs + 8 < 2 ^ 32" using tv(2) ta(2) assms(7) by simp
  moreover have "moof_bytes dts enc voff aoff = box_bytes ''moof'' ?xs" unfolding moof_bytes_def tv(1) ta(1) ..
  ultimately show ?thesis by blast
qed

lemma fragment_flushed:
  assumes "\<And>vs w. wr_writev W vs w = (None, w @ concat vs)"
    and "of_type SrsMp4HandlerTypeVIDE ss \<noteq> [] \<or> of_type SrsMp4HandlerTypeSOUN ss \<noteq> []"
    and "32 * length ss + sum_list (map (length \<circ> sample_data) ss) + 1000 < 2 ^ 31"
    and "enc = write_samples ss enc0" and "video_samples enc0 = []" "audio_samples enc0 = []" "nb_videos enc0 = 0" "nb_audios enc0 = 0"
      "enc_video_data enc0 = []" "enc_audio_data enc0 = []" "mdat_bytes enc0 = 0" "enc_samples enc0 = []"
  shows "\<exists>moof xs. segment_flush W dts (enc, w) = (None, (enc, w @ moof @ box_bytes ''mdat'' (enc_video_data enc @ enc_audio_data enc)))
    \<and> moof = box_bytes ''moof'' xs \<and> length xs + 8 < 2 ^ 32
    \<and> (\<exists>h trafs. read_boxes xs = Some ((string_bytes ''mfhd'', h) # trafs) \<and> rd4 (drop 4 h) = sequence_number enc
        \<and> list_all (\<lambda>x. fst x = string_bytes ''traf'') trafs
        \<and> map (\<lambda>x. read_traf (moof @ box_bytes ''mdat'' (enc_video_data enc @ enc_audio_data enc)) (snd x)) trafs
          = (if of_type SrsMp4HandlerTypeVIDE ss = [] then [] else [Some (track_id enc, map sample_view (of_type SrsMp4HandlerTypeVIDE ss))])
          @ (if of_type SrsMp4HandlerTypeSOUN ss = [] then [] else [Some (audio_track enc, map sample_view (of_type SrsMp4HandlerTypeSOUN ss))]))"
proof -
  note e = write_samples_enc [where ss = ss and enc = enc0, folded assms(4), unfolded assms(5-10), simplified]
  let ?v = "enc_video_data enc" and ?a = "enc_audio_data enc"
  define n where "n = length (moof_bytes dts enc 0 0)"
  define voff where "voff = (word_of_nat (n + 8) :: 32 word)"
  define aoff where "aoff = (word_of_nat (n + 8 + length ?v) :: 32 word)"
  note l = of_type_lengths(1) [of ss] of_type_lengths(2) [of SrsMp4HandlerTypeVIDE ss] of_type_lengths(2) [of SrsMp4HandlerTypeSOUN ss]
  have va: "length ?v + length ?a \<le> sum_list (map (length \<circ> sample_data) ss)" using l(1) e(5,6) by simp
  have n: "length (moof_bytes dts enc voff aoff) = n" unfolding n_def length_moof ..
  have nsz: "n \<le> 152 + 32 * length ss" using l(2,3) e(1,2) by (simp add: n_def length_moof video_traf_length_def)
  have fits: "n \<le> length (replicate (256 + 16 * length (enc_samples enc)) (0 :: byte))"
  proof -
    have "length (filter (\<lambda>x. ps_type x = SrsMp4HandlerTypeVIDE) xs) + length (filter (\<lambda>x. ps_type x = SrsMp4HandlerTypeSOUN) xs) \<le> length xs" for xs
      by (induction xs) auto
    from this [of "enc_samples enc"] show ?thesis by (simp add: n_def length_moof video_traf_length_def video_samples_def audio_samples_def)
  qed
  have un: "unat voff = n + 8" "unat aoff = n + 8 + length ?v"
    using nsz va assms(3) by (simp_all only: voff_def aoff_def unsigned_of_nat) (simp_all add: take_bit_nat_eq_self)
  define moof where "moof = moof_bytes dts enc voff aoff"
  let ?mdat = "box_bytes ''mdat'' (?v @ ?a)"
  have drops: "drop (unat voff) (moof @ ?mdat) = ?v @ ?a" "drop (unat aoff) (moof @ ?mdat) = ?a"
  proof -
    have m: "moof @ ?mdat = (moof @ be4 (word_of_nat (8 + length (?v @ ?a))) @ string_bytes ''mdat'') @ ?v @ ?a" by (simp add: box_bytes_def)
    have h: "length (moof @ be4 (word_of_nat (8 + length (?v @ ?a))) @ string_bytes ''mdat'') = n + 8" using n by (simp add: moof_def)
    show "drop (unat voff) (moof @ ?mdat) = ?v @ ?a" unfolding un m using h by (metis append_eq_conv_conj)
    then have "drop (length ?v) (drop (unat voff) (moof @ ?mdat)) = ?a" by simp
    then show "drop (unat aoff) (moof @ ?mdat) = ?a" unfolding un drop_drop by (simp add: add.commute)
  qed
  obtain b where b: "mp4_fragment dts enc (SrsBuffer_new (replicate (256 + 16 * length (enc_samples enc)) 0)) = Inr ((), b)"
      "take (buf_p b) (buf_bytes b) = moof"
    using fragment_written [OF fits [unfolded n_def]] unfolding moof_def voff_def aoff_def n_def by blast
  obtain mb where mb: "mp4_mdat (mdat_bytes enc) (SrsBuffer_new (replicate 8 0)) = Inr ((), mb)"
      "take 8 (buf_bytes mb) = be4 (word_of_nat (8 + mdat_bytes enc)) @ string_bytes ''mdat''"
    using mdat_written by blast
  have md: "mdat_bytes enc = length (?v @ ?a)" using write_samples_enc(11) [where ss = ss and enc = enc0] assms(4,9,10,11) by simp
  have some: "\<not> (nb_audios enc = 0 \<and> nb_videos enc = 0)" using e(3,4) assms(2) by auto
  have cat: "concat ([moof, be4 (word_of_nat (8 + mdat_bytes enc)) @ string_bytes ''mdat''] @ (if ?v \<noteq> [] then [?v] else []) @ (if ?a \<noteq> [] then [?a] else [])) = moof @ ?mdat"
    by (simp add: box_bytes_def md)
  have fl: "segment_flush W dts (enc, w) = (None, (enc, w @ moof @ ?mdat))"
    unfolding segment_flush_def prod.case if_not_P [OF some] b(1) sum.case mb(1) b(2) mb(2) Let_def assms(1) cat ..
  have sz: "32 * length ss + sum_list (map (length \<circ> sample_data) ss) + 1000 < 2 ^ 31" by (rule assms(3))
  from fragment_tracks [OF e(1,2,3,4) e(5,6) sz drops, of dts] show ?thesis unfolding moof_def [symmetric] using fl by blast
qed

text \<open>The bytes that \<^verbatim>\<open>initialize\<close> writes, and the encoder behind it.\<close>

definition styp_bytes :: "byte list" where
  "styp_bytes = box_bytes ''styp'' (string_bytes ''msdh'' @ be4 0 @ string_bytes ''msdh'' @ string_bytes ''msix'')"

definition fragment_encoder :: "32 word \<Rightarrow> 32 word \<Rightarrow> 32 word \<Rightarrow> SrsMp4M2tsSegmentEncoder" where
  "fragment_encoder sequence tid audio_tid = set_audio_tid audio_tid (SrsMp4M2tsSegmentEncoder_new\<lparr>track_id := tid, sequence_number := sequence\<rparr>)"

lemma fragment_encoder_simps [simp]:
  "video_samples (fragment_encoder q tid audio_tid) = []" "audio_samples (fragment_encoder q tid audio_tid) = []" "nb_videos (fragment_encoder q tid audio_tid) = 0"
  "nb_audios (fragment_encoder q tid audio_tid) = 0" "enc_video_data (fragment_encoder q tid audio_tid) = []" "enc_audio_data (fragment_encoder q tid audio_tid) = []"
  "mdat_bytes (fragment_encoder q tid audio_tid) = 0" "enc_samples (fragment_encoder q tid audio_tid) = []"
  "sequence_number (fragment_encoder q tid audio_tid) = q" "track_id (fragment_encoder q tid audio_tid) = tid" "enc_audio_tid (fragment_encoder q tid audio_tid) = audio_tid"
  by (simp_all add: fragment_encoder_def set_audio_tid_def SrsMp4M2tsSegmentEncoder_new_def video_samples_def audio_samples_def)

lemma segment_initialized:
  assumes "\<And>bs w. wr_write W bs w = (None, w @ bs)"
  shows "segment_initialize W sequence tid (SrsMp4M2tsSegmentEncoder_new, w)
    = (None, (SrsMp4M2tsSegmentEncoder_new\<lparr>track_id := tid, sequence_number := sequence\<rparr>, w @ styp_bytes))"
  using styp_written by (simp add: segment_initialize_def assms styp_bytes_def)

text \<open>A fragment always fits its buffer.\<close>

lemma segment_flush_total:
  assumes "\<And>vs w. wr_writev W vs w = (None, w @ concat vs)" and "of_type SrsMp4HandlerTypeVIDE ss \<noteq> [] \<or> of_type SrsMp4HandlerTypeSOUN ss \<noteq> []"
  shows "\<exists>xs. segment_flush W dts (write_samples ss (fragment_encoder q tid audio_tid), w) = (None, (write_samples ss (fragment_encoder q tid audio_tid), w @ xs))"
proof -
  let ?enc = "write_samples ss (fragment_encoder q tid audio_tid)"
  have fits: "length (moof_bytes dts ?enc 0 0) \<le> length (replicate (256 + 16 * length (enc_samples ?enc)) (0 :: byte))"
  proof -
    have "length (filter (\<lambda>x. ps_type x = SrsMp4HandlerTypeVIDE) xs) + length (filter (\<lambda>x. ps_type x = SrsMp4HandlerTypeSOUN) xs) \<le> length xs" for xs
      by (induction xs) auto
    from this [of "enc_samples ?enc"] show ?thesis by (simp add: length_moof video_traf_length_def video_samples_def audio_samples_def)
  qed
  obtain b where b: "mp4_fragment dts ?enc (SrsBuffer_new (replicate (256 + 16 * length (enc_samples ?enc)) 0)) = Inr ((), b)"
    using fragment_written [OF fits] by blast
  obtain mb where mb: "mp4_mdat (mdat_bytes ?enc) (SrsBuffer_new (replicate 8 0)) = Inr ((), mb)" using mdat_written by blast
  have some: "\<not> (nb_audios ?enc = 0 \<and> nb_videos ?enc = 0)" using assms(2) by (auto simp: write_samples_enc(3,4))
  show ?thesis unfolding segment_flush_def prod.case if_not_P [OF some] b sum.case mb Let_def assms(1) by blast
qed

text \<open>A player reads it.\<close>

lemma fragment_read:
  assumes "\<And>vs w. wr_writev W vs w = (None, w @ concat vs)"
    and "of_type SrsMp4HandlerTypeVIDE ss \<noteq> [] \<or> of_type SrsMp4HandlerTypeSOUN ss \<noteq> []"
    and "32 * length ss + sum_list (map (length \<circ> sample_data) ss) + 1000 < 2 ^ 31" and "audio_tid \<noteq> 0"
  shows "\<exists>enc' file. segment_flush W dts (write_samples ss (fragment_encoder sequence tid audio_tid), styp_bytes) = (None, (enc', file))
    \<and> read_fragment file = Some (sequence,
        (if of_type SrsMp4HandlerTypeVIDE ss = [] then [] else [Some (tid, map sample_view (of_type SrsMp4HandlerTypeVIDE ss))])
        @ (if of_type SrsMp4HandlerTypeSOUN ss = [] then [] else [Some (audio_tid, map sample_view (of_type SrsMp4HandlerTypeSOUN ss))]))"
proof -
  define xs where "xs = string_bytes ''msdh'' @ be4 0 @ string_bytes ''msdh'' @ string_bytes ''msix''"
  have lx: "length xs = 16" by (simp add: xs_def)
  let ?enc = "write_samples ss (fragment_encoder sequence tid audio_tid)"
  have f: "sequence_number ?enc = sequence" "track_id ?enc = tid" "audio_track ?enc = audio_tid"
    using assms(4) by (simp_all add: write_samples_enc(7-9) audio_track_def)
  obtain moof ms h trafs where m: "segment_flush W dts (?enc, box_bytes ''styp'' xs) = (None, (?enc, box_bytes ''styp'' xs @ moof @ box_bytes ''mdat'' (enc_video_data ?enc @ enc_audio_data ?enc)))"
      "moof = box_bytes ''moof'' ms" "length ms + 8 < 2 ^ 32" "read_boxes ms = Some ((string_bytes ''mfhd'', h) # trafs)" "rd4 (drop 4 h) = sequence_number ?enc"
      "list_all (\<lambda>x. fst x = string_bytes ''traf'') trafs"
      "map (\<lambda>x. read_traf (moof @ box_bytes ''mdat'' (enc_video_data ?enc @ enc_audio_data ?enc)) (snd x)) trafs
          = (if of_type SrsMp4HandlerTypeVIDE ss = [] then [] else [Some (track_id ?enc, map sample_view (of_type SrsMp4HandlerTypeVIDE ss))])
          @ (if of_type SrsMp4HandlerTypeSOUN ss = [] then [] else [Some (audio_track ?enc, map sample_view (of_type SrsMp4HandlerTypeSOUN ss))])"
    using fragment_flushed [OF assms(1,2,3) refl fragment_encoder_simps(1-8), where dts = dts and w = "box_bytes ''styp'' xs"] by blast
  let ?d = "enc_video_data ?enc @ enc_audio_data ?enc"
  have "length ?d \<le> sum_list (map (length \<circ> sample_data) ss)"
    using of_type_lengths(1) [of ss] by (simp add: write_samples_enc(5,6))
  then have dl: "length ?d + 8 < 2 ^ 32" using assms(3) by simp
  have boxes: "read_boxes (box_bytes ''styp'' xs @ box_bytes ''moof'' ms @ box_bytes ''mdat'' ?d)
      = Some [(string_bytes ''styp'', xs), (string_bytes ''moof'', ms), (string_bytes ''mdat'', ?d)]"
    using lx m(3) read_boxes_box [of "''mdat''" ?d "[]", OF _ dl] by simp
  have dr: "drop (8 + length xs) (box_bytes ''styp'' xs @ ys) = ys" for ys by simp
  have "read_fragment (box_bytes ''styp'' xs @ moof @ box_bytes ''mdat'' ?d) = Some (sequence, map (\<lambda>x. read_traf (moof @ box_bytes ''mdat'' ?d) (snd x)) trafs)"
    unfolding read_fragment_def m(2) boxes option.case list.case prod.case dr m(4) using m(5,6) f(1) by simp
  then show ?thesis using m(1,7) f(2,3) unfolding styp_bytes_def xs_def [symmetric] by auto
qed



end
