(* ===== verification/Mp4Init.thy ===== *)
theory Mp4Init
  imports Complex_Main Mp4Read
begin

text \<open>
  The initialization segment that \<open>Mp4\<close> writes, a reader of it for a player, and the round trip: it gives the tracks and
  their codecs back.
\<close>

section \<open>The initialization segment\<close>

lemma writes_cong: "writes m xs \<Longrightarrow> xs = ys \<Longrightarrow> writes m ys"
  by simp

definition tkhd_body :: "32 word \<Rightarrow> 16 word \<Rightarrow> int \<Rightarrow> int \<Rightarrow> byte list" where
  "tkhd_body tid volume width height = be4 0 @ be4 0 @ be4 tid @ concat (map be4 [0, 0, 0, 0]) @ concat (map be2 [0, 0, volume, 0])
     @ concat (map be4 [0x00010000, 0, 0, 0, 0x00010000, 0, 0, 0, 0x40000000]) @ be4 (push_bit 16 (word_of_int width)) @ be4 (push_bit 16 (word_of_int height))"

definition mdhd_body :: "byte list" where
  "mdhd_body = be4 0 @ be4 0 @ be4 1000 @ be4 0 @ be2 0x55c4 @ be2 0"

definition hdlr_body :: "string \<Rightarrow> string \<Rightarrow> byte list" where
  "hdlr_body type name = be4 0 @ string_bytes type @ be4 0 @ be4 0 @ be4 0 @ string_bytes name @ [0]"

definition dinf_bytes :: "byte list" where
  "dinf_bytes = box_bytes ''dinf'' (full_bytes ''dref'' 0 0 (be4 1 @ full_bytes ''url '' 0 1 []))"

definition tables_bytes :: "byte list" where
  "tables_bytes = full_bytes ''stts'' 0 0 (be4 0) @ full_bytes ''stsc'' 0 0 (be4 0) @ full_bytes ''stsz'' 0 0 (be4 0 @ be4 0) @ full_bytes ''stco'' 0 0 (be4 0)"

definition avc1_head :: "int \<Rightarrow> int \<Rightarrow> byte list" where
  "avc1_head width height = replicate 6 0 @ be2 1 @ be2 0 @ be2 0 @ concat (replicate 3 (be4 0)) @ be2 (word_of_int width) @ be2 (word_of_int height)
     @ be4 0x00480000 @ be4 0x00480000 @ be4 0 @ be2 1 @ replicate 32 0 @ be2 0x0018 @ be2 (- 1)"

definition mp4a_head :: "SrsAudioCodecConfig \<Rightarrow> byte list" where
  "mp4a_head c = replicate 6 0 @ be2 1 @ be4 0 @ be4 0 @ be2 (ucast (aac_channels c)) @ be2 16 @ be2 0 @ be2 0
     @ be4 (push_bit 16 (word_of_int (srs_aac_srates ! unat (aac_sample_rate c))))"

definition esds_body :: "byte list \<Rightarrow> byte list" where
  "esds_body asc = [0x03, word_of_nat (23 + length asc)] @ be2 0x02 @ [0x00, 0x04, word_of_nat (15 + length asc), 0x40, 0x15] @ be3 0 @ be4 0 @ be4 0
     @ [0x05, word_of_nat (length asc)] @ asc @ [0x06, 0x01, 0x02]"

text \<open>A track with its sample entry.\<close>

definition trak_bytes :: "byte list \<Rightarrow> byte list \<Rightarrow> byte list \<Rightarrow> byte list \<Rightarrow> byte list" where
  "trak_bytes tkhd hdlr mhd entry = box_bytes ''trak'' (full_bytes ''tkhd'' 0 3 tkhd @ box_bytes ''mdia'' (full_bytes ''mdhd'' 0 0 mdhd_body @ full_bytes ''hdlr'' 0 0 hdlr
     @ box_bytes ''minf'' (mhd @ dinf_bytes @ box_bytes ''stbl'' (full_bytes ''stsd'' 0 0 (be4 1 @ entry) @ tables_bytes))))"

lemma concat_replicate_single [simp]: "concat (replicate n [x]) = replicate n x"
  by (induction n) auto

lemma writes_tkhd: "writes (srs_mp4_write_tkhd tid volume width height) (full_bytes ''tkhd'' 0 3 (tkhd_body tid volume width height))"
  unfolding srs_mp4_write_tkhd_def srs_mp4_write_matrix_def tkhd_body_def
  by (rule writes_full_box, simp, rule writes_cong, (rule box_writes)+) simp

lemma writes_mdhd: "writes srs_mp4_write_mdhd (full_bytes ''mdhd'' 0 0 mdhd_body)"
  unfolding srs_mp4_write_mdhd_def mdhd_body_def by (rule writes_full_box, simp, rule writes_cong, (rule box_writes)+) simp

lemma writes_hdlr: "writes (srs_mp4_write_hdlr type name) (full_bytes ''hdlr'' 0 0 (hdlr_body type name))"
  unfolding srs_mp4_write_hdlr_def hdlr_body_def by (rule writes_full_box, simp, rule writes_cong, (rule box_writes)+) simp

lemma writes_dinf: "writes srs_mp4_write_dinf dinf_bytes"
  unfolding srs_mp4_write_dinf_def dinf_bytes_def by (rule writes_box, simp, rule writes_full_box, simp, rule writes_cong, (rule box_writes | simp only: list.size)+) simp

lemma writes_tables: "writes srs_mp4_write_empty_sample_tables tables_bytes"
  unfolding srs_mp4_write_empty_sample_tables_def tables_bytes_def by (rule writes_cong, (rule box_writes | simp only: list.size)+) simp

lemma writes_esds: "writes (mp4_esds asc) (full_bytes ''esds'' 0 0 (esds_body asc))"
  unfolding mp4_esds_def esds_body_def by (rule writes_full_box, simp, rule writes_cong, (rule box_writes)+) simp

lemma writes_video_trak:
  "writes (write_video_trak c tid) (trak_bytes (tkhd_body tid 0 (vc_width c) (vc_height c)) (hdlr_body ''vide'' ''VideoHandler'') (full_bytes ''vmhd'' 0 1 (concat (map be2 [0, 0, 0, 0])))
     (box_bytes ''avc1'' (avc1_head (vc_width c) (vc_height c) @ box_bytes ''avcC'' (avc_extra_data c))))"
proof -
  have e: "writes (mp4_box ''avc1'' (write_all (replicate 6 (write_1bytes 0) @ map write_2bytes [1, 0, 0] @ replicate 3 (write_4bytes 0)
                    @ [write_2bytes (word_of_int (vc_width c)), write_2bytes (word_of_int (vc_height c)),
                       write_4bytes 0x00480000, write_4bytes 0x00480000, write_4bytes 0, write_2bytes 1]
                    @ replicate 32 (write_1bytes 0) @ [write_2bytes 0x0018, write_2bytes (- 1),
                       mp4_box ''avcC'' (write_bytes (avc_extra_data c))])))
      (box_bytes ''avc1'' (avc1_head (vc_width c) (vc_height c) @ box_bytes ''avcC'' (avc_extra_data c)))"
    by (rule writes_box, simp, rule writes_cong, (rule box_writes | simp only: list.size)+) (simp add: avc1_head_def)
  show ?thesis unfolding write_video_trak_def trak_bytes_def
    by (rule writes_box, simp, rule writes_cong, (rule writes_tkhd writes_mdhd writes_hdlr writes_dinf writes_tables e box_writes | simp only: list.size)+) simp
qed

lemma writes_audio_trak:
  "writes (write_audio_trak c tid) (trak_bytes (tkhd_body tid 0x0100 0 0) (hdlr_body ''soun'' ''SoundHandler'') (full_bytes ''smhd'' 0 0 (concat (map be2 [0, 0])))
     (box_bytes ''mp4a'' (mp4a_head c @ full_bytes ''esds'' 0 0 (esds_body (aac_extra_data c)))))"
proof -
  have e: "writes (mp4_box ''mp4a'' (write_all (replicate 6 (write_1bytes 0) @ [write_2bytes 1, write_4bytes 0, write_4bytes 0,
                    write_2bytes (ucast (aac_channels c)), write_2bytes 16, write_2bytes 0, write_2bytes 0,
                    write_4bytes (push_bit 16 (word_of_int (srs_aac_srates ! unat (aac_sample_rate c)))),
                    mp4_esds (aac_extra_data c)])))
      (box_bytes ''mp4a'' (mp4a_head c @ full_bytes ''esds'' 0 0 (esds_body (aac_extra_data c))))"
    by (rule writes_box, simp, rule writes_cong, (rule writes_esds box_writes)+) (simp add: mp4a_head_def)
  show ?thesis unfolding write_audio_trak_def trak_bytes_def
    by (rule writes_box, simp, rule writes_cong, (rule writes_tkhd writes_mdhd writes_hdlr writes_dinf writes_tables e box_writes | simp only: list.size)+) simp
qed

section \<open>What a player reads of the initialization segment\<close>

datatype track_codec = Avc "16 word" "16 word" "byte list" | Aac "16 word" "byte list"

definition child :: "string \<Rightarrow> byte list \<Rightarrow> byte list option" where
  "child type bs = Option.bind (read_boxes bs) (\<lambda>xs. map_of xs (string_bytes type))"

definition rd2 :: "byte list \<Rightarrow> 16 word" where
  "rd2 bs = word_of_int (le_val (rev (take 2 bs)))"

text \<open>A descriptor with a length of one byte: its content and what follows.\<close>

definition descriptor :: "byte \<Rightarrow> byte list \<Rightarrow> (byte list \<times> byte list) option" where
  "descriptor tag bs =
     (if 2 \<le> length bs \<and> bs ! 0 = tag \<and> unat (bs ! 1) < 128 \<and> unat (bs ! 1) \<le> length bs - 2
      then Some (take (unat (bs ! 1)) (drop 2 bs), drop (2 + unat (bs ! 1)) bs) else None)"

definition read_asc :: "byte list \<Rightarrow> byte list option" where
  "read_asc bs =
     Option.bind (descriptor 3 bs) (\<lambda>(es, _).
     Option.bind (descriptor 4 (drop 3 es)) (\<lambda>(config, after).
     Option.bind (descriptor 5 (drop 13 config)) (\<lambda>(asc, _).
     map_option (\<lambda>_. asc) (descriptor 6 after))))"

definition read_entry :: "byte list \<Rightarrow> track_codec option" where
  "read_entry bs =
     (case read_boxes bs of
        Some [(t, e)] \<Rightarrow>
          if t = string_bytes ''avc1'' then map_option (Avc (rd2 (drop 24 e)) (rd2 (drop 26 e))) (child ''avcC'' (drop 78 e))
          else if t = string_bytes ''mp4a'' then map_option (Aac (rd2 (drop 16 e))) (Option.bind (child ''esds'' (drop 28 e)) (\<lambda>d. read_asc (drop 4 d)))
          else None
      | _ \<Rightarrow> None)"

definition read_trak :: "byte list \<Rightarrow> (32 word \<times> 32 word \<times> byte list \<times> track_codec) option" where
  "read_trak bs =
     Option.bind (child ''tkhd'' bs) (\<lambda>tkhd.
     Option.bind (child ''mdia'' bs) (\<lambda>mdia.
     Option.bind (child ''mdhd'' mdia) (\<lambda>mdhd.
     Option.bind (child ''hdlr'' mdia) (\<lambda>hdlr.
     Option.bind (Option.bind (Option.bind (child ''minf'' mdia) (child ''stbl'')) (child ''stsd'')) (\<lambda>stsd.
     map_option (\<lambda>codec. (rd4 (drop 12 tkhd), rd4 (drop 12 mdhd), take 4 (drop 8 hdlr), codec)) (read_entry (drop 8 stsd)))))))"

definition read_init :: "byte list \<Rightarrow> ((32 word \<times> 32 word \<times> byte list \<times> track_codec) option list \<times> 32 word list) option" where
  "read_init file =
     Option.bind (child ''ftyp'' file) (\<lambda>_.
     Option.bind (child ''moov'' file) (\<lambda>moov.
     Option.bind (read_boxes moov) (\<lambda>boxes.
     Option.bind (Option.bind (child ''mvex'' moov) read_boxes) (\<lambda>trexs.
     Some (map (read_trak \<circ> snd) (filter (\<lambda>x. fst x = string_bytes ''trak'') boxes), map (\<lambda>x. rd4 (drop 4 (snd x))) trexs)))))"

section \<open>Its round trip\<close>

lemma child_box [simp]:
  "length type = 4 \<Longrightarrow> length xs + 8 < 2 ^ 32 \<Longrightarrow> (\<exists>l. read_boxes ys = Some l) \<Longrightarrow>
    child name (box_bytes type xs @ ys) = (if string_bytes type = string_bytes name then Some xs else child name ys)"
  by (auto simp: child_def)

lemma child_full [simp]:
  "length type = 4 \<Longrightarrow> length xs + 12 < 2 ^ 32 \<Longrightarrow> (\<exists>l. read_boxes ys = Some l) \<Longrightarrow>
    child name (full_bytes type version flags xs @ ys) = (if string_bytes type = string_bytes name then Some (version # be3 flags @ xs) else child name ys)"
  by (auto simp: child_def)

lemmas box_single = read_boxes_box [where ys = "[]", unfolded append_Nil2] read_boxes_full [where ys = "[]", unfolded append_Nil2]
  child_box [where ys = "[]", unfolded append_Nil2] child_full [where ys = "[]", unfolded append_Nil2]

lemma string_bytes_eq: "string_bytes s = string_bytes t \<longleftrightarrow> s = t"
  by (metis bytes_string_string_bytes)

lemma byte_of_char_eq: "byte_of_char c = byte_of_char d \<longleftrightarrow> c = d"
  using string_bytes_eq [of "[c]" "[d]"] by simp

lemma rd2_be2 [simp]: "rd2 (be2 v @ xs) = v"
  using word_of_le_bytes [where w = v] by (simp add: rd2_def be2_def)

lemma length_bodies [simp]:
  "length (tkhd_body tid volume width height) = 80" "length mdhd_body = 20" "length (hdlr_body type name) = 17 + length type + length name"
  "length dinf_bytes = 36" "length tables_bytes = 68" "length (avc1_head width height) = 78" "length (mp4a_head c) = 28" "length (esds_body asc) = 25 + length asc"
  by (simp_all add: tkhd_body_def mdhd_body_def hdlr_body_def dinf_bytes_def tables_bytes_def avc1_head_def mp4a_head_def esds_body_def numeral_3_eq_3)

lemma descriptor_back [simp]: "length xs < 128 \<Longrightarrow> descriptor tag (tag # word_of_nat (length xs) # xs @ ys) = Some (xs, ys)"
proof -
  assume l: "length xs < 128"
  then have "unat (word_of_nat (length xs) :: byte) = length xs" by (simp only: unsigned_of_nat) (simp add: take_bit_nat_eq_self)
  with l show ?thesis by (simp add: descriptor_def)
qed

lemma read_asc_back: "length asc \<le> 104 \<Longrightarrow> read_asc (esds_body asc) = Some asc"
proof -
  assume l: "length asc \<le> 104"
  let ?d5 = "0x05 # word_of_nat (length asc) # asc @ []"
  let ?c = "[0x40, 0x15] @ be3 0 @ be4 0 @ be4 0 @ ?d5"
  let ?d6 = "0x06 # word_of_nat (length [0x02 :: byte]) # [0x02] @ []"
  let ?d4 = "0x04 # word_of_nat (length ?c) # ?c @ ?d6"
  let ?es = "be2 0x02 @ [0x00] @ ?d4"
  have e: "esds_body asc = 0x03 # word_of_nat (length ?es) # ?es @ []" by (simp add: esds_body_def)
  have "descriptor 3 (esds_body asc) = Some (?es, [])" unfolding e by (rule descriptor_back) (use l in simp)
  moreover have "drop 3 ?es = ?d4" by simp
  moreover have "descriptor 4 ?d4 = Some (?c, ?d6)" by (rule descriptor_back) (use l in simp)
  moreover have "drop 13 ?c = ?d5" by simp
  moreover have "descriptor 5 ?d5 = Some (asc, [])" by (rule descriptor_back) (use l in simp)
  moreover have "descriptor 6 ?d6 = Some ([0x02], [])" by (rule descriptor_back) simp
  ultimately show ?thesis by (simp only: read_asc_def bind.bind_lunit prod.case option.map)
qed

lemma read_entry_avc1:
  assumes "length avcc < 2 ^ 31"
  shows "read_entry (box_bytes ''avc1'' (avc1_head width height @ box_bytes ''avcC'' avcc)) = Some (Avc (word_of_int width) (word_of_int height) avcc)"
proof -
  have h: "rd2 (drop 24 (avc1_head width height) @ xs) = word_of_int width" "rd2 (drop 26 (avc1_head width height) @ xs) = word_of_int height" for xs
    by (simp_all add: avc1_head_def numeral_3_eq_3)
  show ?thesis using assms by (simp add: read_entry_def box_single byte_of_char_eq h)
qed

lemma read_entry_mp4a:
  assumes "length (aac_extra_data c) \<le> 104"
  shows "read_entry (box_bytes ''mp4a'' (mp4a_head c @ full_bytes ''esds'' 0 0 (esds_body (aac_extra_data c)))) = Some (Aac (ucast (aac_channels c)) (aac_extra_data c))"
proof -
  have h: "rd2 (drop 16 (mp4a_head c) @ xs) = ucast (aac_channels c)" for xs by (simp add: mp4a_head_def)
  show ?thesis using assms read_asc_back [OF assms] by (simp add: read_entry_def box_single byte_of_char_eq h)
qed

lemma read_trak_back:
  assumes "length hdlr = 33" and "length type = 4" "length mhd \<le> 100" and mhd: "mhd = full_bytes type 0 flags xs" and "type \<noteq> ''stbl''" "length tkhd = 80"
    and "length entry < 2 ^ 31 + 2 ^ 20" and "read_entry entry = Some codec"
  shows "read_trak (full_bytes ''tkhd'' 0 3 tkhd @ box_bytes ''mdia'' (full_bytes ''mdhd'' 0 0 mdhd_body @ full_bytes ''hdlr'' 0 0 hdlr
     @ box_bytes ''minf'' (mhd @ dinf_bytes @ box_bytes ''stbl'' (full_bytes ''stsd'' 0 0 (be4 1 @ entry) @ tables_bytes))))
    = Some (rd4 (drop 8 tkhd), 1000, take 4 (drop 4 hdlr), codec)"
proof -
  have tb: "\<exists>l. read_boxes tables_bytes = Some l" by (simp add: tables_bytes_def box_single)
  have stbl: "child ''stsd'' (full_bytes ''stsd'' 0 0 (be4 1 @ entry) @ tables_bytes) = Some (0 # be3 0 @ be4 1 @ entry)"
    using assms(7) tb by simp
  have xs: "length xs \<le> 100" using assms(3) by (simp add: mhd)
  have minf: "child ''stbl'' (mhd @ dinf_bytes @ box_bytes ''stbl'' ys) = Some ys" if "length ys < 2 ^ 31 + 2 ^ 21" for ys
    using that assms(2) xs string_bytes_eq [of type "''stbl''"] assms(5) by (simp add: mhd dinf_bytes_def box_single byte_of_char_eq)
  have m: "rd4 (drop 8 mdhd_body) = 1000" by (simp add: mdhd_body_def)
  show ?thesis using assms(1,3,6-8) m
    by (simp add: read_trak_def box_single byte_of_char_eq minf stbl)
qed

text \<open>The file for the tracks \<open>v\<close> and \<open>a\<close>.\<close>

definition video_trak_body :: "SrsVideoCodecConfig \<Rightarrow> 32 word \<Rightarrow> byte list" where
  "video_trak_body c tid = full_bytes ''tkhd'' 0 3 (tkhd_body tid 0 (vc_width c) (vc_height c)) @ box_bytes ''mdia'' (full_bytes ''mdhd'' 0 0 mdhd_body
     @ full_bytes ''hdlr'' 0 0 (hdlr_body ''vide'' ''VideoHandler'') @ box_bytes ''minf'' (full_bytes ''vmhd'' 0 1 (concat (map be2 [0, 0, 0, 0])) @ dinf_bytes
     @ box_bytes ''stbl'' (full_bytes ''stsd'' 0 0 (be4 1 @ box_bytes ''avc1'' (avc1_head (vc_width c) (vc_height c) @ box_bytes ''avcC'' (avc_extra_data c))) @ tables_bytes)))"

definition audio_trak_body :: "SrsAudioCodecConfig \<Rightarrow> 32 word \<Rightarrow> byte list" where
  "audio_trak_body c tid = full_bytes ''tkhd'' 0 3 (tkhd_body tid 0x0100 0 0) @ box_bytes ''mdia'' (full_bytes ''mdhd'' 0 0 mdhd_body
     @ full_bytes ''hdlr'' 0 0 (hdlr_body ''soun'' ''SoundHandler'') @ box_bytes ''minf'' (full_bytes ''smhd'' 0 0 (concat (map be2 [0, 0])) @ dinf_bytes
     @ box_bytes ''stbl'' (full_bytes ''stsd'' 0 0 (be4 1 @ box_bytes ''mp4a'' (mp4a_head c @ full_bytes ''esds'' 0 0 (esds_body (aac_extra_data c)))) @ tables_bytes)))"

definition mvhd_body :: "32 word \<Rightarrow> byte list" where
  "mvhd_body next_tid = concat (map be4 [0, 0, 1000, 0, 0x00010000]) @ concat (map be2 [0x0100, 0]) @ concat (map be4 [0, 0])
     @ concat (map be4 [0x00010000, 0, 0, 0, 0x00010000, 0, 0, 0, 0x40000000]) @ concat (replicate 6 (be4 0)) @ be4 next_tid"

definition ftyp_body :: "byte list" where
  "ftyp_body = string_bytes ''iso5'' @ be4 512 @ string_bytes ''iso6'' @ string_bytes ''mp41''"

definition trexs :: "32 word list \<Rightarrow> byte list" where
  "trexs tids = concat (map (\<lambda>tid. full_bytes ''trex'' 0 0 (concat (map be4 [tid, 1, 0, 0, 0]))) tids)"

lemma init_body_lengths [simp]:
  "length (video_trak_body c tid) = 427 + length (avc_extra_data c)" "length (audio_trak_body c' tid) = 402 + length (aac_extra_data c')" "length (mvhd_body n) = 96" "length ftyp_body = 16"
  "length (trexs tids) = 32 * length tids"
  subgoal by (simp add: video_trak_body_def)
  subgoal by (simp add: audio_trak_body_def)
  subgoal by (simp add: mvhd_body_def numeral_eq_Suc)
  subgoal by (simp add: ftyp_body_def)
  subgoal by (induction tids) (simp_all add: trexs_def)
  done

lemma writes_ftyp: "writes mp4_ftyp (box_bytes ''ftyp'' ftyp_body)"
  unfolding mp4_ftyp_def ftyp_body_def by (rule writes_box, simp, rule writes_cong, (rule box_writes)+) simp

lemma writes_mvhd: "writes (mp4_mvhd n) (full_bytes ''mvhd'' 0 0 (mvhd_body n))"
  unfolding mp4_mvhd_def mvhd_body_def srs_mp4_write_matrix_def by (rule writes_full_box, simp, rule writes_cong, (rule box_writes)+) simp

lemma writes_mvex: "writes (mp4_mvex tids) (box_bytes ''mvex'' (trexs tids))"
  unfolding mp4_mvex_def trexs_def by (rule writes_box, simp, (rule box_writes | simp only: list.size)+)

definition init_bytes :: "(SrsVideoCodecConfig \<times> 32 word) option \<Rightarrow> (SrsAudioCodecConfig \<times> 32 word) option \<Rightarrow> 32 word \<Rightarrow> byte list" where
  "init_bytes v a n = box_bytes ''ftyp'' ftyp_body @ box_bytes ''moov'' (full_bytes ''mvhd'' 0 0 (mvhd_body n)
     @ (case v of Some (c, vid) \<Rightarrow> box_bytes ''trak'' (video_trak_body c vid) | None \<Rightarrow> []) @ (case a of Some (c, aid) \<Rightarrow> box_bytes ''trak'' (audio_trak_body c aid) | None \<Rightarrow> [])
     @ box_bytes ''mvex'' (trexs ((case v of Some (_, vid) \<Rightarrow> [vid] | None \<Rightarrow> []) @ (case a of Some (_, aid) \<Rightarrow> [aid] | None \<Rightarrow> []))))"

lemma init_written: "\<exists>n. writes (mp4_init v a) (init_bytes v a n)"
proof -
  note w = writes_ftyp writes_mvhd writes_mvex writes_video_trak [unfolded trak_bytes_def, folded video_trak_body_def] writes_audio_trak [unfolded trak_bytes_def, folded audio_trak_body_def]
  let ?n = "(case a of Some (_, aid) \<Rightarrow> aid | None \<Rightarrow> (case v of Some (_, vid) \<Rightarrow> vid | None \<Rightarrow> 0)) + 1"
  let ?v = "case v of Some (c, vid) \<Rightarrow> [write_video_trak c vid] | None \<Rightarrow> []" and ?a = "case a of Some (c, aid) \<Rightarrow> [write_audio_trak c aid] | None \<Rightarrow> []"
  have tv: "writes (write_all ?v) (case v of Some (c, vid) \<Rightarrow> box_bytes ''trak'' (video_trak_body c vid) | None \<Rightarrow> [])"
    using writes_all_Cons [OF w(4) writes_all_Nil] writes_all_Nil by (auto simp del: write_all.simps split: option.split)
  have ta: "writes (write_all ?a) (case a of Some (c, aid) \<Rightarrow> box_bytes ''trak'' (audio_trak_body c aid) | None \<Rightarrow> [])"
    using writes_all_Cons [OF w(5) writes_all_Nil] writes_all_Nil by (auto simp del: write_all.simps split: option.split)
  have "writes (mp4_init v a) (init_bytes v a ?n)" unfolding mp4_init_def init_bytes_def Let_def
    by (rule writes_cong, (rule w(1-3) tv ta writes_all_Cons writes_all_Nil writes_all_append writes_box | simp only: list.size)+) simp
  then show ?thesis by blast
qed

lemma read_video_trak:
  assumes "length (avc_extra_data c) < 2 ^ 31"
  shows "read_trak (video_trak_body c tid) = Some (tid, 1000, string_bytes ''vide'', Avc (word_of_int (vc_width c)) (word_of_int (vc_height c)) (avc_extra_data c))"
proof -
  have "rd4 (drop 8 (tkhd_body tid 0 w h)) = tid" for w h by (simp add: tkhd_body_def)
  moreover have "take 4 (drop 4 (hdlr_body ''vide'' ''VideoHandler'')) = string_bytes ''vide''" by (simp add: hdlr_body_def)
  ultimately show ?thesis unfolding video_trak_body_def
    using assms read_trak_back [OF _ _ _ refl _ _ _ read_entry_avc1 [OF assms], of "hdlr_body ''vide'' ''VideoHandler''" "''vmhd''"] by simp
qed

lemma read_audio_trak:
  assumes "length (aac_extra_data c) \<le> 104"
  shows "read_trak (audio_trak_body c tid) = Some (tid, 1000, string_bytes ''soun'', Aac (ucast (aac_channels c)) (aac_extra_data c))"
proof -
  have "rd4 (drop 8 (tkhd_body tid v w h)) = tid" for v w h by (simp add: tkhd_body_def)
  moreover have "take 4 (drop 4 (hdlr_body ''soun'' ''SoundHandler'')) = string_bytes ''soun''" by (simp add: hdlr_body_def)
  ultimately show ?thesis unfolding audio_trak_body_def
    using assms read_trak_back [OF _ _ _ refl _ _ _ read_entry_mp4a [OF assms], of "hdlr_body ''soun'' ''SoundHandler''" "''smhd''"] by simp
qed

lemma trexs_back: "length tids < 2 ^ 26 \<Longrightarrow> \<exists>bs. read_boxes (trexs tids) = Some bs \<and> map (\<lambda>x. rd4 (drop 4 (snd x))) bs = tids"
  by (induction tids) (auto simp: trexs_def)

lemma read_init_parts:
  assumes "length tids \<le> 2" and "sum_list (map length traks) < 2 ^ 31" and "length traks \<le> 2"
  shows "read_init (box_bytes ''ftyp'' ftyp_body @ box_bytes ''moov'' (full_bytes ''mvhd'' 0 0 (mvhd_body n) @ concat (map (box_bytes ''trak'') traks) @ box_bytes ''mvex'' (trexs tids)))
    = Some (map read_trak traks, tids)"
proof -
  obtain bs where bs: "read_boxes (trexs tids) = Some bs" "map (\<lambda>x. rd4 (drop 4 (snd x))) bs = tids" using trexs_back [of tids] assms(1) by auto
  let ?mvex = "box_bytes ''mvex'' (trexs tids)" and ?traks = "concat (map (box_bytes ''trak'') traks)"
  have m: "read_boxes ?mvex = Some [(string_bytes ''mvex'', trexs tids)]" using assms(1) by (simp add: box_single)
  have t: "read_boxes (concat (map (box_bytes ''trak'') ts) @ ?mvex) = Some (map (Pair (string_bytes ''trak'')) ts @ [(string_bytes ''mvex'', trexs tids)])"
    if "sum_list (map length ts) < 2 ^ 31" for ts
    using that m by (induction ts) auto
  have len: "length ?traks < 2 ^ 31 + 16"
  proof -
    have "length (concat (map (box_bytes ''trak'') ts)) = 8 * length ts + sum_list (map length ts)" for ts by (induction ts) auto
    then show ?thesis using assms(2,3) by simp
  qed
  let ?moov = "full_bytes ''mvhd'' 0 0 (mvhd_body n) @ ?traks @ ?mvex"
  have boxes: "read_boxes ?moov = Some ((string_bytes ''mvhd'', 0 # be3 0 @ mvhd_body n) # map (Pair (string_bytes ''trak'')) traks @ [(string_bytes ''mvex'', trexs tids)])"
    using t [OF assms(2)] by simp
  have c: "child ''mvex'' ?moov = Some (trexs tids)"
  proof -
    have "map_of (map (Pair (string_bytes ''trak'')) ts @ xs) (string_bytes ''mvex'') = map_of xs (string_bytes ''mvex'')" for ts and xs :: "(byte list \<times> byte list) list"
      by (induction ts) (simp_all add: byte_of_char_eq)
    from this [of traks "[(string_bytes ''mvex'', trexs tids)]"] show ?thesis unfolding child_def boxes by (simp add: byte_of_char_eq)
  qed
  have moov: "child ''ftyp'' (box_bytes ''ftyp'' ftyp_body @ box_bytes ''moov'' ?moov) = Some ftyp_body"
    "child ''moov'' (box_bytes ''ftyp'' ftyp_body @ box_bytes ''moov'' ?moov) = Some ?moov"
    using len assms(1) by (simp_all add: box_single byte_of_char_eq)
  have f: "map (read_trak \<circ> snd) (filter (\<lambda>x. fst x = string_bytes ''trak'')
      ((string_bytes ''mvhd'', 0 # be3 0 @ mvhd_body n) # map (Pair (string_bytes ''trak'')) traks @ [(string_bytes ''mvex'', trexs tids)])) = map read_trak traks"
    by (simp add: byte_of_char_eq filter_map o_def)
  show ?thesis unfolding read_init_def moov c boxes bind.bind_lunit bs(1) f bs(2) ..
qed

lemma read_init_back:
  assumes "\<And>c tid. v = Some (c, tid) \<Longrightarrow> length (avc_extra_data c) < 2 ^ 30" and "\<And>c tid. a = Some (c, tid) \<Longrightarrow> length (aac_extra_data c) \<le> 104"
  shows "read_init (init_bytes v a n) = Some
    ((case v of Some (c, tid) \<Rightarrow> [Some (tid, 1000, string_bytes ''vide'', Avc (word_of_int (vc_width c)) (word_of_int (vc_height c)) (avc_extra_data c))] | None \<Rightarrow> [])
     @ (case a of Some (c, tid) \<Rightarrow> [Some (tid, 1000, string_bytes ''soun'', Aac (ucast (aac_channels c)) (aac_extra_data c))] | None \<Rightarrow> []),
     (case v of Some (_, tid) \<Rightarrow> [tid] | None \<Rightarrow> []) @ (case a of Some (_, tid) \<Rightarrow> [tid] | None \<Rightarrow> []))"
proof -
  let ?traks = "(case v of Some (c, tid) \<Rightarrow> [video_trak_body c tid] | None \<Rightarrow> []) @ (case a of Some (c, tid) \<Rightarrow> [audio_trak_body c tid] | None \<Rightarrow> [])"
  let ?tids = "(case v of Some (_, tid) \<Rightarrow> [tid] | None \<Rightarrow> []) @ (case a of Some (_, tid) \<Rightarrow> [tid] | None \<Rightarrow> [])"
  have i: "init_bytes v a n = box_bytes ''ftyp'' ftyp_body @ box_bytes ''moov'' (full_bytes ''mvhd'' 0 0 (mvhd_body n) @ concat (map (box_bytes ''trak'') ?traks) @ box_bytes ''mvex'' (trexs ?tids))"
    by (auto simp: init_bytes_def split: option.split)
  have l: "length ?tids \<le> 2" "sum_list (map length ?traks) < 2 ^ 31" "length ?traks \<le> 2"
    using assms by (force split: option.split)+
  have r: "map read_trak ?traks = (case v of Some (c, tid) \<Rightarrow> [Some (tid, 1000, string_bytes ''vide'', Avc (word_of_int (vc_width c)) (word_of_int (vc_height c)) (avc_extra_data c))] | None \<Rightarrow> [])
     @ (case a of Some (c, tid) \<Rightarrow> [Some (tid, 1000, string_bytes ''soun'', Aac (ucast (aac_channels c)) (aac_extra_data c))] | None \<Rightarrow> [])"
    using assms by (cases v; cases a) (force simp: read_video_trak read_audio_trak)+
  show ?thesis unfolding i read_init_parts [OF l] r ..
qed

lemma init_length: "length (init_bytes v a n)
    \<le> 2048 + (case v of Some (c, _) \<Rightarrow> length (avc_extra_data c) | None \<Rightarrow> 0) + (case a of Some (c, _) \<Rightarrow> length (aac_extra_data c) | None \<Rightarrow> 0)"
  by (auto simp: init_bytes_def split: option.split)

lemma writes_room:
  assumes "writes m xs" and "length xs \<le> n"
  shows "\<exists>b. m (SrsBuffer_new (replicate n 0)) = Inr ((), b) \<and> take (buf_p b) (buf_bytes b) = xs"
  using assms(1) [unfolded writes_def, rule_format, of "SrsBuffer_new (replicate n 0)"] assms(2)
  by (simp add: store_def) (simp add: SrsBuffer_new_def)

text \<open>C15. Round trip of the initialization segment: for the tracks that are asked for, with a sequence header of each, the bytes always fit the buffer,
  and a player that follows the boxes of \<^verbatim>\<open>ftyp\<close> and \<^verbatim>\<open>moov\<close> gets each track back under its id, with the time scale of milliseconds, its handler, and the codec: the
  size and decoder configuration of the video, the channels and the audio configuration, which must be short enough (104 bytes) for descriptor lengths of
  one byte.\<close>

theorem mp4_init_roundtrip:
  assumes "\<And>bs w. wr_write W bs w = (None, w @ bs)"
    and "has_video \<Longrightarrow> fmt_vcodec format = Some vc \<and> is_avc_codec_ok vc \<and> length (avc_extra_data vc) < 2 ^ 30"
    and "has_audio \<Longrightarrow> fmt_acodec format = Some ac \<and> is_aac_codec_ok ac \<and> length (aac_extra_data ac) \<le> 104"
  shows "\<exists>file. init_do_write W format has_video vid has_audio aid w = (None, w @ file) \<and> read_init file = Some
    ((if has_video then [Some (vid, 1000, string_bytes ''vide'', Avc (word_of_int (vc_width vc)) (word_of_int (vc_height vc)) (avc_extra_data vc))] else [])
     @ (if has_audio then [Some (aid, 1000, string_bytes ''soun'', Aac (ucast (aac_channels ac)) (aac_extra_data ac))] else []),
     (if has_video then [vid] else []) @ (if has_audio then [aid] else []))"
proof -
  define v where "v = (if has_video then Some (vc, vid) else None)"
  define a where "a = (if has_audio then Some (ac, aid) else None)"
  obtain n where n: "writes (mp4_init v a) (init_bytes v a n)" using init_written by blast
  let ?nb = "2048 + (case v of Some (c, _) \<Rightarrow> length (avc_extra_data c) | None \<Rightarrow> 0) + (case a of Some (c, _) \<Rightarrow> length (aac_extra_data c) | None \<Rightarrow> 0)"
  obtain b where b: "mp4_init v a (SrsBuffer_new (replicate ?nb 0)) = Inr ((), b)" "take (buf_p b) (buf_bytes b) = init_bytes v a n"
    using writes_room [OF n init_length] by blast
  have va: "(if has_video then map_option (\<lambda>c. (c, vid)) (fmt_vcodec format) else None) = v"
    "(if has_audio then map_option (\<lambda>c. (c, aid)) (fmt_acodec format) else None) = a"
    using assms(2,3) by (auto simp: v_def a_def)
  have ok: "\<not> (has_video \<and> \<not> (case fmt_vcodec format of None \<Rightarrow> False | Some c \<Rightarrow> is_avc_codec_ok c))"
    "\<not> (has_audio \<and> \<not> (case fmt_acodec format of None \<Rightarrow> False | Some c \<Rightarrow> is_aac_codec_ok c))"
    using assms(2,3) by auto
  have "init_do_write W format has_video vid has_audio aid w = (None, w @ init_bytes v a n)"
    unfolding init_do_write_def Let_def if_not_P [OF ok(1)] if_not_P [OF ok(2)] va b(1) by (simp add: b(2) assms(1))
  moreover have "read_init (init_bytes v a n) = Some
    ((case v of Some (c, tid) \<Rightarrow> [Some (tid, 1000, string_bytes ''vide'', Avc (word_of_int (vc_width c)) (word_of_int (vc_height c)) (avc_extra_data c))] | None \<Rightarrow> [])
     @ (case a of Some (c, tid) \<Rightarrow> [Some (tid, 1000, string_bytes ''soun'', Aac (ucast (aac_channels c)) (aac_extra_data c))] | None \<Rightarrow> []),
     (case v of Some (_, tid) \<Rightarrow> [tid] | None \<Rightarrow> []) @ (case a of Some (_, tid) \<Rightarrow> [tid] | None \<Rightarrow> []))"
    by (rule read_init_back) (use assms(2,3) in \<open>auto simp: v_def a_def split: if_splits\<close>)
  ultimately show ?thesis by (auto simp: v_def a_def)
qed

theorem mp4_init_roundtrip_witness:
  "let vc = SrsVideoCodecConfig_new\<lparr>vc_width := 640, vc_height := 360, avc_extra_data := [1, 0x64, 0, 0x1e], sequenceParameterSetNALUnit := [0x67]\<rparr>;
       ac = SrsAudioCodecConfig_new\<lparr>aac_object := 2, aac_channels := 2, aac_extra_data := [0x12, 0x10]\<rparr>;
       format = SrsFormat_new\<lparr>fmt_vcodec := Some vc, fmt_acodec := Some ac\<rparr>
   in \<exists>file. init_do_write buffer_writer format True 1 True 2 [] = (None, file)
     \<and> read_init file = Some ([Some (1, 1000, string_bytes ''vide'', Avc 640 360 [1, 0x64, 0, 0x1e]), Some (2, 1000, string_bytes ''soun'', Aac 2 [0x12, 0x10])], [1, 2])"
proof -
  let ?vc = "SrsVideoCodecConfig_new\<lparr>vc_width := 640, vc_height := 360, avc_extra_data := [1, 0x64, 0, 0x1e], sequenceParameterSetNALUnit := [0x67]\<rparr>"
  let ?ac = "SrsAudioCodecConfig_new\<lparr>aac_object := 2, aac_channels := 2, aac_extra_data := [0x12, 0x10]\<rparr>"
  show ?thesis
    using mp4_init_roundtrip [of buffer_writer True "SrsFormat_new\<lparr>fmt_vcodec := Some ?vc, fmt_acodec := Some ?ac\<rparr>" ?vc True ?ac 1 2 "[]"]
    by (simp add: buffer_writer_def is_avc_codec_ok_def is_aac_codec_ok_def)
qed

end
