(* ===== verification/LlHlsParts.thy ===== *)
theory LlHlsParts
  imports Complex_Main LlHlsStore Mp4Init
begin

text \<open>
  What the packager of low-latency HLS makes of the frames: the parts in the making, one frame, a whole publication, and what the decisions
  about the cuts amount to.
\<close>

section \<open>Parts in the making\<close>

text \<open>
  A frame that is written: its track, the frame type, decoding and presentation time and the bytes. The frames of the open part and
  the duration of the closed parts of the segment are what the packager depends on.
\<close>

type_synonym av_frame = "SrsMp4HandlerType \<times> byte \<times> int \<times> int \<times> byte list"

definition frame_dts :: "av_frame \<Rightarrow> int" where
  "frame_dts = (\<lambda>(ht, ft, dts, pts, raw). dts)"

definition frame_sample :: "av_frame \<Rightarrow> SrsMp4HandlerType \<times> byte \<times> 32 word \<times> 32 word \<times> byte list" where
  "frame_sample = (\<lambda>(ht, ft, dts, pts, raw). (ht, ft, word_of_int dts, word_of_int pts, raw))"

definition video_frames :: "av_frame list \<Rightarrow> av_frame list" where
  "video_frames fs = filter (\<lambda>f. fst f = SrsMp4HandlerTypeVIDE) fs"

definition key_frame :: "av_frame \<Rightarrow> bool" where
  "key_frame f \<longleftrightarrow> fst f = SrsMp4HandlerTypeVIDE \<and> fst (snd f) = SrsVideoAvcFrameTypeKeyFrame"

definition llhls_audio_tid :: "bool \<Rightarrow> 32 word" where
  "llhls_audio_tid vc = (if vc then 2 else 1)"

definition packed :: "int \<Rightarrow> int \<Rightarrow> muxer_state \<Rightarrow> av_frame list \<Rightarrow> int \<Rightarrow> bool" where
  "packed T S ms fs seg \<longleftrightarrow> (case ms of (m, s) \<Rightarrow>
     lm_storage m \<and> window_wf s \<and> lm_part_target m = T \<and> lm_segment_target m = S \<and> lm_segment_duration m = seg \<and> (lm_part_open m \<longleftrightarrow> fs \<noteq> [])
     \<and> (fs \<noteq> [] \<longrightarrow> lm_part_nb_samples m = int (length fs) \<and> lm_part_start_dts m = frame_dts (hd fs) \<and> lm_last_dts m = frame_dts (last fs)
         \<and> lm_enc m = Some (write_samples (map frame_sample fs) (fragment_encoder (lm_sequence m - 1) 1 (llhls_audio_tid (lm_video_configured m))))
         \<and> lm_writer m = styp_bytes \<and> (\<forall>f \<in> set fs. fst f \<noteq> SrsMp4HandlerTypeForbidden)
         \<and> lm_part_has_video m = (video_frames fs \<noteq> []) \<and> (video_frames fs \<noteq> [] \<longrightarrow> lm_part_independent m = key_frame (hd (video_frames fs)))))"

text \<open>What a part is to carry: the samples of its frames for a player, its duration, and whether it can be decoded alone.\<close>

definition tracks_of :: "bool \<Rightarrow> av_frame list \<Rightarrow> (32 word \<times> (32 word \<times> 32 word \<times> 32 word \<times> byte list) list) option list" where
  "tracks_of vc fs = (let ss = map frame_sample fs in
     (if of_type SrsMp4HandlerTypeVIDE ss = [] then [] else [Some (1, map sample_view (of_type SrsMp4HandlerTypeVIDE ss))])
     @ (if of_type SrsMp4HandlerTypeSOUN ss = [] then [] else [Some (llhls_audio_tid vc, map sample_view (of_type SrsMp4HandlerTypeSOUN ss))]))"

definition small :: "av_frame list \<Rightarrow> bool" where
  "small fs \<longleftrightarrow> 32 * length fs + sum_list (map (length \<circ> snd \<circ> snd \<circ> snd \<circ> snd) fs) + 1000 < 2 ^ 31"

definition carries :: "bool \<Rightarrow> SrsLlHlsPart \<Rightarrow> av_frame list \<times> int \<Rightarrow> bool" where
  "carries vc part = (\<lambda>(fs, duration).
     lp_duration part = duration
     \<and> lp_independent part = (if video_frames fs = [] then \<not> vc else key_frame (hd (video_frames fs)))
     \<and> (small fs \<longrightarrow> (\<exists>n. read_fragment (lp_payload part) = Some (n, tracks_of vc fs))))"

lemma of_type_frames: "of_type SrsMp4HandlerTypeVIDE (map frame_sample fs) = map frame_sample (video_frames fs)"
  by (induction fs) (auto simp: video_frames_def frame_sample_def)

lemma frames_some: "fs \<noteq> [] \<Longrightarrow> \<forall>f \<in> set fs. fst f \<noteq> SrsMp4HandlerTypeForbidden \<Longrightarrow>
    of_type SrsMp4HandlerTypeVIDE (map frame_sample fs) \<noteq> [] \<or> of_type SrsMp4HandlerTypeSOUN (map frame_sample fs) \<noteq> []"
  by (cases fs; cases "fst (hd fs)") (auto simp: frame_sample_def)

lemma small_samples: "small fs \<Longrightarrow> 32 * length (map frame_sample fs) + sum_list (map (length \<circ> sample_data) (map frame_sample fs)) + 1000 < 2 ^ 31"
proof -
  have "sum_list (map (length \<circ> sample_data) (map frame_sample fs)) = sum_list (map (length \<circ> snd \<circ> snd \<circ> snd \<circ> snd) fs)"
    by (induction fs) (auto simp: sample_data_def frame_sample_def)
  then show "small fs \<Longrightarrow> ?thesis" by (simp add: small_def)
qed

lemma buffer_writer_simps [simp]: "wr_write buffer_writer bs w = (None, w @ bs)" "wr_writev buffer_writer vs w = (None, w @ concat vs)"
  by (simp_all add: buffer_writer_def)

text \<open>The part is published.\<close>

lemma flush_part_packed:
  assumes "packed T S (m, s) fs seg" and "fs \<noteq> []"
  shows "\<exists>payload indep.
    flush_part e c (m, s) = (None, ((clear_part m)\<lparr>lm_segment_duration := (if c then 0 else seg + (e - frame_dts (hd fs)) * 1000)\<rparr>,
        append_part payload ((e - frame_dts (hd fs)) * 1000) indep c s))
    \<and> (\<forall>n. carries (lm_video_configured m) \<lparr>lp_psn = n, lp_duration = (e - frame_dts (hd fs)) * 1000, lp_independent = indep, lp_payload = payload\<rparr> (fs, (e - frame_dts (hd fs)) * 1000))"
proof -
  let ?ss = "map frame_sample fs" and ?tid = "llhls_audio_tid (lm_video_configured m)"
  have p: "lm_storage m" "lm_segment_duration m = seg" "lm_part_open m" "lm_part_nb_samples m \<noteq> 0" "lm_part_start_dts m = frame_dts (hd fs)"
      "lm_enc m = Some (write_samples ?ss (fragment_encoder (lm_sequence m - 1) 1 ?tid))" "lm_writer m = styp_bytes"
      "\<forall>f \<in> set fs. fst f \<noteq> SrsMp4HandlerTypeForbidden" "lm_part_has_video m = (video_frames fs \<noteq> [])"
      "video_frames fs \<noteq> [] \<longrightarrow> lm_part_independent m = key_frame (hd (video_frames fs))"
    using assms by (auto simp: packed_def)
  note some = frames_some [OF assms(2) p(8)]
  let ?enc = "write_samples ?ss (fragment_encoder (lm_sequence m - 1) 1 ?tid)"
  obtain xs where xs: "segment_flush buffer_writer (word_of_int e) (?enc, styp_bytes) = (None, (?enc, styp_bytes @ xs))"
    using segment_flush_total [OF buffer_writer_simps(2) some] by blast
  have r: "\<exists>n. read_fragment (styp_bytes @ xs) = Some (n, tracks_of (lm_video_configured m) fs)" if "small fs"
  proof -
    have "?tid \<noteq> 0" by (simp add: llhls_audio_tid_def)
    from fragment_read [OF buffer_writer_simps(2) some small_samples [OF that] this, of "word_of_int e" "lm_sequence m - 1" 1] xs
    show ?thesis by (auto simp: tracks_of_def Let_def)
  qed
  let ?indep = "if lm_part_has_video m then lm_part_independent m else \<not> lm_video_configured m"
  have "flush_part e c (m, s) = (None, ((clear_part m)\<lparr>lm_segment_duration := (if c then 0 else seg + (e - frame_dts (hd fs)) * 1000)\<rparr>,
      append_part (styp_bytes @ xs) ((e - frame_dts (hd fs)) * 1000) ?indep c s))"
    using p(1-5) by (simp add: flush_part_def p(6,7) xs Let_def andthen_def on_storage_def on_mux_def clear_part_def)
  moreover have "carries (lm_video_configured m) \<lparr>lp_psn = n, lp_duration = (e - frame_dts (hd fs)) * 1000, lp_independent = ?indep, lp_payload = styp_bytes @ xs\<rparr>
      (fs, (e - frame_dts (hd fs)) * 1000)" for n
    using r p(9,10) by (simp add: carries_def)
  ultimately show ?thesis by blast
qed

lemma clear_part_simps [simp]: "lm_storage (clear_part m) = lm_storage m" "lm_part_target (clear_part m) = lm_part_target m" "lm_segment_target (clear_part m) = lm_segment_target m"
  "lm_part_open (clear_part m) = False" "lm_video_configured (clear_part m) = lm_video_configured m" "lm_init_dirty (clear_part m) = lm_init_dirty m"
  "lm_sequence (clear_part m) = lm_sequence m" "lm_segment_duration (clear_part m) = lm_segment_duration m" "lm_latest_avc_extra (clear_part m) = lm_latest_avc_extra m"
  "lm_latest_aac_extra (clear_part m) = lm_latest_aac_extra m"
  by (simp_all add: clear_part_def)

text \<open>The decision.\<close>

definition cut_at :: "int \<Rightarrow> int \<Rightarrow> bool \<Rightarrow> int \<Rightarrow> av_frame list \<Rightarrow> int \<Rightarrow> bool option" where
  "cut_at T S can_end dts fs seg =
     (if fs = [] then None
      else let dur = (dts - frame_dts (hd fs)) * 1000; gap = (dts - frame_dts (last fs)) * 1000
           in if can_end \<and> seg + dur \<ge> S then Some True
              else if dur \<ge> T \<or> dur \<ge> T * 85 sdiv 100 \<and> dur + gap > T then Some False else None)"

lemma maybe_cut_packed:
  assumes "packed T S (m, s) fs seg"
  shows "maybe_cut dts can_end (m, s) = (case cut_at T S can_end dts fs seg of None \<Rightarrow> (None, (m, s)) | Some c \<Rightarrow> flush_part dts c (m, s))"
  using assms by (auto simp: maybe_cut_def cut_at_def packed_def Let_def)

section \<open>A frame is written\<close>

lemma init_do_write_total:
  assumes "has_video \<Longrightarrow> codec_ok_video format" and "has_audio \<Longrightarrow> codec_ok_audio format"
  shows "\<exists>file. init_do_write buffer_writer format has_video vid has_audio aid w = (None, w @ file)"
proof -
  let ?v = "if has_video then map_option (\<lambda>c. (c, vid)) (fmt_vcodec format) else None"
  let ?a = "if has_audio then map_option (\<lambda>c. (c, aid)) (fmt_acodec format) else None"
  obtain n where n: "writes (mp4_init ?v ?a) (init_bytes ?v ?a n)" using init_written by blast
  let ?nb = "2048 + (case ?v of Some (c, _) \<Rightarrow> length (avc_extra_data c) | None \<Rightarrow> 0) + (case ?a of Some (c, _) \<Rightarrow> length (aac_extra_data c) | None \<Rightarrow> 0)"
  obtain b where b: "mp4_init ?v ?a (SrsBuffer_new (replicate ?nb 0)) = Inr ((), b)" using writes_room [OF n init_length] by blast
  have ok: "\<not> (has_video \<and> \<not> (case fmt_vcodec format of None \<Rightarrow> False | Some c \<Rightarrow> is_avc_codec_ok c))"
    "\<not> (has_audio \<and> \<not> (case fmt_acodec format of None \<Rightarrow> False | Some c \<Rightarrow> is_aac_codec_ok c))"
    using assms by (simp_all add: codec_ok_video_def codec_ok_audio_def)
  show ?thesis unfolding init_do_write_def Let_def if_not_P [OF ok(1)] if_not_P [OF ok(2)] b by simp
qed

lemma write_init_total:
  assumes "lm_storage m"
  shows "\<exists>v. llhls_write_init format (m, s) =
    (None, if codec_ok_video format \<or> codec_ok_audio format then (m\<lparr>lm_init_dirty := False, lm_video_configured := codec_ok_video format\<rparr>, set_init v s) else (m, s))"
proof (cases "codec_ok_video format \<or> codec_ok_audio format")
  case True
  obtain w where "(if codec_ok_video format \<and> codec_ok_audio format then init_write buffer_writer format []
      else init_write_track buffer_writer format (codec_ok_video format) 1 []) = (None, w)"
  proof (cases "codec_ok_video format"; cases "codec_ok_audio format")
    assume "codec_ok_video format" "codec_ok_audio format"
    then show ?thesis using that init_do_write_total [of True format True 1 2 "[]"] by (auto simp: init_write_def)
  next
    assume "codec_ok_video format" "\<not> codec_ok_audio format"
    then show ?thesis using that init_do_write_total [of True format False 1 0 "[]"] by (auto simp: init_write_track_def)
  next
    assume "\<not> codec_ok_video format" "codec_ok_audio format"
    then show ?thesis using that init_do_write_total [of False format True 0 1 "[]"] by (auto simp: init_write_track_def)
  qed (use True in blast)
  then show ?thesis using True assms by (auto simp: llhls_write_init_def Let_def andthen_def on_storage_def on_mux_def)
qed (simp add: llhls_write_init_def)

definition init_needed :: "SrsFormat \<Rightarrow> SrsLlHlsMuxer \<Rightarrow> bool" where
  "init_needed format m \<longleftrightarrow> lm_init_dirty m \<and> (codec_ok_video format \<or> codec_ok_audio format)"

definition configured :: "SrsFormat \<Rightarrow> SrsLlHlsMuxer \<Rightarrow> bool" where
  "configured format m = (if init_needed format m then codec_ok_video format else lm_video_configured m)"

lemma open_part_total:
  assumes "lm_storage m"
  shows "\<exists>v. open_part format dts (m, s) = (None,
    ((clear_part m)\<lparr>lm_init_dirty := (lm_init_dirty m \<and> \<not> init_needed format m), lm_video_configured := configured format m,
        lm_enc := Some (fragment_encoder (lm_sequence m) 1 (llhls_audio_tid (configured format m))), lm_writer := styp_bytes, lm_sequence := lm_sequence m + 1,
        lm_part_open := True, lm_part_start_dts := dts, lm_last_dts := dts, lm_part_nb_samples := 0, lm_part_has_video := False, lm_part_independent := False\<rparr>,
     if init_needed format m then set_init v s else s))"
proof -
  obtain v where v: "llhls_write_init format (m, s) =
    (None, if codec_ok_video format \<or> codec_ok_audio format then (m\<lparr>lm_init_dirty := False, lm_video_configured := codec_ok_video format\<rparr>, set_init v s) else (m, s))"
    using write_init_total [OF assms] by blast
  have i: "segment_initialize buffer_writer q 1 (SrsMp4M2tsSegmentEncoder_new, w) =
      (None, (SrsMp4M2tsSegmentEncoder_new\<lparr>track_id := 1, sequence_number := q\<rparr>, w @ styp_bytes))" for q w
    by (rule segment_initialized) simp
  show ?thesis
    by (cases "lm_init_dirty m"; cases "codec_ok_video format \<or> codec_ok_audio format")
      (auto simp: open_part_def andthen_def v i init_needed_def configured_def fragment_encoder_def llhls_audio_tid_def clear_part_def Let_def)
qed

datatype frame_call = WriteAudio SrsFormat int | WriteVideo SrsFormat int

fun write_frame :: "frame_call \<Rightarrow> muxer_state \<Rightarrow> muxer_state outcome" where
  "write_frame (WriteAudio format dts) = llhls_write_audio format dts"
| "write_frame (WriteVideo format dts) = llhls_write_video format dts"

fun frame_of :: "frame_call \<Rightarrow> av_frame" where
  "frame_of (WriteAudio format dts) = (SrsMp4HandlerTypeSOUN, 0, dts, dts, fmt_raw format)"
| "frame_of (WriteVideo format dts) = (case fmt_video format of
     Some video \<Rightarrow> (SrsMp4HandlerTypeVIDE, frame_type video, dts, dts + vf_cts video, fmt_raw format) | None \<Rightarrow> (SrsMp4HandlerTypeVIDE, 0, dts, dts, []))"

fun call_format :: "frame_call \<Rightarrow> SrsFormat" where
  "call_format (WriteAudio format dts) = format"
| "call_format (WriteVideo format dts) = format"

fun call_ready :: "frame_call \<Rightarrow> bool" where
  "call_ready (WriteAudio format dts) = True"
| "call_ready (WriteVideo format dts) = (fmt_video format \<noteq> None)"

text \<open>Whether a segment may end before the frame.\<close>

definition can_end :: "bool \<Rightarrow> av_frame \<Rightarrow> bool" where
  "can_end vc f \<longleftrightarrow> (if fst f = SrsMp4HandlerTypeVIDE then key_frame f else \<not> vc)"

text \<open>The frame goes into the part.\<close>

definition add_frame :: "frame_call \<Rightarrow> muxer_state \<Rightarrow> muxer_state outcome" where
  "add_frame c = (case frame_of c of (ht, ft, dts, pts, raw) \<Rightarrow>
     andthen (part_for (call_format c) dts)
       (andthen (add_part_sample ht ft dts pts raw)
         (on_mux (\<lambda>m. (if ht = SrsMp4HandlerTypeVIDE
             then if lm_part_has_video m then m else m\<lparr>lm_part_has_video := True, lm_part_independent := key_frame (frame_of c)\<rparr> else m)
           \<lparr>lm_last_dts := dts, lm_part_nb_samples := lm_part_nb_samples m + 1\<rparr>))))"

lemma write_frame_eq:
  assumes "call_ready c"
  shows "write_frame c (m, s) = andthen (maybe_cut (frame_dts (frame_of c)) (can_end (lm_video_configured m) (frame_of c))) (add_frame c) (m, s)"
proof (cases c)
  case (WriteAudio format dts)
  then show ?thesis
    by (simp add: llhls_write_audio_def add_frame_def can_end_def frame_dts_def andthen_def cong: if_cong)
next
  case (WriteVideo format dts)
  then obtain video where "fmt_video format = Some video" using assms by auto
  then show ?thesis using WriteVideo
    by (simp add: llhls_write_video_def add_frame_def can_end_def key_frame_def frame_dts_def Let_def cong: if_cong)
qed

lemma frame_of_track: "fst (frame_of c) \<noteq> SrsMp4HandlerTypeForbidden"
  by (cases c) (auto split: option.split)

lemma write_samples_snoc: "write_samples (ss @ [(ht, ft, dts, pts, raw)]) enc = write_sample ht ft dts pts raw (write_samples ss enc)"
  by (simp add: write_samples_def)

lemma video_frames_snoc: "video_frames (fs @ [f]) = video_frames fs @ (if fst f = SrsMp4HandlerTypeVIDE then [f] else [])"
  by (simp add: video_frames_def)

text \<open>A part that is open, and \<open>q\<close> the number behind its own.\<close>

lemma add_frame_packed:
  assumes "packed T S (m, s) fs seg"
  shows "\<exists>m' s'. add_frame c (m, s) = (None, (m', s')) \<and> packed T S (m', s') (fs @ [frame_of c]) seg
    \<and> (if fs = [] then (\<exists>v. s' = (if init_needed (call_format c) m then set_init v s else s)) \<and> lm_video_configured m' = configured (call_format c) m
         \<and> lm_init_dirty m' = (lm_init_dirty m \<and> \<not> init_needed (call_format c) m)
       else s' = s \<and> lm_video_configured m' = lm_video_configured m \<and> lm_init_dirty m' = lm_init_dirty m)"
proof -
  obtain ht ft dts pts raw where f: "frame_of c = (ht, ft, dts, pts, raw)" by (cases "frame_of c") auto
  have ht: "ht \<noteq> SrsMp4HandlerTypeForbidden" using frame_of_track [of c] f by simp
  show ?thesis
  proof (cases "fs = []")
    case True
    have st: "lm_storage m" "window_wf s" "lm_part_target m = T" "lm_segment_target m = S" "lm_segment_duration m = seg" "\<not> lm_part_open m"
      using assms True by (simp_all add: packed_def)
    obtain v where v: "open_part (call_format c) dts (m, s) = (None,
      ((clear_part m)\<lparr>lm_init_dirty := (lm_init_dirty m \<and> \<not> init_needed (call_format c) m), lm_video_configured := configured (call_format c) m,
        lm_enc := Some (fragment_encoder (lm_sequence m) 1 (llhls_audio_tid (configured (call_format c) m))), lm_writer := styp_bytes, lm_sequence := lm_sequence m + 1,
        lm_part_open := True, lm_part_start_dts := dts, lm_last_dts := dts, lm_part_nb_samples := 0, lm_part_has_video := False, lm_part_independent := False\<rparr>,
        if init_needed (call_format c) m then set_init v s else s))" using open_part_total [OF st(1)] by blast
    have w: "window_wf (if init_needed (call_format c) m then set_init v s else s)" using st(2) by (simp add: window_other)
    show ?thesis using True st w ht
      by (simp add: add_frame_def f part_for_def andthen_def v add_part_sample_def on_mux_def packed_def frame_dts_def frame_sample_def video_frames_def
          write_samples_def) (auto simp: key_frame_def)
  next
    case False
    have st: "lm_part_open m" "lm_enc m = Some (write_samples (map frame_sample fs) (fragment_encoder (lm_sequence m - 1) 1 (llhls_audio_tid (lm_video_configured m))))"
      using assms False by (simp_all add: packed_def)
    show ?thesis using False st ht assms
      by (simp add: add_frame_def f part_for_def andthen_def add_part_sample_def on_mux_def packed_def frame_dts_def frame_sample_def write_samples_snoc video_frames_snoc)
  qed
qed

section \<open>The parts of the window\<close>

definition window_parts :: "SrsLlHlsStorage \<Rightarrow> SrsLlHlsPart list" where
  "window_parts s = concat (map lg_parts (sto_segments s))"

text \<open>No segment is open.\<close>

definition tail_done :: "SrsLlHlsStorage \<Rightarrow> bool" where
  "tail_done s \<longleftrightarrow> sto_segments s = [] \<or> lg_completed (last (sto_segments s))"

lemma set_init_parts [simp]: "window_parts (set_init v s) = window_parts s" "tail_done (set_init v s) = tail_done s"
  by (simp_all add: window_parts_def tail_done_def set_init_def)

lemma concat_drop: "\<exists>k'. concat (map f (drop k xs)) = drop k' (concat (map f xs)) \<and> k' \<le> length (concat (map f xs)) \<and> (k < length xs \<and> f (last xs) \<noteq> [] \<longrightarrow> k' < length (concat (map f xs)))"
proof -
  have s: "concat (map f xs) = concat (map f (take k xs)) @ concat (map f (drop k xs))" by (metis append_take_drop_id concat_append map_append)
  have "concat (map f (drop k xs)) \<noteq> []" if "k < length xs" "f (last xs) \<noteq> []"
  proof -
    have "last xs \<in> set (drop k xs)" using that(1) by (metis drop_eq_Nil last_drop last_in_set not_less)
    then show ?thesis using that(2) by auto
  qed
  then show ?thesis unfolding s by (intro exI [of _ "length (concat (map f (take k xs)))"]) auto
qed

text \<open>An appended part comes behind the others, of which the first may be dropped; it starts a segment when none is open.\<close>

lemma append_window:
  assumes "window_wf s"
  shows "\<exists>k n. window_parts (append_part payload d i c s) = drop k (window_parts s @ [\<lparr>lp_psn = n, lp_duration = d, lp_independent = i, lp_payload = payload\<rparr>])
    \<and> k \<le> length (window_parts s) \<and> (n = 0 \<longleftrightarrow> tail_done s) \<and> (tail_done (append_part payload d i c s) \<longleftrightarrow> c)"
proof -
  let ?a = "appended payload d i c s"
  let ?part = "\<lambda>n. \<lparr>lp_psn = int n, lp_duration = d, lp_independent = i, lp_payload = payload\<rparr>"
  have a: "\<exists>n. window_parts ?a = window_parts s @ [?part n] \<and> (n = 0 \<longleftrightarrow> tail_done s) \<and> lg_parts (last (sto_segments ?a)) \<noteq> [] \<and> lg_completed (last (sto_segments ?a)) = c"
  proof -
    consider (fresh) "sto_segments s = [] \<or> lg_completed (last (sto_segments s))"
        "?a = s\<lparr>sto_segments := sto_segments s @ [\<lparr>lg_msn = sto_next_msn s, lg_duration = d, lg_completed = c, lg_parts = [?part 0]\<rparr>],
          sto_next_msn := sto_next_msn s + 1, sto_latest_msn := sto_next_msn s, sto_latest_psn := 0\<rparr>"
      | (more) segs seg where "sto_segments s = segs @ [seg]" "\<not> lg_completed seg"
        "?a = s\<lparr>sto_segments := segs @ [seg\<lparr>lg_parts := lg_parts seg @ [?part (length (lg_parts seg))], lg_duration := lg_duration seg + d, lg_completed := c\<rparr>],
          sto_latest_psn := int (length (lg_parts seg))\<rparr>"
      using appended_cases [OF assms, of d i payload c] unfolding Let_def by blast
    then show ?thesis
    proof cases
      case fresh
      then show ?thesis by (auto simp: window_parts_def tail_done_def)
    next
      case more
      have "lg_parts seg \<noteq> []" using window_wfD(10) [OF assms, of seg] more(1) by (simp add: segment_wf_def)
      then show ?thesis using more by (intro exI [of _ "length (lg_parts seg)"]) (simp add: window_parts_def tail_done_def)
    qed
  qed
  then obtain n where n: "window_parts ?a = window_parts s @ [?part n]" "n = 0 \<longleftrightarrow> tail_done s" "lg_parts (last (sto_segments ?a)) \<noteq> []"
      "lg_completed (last (sto_segments ?a)) = c" by blast
  obtain k where k: "append_part payload d i c s = refresh_playlist (?a\<lparr>sto_segments := drop k (sto_segments ?a)\<rparr>)" "k < length (sto_segments ?a)"
    by (rule append_part_drop [OF assms])
  obtain k' where k': "concat (map lg_parts (drop k (sto_segments ?a))) = drop k' (window_parts ?a)" "k' < length (window_parts ?a)"
    using concat_drop [of lg_parts k "sto_segments ?a"] k(2) n(3) unfolding window_parts_def by blast
  have "window_parts (append_part payload d i c s) = drop k' (window_parts s @ [?part n])" using k' n(1) by (simp add: k(1) window_parts_def)
  moreover have "k' \<le> length (window_parts s)" using k'(2) n(1) by simp
  moreover have "tail_done (append_part payload d i c s) \<longleftrightarrow> c" using k(2) n(4) by (simp add: k(1) tail_done_def)
  ultimately show ?thesis using n(2) by (intro exI [of _ k'] exI [of _ "int n"]) simp
qed

section \<open>What the packager publishes\<close>

text \<open>
  The frames as the parts to publish, each with its duration and whether it ends its segment, and the frames and the segment duration
  that stay.
\<close>

fun pack_frames :: "int \<Rightarrow> int \<Rightarrow> bool \<Rightarrow> av_frame list \<Rightarrow> int \<Rightarrow> av_frame list \<Rightarrow> (av_frame list \<times> int \<times> bool) list \<times> av_frame list \<times> int" where
  "pack_frames T S vc fs seg [] = ([], fs, seg)"
| "pack_frames T S vc fs seg (f # rest) =
     (case cut_at T S (can_end vc f) (frame_dts f) fs seg of
        None \<Rightarrow> pack_frames T S vc (fs @ [f]) seg rest
      | Some c \<Rightarrow> let dur = (frame_dts f - frame_dts (hd fs)) * 1000;
                     (gs, r) = pack_frames T S vc [f] (if c then 0 else seg + dur) rest
                 in ((fs, dur, c) # gs, r))"

text \<open>Published parts, the first of which starts a segment or not; the number 0 is given exactly where a segment starts.\<close>

fun published :: "bool \<Rightarrow> bool \<Rightarrow> SrsLlHlsPart list \<Rightarrow> (av_frame list \<times> int \<times> bool) list \<Rightarrow> bool" where
  "published vc start [] [] = True"
| "published vc start (p # ps) ((fs, dur, c) # gs) \<longleftrightarrow> carries vc p (fs, dur) \<and> (lp_psn p = 0 \<longleftrightarrow> start) \<and> published vc c ps gs"
| "published vc start _ _ = False"

fun ends_segment :: "bool \<Rightarrow> (av_frame list \<times> int \<times> bool) list \<Rightarrow> bool" where
  "ends_segment start [] = start"
| "ends_segment start ((fs, dur, c) # gs) = ends_segment c gs"

lemma published_append:
  "published vc start ps gs \<Longrightarrow> published vc (ends_segment start gs) ps' gs' \<Longrightarrow> published vc start (ps @ ps') (gs @ gs')"
  by (induction vc start ps gs rule: published.induct) auto

lemma ends_segment_append: "ends_segment start (gs @ gs') = ends_segment (ends_segment start gs) gs'"
  by (induction start gs rule: ends_segment.induct) auto

text \<open>\<open>grows vc s s' gs\<close>: from \<open>s\<close> to \<open>s'\<close> the parts \<open>gs\<close> were published.\<close>

definition grows :: "bool \<Rightarrow> SrsLlHlsStorage \<Rightarrow> SrsLlHlsStorage \<Rightarrow> (av_frame list \<times> int \<times> bool) list \<Rightarrow> bool" where
  "grows vc s s' gs \<longleftrightarrow> (\<exists>k ps. window_parts s' = drop k (window_parts s @ ps) \<and> k \<le> length (window_parts s @ ps)
     \<and> published vc (tail_done s) ps gs \<and> tail_done s' = ends_segment (tail_done s) gs)"

lemma grows_nil: "window_parts s' = window_parts s \<Longrightarrow> tail_done s' = tail_done s \<Longrightarrow> grows vc s s' []"
  unfolding grows_def by (intro exI [of _ 0] exI [of _ "[]"]) simp

lemma grows_append:
  assumes "grows vc s s1 gs" and "grows vc s1 s2 gs'"
  shows "grows vc s s2 (gs @ gs')"
proof -
  obtain k ps where 1: "window_parts s1 = drop k (window_parts s @ ps)" "k \<le> length (window_parts s @ ps)" "published vc (tail_done s) ps gs"
      "tail_done s1 = ends_segment (tail_done s) gs" using assms(1) unfolding grows_def by blast
  obtain k' ps' where 2: "window_parts s2 = drop k' (window_parts s1 @ ps')" "k' \<le> length (window_parts s1 @ ps')" "published vc (tail_done s1) ps' gs'"
      "tail_done s2 = ends_segment (tail_done s1) gs'" using assms(2) unfolding grows_def by blast
  have w: "window_parts s1 @ ps' = drop k (window_parts s @ ps @ ps')" using 1(1,2) by (simp add: append_assoc [symmetric] del: append_assoc)
  have "window_parts s2 = drop (k' + k) (window_parts s @ ps @ ps')" unfolding 2(1) w drop_drop ..
  moreover have "k' + k \<le> length (window_parts s @ ps @ ps')" using 2(2) 1(2) w by simp
  ultimately show ?thesis unfolding grows_def using published_append [OF 1(3)] 2(3,4) 1(4)
    by (intro exI [of _ "k' + k"] exI [of _ "ps @ ps'"]) (simp add: ends_segment_append)
qed

lemma flush_grows:
  assumes "packed T S (m, s) fs seg" and "fs \<noteq> []"
  shows "\<exists>m' s'. flush_part e c (m, s) = (None, (m', s')) \<and> packed T S (m', s') [] (if c then 0 else seg + (e - frame_dts (hd fs)) * 1000)
    \<and> grows (lm_video_configured m) s s' [(fs, (e - frame_dts (hd fs)) * 1000, c)] \<and> lm_video_configured m' = lm_video_configured m
    \<and> lm_init_dirty m' = lm_init_dirty m"
proof -
  let ?d = "(e - frame_dts (hd fs)) * 1000"
  have w: "window_wf s" using assms(1) by (simp add: packed_def)
  obtain payload i where p: "flush_part e c (m, s) = (None, ((clear_part m)\<lparr>lm_segment_duration := (if c then 0 else seg + ?d)\<rparr>, append_part payload ?d i c s))"
      "\<And>n. carries (lm_video_configured m) \<lparr>lp_psn = n, lp_duration = ?d, lp_independent = i, lp_payload = payload\<rparr> (fs, ?d)"
    using flush_part_packed [OF assms, of e c] by blast
  obtain k n where k: "window_parts (append_part payload ?d i c s) = drop k (window_parts s @ [\<lparr>lp_psn = n, lp_duration = ?d, lp_independent = i, lp_payload = payload\<rparr>])"
      "k \<le> length (window_parts s)" "n = 0 \<longleftrightarrow> tail_done s" "tail_done (append_part payload ?d i c s) \<longleftrightarrow> c" using append_window [OF w] by blast
  have "grows (lm_video_configured m) s (append_part payload ?d i c s) [(fs, ?d, c)]"
    unfolding grows_def using k p(2)
    by (intro exI [of _ k] exI [of _ "[\<lparr>lp_psn = n, lp_duration = ?d, lp_independent = i, lp_payload = payload\<rparr>]"]) simp
  moreover have "packed T S ((clear_part m)\<lparr>lm_segment_duration := (if c then 0 else seg + ?d)\<rparr>, append_part payload ?d i c s) [] (if c then 0 else seg + ?d)"
    using assms(1) window_append_part [OF w] by (simp add: packed_def)
  ultimately show ?thesis using p(1) by simp
qed

text \<open>One frame; \<open>vc\<close> is whether the stream has video, which is settled when the first part is opened.\<close>

definition settled :: "bool \<Rightarrow> SrsLlHlsMuxer \<Rightarrow> av_frame list \<Rightarrow> bool" where
  "settled vc m fs \<longleftrightarrow> (lm_init_dirty m \<longrightarrow> fs = []) \<and> (\<not> lm_init_dirty m \<longrightarrow> lm_video_configured m = vc)"

definition call_fits :: "bool \<Rightarrow> frame_call \<Rightarrow> bool" where
  "call_fits vc c \<longleftrightarrow> call_ready c \<and> codec_ok_video (call_format c) = vc \<and> (vc \<or> codec_ok_audio (call_format c))
     \<and> (fst (frame_of c) = SrsMp4HandlerTypeVIDE \<longrightarrow> vc)"

lemma write_frame_packed:
  assumes "packed T S (m, s) fs seg" and "settled vc m fs" and "call_fits vc c"
  shows "\<exists>m' s' gs fs' seg'. write_frame c (m, s) = (None, (m', s')) \<and> packed T S (m', s') fs' seg' \<and> settled vc m' fs' \<and> fs' \<noteq> []
    \<and> pack_frames T S vc fs seg [frame_of c] = (gs, fs', seg') \<and> grows vc s s' gs"
proof -
  have ready: "call_ready c" using assms(3) by (simp add: call_fits_def)
  let ?cut = "cut_at T S (can_end vc (frame_of c)) (frame_dts (frame_of c)) fs seg"
  have e: "cut_at T S (can_end (lm_video_configured m) (frame_of c)) (frame_dts (frame_of c)) fs seg = ?cut"
    using assms(2) by (cases "fs = []") (auto simp: cut_at_def settled_def)
  have w: "write_frame c (m, s) = andthen (\<lambda>(m, s). (case ?cut of None \<Rightarrow> (None, (m, s)) | Some k \<Rightarrow> flush_part (frame_dts (frame_of c)) k (m, s))) (add_frame c) (m, s)"
    unfolding write_frame_eq [OF ready] andthen_def maybe_cut_packed [OF assms(1)] e by simp
  have settles: "settled vc m' [frame_of c]" if "settled vc m1 []" "lm_video_configured m' = configured (call_format c) m1"
      "lm_init_dirty m' = (lm_init_dirty m1 \<and> \<not> init_needed (call_format c) m1)" for m1 m'
    using that assms(3) by (auto simp: settled_def configured_def init_needed_def call_fits_def)
  show ?thesis
  proof (cases ?cut)
    case None
    obtain m' s' where a: "add_frame c (m, s) = (None, (m', s'))" "packed T S (m', s') (fs @ [frame_of c]) seg"
        "if fs = [] then (\<exists>v. s' = (if init_needed (call_format c) m then set_init v s else s)) \<and> lm_video_configured m' = configured (call_format c) m
         \<and> lm_init_dirty m' = (lm_init_dirty m \<and> \<not> init_needed (call_format c) m)
       else s' = s \<and> lm_video_configured m' = lm_video_configured m \<and> lm_init_dirty m' = lm_init_dirty m"
      using add_frame_packed [OF assms(1)] by blast
    have "settled vc m' (fs @ [frame_of c])"
    proof (cases "fs = []")
      case True
      then show ?thesis using settles [of m m'] assms(2) a(3) by simp
    next
      case False
      then show ?thesis using assms(2) a(3) by (auto simp: settled_def)
    qed
    moreover have "grows vc s s' []" using a(3) by (intro grows_nil) (auto split: if_splits)
    ultimately show ?thesis using a(1,2) None w by (simp add: andthen_def)
  next
    case (Some k)
    then have ne: "fs \<noteq> []" by (auto simp: cut_at_def)
    then have vc: "lm_video_configured m = vc" "\<not> lm_init_dirty m" using assms(2) by (auto simp: settled_def)
    let ?d = "(frame_dts (frame_of c) - frame_dts (hd fs)) * 1000"
    obtain m1 s1 where f: "flush_part (frame_dts (frame_of c)) k (m, s) = (None, (m1, s1))" "packed T S (m1, s1) [] (if k then 0 else seg + ?d)"
        "grows vc s s1 [(fs, ?d, k)]" "lm_video_configured m1 = vc" "lm_init_dirty m1 = lm_init_dirty m"
      using flush_grows [OF assms(1) ne, of "frame_dts (frame_of c)" k] vc by auto
    obtain m' s' where a: "add_frame c (m1, s1) = (None, (m', s'))" "packed T S (m', s') ([] @ [frame_of c]) (if k then 0 else seg + ?d)"
        "\<exists>v. s' = (if init_needed (call_format c) m1 then set_init v s1 else s1)" "lm_video_configured m' = configured (call_format c) m1"
        "lm_init_dirty m' = (lm_init_dirty m1 \<and> \<not> init_needed (call_format c) m1)"
      using add_frame_packed [OF f(2), of c] by auto
    have "settled vc m' [frame_of c]" using settles [OF _ a(4,5)] f(4,5) vc by (simp add: settled_def)
    moreover have "grows vc s1 s' []" using a(3) by (intro grows_nil) (auto split: if_splits)
    then have "grows vc s s' [(fs, ?d, k)]" using grows_append [OF f(3)] by fastforce
    ultimately show ?thesis using a(1,2) f(1) Some w by (cases k) (simp_all add: andthen_def Let_def)
  qed
qed

lemma pack_frames_Cons:
  "pack_frames T S vc fs seg [f] = (gs, fs', seg') \<Longrightarrow> pack_frames T S vc fs' seg' rest = (gs', r) \<Longrightarrow> pack_frames T S vc fs seg (f # rest) = (gs @ gs', r)"
  by (auto split: option.splits prod.splits simp: Let_def)

fun write_frames :: "frame_call list \<Rightarrow> muxer_state \<Rightarrow> muxer_state outcome" where
  "write_frames [] = (\<lambda>ms. (None, ms))"
| "write_frames (c # cs) = andthen (write_frame c) (write_frames cs)"

lemma write_frames_packed:
  assumes "packed T S (m, s) fs seg" and "settled vc m fs" and "\<forall>c \<in> set cs. call_fits vc c"
  shows "\<exists>m' s' gs fs' seg'. write_frames cs (m, s) = (None, (m', s')) \<and> packed T S (m', s') fs' seg' \<and> settled vc m' fs'
    \<and> pack_frames T S vc fs seg (map frame_of cs) = (gs, fs', seg') \<and> grows vc s s' gs"
  using assms
proof (induction cs arbitrary: m s fs seg)
  case Nil
  then show ?case by (auto intro: grows_nil)
next
  case (Cons c cs)
  obtain m1 s1 gs1 fs1 seg1 where 1: "write_frame c (m, s) = (None, (m1, s1))" "packed T S (m1, s1) fs1 seg1" "settled vc m1 fs1"
      "pack_frames T S vc fs seg [frame_of c] = (gs1, fs1, seg1)" "grows vc s s1 gs1"
    using write_frame_packed [OF Cons.prems(1,2)] Cons.prems(3) by (metis list.set_intros(1))
  obtain m' s' gs fs' seg' where 2: "write_frames cs (m1, s1) = (None, (m', s'))" "packed T S (m', s') fs' seg'" "settled vc m' fs'"
      "pack_frames T S vc fs1 seg1 (map frame_of cs) = (gs, fs', seg')" "grows vc s1 s' gs"
    using Cons.IH [OF 1(2,3)] Cons.prems(3) by fastforce
  have "write_frames (c # cs) (m, s) = (None, (m', s'))" using 1(1) 2(1) by (simp add: andthen_def)
  moreover have "pack_frames T S vc fs seg (map frame_of (c # cs)) = (gs1 @ gs, fs', seg')" using pack_frames_Cons [OF 1(4) 2(4)] by simp
  ultimately show ?case using 2(2,3) grows_append [OF 1(5) 2(5)] by blast
qed

section \<open>What the decisions make of the frames\<close>

lemma pack_Some:
  "cut_at T S (can_end vc f) (frame_dts f) fs seg = Some k \<Longrightarrow>
    pack_frames T S vc [f] (if k then 0 else seg + (frame_dts f - frame_dts (hd fs)) * 1000) rest = (gs1, r) \<Longrightarrow>
    pack_frames T S vc fs seg (f # rest) = ((fs, (frame_dts f - frame_dts (hd fs)) * 1000, k) # gs1, r)"
  by (simp only: pack_frames.simps option.case Let_def prod.case)

lemma pack_concat: "pack_frames T S vc fs seg xs = (gs, fs', seg') \<Longrightarrow> concat (map fst gs) @ fs' = fs @ xs"
proof (induction T S vc fs seg xs arbitrary: gs rule: pack_frames.induct)
  case (2 T S vc fs seg f rest)
  then show ?case
  proof (cases "cut_at T S (can_end vc f) (frame_dts f) fs seg")
    case (Some c)
    then show ?thesis using 2 by (auto simp: Let_def split: prod.splits)
  qed (use 2 in auto)
qed simp

lemma pack_nonempty: "pack_frames T S vc fs seg xs = (gs, fs', seg') \<Longrightarrow> fs @ xs \<noteq> [] \<Longrightarrow> fs' \<noteq> [] \<and> (\<forall>g \<in> set gs. fst g \<noteq> [])"
proof (induction T S vc fs seg xs arbitrary: gs rule: pack_frames.induct)
  case (2 T S vc fs seg f rest)
  show ?case
  proof (cases "cut_at T S (can_end vc f) (frame_dts f) fs seg")
    case None
    then show ?thesis using 2 by auto
  next
    case (Some c)
    then have "fs \<noteq> []" by (auto simp: cut_at_def)
    then show ?thesis using 2 Some by (fastforce simp: Let_def split: prod.splits)
  qed
qed simp

text \<open>A segment starts with a frame that it may start with.\<close>

fun starts_clean :: "bool \<Rightarrow> bool \<Rightarrow> (av_frame list \<times> int \<times> bool) list \<Rightarrow> bool" where
  "starts_clean vc start [] = True"
| "starts_clean vc start ((fs, d, c) # gs) \<longleftrightarrow> (start \<longrightarrow> can_end vc (hd fs)) \<and> starts_clean vc c gs"

lemma cut_at_Some: "cut_at T S e dts fs seg = Some c \<Longrightarrow> fs \<noteq> [] \<and> (c \<longrightarrow> e)"
  by (auto simp: cut_at_def Let_def split: if_splits)

lemma pack_clean:
  "pack_frames T S vc fs seg xs = (gs, fs', seg') \<Longrightarrow> start \<longrightarrow> fs \<noteq> [] \<and> can_end vc (hd fs) \<Longrightarrow> starts_clean vc start (gs @ [(fs', d, c)])"
proof (induction T S vc fs seg xs arbitrary: gs start rule: pack_frames.induct)
  case (2 T S vc fs seg f rest)
  show ?case
  proof (cases "cut_at T S (can_end vc f) (frame_dts f) fs seg")
    case None
    have "start \<longrightarrow> fs @ [f] \<noteq> [] \<and> can_end vc (hd (fs @ [f]))" using "2.prems"(2) by auto
    with "2.IH"(1) [OF None _ this] "2.prems"(1) None show ?thesis by simp
  next
    case (Some k)
    let ?dur = "(frame_dts f - frame_dts (hd fs)) * 1000"
    obtain gs1 r where r: "pack_frames T S vc [f] (if k then 0 else seg + ?dur) rest = (gs1, r)" by (metis surj_pair)
    have g: "gs = (fs, ?dur, k) # gs1" "r = (fs', seg')" using "2.prems"(1) unfolding pack_Some [OF Some r] by blast+
    have "starts_clean vc k (gs1 @ [(fs', d, c)])"
      using "2.IH"(2) [OF Some refl, of gs1 k] r g(2) cut_at_Some [OF Some] by simp
    then show ?thesis using g(1) "2.prems"(2) by simp
  qed
qed auto

text \<open>The durations of the parts are those between their first frames.\<close>

lemma pack_durations:
  "pack_frames T S vc fs seg xs = (gs, fs', seg') \<Longrightarrow> fs \<noteq> [] \<Longrightarrow> sum_list (map (\<lambda>(_, d, _). d) gs) = (frame_dts (hd fs') - frame_dts (hd fs)) * 1000"
proof (induction T S vc fs seg xs arbitrary: gs rule: pack_frames.induct)
  case (2 T S vc fs seg f rest)
  show ?case
  proof (cases "cut_at T S (can_end vc f) (frame_dts f) fs seg")
    case None
    then show ?thesis using 2 by auto
  next
    case (Some k)
    let ?dur = "(frame_dts f - frame_dts (hd fs)) * 1000"
    obtain gs1 r where r: "pack_frames T S vc [f] (if k then 0 else seg + ?dur) rest = (gs1, r)" by (metis surj_pair)
    have g: "gs = (fs, ?dur, k) # gs1" "r = (fs', seg')" using "2.prems"(1) unfolding pack_Some [OF Some r] by blast+
    have "sum_list (map (\<lambda>(_, d, _). d) gs1) = (frame_dts (hd fs') - frame_dts f) * 1000"
      using "2.IH"(2) [OF Some refl, of gs1] r g(2) by simp
    then show ?thesis using g(1) by (simp add: algebra_simps)
  qed
qed simp

text \<open>Frames whose times go forward by at least \<open>g\<close> and at most \<open>G\<close> milliseconds from one to the next.\<close>

fun paced :: "int \<Rightarrow> int \<Rightarrow> av_frame list \<Rightarrow> bool" where
  "paced g G (f # f' # fs) \<longleftrightarrow> g \<le> frame_dts f' - frame_dts f \<and> frame_dts f' - frame_dts f \<le> G \<and> paced g G (f' # fs)"
| "paced g G _ = True"

definition part_limit :: "int \<Rightarrow> int \<Rightarrow> int \<Rightarrow> int" where
  "part_limit T g G = max (T * 85 sdiv 100 + G * 1000) (T + (G - g) * 1000)"

text \<open>A part that was not cut at its last frame.\<close>

definition room_left :: "int \<Rightarrow> int \<Rightarrow> av_frame list \<Rightarrow> bool" where
  "room_left T g fs \<longleftrightarrow> (let dur = (frame_dts (last fs) - frame_dts (hd fs)) * 1000 in 0 \<le> dur \<and> dur < T \<and> (dur < T * 85 sdiv 100 \<or> dur + g * 1000 \<le> T))"

lemma pack_limits:
  assumes "pack_frames T S vc fs seg xs = (gs, fs', seg')" and "0 \<le> g" and "0 < T * 85 sdiv 100" "0 < T"
    and "fs \<noteq> []" "paced g G (last fs # xs)" "room_left T g fs"
  shows "(\<forall>(_, d, c) \<in> set gs. 0 \<le> d \<and> d \<le> part_limit T g G \<and> (\<not> c \<longrightarrow> T * 85 sdiv 100 \<le> d \<or> T \<le> d)) \<and> room_left T g fs'"
  using assms
proof (induction T S vc fs seg xs arbitrary: gs rule: pack_frames.induct)
  case (2 T S vc fs seg f rest)
  let ?dur = "(frame_dts f - frame_dts (hd fs)) * 1000"
  have p: "g \<le> frame_dts f - frame_dts (last fs)" "frame_dts f - frame_dts (last fs) \<le> G" "paced g G (f # rest)" using "2.prems"(6) by auto
  have lim: "0 \<le> ?dur" "?dur \<le> part_limit T g G" using "2.prems"(2,7) p(1,2) by (auto simp: room_left_def part_limit_def Let_def)
  show ?case
  proof (cases "cut_at T S (can_end vc f) (frame_dts f) fs seg")
    case None
    then have "\<not> (?dur \<ge> T \<or> ?dur \<ge> T * 85 sdiv 100 \<and> ?dur + (frame_dts f - frame_dts (last fs)) * 1000 > T)"
      using "2.prems"(5) by (auto simp: cut_at_def Let_def split: if_splits)
    then have "room_left T g (fs @ [f])" using lim(1) p(1) "2.prems"(5) by (auto simp: room_left_def Let_def)
    with "2.IH"(1) [OF None _ "2.prems"(2-4), of gs] "2.prems"(1) None p(3) show ?thesis by simp
  next
    case (Some k)
    obtain gs1 r where r: "pack_frames T S vc [f] (if k then 0 else seg + ?dur) rest = (gs1, r)" by (metis surj_pair)
    have g: "gs = (fs, ?dur, k) # gs1" "r = (fs', seg')" using "2.prems"(1) unfolding pack_Some [OF Some r] by blast+
    have "room_left T g [f]" using "2.prems"(3,4) by (simp add: room_left_def)
    then have "(\<forall>(_, d, c) \<in> set gs1. 0 \<le> d \<and> d \<le> part_limit T g G \<and> (\<not> c \<longrightarrow> T * 85 sdiv 100 \<le> d \<or> T \<le> d)) \<and> room_left T g fs'"
      using "2.IH"(2) [OF Some refl _ "2.prems"(2-4), of gs1] r g(2) p(3) by simp
    moreover have "\<not> k \<longrightarrow> T * 85 sdiv 100 \<le> ?dur \<or> T \<le> ?dur" using Some by (auto simp: cut_at_def Let_def split: if_splits)
    ultimately show ?thesis using g(1) lim by simp
  qed
qed simp

lemma update_config_packed:
  assumes "lm_storage m" and "window_wf s" and "0 < cf_llhls_segment_count cf"
  shows "\<exists>m' s'. llhls_update_config cf r (m, s) = (None, (m', s')) \<and> packed (cf_llhls_part cf) (cf_llhls_segment cf) (m', s') [] 0
    \<and> lm_init_dirty m' = lm_init_dirty m \<and> lm_video_configured m' = lm_video_configured m \<and> window_parts s' = window_parts s \<and> tail_done s' = tail_done s"
  using assms window_other(3) [OF assms(2,3)]
  by (simp add: llhls_update_config_def andthen_def on_mux_def on_storage_def packed_def storage_update_config_def window_parts_def tail_done_def)

lemma unpublish_packed:
  assumes "packed T S (m, s) fs seg"
  shows "\<exists>m' s'. llhls_muxer_on_unpublish (m, s) = (None, (m', s')) \<and> packed T S (m', s') [] (if fs = [] then seg else 0)
    \<and> lm_video_configured m' = lm_video_configured m \<and> lm_init_dirty m' = lm_init_dirty m
    \<and> grows (lm_video_configured m) s s' (if fs = [] then [] else [(fs, (frame_dts (last fs) - frame_dts (hd fs)) * 1000, True)])"
proof (cases "fs = []")
  case True
  then show ?thesis using assms by (auto simp: llhls_muxer_on_unpublish_def packed_def intro: grows_nil)
next
  case False
  then have "lm_part_open m" "lm_last_dts m = frame_dts (last fs)" using assms by (simp_all add: packed_def)
  then show ?thesis using flush_grows [OF assms False, of "frame_dts (last fs)" True] False by (auto simp: llhls_muxer_on_unpublish_def)
qed

lemma published_carries: "published vc start ps gs \<Longrightarrow> list_all2 (\<lambda>p (fs, d, c). carries vc p (fs, d) \<and> lp_duration p = d) ps gs"
  by (induction vc start ps gs rule: published.induct) (auto simp: carries_def)

lemma published_durations: "published vc start ps gs \<Longrightarrow> map lp_duration ps = map (\<lambda>(_, d, _). d) gs"
  by (induction vc start ps gs rule: published.induct) (auto simp: carries_def)

text \<open>A part that starts a segment can be decoded alone.\<close>

lemma published_starts:
  "published vc start ps gs \<Longrightarrow> starts_clean vc start' gs \<Longrightarrow> \<forall>g \<in> set gs. fst g \<noteq> [] \<and> (\<not> vc \<longrightarrow> video_frames (fst g) = []) \<Longrightarrow>
    \<forall>p \<in> set (if start \<longrightarrow> start' then ps else tl ps). lp_psn p = 0 \<longrightarrow> lp_independent p"
proof (induction vc start ps gs arbitrary: start' rule: published.induct)
  case (2 vc start p ps fs dur c gs)
  have tl: "\<forall>p \<in> set ps. lp_psn p = 0 \<longrightarrow> lp_independent p" using "2.IH" [of c] "2.prems" by auto
  have "lp_independent p" if "can_end vc (hd fs)"
  proof -
    obtain f fs' where fs: "fs = f # fs'" using "2.prems"(3) by (cases fs) auto
    show ?thesis
    proof (cases "fst f = SrsMp4HandlerTypeVIDE")
      case True
      then show ?thesis using "2.prems"(1) that by (simp add: carries_def fs video_frames_def can_end_def)
    next
      case False
      then have "\<not> vc" using that fs by (simp add: can_end_def)
      then show ?thesis using "2.prems"(1,3) by (simp add: carries_def)
    qed
  qed
  then show ?case using tl "2.prems"(1,2) by auto
qed auto

lemma published_nonfinal:
  "published vc start ps gs \<Longrightarrow> \<forall>(_, d, c) \<in> set gs. \<not> c \<longrightarrow> D \<le> d \<Longrightarrow> i + 1 < length ps \<Longrightarrow> lp_psn (ps ! (i + 1)) \<noteq> 0 \<Longrightarrow> D \<le> lp_duration (ps ! i)"
proof (induction vc start ps gs arbitrary: i rule: published.induct)
  case (2 vc start p ps fs dur c gs)
  show ?case
  proof (cases i)
    case 0
    obtain p' ps' g gs' where "ps = p' # ps'" "gs = g # gs'" using 0 "2.prems"(1,3) by (cases ps; cases gs) auto
    then show ?thesis using 0 "2.prems" by (cases g) (auto simp: carries_def)
  next
    case (Suc j)
    then show ?thesis using "2.IH" [of j] "2.prems" by simp
  qed
qed auto

text \<open>A whole publication: the configuration, the frames, the end.\<close>

definition publication :: "SrsLlHlsConfig \<Rightarrow> SrsRequest \<Rightarrow> frame_call list \<Rightarrow> muxer_state \<Rightarrow> muxer_state outcome" where
  "publication cf r cs = andthen (llhls_update_config cf r) (andthen (write_frames cs) llhls_muxer_on_unpublish)"

lemma publication_packed:
  assumes "0 < cf_llhls_segment_count cf" and "storage_steps (SrsLlHlsStorage_new cf) s0" and "lm_storage m0"
    and "lm_init_dirty m0 \<or> lm_video_configured m0 = vc" and "\<forall>c \<in> set cs. call_fits vc c" and "cs \<noteq> []"
  obtains m s k ps gs fs seg where "publication cf r cs (m0, s0) = (None, (m, s))" "\<not> lm_part_open m" "tail_done s"
    "window_parts s = drop k (window_parts s0 @ ps)"
    "published vc (tail_done s0) ps (gs @ [(fs, (frame_dts (last fs) - frame_dts (hd fs)) * 1000, True)])"
    "pack_frames (cf_llhls_part cf) (cf_llhls_segment cf) vc [] 0 (map frame_of cs) = (gs, fs, seg)" "fs \<noteq> []"
proof -
  have w: "window_wf s0" using storage_steps_ok [OF assms(2)] window_new [OF assms(1)] by blast
  let ?T = "cf_llhls_part cf" and ?S = "cf_llhls_segment cf"
  obtain m1 s1 where 1: "llhls_update_config cf r (m0, s0) = (None, (m1, s1))" "packed ?T ?S (m1, s1) [] 0" "lm_init_dirty m1 = lm_init_dirty m0"
      "lm_video_configured m1 = lm_video_configured m0" "window_parts s1 = window_parts s0" "tail_done s1 = tail_done s0"
    using update_config_packed [OF assms(3) w assms(1)] by blast
  have "settled vc m1 []" using 1(3,4) assms(4) by (auto simp: settled_def)
  from write_frames_packed [OF 1(2) this assms(5)] obtain m2 s2 gs fs seg where 2: "write_frames cs (m1, s1) = (None, (m2, s2))" "packed ?T ?S (m2, s2) fs seg"
      "settled vc m2 fs" "pack_frames ?T ?S vc [] 0 (map frame_of cs) = (gs, fs, seg)" "grows vc s1 s2 gs" by blast
  have ne: "fs \<noteq> []" using pack_nonempty [OF 2(4)] assms(6) by simp
  have vc: "lm_video_configured m2 = vc" using 2(3) ne by (auto simp: settled_def)
  let ?last = "(fs, (frame_dts (last fs) - frame_dts (hd fs)) * 1000, True)"
  obtain m s where 3: "llhls_muxer_on_unpublish (m2, s2) = (None, (m, s))" "packed ?T ?S (m, s) [] 0" "grows vc s2 s [?last]"
    using unpublish_packed [OF 2(2)] ne vc by auto
  have "grows vc s0 s2 gs" using 2(5) 1(5,6) by (simp add: grows_def)
  from grows_append [OF this 3(3)] obtain k ps where g: "window_parts s = drop k (window_parts s0 @ ps)" "published vc (tail_done s0) ps (gs @ [?last])"
      "tail_done s = ends_segment (tail_done s0) (gs @ [?last])" unfolding grows_def by blast
  have "tail_done s" using g(3) by (simp add: ends_segment_append)
  moreover have "publication cf r cs (m0, s0) = (None, (m, s))" using 1(1) 2(1) 3(1) by (simp add: publication_def andthen_def)
  moreover have "\<not> lm_part_open m" using 3(2) by (simp add: packed_def)
  ultimately show ?thesis using that g(1,2) 2(4) ne by blast
qed

definition llhls_sample :: SrsFormat where
  "llhls_sample = SrsFormat_new\<lparr>fmt_vcodec := Some (SrsVideoCodecConfig_new\<lparr>sequenceParameterSetNALUnit := [0x67]\<rparr>),
     fmt_acodec := Some (SrsAudioCodecConfig_new\<lparr>aac_object := 2\<rparr>),
     fmt_video := Some (SrsVideoFrame_new\<lparr>frame_type := SrsVideoAvcFrameTypeKeyFrame\<rparr>), fmt_raw := [1, 2, 3]\<rparr>"

definition llhls_sample_calls :: "frame_call list" where
  "llhls_sample_calls = [WriteVideo llhls_sample 0, WriteAudio llhls_sample 10, WriteVideo llhls_sample 40]"

lemma llhls_sample_fits: "\<forall>c \<in> set llhls_sample_calls. call_fits True c"
  by (simp add: llhls_sample_calls_def llhls_sample_def call_fits_def codec_ok_video_def codec_ok_audio_def is_avc_codec_ok_def is_aac_codec_ok_def)

definition llhls_sample_muxer :: SrsLlHlsMuxer where
  "llhls_sample_muxer = SrsLlHlsMuxer_new\<lparr>lm_storage := True, lm_init_dirty := True\<rparr>"

text \<open>C16. A publication over low-latency HLS loses no frame: whatever was published before, from the configuration to the end, any frames give
  parts whose contents are, one after the other, exactly the frames: a player of the boxes of a part gets its samples in
  their order, under the track ids of the initialization segment. The window then holds the newest of these parts,
  without a gap; the durations of the parts sum up to the time between the first and the last frame; a part that begins a segment can be decoded alone
  (except for the first of all); and the last segment is complete.\<close>

theorem llhls_publishes_frames:
  assumes "0 < cf_llhls_segment_count cf" and "storage_steps (SrsLlHlsStorage_new cf) s0" and "lm_storage m0"
    and "lm_init_dirty m0 \<or> lm_video_configured m0 = vc" and "\<forall>c \<in> set cs. call_fits vc c" and "cs \<noteq> []"
  shows "\<exists>m s k ps gss. publication cf r cs (m0, s0) = (None, (m, s)) \<and> \<not> lm_part_open m \<and> tail_done s
    \<and> window_parts s = drop k (window_parts s0 @ ps)
    \<and> list_all2 (\<lambda>p fs. carries vc p (fs, lp_duration p)) ps gss \<and> concat gss = map frame_of cs
    \<and> sum_list (map lp_duration ps) = (frame_dts (frame_of (last cs)) - frame_dts (frame_of (hd cs))) * 1000
    \<and> (\<forall>p \<in> set (tl ps). lp_psn p = 0 \<longrightarrow> lp_independent p)"
proof -
  obtain m s k ps gs fs seg where p: "publication cf r cs (m0, s0) = (None, (m, s))" "\<not> lm_part_open m" "tail_done s"
    "window_parts s = drop k (window_parts s0 @ ps)"
    "published vc (tail_done s0) ps (gs @ [(fs, (frame_dts (last fs) - frame_dts (hd fs)) * 1000, True)])"
    "pack_frames (cf_llhls_part cf) (cf_llhls_segment cf) vc [] 0 (map frame_of cs) = (gs, fs, seg)" "fs \<noteq> []"
    by (rule publication_packed [OF assms])
  let ?gs = "gs @ [(fs, (frame_dts (last fs) - frame_dts (hd fs)) * 1000, True)]"
  note pc = published_carries [OF p(5)]
  have cat: "concat (map fst ?gs) = map frame_of cs" using pack_concat [OF p(6)] by simp
  have l: "list_all2 (\<lambda>p fs. carries vc p (fs, lp_duration p)) ps (map fst ?gs)"
    unfolding list_all2_map2 by (rule list_all2_mono [OF pc]) auto
  have dur: "map lp_duration ps = map (\<lambda>(_, d, _). d) ?gs"
    by (rule published_durations [OF p(5)])
  have fs: "last fs = frame_of (last cs)"
    using arg_cong [OF cat, of last] p(7) assms(6) by (simp add: last_map)
  obtain c0 rest where cs: "cs = c0 # rest" using assms(6) by (cases cs) auto
  have "pack_frames (cf_llhls_part cf) (cf_llhls_segment cf) vc [frame_of c0] 0 (map frame_of rest) = (gs, fs, seg)"
    using p(6) by (simp add: cs cut_at_def)
  from pack_durations [OF this] have "sum_list (map (\<lambda>(_, d, _). d) gs) = (frame_dts (hd fs) - frame_dts (frame_of (hd cs))) * 1000" by (simp add: cs)
  then have sum: "sum_list (map lp_duration ps) = (frame_dts (frame_of (last cs)) - frame_dts (frame_of (hd cs))) * 1000"
    unfolding dur by (simp add: fs algebra_simps)
  have novideo: "\<not> vc \<longrightarrow> video_frames (fst g) = []" if "g \<in> set ?gs" for g
  proof -
    have "set (fst g) \<subseteq> set (map frame_of cs)" unfolding cat [symmetric] using that by auto
    then show ?thesis using assms(5) by (fastforce simp: video_frames_def filter_empty_conv call_fits_def)
  qed
  have ne: "\<forall>g \<in> set ?gs. fst g \<noteq> []" using pack_nonempty [OF p(6)] assms(6) by auto
  have "starts_clean vc False ?gs" using pack_clean [OF p(6), of False] by simp
  from published_starts [OF p(5) this] ne novideo have "\<forall>p \<in> set (tl ps). lp_psn p = 0 \<longrightarrow> lp_independent p"
    by (auto split: if_splits dest: list.set_sel(2)) (metis list.sel(2) list.set_sel(2))+
  then show ?thesis using p(1-4) l cat sum by blast
qed

theorem llhls_publishes_frames_witness:
  "\<exists>m s k ps gss. publication llhls_config SrsRequest_new llhls_sample_calls (llhls_sample_muxer, SrsLlHlsStorage_new llhls_config) = (None, (m, s)) \<and> \<not> lm_part_open m \<and> tail_done s
    \<and> window_parts s = drop k ps \<and> list_all2 (\<lambda>p fs. carries True p (fs, lp_duration p)) ps gss \<and> concat gss = map frame_of llhls_sample_calls
    \<and> sum_list (map lp_duration ps) = 40000 \<and> (\<forall>p \<in> set (tl ps). lp_psn p = 0 \<longrightarrow> lp_independent p)"
proof -
  have e: "window_parts (SrsLlHlsStorage_new llhls_config) = []" by (simp add: window_parts_def SrsLlHlsStorage_new_def)
  have d: "(frame_dts (frame_of (last llhls_sample_calls)) - frame_dts (frame_of (hd llhls_sample_calls))) * 1000 = 40000"
    by (simp add: llhls_sample_calls_def frame_dts_def llhls_sample_def)
  have m: "lm_storage llhls_sample_muxer" "lm_init_dirty llhls_sample_muxer" "llhls_sample_calls \<noteq> []"
    by (simp_all add: llhls_sample_muxer_def llhls_sample_calls_def)
  from llhls_publishes_frames [OF llhls_config_count steps_refl m(1) disjI1 [OF m(2)] llhls_sample_fits m(3), of SrsRequest_new]
  show ?thesis unfolding e d append_Nil .
qed

text \<open>C18. The limits of a part: when the times of the frames go forward by at least \<open>g\<close> and at most \<open>G\<close> milliseconds from one to the next, a part is
  never longer than its target, or 85 percent of it, and the irregularity of the frames allow (\<open>part_limit\<close>): with equal distances of at
  most 15 percent of the target it is never longer than the target, as the specification of HLS demands. No duration is negative, and only the last
  part of a segment is shorter than 85 percent of the target.\<close>

theorem llhls_part_limits:
  assumes "0 < cf_llhls_segment_count cf" and "storage_steps (SrsLlHlsStorage_new cf) s0" and "lm_storage m0"
    and "lm_init_dirty m0 \<or> lm_video_configured m0 = vc" and "\<forall>c \<in> set cs. call_fits vc c" and "cs \<noteq> []"
    and "paced g G (map frame_of cs)" and "0 \<le> g" "g \<le> G" "2 \<le> cf_llhls_part cf"
  shows "\<exists>m s k ps. publication cf r cs (m0, s0) = (None, (m, s)) \<and> window_parts s = drop k (window_parts s0 @ ps)
    \<and> (\<forall>p \<in> set ps. 0 \<le> lp_duration p \<and> lp_duration p \<le> part_limit (cf_llhls_part cf) g G)
    \<and> (\<forall>i. i + 1 < length ps \<and> lp_psn (ps ! (i + 1)) \<noteq> 0 \<longrightarrow> cf_llhls_part cf * 85 sdiv 100 \<le> lp_duration (ps ! i))"
proof -
  let ?T = "cf_llhls_part cf" and ?D = "cf_llhls_part cf * 85 sdiv 100"
  have D: "?D = ?T * 85 div 100" using assms(10) by (simp add: signed_divide_int_def)
  have T: "0 < ?D" "?D \<le> ?T" "0 < ?T" unfolding D using assms(10) by linarith+
  obtain m s k ps gs fs seg where p: "publication cf r cs (m0, s0) = (None, (m, s))"
    "window_parts s = drop k (window_parts s0 @ ps)"
    "published vc (tail_done s0) ps (gs @ [(fs, (frame_dts (last fs) - frame_dts (hd fs)) * 1000, True)])"
    "pack_frames (cf_llhls_part cf) (cf_llhls_segment cf) vc [] 0 (map frame_of cs) = (gs, fs, seg)" "fs \<noteq> []"
    by (rule publication_packed [OF assms(1-6)])
  let ?gs = "gs @ [(fs, (frame_dts (last fs) - frame_dts (hd fs)) * 1000, True)]"
  obtain c0 rest where cs: "cs = c0 # rest" using assms(6) by (cases cs) auto
  have "pack_frames ?T (cf_llhls_segment cf) vc [frame_of c0] 0 (map frame_of rest) = (gs, fs, seg)"
    using p(4) by (simp add: cs cut_at_def)
  moreover have "room_left ?T g [frame_of c0]" using T by (simp add: room_left_def)
  moreover have "paced g G (last [frame_of c0] # map frame_of rest)" using assms(7) by (simp add: cs)
  ultimately have lims: "\<forall>(_, d, c) \<in> set gs. 0 \<le> d \<and> d \<le> part_limit ?T g G \<and> (\<not> c \<longrightarrow> ?D \<le> d \<or> ?T \<le> d)" and room: "room_left ?T g fs"
    using pack_limits [of ?T "cf_llhls_segment cf" vc "[frame_of c0]" 0 "map frame_of rest" gs fs seg g G] assms(8) T by simp_all
  have last: "(frame_dts (last fs) - frame_dts (hd fs)) * 1000 \<le> part_limit ?T g G"
    using room assms(9) by (auto simp: room_left_def part_limit_def Let_def)
  have nonneg: "0 \<le> (frame_dts (last fs) - frame_dts (hd fs)) * 1000" using room by (simp add: room_left_def Let_def)
  have all: "\<forall>(_, d, c) \<in> set ?gs. 0 \<le> d \<and> d \<le> part_limit ?T g G \<and> (\<not> c \<longrightarrow> ?D \<le> d)"
    using lims last nonneg T(2) by fastforce
  have "set (map lp_duration ps) = (\<lambda>(_, d, _). d) ` set ?gs" unfolding published_durations [OF p(3)] by (simp only: set_map)
  then have "lp_duration q \<in> (\<lambda>(_, d, _). d) ` set ?gs" if "q \<in> set ps" for q using that by (metis image_eqI set_map)
  then have "\<forall>q \<in> set ps. 0 \<le> lp_duration q \<and> lp_duration q \<le> part_limit ?T g G" using all by fastforce
  moreover have "\<forall>(_, d, c) \<in> set ?gs. \<not> c \<longrightarrow> ?D \<le> d" using all by fastforce
  then have "\<forall>i. i + 1 < length ps \<and> lp_psn (ps ! (i + 1)) \<noteq> 0 \<longrightarrow> ?D \<le> lp_duration (ps ! i)"
    using published_nonfinal [OF p(3)] by blast
  ultimately show ?thesis using p(1,2) by blast
qed

theorem llhls_part_limits_witness:
  "\<exists>m s k ps. publication llhls_config SrsRequest_new llhls_sample_calls (llhls_sample_muxer, SrsLlHlsStorage_new llhls_config) = (None, (m, s)) \<and> window_parts s = drop k ps
    \<and> (\<forall>p \<in> set ps. 0 \<le> lp_duration p \<and> lp_duration p \<le> part_limit 500000 10 30)
    \<and> (\<forall>i. i + 1 < length ps \<and> lp_psn (ps ! (i + 1)) \<noteq> 0 \<longrightarrow> 425000 \<le> lp_duration (ps ! i))"
proof -
  have e: "window_parts (SrsLlHlsStorage_new llhls_config) = []" by (simp add: window_parts_def SrsLlHlsStorage_new_def)
  have c: "cf_llhls_part llhls_config = 500000" by (simp add: llhls_config_def SrsSimpleConfig.extend_def)
  have t: "cf_llhls_part llhls_config * 85 sdiv 100 = 425000" by (simp add: c signed_divide_int_def)
  have m: "lm_storage llhls_sample_muxer" "lm_init_dirty llhls_sample_muxer" "llhls_sample_calls \<noteq> []"
    by (simp_all add: llhls_sample_muxer_def llhls_sample_calls_def)
  have p: "paced 10 30 (map frame_of llhls_sample_calls)" by (simp add: llhls_sample_calls_def frame_dts_def llhls_sample_def)
  from llhls_part_limits [OF llhls_config_count steps_refl m(1) disjI1 [OF m(2)] llhls_sample_fits m(3) p, of SrsRequest_new]
  show ?thesis unfolding e t append_Nil by (simp add: c)
qed

end
