(* ===== verification/LlHlsSafe.thy ===== *)
theory LlHlsSafe
  imports LlHlsParts Triple
begin

text \<open>
  The handler of low-latency HLS under any calls of the hub: it never fails, and the invariant of the storage, its playlist and the packager.
\<close>

section \<open>The state that LL-HLS reaches\<close>

inductive publisher_change :: "SrsLlHlsStorage \<Rightarrow> SrsLlHlsStorage \<Rightarrow> bool" where
  append: "publisher_change s (append_part payload d i c s)"
| init: "publisher_change s (set_init v s)"

text \<open>
  The storage between two calls: no more segments than configured, beside one that is open, and a playlist of what is there; the hint of the next part
  is only in it while the stream is published.
\<close>

definition playlist_of :: "SrsLlHlsStorage \<Rightarrow> bool" where
  "playlist_of s \<longleftrightarrow> (\<exists>b. (b \<longrightarrow> sto_active s) \<and> sto_playlist s = chunklist_generate (sto_segments s) b (sto_chunklist s))"

definition store_ok :: "SrsLlHlsConfig \<Rightarrow> SrsLlHlsStorage \<Rightarrow> bool" where
  "store_ok cf s \<longleftrightarrow> window_wf s \<and> sto_max_segments s = cf_llhls_segment_count cf
     \<and> int (length (sto_segments s)) \<le> cf_llhls_segment_count cf + (if tail_done s then 0 else 1) \<and> playlist_of s"

lemma store_ok_append:
  assumes "store_ok cf s"
  shows "store_ok cf (append_part payload d i c s)"
proof -
  have w: "window_wf s" using assms by (simp add: store_ok_def)
  let ?a = "appended payload d i c s"
  have "\<exists>k. append_part payload d i c s = refresh_playlist (?a\<lparr>sto_segments := drop k (sto_segments ?a)\<rparr>)
    \<and> (\<not> c \<longrightarrow> k = 0) \<and> (c \<longrightarrow> int (length (drop k (sto_segments ?a))) \<le> sto_max_segments s)"
    by (rule append_part_drop [OF w, of payload d i c]) blast
  then obtain k where k: "append_part payload d i c s = refresh_playlist (?a\<lparr>sto_segments := drop k (sto_segments ?a)\<rparr>)"
    "\<not> c \<longrightarrow> k = 0" "c \<longrightarrow> int (length (drop k (sto_segments ?a))) \<le> sto_max_segments s" by blast
  have sg: "sto_segments (append_part payload d i c s) = drop k (sto_segments ?a)" using arg_cong [OF k(1), of sto_segments] by simp
  have l: "length (sto_segments ?a) = length (sto_segments s) + (if tail_done s then 1 else 0)"
  proof -
    have "sto_segments s \<noteq> [] \<Longrightarrow> 0 < length (sto_segments s)" by simp
    then show ?thesis by (auto simp: appended_def open_segment_def tail_done_def Let_def)
  qed
  have mx: "sto_max_segments (append_part payload d i c s) = sto_max_segments s" by (simp add: k(1)) (simp add: appended_def open_segment_def Let_def)
  have t: "tail_done (append_part payload d i c s) \<longleftrightarrow> c" using append_window [OF w] by blast
  have "int (length (sto_segments (append_part payload d i c s))) \<le> sto_max_segments s + (if c then 0 else 1)"
  proof (cases c)
    case True
    then show ?thesis using k(3) sg by simp
  next
    case False
    then show ?thesis using k(2) l assms sg by (auto simp: store_ok_def split: if_splits)
  qed
  moreover have "playlist_of (append_part payload d i c s)" unfolding k(1) playlist_of_def by (auto simp: refresh_playlist_def)
  ultimately show ?thesis using assms window_append_part [OF w] mx t by (simp add: store_ok_def)
qed

lemma store_ok_change: "publisher_change s s' \<Longrightarrow> store_ok cf s \<Longrightarrow> store_ok cf s' \<and> sto_chunklist s' = sto_chunklist s \<and> sto_active s' = sto_active s"
proof (induction rule: publisher_change.induct)
  case (append s payload d i c)
  have "sto_chunklist (append_part payload d i c s) = sto_chunklist s" "sto_active (append_part payload d i c s) = sto_active s"
    by (simp_all add: append_part_eq) (simp_all add: storage_shrink_def appended_def open_segment_def Let_def)
  then show ?case using store_ok_append [OF append] by simp
next
  case (init s v)
  have e: "sto_segments (set_init v s) = sto_segments s" "sto_max_segments (set_init v s) = sto_max_segments s" "sto_chunklist (set_init v s) = sto_chunklist s"
    "sto_active (set_init v s) = sto_active s" "sto_playlist (set_init v s) = sto_playlist s" by (simp_all add: set_init_def)
  have "window_wf (set_init v s)" using init window_other by (simp add: store_ok_def)
  then show ?case using init by (simp add: store_ok_def playlist_of_def e)
qed

lemma store_ok_changes: "publisher_change\<^sup>*\<^sup>* s s' \<Longrightarrow> store_ok cf s \<Longrightarrow> store_ok cf s' \<and> sto_chunklist s' = sto_chunklist s \<and> sto_active s' = sto_active s"
  by (induction rule: rtranclp_induct) (use store_ok_change in metis)+

section \<open>What the operations do to it\<close>

lemma flush_changes:
  assumes "packed T S (m, s) fs seg" and "fs \<noteq> []"
  shows "\<exists>m' s'. flush_part e c (m, s) = (None, (m', s')) \<and> packed T S (m', s') [] (if c then 0 else seg + (e - frame_dts (hd fs)) * 1000)
    \<and> publisher_change s s' \<and> (tail_done s' \<longleftrightarrow> c) \<and> lm_init_dirty m' = lm_init_dirty m"
proof -
  have w: "window_wf s" using assms(1) by (simp add: packed_def)
  obtain payload i where p: "flush_part e c (m, s) = (None, ((clear_part m)\<lparr>lm_segment_duration := (if c then 0 else seg + (e - frame_dts (hd fs)) * 1000)\<rparr>,
      append_part payload ((e - frame_dts (hd fs)) * 1000) i c s))"
    using flush_part_packed [OF assms, of e c] by blast
  obtain m' s' where f: "flush_part e c (m, s) = (None, (m', s'))" "packed T S (m', s') [] (if c then 0 else seg + (e - frame_dts (hd fs)) * 1000)"
      "lm_init_dirty m' = lm_init_dirty m" using flush_grows [OF assms, of e c] by blast
  moreover have "tail_done (append_part payload ((e - frame_dts (hd fs)) * 1000) i c s) \<longleftrightarrow> c" using append_window [OF w] by blast
  ultimately show ?thesis using p publisher_change.append by auto
qed

lemma write_frame_changes:
  assumes "packed T S (m, s) fs seg" and "call_ready c"
  shows "\<exists>m' s' fs' seg'. write_frame c (m, s) = (None, (m', s')) \<and> packed T S (m', s') fs' seg' \<and> fs' \<noteq> [] \<and> publisher_change\<^sup>*\<^sup>* s s'
    \<and> ((lm_init_dirty m \<longrightarrow> fs = []) \<longrightarrow> codec_ok_video (call_format c) \<or> codec_ok_audio (call_format c) \<longrightarrow> \<not> lm_init_dirty m')"
proof -
  let ?cut = "cut_at T S (can_end (lm_video_configured m) (frame_of c)) (frame_dts (frame_of c)) fs seg"
  have w: "write_frame c (m, s) = andthen (\<lambda>(m, s). (case ?cut of None \<Rightarrow> (None, (m, s)) | Some k \<Rightarrow> flush_part (frame_dts (frame_of c)) k (m, s))) (add_frame c) (m, s)"
    unfolding write_frame_eq [OF assms(2)] andthen_def maybe_cut_packed [OF assms(1)] by simp
  have ch: "publisher_change\<^sup>*\<^sup>* s1 s2" if "s2 = (if b then set_init v s1 else s1)" for s1 s2 v b
    using that publisher_change.init by auto
  show ?thesis
  proof (cases ?cut)
    case None
    obtain m' s' where a: "add_frame c (m, s) = (None, (m', s'))" "packed T S (m', s') (fs @ [frame_of c]) seg"
        "if fs = [] then (\<exists>v. s' = (if init_needed (call_format c) m then set_init v s else s)) \<and> lm_video_configured m' = configured (call_format c) m
         \<and> lm_init_dirty m' = (lm_init_dirty m \<and> \<not> init_needed (call_format c) m)
       else s' = s \<and> lm_video_configured m' = lm_video_configured m \<and> lm_init_dirty m' = lm_init_dirty m"
      using add_frame_packed [OF assms(1)] by blast
    have "publisher_change\<^sup>*\<^sup>* s s'" using a(3) ch by (cases "fs = []") auto
    moreover have "(lm_init_dirty m \<longrightarrow> fs = []) \<longrightarrow> codec_ok_video (call_format c) \<or> codec_ok_audio (call_format c) \<longrightarrow> \<not> lm_init_dirty m'"
      using a(3) by (cases "fs = []") (auto simp: init_needed_def)
    ultimately show ?thesis using a(1,2) None w by (simp add: andthen_def) (metis append_is_Nil_conv not_Cons_self2)
  next
    case (Some k)
    then have ne: "fs \<noteq> []" by (auto simp: cut_at_def)
    obtain m1 s1 where f: "flush_part (frame_dts (frame_of c)) k (m, s) = (None, (m1, s1))"
        "packed T S (m1, s1) [] (if k then 0 else seg + (frame_dts (frame_of c) - frame_dts (hd fs)) * 1000)" "publisher_change s s1" "lm_init_dirty m1 = lm_init_dirty m"
      using flush_changes [OF assms(1) ne] by blast
    obtain m' s' where a: "add_frame c (m1, s1) = (None, (m', s'))" "packed T S (m', s') [frame_of c] (if k then 0 else seg + (frame_dts (frame_of c) - frame_dts (hd fs)) * 1000)"
        "\<exists>v. s' = (if init_needed (call_format c) m1 then set_init v s1 else s1)" "lm_init_dirty m' = (lm_init_dirty m1 \<and> \<not> init_needed (call_format c) m1)"
      using add_frame_packed [OF f(2), of c] by auto
    have "publisher_change\<^sup>*\<^sup>* s s'" using a(3) ch f(3) by (meson converse_rtranclp_into_rtranclp)
    moreover have "codec_ok_video (call_format c) \<or> codec_ok_audio (call_format c) \<longrightarrow> \<not> lm_init_dirty m'" using a(4) by (auto simp: init_needed_def)
    moreover have "write_frame c (m, s) = (None, (m', s'))" using a(1) f(1) Some w by (simp add: andthen_def)
    ultimately show ?thesis using a(2) by blast
  qed
qed

lemma sequence_header_changes:
  assumes "packed T S (m, s) fs seg"
  shows "\<exists>m' s' fs' seg'. llhls_on_sequence_header format (m, s) = (None, (m', s')) \<and> packed T S (m', s') fs' seg' \<and> publisher_change\<^sup>*\<^sup>* s s'
    \<and> (fs' = fs \<and> s' = s \<and> lm_init_dirty m' = lm_init_dirty m \<or> fs' = [] \<and> (fs \<noteq> [] \<longrightarrow> tail_done s') \<and> (fs = [] \<longrightarrow> s' = s))"
proof -
  let ?avc = "case fmt_vcodec format of Some c \<Rightarrow> if is_avc_codec_ok c \<and> avc_extra_data c \<noteq> lm_latest_avc_extra m then Some (avc_extra_data c) else None | None \<Rightarrow> None"
  let ?aac = "case fmt_acodec format of Some c \<Rightarrow> if is_aac_codec_ok c \<and> aac_extra_data c \<noteq> lm_latest_aac_extra m then Some (aac_extra_data c) else None | None \<Rightarrow> None"
  define m1 where "m1 = m\<lparr>lm_latest_avc_extra := (case ?avc of Some x \<Rightarrow> x | None \<Rightarrow> lm_latest_avc_extra m),
                lm_latest_aac_extra := (case ?aac of Some x \<Rightarrow> x | None \<Rightarrow> lm_latest_aac_extra m)\<rparr>"
  have p1: "packed T S (m1, s) fs seg" and d1: "lm_init_dirty m1 = lm_init_dirty m" using assms by (simp_all add: packed_def m1_def)
  have e: "llhls_on_sequence_header format (m, s) = (if ?avc = None \<and> ?aac = None then (None, (m1, s))
        else andthen (\<lambda>(m, s). if lm_part_open m then flush_part (lm_last_dts m) True (m, s) else (None, (m, s)))
               (on_mux (\<lambda>m. m\<lparr>lm_init_dirty := True\<rparr>)) (m1, s))"
    unfolding llhls_on_sequence_header_def m1_def Let_def by simp
  show ?thesis
  proof (cases "?avc = None \<and> ?aac = None")
    case True
    then show ?thesis using e p1 d1 by auto
  next
    case False
    show ?thesis
    proof (cases "fs = []")
      case True
      then have o: "\<not> lm_part_open m1" using p1 by (simp add: packed_def)
      have "llhls_on_sequence_header format (m, s) = (None, (m1\<lparr>lm_init_dirty := True\<rparr>, s))" unfolding e if_not_P [OF False] using o by (simp add: andthen_def on_mux_def)
      moreover have "packed T S (m1\<lparr>lm_init_dirty := True\<rparr>, s) [] seg" using p1 True by (simp add: packed_def)
      ultimately show ?thesis using True by auto
    next
      case ne: False
      then have o: "lm_part_open m1" using p1 by (simp add: packed_def)
      obtain m' s' where f: "flush_part (lm_last_dts m1) True (m1, s) = (None, (m', s'))" "packed T S (m', s') [] 0" "publisher_change s s'" "tail_done s'"
        using flush_changes [OF p1 ne, of "lm_last_dts m1" True] by auto
      have "llhls_on_sequence_header format (m, s) = (None, (m'\<lparr>lm_init_dirty := True\<rparr>, s'))" unfolding e if_not_P [OF False] using o f(1) by (simp add: andthen_def on_mux_def)
      moreover have "packed T S (m'\<lparr>lm_init_dirty := True\<rparr>, s') [] 0" using f(2) by (simp add: packed_def)
      ultimately show ?thesis using f(3,4) ne by blast
    qed
  qed
qed

lemma unpublish_changes:
  assumes "packed T S (m, s) fs seg"
  shows "\<exists>m' s' seg'. llhls_muxer_on_unpublish (m, s) = (None, (m', s')) \<and> packed T S (m', s') [] seg' \<and> publisher_change\<^sup>*\<^sup>* s s'
    \<and> (fs = [] \<longrightarrow> s' = s) \<and> (fs \<noteq> [] \<longrightarrow> tail_done s') \<and> lm_init_dirty m' = lm_init_dirty m"
proof (cases "fs = []")
  case True
  then show ?thesis using assms by (auto simp: llhls_muxer_on_unpublish_def packed_def)
next
  case False
  then have "lm_part_open m" using assms by (simp add: packed_def)
  then show ?thesis using flush_changes [OF assms False, of "lm_last_dts m" True] False by (auto simp: llhls_muxer_on_unpublish_def)
qed

section \<open>The handler\<close>

definition llhls_ok :: "SrsLlHls \<Rightarrow> bool" where
  "llhls_ok h \<longleftrightarrow> ll_req h \<noteq> None \<and> (\<exists>T S fs seg. packed T S (ll_muxer h, ll_storage h) fs seg)"

definition llhls_new :: "SrsLlHlsConfig \<Rightarrow> SrsLlHls \<Rightarrow> bool" where
  "llhls_new cf h \<longleftrightarrow> h = SrsLlHls_new cf \<and> 0 < cf_llhls_segment_count cf"

lemma with_muxer_result: "f (ll_muxer h, ll_storage h) = (e, (m, s)) \<Longrightarrow> with_muxer f h = (e, h\<lparr>ll_muxer := m, ll_storage := s\<rparr>)"
  by (simp add: with_muxer_def)

text \<open>Every audio or video frame is nothing, a sequence header, or a frame written.\<close>

definition media_op :: "SrsFormat \<Rightarrow> (muxer_state \<Rightarrow> muxer_state outcome) \<Rightarrow> bool" where
  "media_op format f \<longleftrightarrow> f = llhls_on_sequence_header format \<or> (\<exists>c. f = write_frame c \<and> call_ready c)"

lemma media_op_calls: "media_op format (llhls_on_sequence_header format)" "media_op format (llhls_write_audio format dts)"
  "fmt_video format \<noteq> None \<Longrightarrow> media_op format (llhls_write_video format dts)"
proof -
  show "media_op format (llhls_write_audio format dts)" unfolding media_op_def
    by (rule disjI2, rule exI [of _ "WriteAudio format dts"]) simp
  show "fmt_video format \<noteq> None \<Longrightarrow> media_op format (llhls_write_video format dts)" unfolding media_op_def
    by (rule disjI2, rule exI [of _ "WriteVideo format dts"]) simp
qed (simp add: media_op_def)

lemma llhls_media_cases:
  "llhls_on_audio msg format h = (None, h) \<or> ll_enabled h \<and> (\<exists>f. llhls_on_audio msg format h = with_muxer f h \<and> media_op format f)"
  "llhls_on_video msg format h = (None, h) \<or> ll_enabled h \<and> (\<exists>f. llhls_on_video msg format h = with_muxer f h \<and> media_op format f)"
  unfolding llhls_on_audio_def llhls_on_video_def using media_op_calls [of format] by (auto split: option.split)

lemma media_changes:
  assumes "packed T S (m, s) fs seg" and "media_op format f"
  shows "\<exists>m' s' fs' seg'. f (m, s) = (None, (m', s')) \<and> packed T S (m', s') fs' seg' \<and> publisher_change\<^sup>*\<^sup>* s s'
    \<and> (fs' = [] \<longrightarrow> (fs \<noteq> [] \<longrightarrow> tail_done s') \<and> (fs = [] \<longrightarrow> s' = s))"
  using assms(2) unfolding media_op_def
proof
  assume "f = llhls_on_sequence_header format"
  then show ?thesis using sequence_header_changes [OF assms(1), of format] by blast
next
  assume "\<exists>c. f = write_frame c \<and> call_ready c"
  then obtain c where "f = write_frame c" "call_ready c" by blast
  then show ?thesis using write_frame_changes [OF assms(1), of c] by blast
qed

lemma media_ok:
  assumes "llhls_ok h" and "media_op format f"
  shows "\<exists>h'. with_muxer f h = (None, h') \<and> llhls_ok h'"
proof -
  obtain T S fs seg where "packed T S (ll_muxer h, ll_storage h) fs seg" using assms(1) by (auto simp: llhls_ok_def)
  from media_changes [OF this assms(2)] obtain m' s' fs' seg' where "f (ll_muxer h, ll_storage h) = (None, (m', s'))" "packed T S (m', s') fs' seg'" by blast
  then show ?thesis using assms(1) by (auto simp: with_muxer_result llhls_ok_def)
qed

lemma llhls_media_ok:
  assumes "llhls_ok h"
  shows "\<exists>h'. llhls_on_audio msg format h = (None, h') \<and> llhls_ok h'" "\<exists>h'. llhls_on_video msg format h = (None, h') \<and> llhls_ok h'"
  using llhls_media_cases [of msg format h] media_ok [OF assms, of format] assms by metis+

lemma packed_other: "packed T S (m, s) fs seg \<Longrightarrow> window_wf s' \<Longrightarrow> packed T S (m, s') fs seg"
  by (simp add: packed_def)

lemma packed_window: "packed T S (m, s) fs seg \<Longrightarrow> window_wf s \<and> lm_storage m"
  by (simp add: packed_def)

lemma initialize_packed:
  assumes "0 < cf_llhls_segment_count cf"
  shows "llhls_initialize r (SrsLlHls_new cf) = (None, (SrsLlHls_new cf)\<lparr>ll_req := Some r, ll_muxer := SrsLlHlsMuxer_new\<lparr>lm_storage := True\<rparr>\<rparr>)"
    "packed 0 0 (SrsLlHlsMuxer_new\<lparr>lm_storage := True\<rparr>, SrsLlHlsStorage_new cf) [] 0"
  using window_new [OF assms]
  by (simp_all add: llhls_initialize_def with_muxer_def llhls_muxer_initialize_def on_mux_def SrsLlHls_new_def packed_def) (simp add: SrsLlHlsMuxer_new_def)

lemma publish_packed:
  assumes "packed T S (ll_muxer h, ll_storage h) fs seg" and "0 < cf_llhls_segment_count cf" and "ll_req h = Some r" and "cf_llhls_enabled cf"
  shows "\<exists>m'. llhls_on_publish cf h = (None, h\<lparr>ll_muxer := m', ll_storage := storage_on_publish (storage_update_config (cf_llhls_segment_count cf) (rq_stream r) (cf_llhls_part cf) (cf_llhls_segment cf) (ll_storage h)),
             ll_enabled := True\<rparr>)
    \<and> packed (cf_llhls_part cf) (cf_llhls_segment cf) (m', storage_on_publish (storage_update_config (cf_llhls_segment_count cf) (rq_stream r) (cf_llhls_part cf) (cf_llhls_segment cf) (ll_storage h))) [] 0"
proof -
  have w: "lm_storage (ll_muxer h)" "window_wf (ll_storage h)" using packed_window [OF assms(1)] by blast+
  note w' = window_other(2) [OF window_other(3) [OF w(2) assms(2)]]
  show ?thesis using w w' assms(3,4)
    by (auto simp: llhls_on_publish_def andthen_def with_muxer_def llhls_update_config_def on_mux_def on_storage_def packed_def)
qed

lemma llhls_handler_safe:
  assumes "0 < cf_llhls_segment_count cf"
  shows "handler_safe (llhls_new cf) llhls_ok (llhls_handler cf)"
proof -
  have "triple (llhls_new cf) (llhls_initialize r) llhls_ok llhls_ok" for r
    by (rule tripleI) (use initialize_packed(1) [OF assms, of r] initialize_packed(2) [OF assms] in \<open>auto simp: llhls_new_def llhls_ok_def SrsLlHls_new_def\<close>)
  moreover have "triple llhls_ok (llhls_on_publish cf) llhls_ok llhls_ok"
  proof (rule tripleI)
    fix h e h' assume h: "llhls_ok h" "llhls_on_publish cf h = (e, h')"
    then obtain T S fs seg r where "packed T S (ll_muxer h, ll_storage h) fs seg" "ll_req h = Some r" by (auto simp: llhls_ok_def)
    note h1 = this
    show "(e = None \<and> llhls_ok h') \<or> (\<exists>c. e = Some (Srs_error c) \<and> llhls_ok h')"
    proof (cases "cf_llhls_enabled cf")
      case True
      obtain m' s' where "llhls_on_publish cf h = (None, h\<lparr>ll_muxer := m', ll_storage := s', ll_enabled := True\<rparr>)"
        "packed (cf_llhls_part cf) (cf_llhls_segment cf) (m', s') [] 0" using publish_packed [OF h1(1) assms h1(2) True] by blast
      then show ?thesis using h(2) h1(2) by (auto simp: llhls_ok_def)
    qed (use h in \<open>simp add: llhls_on_publish_def\<close>)
  qed
  moreover have "llhls_ok (llhls_on_unpublish h)" if ok: "llhls_ok h" for h
  proof -
    obtain T S fs seg where "packed T S (ll_muxer h, ll_storage h) fs seg" using ok by (auto simp: llhls_ok_def)
    from unpublish_changes [OF this] obtain m' s' seg' where u: "llhls_muxer_on_unpublish (ll_muxer h, ll_storage h) = (None, (m', s'))" "packed T S (m', s') [] seg'" by blast
    have "packed T S (m', storage_on_unpublish s') [] seg'" using packed_other [OF u(2)] window_unpublish packed_window [OF u(2)] by blast
    then show ?thesis using ok u(1) by (auto simp: llhls_on_unpublish_def with_muxer_result llhls_ok_def)
  qed
  moreover have "triple llhls_ok (llhls_on_audio m f) llhls_ok llhls_ok" for m f
  proof (rule tripleI)
    fix h e h' assume "llhls_ok h" "llhls_on_audio m f h = (e, h')"
    then show "(e = None \<and> llhls_ok h') \<or> (\<exists>c. e = Some (Srs_error c) \<and> llhls_ok h')" using llhls_media_ok(1) [of h m f] by auto
  qed
  moreover have "triple llhls_ok (llhls_on_video m f) llhls_ok llhls_ok" for m f
  proof (rule tripleI)
    fix h e h' assume "llhls_ok h" "llhls_on_video m f h = (e, h')"
    then show "(e = None \<and> llhls_ok h') \<or> (\<exists>c. e = Some (Srs_error c) \<and> llhls_ok h')" using llhls_media_ok(2) [of h m f] by auto
  qed
  ultimately show ?thesis unfolding handler_safe_def llhls_handler_def by simp
qed


text \<open>The states that the calls of the hub reach; it publishes a stream only when it is not published.\<close>

inductive llhls_reach :: "SrsLlHlsConfig \<Rightarrow> SrsRequest \<Rightarrow> SrsLlHls \<Rightarrow> bool" for cf :: SrsLlHlsConfig and r :: SrsRequest where
  init: "llhls_reach cf r (snd (llhls_initialize r (SrsLlHls_new cf)))"
| publish: "llhls_reach cf r h \<Longrightarrow> \<not> ll_enabled h \<Longrightarrow> llhls_reach cf r (snd (llhls_on_publish cf h))"
| unpublish: "llhls_reach cf r h \<Longrightarrow> llhls_reach cf r (llhls_on_unpublish h)"
| audio: "llhls_reach cf r h \<Longrightarrow> llhls_reach cf r (snd (llhls_on_audio msg format h))"
| video: "llhls_reach cf r h \<Longrightarrow> llhls_reach cf r (snd (llhls_on_video msg format h))"

definition llhls_chunklist :: "SrsLlHlsConfig \<Rightarrow> SrsRequest \<Rightarrow> SrsLlHlsChunklist" where
  "llhls_chunklist cf r = \<lparr>chl_stream = rq_stream r, chl_part_target = cf_llhls_part cf, chl_segment_target = cf_llhls_segment cf\<rparr>"

definition llhls_inv :: "SrsLlHlsConfig \<Rightarrow> SrsRequest \<Rightarrow> SrsLlHls \<Rightarrow> bool" where
  "llhls_inv cf r h \<longleftrightarrow> ll_req h = Some r \<and> (\<exists>T S fs seg. packed T S (ll_muxer h, ll_storage h) fs seg
     \<and> (\<not> tail_done (ll_storage h) \<longrightarrow> fs \<noteq> []) \<and> (fs \<noteq> [] \<longrightarrow> ll_enabled h))
     \<and> store_ok cf (ll_storage h) \<and> sto_active (ll_storage h) = ll_enabled h
     \<and> (ll_enabled h \<or> sto_segments (ll_storage h) \<noteq> [] \<longrightarrow> sto_chunklist (ll_storage h) = llhls_chunklist cf r)"

lemma llhls_inv_media:
  assumes "llhls_inv cf r h" and "media_op format f" and "ll_enabled h"
  shows "llhls_inv cf r (snd (with_muxer f h))"
proof -
  obtain T S fs seg where p: "packed T S (ll_muxer h, ll_storage h) fs seg" "\<not> tail_done (ll_storage h) \<longrightarrow> fs \<noteq> []" "fs \<noteq> [] \<longrightarrow> ll_enabled h"
    and i: "ll_req h = Some r" "store_ok cf (ll_storage h)" "sto_active (ll_storage h)" "sto_chunklist (ll_storage h) = llhls_chunklist cf r"
    using assms(1,3) unfolding llhls_inv_def by auto
  from media_changes [OF p(1) assms(2)] obtain m' s' fs' seg' where f: "f (ll_muxer h, ll_storage h) = (None, (m', s'))" "packed T S (m', s') fs' seg'"
      "publisher_change\<^sup>*\<^sup>* (ll_storage h) s'" "fs' = [] \<longrightarrow> (fs \<noteq> [] \<longrightarrow> tail_done s') \<and> (fs = [] \<longrightarrow> s' = ll_storage h)" by blast
  have "\<not> tail_done s' \<longrightarrow> fs' \<noteq> []" using f(4) p(2) by auto
  then show ?thesis using store_ok_changes [OF f(3) i(2)] f(2) i assms(3) by (auto simp: with_muxer_result [of f, OF f(1)] llhls_inv_def)
qed

lemma store_ok_publish:
  assumes "store_ok cf s" and "0 < cf_llhls_segment_count cf" and "sto_segments s = [] \<or> sto_chunklist s = llhls_chunklist cf r"
  defines "s' \<equiv> storage_on_publish (storage_update_config (cf_llhls_segment_count cf) (rq_stream r) (cf_llhls_part cf) (cf_llhls_segment cf) s)"
  shows "store_ok cf s' \<and> sto_active s' \<and> sto_chunklist s' = llhls_chunklist cf r \<and> (tail_done s' \<longleftrightarrow> tail_done s)"
proof -
  have e: "sto_segments s' = sto_segments s" "sto_active s'" "sto_chunklist s' = llhls_chunklist cf r" "sto_max_segments s' = cf_llhls_segment_count cf" "sto_playlist s' = sto_playlist s"
    by (simp_all add: s'_def storage_on_publish_def storage_update_config_def chunklist_update_config_def llhls_chunklist_def)
  have w: "window_wf s'" using window_other(2) [OF window_other(3) [OF _ assms(2)]] assms(1) by (simp add: store_ok_def s'_def)
  obtain b where b: "sto_playlist s = chunklist_generate (sto_segments s) b (sto_chunklist s)" using assms(1) by (auto simp: store_ok_def playlist_of_def)
  have "sto_playlist s' = chunklist_generate (sto_segments s') b (sto_chunklist s')" using b assms(3) e by (auto simp: chunklist_generate_def)
  then show ?thesis using assms(1) w e by (auto simp: store_ok_def playlist_of_def tail_done_def)
qed

lemma store_ok_unpublish:
  assumes "store_ok cf s" and "tail_done s"
  shows "store_ok cf (storage_on_unpublish s) \<and> \<not> sto_active (storage_on_unpublish s) \<and> sto_chunklist (storage_on_unpublish s) = sto_chunklist s
    \<and> sto_segments (storage_on_unpublish s) = sto_segments s \<and> tail_done (storage_on_unpublish s)"
proof -
  have e: "storage_on_unpublish s = refresh_playlist (s\<lparr>sto_active := False\<rparr>)" using assms(2) by (auto simp: storage_on_unpublish_def Let_def tail_done_def)
  have "window_wf (storage_on_unpublish s)" using window_unpublish assms(1) by (simp add: store_ok_def)
  moreover have "playlist_of (storage_on_unpublish s)" unfolding e playlist_of_def by (intro exI [of _ False]) (simp add: refresh_playlist_def)
  ultimately show ?thesis using assms by (simp add: store_ok_def e tail_done_def)
qed

lemma llhls_reach_inv:
  assumes "0 < cf_llhls_segment_count cf"
  shows "llhls_reach cf r h \<Longrightarrow> llhls_inv cf r h"
proof (induction rule: llhls_reach.induct)
  case init
  have "store_ok cf (SrsLlHlsStorage_new cf)" using window_new [OF assms] assms
    by (auto simp: store_ok_def playlist_of_def SrsLlHlsStorage_new_def chunklist_generate_def)
  moreover have "tail_done (SrsLlHlsStorage_new cf)" "sto_segments (SrsLlHlsStorage_new cf) = []" "\<not> sto_active (SrsLlHlsStorage_new cf)"
    by (simp_all add: tail_done_def SrsLlHlsStorage_new_def)
  ultimately show ?case using initialize_packed(2) [OF assms]
    by (simp add: initialize_packed(1) [OF assms] llhls_inv_def) (auto simp: SrsLlHls_new_def)
next
  case (publish h)
  show ?case
  proof (cases "cf_llhls_enabled cf")
    case True
    obtain T S seg where p: "packed T S (ll_muxer h, ll_storage h) [] seg" "tail_done (ll_storage h)" and i: "ll_req h = Some r" "store_ok cf (ll_storage h)"
        "sto_segments (ll_storage h) = [] \<or> sto_chunklist (ll_storage h) = llhls_chunklist cf r"
      using publish.IH publish.hyps(2) unfolding llhls_inv_def by auto
    obtain m' where m: "llhls_on_publish cf h = (None, h\<lparr>ll_muxer := m', ll_storage := storage_on_publish (storage_update_config (cf_llhls_segment_count cf)
            (rq_stream r) (cf_llhls_part cf) (cf_llhls_segment cf) (ll_storage h)), ll_enabled := True\<rparr>)"
        "packed (cf_llhls_part cf) (cf_llhls_segment cf) (m', storage_on_publish (storage_update_config (cf_llhls_segment_count cf)
            (rq_stream r) (cf_llhls_part cf) (cf_llhls_segment cf) (ll_storage h))) [] 0"
      using publish_packed [OF p(1) assms i(1) True] by blast
    show ?thesis using store_ok_publish [OF i(2) assms i(3)] m p(2) i(1) by (auto simp: llhls_inv_def)
  next
    case False
    then show ?thesis using publish by (simp add: llhls_on_publish_def)
  qed
next
  case (unpublish h)
  show ?case
  proof (cases "ll_enabled h")
    case True
    obtain T S fs seg where p: "packed T S (ll_muxer h, ll_storage h) fs seg" "\<not> tail_done (ll_storage h) \<longrightarrow> fs \<noteq> []"
      and i: "ll_req h = Some r" "store_ok cf (ll_storage h)" "sto_chunklist (ll_storage h) = llhls_chunklist cf r"
      using unpublish.IH True unfolding llhls_inv_def by auto
    obtain m' s' seg' where u: "llhls_muxer_on_unpublish (ll_muxer h, ll_storage h) = (None, (m', s'))" "packed T S (m', s') [] seg'"
        "publisher_change\<^sup>*\<^sup>* (ll_storage h) s'" "fs = [] \<longrightarrow> s' = ll_storage h" "fs \<noteq> [] \<longrightarrow> tail_done s'"
      using unpublish_changes [OF p(1)] by blast
    have t: "tail_done s'" using u(4,5) p(2) by auto
    note c = store_ok_changes [OF u(3) i(2)]
    note d = store_ok_unpublish [OF conjunct1 [OF c] t]
    have "packed T S (m', storage_on_unpublish s') [] seg'" using packed_other [OF u(2)] d by (simp add: store_ok_def)
    then show ?thesis using True c d i by (auto simp: llhls_on_unpublish_def with_muxer_result [of llhls_muxer_on_unpublish, OF u(1)] llhls_inv_def)
  next
    case False
    then show ?thesis using unpublish.IH by (simp add: llhls_on_unpublish_def)
  qed
next
  case (audio h msg format)
  then show ?case using llhls_media_cases(1) [of msg format h] llhls_inv_media by (metis snd_conv)
next
  case (video h msg format)
  then show ?case using llhls_media_cases(2) [of msg format h] llhls_inv_media by (metis snd_conv)
qed


text \<open>The next part has the numbers that the hint gives.\<close>

lemma hinted_part:
  assumes "window_wf s" and "sto_segments s \<noteq> []"
  shows "let last = last (sto_segments s); s' = append_part payload d i c s in
        get_part (if lg_completed last then lg_msn last + 1 else lg_msn last) (if lg_completed last then 0 else int (length (lg_parts last))) s = None
        \<and> sto_latest_msn s' = (if lg_completed last then lg_msn last + 1 else lg_msn last)
        \<and> sto_latest_psn s' = (if lg_completed last then 0 else int (length (lg_parts last)))
        \<and> get_part_payload (sto_latest_msn s') (sto_latest_psn s') s' = Some payload"
proof -
  let ?l = "last (sto_segments s)" and ?a = "appended payload d i c s"
  define msn where "msn = (if lg_completed ?l then lg_msn ?l + 1 else lg_msn ?l)"
  define psn where "psn = (if lg_completed ?l then 0 else int (length (lg_parts ?l)))"
  have l: "?l \<in> set (sto_segments s)" using assms(2) by simp
  have none: "get_part msn psn s = None"
  proof (cases "lg_completed ?l")
    case True
    have "storage_find msn s = None"
    proof (rule ccontr)
      assume "storage_find msn s \<noteq> None"
      then obtain seg where "seg \<in> set (sto_segments s)" "lg_msn seg = msn" using find_iff [OF assms(1)] by blast
      then show False using msn_bounds [OF assms(1)] last_msn [OF assms] True by (fastforce simp: msn_def)
    qed
    then show ?thesis by (simp add: get_part_def)
  next
    case False
    then have "storage_find msn s = Some ?l" using iffD2 [OF find_iff [OF assms(1)]] l by (simp add: msn_def)
    then show ?thesis using False by (simp add: get_part_def psn_def)
  qed
  have a: "sto_latest_msn ?a = msn" "sto_latest_psn ?a = psn" "lg_msn (last (sto_segments ?a)) = msn"
    "\<exists>parts part. lg_parts (last (sto_segments ?a)) = parts @ [part] \<and> int (length parts) = psn \<and> lp_payload part = payload"
    using assms(2) last_msn [OF assms] by (auto simp: appended_def open_segment_def SrsLlHlsSegment_new_def msn_def psn_def Let_def)
  obtain k where k: "append_part payload d i c s = refresh_playlist (?a\<lparr>sto_segments := drop k (sto_segments ?a)\<rparr>)" "k < length (sto_segments ?a)"
    by (rule append_part_drop [OF assms(1), of payload d i c])
  define s' where "s' = append_part payload d i c s"
  have s': "sto_segments s' = drop k (sto_segments ?a)" "sto_latest_msn s' = msn" "sto_latest_psn s' = psn"
    using k(1) a(1,2) by (simp_all add: s'_def)
  have ne: "sto_segments s' \<noteq> []" "last (sto_segments s') = last (sto_segments ?a)" using k(2) s'(1) by simp_all
  have "window_wf s'" unfolding s'_def by (rule window_append_part [OF assms(1)])
  then have "storage_find msn s' = Some (last (sto_segments s'))" using iffD2 [OF find_iff] ne a(3) by (metis last_in_set)
  then have "get_part_payload msn psn s' = Some payload" using a(4) ne(2) by (auto simp: get_part_payload_def get_part_def nth_append)
  then show ?thesis using none s'(2,3) by (simp add: Let_def flip: msn_def psn_def s'_def)
qed


definition llhls_sample_frame :: SrsFormat where
  "llhls_sample_frame = llhls_sample\<lparr>fmt_vcodec := Some (SrsVideoCodecConfig_new\<lparr>vc_id := SrsVideoCodecIdAVC, sequenceParameterSetNALUnit := [0x67]\<rparr>),
     fmt_video := Some (SrsVideoFrame_new\<lparr>frame_type := SrsVideoAvcFrameTypeKeyFrame, avc_packet_type := SrsVideoAvcFrameTraitNALU, vf_samples := [[0x65]]\<rparr>)\<rparr>"


end
