(* ===== verification/Socket.thy ===== *)
theory Socket
  imports Prelude
begin

text \<open>
  The sockets and threads of \<^verbatim>\<open>src/src/app/srs_app_st.cpp\<close>. The operating system calls are
  parameters: \<open>os_recv\<close>, \<open>os_send\<close> and \<open>os_writev\<close> act on a kernel state \<open>'k\<close> and answer as
  \<^verbatim>\<open>recv(2)\<close>, \<^verbatim>\<open>send(2)\<close> and \<^verbatim>\<open>writev(2)\<close> do (some of the bytes, or an errno). The locales
  \<open>io_input\<close> and \<open>io_output\<close> state what the protocol stack relies on; \<^verbatim>\<open>SrsStSocket\<close> is shown to
  provide it.
\<close>

section \<open>The interface of the protocol stack to its transport\<close>

text \<open>\<^verbatim>\<open>ISrsProtocolReadWriter\<close>: the operations of the transport, over its state \<open>'io\<close>.\<close>

record 'io ISrsProtocolReadWriter =
  io_read :: "nat \<Rightarrow> 'io \<Rightarrow> (byte list \<times> 'io) result"
  io_read_fully :: "nat \<Rightarrow> 'io \<Rightarrow> (byte list \<times> 'io) result"
  io_write :: "byte list \<Rightarrow> 'io \<Rightarrow> (unit \<times> 'io) result"
  io_writev :: "byte list list \<Rightarrow> 'io \<Rightarrow> (unit \<times> 'io) result"
  io_recv_bytes :: "'io \<Rightarrow> int"

text \<open>
  What \<^verbatim>\<open>read\<close> promises: some of the bytes that are still to come, at least one and at most as many
  as asked for, in order; an error code when there are none.
\<close>

locale io_input =
  fixes io :: "'io ISrsProtocolReadWriter"
    and ok :: "'io \<Rightarrow> bool"
    and pending :: "'io \<Rightarrow> byte list"
  assumes read_some: "ok s \<Longrightarrow> 0 < n \<Longrightarrow> pending s \<noteq> [] \<Longrightarrow>
      \<exists>bs s'. io_read io n s = Inr (bs, s') \<and> bs \<noteq> [] \<and> length bs \<le> n \<and> pending s = bs @ pending s' \<and> ok s'"
    and read_end: "ok s \<Longrightarrow> pending s = [] \<Longrightarrow> \<exists>c. io_read io n s = Inl (Srs_error c)"
begin

lemma read_cases [consumes 2, case_names bytes ended]:
  assumes "ok s" and "0 < n"
  obtains (bytes) bs s' where "io_read io n s = Inr (bs, s')" "bs \<noteq> []" "length bs \<le> n"
      "pending s = bs @ pending s'" "ok s'"
    | (ended) c where "io_read io n s = Inl (Srs_error c)" "pending s = []"
  using read_some [OF assms] read_end [OF assms(1), of n] by (cases "pending s = []") auto

end

text \<open>
  What \<^verbatim>\<open>writev\<close> promises: all the bytes, in order, and the input is not touched.
\<close>

locale io_output = io_input io ok pending
  for io :: "'io ISrsProtocolReadWriter" and ok :: "'io \<Rightarrow> bool" and pending :: "'io \<Rightarrow> byte list" +
  fixes sent :: "'io \<Rightarrow> byte list"
  assumes writev_all: "ok s \<Longrightarrow> concat iovs \<noteq> [] \<Longrightarrow>
      \<exists>s'. io_writev io iovs s = Inr ((), s') \<and> sent s' = sent s @ concat iovs \<and> pending s' = pending s
        \<and> io_recv_bytes io s' = io_recv_bytes io s \<and> ok s'"

section \<open>SrsStSocket\<close>

text \<open>The answer of a system call: a count of bytes, or an errno of which it matters whether it is
  one of \<^verbatim>\<open>EAGAIN\<close>, \<^verbatim>\<open>EWOULDBLOCK\<close>, \<^verbatim>\<open>EINTR\<close>.\<close>

datatype 'a os_answer = Os_done 'a | Os_errno bool

record 'k SrsStSocket =
  stfd_valid :: bool
  rtm :: int
  stm :: int
  rbytes :: int
  sbytes :: int
  kernel :: 'k

abbreviation (input) SRS_UTIME_NO_TIMEOUT :: int where "SRS_UTIME_NO_TIMEOUT \<equiv> - 1"

definition SrsStSocket_new :: "bool \<Rightarrow> 'k \<Rightarrow> 'k SrsStSocket" where
  "SrsStSocket_new valid k = \<lparr>stfd_valid = valid, rtm = SRS_UTIME_NO_TIMEOUT, stm = SRS_UTIME_NO_TIMEOUT,
     rbytes = 0, sbytes = 0, kernel = k\<rparr>"

definition SrsStSocket_read ::
    "(nat \<Rightarrow> 'k \<Rightarrow> byte list os_answer \<times> 'k) \<Rightarrow> nat \<Rightarrow> 'k SrsStSocket \<Rightarrow> (byte list \<times> 'k SrsStSocket) result" where
  "SrsStSocket_read os_recv sz s =
     (if \<not> stfd_valid s then Inl Srs_abort
      else case os_recv sz (kernel s) of
             (Os_errno again, k) \<Rightarrow> Inl (Srs_error (if again then ERROR_SOCKET_TIMEOUT else ERROR_SOCKET_READ))
           | (Os_done bs, k) \<Rightarrow>
               if bs = [] then Inl (Srs_error ERROR_SOCKET_READ)
               else Inr (bs, s\<lparr>rbytes := rbytes s + int (length bs), kernel := k\<rparr>))"

text \<open>The loops below end because every round of a successful call moves at least one byte.\<close>

function read_fully_loop ::
    "(nat \<Rightarrow> 'k \<Rightarrow> byte list os_answer \<times> 'k) \<Rightarrow> nat \<Rightarrow> byte list \<Rightarrow> 'k \<Rightarrow> (byte list \<times> 'k) result" where
  "read_fully_loop os_recv sz acc k =
     (if length acc < sz
      then case os_recv (sz - length acc) k of
             (Os_errno again, k') \<Rightarrow>
               Inl (Srs_error (if again then ERROR_SOCKET_TIMEOUT else ERROR_SOCKET_READ_FULLY))
           | (Os_done bs, k') \<Rightarrow>
               if bs = [] then Inl (Srs_error ERROR_SOCKET_READ_FULLY)
               else read_fully_loop os_recv sz (acc @ bs) k'
      else Inr (acc, k))"
  by pat_completeness auto
termination
  by (relation "measure (\<lambda>(_, sz, acc, _). sz - length acc)") (auto intro!: diff_less_mono2)

declare read_fully_loop.simps [simp del]

definition SrsStSocket_read_fully ::
    "(nat \<Rightarrow> 'k \<Rightarrow> byte list os_answer \<times> 'k) \<Rightarrow> nat \<Rightarrow> 'k SrsStSocket \<Rightarrow> (byte list \<times> 'k SrsStSocket) result" where
  "SrsStSocket_read_fully os_recv sz s =
     (if \<not> stfd_valid s then Inl Srs_abort
      else case read_fully_loop os_recv sz [] (kernel s) of
             Inl e \<Rightarrow> Inl e
           | Inr (bs, k) \<Rightarrow> Inr (bs, s\<lparr>rbytes := rbytes s + int (length bs), kernel := k\<rparr>))"

text \<open>\<open>write_loop\<close> gets the bytes that are left; the answer of \<^verbatim>\<open>send\<close> says how many it took.\<close>

function write_loop ::
    "(byte list \<Rightarrow> 'k \<Rightarrow> nat os_answer \<times> 'k) \<Rightarrow> byte list \<Rightarrow> 'k \<Rightarrow> 'k result" where
  "write_loop os_send left k =
     (if left \<noteq> []
      then case os_send left k of
             (Os_errno again, k') \<Rightarrow>
               Inl (Srs_error (if again then ERROR_SOCKET_TIMEOUT else ERROR_SOCKET_WRITE))
           | (Os_done n, k') \<Rightarrow>
               if n = 0 then Inl (Srs_error ERROR_SOCKET_WRITE)
               else write_loop os_send (drop n left) k'
      else Inr k)"
  by pat_completeness auto
termination
  by (relation "measure (\<lambda>(_, left, _). length left)") auto

declare write_loop.simps [simp del]

definition SrsStSocket_write ::
    "(byte list \<Rightarrow> 'k \<Rightarrow> nat os_answer \<times> 'k) \<Rightarrow> byte list \<Rightarrow> 'k SrsStSocket \<Rightarrow> (unit \<times> 'k SrsStSocket) result" where
  "SrsStSocket_write os_send bs s =
     (if \<not> stfd_valid s then Inl Srs_abort
      else case write_loop os_send bs (kernel s) of
             Inl e \<Rightarrow> Inl e
           | Inr k \<Rightarrow> Inr ((), s\<lparr>sbytes := sbytes s + int (length bs), kernel := k\<rparr>))"

text \<open>Consuming \<open>n\<close> written bytes: whole vectors go, the next one is advanced.\<close>

fun iov_consume :: "nat \<Rightarrow> byte list list \<Rightarrow> byte list list" where
  "iov_consume n [] = []"
| "iov_consume n (v # iovs) =
     (if n \<ge> length v then iov_consume (n - length v) iovs
      else (if n > 0 then drop n v else v) # iovs)"

lemma length_concat_iov_consume: "length (concat (iov_consume n iovs)) = length (concat iovs) - n"
  by (induction n iovs rule: iov_consume.induct) auto

lemma length_iov_consume: "length (iov_consume n iovs) \<le> length iovs"
  by (induction n iovs rule: iov_consume.induct) auto

lemma iov_consume_all: "length (concat iovs) \<le> n \<Longrightarrow> iov_consume n iovs = []"
  by (induction n iovs rule: iov_consume.induct) auto

lemma concat_iov_consume: "concat (iov_consume n iovs) = drop n (concat iovs)"
  by (induction n iovs rule: iov_consume.induct) auto

lemma iov_consume_less:
  assumes "iovs \<noteq> []" and "n \<noteq> 0"
  shows "length (concat (iov_consume n iovs)) + length (iov_consume n iovs) < length (concat iovs) + length iovs"
proof (cases "concat iovs = []")
  case True
  then have "iov_consume n iovs = []" by (intro iov_consume_all) (simp only: list.size le0)
  with assms show ?thesis by simp
next
  case False
  then have "length (concat (iov_consume n iovs)) < length (concat iovs)"
    using assms(2) by (simp only: length_concat_iov_consume) simp
  with length_iov_consume [of n iovs] show ?thesis by linarith
qed

function writev_loop ::
    "(byte list list \<Rightarrow> 'k \<Rightarrow> nat os_answer \<times> 'k) \<Rightarrow> byte list list \<Rightarrow> nat \<Rightarrow> 'k \<Rightarrow> (nat \<times> 'k) result" where
  "writev_loop os_writev iovs written k =
     (if iovs \<noteq> []
      then case os_writev iovs k of
             (Os_errno again, k') \<Rightarrow>
               Inl (Srs_error (if again then ERROR_SOCKET_TIMEOUT else ERROR_SOCKET_WRITE))
           | (Os_done n, k') \<Rightarrow>
               if n = 0 then Inl (Srs_error ERROR_SOCKET_WRITE)
               else writev_loop os_writev (iov_consume n iovs) (written + n) k'
      else Inr (written, k))"
  by pat_completeness auto
termination
  by (relation "measure (\<lambda>(_, iovs, _, _). length (concat iovs) + length iovs)")
    (simp only: wf_measure, simp only: in_measure prod.case, rule iov_consume_less)

declare writev_loop.simps [simp del]

definition SrsStSocket_writev ::
    "(byte list list \<Rightarrow> 'k \<Rightarrow> nat os_answer \<times> 'k) \<Rightarrow> byte list list \<Rightarrow> 'k SrsStSocket \<Rightarrow> (unit \<times> 'k SrsStSocket) result" where
  "SrsStSocket_writev os_writev iovs s =
     (if \<not> stfd_valid s then Inl Srs_abort
      else case writev_loop os_writev iovs 0 (kernel s) of
             Inl e \<Rightarrow> Inl e
           | Inr (written, k) \<Rightarrow> Inr ((), s\<lparr>sbytes := sbytes s + int written, kernel := k\<rparr>))"

definition SrsStSocket_io ::
    "(nat \<Rightarrow> 'k \<Rightarrow> byte list os_answer \<times> 'k) \<Rightarrow> (byte list \<Rightarrow> 'k \<Rightarrow> nat os_answer \<times> 'k)
     \<Rightarrow> (byte list list \<Rightarrow> 'k \<Rightarrow> nat os_answer \<times> 'k) \<Rightarrow> 'k SrsStSocket ISrsProtocolReadWriter" where
  "SrsStSocket_io os_recv os_send os_writev =
     \<lparr>io_read = SrsStSocket_read os_recv, io_read_fully = SrsStSocket_read_fully os_recv,
      io_write = SrsStSocket_write os_send, io_writev = SrsStSocket_writev os_writev,
      io_recv_bytes = rbytes\<rparr>"


section \<open>What the socket provides\<close>

text \<open>
  What the manual pages of \<^verbatim>\<open>recv(2)\<close>, \<^verbatim>\<open>send(2)\<close> and \<^verbatim>\<open>writev(2)\<close> say of a connected stream
  socket that is not interrupted: \<open>incoming\<close> are the bytes the peer has sent and the program has not
  read, \<open>outgoing\<close> those accepted from the program, each call moving a part of them in order.
\<close>

locale stream_socket =
  fixes os_recv :: "nat \<Rightarrow> 'k \<Rightarrow> byte list os_answer \<times> 'k"
    and os_send :: "byte list \<Rightarrow> 'k \<Rightarrow> nat os_answer \<times> 'k"
    and os_writev :: "byte list list \<Rightarrow> 'k \<Rightarrow> nat os_answer \<times> 'k"
    and incoming :: "'k \<Rightarrow> byte list"
    and outgoing :: "'k \<Rightarrow> byte list"
  assumes recv_some: "0 < n \<Longrightarrow> incoming k \<noteq> [] \<Longrightarrow>
      \<exists>bs k'. os_recv n k = (Os_done bs, k') \<and> bs \<noteq> [] \<and> length bs \<le> n \<and> incoming k = bs @ incoming k'
        \<and> outgoing k' = outgoing k"
    and recv_none: "incoming k = [] \<Longrightarrow> fst (os_recv n k) = Os_done [] \<or> (\<exists>again. fst (os_recv n k) = Os_errno again)"
    and send_some: "bs \<noteq> [] \<Longrightarrow>
      \<exists>n k'. os_send bs k = (Os_done n, k') \<and> 0 < n \<and> n \<le> length bs \<and> outgoing k' = outgoing k @ take n bs
        \<and> incoming k' = incoming k"
    and writev_some: "concat iovs \<noteq> [] \<Longrightarrow>
      \<exists>n k'. os_writev iovs k = (Os_done n, k') \<and> 0 < n \<and> n \<le> length (concat iovs)
        \<and> outgoing k' = outgoing k @ take n (concat iovs) \<and> incoming k' = incoming k"
begin

abbreviation sock_io :: "'k SrsStSocket ISrsProtocolReadWriter" where
  "sock_io \<equiv> SrsStSocket_io os_recv os_send os_writev"

lemma read_delivers:
  assumes "stfd_valid s" and "0 < n" and "incoming (kernel s) \<noteq> []"
  shows "\<exists>bs s'. SrsStSocket_read os_recv n s = Inr (bs, s') \<and> bs \<noteq> [] \<and> length bs \<le> n
    \<and> incoming (kernel s) = bs @ incoming (kernel s') \<and> outgoing (kernel s') = outgoing (kernel s)
    \<and> rbytes s' = rbytes s + int (length bs) \<and> stfd_valid s'"
  using recv_some [OF assms(2,3)] assms(1) by (auto simp: SrsStSocket_read_def)

lemma read_ends:
  assumes "stfd_valid s" and "incoming (kernel s) = []"
  shows "\<exists>c. SrsStSocket_read os_recv n s = Inl (Srs_error c)"
  using recv_none [OF assms(2), of n] assms(1)
  by (cases "os_recv n (kernel s)") (auto simp: SrsStSocket_read_def)

lemma read_fully_loop_ok:
  assumes "sz \<le> length acc + length (incoming k)" and "length acc \<le> sz"
  shows "\<exists>k'. read_fully_loop os_recv sz acc k = Inr (acc @ take (sz - length acc) (incoming k), k')
    \<and> incoming k' = drop (sz - length acc) (incoming k) \<and> outgoing k' = outgoing k"
  using assms
proof (induction "sz - length acc" arbitrary: acc k rule: less_induct)
  case less
  show ?case
  proof (cases "length acc < sz")
    case False
    with less.prems show ?thesis by (auto simp: read_fully_loop.simps)
  next
    case True
    with less.prems have "incoming k \<noteq> []" by auto
    with recv_some [of "sz - length acc" k] True obtain bs k1 where r:
      "os_recv (sz - length acc) k = (Os_done bs, k1)" "bs \<noteq> []" "length bs \<le> sz - length acc"
      "incoming k = bs @ incoming k1" "outgoing k1 = outgoing k" by auto
    have "sz - length (acc @ bs) < sz - length acc" using True r(2) by (auto intro!: diff_less_mono2)
    moreover have "sz \<le> length (acc @ bs) + length (incoming k1)" "length (acc @ bs) \<le> sz"
      using less.prems r(3,4) True by (auto simp: le_diff_conv2)
    ultimately obtain k2 where
      "read_fully_loop os_recv sz (acc @ bs) k1 = Inr ((acc @ bs) @ take (sz - length (acc @ bs)) (incoming k1), k2)"
      "incoming k2 = drop (sz - length (acc @ bs)) (incoming k1)" "outgoing k2 = outgoing k1"
      using less.hyps [of "acc @ bs" k1] by blast
    then show ?thesis using True r by (subst read_fully_loop.simps) auto
  qed
qed

lemma writev_loop_ok:
  assumes "iovs \<noteq> [] \<longrightarrow> concat iovs \<noteq> []"
  shows "\<exists>k'. writev_loop os_writev iovs w k = Inr (w + length (concat iovs), k')
    \<and> outgoing k' = outgoing k @ concat iovs \<and> incoming k' = incoming k"
  using assms
proof (induction "length (concat iovs)" arbitrary: iovs w k rule: less_induct)
  case less
  show ?case
  proof (cases "iovs = []")
    case True
    then show ?thesis by (simp add: writev_loop.simps)
  next
    case False
    with less.prems have ne: "concat iovs \<noteq> []" by simp
    with writev_some obtain n k1 where r: "os_writev iovs k = (Os_done n, k1)" "0 < n"
      "n \<le> length (concat iovs)" "outgoing k1 = outgoing k @ take n (concat iovs)" "incoming k1 = incoming k"
      by blast
    let ?iovs = "iov_consume n iovs"
    have len: "length (concat ?iovs) = length (concat iovs) - n" by (rule length_concat_iov_consume)
    have cat: "concat ?iovs = drop n (concat iovs)" by (rule concat_iov_consume)
    have "length (concat ?iovs) < length (concat iovs)" using len ne r by (cases "concat iovs") auto
    moreover have "?iovs \<noteq> [] \<longrightarrow> concat ?iovs \<noteq> []"
      by (metis cat drop_eq_Nil iov_consume_all)
    ultimately obtain k2 where "writev_loop os_writev ?iovs (w + n) k1 = Inr (w + n + length (concat ?iovs), k2)"
      "outgoing k2 = outgoing k1 @ concat ?iovs" "incoming k2 = incoming k1"
      using less.hyps [of ?iovs "w + n" k1] by blast
    then show ?thesis using False r len cat
      by (subst writev_loop.simps) auto
  qed
qed

lemma write_loop_ok:
  "\<exists>k'. write_loop os_send bs k = Inr k' \<and> outgoing k' = outgoing k @ bs \<and> incoming k' = incoming k"
proof (induction "length bs" arbitrary: bs k rule: less_induct)
  case less
  show ?case
  proof (cases "bs = []")
    case False
    with send_some obtain n k1 where r: "os_send bs k = (Os_done n, k1)" "0 < n" "n \<le> length bs"
      "outgoing k1 = outgoing k @ take n bs" "incoming k1 = incoming k" by blast
    have "length (drop n bs) < length bs" using r False by simp
    from less.hyps [OF this, of k1] r False show ?thesis
      by (subst write_loop.simps) auto
  qed (simp add: write_loop.simps)
qed

end


text \<open>
  A concrete kernel: the peer's bytes arrive in segments, and each call that writes takes at most
  as many bytes as the next entry of a list of free buffer sizes says (everything once it is used up).
\<close>

record tcp =
  tcp_in :: "byte list list"
  tcp_room :: "nat list"
  tcp_out :: "byte list"

fun tcp_recv :: "nat \<Rightarrow> tcp \<Rightarrow> byte list os_answer \<times> tcp" where
  "tcp_recv n k =
     (case filter (\<lambda>seg. seg \<noteq> []) (tcp_in k) of
        [] \<Rightarrow> (Os_done [], k)
      | seg # segs \<Rightarrow> (Os_done (take n seg), k\<lparr>tcp_in := drop n seg # segs\<rparr>))"

definition tcp_send :: "byte list \<Rightarrow> tcp \<Rightarrow> nat os_answer \<times> tcp" where
  "tcp_send bs k =
     (case tcp_room k of
        [] \<Rightarrow> (Os_done (length bs), k\<lparr>tcp_out := tcp_out k @ bs\<rparr>)
      | room # rooms \<Rightarrow>
          let n = min (max 1 room) (length bs)
          in (Os_done n, k\<lparr>tcp_out := tcp_out k @ take n bs, tcp_room := rooms\<rparr>))"

definition tcp_writev :: "byte list list \<Rightarrow> tcp \<Rightarrow> nat os_answer \<times> tcp" where
  "tcp_writev iovs k = tcp_send (concat iovs) k"

lemma concat_filter_nonempty: "concat (filter (\<lambda>x. x \<noteq> []) xss) = concat xss"
  by (induction xss) auto

lemma tcp_send_some:
  "bs \<noteq> [] \<Longrightarrow> \<exists>n k'. tcp_send bs k = (Os_done n, k') \<and> 0 < n \<and> n \<le> length bs
     \<and> tcp_out k' = tcp_out k @ take n bs \<and> concat (tcp_in k') = concat (tcp_in k)"
  by (auto simp: tcp_send_def Let_def split: list.split)

interpretation tcp: stream_socket tcp_recv tcp_send tcp_writev "\<lambda>k. concat (tcp_in k)" tcp_out
proof unfold_locales
  fix n :: nat and k :: tcp
  assume n: "0 < n" and ne: "concat (tcp_in k) \<noteq> []"
  from ne have "filter (\<lambda>seg. seg \<noteq> []) (tcp_in k) \<noteq> []" by (metis concat.simps(1) concat_filter_nonempty)
  then obtain seg segs where f: "filter (\<lambda>seg. seg \<noteq> []) (tcp_in k) = seg # segs"
    by (cases "filter (\<lambda>seg. seg \<noteq> []) (tcp_in k)") auto
  then have "seg \<in> set (filter (\<lambda>seg. seg \<noteq> []) (tcp_in k))" by (simp only: list.set_intros)
  then have "seg \<noteq> []" by simp
  moreover have "concat (tcp_in k) = seg @ concat segs" using f concat_filter_nonempty [of "tcp_in k"] by simp
  ultimately show "\<exists>bs k'. tcp_recv n k = (Os_done bs, k') \<and> bs \<noteq> [] \<and> length bs \<le> n
      \<and> concat (tcp_in k) = bs @ concat (tcp_in k') \<and> tcp_out k' = tcp_out k"
    using f n by simp
next
  fix k :: tcp and n
  assume "concat (tcp_in k) = []"
  then have "filter (\<lambda>seg. seg \<noteq> []) (tcp_in k) = []" by (simp add: filter_empty_conv)
  then have "tcp_recv n k = (Os_done [], k)" by (simp only: tcp_recv.simps list.case)
  then show "fst (tcp_recv n k) = Os_done [] \<or> (\<exists>again. fst (tcp_recv n k) = Os_errno again)" by (simp only: fst_conv simp_thms)
next
  fix bs :: "byte list" and k
  assume "bs \<noteq> []"
  then show "\<exists>n k'. tcp_send bs k = (Os_done n, k') \<and> 0 < n \<and> n \<le> length bs \<and> tcp_out k' = tcp_out k @ take n bs
      \<and> concat (tcp_in k') = concat (tcp_in k)"
    by (rule tcp_send_some)
next
  fix iovs :: "byte list list" and k
  assume "concat iovs \<noteq> []"
  from tcp_send_some [OF this]
  show "\<exists>n k'. tcp_writev iovs k = (Os_done n, k') \<and> 0 < n \<and> n \<le> length (concat iovs)
      \<and> tcp_out k' = tcp_out k @ take n (concat iovs) \<and> concat (tcp_in k') = concat (tcp_in k)"
    unfolding tcp_writev_def .
qed


text \<open>A socket on such a kernel is a transport the protocol stack can use.\<close>

sublocale stream_socket \<subseteq> io_output sock_io stfd_valid "\<lambda>s. incoming (kernel s)" "\<lambda>s. outgoing (kernel s)"
proof unfold_locales
  fix s :: "'k SrsStSocket" and n :: nat
  assume s: "stfd_valid s"
  show "0 < n \<Longrightarrow> incoming (kernel s) \<noteq> [] \<Longrightarrow> \<exists>bs s'. io_read sock_io n s = Inr (bs, s') \<and> bs \<noteq> []
      \<and> length bs \<le> n \<and> incoming (kernel s) = bs @ incoming (kernel s') \<and> stfd_valid s'"
    using read_delivers [OF s, of n] by (auto simp: SrsStSocket_io_def)
  show "incoming (kernel s) = [] \<Longrightarrow> \<exists>c. io_read sock_io n s = Inl (Srs_error c)"
    using read_ends [OF s] by (simp add: SrsStSocket_io_def)
  fix iovs :: "byte list list"
  assume "concat iovs \<noteq> []"
  then have "iovs \<noteq> [] \<longrightarrow> concat iovs \<noteq> []" by blast
  from writev_loop_ok [OF this, of 0 "kernel s"] s
  show "\<exists>s'. io_writev sock_io iovs s = Inr ((), s') \<and> outgoing (kernel s') = outgoing (kernel s) @ concat iovs
      \<and> incoming (kernel s') = incoming (kernel s) \<and> io_recv_bytes sock_io s' = io_recv_bytes sock_io s \<and> stfd_valid s'"
    by (auto simp: SrsStSocket_io_def SrsStSocket_writev_def)
qed

section \<open>SrsSTCoroutine\<close>

text \<open>
  A worker thread. \<open>trd_err\<close> is the error that \<^verbatim>\<open>pull\<close> hands to the worker's loops; \<open>running\<close> says
  that the pthread runs the handler (\<^verbatim>\<open>pfn\<close> has not finished). The result of \<^verbatim>\<open>pthread_create\<close> and of
  the handler are parameters.
\<close>

record SrsSTCoroutine =
  started :: bool
  interrupted :: bool
  disposed :: bool
  cycle_done :: bool
  trd_err :: "failure option"
  running :: bool

definition SrsSTCoroutine_new :: SrsSTCoroutine where
  "SrsSTCoroutine_new = \<lparr>started = False, interrupted = False, disposed = False, cycle_done = False,
     trd_err = None, running = False\<rparr>"

definition coroutine_start :: "bool \<Rightarrow> SrsSTCoroutine \<Rightarrow> failure option \<times> SrsSTCoroutine" where
  "coroutine_start created c =
     (if started c \<or> disposed c
      then let err = Srs_error (if disposed c then ERROR_THREAD_DISPOSED else ERROR_THREAD_STARTED)
           in (Some err, if trd_err c = None then c\<lparr>trd_err := Some err\<rparr> else c)
      else if \<not> created
      then (Some (Srs_error ERROR_THREAD_CREATE), c\<lparr>trd_err := Some (Srs_error ERROR_THREAD_CREATE)\<rparr>)
      else (None, c\<lparr>started := True, running := True\<rparr>))"

definition coroutine_interrupt :: "SrsSTCoroutine \<Rightarrow> SrsSTCoroutine" where
  "coroutine_interrupt c =
     (if \<not> started c \<or> interrupted c \<or> cycle_done c then c
      else let c1 = c\<lparr>interrupted := True\<rparr>
           in if trd_err c1 = None then c1\<lparr>trd_err := Some (Srs_error ERROR_THREAD_INTERRUPED)\<rparr> else c1)"

definition coroutine_pull :: "SrsSTCoroutine \<Rightarrow> failure option" where
  "coroutine_pull c = trd_err c"

text \<open>\<^verbatim>\<open>cycle\<close> and the rest of \<^verbatim>\<open>pfn\<close>, once the handler has returned \<open>r\<close>.\<close>

definition coroutine_finish :: "failure option \<Rightarrow> SrsSTCoroutine \<Rightarrow> SrsSTCoroutine" where
  "coroutine_finish r c =
     (let c1 = (if r = None then c\<lparr>cycle_done := True\<rparr> else c);
          c2 = (if trd_err c1 = None then c1\<lparr>trd_err := r\<rparr> else c1)
      in c2\<lparr>running := False\<rparr>)"

text \<open>
  \<^verbatim>\<open>stop\<close> in its two halves, since the worker goes on between them: it marks the thread disposed and
  interrupts it, then joins it (the second half runs when the worker has ended) and sets the error
  of a worker that ended without one.
\<close>

definition coroutine_stop_begin :: "SrsSTCoroutine \<Rightarrow> SrsSTCoroutine" where
  "coroutine_stop_begin c = (if disposed c then c else coroutine_interrupt (c\<lparr>disposed := True\<rparr>))"

definition coroutine_stop_end :: "SrsSTCoroutine \<Rightarrow> SrsSTCoroutine" where
  "coroutine_stop_end c =
     (if trd_err c = None \<and> \<not> cycle_done c then c\<lparr>trd_err := Some (Srs_error ERROR_THREAD_TERMINATED)\<rparr> else c)"

text \<open>The interleavings of the owner (start, interrupt, stop) and of the worker (finish).\<close>

inductive coroutine_step :: "SrsSTCoroutine \<Rightarrow> SrsSTCoroutine \<Rightarrow> bool" where
  start: "coroutine_step c (snd (coroutine_start created c))"
| interrupt: "coroutine_step c (coroutine_interrupt c)"
| finish: "running c \<Longrightarrow> coroutine_step c (coroutine_finish r c)"
| stop_begin: "coroutine_step c (coroutine_stop_begin c)"
| stop_end: "disposed c \<Longrightarrow> \<not> running c \<Longrightarrow> coroutine_step c (coroutine_stop_end c)"

inductive coroutine_reachable :: "SrsSTCoroutine \<Rightarrow> bool" where
  init: "coroutine_reachable SrsSTCoroutine_new"
| step: "coroutine_reachable c \<Longrightarrow> coroutine_step c c' \<Longrightarrow> coroutine_reachable c'"

lemmas coroutine_defs = coroutine_start_def coroutine_interrupt_def coroutine_finish_def
  coroutine_stop_begin_def coroutine_stop_end_def Let_def

text \<open>An error once set is never replaced.\<close>

lemma coroutine_step_err:
  "coroutine_step c c' \<Longrightarrow> trd_err c = Some e \<Longrightarrow> started c \<Longrightarrow> trd_err c' = Some e"
  by (cases rule: coroutine_step.cases, assumption) (simp_all add: coroutine_defs)

definition coroutine_inv :: "SrsSTCoroutine \<Rightarrow> bool" where
  "coroutine_inv c \<longleftrightarrow>
     (interrupted c \<longrightarrow> trd_err c \<noteq> None) \<and> (running c \<longrightarrow> started c \<and> \<not> cycle_done c)
     \<and> (disposed c \<and> running c \<longrightarrow> trd_err c \<noteq> None)
     \<and> (cycle_done c \<longrightarrow> started c)"

lemma inv_start: "coroutine_inv c \<Longrightarrow> coroutine_inv (snd (coroutine_start created c))"
  by (auto simp: coroutine_inv_def coroutine_start_def Let_def)

lemma inv_interrupt: "coroutine_inv c \<Longrightarrow> coroutine_inv (coroutine_interrupt c)"
  by (auto simp: coroutine_inv_def coroutine_interrupt_def Let_def)

lemma inv_finish: "coroutine_inv c \<Longrightarrow> running c \<Longrightarrow> coroutine_inv (coroutine_finish r c)"
  by (auto simp: coroutine_inv_def coroutine_finish_def Let_def)

lemma inv_stop_begin: "coroutine_inv c \<Longrightarrow> coroutine_inv (coroutine_stop_begin c)"
  by (auto simp: coroutine_inv_def coroutine_stop_begin_def coroutine_interrupt_def Let_def)

lemma inv_stop_end: "coroutine_inv c \<Longrightarrow> coroutine_inv (coroutine_stop_end c)"
  by (auto simp: coroutine_inv_def coroutine_stop_end_def)

lemma coroutine_inv_reachable: "coroutine_reachable c \<Longrightarrow> coroutine_inv c"
proof (induction rule: coroutine_reachable.induct)
  case init
  then show ?case by (simp add: coroutine_inv_def SrsSTCoroutine_new_def)
next
  case (step c c')
  from step.hyps(2) step.IH show ?case
    by (cases rule: coroutine_step.cases)
      (simp_all add: inv_start inv_interrupt inv_finish inv_stop_begin inv_stop_end)
qed


section \<open>Properties\<close>

text \<open>C25. \<^verbatim>\<open>SrsStSocket::writev\<close> and \<^verbatim>\<open>write\<close> send everything: on a socket whose system calls may take
  any non-empty part of what they are given, the loops over the partial writes end, each byte of the
  vectors is accepted exactly once and in order, and \<^verbatim>\<open>sbytes\<close> counts them.\<close>

theorem socket_writes_everything:
  assumes "stream_socket os_recv os_send os_writev incoming outgoing" and "stfd_valid s"
    and "concat iovs \<noteq> []"
  shows "(\<exists>s'. SrsStSocket_writev os_writev iovs s = Inr ((), s')
      \<and> outgoing (kernel s') = outgoing (kernel s) @ concat iovs
      \<and> sbytes s' = sbytes s + int (length (concat iovs)))
    \<and> (\<exists>s'. SrsStSocket_write os_send bs s = Inr ((), s')
      \<and> outgoing (kernel s') = outgoing (kernel s) @ bs \<and> sbytes s' = sbytes s + int (length bs))"
proof -
  have "iovs \<noteq> [] \<longrightarrow> concat iovs \<noteq> []" using assms(3) by blast
  from stream_socket.writev_loop_ok [OF assms(1) this, of 0 "kernel s"]
    stream_socket.write_loop_ok [OF assms(1), of bs "kernel s"] assms(2)
  show ?thesis by (auto simp: SrsStSocket_writev_def SrsStSocket_write_def)
qed

theorem socket_writes_everything_witness:
  "\<exists>s'. SrsStSocket_writev tcp_writev [[1, 2, 3], [4, 5]]
      (SrsStSocket_new True \<lparr>tcp_in = [], tcp_room = [2, 1], tcp_out = []\<rparr>) = Inr ((), s')
    \<and> tcp_out (kernel s') = [1, 2, 3, 4, 5] \<and> sbytes s' = 5"
  using socket_writes_everything [OF tcp.stream_socket_axioms,
      of "SrsStSocket_new True \<lparr>tcp_in = [], tcp_room = [2, 1], tcp_out = []\<rparr>" "[[1, 2, 3], [4, 5]]" "[]"]
  by (simp add: SrsStSocket_new_def)

text \<open>\<^verbatim>\<open>SrsStSocket::read_fully\<close> returns exactly the next \<open>size\<close> bytes of the stream when that
  many arrive, however the kernel cuts them into segments, and advances \<^verbatim>\<open>rbytes\<close> by them.\<close>

theorem socket_read_fully_exact:
  assumes "stream_socket os_recv os_send os_writev incoming outgoing" and "stfd_valid s"
    and "sz \<le> length (incoming (kernel s))"
  shows "\<exists>s'. SrsStSocket_read_fully os_recv sz s = Inr (take sz (incoming (kernel s)), s')
    \<and> incoming (kernel s') = drop sz (incoming (kernel s)) \<and> rbytes s' = rbytes s + int sz"
  using stream_socket.read_fully_loop_ok [OF assms(1), of sz "[]" "kernel s"] assms(2,3)
  by (auto simp: SrsStSocket_read_fully_def)

theorem socket_read_fully_exact_witness:
  "\<exists>s'. SrsStSocket_read_fully tcp_recv 3
      (SrsStSocket_new True \<lparr>tcp_in = [[1], [], [2, 3, 4]], tcp_room = [], tcp_out = []\<rparr>) = Inr ([1, 2, 3], s')
    \<and> rbytes s' = 3"
  using socket_read_fully_exact [OF tcp.stream_socket_axioms,
      of "SrsStSocket_new True \<lparr>tcp_in = [[1], [], [2, 3, 4]], tcp_room = [], tcp_out = []\<rparr>" 3]
  by (auto simp: SrsStSocket_new_def)



end
