(* ===== verification/FastStream.thy ===== *)
theory FastStream
  imports Socket
begin

text \<open>
  \<^verbatim>\<open>SrsFastStream\<close>, the receive buffer of \<^verbatim>\<open>src/src/protocol/srs_protocol_stream.cpp\<close>: a fixed
  region that is refilled from the transport. \<open>fs_data\<close> are the bytes between \<^verbatim>\<open>buffer\<close> and
  \<^verbatim>\<open>end\<close>, \<open>fs_p\<close> the offset of \<^verbatim>\<open>p\<close>, \<open>fs_nb\<close> the size of the region. What its users see is one
  byte stream: the bytes that are buffered, followed by those the transport has still to deliver.
\<close>

abbreviation (input) SRS_DEFAULT_RECV_BUFFER_SIZE :: nat where "SRS_DEFAULT_RECV_BUFFER_SIZE \<equiv> 131072"

record SrsFastStream =
  fs_data :: "byte list"
  fs_p :: nat
  fs_nb :: nat

definition SrsFastStream_new :: "nat \<Rightarrow> SrsFastStream" where
  "SrsFastStream_new sz =
     \<lparr>fs_data = [], fs_p = 0, fs_nb = (if sz \<noteq> 0 then sz else SRS_DEFAULT_RECV_BUFFER_SIZE)\<rparr>"

definition fs_size :: "SrsFastStream \<Rightarrow> int" where
  "fs_size fs = int (length (fs_data fs)) - int (fs_p fs)"

definition fs_bytes :: "SrsFastStream \<Rightarrow> byte list" where
  "fs_bytes fs = drop (fs_p fs) (fs_data fs)"

definition fs_read_1byte :: "SrsFastStream \<Rightarrow> (byte \<times> SrsFastStream) result" where
  "fs_read_1byte fs =
     (if fs_size fs \<ge> 1 then Inr (fs_data fs ! fs_p fs, fs\<lparr>fs_p := fs_p fs + 1\<rparr>) else Inl Srs_abort)"

definition fs_read_slice :: "int \<Rightarrow> SrsFastStream \<Rightarrow> (byte list \<times> SrsFastStream) result" where
  "fs_read_slice sz fs =
     (if sz \<ge> 0 \<and> fs_size fs \<ge> sz \<and> int (fs_p fs) + sz \<ge> 0
      then Inr (take (nat sz) (fs_bytes fs), fs\<lparr>fs_p := fs_p fs + nat sz\<rparr>)
      else Inl Srs_abort)"

definition fs_skip :: "int \<Rightarrow> SrsFastStream \<Rightarrow> (unit \<times> SrsFastStream) result" where
  "fs_skip sz fs =
     (if fs_size fs \<ge> sz \<and> int (fs_p fs) + sz \<ge> 0
      then Inr ((), fs\<lparr>fs_p := nat (int (fs_p fs) + sz)\<rparr>)
      else Inl Srs_abort)"

text \<open>The loop of \<^verbatim>\<open>grow\<close>: it ends since each round must have read something.\<close>

function grow_loop :: "'io ISrsProtocolReadWriter \<Rightarrow> int \<Rightarrow> SrsFastStream \<times> 'io
    \<Rightarrow> (unit \<times> (SrsFastStream \<times> 'io)) result" where
  "grow_loop io required_size (fs, s) =
     (if fs_size fs < required_size
      then case io_read io (fs_nb fs - length (fs_data fs)) s of
             Inl e \<Rightarrow> Inl e
           | Inr (bs, s') \<Rightarrow>
               if length bs > 0 then grow_loop io required_size (fs\<lparr>fs_data := fs_data fs @ bs\<rparr>, s')
               else Inl Srs_abort
      else Inr ((), (fs, s)))"
  by pat_completeness auto
termination
  by (relation "measure (\<lambda>(_, required_size, (fs, _)). nat (required_size - fs_size fs))")
    (auto simp: fs_size_def)

declare grow_loop.simps [simp del]

definition fs_make_room :: "SrsFastStream \<Rightarrow> SrsFastStream" where
  "fs_make_room fs =
     (let nb_exists_bytes = fs_size fs
      in if nb_exists_bytes = 0 then fs\<lparr>fs_data := [], fs_p := 0\<rparr>
         else if nb_exists_bytes < int (fs_nb fs) \<and> fs_p fs > 0
         then fs\<lparr>fs_data := fs_bytes fs, fs_p := 0\<rparr>
         else fs)"

definition fs_grow :: "'io ISrsProtocolReadWriter \<Rightarrow> int \<Rightarrow> SrsFastStream \<times> 'io
    \<Rightarrow> (unit \<times> (SrsFastStream \<times> 'io)) result" where
  "fs_grow io required_size st =
     (let fs = fst st in
      if fs_size fs \<ge> required_size then Inr ((), st)
      else if \<not> required_size > 0 then Inl Srs_abort
      else let nb_free_space = int (fs_nb fs) - int (length (fs_data fs));
               nb_exists_bytes = fs_size fs
           in if \<not> nb_exists_bytes \<ge> 0 then Inl Srs_abort
              else if nb_exists_bytes + nb_free_space < required_size
              then let fs' = fs_make_room fs;
                       nb_free_space' = int (fs_nb fs') - int (length (fs_data fs'))
                   in if nb_exists_bytes + nb_free_space' < required_size
                      then Inl (Srs_error ERROR_READER_BUFFER_OVERFLOW)
                      else grow_loop io required_size (fs', snd st)
              else grow_loop io required_size st)"

text \<open>
  The pair that every user of the buffer runs: make sure that \<open>n\<close> bytes are there, take them.
\<close>

definition fs_fetch :: "'io ISrsProtocolReadWriter \<Rightarrow> nat \<Rightarrow> SrsFastStream \<times> 'io
    \<Rightarrow> (byte list \<times> (SrsFastStream \<times> 'io)) result" where
  "fs_fetch io n = bnd (fs_grow io (int n)) (\<lambda>_ st.
     case fs_read_slice (int n) (fst st) of Inl e \<Rightarrow> Inl e | Inr (bs, fs) \<Rightarrow> Inr (bs, (fs, snd st)))"

section \<open>The stream behind the buffer\<close>

definition fs_wf :: "SrsFastStream \<Rightarrow> bool" where
  "fs_wf fs \<longleftrightarrow> fs_p fs \<le> length (fs_data fs) \<and> length (fs_data fs) \<le> fs_nb fs"

lemma fs_size_wf: "fs_wf fs \<Longrightarrow> fs_size fs = int (length (fs_bytes fs))"
  by (auto simp: fs_wf_def fs_size_def fs_bytes_def)

lemma fs_make_room_wf [simp]: "fs_wf fs \<Longrightarrow> fs_wf (fs_make_room fs)"
  by (auto simp: fs_make_room_def fs_wf_def fs_bytes_def Let_def)

lemma fs_make_room_bytes [simp]: "fs_wf fs \<Longrightarrow> fs_bytes (fs_make_room fs) = fs_bytes fs"
  by (auto simp: fs_make_room_def fs_wf_def fs_bytes_def fs_size_def Let_def)

lemma fs_make_room_nb [simp]: "fs_nb (fs_make_room fs) = fs_nb fs"
  by (auto simp: fs_make_room_def Let_def)

text \<open>Making room gives all of the region that the buffered bytes do not need.\<close>

lemma fs_make_room_length:
  "fs_wf fs \<Longrightarrow> length (fs_data (fs_make_room fs)) = length (fs_bytes fs)"
  by (auto simp: fs_make_room_def fs_wf_def fs_bytes_def fs_size_def Let_def)

context io_input
begin

abbreviation stream :: "SrsFastStream \<times> 'io \<Rightarrow> byte list" where
  "stream st \<equiv> fs_bytes (fst st) @ pending (snd st)"

abbreviation stream_ok :: "SrsFastStream \<times> 'io \<Rightarrow> bool" where
  "stream_ok st \<equiv> fs_wf (fst st) \<and> ok (snd st)"

text \<open>
  What a refill comes to: either the required bytes are buffered and the stream is unchanged, or the
  stream has less than that and the transport's error is returned.
\<close>

definition grown :: "int \<Rightarrow> SrsFastStream \<times> 'io \<Rightarrow> (unit \<times> (SrsFastStream \<times> 'io)) result \<Rightarrow> bool" where
  "grown required st r \<longleftrightarrow>
     (case r of
        Inl e \<Rightarrow> length (stream st) < nat required \<and> (\<exists>c. e = Srs_error c)
      | Inr (_, st') \<Rightarrow> stream st' = stream st \<and> stream_ok st' \<and> fs_nb (fst st') = fs_nb (fst st)
          \<and> required \<le> fs_size (fst st'))"

lemma grown_cong:
  "stream st1 = stream st2 \<Longrightarrow> fs_nb (fst st1) = fs_nb (fst st2) \<Longrightarrow> grown required st1 r = grown required st2 r"
  unfolding grown_def by (simp only:)

lemma grow_loop_grown:
  assumes "fs_wf fs" and "ok s" and "required \<le> fs_size fs + (int (fs_nb fs) - int (length (fs_data fs)))"
  shows "grown required (fs, s) (grow_loop io required (fs, s))"
  using assms
proof (induction "nat (required - fs_size fs)" arbitrary: fs s rule: less_induct)
  case less
  show ?case
  proof (cases "fs_size fs < required")
    case False
    then show ?thesis using less.prems by (subst grow_loop.simps) (simp add: grown_def)
  next
    case True
    let ?n = "fs_nb fs - length (fs_data fs)"
    have n: "0 < ?n" using less.prems True by (auto simp: fs_wf_def)
    from less.prems(2) n show ?thesis
    proof (cases rule: read_cases)
      case (bytes bs s')
      let ?fs = "fs\<lparr>fs_data := fs_data fs @ bs\<rparr>"
      have "grown required (?fs, s') (grow_loop io required (?fs, s'))"
        using less.prems bytes n True by (intro less.hyps) (auto simp: fs_size_def fs_wf_def)
      moreover have "stream (?fs, s') = stream (fs, s)"
        using less.prems(1) bytes by (simp add: fs_bytes_def fs_wf_def)
      ultimately have "grown required (fs, s) (grow_loop io required (?fs, s'))"
        using grown_cong [of "(?fs, s')" "(fs, s)"] by simp
      then show ?thesis using True bytes by (subst grow_loop.simps) simp
    next
      case (ended c)
      then show ?thesis using less.prems True
        by (subst grow_loop.simps) (simp add: grown_def fs_size_wf zless_nat_eq_int_zless)
    qed
  qed
qed

text \<open>\<^verbatim>\<open>grow\<close> gets the bytes whenever the region can hold them and the stream has them.\<close>

lemma grow_grown:
  assumes "stream_ok st" and "required \<le> int (fs_nb (fst st))"
  shows "grown required st (fs_grow io required st)"
proof -
  obtain fs s where st: "st = (fs, s)" by (cases st)
  let ?fs = "fs_make_room fs"
  have wf: "fs_wf fs" "ok s" "fs_wf ?fs" "fs_size ?fs = fs_size fs" "fs_size fs \<ge> 0"
    using assms st by (auto simp: fs_size_wf)
  have room: "required \<le> fs_size ?fs + (int (fs_nb ?fs) - int (length (fs_data ?fs)))"
    using assms st wf by (simp add: fs_make_room_length fs_size_wf)
  have "grown required (fs, s) (grow_loop io required (?fs, s))"
    using grow_loop_grown [OF wf(3,2) room] wf grown_cong [of "(?fs, s)" "(fs, s)"] by simp
  then show ?thesis
    using st wf room assms grow_loop_grown [OF wf(1,2), of required]
    by (auto simp: fs_grow_def Let_def) (auto simp: grown_def)
qed

lemma grow_ok:
  assumes "stream_ok st" and "required \<le> int (fs_nb (fst st))" and "nat required \<le> length (stream st)"
  shows "\<exists>st'. fs_grow io required st = Inr ((), st') \<and> stream st' = stream st \<and> stream_ok st'
    \<and> fs_nb (fst st') = fs_nb (fst st) \<and> required \<le> fs_size (fst st')"
  using grow_grown [OF assms(1,2)] assms(3) by (auto simp: grown_def split: sum.splits)

lemma grow_overflow:
  assumes "stream_ok st" and "int (fs_nb (fst st)) < required"
  shows "fs_grow io required st = Inl (Srs_error ERROR_READER_BUFFER_OVERFLOW)"
  using assms fs_make_room_length [of "fst st"]
  by (auto simp: fs_grow_def Let_def fs_size_wf fs_wf_def fs_bytes_def)

end

text \<open>So the buffer is a cursor over the whole stream, of the capacity of its region.\<close>

sublocale io_input \<subseteq> fs: byte_cursor stream stream_ok "fs_fetch io" "\<lambda>st. fs_nb (fst st)"
proof unfold_locales
  fix st :: "SrsFastStream \<times> 'io" and n
  assume ok: "stream_ok st" and n: "n \<le> length (stream st)" and cap: "n \<le> fs_nb (fst st)"
  obtain st' where g: "fs_grow io (int n) st = Inr ((), st')" "stream st' = stream st" "stream_ok st'"
      "fs_nb (fst st') = fs_nb (fst st)" "int n \<le> fs_size (fst st')"
    using grow_ok [OF ok, of "int n"] n cap by auto
  obtain fs s where st': "st' = (fs, s)" by (cases st')
  have len: "n \<le> length (fs_bytes fs)" using g st' by (auto simp: fs_size_wf)
  let ?fs = "fs\<lparr>fs_p := fs_p fs + n\<rparr>"
  have "fs_fetch io n st = Inr (take n (fs_bytes fs), (?fs, s))"
    using g st' by (simp add: fs_fetch_def bnd_def fs_read_slice_def)
  moreover have "take n (fs_bytes fs) = take n (stream st)" using g(2) [symmetric] st' len by simp
  moreover have "stream (?fs, s) = drop n (stream st)"
    using g(2) [symmetric] st' len by (simp add: fs_bytes_def add.commute)
  moreover have "stream_ok (?fs, s)" using g st' len by (auto simp: fs_wf_def fs_bytes_def)
  ultimately show "\<exists>st''. fs_fetch io n st = Inr (take n (stream st), st'') \<and> stream st'' = drop n (stream st)
      \<and> stream_ok st'' \<and> fs_nb (fst st'') = fs_nb (fst st)"
    using g st' by auto
qed

context io_input
begin

lemma fetch_ok:
  assumes "fs_wf fs" and "ok s" and "n \<le> fs_nb fs" and "n \<le> length (fs_bytes fs @ pending s)"
  shows "\<exists>fs' s'. fs_fetch io n (fs, s) = Inr (take n (fs_bytes fs @ pending s), (fs', s'))
    \<and> fs_bytes fs' @ pending s' = drop n (fs_bytes fs @ pending s) \<and> fs_wf fs' \<and> ok s' \<and> fs_nb fs' = fs_nb fs"
  using fs.get_ok [of "(fs, s)" n] assms by auto

lemma fetch_safe:
  assumes "fs_wf fs" and "ok s"
  shows "safe (fs_fetch io n (fs, s))"
proof (cases "n \<le> fs_nb fs")
  case True
  then show ?thesis
    using grow_grown [of "(fs, s)" "int n"] assms
    by (auto simp: fs_fetch_def bnd_def fs_read_slice_def grown_def split: sum.splits)
next
  case False
  then show ?thesis using grow_overflow [of "(fs, s)" "int n"] assms by (simp add: fs_fetch_def bnd_def)
qed

end

section \<open>Properties\<close>

text \<open>C27. The receive buffer is transparent: a user that asks for \<open>n\<close> bytes, no more than the buffer
  size, gets the next \<open>n\<close> bytes of the stream however the transport splits them and wherever the
  buffered bytes lie in the region, and all later bytes are kept.\<close>

theorem fast_stream_delivers:
  assumes "io_input io ok pending" and "fs_wf fs" and "ok s"
    and "n \<le> fs_nb fs" and "n \<le> length (fs_bytes fs @ pending s)"
  shows "\<exists>fs' s'. fs_fetch io n (fs, s) = Inr (take n (fs_bytes fs @ pending s), (fs', s'))
    \<and> fs_bytes fs' @ pending s' = drop n (fs_bytes fs @ pending s) \<and> fs_wf fs' \<and> ok s'"
  using io_input.fetch_ok [OF assms] by blast

theorem fast_stream_delivers_witness:
  "\<exists>fs' s'. fs_fetch (SrsStSocket_io tcp_recv tcp_send tcp_writev) 3 (SrsFastStream_new 4,
        SrsStSocket_new True \<lparr>tcp_in = [[1, 2], [3, 4, 5]], tcp_room = [], tcp_out = []\<rparr>)
      = Inr ([1, 2, 3], (fs', s'))
    \<and> fs_bytes fs' @ concat (tcp_in (kernel s')) = [4, 5]"
  using fast_stream_delivers [OF tcp.io_input_axioms, of "SrsFastStream_new 4"
      "SrsStSocket_new True \<lparr>tcp_in = [[1, 2], [3, 4, 5]], tcp_room = [], tcp_out = []\<rparr>" 3]
  by (auto simp: SrsStSocket_new_def SrsFastStream_new_def fs_wf_def fs_bytes_def)

text \<open>Asking for more than the buffer holds fails at once with the overflow error and reads
  nothing, and no request stops the process: the assertions of \<^verbatim>\<open>grow\<close> and \<^verbatim>\<open>read_slice\<close> hold.\<close>

theorem fast_stream_overflow:
  assumes "io_input io ok pending" and "fs_wf fs" and "ok s"
  shows "safe (fs_fetch io n (fs, s))
    \<and> (fs_nb fs < n \<longrightarrow> fs_grow io (int n) (fs, s) = Inl (Srs_error ERROR_READER_BUFFER_OVERFLOW))"
  using io_input.fetch_safe [OF assms] io_input.grow_overflow [OF assms(1), of "(fs, s)" "int n"] assms(2,3)
  by simp

theorem fast_stream_overflow_witness:
  "fs_grow (SrsStSocket_io tcp_recv tcp_send tcp_writev) 131073 (SrsFastStream_new 0,
      SrsStSocket_new True \<lparr>tcp_in = [[1, 2]], tcp_room = [], tcp_out = []\<rparr>)
     = Inl (Srs_error ERROR_READER_BUFFER_OVERFLOW)"
  using fast_stream_overflow [OF tcp.io_input_axioms, of "SrsFastStream_new 0"
      "SrsStSocket_new True \<lparr>tcp_in = [[1, 2]], tcp_room = [], tcp_out = []\<rparr>" 131073]
  by (simp add: SrsStSocket_new_def SrsFastStream_new_def fs_wf_def)

end
