(* ===== verification/Protocol.thy ===== *)
theory Protocol
  imports Packet FastStream
begin

text \<open>
  The chunk protocol, \<^verbatim>\<open>SrsProtocol\<close> of \<^verbatim>\<open>src/src/protocol/srs_protocol_rtmp_stack.cpp\<close>: receiving
  interleaved chunks and joining them into messages, splitting messages into chunks, the protocol
  control messages, and the dispatch of a message to its packet class. The operations take the
  transport \<open>io\<close> and change the protocol state, a record with the fields of the class; the state of
  an operation that fails is dropped, as the connection is closed then. The log flag
  \<^verbatim>\<open>show_debug_info\<close> and the field \<^verbatim>\<open>SrsChunkStream::fmt\<close>, which nothing reads, are left out.
\<close>

section \<open>State\<close>

abbreviation (input) SRS_CONSTS_RTMP_PROTOCOL_CHUNK_SIZE :: int where "SRS_CONSTS_RTMP_PROTOCOL_CHUNK_SIZE \<equiv> 128"
abbreviation (input) SRS_CONSTS_RTMP_MIN_CHUNK_SIZE :: int where "SRS_CONSTS_RTMP_MIN_CHUNK_SIZE \<equiv> 128"

record AckWindowSize =
  window :: "32 word"
  nb_recv_bytes :: int
  sequence_number :: "32 word"

definition AckWindowSize_new :: AckWindowSize where
  "AckWindowSize_new = \<lparr>window = 0, nb_recv_bytes = 0, sequence_number = 0\<rparr>"

record SrsChunkStream =
  ck_cid :: int
  ck_header :: SrsMessageHeader
  has_extended_timestamp :: bool
  ck_msg :: "SrsCommonMessage option"
  msg_count :: int
  extended_timestamp :: "32 word"

definition SrsChunkStream_new :: "int \<Rightarrow> SrsChunkStream" where
  "SrsChunkStream_new cid = \<lparr>ck_cid = cid, ck_header = SrsMessageHeader_new, has_extended_timestamp = False,
     ck_msg = None, msg_count = 0, extended_timestamp = 0\<rparr>"

record 'io SrsProtocol =
  skt :: 'io
  chunk_streams :: "int \<rightharpoonup> SrsChunkStream"
  in_buffer :: SrsFastStream
  in_chunk_size :: int
  in_ack_size :: AckWindowSize
  out_ack_size :: AckWindowSize
  in_buffer_length :: int
  requests :: "(double \<times> string) list"
  out_chunk_size :: int

definition SrsProtocol_new :: "'io \<Rightarrow> 'io SrsProtocol" where
  "SrsProtocol_new io = \<lparr>skt = io, chunk_streams = Map.empty, in_buffer = SrsFastStream_new 0,
     in_chunk_size = SRS_CONSTS_RTMP_PROTOCOL_CHUNK_SIZE, in_ack_size = AckWindowSize_new,
     out_ack_size = AckWindowSize_new, in_buffer_length = 0, requests = [],
     out_chunk_size = SRS_CONSTS_RTMP_PROTOCOL_CHUNK_SIZE\<rparr>"

definition set_in_window_ack_size :: "32 word \<Rightarrow> 'io SrsProtocol \<Rightarrow> 'io SrsProtocol" where
  "set_in_window_ack_size ack_size p = p\<lparr>in_ack_size := (in_ack_size p)\<lparr>window := ack_size\<rparr>\<rparr>"

text \<open>
  The requests are a \<^verbatim>\<open>std::map<double, string>\<close>, ordered by \<^verbatim>\<open><\<close> on doubles: looking up or setting a
  key goes to the first entry that is not smaller, which counts as the same key unless it is larger.
\<close>

definition double_key :: "double \<Rightarrow> int" where
  "double_key d = (let m = uint (d AND 0x7FFFFFFFFFFFFFFF) in if bit d 63 then - m else m)"

definition double_less :: "double \<Rightarrow> double \<Rightarrow> bool" where
  "double_less a b \<longleftrightarrow> \<not> double_is_nan a \<and> \<not> double_is_nan b \<and> double_key a < double_key b"

fun requests_find :: "double \<Rightarrow> (double \<times> string) list \<Rightarrow> string option" where
  "requests_find k [] = None"
| "requests_find k ((k', v) # rs) =
     (if double_less k' k then requests_find k rs else if double_less k k' then None else Some v)"

fun requests_set :: "double \<Rightarrow> string \<Rightarrow> (double \<times> string) list \<Rightarrow> (double \<times> string) list" where
  "requests_set k v [] = [(k, v)]"
| "requests_set k v ((k', w) # rs) =
     (if double_less k' k then (k', w) # requests_set k v rs
      else if double_less k k' then (k, v) # (k', w) # rs
      else (k', v) # rs)"

section \<open>Reading from the receive buffer\<close>

definition in_grow :: "'io ISrsProtocolReadWriter \<Rightarrow> int \<Rightarrow> 'io SrsProtocol \<Rightarrow> (unit \<times> 'io SrsProtocol) result" where
  "in_grow io n p =
     (case fs_grow io n (in_buffer p, skt p) of
        Inl e \<Rightarrow> Inl e
      | Inr (_, fs, s) \<Rightarrow> Inr ((), p\<lparr>in_buffer := fs, skt := s\<rparr>))"

definition in_read_1byte :: "'io SrsProtocol \<Rightarrow> (byte \<times> 'io SrsProtocol) result" where
  "in_read_1byte p =
     (case fs_read_1byte (in_buffer p) of Inl e \<Rightarrow> Inl e | Inr (b, fs) \<Rightarrow> Inr (b, p\<lparr>in_buffer := fs\<rparr>))"

definition in_read_slice :: "int \<Rightarrow> 'io SrsProtocol \<Rightarrow> (byte list \<times> 'io SrsProtocol) result" where
  "in_read_slice n p =
     (case fs_read_slice n (in_buffer p) of Inl e \<Rightarrow> Inl e | Inr (bs, fs) \<Rightarrow> Inr (bs, p\<lparr>in_buffer := fs\<rparr>))"

definition in_skip :: "int \<Rightarrow> 'io SrsProtocol \<Rightarrow> (unit \<times> 'io SrsProtocol) result" where
  "in_skip n p =
     (case fs_skip n (in_buffer p) of Inl e \<Rightarrow> Inl e | Inr (_, fs) \<Rightarrow> Inr ((), p\<lparr>in_buffer := fs\<rparr>))"

section \<open>Receiving chunks\<close>

definition read_basic_header ::
    "'io ISrsProtocolReadWriter \<Rightarrow> 'io SrsProtocol \<Rightarrow> ((nat \<times> int) \<times> 'io SrsProtocol) result" where
  "read_basic_header io =
     bnd (in_grow io 1) (\<lambda>_.
     bnd in_read_1byte (\<lambda>b.
       let cid = uint (b AND 0x3f); fmt = unat (drop_bit 6 b AND 0x03)
       in if cid > 1 then ret (fmt, cid)
          else if cid = 0
          then bnd (in_grow io 1) (\<lambda>_. bnd in_read_1byte (\<lambda>b1. ret (fmt, 64 + uint b1)))
          else bnd (srs_assert (\<lambda>_. cid = 1)) (\<lambda>_.
               bnd (in_grow io 2) (\<lambda>_.
               bnd in_read_1byte (\<lambda>b1.
               bnd in_read_1byte (\<lambda>b2. ret (fmt, 64 + uint b1 + uint b2 * 256)))))))"

definition mh_sizes :: "nat \<Rightarrow> int" where
  "mh_sizes fmt = [11, 7, 3, 0] ! fmt"

text \<open>Three big-endian bytes stored to the low bytes of a 32-bit integer whose top byte is 0.\<close>

definition be24 :: "byte list \<Rightarrow> int" where
  "be24 bs = le_val (rev (take 3 bs))"

text \<open>The part of the message header that the \<open>mh_sizes fmt\<close> bytes carry, for \<open>fmt\<close> 0, 1 and 2.\<close>

definition parse_message_header :: "nat \<Rightarrow> byte list \<Rightarrow> SrsChunkStream \<Rightarrow> SrsChunkStream result" where
  "parse_message_header fmt bs chunk =
     (let is_first_chunk_of_msg = (ck_msg chunk = None);
          delta = be24 bs;
          h0 = (ck_header chunk)\<lparr>timestamp_delta := delta\<rparr>;
          ext = (delta \<ge> RTMP_EXTENDED_TIMESTAMP);
          h1 = (if \<not> ext
                then if fmt = 0 then h0\<lparr>timestamp := delta\<rparr> else h0\<lparr>timestamp := timestamp h0 + delta\<rparr>
                else h0);
          chunk1 = chunk\<lparr>ck_header := h1, has_extended_timestamp := ext\<rparr>
      in if fmt \<le> 1
         then let plen = be24 (drop 3 bs)
              in if \<not> is_first_chunk_of_msg \<and> payload_length h1 \<noteq> plen
                 then Inl (Srs_error ERROR_RTMP_PACKET_SIZE)
                 else let h2 = h1\<lparr>payload_length := plen, message_type := bs ! 6\<rparr>;
                          h3 = (if fmt = 0 then h2\<lparr>stream_id := word_of_int (le_val (take 4 (drop 7 bs)))\<rparr> else h2)
                      in Inr (chunk1\<lparr>ck_header := h3\<rparr>)
         else Inr chunk1)"

text \<open>The four bytes of the extended timestamp, which some peers leave out of a continuation chunk.\<close>

definition read_extended_timestamp :: "'io ISrsProtocolReadWriter \<Rightarrow> nat \<Rightarrow> bool \<Rightarrow> SrsChunkStream
    \<Rightarrow> 'io SrsProtocol \<Rightarrow> (SrsChunkStream \<times> 'io SrsProtocol) result" where
  "read_extended_timestamp io fmt is_first_chunk_of_msg chunk =
     bnd (in_grow io 4) (\<lambda>_.
     bnd (in_read_slice 4) (\<lambda>bs.
       let ts = (word_of_int (le_val (rev bs)) :: 32 word) AND 0x7fffffff;
           chunk_extended_timestamp = extended_timestamp chunk
       in if \<not> is_first_chunk_of_msg \<and> chunk_extended_timestamp > 0 \<and> chunk_extended_timestamp \<noteq> ts
          then bnd (in_skip (- 4)) (\<lambda>_. ret chunk)
          else let chunk1 = chunk\<lparr>extended_timestamp := ts\<rparr>; h = ck_header chunk1
               in ret (if fmt = 0 then chunk1\<lparr>ck_header := h\<lparr>timestamp := uint ts\<rparr>\<rparr>
                       else if is_first_chunk_of_msg
                       then chunk1\<lparr>ck_header := h\<lparr>timestamp := timestamp h + uint ts\<rparr>\<rparr>
                       else chunk1)))"

text \<open>The fields that the chunk brings: read from the header bytes, or taken over from the chunk before.\<close>

definition read_message_fields :: "'io ISrsProtocolReadWriter \<Rightarrow> SrsChunkStream \<Rightarrow> nat
    \<Rightarrow> 'io SrsProtocol \<Rightarrow> (SrsChunkStream \<times> 'io SrsProtocol) result" where
  "read_message_fields io chunk fmt =
     (let mh_size = mh_sizes fmt
      in bnd (if mh_size > 0 then in_grow io mh_size else ret ()) (\<lambda>_.
           if fmt \<le> 2
           then bnd (in_read_slice mh_size) (\<lambda>bs p.
                  case parse_message_header fmt bs chunk of Inl e \<Rightarrow> Inl e | Inr c \<Rightarrow> Inr (c, p))
           else ret (if ck_msg chunk = None \<and> \<not> has_extended_timestamp chunk
                     then chunk\<lparr>ck_header := (ck_header chunk)\<lparr>timestamp :=
                            timestamp (ck_header chunk) + timestamp_delta (ck_header chunk)\<rparr>\<rparr>
                     else chunk)))"

text \<open>The last steps: the timestamp is cut to 31 bits and the message gets a copy of the header.\<close>

definition finish_message_header :: "SrsCommonMessage \<Rightarrow> SrsChunkStream
    \<Rightarrow> 'io SrsProtocol \<Rightarrow> (SrsChunkStream \<times> 'io SrsProtocol) result" where
  "finish_message_header msg chunk =
     (let h = (ck_header chunk)\<lparr>timestamp := timestamp (ck_header chunk) AND 0x7fffffff\<rparr>
      in bnd (srs_assert (\<lambda>_. payload_length h \<ge> 0)) (\<lambda>_.
         ret (chunk\<lparr>ck_header := h, ck_msg := Some (msg\<lparr>cm_header := h\<rparr>), msg_count := msg_count chunk + 1\<rparr>)))"

definition read_message_header :: "'io ISrsProtocolReadWriter \<Rightarrow> SrsChunkStream \<Rightarrow> nat
    \<Rightarrow> 'io SrsProtocol \<Rightarrow> (SrsChunkStream \<times> 'io SrsProtocol) result" where
  "read_message_header io chunk fmt =
     (let is_first_chunk_of_msg = (ck_msg chunk = None)
      in if msg_count chunk = 0 \<and> fmt \<noteq> 0 \<and> fmt \<noteq> 1 then fail (Srs_error ERROR_RTMP_CHUNK_START)
         else if ck_msg chunk \<noteq> None \<and> fmt = 0 then fail (Srs_error ERROR_RTMP_CHUNK_START)
         else let msg = (case ck_msg chunk of None \<Rightarrow> SrsCommonMessage_new | Some m \<Rightarrow> m)
              in bnd (read_message_fields io chunk fmt) (\<lambda>chunk1.
                 bnd (if has_extended_timestamp chunk1
                      then read_extended_timestamp io fmt is_first_chunk_of_msg chunk1 else ret chunk1)
                     (finish_message_header msg)))"

text \<open>
  \<^verbatim>\<open>read_message_payload\<close> returns the chunk stream and the message, once it is complete. In the code
  \<^verbatim>\<open>chunk->msg\<close> is set by then; a null there would be dereferenced.
\<close>

definition read_message_payload :: "'io ISrsProtocolReadWriter \<Rightarrow> SrsChunkStream
    \<Rightarrow> 'io SrsProtocol \<Rightarrow> ((SrsChunkStream \<times> SrsCommonMessage option) \<times> 'io SrsProtocol) result" where
  "read_message_payload io chunk p =
     (let plen = payload_length (ck_header chunk)
      in if plen \<le> 0 then Inr ((chunk\<lparr>ck_msg := None\<rparr>, ck_msg chunk), p)
         else case ck_msg chunk of
                None \<Rightarrow> Inl Srs_null_deref
              | Some msg \<Rightarrow>
                  let payload_size = min (plen - cm_size msg) (in_chunk_size p);
                      received = (case cm_payload msg of None \<Rightarrow> [] | Some bs \<Rightarrow> bs)
                  in bnd (in_grow io payload_size) (\<lambda>_.
                     bnd (in_read_slice payload_size) (\<lambda>bs.
                       let msg' = msg\<lparr>cm_payload := Some (received @ bs)\<rparr>
                       in if plen = cm_size msg' then ret (chunk\<lparr>ck_msg := None\<rparr>, Some msg')
                          else ret (chunk\<lparr>ck_msg := Some msg'\<rparr>, None))) p)"

definition recv_interlaced_message :: "'io ISrsProtocolReadWriter
    \<Rightarrow> 'io SrsProtocol \<Rightarrow> (SrsCommonMessage option \<times> 'io SrsProtocol) result" where
  "recv_interlaced_message io =
     bnd (read_basic_header io) (\<lambda>(fmt, cid).
     bnd (srs_assert (\<lambda>_. cid \<ge> 0)) (\<lambda>_ p.
       let chunk = (case chunk_streams p cid of
                      None \<Rightarrow> (SrsChunkStream_new cid)\<lparr>ck_header := SrsMessageHeader_new\<lparr>prefer_cid := cid\<rparr>\<rparr>
                    | Some c \<Rightarrow> c)
       in bnd (read_message_header io chunk fmt) (\<lambda>chunk1.
          bnd (read_message_payload io chunk1) (\<lambda>(chunk2, msg) p'.
            Inr (msg, p'\<lparr>chunk_streams := (chunk_streams p')(cid \<mapsto> chunk2)\<rparr>))) p))"

section \<open>Dispatching a message to its packet\<close>

text \<open>Back to the first byte, and past the AMF3 marker when the message is an AMF3 command.\<close>

definition stream_reset :: "SrsMessageHeader \<Rightarrow> SrsBuffer \<Rightarrow> (unit \<times> SrsBuffer) result" where
  "stream_reset header b =
     bnd (SrsBuffer_skip (- 1 * SrsBuffer_pos b)) (\<lambda>_.
       if is_amf3_command header then SrsBuffer_skip 1 else ret ()) b"

definition decode_as :: "SrsPacket \<Rightarrow> SrsBuffer \<Rightarrow> (SrsPacket option \<times> SrsBuffer) result" where
  "decode_as packet = bnd (SrsPacket_decode packet) (\<lambda>pkt. ret (Some pkt))"

definition decode_response :: "string \<Rightarrow> SrsBuffer \<Rightarrow> (SrsPacket option \<times> SrsBuffer) result" where
  "decode_response request_name =
     (if request_name = RTMP_AMF0_COMMAND_CONNECT then decode_as (SrsConnectAppResPacket RTMP_AMF0_COMMAND_RESULT double_1 [] [])
      else if request_name = RTMP_AMF0_COMMAND_CREATE_STREAM
      then decode_as (SrsCreateStreamResPacket RTMP_AMF0_COMMAND_RESULT double_0 double_0)
      else if request_name = RTMP_AMF0_COMMAND_RELEASE_STREAM \<or> request_name = RTMP_AMF0_COMMAND_FC_PUBLISH
              \<or> request_name = RTMP_AMF0_COMMAND_UNPUBLISH
      then decode_as (SrsFMLEStartResPacket RTMP_AMF0_COMMAND_RESULT double_0)
      else fail (Srs_error ERROR_RTMP_NO_REQUEST))"

definition decode_command :: "string \<Rightarrow> SrsBuffer \<Rightarrow> (SrsPacket option \<times> SrsBuffer) result" where
  "decode_command command =
     (if command = RTMP_AMF0_COMMAND_CONNECT then decode_as (SrsConnectAppPacket RTMP_AMF0_COMMAND_CONNECT double_1 [] None)
      else if command = RTMP_AMF0_COMMAND_CREATE_STREAM then decode_as (SrsCreateStreamPacket RTMP_AMF0_COMMAND_CREATE_STREAM double_2)
      else if command = RTMP_AMF0_COMMAND_PLAY
      then decode_as (SrsPlayPacket RTMP_AMF0_COMMAND_PLAY double_0 [] double_minus_2 double_minus_1 True)
      else if command = RTMP_AMF0_COMMAND_RELEASE_STREAM \<or> command = RTMP_AMF0_COMMAND_FC_PUBLISH
      then decode_as (SrsFMLEStartPacket RTMP_AMF0_COMMAND_RELEASE_STREAM double_0 [])
      else if command = RTMP_AMF0_COMMAND_PUBLISH then decode_as (SrsPublishPacket RTMP_AMF0_COMMAND_PUBLISH double_0 [] ''live'')
      else if command = RTMP_AMF0_COMMAND_UNPUBLISH
      then decode_as (SrsFMLEStartPacket RTMP_AMF0_COMMAND_RELEASE_STREAM double_0 [])
      else if command = SRS_CONSTS_RTMP_SET_DATAFRAME \<or> command = SRS_CONSTS_RTMP_ON_METADATA
      then decode_as (SrsOnMetaDataPacket SRS_CONSTS_RTMP_ON_METADATA [])
      else ret (Some SrsPacketBase))"

definition do_decode_message :: "(double \<times> string) list \<Rightarrow> SrsMessageHeader
    \<Rightarrow> SrsBuffer \<Rightarrow> (SrsPacket option \<times> SrsBuffer) result" where
  "do_decode_message reqs header b =
     (if is_amf0_command header \<or> is_amf3_command header \<or> is_amf0_data header \<or> is_amf3_data header
      then if SrsBuffer_left b = 4 \<and> hd (buf_rest b) = 0x00 then Inr (None, b)
           else bnd (if is_amf3_command header \<and> SrsBuffer_require 1 b then SrsBuffer_skip 1 else ret ()) (\<lambda>_.
                bnd (srs_amf0_read_string []) (\<lambda>command.
                  if command = RTMP_AMF0_COMMAND_RESULT \<or> command = RTMP_AMF0_COMMAND_ERROR
                  then bnd srs_amf0_read_number (\<lambda>transactionId.
                       bnd (stream_reset header) (\<lambda>_.
                       case requests_find transactionId reqs of
                         None \<Rightarrow> fail (Srs_error ERROR_RTMP_NO_REQUEST)
                       | Some request_name \<Rightarrow> decode_response request_name))
                  else bnd (stream_reset header) (\<lambda>_. decode_command command))) b
      else if is_user_control_message header then decode_as (SrsUserControlPacket 0 0 0) b
      else if is_window_ackledgement_size header then decode_as (SrsSetWindowAckSizePacket 0) b
      else if is_ackledgement header then decode_as (SrsAcknowledgementPacket 0) b
      else if is_set_chunk_size header then decode_as (SrsSetChunkSizePacket 128) b
      else Inr (None, b))"

definition decode_message :: "SrsCommonMessage \<Rightarrow> 'io SrsProtocol \<Rightarrow> (SrsPacket option \<times> 'io SrsProtocol) result" where
  "decode_message msg p =
     (case cm_payload msg of
        None \<Rightarrow> Inl Srs_abort
      | Some payload \<Rightarrow>
          if \<not> cm_size msg > 0 then Inl Srs_abort
          else case do_decode_message (requests p) (cm_header msg) (SrsBuffer_new payload) of
                 Inl e \<Rightarrow> Inl e
               | Inr (pkt, _) \<Rightarrow> Inr (pkt, p))"

section \<open>Sending\<close>

text \<open>
  The chunks of one message. With a chunk size of 0 or less the code would loop without end; the
  model says so with \<open>Out_of_fuel\<close>.
\<close>

function send_chunks :: "'io ISrsProtocolReadWriter \<Rightarrow> int \<Rightarrow> SrsSharedPtrMessage \<Rightarrow> bool \<Rightarrow> byte list
    \<Rightarrow> 'io \<Rightarrow> (unit \<times> 'io) result" where
  "send_chunks io ochunk m first left s =
     (if left = [] then Inr ((), s)
      else let nbh = sm_chunk_header SRS_CONSTS_RTMP_MAX_FMT0_HEADER_SIZE first m;
               payload_size = min ochunk (int (length left))
           in if \<not> length nbh > 0 then Inl Srs_abort
              else if payload_size \<le> 0 then Inl Out_of_fuel
              else case io_writev io [nbh, take (nat payload_size) left] s of
                     Inl e \<Rightarrow> Inl e
                   | Inr (_, s') \<Rightarrow> send_chunks io ochunk m False (drop (nat payload_size) left) s')"
  by pat_completeness auto
termination
  by (relation "measure (\<lambda>(_, _, _, _, left, _). length left)") auto

declare send_chunks.simps [simp del]

fun do_send_messages :: "'io ISrsProtocolReadWriter \<Rightarrow> SrsSharedPtrMessage option list
    \<Rightarrow> 'io SrsProtocol \<Rightarrow> (unit \<times> 'io SrsProtocol) result" where
  "do_send_messages io [] p = Inr ((), p)"
| "do_send_messages io (None # msgs) p = do_send_messages io msgs p"
| "do_send_messages io (Some m # msgs) p =
     (if sm_size m \<le> 0 then do_send_messages io msgs p
      else case send_chunks io (out_chunk_size p) m True (sm_payload m) (skt p) of
             Inl e \<Rightarrow> Inl e
           | Inr (_, s) \<Rightarrow> do_send_messages io msgs (p\<lparr>skt := s\<rparr>))"

text \<open>The stream id is set until a message has it already; the rest are not checked.\<close>

fun check_messages :: "32 word \<Rightarrow> SrsSharedPtrMessage option list \<Rightarrow> SrsSharedPtrMessage option list" where
  "check_messages sid [] = []"
| "check_messages sid (None # msgs) = None # check_messages sid msgs"
| "check_messages sid (Some m # msgs) =
     (let (same, m') = sm_check sid m in if same then Some m' # msgs else Some m' # check_messages sid msgs)"

definition send_and_free_messages :: "'io ISrsProtocolReadWriter \<Rightarrow> SrsSharedPtrMessage option list \<Rightarrow> 32 word
    \<Rightarrow> 'io SrsProtocol \<Rightarrow> (unit \<times> 'io SrsProtocol) result" where
  "send_and_free_messages io msgs sid p =
     (if \<not> length msgs > 0 then Inl Srs_abort else do_send_messages io (check_messages sid msgs) p)"

definition send_and_free_message :: "'io ISrsProtocolReadWriter \<Rightarrow> SrsSharedPtrMessage \<Rightarrow> 32 word
    \<Rightarrow> 'io SrsProtocol \<Rightarrow> (unit \<times> 'io SrsProtocol) result" where
  "send_and_free_message io msg sid = send_and_free_messages io [Some msg] sid"

text \<open>A packet of the type of its message is what \<^verbatim>\<open>dynamic_cast\<close> finds; otherwise it gives null.\<close>

definition on_send_packet :: "SrsMessageHeader \<Rightarrow> SrsPacket \<Rightarrow> 'io SrsProtocol \<Rightarrow> (unit \<times> 'io SrsProtocol) result" where
  "on_send_packet mh packet p =
     (if message_type mh = RTMP_MSG_SetChunkSize
      then case packet of
             SrsSetChunkSizePacket chunk_size \<Rightarrow> Inr ((), p\<lparr>out_chunk_size := sint chunk_size\<rparr>)
           | _ \<Rightarrow> Inl Srs_null_deref
      else if message_type mh = RTMP_MSG_WindowAcknowledgementSize
      then case packet of
             SrsSetWindowAckSizePacket ack \<Rightarrow>
               Inr ((), p\<lparr>out_ack_size := (out_ack_size p)\<lparr>window := ack\<rparr>\<rparr>)
           | _ \<Rightarrow> Inl Srs_null_deref
      else if message_type mh = RTMP_MSG_AMF0CommandMessage \<or> message_type mh = RTMP_MSG_AMF3CommandMessage
      then case packet of
             SrsConnectAppPacket command_name transaction_id _ _ \<Rightarrow>
               Inr ((), p\<lparr>requests := requests_set transaction_id command_name (requests p)\<rparr>)
           | SrsCreateStreamPacket command_name transaction_id \<Rightarrow>
               Inr ((), p\<lparr>requests := requests_set transaction_id command_name (requests p)\<rparr>)
           | SrsFMLEStartPacket command_name transaction_id _ \<Rightarrow>
               Inr ((), p\<lparr>requests := requests_set transaction_id command_name (requests p)\<rparr>)
           | _ \<Rightarrow> Inr ((), p)
      else Inr ((), p))"

text \<open>
  The allocation of a payload, whose bytes do not matter (\<open>packet_encode_exact\<close>).
\<close>

definition new_payload :: "nat \<Rightarrow> byte list" where
  "new_payload n = replicate n 0"

definition do_send_and_free_packet :: "'io ISrsProtocolReadWriter \<Rightarrow> SrsPacket \<Rightarrow> 32 word
    \<Rightarrow> 'io SrsProtocol \<Rightarrow> (unit \<times> 'io SrsProtocol) result" where
  "do_send_and_free_packet io packet sid p =
     (case to_msg new_payload packet sid SrsCommonMessage_new of
        Inl e \<Rightarrow> Inl e
      | Inr msg \<Rightarrow>
          (case SrsSharedPtrMessage_create_msg msg of
             Inl e \<Rightarrow> Inl e
           | Inr (shared_msg, msg') \<Rightarrow>
               bnd (send_and_free_message io shared_msg sid) (\<lambda>_. on_send_packet (cm_header msg') packet) p))"

definition send_and_free_packet :: "'io ISrsProtocolReadWriter \<Rightarrow> SrsPacket \<Rightarrow> 32 word
    \<Rightarrow> 'io SrsProtocol \<Rightarrow> (unit \<times> 'io SrsProtocol) result" where
  "send_and_free_packet io packet sid = do_send_and_free_packet io packet sid"

section \<open>Protocol control\<close>

definition response_acknowledgement_message ::
    "'io ISrsProtocolReadWriter \<Rightarrow> 'io SrsProtocol \<Rightarrow> (unit \<times> 'io SrsProtocol) result" where
  "response_acknowledgement_message io p =
     (let ack = in_ack_size p
      in if window ack \<le> 0 then Inr ((), p)
         else let received = io_recv_bytes io (skt p);
                  delta = (word_of_int (received - nb_recv_bytes ack) :: 32 word)
              in if delta < window ack div 2 then Inr ((), p)
                 else let seq0 = sequence_number ack + delta;
                          seq = (if seq0 > 0xf0000000 then delta else seq0);
                          p1 = p\<lparr>in_ack_size := ack\<lparr>nb_recv_bytes := received, sequence_number := seq\<rparr>\<rparr>
                      in do_send_and_free_packet io (SrsAcknowledgementPacket seq) 0 p1)"

definition response_ping_message ::
    "'io ISrsProtocolReadWriter \<Rightarrow> 32 word \<Rightarrow> 'io SrsProtocol \<Rightarrow> (unit \<times> 'io SrsProtocol) result" where
  "response_ping_message io ts = do_send_and_free_packet io (SrsUserControlPacket SrcPCUCPingResponse ts 0) 0"

definition on_control_packet :: "'io ISrsProtocolReadWriter \<Rightarrow> byte \<Rightarrow> SrsPacket
    \<Rightarrow> 'io SrsProtocol \<Rightarrow> (unit \<times> 'io SrsProtocol) result" where
  "on_control_packet io mtype packet p =
     (if mtype = RTMP_MSG_WindowAcknowledgementSize
      then case packet of
             SrsSetWindowAckSizePacket ack \<Rightarrow>
               Inr ((), if sint ack > 0 then set_in_window_ack_size ack p else p)
           | _ \<Rightarrow> Inl Srs_abort
      else if mtype = RTMP_MSG_SetChunkSize
      then case packet of
             SrsSetChunkSizePacket chunk_size \<Rightarrow>
               if sint chunk_size < SRS_CONSTS_RTMP_MIN_CHUNK_SIZE then Inl (Srs_error ERROR_RTMP_CHUNK_SIZE)
               else Inr ((), p\<lparr>in_chunk_size := sint chunk_size\<rparr>)
           | _ \<Rightarrow> Inl Srs_abort
      else case packet of
             SrsUserControlPacket event_type event_data extra_data \<Rightarrow>
               let p1 = (if event_type = SrcPCUCSetBufferLength then p\<lparr>in_buffer_length := sint extra_data\<rparr> else p)
               in if event_type = SrcPCUCPingRequest then response_ping_message io event_data p1
                  else Inr ((), p1)
           | _ \<Rightarrow> Inl Srs_abort)"

definition on_recv_message :: "'io ISrsProtocolReadWriter \<Rightarrow> SrsCommonMessage
    \<Rightarrow> 'io SrsProtocol \<Rightarrow> (unit \<times> 'io SrsProtocol) result" where
  "on_recv_message io msg =
     bnd (response_acknowledgement_message io) (\<lambda>_.
       let mtype = message_type (cm_header msg)
       in if mtype = RTMP_MSG_SetChunkSize \<or> mtype = RTMP_MSG_UserControlMessage
             \<or> mtype = RTMP_MSG_WindowAcknowledgementSize
          then bnd (decode_message msg) (\<lambda>pkt.
                 case pkt of None \<Rightarrow> fail Srs_abort | Some packet \<Rightarrow> on_control_packet io mtype packet)
          else ret ())"

text \<open>
  The loop of \<^verbatim>\<open>recv_message\<close> ends with a message or with the stream: every round reads at least a
  basic header. The fuel bounds the rounds.
\<close>

fun recv_message :: "nat \<Rightarrow> 'io ISrsProtocolReadWriter
    \<Rightarrow> 'io SrsProtocol \<Rightarrow> (SrsCommonMessage \<times> 'io SrsProtocol) result" where
  "recv_message 0 io = fail Out_of_fuel"
| "recv_message (Suc fuel) io =
     bnd (recv_interlaced_message io) (\<lambda>pmsg.
       case pmsg of
         None \<Rightarrow> recv_message fuel io
       | Some msg \<Rightarrow>
           if cm_size msg \<le> 0 \<or> payload_length (cm_header msg) \<le> 0 then recv_message fuel io
           else bnd (on_recv_message io msg) (\<lambda>_. ret msg))"

section \<open>The input of the protocol\<close>

text \<open>
  The stream a protocol object has still to parse, and the states in which its buffer and its
  transport are in order. \<open>input_moved\<close>: only the input was touched.
\<close>

definition proto_stream :: "('io \<Rightarrow> byte list) \<Rightarrow> 'io SrsProtocol \<Rightarrow> byte list" where
  "proto_stream pending p = fs_bytes (in_buffer p) @ pending (skt p)"

definition proto_ok :: "('io \<Rightarrow> bool) \<Rightarrow> 'io SrsProtocol \<Rightarrow> bool" where
  "proto_ok ok p \<longleftrightarrow> fs_wf (in_buffer p) \<and> fs_nb (in_buffer p) = SRS_DEFAULT_RECV_BUFFER_SIZE \<and> ok (skt p)"

definition input_moved :: "'io SrsProtocol \<Rightarrow> 'io SrsProtocol \<Rightarrow> bool" where
  "input_moved p p' \<longleftrightarrow> p' = p\<lparr>in_buffer := in_buffer p', skt := skt p'\<rparr>"

lemma input_moved_refl [simp]: "input_moved p p"
  by (simp add: input_moved_def)

lemma input_moved_trans [trans]: "input_moved p q \<Longrightarrow> input_moved q r \<Longrightarrow> input_moved p r"
  by (cases p, cases q, cases r) (simp add: input_moved_def)

lemma input_movedD:
  assumes "input_moved p q"
  shows "chunk_streams q = chunk_streams p" "in_chunk_size q = in_chunk_size p" "in_ack_size q = in_ack_size p"
    "out_ack_size q = out_ack_size p" "in_buffer_length q = in_buffer_length p" "requests q = requests p"
    "out_chunk_size q = out_chunk_size p"
  using assms by (cases p, cases q, simp add: input_moved_def)+

context io_input
begin

text \<open>\<open>receives N m v xs\<close>: with an input chunk size of \<open>N\<close> and \<open>xs\<close> ahead in the stream, \<open>m\<close> returns \<open>v\<close> and consumes just that.\<close>

definition receives :: "int \<Rightarrow> ('io SrsProtocol \<Rightarrow> ('a \<times> 'io SrsProtocol) result) \<Rightarrow> 'a \<Rightarrow> byte list \<Rightarrow> bool" where
  "receives N m v xs \<longleftrightarrow> (\<forall>p ys. proto_ok ok p \<longrightarrow> in_chunk_size p = N \<longrightarrow> proto_stream pending p = xs @ ys \<longrightarrow>
     (\<exists>p'. m p = Inr (v, p') \<and> proto_stream pending p' = ys \<and> proto_ok ok p' \<and> input_moved p p'))"

lemma receives_ret: "receives N (ret v) v []"
  by (simp add: receives_def ret_def)

lemma receives_bnd:
  assumes "receives N m v xs" and "receives N (f v) w ys"
  shows "receives N (bnd m f) w (xs @ ys)"
  unfolding receives_def
proof (intro allI impI)
  fix p zs assume p: "proto_ok ok p" "in_chunk_size p = N" "proto_stream pending p = (xs @ ys) @ zs"
  obtain p1 where p1: "m p = Inr (v, p1)" "proto_stream pending p1 = ys @ zs" "proto_ok ok p1" "input_moved p p1"
    using assms(1) p by (auto simp: receives_def)
  obtain p2 where "f v p1 = Inr (w, p2)" "proto_stream pending p2 = zs" "proto_ok ok p2" "input_moved p1 p2"
    using assms(2) p1 p(2) input_movedD(2) [OF p1(4)] by (auto simp: receives_def)
  with p1 show "\<exists>p'. bnd m f p = Inr (w, p') \<and> proto_stream pending p' = zs \<and> proto_ok ok p' \<and> input_moved p p'"
    by (auto simp: bnd_def intro: input_moved_trans)
qed

text \<open>What \<^verbatim>\<open>grow\<close> leaves: at least \<open>n\<close> bytes in the buffer, the same stream.\<close>

lemma in_grow_cases:
  assumes "proto_ok ok p" and "n \<le> SRS_DEFAULT_RECV_BUFFER_SIZE"
  obtains (grown) p' where "in_grow io (int n) p = Inr ((), p')" "proto_ok ok p'"
      "proto_stream pending p' = proto_stream pending p" "input_moved p p'" "n \<le> length (fs_bytes (in_buffer p'))"
    | (short) c where "in_grow io (int n) p = Inl (Srs_error c)" "length (proto_stream pending p) < n"
proof -
  have ok: "stream_ok (in_buffer p, skt p)" "int n \<le> int (fs_nb (fst (in_buffer p, skt p)))"
    using assms by (auto simp: proto_ok_def)
  have g: "grown (int n) (in_buffer p, skt p) (fs_grow io (int n) (in_buffer p, skt p))"
    using grow_grown [OF ok] .
  show ?thesis
  proof (cases "fs_grow io (int n) (in_buffer p, skt p)")
    case (Inl e)
    with g that(2) show ?thesis by (auto simp: grown_def in_grow_def proto_stream_def)
  next
    case (Inr r)
    obtain u fs s where r: "r = (u, fs, s)" by (cases r)
    with g Inr assms show ?thesis
      by (intro that(1) [of "p\<lparr>in_buffer := fs, skt := s\<rparr>"])
        (auto simp: grown_def in_grow_def proto_stream_def proto_ok_def input_moved_def fs_size_wf)
  qed
qed

lemma in_read_slice_ok:
  assumes "proto_ok ok p" and "n \<le> length (fs_bytes (in_buffer p))"
  shows "\<exists>p'. in_read_slice (int n) p = Inr (take n (proto_stream pending p), p') \<and> proto_ok ok p'
    \<and> proto_stream pending p' = drop n (proto_stream pending p) \<and> input_moved p p'
    \<and> in_skip (- int n) p' = Inr ((), p)
    \<and> fs_bytes (in_buffer p') = drop n (fs_bytes (in_buffer p))"
proof -
  let ?p = "p\<lparr>in_buffer := (in_buffer p)\<lparr>fs_p := fs_p (in_buffer p) + n\<rparr>\<rparr>"
  have wf: "fs_wf (in_buffer p)" using assms(1) by (simp add: proto_ok_def)
  then have sz: "fs_size (in_buffer p) = int (length (fs_bytes (in_buffer p)))" by (rule fs_size_wf)
  have "in_read_slice (int n) p = Inr (take n (proto_stream pending p), ?p)"
    using assms(2) sz by (simp add: in_read_slice_def fs_read_slice_def proto_stream_def)
  moreover have "in_skip (- int n) ?p = Inr ((), p)"
    using sz by (simp add: in_skip_def fs_skip_def fs_size_def)
  moreover have "proto_ok ok ?p" using assms wf by (auto simp: proto_ok_def fs_wf_def fs_bytes_def)
  ultimately show ?thesis
    using assms(2) by (auto simp: proto_stream_def input_moved_def fs_bytes_def add.commute)
qed

lemma in_read_1byte_slice: "in_read_1byte p = (case in_read_slice 1 p of Inl e \<Rightarrow> Inl e | Inr (bs, p') \<Rightarrow> Inr (hd bs, p'))"
  by (auto simp: in_read_1byte_def in_read_slice_def fs_read_1byte_def fs_read_slice_def fs_size_def fs_bytes_def
      take_Suc hd_drop_conv_nth split: if_splits)

lemma receives_slice:
  assumes "n \<le> SRS_DEFAULT_RECV_BUFFER_SIZE" and "length bs = n" and "receives N (f bs) v xs"
  shows "receives N (bnd (in_grow io (int n)) (\<lambda>_. bnd (in_read_slice (int n)) f)) v (bs @ xs)"
  unfolding receives_def
proof (intro allI impI)
  fix p ys assume p: "proto_ok ok p" "in_chunk_size p = N" "proto_stream pending p = (bs @ xs) @ ys"
  from p(1) assms(1) show "\<exists>p'. bnd (in_grow io (int n)) (\<lambda>_. bnd (in_read_slice (int n)) f) p = Inr (v, p')
      \<and> proto_stream pending p' = ys \<and> proto_ok ok p' \<and> input_moved p p'"
  proof (cases rule: in_grow_cases)
    case (grown p1)
    obtain p2 where p2: "in_read_slice (int n) p1 = Inr (bs, p2)" "proto_ok ok p2"
        "proto_stream pending p2 = xs @ ys" "input_moved p1 p2"
      using in_read_slice_ok [OF grown(2,5)] grown(3) p(3) assms(2) by auto
    obtain p3 where "f bs p2 = Inr (v, p3)" "proto_stream pending p3 = ys" "proto_ok ok p3" "input_moved p2 p3"
      using assms(3) p2 p(2) input_movedD(2) [OF grown(4)] input_movedD(2) [OF p2(4)] by (auto simp: receives_def)
    with p2 grown show ?thesis
      by (auto simp: bnd_def intro: input_moved_trans)
  next
    case (short c)
    then show ?thesis using p assms(2) by simp
  qed
qed

lemma receives_byte:
  assumes "receives N (f b) v xs"
  shows "receives N (bnd (in_grow io 1) (\<lambda>_. bnd in_read_1byte f)) v (b # xs)"
proof -
  have eq: "bnd in_read_1byte f = bnd (in_read_slice 1) (\<lambda>bs. f (hd bs))"
    by (rule ext) (auto simp: bnd_def in_read_1byte_slice split: sum.splits)
  show ?thesis
    using receives_slice [of 1 "[b]" N "\<lambda>bs. f (hd bs)" v xs] assms by (simp add: eq)
qed

lemma receives_if:
  "(c \<Longrightarrow> receives N m v xs) \<Longrightarrow> (\<not> c \<Longrightarrow> receives N n v xs) \<Longrightarrow> receives N (if c then m else n) v xs"
  by simp

lemma receives_basic_header:
  assumes "uint (b AND 0x3f) = cid" and "unat (drop_bit 6 b AND 0x03) = fmt" and "1 < cid"
  shows "receives N (read_basic_header io) (fmt, cid) [b]"
proof -
  let ?f = "\<lambda>b. let cid = uint (b AND 0x3f); fmt = unat (drop_bit 6 b AND 0x03)
       in if cid > 1 then ret (fmt, cid)
          else if cid = 0
          then bnd (in_grow io 1) (\<lambda>_. bnd in_read_1byte (\<lambda>b1. ret (fmt, 64 + uint b1)))
          else bnd (srs_assert (\<lambda>_. cid = 1)) (\<lambda>_.
               bnd (in_grow io 2) (\<lambda>_.
               bnd in_read_1byte (\<lambda>b1.
               bnd in_read_1byte (\<lambda>b2. ret (fmt, 64 + uint b1 + uint b2 * 256)))))"
  have "receives N (?f b) (fmt, cid) []" using assms by (simp add: Let_def receives_ret)
  then show ?thesis unfolding read_basic_header_def by (rule receives_byte)
qed

end

end
