(* ===== verification/Chunking.thy ===== *)
theory Chunking
  imports Protocol
begin

text \<open>
  The chunk stream of the two ends of a connection. The receiver of \<open>Protocol\<close> is shown to refine an
  abstract demultiplexer (\<open>demux_run\<close>): whatever the interleaving of the chunks of messages on
  different chunk streams, and however the transport cuts the bytes, it returns the messages of the
  sender with their payloads, in the order in which they are completed. The sender is shown to emit
  chunks of that kind.
\<close>

section \<open>A message as the receiver sees it\<close>

text \<open>The timestamp that goes on the wire, and whether it needs the extended field.\<close>

definition wire_timestamp :: "SrsSharedPtrMessage \<Rightarrow> 32 word" where
  "wire_timestamp m = word_of_int (sm_timestamp m)"

definition wire_extended :: "SrsSharedPtrMessage \<Rightarrow> bool" where
  "wire_extended m \<longleftrightarrow> uint (wire_timestamp m) \<ge> RTMP_EXTENDED_TIMESTAMP"

text \<open>
  The header that the receiver reconstructs from the chunks of \<open>m\<close>: its type, stream, length and
  chunk stream, and its timestamp cut to 31 bits.
\<close>

definition received_header :: "SrsSharedPtrMessage \<Rightarrow> SrsMessageHeader" where
  "received_header m = \<lparr>timestamp_delta = (if wire_extended m then RTMP_EXTENDED_TIMESTAMP else uint (wire_timestamp m)),
     payload_length = sm_payload_length m, message_type = sm_message_type m, stream_id = sm_stream_id m,
     timestamp = uint (wire_timestamp m) mod 2 ^ 31, prefer_cid = sm_prefer_cid m\<rparr>"

definition mh_bytes :: "SrsSharedPtrMessage \<Rightarrow> byte list" where
  "mh_bytes m = (if wire_extended m then [0xFF, 0xFF, 0xFF] else rev (take 3 (le_bytes 4 (uint (wire_timestamp m)))))
     @ rev (take 3 (le_bytes 4 (sm_payload_length m))) @ [sm_message_type m] @ le_bytes 4 (uint (sm_stream_id m))"

definition ext_bytes :: "SrsSharedPtrMessage \<Rightarrow> byte list" where
  "ext_bytes m = (if wire_extended m then rev (le_bytes 4 (uint (wire_timestamp m))) else [])"

lemma chunk_header_c0_bytes:
  "sm_chunk_header 16 True m = (0x00 OR (word_of_int (sm_prefer_cid m) AND 0x3F)) # mh_bytes m @ ext_bytes m"
  by (simp add: sm_chunk_header_def srs_chunk_header_c0_def mh_bytes_def ext_bytes_def wire_extended_def
      wire_timestamp_def not_le)

lemma chunk_header_c3_bytes:
  "sm_chunk_header 16 False m = (0xC0 OR (word_of_int (sm_prefer_cid m) AND 0x3F)) # ext_bytes m"
  by (simp add: sm_chunk_header_def srs_chunk_header_c3_def ext_bytes_def wire_extended_def wire_timestamp_def)

lemma length_mh_bytes [simp]: "length (mh_bytes m) = 11"
  by (simp add: mh_bytes_def)

lemma uint_low_6:
  assumes "0 \<le> c" and "c \<le> 63"
  shows "uint ((word_of_int c :: byte) AND 0x3F) = c"
proof -
  have m: "(0x3F :: byte) = mask 6" by (simp add: mask_eq_exp_minus_1)
  show ?thesis using assms
    by (simp only: m take_bit_eq_mask [symmetric] unsigned_take_bit_eq uint_word_of_int_eq)
      (simp add: take_bit_int_eq_self)
qed

text \<open>The first byte of a chunk gives back its format and its chunk stream id.\<close>

lemma basic_header_byte:
  assumes "0 \<le> c" and "c \<le> 63"
  shows "uint ((0x00 OR (word_of_int c AND 0x3F) :: byte) AND 0x3f) = c"
    and "unat (drop_bit 6 (0x00 OR (word_of_int c AND 0x3F) :: byte) AND 0x03) = 0"
    and "uint ((0xC0 OR (word_of_int c AND 0x3F) :: byte) AND 0x3f) = c"
    and "unat (drop_bit 6 (0xC0 OR (word_of_int c AND 0x3F) :: byte) AND 0x03) = 3"
proof -
  have "(0xC0 OR (w AND 0x3F)) AND 0x3F = w AND 0x3F" for w :: byte
    by (simp add: bit.conj_disj_distrib2)
  then show "uint ((0xC0 OR (word_of_int c AND 0x3F) :: byte) AND 0x3f) = c" by (simp add: uint_low_6 [OF assms])
  show "uint ((0x00 OR (word_of_int c AND 0x3F) :: byte) AND 0x3f) = c" by (simp add: uint_low_6 [OF assms] ac_simps)
  have "drop_bit 6 (0xC0 OR (w AND 0x3F)) AND 0x03 = 3" for w :: byte by (simp add: bit_eq_iff bit_simps)
  then show "unat (drop_bit 6 (0xC0 OR (word_of_int c AND 0x3F) :: byte) AND 0x03) = 3" by simp
  have "drop_bit 6 (w AND 0x3F) = (0::byte)" for w by (simp add: drop_bit_and)
  then show "unat (drop_bit 6 (0x00 OR (word_of_int c AND 0x3F) :: byte) AND 0x03) = 0" by simp
qed

lemma be24_bytes: "0 \<le> v \<Longrightarrow> v < 2 ^ 24 \<Longrightarrow> be24 (rev (take 3 (le_bytes 4 v)) @ xs) = v"
proof -
  have "take 3 (le_bytes 4 v) = le_bytes 3 v" by (simp add: le_bytes_numeral)
  moreover have "le_val (le_bytes 3 v) = v mod 256 ^ 3" by (rule le_val_le_bytes)
  ultimately show "0 \<le> v \<Longrightarrow> v < 2 ^ 24 \<Longrightarrow> ?thesis" by (simp add: be24_def)
qed

text \<open>What the 11 bytes of a type 0 header say, and what is left to the extended timestamp.\<close>

lemma parse_mh_bytes:
  assumes "ck_msg chunk = None" and "0 \<le> sm_payload_length m" and "sm_payload_length m < 2 ^ 24"
    and "prefer_cid (ck_header chunk) = sm_prefer_cid m"
  shows "parse_message_header 0 (mh_bytes m) chunk = Inr (chunk\<lparr>
     ck_header := (received_header m)\<lparr>timestamp := if wire_extended m then timestamp (ck_header chunk)
                                                 else uint (wire_timestamp m)\<rparr>,
     has_extended_timestamp := wire_extended m\<rparr>)"
proof -
  let ?w = "uint (wire_timestamp m)" and ?l = "rev (take 3 (le_bytes 4 (sm_payload_length m)))"
  have w: "\<not> wire_extended m \<Longrightarrow> ?w < 2 ^ 24 - 1" by (simp add: wire_extended_def)
  have ff: "be24 ([0xFF, 0xFF, 0xFF] @ xs) = RTMP_EXTENDED_TIMESTAMP" for xs by (simp add: be24_def)
  have delta: "be24 (mh_bytes m) = (if wire_extended m then RTMP_EXTENDED_TIMESTAMP else ?w)"
    using w by (auto simp: mh_bytes_def be24_bytes ff simp del: append_Cons append_Nil)
  have plen: "be24 (drop 3 (mh_bytes m)) = sm_payload_length m"
    using assms(2,3) be24_bytes by (simp add: mh_bytes_def)
  have mt: "mh_bytes m ! 6 = sm_message_type m" by (simp add: mh_bytes_def nth_append)
  have sid: "word_of_int (le_val (take 4 (drop 7 (mh_bytes m)))) = sm_stream_id m"
    using uint_lt2p [of "sm_stream_id m"] by (simp add: mh_bytes_def le_val_le_bytes)
  have ext: "RTMP_EXTENDED_TIMESTAMP \<le> be24 (mh_bytes m) \<longleftrightarrow> wire_extended m"
    using w delta by (auto simp: wire_extended_def)
  show ?thesis
    using assms(1,4) delta plen mt sid ext w
    by (cases chunk, cases "ck_header chunk") (auto simp: parse_message_header_def Let_def received_header_def wire_extended_def)
qed

lemma and_31_bits:
  "0 \<le> (i::int) \<Longrightarrow> i < 2 ^ 31 \<Longrightarrow> i AND 0x7fffffff = i"
  "uint ((w :: 32 word) AND 0x7fffffff) = uint w mod 2 ^ 31"
proof -
  have m: "(0x7fffffff :: int) = mask 31" "(0x7fffffff :: 32 word) = mask 31" by (simp_all add: mask_eq_exp_minus_1)
  show "0 \<le> i \<Longrightarrow> i < 2 ^ 31 \<Longrightarrow> i AND 0x7fffffff = i"
    by (simp only: m take_bit_eq_mask [symmetric]) (simp add: take_bit_int_eq_self)
  show "uint (w AND 0x7fffffff) = uint w mod 2 ^ 31"
    by (simp only: m take_bit_eq_mask [symmetric] unsigned_take_bit_eq) (simp add: take_bit_eq_mod)
qed

lemma received_timestamp_bounds [simp]: "0 \<le> timestamp (received_header m)" "timestamp (received_header m) < 2147483648"
  by (simp_all add: received_header_def)

lemma payload_length_received: "payload_length (received_header m) = sm_payload_length m"
  by (simp add: received_header_def)

text \<open>The chunk stream after the header of the first chunk of \<open>m\<close>.\<close>

definition header_received :: "SrsSharedPtrMessage \<Rightarrow> SrsChunkStream \<Rightarrow> SrsChunkStream" where
  "header_received m chunk = chunk\<lparr>ck_header := received_header m, has_extended_timestamp := wire_extended m,
     ck_msg := Some (SrsCommonMessage_new\<lparr>cm_header := received_header m\<rparr>), msg_count := msg_count chunk + 1,
     extended_timestamp := (if wire_extended m then wire_timestamp m AND 0x7fffffff else extended_timestamp chunk)\<rparr>"

text \<open>The chunk stream \<open>c\<close> is in the middle of \<open>m\<close>, with the bytes \<open>xs\<close> received.\<close>

definition joining :: "SrsSharedPtrMessage \<Rightarrow> byte list \<Rightarrow> SrsChunkStream \<Rightarrow> bool" where
  "joining m xs c \<longleftrightarrow> ck_header c = received_header m \<and> has_extended_timestamp c = wire_extended m
     \<and> (\<exists>msg. ck_msg c = Some msg \<and> cm_header msg = received_header m
          \<and> cm_payload msg = (if xs = [] then None else Some xs))
     \<and> 0 < msg_count c \<and> (wire_extended m \<longrightarrow> extended_timestamp c = wire_timestamp m AND 0x7fffffff)"

lemma joining_header_received: "0 \<le> msg_count c \<Longrightarrow> joining m [] (header_received m c)"
  by (simp add: joining_def header_received_def SrsCommonMessage_new_def)

context io_input
begin

lemma receives_ext:
  assumes "receives N (f (ext_bytes m)) v xs" and "wire_extended m"
  shows "receives N (bnd (in_grow io 4) (\<lambda>_. bnd (in_read_slice 4) f)) v (ext_bytes m @ xs)"
  using receives_slice [of 4 "ext_bytes m" N f v xs] assms by (simp add: ext_bytes_def)

lemma ext_word: "wire_extended m \<Longrightarrow> word_of_int (le_val (rev (ext_bytes m))) = wire_timestamp m"
  using uint_lt2p [of "wire_timestamp m"] by (simp add: ext_bytes_def le_val_le_bytes)

lemma receives_finish:
  assumes "0 \<le> payload_length (ck_header c)"
    and "h = (ck_header c)\<lparr>timestamp := timestamp (ck_header c) AND 0x7fffffff\<rparr>"
  shows "receives N (finish_message_header msg c)
    (c\<lparr>ck_header := h, ck_msg := Some (msg\<lparr>cm_header := h\<rparr>), msg_count := msg_count c + 1\<rparr>) []"
  using assms by (simp add: receives_def finish_message_header_def bnd_def srs_assert_def ret_def Let_def)

lemma receives_fields_c0:
  assumes "ck_msg chunk = None" and "0 \<le> sm_payload_length m" and "sm_payload_length m < 2 ^ 24"
    and "prefer_cid (ck_header chunk) = sm_prefer_cid m"
  shows "receives N (read_message_fields io chunk 0) (chunk\<lparr>
     ck_header := (received_header m)\<lparr>timestamp := if wire_extended m then timestamp (ck_header chunk)
                                                 else uint (wire_timestamp m)\<rparr>,
     has_extended_timestamp := wire_extended m\<rparr>) (mh_bytes m)" (is "receives N _ ?c _")
proof -
  let ?f = "\<lambda>bs p. case parse_message_header 0 bs chunk of Inl e \<Rightarrow> Inl e | Inr c \<Rightarrow> Inr (c, p)"
  have "receives N (?f (mh_bytes m)) ?c []"
    unfolding parse_mh_bytes [OF assms] by (simp add: receives_def)
  from receives_slice [of 11 "mh_bytes m" N ?f ?c "[]", OF _ _ this] show ?thesis
    by (simp add: read_message_fields_def mh_sizes_def)
qed

lemma receives_extended_c0:
  assumes "wire_extended m"
  shows "receives N (read_extended_timestamp io 0 True c) (c\<lparr>extended_timestamp := wire_timestamp m AND 0x7fffffff,
     ck_header := (ck_header c)\<lparr>timestamp := uint (wire_timestamp m AND 0x7fffffff)\<rparr>\<rparr>) (ext_bytes m)"
proof -
  show ?thesis unfolding read_extended_timestamp_def
    by (rule receives_ext [where xs = "[]", simplified, OF _ assms])
      (simp add: ext_word [OF assms] receives_ret Let_def)
qed

lemma receives_header_c0:
  assumes "ck_msg chunk = None" and "0 \<le> sm_payload_length m" and "sm_payload_length m < 2 ^ 24"
    and "prefer_cid (ck_header chunk) = sm_prefer_cid m"
  shows "receives N (read_message_header io chunk 0) (header_received m chunk) (mh_bytes m @ ext_bytes m)"
proof -
  let ?c1 = "chunk\<lparr>ck_header := (received_header m)\<lparr>timestamp := if wire_extended m then timestamp (ck_header chunk)
                                                 else uint (wire_timestamp m)\<rparr>,
     has_extended_timestamp := wire_extended m\<rparr>"
  let ?c2 = "?c1\<lparr>extended_timestamp := (if wire_extended m then wire_timestamp m AND 0x7fffffff else extended_timestamp chunk),
     ck_header := (received_header m)\<lparr>timestamp := (if wire_extended m then uint (wire_timestamp m AND 0x7fffffff)
         else uint (wire_timestamp m))\<rparr>\<rparr>"
  let ?ext = "\<lambda>c. if has_extended_timestamp c then read_extended_timestamp io 0 True c else ret c"
  have ts: "(if wire_extended m then uint (wire_timestamp m AND 0x7fffffff) else uint (wire_timestamp m)) AND 0x7fffffff
      = timestamp (received_header m)"
    by (auto simp: wire_extended_def and_31_bits received_header_def)
  have "receives N (?ext ?c1) ?c2 (ext_bytes m)"
    using receives_extended_c0 [of m N ?c1] receives_ret [of N ?c1] by (cases chunk) (auto simp: ext_bytes_def)
  moreover have "receives N (finish_message_header SrsCommonMessage_new ?c2) (header_received m chunk) []"
  proof -
    have "received_header m = (ck_header ?c2)\<lparr>timestamp := timestamp (ck_header ?c2) AND 0x7fffffff\<rparr>"
      using ts by simp
    from receives_finish [OF _ this, of N SrsCommonMessage_new] show ?thesis
      using assms(2) by (cases chunk; cases "wire_extended m") (simp_all add: header_received_def payload_length_received)
  qed
  ultimately have "receives N (bnd (?ext ?c1) (finish_message_header SrsCommonMessage_new)) (header_received m chunk) (ext_bytes m @ [])"
    by (rule receives_bnd)
  then have "receives N (bnd (read_message_fields io chunk 0) (\<lambda>c. bnd (?ext c) (finish_message_header SrsCommonMessage_new)))
      (header_received m chunk) (mh_bytes m @ ext_bytes m @ [])"
    by (rule receives_bnd [OF receives_fields_c0 [OF assms]])
  then show ?thesis using assms(1) by (simp add: read_message_header_def Let_def)
qed

lemma receives_extended_c3:
  assumes "wire_extended m" and "extended_timestamp c = wire_timestamp m AND 0x7fffffff"
  shows "receives N (read_extended_timestamp io 3 False c) c (ext_bytes m)"
proof -
  have same: "c\<lparr>extended_timestamp := wire_timestamp m AND 0x7fffffff\<rparr> = c" using assms(2) by (cases c) simp
  show ?thesis unfolding read_extended_timestamp_def using assms(2)
    by (intro receives_ext [where xs = "[]", simplified, OF _ assms(1)])
      (simp add: ext_word [OF assms(1)] receives_ret Let_def same)
qed

lemma receives_header_c3:
  assumes "joining m xs c" and "0 \<le> sm_payload_length m"
  shows "receives N (read_message_header io c 3) (c\<lparr>msg_count := msg_count c + 1\<rparr>) (ext_bytes m)"
proof -
  obtain msg where msg: "ck_msg c = Some msg" "cm_header msg = received_header m" and
    c: "ck_header c = received_header m" "has_extended_timestamp c = wire_extended m" "0 < msg_count c"
    "wire_extended m \<longrightarrow> extended_timestamp c = wire_timestamp m AND 0x7fffffff"
    using assms(1) by (auto simp: joining_def)
  let ?ext = "\<lambda>c. if has_extended_timestamp c then read_extended_timestamp io 3 False c else ret c"
  have f: "receives N (read_message_fields io c 3) c []"
    using msg by (simp add: read_message_fields_def mh_sizes_def receives_def bnd_def ret_def)
  have e: "receives N (?ext c) c (ext_bytes m)"
    using receives_extended_c3 [of m c N] receives_ret [of N c] c by (auto simp: ext_bytes_def)
  have "received_header m = (ck_header c)\<lparr>timestamp := timestamp (ck_header c) AND 0x7fffffff\<rparr>"
    using c(1) by (simp add: and_31_bits)
  from receives_finish [OF _ this, of N msg]
  have "receives N (finish_message_header msg c) (c\<lparr>msg_count := msg_count c + 1\<rparr>) []"
    using c(1) msg assms(2) by (cases c, cases msg) (simp add: received_header_def)
  from receives_bnd [where f = "\<lambda>c. bnd (?ext c) (finish_message_header msg)",
      OF f receives_bnd [where f = "finish_message_header msg", OF e this]] show ?thesis
    using msg c(3) by (simp add: read_message_header_def Let_def)
qed

end

section \<open>Joining interleaved chunks\<close>

definition received_bytes :: "SrsCommonMessage \<Rightarrow> byte list" where
  "received_bytes msg = (case cm_payload msg of None \<Rightarrow> [] | Some bs \<Rightarrow> bs)"

lemma cm_size_received: "cm_size msg = int (length (received_bytes msg))"
  by (simp add: cm_size_def received_bytes_def split: option.splits)

text \<open>The chunk stream that a chunk on \<open>cid\<close> goes to: the known one, or a new one.\<close>

definition stream_of :: "'io SrsProtocol \<Rightarrow> int \<Rightarrow> SrsChunkStream" where
  "stream_of p cid = (case chunk_streams p cid of
     None \<Rightarrow> (SrsChunkStream_new cid)\<lparr>ck_header := SrsMessageHeader_new\<lparr>prefer_cid := cid\<rparr>\<rparr> | Some c \<Rightarrow> c)"

definition payload_received :: "byte list \<Rightarrow> SrsChunkStream \<Rightarrow> SrsChunkStream \<times> SrsCommonMessage option" where
  "payload_received bs c =
     (let msg = the (ck_msg c); msg' = msg\<lparr>cm_payload := Some (received_bytes msg @ bs)\<rparr>
      in if payload_length (ck_header c) = cm_size msg' then (c\<lparr>ck_msg := None\<rparr>, Some msg')
         else (c\<lparr>ck_msg := Some msg'\<rparr>, None))"

context io_input
begin

lemma receives_payload:
  assumes "ck_msg c = Some msg" and "0 < payload_length (ck_header c)"
    and "int (length bs) = min (payload_length (ck_header c) - cm_size msg) N" and "length bs \<le> SRS_DEFAULT_RECV_BUFFER_SIZE"
  shows "receives N (read_message_payload io c) (payload_received bs c) bs"
proof -
  let ?f = "\<lambda>bs. let msg' = msg\<lparr>cm_payload := Some (received_bytes msg @ bs)\<rparr>
                       in if payload_length (ck_header c) = cm_size msg' then ret (c\<lparr>ck_msg := None\<rparr>, Some msg')
                          else ret (c\<lparr>ck_msg := Some msg'\<rparr>, None)"
  have f: "receives N (?f bs) (payload_received bs c) []"
    using assms(1) by (simp add: payload_received_def Let_def receives_ret)
  have "receives N (bnd (in_grow io (int (length bs))) (\<lambda>_. bnd (in_read_slice (int (length bs))) ?f)) (payload_received bs c) bs"
    using receives_slice [where f = ?f, OF assms(4) refl f] by simp
  then show ?thesis
    using assms by (auto simp: receives_def read_message_payload_def Let_def received_bytes_def)
qed

lemma recv_chunk:
  assumes "proto_ok ok p" and "in_chunk_size p = N" and "proto_stream pending p = b # hs @ bs @ ys"
    and "uint (b AND 0x3f) = cid" and "unat (drop_bit 6 b AND 0x03) = fmt" and "1 < cid"
    and "receives N (read_message_header io (stream_of p cid) fmt) c1 hs"
    and "receives N (read_message_payload io c1) (c2, r) bs"
  shows "\<exists>p'. recv_interlaced_message io p = Inr (r, p') \<and> proto_stream pending p' = ys \<and> proto_ok ok p'
    \<and> input_moved (p\<lparr>chunk_streams := (chunk_streams p)(cid \<mapsto> c2)\<rparr>) p'"
proof -
  obtain p1 where p1: "read_basic_header io p = Inr ((fmt, cid), p1)" "proto_stream pending p1 = hs @ bs @ ys"
      "proto_ok ok p1" "input_moved p p1"
    using receives_basic_header [OF assms(4-6), of N] assms(1-3) by (auto simp: receives_def)
  have s: "stream_of p1 cid = stream_of p cid" using input_movedD(1) [OF p1(4)] by (simp add: stream_of_def)
  have "receives N (bnd (read_message_header io (stream_of p cid) fmt) (read_message_payload io)) (c2, r) (hs @ bs)"
    using assms(7,8) by (rule receives_bnd)
  then obtain p2 where p2: "bnd (read_message_header io (stream_of p cid) fmt) (read_message_payload io) p1 = Inr ((c2, r), p2)"
      "proto_stream pending p2 = ys" "proto_ok ok p2" "input_moved p1 p2"
    using p1 assms(2) input_movedD(2) [OF p1(4)] by (auto simp: receives_def)
  let ?p = "p2\<lparr>chunk_streams := (chunk_streams p2)(cid \<mapsto> c2)\<rparr>"
  have "recv_interlaced_message io p = Inr (r, ?p)"
    using p1(1) p2(1) assms(6) s
    by (auto simp: recv_interlaced_message_def bnd_def srs_assert_def stream_of_def [symmetric] split: sum.splits)
  moreover have "input_moved (p\<lparr>chunk_streams := (chunk_streams p)(cid \<mapsto> c2)\<rparr>) ?p"
    using input_moved_trans [OF p1(4) p2(4)] by (cases p, cases p2) (simp add: input_moved_def)
  ultimately show ?thesis using p2 by (auto simp: proto_stream_def proto_ok_def)
qed

end

text \<open>
  The messages the sender may split: a chunk stream id of the one-byte form, and a payload of the
  length its header has, not empty and short enough for the three-byte length.
\<close>

definition sendable :: "SrsSharedPtrMessage \<Rightarrow> bool" where
  "sendable m \<longleftrightarrow> 2 \<le> sm_prefer_cid m \<and> sm_prefer_cid m \<le> 63 \<and> sm_payload m \<noteq> []
     \<and> sm_payload_length m = int (length (sm_payload m)) \<and> length (sm_payload m) < 2 ^ 24"

definition received :: "SrsSharedPtrMessage \<Rightarrow> SrsCommonMessage" where
  "received m = \<lparr>cm_header = received_header m, cm_payload = Some (sm_payload m)\<rparr>"

text \<open>The chunk of \<open>m\<close> that starts at offset \<open>off\<close> of its payload, with a chunk size of \<open>N\<close>.\<close>

definition chunk_wire :: "nat \<Rightarrow> SrsSharedPtrMessage \<times> nat \<Rightarrow> byte list" where
  "chunk_wire N = (\<lambda>(m, off). sm_chunk_header 16 (off = 0) m @ take N (drop off (sm_payload m)))"

lemma payload_received_joining:
  assumes "joining m (take off (sm_payload m)) c" and "sendable m" and "off < length (sm_payload m)" and "0 < N"
  shows "length (sm_payload m) \<le> off + N \<Longrightarrow>
      payload_received (take N (drop off (sm_payload m))) c = (c\<lparr>ck_msg := None\<rparr>, Some (received m))"
    and "off + N < length (sm_payload m) \<Longrightarrow> \<exists>c'.
      payload_received (take N (drop off (sm_payload m))) c = (c', None) \<and> joining m (take (off + N) (sm_payload m)) c'"
proof -
  let ?xs = "sm_payload m" and ?bs = "take N (drop off (sm_payload m))"
  obtain msg where msg: "ck_msg c = Some msg" "cm_header msg = received_header m" "received_bytes msg = take off ?xs"
    using assms(1) by (auto simp: joining_def received_bytes_def)
  have pl: "payload_length (ck_header c) = int (length ?xs)"
    using assms(1,2) by (simp add: joining_def payload_length_received sendable_def)
  have app: "take off ?xs @ ?bs = take (off + N) ?xs" by (simp add: take_add)
  have p: "payload_received ?bs c = (let msg' = msg\<lparr>cm_payload := Some (take (off + N) ?xs)\<rparr> in
      if length ?xs \<le> off + N then (c\<lparr>ck_msg := None\<rparr>, Some msg') else (c\<lparr>ck_msg := Some msg'\<rparr>, None))"
    using msg pl by (auto simp: payload_received_def app cm_size_def Let_def)
  show "length ?xs \<le> off + N \<Longrightarrow> payload_received ?bs c = (c\<lparr>ck_msg := None\<rparr>, Some (received m))"
    using p msg(2) by (cases msg) (simp add: received_def)
  show "\<exists>c'. payload_received ?bs c = (c', None) \<and> joining m (take (off + N) ?xs) c'" if "off + N < length ?xs"
    using p msg(2) that assms(1,4) by (auto simp: joining_def Let_def)
qed

section \<open>Demultiplexing, abstractly\<close>

text \<open>
  The specification of the receiver: per chunk stream id the message that is being received and how
  far it has got. A chunk is expected when it begins a message on an idle stream or goes on with the
  message of its stream; the last chunk of a message completes it.
\<close>

type_synonym demux = "int \<rightharpoonup> SrsSharedPtrMessage \<times> nat"

definition demux_step :: "nat \<Rightarrow> SrsSharedPtrMessage \<times> nat \<Rightarrow> demux \<Rightarrow> (SrsSharedPtrMessage option \<times> demux) option" where
  "demux_step N = (\<lambda>(m, off) A.
     if sendable m \<and> off < length (sm_payload m) \<and> A (sm_prefer_cid m) = (if off = 0 then None else Some (m, off))
     then Some (if length (sm_payload m) \<le> off + N then (Some m, A(sm_prefer_cid m := None))
                else (None, A(sm_prefer_cid m \<mapsto> (m, off + N))))
     else None)"

fun demux_run :: "nat \<Rightarrow> (SrsSharedPtrMessage \<times> nat) list \<Rightarrow> demux \<Rightarrow> (SrsSharedPtrMessage list \<times> demux) option" where
  "demux_run N [] A = Some ([], A)"
| "demux_run N (e # es) A =
     (case demux_step N e A of
        None \<Rightarrow> None
      | Some (r, A1) \<Rightarrow>
          (case demux_run N es A1 of
             None \<Rightarrow> None
           | Some (ms, A2) \<Rightarrow> Some ((case r of None \<Rightarrow> ms | Some m \<Rightarrow> m # ms), A2)))"

text \<open>The chunk streams of the protocol object represent the abstract state.\<close>

definition idle :: "int \<Rightarrow> SrsChunkStream \<Rightarrow> bool" where
  "idle cid c \<longleftrightarrow> ck_msg c = None \<and> prefer_cid (ck_header c) = cid \<and> 0 \<le> msg_count c"

fun represents :: "(SrsSharedPtrMessage \<times> nat) option \<Rightarrow> int \<Rightarrow> SrsChunkStream \<Rightarrow> bool" where
  "represents None cid c = idle cid c"
| "represents (Some (m, off)) cid c \<longleftrightarrow> joining m (take off (sm_payload m)) c \<and> sm_prefer_cid m = cid"

definition joined :: "demux \<Rightarrow> 'io SrsProtocol \<Rightarrow> bool" where
  "joined A p \<longleftrightarrow> (\<forall>cid. represents (A cid) cid (stream_of p cid))"

fun recv_rounds :: "nat \<Rightarrow> 'io ISrsProtocolReadWriter \<Rightarrow> 'io SrsProtocol
    \<Rightarrow> (SrsCommonMessage list \<times> 'io SrsProtocol) result" where
  "recv_rounds 0 io = ret []"
| "recv_rounds (Suc n) io = bnd (recv_interlaced_message io) (\<lambda>r.
     bnd (recv_rounds n io) (\<lambda>rs. ret (case r of None \<Rightarrow> rs | Some m \<Rightarrow> m # rs)))"

lemma stream_of_upd: "stream_of (p\<lparr>chunk_streams := (chunk_streams p)(cid \<mapsto> c)\<rparr>) cid' = (if cid' = cid then c else stream_of p cid')"
  by (simp add: stream_of_def)

lemma joined_moved: "input_moved p q \<Longrightarrow> joined A q = joined A p"
  by (simp add: joined_def stream_of_def input_movedD(1))

lemma joinedD: "joined A p \<Longrightarrow> represents (A cid) cid (stream_of p cid)"
  by (simp add: joined_def)

lemma joined_upd:
  "joined A p \<Longrightarrow> represents e cid c \<Longrightarrow> joined (A(cid := e)) (p\<lparr>chunk_streams := (chunk_streams p)(cid \<mapsto> c)\<rparr>)"
  by (simp add: joined_def stream_of_upd)

lemma joined_new: "joined Map.empty (SrsProtocol_new s)"
  by (simp add: joined_def idle_def stream_of_def SrsProtocol_new_def SrsChunkStream_new_def)

context io_input
begin

text \<open>The header of the next chunk of \<open>m\<close>, the first one or a later one.\<close>

lemma receives_header:
  assumes "represents (if off = 0 then None else Some (m, off)) (sm_prefer_cid m) c" and "sendable m"
    and "off < length (sm_payload m)"
  obtains c1 b hs where "sm_chunk_header 16 (off = 0) m = b # hs" "uint (b AND 0x3f) = sm_prefer_cid m"
    "receives N (read_message_header io c (unat (drop_bit 6 b AND 0x03))) c1 hs"
    "joining m (take off (sm_payload m)) c1"
proof (cases "off = 0")
  case True
  let ?b = "0x00 OR (word_of_int (sm_prefer_cid m) AND 0x3F) :: byte"
  have c: "idle (sm_prefer_cid m) c" using assms(1) True by simp
  show ?thesis
    using c assms(2) True
    by (intro that [of ?b "mh_bytes m @ ext_bytes m" "header_received m c"])
      (simp_all only: chunk_header_c0_bytes basic_header_byte sendable_def idle_def simp_thms take_0
        joining_header_received, auto simp: uint_low_6 intro!: receives_header_c0)
next
  case False
  let ?b = "0xC0 OR (word_of_int (sm_prefer_cid m) AND 0x3F) :: byte"
  have j: "joining m (take off (sm_payload m)) c" using assms(1) False by simp
  have "joining m (take off (sm_payload m)) (c\<lparr>msg_count := msg_count c + 1\<rparr>)"
    using j by (simp add: joining_def)
  then show ?thesis
    using assms(2) False receives_header_c3 [OF j, of N]
    by (intro that [of ?b "ext_bytes m" "c\<lparr>msg_count := msg_count c + 1\<rparr>"])
      (simp_all add: chunk_header_c3_bytes basic_header_byte sendable_def)
qed

lemma recv_demux_step:
  assumes "demux_step N (m, off) A = Some (r, A')" and "joined A p" and "proto_ok ok p" and "in_chunk_size p = int N"
    and "0 < N" and "N \<le> SRS_DEFAULT_RECV_BUFFER_SIZE" and "proto_stream pending p = chunk_wire N (m, off) @ ys"
  obtains p' where "recv_interlaced_message io p = Inr (map_option received r, p')" "joined A' p'" "proto_ok ok p'"
    "in_chunk_size p' = int N" "proto_stream pending p' = ys"
    "input_moved (p\<lparr>chunk_streams := chunk_streams p'\<rparr>) p'"
proof -
  let ?xs = "sm_payload m" and ?cid = "sm_prefer_cid m"
  let ?bs = "take N (drop off ?xs)"
  have m: "sendable m" "off < length ?xs" "A ?cid = (if off = 0 then None else Some (m, off))"
    using assms(1) by (auto simp: demux_step_def split: if_splits)
  then have "represents (if off = 0 then None else Some (m, off)) ?cid (stream_of p ?cid)"
    using joinedD [OF assms(2), of ?cid] by simp
  from receives_header [OF this m(1,2), of "int N"] obtain c1 b hs where
    h: "sm_chunk_header 16 (off = 0) m = b # hs" "uint (b AND 0x3f) = ?cid"
      "receives (int N) (read_message_header io (stream_of p ?cid) (unat (drop_bit 6 b AND 0x03))) c1 hs"
      "joining m (take off ?xs) c1" by blast
  obtain msg where msg: "ck_msg c1 = Some msg" "received_bytes msg = take off ?xs"
      "payload_length (ck_header c1) = int (length ?xs)"
    using h(4) m(1) by (auto simp: joining_def received_bytes_def payload_length_received sendable_def)
  have pay: "receives (int N) (read_message_payload io c1) (payload_received ?bs c1) ?bs"
    using msg m(2) assms(5,6) by (intro receives_payload [of c1 msg]) (auto simp: cm_size_received)
  obtain c2 r' where pr: "payload_received ?bs c1 = (c2, r')" by (cases "payload_received ?bs c1")
  have r: "r' = map_option received r \<and> represents (A' ?cid) ?cid c2 \<and> A' = A(?cid := A' ?cid)"
    using payload_received_joining [OF h(4) m(1,2) assms(5)] pr assms(1) h(4) m
    by (cases "length ?xs \<le> off + N") (auto simp: demux_step_def idle_def joining_def received_header_def)
  have cid: "1 < ?cid" using m(1) by (simp add: sendable_def)
  obtain p' where p': "recv_interlaced_message io p = Inr (r', p')" "proto_stream pending p' = ys" "proto_ok ok p'"
      "input_moved (p\<lparr>chunk_streams := (chunk_streams p)(?cid \<mapsto> c2)\<rparr>) p'"
    using recv_chunk [OF assms(3,4) _ h(2) refl cid h(3), of ?bs ys c2 r'] assms(7) h(1) pay pr
    by (auto simp: chunk_wire_def)
  have "joined A' (p\<lparr>chunk_streams := (chunk_streams p)(?cid \<mapsto> c2)\<rparr>)"
    using joined_upd [OF assms(2), of "A' ?cid" ?cid c2] r by simp
  with p' r show ?thesis
    using input_movedD(1,2) [OF p'(4)] assms(4) by (intro that [of p']) (simp_all add: joined_moved)
qed

text \<open>Any interleaving of the chunks of several messages gives the messages back, in the order of completion.\<close>

lemma recv_demux_run:
  assumes "demux_run N es A = Some (ms, A')" and "joined A p" and "proto_ok ok p" and "in_chunk_size p = int N"
    and "0 < N" and "N \<le> SRS_DEFAULT_RECV_BUFFER_SIZE" and "proto_stream pending p = concat (map (chunk_wire N) es) @ ys"
  shows "\<exists>p'. recv_rounds (length es) io p = Inr (map received ms, p') \<and> joined A' p' \<and> proto_ok ok p'
    \<and> proto_stream pending p' = ys"
  using assms
proof (induction es arbitrary: A ms p)
  case Nil
  then show ?case by (simp add: ret_def)
next
  case (Cons e es)
  obtain m off where e: "e = (m, off)" by (cases e)
  obtain r A1 ms1 where step: "demux_step N (m, off) A = Some (r, A1)" and run: "demux_run N es A1 = Some (ms1, A')"
      and ms: "ms = (case r of None \<Rightarrow> ms1 | Some m \<Rightarrow> m # ms1)"
    using Cons.prems(1) e by (auto split: option.splits prod.splits)
  have "proto_stream pending p = chunk_wire N (m, off) @ concat (map (chunk_wire N) es) @ ys"
    using Cons.prems(7) e by simp
  from recv_demux_step [OF step Cons.prems(2-6) this] obtain p1 where p1:
      "recv_interlaced_message io p = Inr (map_option received r, p1)" "joined A1 p1" "proto_ok ok p1"
      "in_chunk_size p1 = int N" "proto_stream pending p1 = concat (map (chunk_wire N) es) @ ys" .
  from Cons.IH [OF run p1(2-4) Cons.prems(5,6) p1(5)] p1(1) ms show ?case
    by (cases r) (auto simp: bnd_def ret_def)
qed

end

section \<open>The chunks of the sender\<close>

function chunks_from :: "nat \<Rightarrow> SrsSharedPtrMessage \<Rightarrow> nat \<Rightarrow> (SrsSharedPtrMessage \<times> nat) list" where
  "chunks_from N m off = (if 0 < N \<and> off < length (sm_payload m) then (m, off) # chunks_from N m (off + N) else [])"
  by pat_completeness auto
termination
  by (relation "measure (\<lambda>(N, m, off). length (sm_payload m) - off)") auto

declare chunks_from.simps [simp del]

lemma length_chunks_from: "length (chunks_from N m off) \<le> length (sm_payload m) - off"
proof (induction N m off rule: chunks_from.induct)
  case (1 N m off)
  then show ?case by (subst chunks_from.simps) auto
qed

definition chunks_of :: "nat \<Rightarrow> SrsSharedPtrMessage list \<Rightarrow> (SrsSharedPtrMessage \<times> nat) list" where
  "chunks_of N ms = concat (map (\<lambda>m. chunks_from N m 0) ms)"

definition wire :: "nat \<Rightarrow> SrsSharedPtrMessage list \<Rightarrow> byte list" where
  "wire N ms = concat (map (chunk_wire N) (chunks_of N ms))"

lemma wire_Cons: "wire N (m # ms) = concat (map (chunk_wire N) (chunks_from N m 0)) @ wire N ms"
  by (simp add: wire_def chunks_of_def)

lemma wire_Nil: "wire N [] = []"
  by (simp add: wire_def chunks_of_def)

text \<open>The chunks of one message are what the demultiplexer expects.\<close>

lemma demux_run_message:
  assumes "sendable m" and "0 < N" and "off < length (sm_payload m)"
    and "A (sm_prefer_cid m) = (if off = 0 then None else Some (m, off))"
  shows "demux_run N (chunks_from N m off) A = Some ([m], A(sm_prefer_cid m := None))"
  using assms
proof (induction N m off arbitrary: A rule: chunks_from.induct)
  case (1 N m off)
  let ?A = "A(sm_prefer_cid m \<mapsto> (m, off + N))"
  have c: "chunks_from N m off = (m, off) # chunks_from N m (off + N)"
    using 1(3,4) by (subst chunks_from.simps) simp
  show ?case
  proof (cases "off + N < length (sm_payload m)")
    case True
    have "demux_run N (chunks_from N m (off + N)) ?A = Some ([m], ?A(sm_prefer_cid m := None))"
      using 1(3,4) True by (intro 1(1) [OF _ 1(2,3)]) simp_all
    with 1(2-5) True c show ?thesis by (auto simp: demux_step_def fun_eq_iff)
  next
    case False
    then have "chunks_from N m (off + N) = []" by (subst chunks_from.simps) simp
    with 1(2-5) False c show ?thesis by (auto simp: demux_step_def fun_eq_iff)
  qed
qed

lemma demux_run_append:
  "demux_run N es A = Some (ms, A') \<Longrightarrow> demux_run N es' A' = Some (ms', A'') \<Longrightarrow>
     demux_run N (es @ es') A = Some (ms @ ms', A'')"
  by (induction es arbitrary: A ms) (auto split: option.splits prod.splits)

lemma demux_run_messages:
  "\<forall>m \<in> set ms. sendable m \<Longrightarrow> 0 < N \<Longrightarrow> demux_run N (chunks_of N ms) Map.empty = Some (ms, Map.empty)"
proof (induction ms)
  case Nil
  then show ?case by (simp add: chunks_of_def)
next
  case (Cons m ms)
  have "demux_run N (chunks_from N m 0) Map.empty = Some ([m], Map.empty(sm_prefer_cid m := None))"
    using Cons.prems by (intro demux_run_message) (auto simp: sendable_def)
  moreover have "Map.empty(sm_prefer_cid m := None) = Map.empty" by auto
  ultimately show ?case
    using Cons demux_run_append [of N "chunks_from N m 0" Map.empty "[m]" Map.empty "chunks_of N ms" ms Map.empty]
    by (simp add: chunks_of_def)
qed

context io_output
begin

lemma send_chunks_from:
  assumes "0 < N" and "ok s"
  shows "\<exists>s'. send_chunks io (int N) m (off = 0) (drop off (sm_payload m)) s = Inr ((), s')
    \<and> sent s' = sent s @ concat (map (chunk_wire N) (chunks_from N m off)) \<and> pending s' = pending s
    \<and> io_recv_bytes io s' = io_recv_bytes io s \<and> ok s'"
  using assms
proof (induction N m off arbitrary: s rule: chunks_from.induct)
  case (1 N m off)
  let ?xs = "drop off (sm_payload m)"
  let ?h = "sm_chunk_header 16 (off = 0) m"
  show ?case
  proof (cases "?xs = []")
    case True
    then have "chunks_from N m off = []" by (subst chunks_from.simps) simp
    with True 1(3) show ?thesis by (simp add: send_chunks.simps)
  next
    case False
    then have off: "0 < N \<and> off < length (sm_payload m)" using 1(2) by simp
    have sz: "take (nat (min (int N) (int (length ?xs)))) ?xs = take N ?xs"
        "drop (nat (min (int N) (int (length ?xs)))) ?xs = drop (off + N) (sm_payload m)"
      by (auto simp: min_def add.commute)
    obtain s1 where s1: "io_writev io [?h, take N ?xs] s = Inr ((), s1)" "sent s1 = sent s @ ?h @ take N ?xs"
        "pending s1 = pending s" "io_recv_bytes io s1 = io_recv_bytes io s" "ok s1"
      using writev_all [OF 1(3), of "[?h, take N ?xs]"] by auto
    have "\<exists>s'. send_chunks io (int N) m False (drop (off + N) (sm_payload m)) s1 = Inr ((), s')
      \<and> sent s' = sent s1 @ concat (map (chunk_wire N) (chunks_from N m (off + N))) \<and> pending s' = pending s1
      \<and> io_recv_bytes io s' = io_recv_bytes io s1 \<and> ok s'"
      using 1(1) [OF off 1(2) s1(5)] off by simp
    moreover have "chunks_from N m off = (m, off) # chunks_from N m (off + N)"
      using off by (subst chunks_from.simps) simp
    moreover have "send_chunks io (int N) m (off = 0) ?xs s = send_chunks io (int N) m False (drop (off + N) (sm_payload m)) s1"
      using False off s1(1) sz by (subst send_chunks.simps) (auto simp: Let_def)
    ultimately show ?thesis using s1 by (auto simp: chunk_wire_def)
  qed
qed

lemma do_send_messages_wire:
  assumes "0 < N" and "out_chunk_size p = int N" and "ok (skt p)"
  shows "\<exists>s. do_send_messages io (map Some ms) p = Inr ((), p\<lparr>skt := s\<rparr>) \<and> sent s = sent (skt p) @ wire N ms
    \<and> pending s = pending (skt p) \<and> io_recv_bytes io s = io_recv_bytes io (skt p) \<and> ok s"
  using assms
proof (induction ms arbitrary: p)
  case Nil
  then show ?case by (intro exI [of _ "skt p"]) (simp add: wire_Nil)
next
  case (Cons m ms)
  obtain s1 where s1: "send_chunks io (int N) m True (sm_payload m) (skt p) = Inr ((), s1)"
      "sent s1 = sent (skt p) @ concat (map (chunk_wire N) (chunks_from N m 0))" "pending s1 = pending (skt p)"
      "io_recv_bytes io s1 = io_recv_bytes io (skt p)" "ok s1"
    using send_chunks_from [OF Cons.prems(1,3), of m 0] by auto
  have e: "do_send_messages io (map Some (m # ms)) p = do_send_messages io (map Some ms) (p\<lparr>skt := s1\<rparr>)"
    if "sm_payload m \<noteq> []"
    using s1(1) that Cons.prems(2) by (simp add: sm_size_def)
  show ?case
  proof (cases "sm_payload m = []")
    case True
    then have "chunks_from N m 0 = []" by (subst chunks_from.simps) simp
    then show ?thesis using Cons True by (simp add: sm_size_def wire_Cons)
  next
    case False
    show ?thesis using Cons.IH [of "p\<lparr>skt := s1\<rparr>"] Cons.prems s1 e [OF False]
      by (auto simp: wire_Cons)
  qed
qed

end

text \<open>The messages with the stream id set, as \<^verbatim>\<open>send_and_free_messages\<close> sends them.\<close>

fun checked :: "32 word \<Rightarrow> SrsSharedPtrMessage list \<Rightarrow> SrsSharedPtrMessage list" where
  "checked sid [] = []"
| "checked sid (m # ms) = snd (sm_check sid m) # (if fst (sm_check sid m) then ms else checked sid ms)"

lemma check_messages_checked: "check_messages sid (map Some ms) = map Some (checked sid ms)"
  by (induction ms) (simp_all add: case_prod_beta)

lemma sendable_check: "sendable m \<Longrightarrow> sm_check sid m = (sm_stream_id m = sid, m\<lparr>sm_stream_id := sid\<rparr>)"
  by (cases m) (auto simp: sm_check_def sendable_def Let_def)

lemma sendable_stream_id: "sendable (m\<lparr>sm_stream_id := sid\<rparr>) = sendable m"
  by (simp add: sendable_def)

lemma sendable_checked: "\<forall>m \<in> set ms. sendable m \<Longrightarrow> \<forall>m \<in> set (checked sid ms). sendable m"
  by (induction ms) (auto simp: sendable_check sendable_stream_id)

lemma checked_same: "\<forall>m \<in> set ms. sendable m \<and> sm_stream_id m = sid \<Longrightarrow> checked sid ms = ms"
  by (induction ms) (auto simp: sendable_check)

section \<open>Protocol control of the receiver\<close>

definition control_type :: "byte \<Rightarrow> bool" where
  "control_type t \<longleftrightarrow> t = RTMP_MSG_SetChunkSize \<or> t = RTMP_MSG_UserControlMessage \<or> t = RTMP_MSG_WindowAcknowledgementSize"

lemma on_recv_message_media:
  assumes "window (in_ack_size p) = 0" and "\<not> control_type (message_type (cm_header msg))"
  shows "on_recv_message io msg p = Inr ((), p)"
  using assms by (simp add: on_recv_message_def control_type_def response_acknowledgement_message_def bnd_def ret_def Let_def)

lemma moved_streams_trans:
  "input_moved (p\<lparr>chunk_streams := chunk_streams q\<rparr>) q \<Longrightarrow> input_moved (q\<lparr>chunk_streams := chunk_streams r\<rparr>) r \<Longrightarrow>
     input_moved (p\<lparr>chunk_streams := chunk_streams r\<rparr>) r"
  by (cases p, cases q, cases r) (simp add: input_moved_def)

context io_input
begin

text \<open>\<^verbatim>\<open>recv_message\<close> goes on until the message is complete.\<close>

lemma recv_message_from:
  assumes "joined A p" and "sendable m" and "off < length (sm_payload m)"
    and "A (sm_prefer_cid m) = (if off = 0 then None else Some (m, off))"
    and "proto_ok ok p" and "in_chunk_size p = int N" and "0 < N" and "N \<le> SRS_DEFAULT_RECV_BUFFER_SIZE"
    and "proto_stream pending p = concat (map (chunk_wire N) (chunks_from N m off)) @ ys"
    and "window (in_ack_size p) = 0" and "\<not> control_type (sm_message_type m)" and "length (chunks_from N m off) \<le> fuel"
  shows "\<exists>p'. recv_message fuel io p = Inr (received m, p') \<and> joined (A(sm_prefer_cid m := None)) p' \<and> proto_ok ok p'
    \<and> proto_stream pending p' = ys \<and> input_moved (p\<lparr>chunk_streams := chunk_streams p'\<rparr>) p'"
  using assms
proof (induction N m off arbitrary: A p fuel rule: chunks_from.induct)
  case (1 N m off)
  have c: "chunks_from N m off = (m, off) # chunks_from N m (off + N)"
    using 1(4,8) by (subst chunks_from.simps) simp
  then obtain fuel' where fuel: "fuel = Suc fuel'" "length (chunks_from N m (off + N)) \<le> fuel'"
    using 1(13) by (cases fuel) auto
  let ?r = "if length (sm_payload m) \<le> off + N then (Some m, A(sm_prefer_cid m := None))
            else (None, A(sm_prefer_cid m \<mapsto> (m, off + N)))"
  have step: "demux_step N (m, off) A = Some (fst ?r, snd ?r)" using 1(3-5) by (auto simp: demux_step_def)
  have str: "proto_stream pending p = chunk_wire N (m, off) @ concat (map (chunk_wire N) (chunks_from N m (off + N))) @ ys"
    using 1(10) c by simp
  obtain p1 where p1: "recv_interlaced_message io p = Inr (map_option received (fst ?r), p1)" "joined (snd ?r) p1"
      "proto_ok ok p1" "in_chunk_size p1 = int N"
      "proto_stream pending p1 = concat (map (chunk_wire N) (chunks_from N m (off + N))) @ ys"
      "input_moved (p\<lparr>chunk_streams := chunk_streams p1\<rparr>) p1"
    using recv_demux_step [OF step 1(2,6,7,8,9) str] by blast
  have w: "window (in_ack_size p1) = 0" using input_movedD(3) [OF p1(6)] 1(11) by simp
  show ?case
  proof (cases "length (sm_payload m) \<le> off + N")
    case True
    then have "chunks_from N m (off + N) = []" by (subst chunks_from.simps) simp
    moreover have "on_recv_message io (received m) p1 = Inr ((), p1)"
      using w 1(12) by (intro on_recv_message_media) (simp_all add: received_def received_header_def)
    ultimately show ?thesis
      using p1(1,3,5,6) True fuel(1) 1(3) p1(2)
      by (intro exI [of _ p1])
        (simp add: bnd_def ret_def received_def cm_size_def payload_length_received sendable_def, simp add: fun_upd_def)
  next
    case False
    have "\<exists>p'. recv_message fuel' io p1 = Inr (received m, p')
        \<and> joined ((A(sm_prefer_cid m \<mapsto> (m, off + N)))(sm_prefer_cid m := None)) p' \<and> proto_ok ok p' \<and> proto_stream pending p' = ys
        \<and> input_moved (p1\<lparr>chunk_streams := chunk_streams p'\<rparr>) p'"
      using p1(2) False 1(4,8) by (intro 1(1) [OF _ _ 1(3) _ _ p1(3,4) 1(8,9) p1(5) w 1(12) fuel(2)]) (simp_all add: fun_upd_def)
    then have "\<exists>p'. recv_message fuel' io p1 = Inr (received m, p') \<and> joined (A(sm_prefer_cid m := None)) p'
        \<and> proto_ok ok p' \<and> proto_stream pending p' = ys \<and> input_moved (p\<lparr>chunk_streams := chunk_streams p'\<rparr>) p'"
      using moved_streams_trans [OF p1(6)] by auto
    moreover have "recv_message fuel io p = recv_message fuel' io p1"
      using p1(1) False fuel(1) by (simp add: bnd_def)
    ultimately show ?thesis by (simp only:)
  qed
qed

end

section \<open>A sample message\<close>

definition video_sample :: SrsSharedPtrMessage where
  "video_sample = \<lparr>sm_timestamp = 0x12345678, sm_stream_id = 0, sm_payload_length = 3, sm_message_type = RTMP_MSG_VideoMessage,
     sm_prefer_cid = RTMP_CID_Video, sm_payload = [0x17, 0, 9]\<rparr>"

lemma sample_ready:
  "sendable video_sample" "\<not> control_type (sm_message_type video_sample)" "length (sm_payload video_sample) = 3"
  "stfd_valid (skt (SrsProtocol_new (SrsStSocket_new True k)))" "out_chunk_size (SrsProtocol_new s) = int 128"
  "in_chunk_size (SrsProtocol_new s) = int 128" "proto_ok stfd_valid (SrsProtocol_new (SrsStSocket_new True k))"
  "window (in_ack_size (SrsProtocol_new s)) = 0"
  "proto_stream (\<lambda>s. concat (tcp_in (kernel s))) (SrsProtocol_new (SrsStSocket_new True k)) = concat (tcp_in k)"
  by (simp_all add: video_sample_def sendable_def control_type_def proto_ok_def proto_stream_def SrsProtocol_new_def
      SrsFastStream_new_def SrsStSocket_new_def fs_wf_def fs_bytes_def AckWindowSize_new_def)

section \<open>Properties\<close>

text \<open>C2. The receiver refines the demultiplexer: for every interleaving of chunks of messages on
  different chunk streams that the demultiplexer accepts, and every way the transport cuts the bytes,
  one call of \<^verbatim>\<open>recv_interlaced_message\<close> per chunk gives the messages with their payloads and headers,
  in the order in which they are completed, and leaves the bytes that follow.\<close>

theorem recv_interleaved_chunks:
  assumes "io_input io ok pending" and "demux_run N es A = Some (ms, A')" and "joined A p" and "proto_ok ok p"
    and "in_chunk_size p = int N" and "0 < N" and "N \<le> SRS_DEFAULT_RECV_BUFFER_SIZE"
    and "proto_stream pending p = concat (map (chunk_wire N) es) @ ys"
  shows "\<exists>p'. recv_rounds (length es) io p = Inr (map received ms, p') \<and> joined A' p' \<and> proto_ok ok p'
    \<and> proto_stream pending p' = ys"
  using io_input.recv_demux_run [OF assms] .

theorem recv_interleaved_chunks_witness:
  "let v = \<lparr>sm_timestamp = 40, sm_stream_id = 1, sm_payload_length = 3, sm_message_type = RTMP_MSG_VideoMessage,
            sm_prefer_cid = RTMP_CID_Video, sm_payload = [1, 2, 3]\<rparr>;
       a = \<lparr>sm_timestamp = 0x12345678, sm_stream_id = 1, sm_payload_length = 2, sm_message_type = RTMP_MSG_AudioMessage,
            sm_prefer_cid = RTMP_CID_Audio, sm_payload = [4, 5]\<rparr>
   in \<exists>p'. recv_rounds 3 (SrsStSocket_io tcp_recv tcp_send tcp_writev)
        ((SrsProtocol_new (SrsStSocket_new True
            \<lparr>tcp_in = map (chunk_wire 2) [(v, 0), (a, 0), (v, 2)], tcp_room = [], tcp_out = []\<rparr>))\<lparr>in_chunk_size := 2\<rparr>)
        = Inr ([received a, received v], p')"
proof -
  let ?v = "\<lparr>sm_timestamp = 40, sm_stream_id = 1, sm_payload_length = 3, sm_message_type = RTMP_MSG_VideoMessage,
            sm_prefer_cid = RTMP_CID_Video, sm_payload = [1, 2, 3]\<rparr>"
  let ?a = "\<lparr>sm_timestamp = 0x12345678, sm_stream_id = 1, sm_payload_length = 2, sm_message_type = RTMP_MSG_AudioMessage,
            sm_prefer_cid = RTMP_CID_Audio, sm_payload = [4, 5]\<rparr>"
  let ?s = "SrsStSocket_new True \<lparr>tcp_in = map (chunk_wire 2) [(?v, 0), (?a, 0), (?v, 2)], tcp_room = [], tcp_out = []\<rparr>"
  let ?p = "(SrsProtocol_new ?s)\<lparr>in_chunk_size := 2\<rparr>"
  have run: "demux_run 2 [(?v, 0), (?a, 0), (?v, 2)] Map.empty = Some ([?a, ?v], Map.empty)"
    by (simp add: demux_step_def sendable_def fun_eq_iff)
  have j: "joined Map.empty ?p"
    by (simp add: joined_def idle_def stream_of_def SrsProtocol_new_def SrsChunkStream_new_def)
  have ok: "proto_ok stfd_valid ?p"
    by (simp add: proto_ok_def SrsProtocol_new_def SrsFastStream_new_def SrsStSocket_new_def fs_wf_def)
  have st: "proto_stream (\<lambda>s. concat (tcp_in (kernel s))) ?p = concat (map (chunk_wire 2) [(?v, 0), (?a, 0), (?v, 2)]) @ []"
    by (simp add: proto_stream_def SrsProtocol_new_def SrsFastStream_new_def SrsStSocket_new_def fs_bytes_def)
  have "\<exists>p'. recv_rounds (length [(?v, 0::nat), (?a, 0), (?v, 2)]) (SrsStSocket_io tcp_recv tcp_send tcp_writev) ?p
      = Inr (map received [?a, ?v], p')"
    using recv_interleaved_chunks [OF tcp.io_input_axioms run j ok _ _ _ st] by auto
  then show ?thesis by (simp only: Let_def list.size list.map add_0 Suc_eq_plus1 numeral_plus_one semiring_norm one_plus_numeral arith_simps add.commute)
qed

text \<open>C21. What \<^verbatim>\<open>send_and_free_messages\<close> puts on the wire, in chunks of the size the peer was told, is
  received as the same messages in the same order, with the stream id set and the timestamp cut to 31 bits.\<close>

theorem send_recv_messages:
  assumes "io_output io ok pending sent" and "io_input io' ok' pending'"
    and "\<forall>m \<in> set ms. sendable m" and "ms \<noteq> []" and "0 < N" and "N \<le> SRS_DEFAULT_RECV_BUFFER_SIZE"
    and "ok (skt p)" and "out_chunk_size p = int N"
  shows "\<exists>p' bs. send_and_free_messages io (map Some ms) sid p = Inr ((), p') \<and> sent (skt p') = sent (skt p) @ bs
    \<and> (\<forall>q ys. proto_ok ok' q \<longrightarrow> in_chunk_size q = int N \<longrightarrow> joined Map.empty q \<longrightarrow> proto_stream pending' q = bs @ ys \<longrightarrow>
         (\<exists>n q'. recv_rounds n io' q = Inr (map received (checked sid ms), q') \<and> joined Map.empty q'
            \<and> proto_stream pending' q' = ys))"
proof -
  let ?ms = "checked sid ms"
  obtain s where "send_and_free_messages io (map Some ms) sid p = Inr ((), p\<lparr>skt := s\<rparr>)" "sent s = sent (skt p) @ wire N ?ms"
    using io_output.do_send_messages_wire [OF assms(1,5,8,7), of ?ms] assms(4)
    by (auto simp: send_and_free_messages_def check_messages_checked)
  moreover have "\<exists>n q'. recv_rounds n io' q = Inr (map received ?ms, q') \<and> joined Map.empty q' \<and> proto_stream pending' q' = ys"
    if "proto_ok ok' q" "in_chunk_size q = int N" "joined Map.empty q" "proto_stream pending' q = wire N ?ms @ ys" for q ys
    using io_input.recv_demux_run [OF assms(2) demux_run_messages [OF sendable_checked [OF assms(3)] assms(5)]
        that(3,1,2) assms(5,6), of sid ys] that(4) by (auto simp: wire_def)
  ultimately show ?thesis by auto
qed

theorem send_recv_messages_witness:
  "\<exists>p' bs n q'. send_and_free_messages (SrsStSocket_io tcp_recv tcp_send tcp_writev) [Some video_sample, Some video_sample] 1
       (SrsProtocol_new (SrsStSocket_new True \<lparr>tcp_in = [], tcp_room = [], tcp_out = []\<rparr>)) = Inr ((), p')
     \<and> tcp_out (kernel (skt p')) = bs
     \<and> recv_rounds n (SrsStSocket_io tcp_recv tcp_send tcp_writev)
         (SrsProtocol_new (SrsStSocket_new True \<lparr>tcp_in = [bs], tcp_room = [], tcp_out = []\<rparr>))
       = Inr ([received (video_sample\<lparr>sm_stream_id := 1\<rparr>), received (video_sample\<lparr>sm_stream_id := 1\<rparr>)], q')"
proof -
  let ?io = "SrsStSocket_io tcp_recv tcp_send tcp_writev"
  let ?p = "\<lambda>bs. SrsProtocol_new (SrsStSocket_new True \<lparr>tcp_in = [bs], tcp_room = [], tcp_out = []\<rparr>)"
  let ?sender = "SrsProtocol_new (SrsStSocket_new True \<lparr>tcp_in = [], tcp_room = [], tcp_out = []\<rparr>)"
  let ?ms = "[video_sample, video_sample]"
  have pre: "\<forall>m \<in> set ?ms. sendable m" "?ms \<noteq> []" "0 < (128::nat)" "(128::nat) \<le> SRS_DEFAULT_RECV_BUFFER_SIZE"
    by (simp_all add: sample_ready)
  obtain p' bs where s: "send_and_free_messages ?io (map Some ?ms) 1 ?sender = Inr ((), p')"
      "tcp_out (kernel (skt p')) = tcp_out (kernel (skt ?sender)) @ bs"
      and r: "\<forall>q ys. proto_ok stfd_valid q \<longrightarrow> in_chunk_size q = int 128 \<longrightarrow> joined Map.empty q \<longrightarrow>
        proto_stream (\<lambda>s. concat (tcp_in (kernel s))) q = bs @ ys \<longrightarrow>
        (\<exists>n q'. recv_rounds n ?io q = Inr (map received (checked 1 ?ms), q') \<and> joined Map.empty q'
            \<and> proto_stream (\<lambda>s. concat (tcp_in (kernel s))) q' = ys)"
    using send_recv_messages [OF tcp.io_output_axioms tcp.io_input_axioms pre sample_ready(4,5), of 1] by blast
  have c: "checked 1 ?ms = [video_sample\<lparr>sm_stream_id := 1\<rparr>, video_sample\<lparr>sm_stream_id := 1\<rparr>]"
    by (simp add: sendable_check sample_ready)
  have "\<exists>n q'. recv_rounds n ?io (?p bs) = Inr (map received (checked 1 ?ms), q')"
    using r [rule_format, of "?p bs" "[]"] by (auto simp: sample_ready joined_new simp del: recv_rounds.simps checked.simps)
  then have "\<exists>n q'. recv_rounds n ?io (?p bs)
      = Inr ([received (video_sample\<lparr>sm_stream_id := 1\<rparr>), received (video_sample\<lparr>sm_stream_id := 1\<rparr>)], q')"
    by (simp only: c list.map)
  then show ?thesis using s by simp (simp add: SrsProtocol_new_def SrsStSocket_new_def)
qed

text \<open>A message that is not protocol control, sent by one protocol object, is what \<^verbatim>\<open>recv_message\<close> of
  the other returns, within as many rounds as it has chunks.\<close>

theorem send_recv_message:
  assumes "io_output io ok pending sent" and "io_input io' ok' pending'" and "sendable m"
    and "\<not> control_type (sm_message_type m)" and "0 < N" and "N \<le> SRS_DEFAULT_RECV_BUFFER_SIZE"
    and "ok (skt p)" and "out_chunk_size p = int N"
  shows "\<exists>p' bs. send_and_free_message io m sid p = Inr ((), p') \<and> sent (skt p') = sent (skt p) @ bs
    \<and> (\<forall>q ys fuel. proto_ok ok' q \<longrightarrow> in_chunk_size q = int N \<longrightarrow> joined Map.empty q \<longrightarrow> window (in_ack_size q) = 0 \<longrightarrow>
         proto_stream pending' q = bs @ ys \<longrightarrow> length (sm_payload m) \<le> fuel \<longrightarrow>
         (\<exists>q'. recv_message fuel io' q = Inr (received (m\<lparr>sm_stream_id := sid\<rparr>), q') \<and> proto_stream pending' q' = ys))"
proof -
  let ?m = "m\<lparr>sm_stream_id := sid\<rparr>"
  have m: "sendable ?m" "0 < length (sm_payload ?m)" "\<not> control_type (sm_message_type ?m)"
    using assms(3,4) by (auto simp: sendable_def)
  have c: "check_messages sid [Some m] = [Some ?m]" using assms(3) by (simp add: sendable_check)
  obtain s where "send_and_free_message io m sid p = Inr ((), p\<lparr>skt := s\<rparr>)" "sent s = sent (skt p) @ wire N [?m]"
    using io_output.do_send_messages_wire [OF assms(1,5,8,7), of "[?m]"]
    by (auto simp: send_and_free_message_def send_and_free_messages_def c simp del: check_messages.simps do_send_messages.simps)
  moreover have "\<exists>q'. recv_message fuel io' q = Inr (received ?m, q') \<and> proto_stream pending' q' = ys"
    if "proto_ok ok' q" "in_chunk_size q = int N" "joined Map.empty q" "window (in_ack_size q) = 0"
      "proto_stream pending' q = wire N [?m] @ ys" "length (sm_payload m) \<le> fuel" for q ys fuel
    using io_input.recv_message_from [OF assms(2) that(3) m(1,2) _ that(1,2) assms(5,6) _ that(4) m(3), of ys fuel]
      that(5,6) length_chunks_from [of N ?m 0] by (auto simp: wire_def chunks_of_def)
  ultimately show ?thesis by auto
qed

theorem send_recv_message_witness:
  "\<exists>p' bs q'. send_and_free_message (SrsStSocket_io tcp_recv tcp_send tcp_writev) video_sample 1
       (SrsProtocol_new (SrsStSocket_new True \<lparr>tcp_in = [], tcp_room = [], tcp_out = []\<rparr>)) = Inr ((), p')
     \<and> tcp_out (kernel (skt p')) = bs
     \<and> recv_message 3 (SrsStSocket_io tcp_recv tcp_send tcp_writev)
         (SrsProtocol_new (SrsStSocket_new True \<lparr>tcp_in = [bs], tcp_room = [], tcp_out = []\<rparr>))
       = Inr (received (video_sample\<lparr>sm_stream_id := 1\<rparr>), q')"
proof -
  let ?io = "SrsStSocket_io tcp_recv tcp_send tcp_writev"
  let ?p = "\<lambda>bs. SrsProtocol_new (SrsStSocket_new True \<lparr>tcp_in = [bs], tcp_room = [], tcp_out = []\<rparr>)"
  let ?sender = "SrsProtocol_new (SrsStSocket_new True \<lparr>tcp_in = [], tcp_room = [], tcp_out = []\<rparr>)"
  have pre: "0 < (128::nat)" "(128::nat) \<le> SRS_DEFAULT_RECV_BUFFER_SIZE" by simp_all
  obtain p' bs where s: "send_and_free_message ?io video_sample 1 ?sender = Inr ((), p')"
      "tcp_out (kernel (skt p')) = tcp_out (kernel (skt ?sender)) @ bs"
      and r: "\<forall>q ys fuel. proto_ok stfd_valid q \<longrightarrow> in_chunk_size q = int 128 \<longrightarrow> joined Map.empty q \<longrightarrow>
        window (in_ack_size q) = 0 \<longrightarrow> proto_stream (\<lambda>s. concat (tcp_in (kernel s))) q = bs @ ys \<longrightarrow>
        length (sm_payload video_sample) \<le> fuel \<longrightarrow>
        (\<exists>q'. recv_message fuel ?io q = Inr (received (video_sample\<lparr>sm_stream_id := 1\<rparr>), q')
            \<and> proto_stream (\<lambda>s. concat (tcp_in (kernel s))) q' = ys)"
    using send_recv_message [OF tcp.io_output_axioms tcp.io_input_axioms sample_ready(1,2) pre sample_ready(4,5), of 1]
    by blast
  have "\<exists>q'. recv_message 3 ?io (?p bs) = Inr (received (video_sample\<lparr>sm_stream_id := 1\<rparr>), q')"
    using r [rule_format, of "?p bs" "[]" 3] by (auto simp: sample_ready joined_new)
  then show ?thesis using s by simp (simp add: SrsProtocol_new_def SrsStSocket_new_def)
qed

end
