(* ===== verification/Receiver.thy ===== *)
theory Receiver
  imports Chunking
begin

text \<open>
  The receiver of \<open>Protocol\<close> on arbitrary input. The bytes of a peer are not trusted: the theory shows
  that no input makes \<^verbatim>\<open>recv_message\<close> fail an assertion, dereference a null pointer or loop, that the
  fields of the chunk streams stay in their ranges (\<open>proto_inv\<close>), and that the messages it returns
  are complete. The acknowledgements and ping responses that it sends on the way are included.
\<close>

section \<open>Reading arbitrary input\<close>

lemma read_two_bytes:
  fixes f :: "byte \<Rightarrow> byte \<Rightarrow> 'io SrsProtocol \<Rightarrow> ('a \<times> 'io SrsProtocol) result"
  shows "bnd in_read_1byte (\<lambda>b1. bnd in_read_1byte (f b1)) = bnd (in_read_slice 2) (\<lambda>bs. f (bs ! 0) (bs ! 1))"
proof
  fix p :: "'io SrsProtocol"
  let ?fs = "in_buffer p"
  show "bnd in_read_1byte (\<lambda>b1. bnd in_read_1byte (f b1)) p = bnd (in_read_slice 2) (\<lambda>bs. f (bs ! 0) (bs ! 1)) p"
  proof (cases "fs_p ?fs + 2 \<le> length (fs_data ?fs)")
    case True
    then have "take 2 (drop (fs_p ?fs) (fs_data ?fs)) = [fs_data ?fs ! fs_p ?fs, fs_data ?fs ! Suc (fs_p ?fs)]"
      by (simp add: numeral_2_eq_2 Cons_nth_drop_Suc [symmetric])
    with True show ?thesis
      by (simp add: bnd_def in_read_1byte_def in_read_slice_def fs_read_1byte_def fs_read_slice_def fs_size_def fs_bytes_def)
  next
    case False
    then show ?thesis
      by (auto simp: bnd_def in_read_1byte_def in_read_slice_def fs_read_1byte_def fs_read_slice_def fs_size_def fs_bytes_def)
  qed
qed

context io_input
begin

text \<open>
  \<open>receiving k m Q\<close>: on any input \<open>m\<close> returns an error code, or a value with \<open>Q\<close> after at least \<open>k\<close>
  bytes; it touches only the input.
\<close>

definition receiving :: "nat \<Rightarrow> ('io SrsProtocol \<Rightarrow> ('a \<times> 'io SrsProtocol) result) \<Rightarrow> ('a \<Rightarrow> bool) \<Rightarrow> bool" where
  "receiving k m Q \<longleftrightarrow> (\<forall>p. proto_ok ok p \<longrightarrow>
     (case m p of Inl e \<Rightarrow> (\<exists>c. e = Srs_error c)
      | Inr (v, p') \<Rightarrow> Q v \<and> proto_ok ok p' \<and> input_moved p p'
          \<and> (\<exists>xs. k \<le> length xs \<and> proto_stream pending p = xs @ proto_stream pending p')))"

lemma receiving_cases:
  assumes "receiving k m Q" and "proto_ok ok p"
  obtains (error) c where "m p = Inl (Srs_error c)"
    | (returned) v p' xs where "m p = Inr (v, p')" "Q v" "proto_ok ok p'" "input_moved p p'" "k \<le> length xs"
        "proto_stream pending p = xs @ proto_stream pending p'"
proof -
  have "case m p of Inl e \<Rightarrow> (\<exists>c. e = Srs_error c)
      | Inr (v, p') \<Rightarrow> Q v \<and> proto_ok ok p' \<and> input_moved p p'
          \<and> (\<exists>xs. k \<le> length xs \<and> proto_stream pending p = xs @ proto_stream pending p')"
    using assms by (simp add: receiving_def)
  then show ?thesis using error returned by (cases "m p") auto
qed

lemma receiving_bnd:
  assumes "receiving k m Q" and "\<And>v. Q v \<Longrightarrow> receiving j (f v) R"
  shows "receiving (k + j) (bnd m f) R"
  unfolding receiving_def
proof (intro allI impI)
  fix p assume p: "proto_ok ok p"
  from assms(1) p show "case bnd m f p of Inl e \<Rightarrow> \<exists>c. e = Srs_error c
      | Inr (v, p') \<Rightarrow> R v \<and> proto_ok ok p' \<and> input_moved p p'
          \<and> (\<exists>xs. k + j \<le> length xs \<and> proto_stream pending p = xs @ proto_stream pending p')"
  proof (cases rule: receiving_cases)
    case (error c)
    then show ?thesis by (simp add: bnd_def)
  next
    case (returned v p1 xs)
    from assms(2) [OF returned(2)] returned(3) show ?thesis
    proof (cases rule: receiving_cases)
      case (error c)
      then show ?thesis using returned(1) by (simp add: bnd_def)
    next
      case (returned w p2 ys)
      let ?zs = "xs @ ys"
      have "k + j \<le> length ?zs \<and> proto_stream pending p = ?zs @ proto_stream pending p2"
        using returned \<open>k \<le> length xs\<close> \<open>proto_stream pending p = xs @ proto_stream pending p1\<close> by simp
      then show ?thesis
        using returned \<open>m p = Inr (v, p1)\<close> \<open>input_moved p p1\<close> input_moved_trans
        by (auto simp: bnd_def intro!: exI [of _ ?zs] simp del: length_append)
    qed
  qed
qed

lemma receiving_ret: "Q v \<Longrightarrow> receiving 0 (ret v) Q"
  by (simp add: receiving_def ret_def)

lemma receiving_fail: "receiving k (fail (Srs_error c)) Q"
  by (simp add: receiving_def fail_def)

lemma receiving_then: "receiving k m Q \<Longrightarrow> (\<And>v. Q v \<Longrightarrow> receiving 0 (f v) R) \<Longrightarrow> receiving k (bnd m f) R"
  using receiving_bnd [of k m Q 0 f R] by simp

lemma receiving_weaken: "receiving k m Q \<Longrightarrow> k' \<le> k \<Longrightarrow> (\<And>v. Q v \<Longrightarrow> R v) \<Longrightarrow> receiving k' m R"
  unfolding receiving_def by (fastforce split: sum.splits)

lemma in_grow_overflow:
  assumes "proto_ok ok p" and "int SRS_DEFAULT_RECV_BUFFER_SIZE < n"
  shows "in_grow io n p = Inl (Srs_error ERROR_READER_BUFFER_OVERFLOW)"
  using grow_overflow [of "(in_buffer p, skt p)" n] assms by (simp add: in_grow_def proto_ok_def)

text \<open>A refill followed by a read of as many bytes never fails an assertion.\<close>

lemma receiving_slice:
  assumes "0 \<le> n" and "\<And>bs. int (length bs) = n \<Longrightarrow> receiving j (f bs) R"
  shows "receiving (nat n) (bnd (in_grow io n) (\<lambda>_. bnd (in_read_slice n) f)) R"
proof (cases "n \<le> int SRS_DEFAULT_RECV_BUFFER_SIZE")
  case False
  then show ?thesis using in_grow_overflow [of _ n] by (auto simp: receiving_def bnd_def)
next
  case True
  have j: "receiving 0 (f bs) R" if "int (length bs) = n" for bs
    using receiving_weaken [OF assms(2) [OF that], of 0 R] by simp
  have "receiving (nat n) (bnd (in_grow io n) (\<lambda>_. in_read_slice n)) (\<lambda>bs. int (length bs) = n)"
    unfolding receiving_def
  proof (intro allI impI)
    fix p assume p: "proto_ok ok p"
    have n: "nat n \<le> SRS_DEFAULT_RECV_BUFFER_SIZE" "int (nat n) = n" using True assms(1) by auto
    from p n(1) show "case bnd (in_grow io n) (\<lambda>_. in_read_slice n) p of Inl e \<Rightarrow> \<exists>c. e = Srs_error c
        | Inr (v, p') \<Rightarrow> int (length v) = n \<and> proto_ok ok p' \<and> input_moved p p'
            \<and> (\<exists>xs. nat n \<le> length xs \<and> proto_stream pending p = xs @ proto_stream pending p')"
    proof (cases rule: in_grow_cases)
      case (grown p1)
      obtain p2 where p2: "in_read_slice n p1 = Inr (take (nat n) (proto_stream pending p1), p2)" "proto_ok ok p2"
          "proto_stream pending p2 = drop (nat n) (proto_stream pending p1)" "input_moved p1 p2"
        using in_read_slice_ok [OF grown(2,5)] n(2) by auto
      let ?xs = "take (nat n) (proto_stream pending p1)"
      have len: "nat n \<le> length (proto_stream pending p1)" using grown(5) by (simp add: proto_stream_def)
      then have "nat n \<le> length ?xs \<and> proto_stream pending p = ?xs @ proto_stream pending p2"
        using p2(3) grown(3) by simp
      then show ?thesis
        using p2 grown n(2) len assms(1) input_moved_trans [OF grown(4) p2(4)]
        by (auto simp: bnd_def min_absorb2 intro!: exI [of _ ?xs])
    next
      case (short c)
      then show ?thesis using n(2) by (simp add: bnd_def)
    qed
  qed
  from receiving_then [OF this j] show ?thesis by (simp add: bnd_assoc)
qed

end

section \<open>The invariant of the chunk streams\<close>

text \<open>The fields of the header of chunk stream \<open>cid\<close> stay in their ranges.\<close>

definition fields_ok :: "int \<Rightarrow> SrsChunkStream \<Rightarrow> bool" where
  "fields_ok cid c \<longleftrightarrow> prefer_cid (ck_header c) = cid \<and> 0 \<le> payload_length (ck_header c) \<and> payload_length (ck_header c) < 2 ^ 24
     \<and> 0 \<le> timestamp_delta (ck_header c) \<and> timestamp_delta (ck_header c) < 2 ^ 24 \<and> 0 \<le> timestamp (ck_header c)
     \<and> 0 \<le> msg_count c"

text \<open>A message that is being received has its header and is not complete.\<close>

definition chunk_ok :: "int \<Rightarrow> SrsChunkStream \<Rightarrow> bool" where
  "chunk_ok cid c \<longleftrightarrow> fields_ok cid c \<and> timestamp (ck_header c) < 2 ^ 31
     \<and> (\<forall>msg. ck_msg c = Some msg \<longrightarrow> cm_header msg = ck_header c \<and> cm_size msg < payload_length (ck_header c) \<and> 0 < msg_count c)"

text \<open>The state between the header and the payload of a chunk.\<close>

definition header_ok :: "int \<Rightarrow> SrsChunkStream \<Rightarrow> bool" where
  "header_ok cid c \<longleftrightarrow> fields_ok cid c \<and> timestamp (ck_header c) < 2 ^ 31 \<and> 0 < msg_count c
     \<and> (\<exists>msg. ck_msg c = Some msg \<and> cm_header msg = ck_header c
          \<and> (cm_size msg < payload_length (ck_header c) \<or> cm_size msg = 0 \<and> payload_length (ck_header c) = 0))"

definition proto_inv :: "'io SrsProtocol \<Rightarrow> bool" where
  "proto_inv p \<longleftrightarrow> (\<forall>cid c. chunk_streams p cid = Some c \<longrightarrow> 2 \<le> cid \<and> cid \<le> 65599 \<and> chunk_ok cid c)
     \<and> SRS_CONSTS_RTMP_MIN_CHUNK_SIZE \<le> in_chunk_size p \<and> 0 < out_chunk_size p"

text \<open>A message as \<^verbatim>\<open>recv_interlaced_message\<close> returns it: complete.\<close>

definition complete :: "SrsCommonMessage \<Rightarrow> bool" where
  "complete msg \<longleftrightarrow> cm_size msg = payload_length (cm_header msg) \<and> payload_length (cm_header msg) < 2 ^ 24
     \<and> 0 \<le> timestamp (cm_header msg) \<and> timestamp (cm_header msg) < 2 ^ 31
     \<and> 2 \<le> prefer_cid (cm_header msg) \<and> prefer_cid (cm_header msg) \<le> 65599"

lemma proto_inv_new: "proto_inv (SrsProtocol_new s)"
  by (simp add: proto_inv_def SrsProtocol_new_def)

lemma cm_size_nonneg [simp]: "0 \<le> cm_size msg"
  by (simp add: cm_size_received)

lemma chunk_ok_stream_of: "proto_inv p \<Longrightarrow> chunk_ok cid (stream_of p cid)"
proof (cases "chunk_streams p cid")
  case None
  then show ?thesis
    by (simp add: stream_of_def chunk_ok_def fields_ok_def SrsChunkStream_new_def SrsMessageHeader_new_def)
next
  case (Some c)
  moreover assume "proto_inv p"
  ultimately show ?thesis by (simp add: proto_inv_def stream_of_def)
qed

lemma be24_bounds: "0 \<le> be24 bs" "be24 bs < 2 ^ 24"
proof -
  have "be24 bs < 256 ^ length (take 3 bs)" using le_val_less [of "rev (take 3 bs)"] by (simp add: be24_def)
  also have "(256::int) ^ length (take 3 bs) \<le> 256 ^ 3" by (rule power_increasing) auto
  finally show "be24 bs < 2 ^ 24" by simp
qed (simp add: be24_def)

lemma and_31_bounds: "0 \<le> (i::int) AND 0x7fffffff" "(i::int) AND 0x7fffffff < 2 ^ 31"
proof -
  have m: "(0x7fffffff :: int) = mask 31" by (simp add: mask_eq_exp_minus_1)
  show "i AND 0x7fffffff < 2 ^ 31" "0 \<le> i AND 0x7fffffff"
    unfolding m take_bit_eq_mask [symmetric] by (simp_all only: take_bit_int_less_exp take_bit_nonnegative)
qed

text \<open>
  What a header may do to the chunk stream: the message being received, its length included, stays.
\<close>

definition header_step :: "SrsChunkStream \<Rightarrow> SrsChunkStream \<Rightarrow> bool" where
  "header_step c c' \<longleftrightarrow> ck_msg c' = ck_msg c \<and> msg_count c' = msg_count c
     \<and> (ck_msg c \<noteq> None \<longrightarrow> payload_length (ck_header c') = payload_length (ck_header c))"

lemma parse_message_header_ok:
  assumes "parse_message_header fmt bs c = Inr c'" and "fields_ok cid c"
  shows "fields_ok cid c' \<and> header_step c c'"
  using assms be24_bounds [of bs] be24_bounds [of "drop 3 bs"]
  by (auto simp: parse_message_header_def Let_def fields_ok_def header_step_def split: if_splits)

lemma parse_message_header_error: "parse_message_header fmt bs c = Inl e \<Longrightarrow> e = Srs_error ERROR_RTMP_PACKET_SIZE"
  by (auto simp: parse_message_header_def Let_def split: if_splits)

lemma header_step_trans: "header_step a b \<Longrightarrow> header_step b c \<Longrightarrow> header_step a c"
  by (auto simp: header_step_def)

context io_input
begin

lemma receiving_byte:
  assumes "\<And>b. receiving 0 (f b) R"
  shows "receiving 1 (bnd (in_grow io 1) (\<lambda>_. bnd in_read_1byte f)) R"
proof -
  have eq: "bnd in_read_1byte f = bnd (in_read_slice 1) (\<lambda>bs. f (hd bs))"
    by (rule ext) (auto simp: bnd_def in_read_1byte_slice split: sum.splits)
  show ?thesis using receiving_slice [of 1 0 "\<lambda>bs. f (hd bs)" R] assms by (simp add: eq)
qed

lemma receiving_assert: "P \<Longrightarrow> receiving 0 m Q \<Longrightarrow> receiving 0 (bnd (srs_assert (\<lambda>_. P)) (\<lambda>_. m)) Q"
  by (simp add: receiving_def bnd_def srs_assert_def)

lemma receiving_basic_header: "receiving 1 (read_basic_header io) (\<lambda>(fmt, cid). fmt \<le> 3 \<and> 2 \<le> cid \<and> cid \<le> 65599)"
  unfolding read_basic_header_def
proof (rule receiving_byte)
  fix b :: byte
  let ?Q = "\<lambda>(fmt::nat, cid::int). fmt \<le> 3 \<and> 2 \<le> cid \<and> cid \<le> 65599"
  let ?cid = "uint (b AND 0x3f)" and ?fmt = "unat (drop_bit 6 b AND 0x03)"
  have "drop_bit 6 b AND 0x03 \<le> 3" by (rule word_and_le1)
  then have fmt: "?fmt \<le> 3" by (simp add: word_le_nat_alt)
  have "b AND 0x3f \<le> 0x3f" by (rule word_and_le1)
  then have cid: "0 \<le> ?cid" "?cid \<le> 63" by (simp_all add: word_le_def)
  have cid1: "?cid \<noteq> 0 \<Longrightarrow> \<not> 1 < ?cid \<Longrightarrow> ?cid = 1" "1 < ?cid \<Longrightarrow> 2 \<le> ?cid \<and> ?cid \<le> 65599" using cid by linarith+
  have le: "uint b' \<le> 255" for b' :: byte using uint_byte_bound(1) [of b'] by linarith
  have le2: "uint b1 + uint b2 * 256 \<le> 65535" for b1 b2 :: byte using le [of b1] le [of b2] by linarith
  have one: "receiving 0 (bnd (in_grow io 1) (\<lambda>_. bnd in_read_1byte (\<lambda>b1. ret (?fmt, 64 + uint b1)))) ?Q"
    using fmt le2 [of _ 0] by (intro receiving_weaken [OF receiving_byte] receiving_ret) auto
  have two: "receiving 0 (bnd (in_grow io 2) (\<lambda>_. bnd in_read_1byte (\<lambda>b1.
               bnd in_read_1byte (\<lambda>b2. ret (?fmt, 64 + uint b1 + uint b2 * 256))))) ?Q"
    unfolding read_two_bytes
    using fmt le2 by (intro receiving_weaken [OF receiving_slice [where j = 0]] receiving_ret) (auto simp: add.assoc)
  show "receiving 0 (let cid = ?cid; fmt = ?fmt
       in if cid > 1 then ret (fmt, cid)
          else if cid = 0
          then bnd (in_grow io 1) (\<lambda>_. bnd in_read_1byte (\<lambda>b1. ret (fmt, 64 + uint b1)))
          else bnd (srs_assert (\<lambda>_. cid = 1)) (\<lambda>_.
               bnd (in_grow io 2) (\<lambda>_.
               bnd in_read_1byte (\<lambda>b1.
               bnd in_read_1byte (\<lambda>b2. ret (fmt, 64 + uint b1 + uint b2 * 256)))))) ?Q"
    using fmt one two cid1 by (auto simp: Let_def intro!: receiving_ret receiving_assert)
qed

lemma receiving_finish:
  assumes "fields_ok cid c" and "cm_size msg < payload_length (ck_header c) \<or> cm_size msg = 0 \<and> payload_length (ck_header c) = 0"
  shows "receiving 0 (finish_message_header msg c) (header_ok cid)"
  using assms and_31_bounds
  by (simp add: finish_message_header_def Let_def receiving_def bnd_def srs_assert_def ret_def header_ok_def fields_ok_def cm_size_def)

lemma receiving_fields:
  assumes "fields_ok cid c" and "fmt \<le> 3"
  shows "receiving 0 (read_message_fields io c fmt) (\<lambda>c'. fields_ok cid c' \<and> header_step c c')" (is "receiving 0 _ ?Q")
proof (cases "fmt \<le> 2")
  case True
  then have mh: "0 < mh_sizes fmt" by (cases fmt rule: nat.exhaust) (auto simp: mh_sizes_def nth_Cons split: nat.splits)
  have "receiving 0 (\<lambda>p. case parse_message_header fmt bs c of Inl e \<Rightarrow> Inl e | Inr c \<Rightarrow> Inr (c, p)) ?Q" for bs
    using parse_message_header_ok [OF _ assms(1), of fmt bs] parse_message_header_error [of fmt bs c]
    by (cases "parse_message_header fmt bs c") (auto simp: receiving_def)
  then show ?thesis using True mh
    by (auto simp: read_message_fields_def Let_def intro!: receiving_weaken [OF receiving_slice [where j = 0]])
next
  case False
  then have "fmt = 3" using assms(2) by simp
  then show ?thesis using assms(1)
    by (auto simp: read_message_fields_def mh_sizes_def receiving_def bnd_def ret_def fields_ok_def header_step_def)
qed

lemma receiving_extended:
  assumes "fields_ok cid c"
  shows "receiving 0 (read_extended_timestamp io fmt first c) (\<lambda>c'. fields_ok cid c' \<and> header_step c c')"
  unfolding receiving_def
proof (intro allI impI)
  fix p assume p: "proto_ok ok p"
  let ?Q = "\<lambda>c'. fields_ok cid c' \<and> header_step c c'"
  have n: "4 \<le> SRS_DEFAULT_RECV_BUFFER_SIZE" by simp
  from p n have "(\<exists>e. read_extended_timestamp io fmt first c p = Inl (Srs_error e))
      \<or> (\<exists>c' p'. read_extended_timestamp io fmt first c p = Inr (c', p') \<and> ?Q c' \<and> proto_ok ok p' \<and> input_moved p p'
          \<and> (\<exists>xs. proto_stream pending p = xs @ proto_stream pending p'))"
  proof (cases rule: in_grow_cases)
    case (grown p1)
    obtain p2 where p2: "in_read_slice 4 p1 = Inr (take 4 (proto_stream pending p1), p2)" "proto_ok ok p2"
        "proto_stream pending p2 = drop 4 (proto_stream pending p1)" "input_moved p1 p2" "in_skip (- 4) p2 = Inr ((), p1)"
      using in_read_slice_ok [OF grown(2,5)] by auto
    have 1: "\<exists>xs. proto_stream pending p = xs @ proto_stream pending p1" using grown(3) by auto
    have 2: "\<exists>xs. proto_stream pending p = xs @ proto_stream pending p2"
      using grown(3) p2(3) by (intro exI [of _ "take 4 (proto_stream pending p1)"]) simp
    let ?bs = "take 4 (proto_stream pending p1)"
    have "(read_extended_timestamp io fmt first c p = Inr (c, p1))
        \<or> (\<exists>c'. read_extended_timestamp io fmt first c p = Inr (c', p2) \<and> ?Q c')"
      using grown(1) p2(1,5) assms
      by (simp add: read_extended_timestamp_def bnd_def ret_def Let_def fields_ok_def header_step_def)
    then show ?thesis
      using assms grown p2 1 2 input_moved_trans [OF grown(4) p2(4)] by (auto simp: header_step_def)
  next
    case (short c)
    then show ?thesis by (simp add: read_extended_timestamp_def bnd_def)
  qed
  then show "case read_extended_timestamp io fmt first c p of Inl e \<Rightarrow> \<exists>c. e = Srs_error c
      | Inr (v, p') \<Rightarrow> ?Q v \<and> proto_ok ok p' \<and> input_moved p p'
          \<and> (\<exists>xs. 0 \<le> length xs \<and> proto_stream pending p = xs @ proto_stream pending p')"
    by auto
qed

lemma receiving_header:
  assumes "chunk_ok cid c" and "fmt \<le> 3"
  shows "receiving 0 (read_message_header io c fmt) (header_ok cid)"
proof -
  let ?Q = "\<lambda>c'. fields_ok cid c' \<and> header_step c c'"
  let ?msg = "case ck_msg c of None \<Rightarrow> SrsCommonMessage_new | Some m \<Rightarrow> m"
  have c: "fields_ok cid c" using assms(1) by (simp add: chunk_ok_def)
  have ext: "receiving 0 (if has_extended_timestamp c1 then read_extended_timestamp io fmt first c1 else ret c1) ?Q"
    if "?Q c1" for c1 first
    using that receiving_weaken [OF receiving_extended [of cid c1 fmt first], of 0 ?Q] header_step_trans [of c c1]
    by (auto intro!: receiving_ret)
  have fin: "receiving 0 (finish_message_header ?msg c2) (header_ok cid)" if "?Q c2" for c2
  proof (rule receiving_finish)
    show "fields_ok cid c2" using that by simp
    have "0 \<le> payload_length (ck_header c2)" using that by (simp add: fields_ok_def)
    then show "cm_size ?msg < payload_length (ck_header c2) \<or> cm_size ?msg = 0 \<and> payload_length (ck_header c2) = 0"
      using that assms(1) by (cases "ck_msg c") (auto simp: header_step_def chunk_ok_def SrsCommonMessage_new_def cm_size_def)
  qed
  have "receiving 0 (bnd (read_message_fields io c fmt) (\<lambda>c1. bnd (if has_extended_timestamp c1
      then read_extended_timestamp io fmt first c1 else ret c1) (finish_message_header ?msg))) (header_ok cid)" for first
    by (rule receiving_then [OF receiving_fields [OF c assms(2)]], rule receiving_then [OF ext], assumption, rule fin)
  then show ?thesis
    by (auto simp: read_message_header_def Let_def intro: receiving_fail)
qed

text \<open>The payload: the part of \<^verbatim>\<open>read_message_payload\<close> that depends on the state only by the chunk size.\<close>

lemma receiving_payload:
  assumes "header_ok cid c" and "proto_ok ok p" and "0 < in_chunk_size p" and "2 \<le> cid" and "cid \<le> 65599"
  shows "(\<exists>e. read_message_payload io c p = Inl (Srs_error e))
    \<or> (\<exists>c' r p' xs. read_message_payload io c p = Inr ((c', r), p') \<and> chunk_ok cid c'
        \<and> (\<forall>msg. r = Some msg \<longrightarrow> complete msg \<and> ck_msg c' = None) \<and> proto_ok ok p' \<and> input_moved p p'
        \<and> proto_stream pending p = xs @ proto_stream pending p')"
proof -
  let ?plen = "payload_length (ck_header c)"
  obtain msg where msg: "ck_msg c = Some msg" "cm_header msg = ck_header c"
      "cm_size msg < ?plen \<or> cm_size msg = 0 \<and> ?plen = 0"
    using assms(1) by (auto simp: header_ok_def)
  have c: "fields_ok cid c" "timestamp (ck_header c) < 2 ^ 31" "0 < msg_count c" using assms(1) by (auto simp: header_ok_def)
  show ?thesis
  proof (cases "?plen \<le> 0")
    case True
    then have "read_message_payload io c p = Inr ((c\<lparr>ck_msg := None\<rparr>, Some msg), p)"
      using msg(1) by (simp add: read_message_payload_def)
    moreover have "?plen = 0" "cm_size msg = 0"
      using True msg(3) c(1) cm_size_nonneg [of msg] by (auto simp: fields_ok_def)
    ultimately show ?thesis using msg(2) c assms
      by (auto simp: chunk_ok_def fields_ok_def complete_def)
  next
    case False
    let ?n = "min (?plen - cm_size msg) (in_chunk_size p)"
    let ?f = "\<lambda>bs. let msg' = msg\<lparr>cm_payload := Some (received_bytes msg @ bs)\<rparr>
                       in if ?plen = cm_size msg' then ret (c\<lparr>ck_msg := None\<rparr>, Some msg')
                          else ret (c\<lparr>ck_msg := Some msg'\<rparr>, None)"
    let ?Q = "\<lambda>(c', r). chunk_ok cid c' \<and> (\<forall>msg. r = Some msg \<longrightarrow> complete msg \<and> ck_msg c' = None)"
    have n: "0 < ?n" using msg(3) assms(3) False by auto
    have f: "receiving 0 (?f bs) ?Q" if "int (length bs) = ?n" for bs
    proof -
      let ?msg = "msg\<lparr>cm_payload := Some (received_bytes msg @ bs)\<rparr>"
      have "cm_size ?msg = cm_size msg + ?n" using that by (simp add: cm_size_received received_bytes_def)
      then show ?thesis using msg c assms(4,5)
        by (auto simp: Let_def chunk_ok_def fields_ok_def complete_def intro!: receiving_ret)
    qed
    have eq: "read_message_payload io c p = bnd (in_grow io ?n) (\<lambda>_. bnd (in_read_slice ?n) ?f) p"
      using False msg(1) by (simp add: read_message_payload_def Let_def received_bytes_def)
    have "receiving (nat ?n) (bnd (in_grow io ?n) (\<lambda>_. bnd (in_read_slice ?n) ?f)) ?Q"
      using n f by (intro receiving_slice [where j = 0]) auto
    from this assms(2) show ?thesis
      by (cases rule: receiving_cases) (auto simp: eq)
  qed
qed

text \<open>One chunk of arbitrary input: an error, or at least one byte consumed and the invariant kept.\<close>

lemma recv_interlaced_cases:
  assumes "proto_ok ok p" and "proto_inv p"
  obtains (error) e where "recv_interlaced_message io p = Inl (Srs_error e)"
    | (chunk) r p' xs cid c where "recv_interlaced_message io p = Inr (r, p')" "proto_ok ok p'" "proto_inv p'"
        "proto_stream pending p = xs @ proto_stream pending p'" "xs \<noteq> []" "\<And>msg. r = Some msg \<Longrightarrow> complete msg"
        "input_moved (p\<lparr>chunk_streams := (chunk_streams p)(cid \<mapsto> c)\<rparr>) p'"
  using receiving_basic_header assms(1)
proof (cases rule: receiving_cases)
  case (error c)
  then show ?thesis using that(1) by (simp add: recv_interlaced_message_def bnd_def)
next
  case (returned v p1 xs)
  obtain fmt cid where v: "v = (fmt, cid)" "fmt \<le> 3" "2 \<le> cid" "cid \<le> 65599" using returned(2) by (cases v) auto
  have p1: "chunk_streams p1 = chunk_streams p" "in_chunk_size p1 = in_chunk_size p" "out_chunk_size p1 = out_chunk_size p"
    using input_movedD [OF returned(4)] by auto
  have eq: "recv_interlaced_message io p = bnd (read_message_header io (stream_of p cid) fmt) (\<lambda>chunk1.
          bnd (read_message_payload io chunk1) (\<lambda>(chunk2, msg) p'.
            Inr (msg, p'\<lparr>chunk_streams := (chunk_streams p')(cid \<mapsto> chunk2)\<rparr>))) p1"
    using returned(1) v p1 by (simp add: recv_interlaced_message_def bnd_def srs_assert_def stream_of_def Let_def)
  from receiving_header [OF chunk_ok_stream_of [OF assms(2), of cid] v(2)] returned(3) show ?thesis
  proof (cases rule: receiving_cases)
    case (error c)
    then show ?thesis using eq that(1) by (simp add: bnd_def)
  next
    case h: (returned c1 p2 ys)
    have n: "0 < in_chunk_size p2" using input_movedD(2) [OF h(4)] p1 assms(2) by (simp add: proto_inv_def)
    from receiving_payload [OF h(2,3) n v(3,4)] show ?thesis
    proof (elim disjE exE conjE)
      fix e assume "read_message_payload io c1 p2 = Inl (Srs_error e)"
      then show ?thesis using eq h(1) that(1) by (simp add: bnd_def)
    next
      fix c2 r p3 zs
      assume q: "read_message_payload io c1 p2 = Inr ((c2, r), p3)" "chunk_ok cid c2" "proto_ok ok p3" "input_moved p2 p3"
        "\<forall>msg. r = Some msg \<longrightarrow> complete msg \<and> ck_msg c2 = None" "proto_stream pending p2 = zs @ proto_stream pending p3"
      have m: "input_moved p p3" using input_moved_trans [OF returned(4) input_moved_trans [OF h(4) q(4)]] .
      let ?p = "p3\<lparr>chunk_streams := (chunk_streams p3)(cid \<mapsto> c2)\<rparr>"
      have "input_moved (p\<lparr>chunk_streams := (chunk_streams p)(cid \<mapsto> c2)\<rparr>) ?p"
        using m by (cases p, cases p3) (simp add: input_moved_def)
      moreover have "proto_inv ?p" using assms(2) q(2) v input_movedD(1,2,7) [OF m] by (auto simp: proto_inv_def)
      moreover have "recv_interlaced_message io p = Inr (r, ?p)" using eq h(1) q(1) by (simp add: bnd_def)
      moreover have "proto_ok ok ?p" "proto_stream pending ?p = proto_stream pending p3"
        using q(3) by (simp_all add: proto_ok_def proto_stream_def)
      ultimately show ?thesis
        using q(5,6) h(6) returned(5,6) by (intro that(2) [of r ?p "xs @ ys @ zs" cid c2]) auto
    qed
  qed
qed

end

section \<open>Sending a packet\<close>

text \<open>The message that carries a packet.\<close>

definition packet_header :: "SrsPacket \<Rightarrow> 32 word \<Rightarrow> SrsMessageHeader" where
  "packet_header packet sid = SrsMessageHeader_new\<lparr>payload_length := get_size packet, message_type := get_message_type packet,
     stream_id := sid, prefer_cid := get_prefer_cid packet\<rparr>"

definition packet_message :: "SrsPacket \<Rightarrow> 32 word \<Rightarrow> SrsSharedPtrMessage" where
  "packet_message packet sid = \<lparr>sm_timestamp = 0, sm_stream_id = sid, sm_payload_length = get_size packet,
     sm_message_type = get_message_type packet, sm_prefer_cid = get_prefer_cid packet, sm_payload = packet_bytes packet\<rparr>"

lemma to_msg_packet:
  assumes "packet \<noteq> SrsPacketBase"
  shows "to_msg new_payload packet sid SrsCommonMessage_new
    = Inr \<lparr>cm_header = packet_header packet sid, cm_payload = Some (packet_bytes packet)\<rparr>"
proof -
  have "SrsPacket_encode new_payload packet = Inr (get_size packet, Some (packet_bytes packet))"
    by (rule encode_all [OF assms]) (simp add: new_payload_def)
  moreover have "0 < get_size packet"
    using packet_bytes_nonempty [OF assms] unfolding length_packet_bytes [symmetric] by simp
  ultimately show ?thesis
    by (simp add: to_msg_def packet_header_def SrsCommonMessage_create_def SrsCommonMessage_new_def)
qed

lemma create_packet_message:
  "SrsSharedPtrMessage_create_msg \<lparr>cm_header = packet_header packet sid, cm_payload = Some (packet_bytes packet)\<rparr>
     = Inr (packet_message packet sid, \<lparr>cm_header = packet_header packet sid, cm_payload = None\<rparr>)"
  by (simp add: SrsSharedPtrMessage_create_msg_def SrsSharedPtrMessage_create_def cm_size_def packet_header_def
      packet_message_def SrsMessageHeader_new_def length_packet_bytes [symmetric])

lemma check_packet_message: "packet \<noteq> SrsPacketBase \<Longrightarrow> sm_check sid (packet_message packet sid) = (True, packet_message packet sid)"
  by (cases packet) (simp_all add: sm_check_def packet_message_def)

context io_output
begin

text \<open>A packet goes out whole, as the chunks of its message.\<close>

lemma send_packet:
  assumes "packet \<noteq> SrsPacketBase" and "0 < N" and "out_chunk_size p = int N" and "ok (skt p)"
  shows "\<exists>s. do_send_and_free_packet io packet sid p = on_send_packet (packet_header packet sid) packet (p\<lparr>skt := s\<rparr>)
    \<and> sent s = sent (skt p) @ wire N [packet_message packet sid] \<and> pending s = pending (skt p)
    \<and> io_recv_bytes io s = io_recv_bytes io (skt p) \<and> ok s"
proof -
  obtain s where s: "do_send_messages io (map Some [packet_message packet sid]) p = Inr ((), p\<lparr>skt := s\<rparr>)"
      "sent s = sent (skt p) @ wire N [packet_message packet sid]" "pending s = pending (skt p)"
      "io_recv_bytes io s = io_recv_bytes io (skt p)" "ok s"
    using do_send_messages_wire [OF assms(2-4), of "[packet_message packet sid]"] by blast
  then have "send_and_free_message io (packet_message packet sid) sid p = Inr ((), p\<lparr>skt := s\<rparr>)"
    using check_packet_message [OF assms(1)] by (simp add: send_and_free_message_def send_and_free_messages_def)
  with s show ?thesis
    by (intro exI [of _ s]) (simp add: do_send_and_free_packet_def to_msg_packet [OF assms(1)] create_packet_message bnd_def)
qed

text \<open>\<open>kept p p'\<close>: the protocol object is in order, with the input and the chunk streams of \<open>p\<close>.\<close>

definition kept :: "'io SrsProtocol \<Rightarrow> 'io SrsProtocol \<Rightarrow> bool" where
  "kept p p' \<longleftrightarrow> proto_ok ok p' \<and> proto_inv p' \<and> proto_stream pending p' = proto_stream pending p
     \<and> chunk_streams p' = chunk_streams p"

lemma kept_refl: "proto_ok ok p \<Longrightarrow> proto_inv p \<Longrightarrow> kept p p"
  by (simp add: kept_def)

lemma kept_trans: "kept p q \<Longrightarrow> kept q r \<Longrightarrow> kept p r"
  by (simp add: kept_def)

lemma send_packet_kept:
  assumes "proto_ok ok p" and "proto_inv p" and "packet \<noteq> SrsPacketBase"
    and "get_message_type packet = RTMP_MSG_Acknowledgement \<or> get_message_type packet = RTMP_MSG_UserControlMessage"
  shows "\<exists>p'. do_send_and_free_packet io packet sid p = Inr ((), p') \<and> kept p p'"
proof -
  have n: "0 < nat (out_chunk_size p)" "out_chunk_size p = int (nat (out_chunk_size p))" "ok (skt p)"
    using assms(1,2) by (auto simp: proto_inv_def proto_ok_def)
  obtain s where s: "do_send_and_free_packet io packet sid p = on_send_packet (packet_header packet sid) packet (p\<lparr>skt := s\<rparr>)"
      "pending s = pending (skt p)" "ok s"
    using send_packet [OF assms(3) n] by blast
  have "on_send_packet (packet_header packet sid) packet (p\<lparr>skt := s\<rparr>) = Inr ((), p\<lparr>skt := s\<rparr>)"
    using assms(4) by (auto simp: on_send_packet_def packet_header_def)
  with s assms(1,2) show ?thesis
    by (auto simp: kept_def proto_ok_def proto_inv_def proto_stream_def)
qed

lemma response_ack_kept:
  assumes "proto_ok ok p" and "proto_inv p"
  shows "\<exists>p'. response_acknowledgement_message io p = Inr ((), p') \<and> kept p p'"
proof -
  have k: "kept p (p\<lparr>in_ack_size := a\<rparr>)" "proto_ok ok (p\<lparr>in_ack_size := a\<rparr>)" "proto_inv (p\<lparr>in_ack_size := a\<rparr>)" for a
    using assms by (auto simp: kept_def proto_ok_def proto_inv_def proto_stream_def)
  have "\<exists>p'. do_send_and_free_packet io (SrsAcknowledgementPacket q) 0 (p\<lparr>in_ack_size := a\<rparr>) = Inr ((), p') \<and> kept p p'" for a q
    using send_packet_kept [OF k(2) [of a] k(3) [of a], of "SrsAcknowledgementPacket q" 0] kept_trans [OF k(1) [of a]] by auto
  then show ?thesis
    using kept_refl [OF assms] by (simp add: response_acknowledgement_message_def Let_def)
qed

end

lemma decode_control:
  assumes "decode_message msg p = Inr (pkt, p')"
  shows "p' = p"
    and "message_type (cm_header msg) = RTMP_MSG_SetChunkSize \<Longrightarrow> \<exists>n. pkt = Some (SrsSetChunkSizePacket n)"
    and "message_type (cm_header msg) = RTMP_MSG_WindowAcknowledgementSize \<Longrightarrow> \<exists>n. pkt = Some (SrsSetWindowAckSizePacket n)"
    and "message_type (cm_header msg) = RTMP_MSG_UserControlMessage \<Longrightarrow> \<exists>e d x. pkt = Some (SrsUserControlPacket e d x)"
proof -
  note types = is_amf0_command_def is_amf3_command_def is_amf0_data_def is_amf3_data_def is_user_control_message_def
    is_window_ackledgement_size_def is_ackledgement_def is_set_chunk_size_def
  show "p' = p" using assms by (auto simp: decode_message_def split: option.splits sum.splits if_splits)
  obtain bs b where d: "do_decode_message (requests p) (cm_header msg) (SrsBuffer_new bs) = Inr (pkt, b)"
    using assms by (auto simp: decode_message_def split: option.splits sum.splits if_splits)
  show "\<exists>n. pkt = Some (SrsSetChunkSizePacket n)" if "message_type (cm_header msg) = RTMP_MSG_SetChunkSize"
    using d that by (auto simp: do_decode_message_def types decode_as_def SrsSetChunkSizePacket_decode_def bnd_eq_Inr_iff ret_def)
  show "\<exists>n. pkt = Some (SrsSetWindowAckSizePacket n)" if "message_type (cm_header msg) = RTMP_MSG_WindowAcknowledgementSize"
    using d that by (auto simp: do_decode_message_def types decode_as_def SrsSetWindowAckSizePacket_decode_def bnd_eq_Inr_iff ret_def)
  show "\<exists>e d x. pkt = Some (SrsUserControlPacket e d x)" if "message_type (cm_header msg) = RTMP_MSG_UserControlMessage"
    using d that by (auto simp: do_decode_message_def types decode_as_def SrsUserControlPacket_decode_def bnd_eq_Inr_iff ret_def)
qed

lemma decode_control_safe:
  assumes "control_type (message_type (cm_header msg))" and "0 < cm_size msg"
  shows "safe (decode_message msg p)"
proof -
  note types = is_amf0_command_def is_amf3_command_def is_amf0_data_def is_amf3_data_def is_user_control_message_def
    is_window_ackledgement_size_def is_ackledgement_def is_set_chunk_size_def
  obtain bs where bs: "cm_payload msg = Some bs" using assms(2) by (auto simp: cm_size_def split: option.splits)
  have d: "safe (decode_as q (SrsBuffer_new bs))" if "\<not> is_play_packet q" for q
    unfolding decode_as_def
    using safely_safe [of 0 "bnd (SrsPacket_decode q) (\<lambda>pkt. ret (Some pkt))"] safely_map [OF safely_decode [OF that]]
      buf_wf_new by blast
  have "safe (do_decode_message (requests p) (cm_header msg) (SrsBuffer_new bs))"
    using assms(1) d by (auto simp: do_decode_message_def types control_type_def)
  then show ?thesis using bs assms(2)
    by (cases "do_decode_message (requests p) (cm_header msg) (SrsBuffer_new bs)") (auto simp: decode_message_def)
qed

context io_output
begin

lemma on_control_kept:
  assumes "proto_ok ok p" and "proto_inv p" and "control_type mtype"
    and "mtype = RTMP_MSG_SetChunkSize \<Longrightarrow> \<exists>n. packet = SrsSetChunkSizePacket n"
    and "mtype = RTMP_MSG_WindowAcknowledgementSize \<Longrightarrow> \<exists>n. packet = SrsSetWindowAckSizePacket n"
    and "mtype = RTMP_MSG_UserControlMessage \<Longrightarrow> \<exists>e d x. packet = SrsUserControlPacket e d x"
  shows "(\<exists>e. on_control_packet io mtype packet p = Inl (Srs_error e))
    \<or> (\<exists>p'. on_control_packet io mtype packet p = Inr ((), p') \<and> kept p p')"
proof -
  consider "mtype = RTMP_MSG_SetChunkSize" | "mtype = RTMP_MSG_WindowAcknowledgementSize" | "mtype = RTMP_MSG_UserControlMessage"
    using assms(3) by (auto simp: control_type_def)
  then show ?thesis
  proof cases
    case 1
    then obtain n where n: "packet = SrsSetChunkSizePacket n" using assms(4) by blast
    have "kept p (p\<lparr>in_chunk_size := sint n\<rparr>)" if "\<not> sint n < SRS_CONSTS_RTMP_MIN_CHUNK_SIZE"
      using assms(1,2) that by (auto simp: kept_def proto_ok_def proto_inv_def proto_stream_def)
    then show ?thesis using 1 n by (simp add: on_control_packet_def)
  next
    case 2
    then obtain n where n: "packet = SrsSetWindowAckSizePacket n" using assms(5) by blast
    have "kept p (set_in_window_ack_size n p)"
      using assms(1,2) by (auto simp: set_in_window_ack_size_def kept_def proto_ok_def proto_inv_def proto_stream_def)
    then show ?thesis using 2 n kept_refl [OF assms(1,2)] by (simp add: on_control_packet_def)
  next
    case 3
    then obtain e d x where pkt: "packet = SrsUserControlPacket e d x" using assms(6) by blast
    have k: "kept p (p\<lparr>in_buffer_length := n\<rparr>)" "proto_ok ok (p\<lparr>in_buffer_length := n\<rparr>)" "proto_inv (p\<lparr>in_buffer_length := n\<rparr>)" for n
      using assms(1,2) by (auto simp: kept_def proto_ok_def proto_inv_def proto_stream_def)
    have ping: "\<exists>p''. response_ping_message io d p' = Inr ((), p'') \<and> kept p p''" if "kept p p'" for p'
      using that send_packet_kept [of p' "SrsUserControlPacket SrcPCUCPingResponse d 0" 0] kept_trans [OF that]
      by (auto simp: response_ping_message_def kept_def)
    show ?thesis using 3 pkt ping k(1) kept_refl [OF assms(1,2)]
      by (simp add: on_control_packet_def Let_def)
  qed
qed

lemma on_recv_message_cases:
  assumes "proto_ok ok p" and "proto_inv p" and "0 < cm_size msg"
  obtains (error) e where "on_recv_message io msg p = Inl (Srs_error e)"
    | (handled) p' where "on_recv_message io msg p = Inr ((), p')" "kept p p'"
proof -
  obtain p1 where p1: "response_acknowledgement_message io p = Inr ((), p1)" "kept p p1"
    using response_ack_kept [OF assms(1,2)] by blast
  then have inv: "proto_ok ok p1" "proto_inv p1" by (auto simp: kept_def)
  show ?thesis
  proof (cases "control_type (message_type (cm_header msg))")
    case False
    then show ?thesis using p1 that(2) by (auto simp: on_recv_message_def bnd_def ret_def control_type_def)
  next
    case True
    let ?t = "message_type (cm_header msg)"
    have eq: "on_recv_message io msg p = bnd (decode_message msg) (\<lambda>pkt.
        case pkt of None \<Rightarrow> fail Srs_abort | Some packet \<Rightarrow> on_control_packet io ?t packet) p1"
      using True p1(1) by (auto simp: on_recv_message_def bnd_def [of "response_acknowledgement_message io"] control_type_def)
    show ?thesis
    proof (cases "decode_message msg p1")
      case (Inl e)
      then show ?thesis using decode_control_safe [OF True assms(3), of p1] eq that(1) by (auto simp: bnd_def)
    next
      case (Inr r)
      obtain pkt p2 where r: "r = (pkt, p2)" by (cases r)
      note d = decode_control [OF Inr [unfolded r]]
      obtain packet where packet: "pkt = Some packet" using d(2-4) True by (auto simp: control_type_def)
      have "(\<exists>e. on_control_packet io ?t packet p1 = Inl (Srs_error e))
          \<or> (\<exists>p'. on_control_packet io ?t packet p1 = Inr ((), p') \<and> kept p1 p')"
        using d(2-4) packet by (intro on_control_kept [OF inv True]) auto
      then show ?thesis using eq Inr r packet d(1) that kept_trans [OF p1(2)] by (auto simp: bnd_def)
    qed
  qed
qed

text \<open>Any input: \<^verbatim>\<open>recv_message\<close> returns an error code or a complete message, and keeps the invariant.\<close>

lemma recv_message_any:
  assumes "proto_ok ok p" and "proto_inv p" and "length (proto_stream pending p) < fuel"
  shows "(\<exists>e. recv_message fuel io p = Inl (Srs_error e))
    \<or> (\<exists>msg p' xs. recv_message fuel io p = Inr (msg, p') \<and> complete msg \<and> 0 < cm_size msg \<and> proto_ok ok p' \<and> proto_inv p'
        \<and> xs \<noteq> [] \<and> proto_stream pending p = xs @ proto_stream pending p')"
  using assms
proof (induction fuel arbitrary: p)
  case 0
  then show ?case by simp
next
  case (Suc fuel)
  from Suc.prems(1,2) show ?case
  proof (cases rule: recv_interlaced_cases)
    case (error e)
    then show ?thesis by (simp add: bnd_def)
  next
    case (chunk r p1 xs cid c)
    have again: "(\<exists>e. recv_message fuel io p1 = Inl (Srs_error e))
      \<or> (\<exists>msg p' xs. recv_message fuel io p1 = Inr (msg, p') \<and> complete msg \<and> 0 < cm_size msg \<and> proto_ok ok p' \<and> proto_inv p'
        \<and> xs \<noteq> [] \<and> proto_stream pending p = xs @ proto_stream pending p')"
    proof -
      have "length (proto_stream pending p1) < fuel" using Suc.prems(3) chunk(4,5) by (cases xs) auto
      from Suc.IH [OF chunk(2,3) this] show ?thesis
      proof (elim disjE exE conjE)
        fix msg p' ys assume "recv_message fuel io p1 = Inr (msg, p')" "complete msg" "0 < cm_size msg" "proto_ok ok p'"
          "proto_inv p'" "ys \<noteq> []" "proto_stream pending p1 = ys @ proto_stream pending p'"
        then show ?thesis using chunk(4) by (intro disjI2 exI [of _ msg] exI [of _ p'] exI [of _ "xs @ ys"]) simp
      qed blast
    qed
    show ?thesis
    proof (cases "r = None \<or> cm_size (the r) \<le> 0 \<or> payload_length (cm_header (the r)) \<le> 0")
      case True
      then have "recv_message (Suc fuel) io p = recv_message fuel io p1"
        using chunk(1) by (cases r) (auto simp: bnd_def)
      then show ?thesis using again by simp
    next
      case False
      then obtain msg where msg: "r = Some msg" "0 < cm_size msg" "\<not> payload_length (cm_header msg) \<le> 0" by auto
      have eq: "recv_message (Suc fuel) io p = bnd (on_recv_message io msg) (\<lambda>_. ret msg) p1"
        using chunk(1) msg by (simp add: bnd_def)
      from chunk(2,3) msg(2) show ?thesis
      proof (cases rule: on_recv_message_cases)
        case (error e)
        then show ?thesis using eq by (simp add: bnd_def)
      next
        case (handled p2)
        then show ?thesis using eq msg chunk(4-6) by (auto simp: bnd_def ret_def kept_def)
      qed
    qed
  qed
qed

end

section \<open>Properties\<close>

text \<open>C1. No input of a peer stops the process: from any state in order, \<^verbatim>\<open>recv_message\<close> on any bytes
  returns an error code or a message (no assertion fails, no null is dereferenced, the loop ends within
  as many rounds as there are bytes), the message is complete (its payload has the length of its
  header, its timestamp 31 bits, its chunk stream id a legal value) and the bytes it was made of are
  a prefix of the input.\<close>

theorem recv_message_safe:
  assumes "io_output io ok pending sent" and "proto_ok ok p" and "proto_inv p" and "length (proto_stream pending p) < fuel"
  shows "safe (recv_message fuel io p)
    \<and> (\<forall>msg p'. recv_message fuel io p = Inr (msg, p') \<longrightarrow> complete msg \<and> 0 < cm_size msg
        \<and> (\<exists>xs. xs \<noteq> [] \<and> proto_stream pending p = xs @ proto_stream pending p'))"
  using io_output.recv_message_any [OF assms] by auto

theorem recv_message_safe_witness:
  "safe (recv_message 5 (SrsStSocket_io tcp_recv tcp_send tcp_writev)
     (SrsProtocol_new (SrsStSocket_new True \<lparr>tcp_in = [[0xC3, 1], [2]], tcp_room = [], tcp_out = []\<rparr>)))"
  using recv_message_safe [OF tcp.io_output_axioms sample_ready(7) proto_inv_new, of
      "\<lparr>tcp_in = [[0xC3, 1], [2]], tcp_room = [], tcp_out = []\<rparr>" 5]
  by (simp add: sample_ready del: recv_message.simps)

text \<open>The receiver keeps its invariant on any input: every chunk stream has an id of 2 to 65599,
  its own id in its header, a length below 2 to the 24, a 31-bit timestamp, and a partial message that
  is shorter than its length; the chunk sizes stay at 128 or more (receiving) and positive (sending).\<close>

theorem recv_message_inv:
  assumes "io_output io ok pending sent" and "proto_ok ok p" and "proto_inv p" and "length (proto_stream pending p) < fuel"
    and "recv_message fuel io p = Inr (msg, p')"
  shows "proto_inv p' \<and> proto_ok ok p'"
  using io_output.recv_message_any [OF assms(1-4)] assms(5) by auto

theorem recv_message_inv_witness:
  "\<exists>msg p'. recv_message 60 (SrsStSocket_io tcp_recv tcp_send tcp_writev)
       (SrsProtocol_new (SrsStSocket_new True \<lparr>tcp_in = [wire 128 [video_sample]], tcp_room = [], tcp_out = []\<rparr>)) = Inr (msg, p')
     \<and> proto_inv p'"
proof -
  let ?io = "SrsStSocket_io tcp_recv tcp_send tcp_writev"
  let ?p = "SrsProtocol_new (SrsStSocket_new True \<lparr>tcp_in = [wire 128 [video_sample]], tcp_room = [], tcp_out = []\<rparr>)"
  have len: "length (wire 128 [video_sample]) < 60"
    by (simp add: wire_def chunks_of_def chunks_from.simps chunk_wire_def video_sample_def sm_chunk_header_def length_chunk_header_c0)
  have "\<exists>p'. recv_message 60 ?io ?p = Inr (received video_sample, p')"
    using tcp.recv_message_from [where p = ?p and m = video_sample and off = 0 and N = 128 and ys = "[]" and fuel = 60,
        OF joined_new sample_ready(1) _ _ sample_ready(7,6) _ _ _ sample_ready(8,2)]
      length_chunks_from [of 128 video_sample 0]
    by (auto simp: sample_ready wire_def chunks_of_def simp del: recv_message.simps)
  then obtain p' where p': "recv_message 60 ?io ?p = Inr (received video_sample, p')" ..
  then have "proto_inv p'"
    using recv_message_inv [OF tcp.io_output_axioms sample_ready(7) proto_inv_new _ p'] len
    by (simp add: sample_ready del: recv_message.simps)
  with p' show ?thesis by blast
qed

end
