(* ===== verification/Handshake.thy ===== *)
theory Handshake
  imports Socket Buffer
begin

text \<open>
  The plain RTMP handshake, \<^verbatim>\<open>src/src/protocol/srs_protocol_rtmp_handshake.cpp\<close>: the client sends a version byte and
  1536 bytes, the server answers with its own and a copy of them, the client sends 1536 bytes more.
  The results of \<^verbatim>\<open>random()\<close> and \<^verbatim>\<open>time(NULL)\<close> are parameters.
\<close>

section \<open>Model\<close>

record SrsHandshakeBytes =
  c0c1 :: "byte list option"
  s0s1s2 :: "byte list option"
  c2 :: "byte list option"

definition SrsHandshakeBytes_new :: SrsHandshakeBytes where
  "SrsHandshakeBytes_new = \<lparr>c0c1 = None, s0s1s2 = None, c2 = None\<rparr>"

definition hs_dispose :: "SrsHandshakeBytes \<Rightarrow> SrsHandshakeBytes" where
  "hs_dispose hs = hs\<lparr>c0c1 := None, s0s1s2 := None, c2 := None\<rparr>"

text \<open>The \<open>i\<close>th byte from the \<open>i\<close>th number that \<^verbatim>\<open>random()\<close> returns.\<close>

definition srs_random_generate :: "(nat \<Rightarrow> nat) \<Rightarrow> nat \<Rightarrow> byte list" where
  "srs_random_generate random sz = map (\<lambda>i. 0x0f + of_nat (random i mod (256 - 0x0f - 0x0f))) [0..<sz]"

definition read_c0c1 :: "'io ISrsProtocolReadWriter \<Rightarrow> SrsHandshakeBytes \<times> 'io \<Rightarrow> (unit \<times> SrsHandshakeBytes \<times> 'io) result" where
  "read_c0c1 io = (\<lambda>(hs, s).
     if c0c1 hs \<noteq> None then Inr ((), hs, s)
     else case io_read_fully io 1537 s of
            Inl e \<Rightarrow> Inl e
          | Inr (bs, s') \<Rightarrow> Inr ((), hs\<lparr>c0c1 := Some bs\<rparr>, s'))"

definition read_c2 :: "'io ISrsProtocolReadWriter \<Rightarrow> SrsHandshakeBytes \<times> 'io \<Rightarrow> (unit \<times> SrsHandshakeBytes \<times> 'io) result" where
  "read_c2 io = (\<lambda>(hs, s).
     if c2 hs \<noteq> None then Inr ((), hs, s)
     else case io_read_fully io 1536 s of
            Inl e \<Rightarrow> Inl e
          | Inr (bs, s') \<Rightarrow> Inr ((), hs\<lparr>c2 := Some bs\<rparr>, s'))"

text \<open>The buffer spans the first 9 bytes of the 3073.\<close>

definition create_s0s1s2 :: "(nat \<Rightarrow> nat) \<Rightarrow> 32 word \<Rightarrow> byte list option \<Rightarrow> SrsHandshakeBytes \<Rightarrow> (unit \<times> SrsHandshakeBytes) result" where
  "create_s0s1s2 random now c1 hs =
     (if s0s1s2 hs \<noteq> None then Inr ((), hs)
      else let fresh = srs_random_generate random 3073 in
           case bnd (write_1bytes 0x03) (\<lambda>_.
                bnd (write_4bytes now) (\<lambda>_.
                  case c0c1 hs of None \<Rightarrow> ret () | Some bs \<Rightarrow> write_bytes (take 4 (drop 1 bs))))
                (SrsBuffer_new (take 9 fresh)) of
             Inl e \<Rightarrow> Inl e
           | Inr (_, b) \<Rightarrow>
               let bytes = buf_bytes b @ drop 9 fresh;
                   bytes = (case c1 of None \<Rightarrow> bytes | Some c \<Rightarrow> take 1537 bytes @ take 1536 c)
               in Inr ((), hs\<lparr>s0s1s2 := Some bytes\<rparr>))"

definition handshake_with_client :: "'io ISrsProtocolReadWriter \<Rightarrow> (nat \<Rightarrow> nat) \<Rightarrow> 32 word
    \<Rightarrow> SrsHandshakeBytes \<times> 'io \<Rightarrow> (unit \<times> SrsHandshakeBytes \<times> 'io) result" where
  "handshake_with_client io random now =
     bnd (read_c0c1 io) (\<lambda>_ (hs, s).
       case c0c1 hs of
         None \<Rightarrow> Inl Srs_null_deref
       | Some bs \<Rightarrow>
           if hd bs \<noteq> 0x03 then Inl (Srs_error ERROR_RTMP_PLAIN_REQUIRED)
           else case create_s0s1s2 random now (Some (drop 1 bs)) hs of
                  Inl e \<Rightarrow> Inl e
                | Inr (_, hs1) \<Rightarrow>
                    (case s0s1s2 hs1 of
                       None \<Rightarrow> Inl Srs_null_deref
                     | Some out \<Rightarrow>
                         (case io_write io out s of
                            Inl e \<Rightarrow> Inl e
                          | Inr (_, s1) \<Rightarrow> read_c2 io (hs1, s1))))"

section \<open>The transport\<close>

text \<open>What the dialogue needs beyond \<open>io_output\<close>: reading sends nothing, \<^verbatim>\<open>read_fully\<close> returns all it was asked for or fails, \<^verbatim>\<open>write\<close> sends all.\<close>

locale io_exact = io_output io ok pending sent
  for io :: "'io ISrsProtocolReadWriter" and ok :: "'io \<Rightarrow> bool" and pending :: "'io \<Rightarrow> byte list" and sent :: "'io \<Rightarrow> byte list" +
  assumes read_sent: "ok s \<Longrightarrow> 0 < n \<Longrightarrow> pending s \<noteq> [] \<Longrightarrow> io_read io n s = Inr (bs, s') \<Longrightarrow> sent s' = sent s"
    and read_fully_all: "ok s \<Longrightarrow> n \<le> length (pending s) \<Longrightarrow>
      \<exists>s'. io_read_fully io n s = Inr (take n (pending s), s') \<and> pending s' = drop n (pending s) \<and> sent s' = sent s \<and> ok s'"
    and read_fully_short: "ok s \<Longrightarrow> length (pending s) < n \<Longrightarrow> \<exists>c. io_read_fully io n s = Inl (Srs_error c)"
    and write_all: "ok s \<Longrightarrow> \<exists>s'. io_write io bs s = Inr ((), s') \<and> sent s' = sent s @ bs \<and> pending s' = pending s \<and> ok s'"

context stream_socket
begin

lemma read_fully_loop_short:
  assumes "length acc + length (incoming k) < sz"
  shows "\<exists>c. read_fully_loop os_recv sz acc k = Inl (Srs_error c)"
  using assms
proof (induction "length (incoming k)" arbitrary: acc k rule: less_induct)
  case less
  show ?case
  proof (cases "incoming k = []")
    case True
    then show ?thesis using recv_none [OF True, of "sz - length acc"] less.prems
      by (cases "os_recv (sz - length acc) k") (auto simp: read_fully_loop.simps)
  next
    case False
    with recv_some [of "sz - length acc" k] less.prems obtain bs k1 where r:
      "os_recv (sz - length acc) k = (Os_done bs, k1)" "bs \<noteq> []" "incoming k = bs @ incoming k1" by auto
    have "length (incoming k1) < length (incoming k)" "length (acc @ bs) + length (incoming k1) < sz"
      using r(2,3) less.prems by auto
    from less.hyps [OF this] r less.prems show ?thesis by (subst read_fully_loop.simps) auto
  qed
qed

end

sublocale stream_socket \<subseteq> exact: io_exact sock_io stfd_valid "\<lambda>s. incoming (kernel s)" "\<lambda>s. outgoing (kernel s)"
proof unfold_locales
  fix s :: "'k SrsStSocket" and n :: nat
  assume s: "stfd_valid s"
  show "outgoing (kernel s') = outgoing (kernel s)" if "0 < n" "incoming (kernel s) \<noteq> []" "io_read sock_io n s = Inr (bs, s')" for bs s'
    using read_delivers [OF s that(1,2)] that(3) by (auto simp: SrsStSocket_io_def)
  show "\<exists>s'. io_read_fully sock_io n s = Inr (take n (incoming (kernel s)), s') \<and> incoming (kernel s') = drop n (incoming (kernel s))
      \<and> outgoing (kernel s') = outgoing (kernel s) \<and> stfd_valid s'" if "n \<le> length (incoming (kernel s))"
    using read_fully_loop_ok [of n "[]" "kernel s"] that s by (auto simp: SrsStSocket_io_def SrsStSocket_read_fully_def)
  show "\<exists>c. io_read_fully sock_io n s = Inl (Srs_error c)" if "length (incoming (kernel s)) < n"
    using read_fully_loop_short [of "[]" "kernel s" n] that s by (auto simp: SrsStSocket_io_def SrsStSocket_read_fully_def)
  fix bs
  show "\<exists>s'. io_write sock_io bs s = Inr ((), s') \<and> outgoing (kernel s') = outgoing (kernel s) @ bs
      \<and> incoming (kernel s') = incoming (kernel s) \<and> stfd_valid s'"
    using write_loop_ok [of bs "kernel s"] s by (auto simp: SrsStSocket_io_def SrsStSocket_write_def)
qed

section \<open>The answer of the server\<close>

text \<open>S0, S1 (time, the time of C1, random bytes) and S2, a copy of C1.\<close>

definition handshake_answer :: "(nat \<Rightarrow> nat) \<Rightarrow> 32 word \<Rightarrow> byte list \<Rightarrow> byte list" where
  "handshake_answer random now c1 =
     0x03 # rev (le_bytes 4 (uint now)) @ take 4 c1 @ take 1528 (drop 9 (srs_random_generate random 3073)) @ c1"

lemma create_answer:
  assumes "length c1 = 1536"
  shows "create_s0s1s2 random now (Some c1) \<lparr>c0c1 = Some (v # c1), s0s1s2 = None, c2 = c\<rparr>
    = Inr ((), \<lparr>c0c1 = Some (v # c1), s0s1s2 = Some (handshake_answer random now c1), c2 = c\<rparr>)"
proof -
  let ?f = "srs_random_generate random 3073"
  have f: "length ?f = 3073" by (simp add: srs_random_generate_def)
  let ?xs = "[0x03] @ (rev (le_bytes 4 (uint now)) @ take 4 c1)"
  have "writes (bnd (write_1bytes 0x03) (\<lambda>_. bnd (write_4bytes now) (\<lambda>_. write_bytes (take 4 c1)))) ?xs"
    by (intro writes_bnd writes_intros)
  from writes_exact [OF this, of "take 9 ?f"] f assms
  have w: "bnd (write_1bytes 0x03) (\<lambda>_. bnd (write_4bytes now) (\<lambda>_. write_bytes (take 4 c1))) (SrsBuffer_new (take 9 ?f))
      = Inr ((), \<lparr>buf_bytes = ?xs, buf_p = length ?xs\<rparr>)" by simp
  have "take 1537 (?xs @ drop 9 ?f) @ take 1536 c1 = handshake_answer random now c1"
    using assms by (simp add: handshake_answer_def)
  then show ?thesis using w by (simp add: create_s0s1s2_def Let_def)
qed

context io_exact
begin

lemma handshake_cases:
  assumes "ok s"
  shows "(length (pending s) < 1537 \<longrightarrow> (\<exists>c. handshake_with_client io random now (SrsHandshakeBytes_new, s) = Inl (Srs_error c)))
   \<and> (1537 \<le> length (pending s) \<longrightarrow> hd (pending s) \<noteq> 3 \<longrightarrow>
        handshake_with_client io random now (SrsHandshakeBytes_new, s) = Inl (Srs_error ERROR_RTMP_PLAIN_REQUIRED))
   \<and> (1537 \<le> length (pending s) \<longrightarrow> length (pending s) < 3073 \<longrightarrow>
        (\<exists>c. handshake_with_client io random now (SrsHandshakeBytes_new, s) = Inl (Srs_error c)))
   \<and> (3073 \<le> length (pending s) \<longrightarrow> hd (pending s) = 3 \<longrightarrow>
        (\<exists>hs s'. handshake_with_client io random now (SrsHandshakeBytes_new, s) = Inr ((), hs, s')
           \<and> sent s' = sent s @ handshake_answer random now (take 1536 (tl (pending s)))
           \<and> pending s' = drop 3073 (pending s) \<and> ok s'))"
proof (cases "1537 \<le> length (pending s)")
  case False
  then obtain c where "io_read_fully io 1537 s = Inl (Srs_error c)" using read_fully_short [OF assms, of 1537] by auto
  then have "handshake_with_client io random now (SrsHandshakeBytes_new, s) = Inl (Srs_error c)"
    by (simp add: handshake_with_client_def read_c0c1_def bnd_def SrsHandshakeBytes_new_def)
  then show ?thesis using False by auto
next
  case True
  obtain s1 where r: "io_read_fully io 1537 s = Inr (take 1537 (pending s), s1)" "pending s1 = drop 1537 (pending s)"
      "sent s1 = sent s" "ok s1" using read_fully_all [OF assms True] by blast
  obtain v rest where p: "pending s = v # rest" using True by (cases "pending s") auto
  let ?c1 = "take 1536 rest"
  have c1: "take 1537 (pending s) = v # ?c1" "length ?c1 = 1536" using p True by auto
  obtain s2 where w: "io_write io (handshake_answer random now ?c1) s1 = Inr ((), s2)"
      "sent s2 = sent s1 @ handshake_answer random now ?c1" "pending s2 = pending s1" "ok s2"
    using write_all [OF r(4)] by blast
  let ?hs = "\<lparr>c0c1 = Some (v # ?c1), s0s1s2 = Some (handshake_answer random now ?c1), c2 = None\<rparr>"
  have run: "handshake_with_client io random now (SrsHandshakeBytes_new, s)
      = (if v \<noteq> 3 then Inl (Srs_error ERROR_RTMP_PLAIN_REQUIRED) else read_c2 io (?hs, s2))"
    using r(1) c1(1) create_answer [OF c1(2), of random now v None] w(1)
    by (cases "v = 3") (simp_all add: handshake_with_client_def read_c0c1_def bnd_def SrsHandshakeBytes_new_def)
  have short: "\<exists>c. read_c2 io (?hs, s2) = Inl (Srs_error c)" if "length (pending s) < 3073"
  proof -
    have "length (pending s2) < 1536" using that True r(2) w(3) by simp
    then show ?thesis using read_fully_short [OF w(4), of 1536] by (auto simp: read_c2_def)
  qed
  have full: "\<exists>hs s'. read_c2 io (?hs, s2) = Inr ((), hs, s') \<and> sent s' = sent s @ handshake_answer random now ?c1
      \<and> pending s' = drop 3073 (pending s) \<and> ok s'" if "3073 \<le> length (pending s)"
  proof -
    have "1536 \<le> length (pending s2)" using that r(2) w(3) by simp
    then show ?thesis using read_fully_all [OF w(4), of 1536] r(2,3) w(2,3) by (auto simp: read_c2_def)
  qed
  show ?thesis using run short full p True by auto
qed

end

section \<open>Properties\<close>

text \<open>C5. The plain handshake: with C0 (version 3), C1 and C2 to come, the server sends exactly S0 S1 S2, where S2
  is a copy of C1 and S1 repeats the time of C1, and has consumed exactly these 3073 bytes, so that
  the chunk protocol starts behind them. Another version is refused with
  \<^verbatim>\<open>ERROR_RTMP_PLAIN_REQUIRED\<close>; a peer that sends less gets an error code, whatever it sends.\<close>

theorem handshake_answers:
  assumes "io_exact io ok pending sent" and "ok s"
  shows "(3073 \<le> length (pending s) \<longrightarrow> hd (pending s) = 3 \<longrightarrow>
        (\<exists>hs s'. handshake_with_client io random now (SrsHandshakeBytes_new, s) = Inr ((), hs, s')
           \<and> sent s' = sent s @ handshake_answer random now (take 1536 (tl (pending s)))
           \<and> pending s' = drop 3073 (pending s) \<and> ok s'))
   \<and> (1537 \<le> length (pending s) \<longrightarrow> hd (pending s) \<noteq> 3 \<longrightarrow>
        handshake_with_client io random now (SrsHandshakeBytes_new, s) = Inl (Srs_error ERROR_RTMP_PLAIN_REQUIRED))
   \<and> (length (pending s) < 3073 \<longrightarrow> (\<exists>c. handshake_with_client io random now (SrsHandshakeBytes_new, s) = Inl (Srs_error c)))"
  using io_exact.handshake_cases [OF assms, of random now] by (metis linorder_not_le)

theorem handshake_answers_witness:
  "\<exists>hs s'. handshake_with_client (SrsStSocket_io tcp_recv tcp_send tcp_writev) (\<lambda>i. 7 * i) 0
       (SrsHandshakeBytes_new, SrsStSocket_new True \<lparr>tcp_in = [3 # replicate 1000 1, replicate 2073 2], tcp_room = [5, 3000], tcp_out = []\<rparr>)
       = Inr ((), hs, s')
     \<and> tcp_out (kernel s') = handshake_answer (\<lambda>i. 7 * i) 0 (replicate 1000 1 @ replicate 536 2)
     \<and> concat (tcp_in (kernel s')) = [2]"
  using handshake_answers [OF tcp.exact.io_exact_axioms, of
      "SrsStSocket_new True \<lparr>tcp_in = [3 # replicate 1000 1, replicate 2073 2], tcp_room = [5, 3000], tcp_out = []\<rparr>" "\<lambda>i. 7 * i" 0]
  by (simp add: SrsStSocket_new_def) blast

end
