(* ===== verification/Session.thy ===== *)
theory Session
  imports Receiver Utility Handshake
begin

text \<open>
  The command dialogue of a connection, \<^verbatim>\<open>SrsRtmpServer\<close> of \<^verbatim>\<open>src/src/protocol/srs_protocol_rtmp_stack.cpp\<close>: connecting to an
  application, finding out whether the client plays or publishes, and the answers that start and end
  playing and publishing. The methods change only the protocol object, which is their state here. A loop
  that waits for a message has as its fuel a bound on the bytes to come, as \<open>recv_message\<close> does.
\<close>

section \<open>Numbers\<close>

text \<open>An integer as a \<^verbatim>\<open>double\<close>, exact below 2 to the 53.\<close>

definition double_of_int :: "int \<Rightarrow> double" where
  "double_of_int n =
     (if n = 0 then 0
      else let m = nat \<bar>n\<bar>; e = log2 m in
           (if n < 0 then push_bit 63 1 else 0) OR push_bit 52 (word_of_nat (e + 1023))
           OR word_of_nat (m * 2 ^ (52 - e) - 2 ^ 52))"

text \<open>
  A \<^verbatim>\<open>double\<close> cast to \<^verbatim>\<open>int64_t\<close>: cut towards zero. The language does not define the cast of a value that does
  not fit or is no number; the conversion of x86-64 then gives the least integer.
\<close>

definition int64_of_double :: "double \<Rightarrow> int" where
  "int64_of_double d =
     (let e = uint (drop_bit 52 d AND 0x7FF); m = uint (d AND 0xFFFFFFFFFFFFF) + 2 ^ 52;
          n = (if e < 1023 then 0 else if e \<le> 1075 then m div 2 ^ nat (1075 - e) else m * 2 ^ nat (e - 1075));
          v = (if bit d 63 then - n else n)
      in if e = 0x7FF \<or> v < - (2 ^ 63) \<or> v \<ge> 2 ^ 63 then - (2 ^ 63) else v)"

lemma log2_values: "log2 1 = 0" "log2 (Suc 0) = 0" "log2 2 = 1" "log2 3 = 1"
  by (simp_all add: log2.simps)

lemma double_of_int_values: "double_of_int 0 = double_0" "double_of_int 1 = double_1" "double_of_int 3 = double_3"
  by (simp_all add: double_of_int_def Let_def log2_values push_bit_eq_mult)

lemma int64_of_double_values:
  "int64_of_double double_3 = 3" "int64_of_double double_minus_2 = - 2" "int64_of_double 0xC004000000000000 = - 2"
  "int64_of_double 0x7FF0000000000000 = - (2 ^ 63)"
  by (simp_all add: int64_of_double_def Let_def drop_bit_eq_div bit_iff_odd)

section \<open>Sending\<close>

abbreviation (input) RTMP_SIG_FMS_VER :: string where "RTMP_SIG_FMS_VER \<equiv> ''3,5,3,888''"
abbreviation (input) RTMP_SIG_CLIENT_ID :: string where "RTMP_SIG_CLIENT_ID \<equiv> ''ASAICiss''"
abbreviation (input) RTMP_SIG_SRS_KEY :: string where "RTMP_SIG_SRS_KEY \<equiv> ''SRS_SIMPLE''"
abbreviation (input) RTMP_SIG_SRS_VERSION :: string where "RTMP_SIG_SRS_VERSION \<equiv> ''0.1.0''"
abbreviation (input) RTMP_SIG_SRS_SERVER :: string where "RTMP_SIG_SRS_SERVER \<equiv> ''SRS_SIMPLE/0.1.0''"
abbreviation (input) RTMP_AMF0_COMMAND_ON_FC_PUBLISH :: string where "RTMP_AMF0_COMMAND_ON_FC_PUBLISH \<equiv> ''onFCPublish''"
abbreviation (input) RTMP_AMF0_COMMAND_ON_FC_UNPUBLISH :: string where "RTMP_AMF0_COMMAND_ON_FC_UNPUBLISH \<equiv> ''onFCUnpublish''"
abbreviation (input) SRS_DEFAULT_SID :: "32 word" where "SRS_DEFAULT_SID \<equiv> 1"

text \<open>The properties set one after the other on a fresh object.\<close>

definition props_of :: "(string \<times> SrsAmf0Any) list \<Rightarrow> SrsUnSortedHashtable" where
  "props_of kvs = fold (\<lambda>(k, v). ht_set k (Some v)) kvs []"

abbreviation status_packet :: "string \<Rightarrow> (string \<times> SrsAmf0Any) list \<Rightarrow> SrsPacket" where
  "status_packet name kvs \<equiv> SrsOnStatusCallPacket name double_0 (props_of kvs)"

definition set_window_ack_size :: "'io ISrsProtocolReadWriter \<Rightarrow> 32 word \<Rightarrow> 'io SrsProtocol \<Rightarrow> (unit \<times> 'io SrsProtocol) result" where
  "set_window_ack_size io ack_size = send_and_free_packet io (SrsSetWindowAckSizePacket ack_size) 0"

definition set_peer_bandwidth :: "'io ISrsProtocolReadWriter \<Rightarrow> 32 word \<Rightarrow> byte \<Rightarrow> 'io SrsProtocol \<Rightarrow> (unit \<times> 'io SrsProtocol) result" where
  "set_peer_bandwidth io bandwidth type = send_and_free_packet io (SrsSetPeerBandwidthPacket bandwidth type) 0"

definition set_chunk_size :: "'io ISrsProtocolReadWriter \<Rightarrow> 32 word \<Rightarrow> 'io SrsProtocol \<Rightarrow> (unit \<times> 'io SrsProtocol) result" where
  "set_chunk_size io chunk_size = send_and_free_packet io (SrsSetChunkSizePacket chunk_size) 0"

text \<open>The array \<^verbatim>\<open>data\<close> is filled after it was put into \<^verbatim>\<open>info\<close>, which holds a pointer to it; its count stays 0.\<close>

definition response_connect_app :: "'io ISrsProtocolReadWriter \<Rightarrow> int \<Rightarrow> string \<Rightarrow> SrsRequest \<Rightarrow> string option
    \<Rightarrow> 'io SrsProtocol \<Rightarrow> (unit \<times> 'io SrsProtocol) result" where
  "response_connect_app io pid cid req server_ip =
     (let data = props_of ([(''version'', SrsAmf0String RTMP_SIG_FMS_VER), (''srs_sig'', SrsAmf0String RTMP_SIG_SRS_KEY),
                  (''srs_server'', SrsAmf0String RTMP_SIG_SRS_SERVER), (''srs_version'', SrsAmf0String RTMP_SIG_SRS_VERSION)]
                @ (case server_ip of None \<Rightarrow> [] | Some ip \<Rightarrow> [(''srs_server_ip'', SrsAmf0String ip)])
                @ [(''srs_pid'', SrsAmf0Number (double_of_int pid)), (''srs_id'', SrsAmf0String cid)]);
          props = props_of [(''fmsVer'', SrsAmf0String (''FMS/'' @ RTMP_SIG_FMS_VER)),
                  (''capabilities'', SrsAmf0Number (double_of_int 127)), (''mode'', SrsAmf0Number (double_of_int 1))];
          info = props_of [(''level'', SrsAmf0String ''status''), (''code'', SrsAmf0String ''NetConnection.Connect.Success''),
                  (''description'', SrsAmf0String ''Connection succeeded''), (''objectEncoding'', SrsAmf0Number (rq_objectEncoding req)),
                  (''data'', SrsAmf0EcmaArray 0 data)]
      in send_and_free_packet io (SrsConnectAppResPacket RTMP_AMF0_COMMAND_RESULT double_1 props info) 0)"

definition start_play :: "'io ISrsProtocolReadWriter \<Rightarrow> 32 word \<Rightarrow> 'io SrsProtocol \<Rightarrow> (unit \<times> 'io SrsProtocol) result" where
  "start_play io sid =
     bnd (send_and_free_packet io (SrsUserControlPacket SrcPCUCStreamBegin sid 0) 0) (\<lambda>_.
     bnd (send_and_free_packet io (status_packet RTMP_AMF0_COMMAND_ON_STATUS
            [(''level'', SrsAmf0String ''status''), (''code'', SrsAmf0String ''NetStream.Play.Reset''),
             (''description'', SrsAmf0String ''Playing and resetting stream.''), (''details'', SrsAmf0String ''stream''),
             (''clientid'', SrsAmf0String RTMP_SIG_CLIENT_ID)]) sid) (\<lambda>_.
     bnd (send_and_free_packet io (status_packet RTMP_AMF0_COMMAND_ON_STATUS
            [(''level'', SrsAmf0String ''status''), (''code'', SrsAmf0String ''NetStream.Play.Start''),
             (''description'', SrsAmf0String ''Started playing stream.''), (''details'', SrsAmf0String ''stream''),
             (''clientid'', SrsAmf0String RTMP_SIG_CLIENT_ID)]) sid) (\<lambda>_.
     send_and_free_packet io (SrsSampleAccessPacket RTMP_AMF0_DATA_SAMPLE_ACCESS True True) sid)))"

definition fmle_unpublish :: "'io ISrsProtocolReadWriter \<Rightarrow> 32 word \<Rightarrow> double \<Rightarrow> 'io SrsProtocol \<Rightarrow> (unit \<times> 'io SrsProtocol) result" where
  "fmle_unpublish io sid unpublish_tid =
     bnd (send_and_free_packet io (status_packet RTMP_AMF0_COMMAND_ON_FC_UNPUBLISH
            [(''code'', SrsAmf0String ''NetStream.Unpublish.Success''), (''description'', SrsAmf0String ''Stop publishing stream.'')]) sid) (\<lambda>_.
     bnd (send_and_free_packet io (SrsFMLEStartResPacket RTMP_AMF0_COMMAND_RESULT unpublish_tid) sid) (\<lambda>_.
     send_and_free_packet io (status_packet RTMP_AMF0_COMMAND_ON_STATUS
            [(''level'', SrsAmf0String ''status''), (''code'', SrsAmf0String ''NetStream.Unpublish.Success''),
             (''description'', SrsAmf0String ''Stream is now unpublished''), (''clientid'', SrsAmf0String RTMP_SIG_CLIENT_ID)]) sid))"

definition start_publishing :: "'io ISrsProtocolReadWriter \<Rightarrow> 32 word \<Rightarrow> 'io SrsProtocol \<Rightarrow> (unit \<times> 'io SrsProtocol) result" where
  "start_publishing io sid =
     send_and_free_packet io (status_packet RTMP_AMF0_COMMAND_ON_STATUS
        [(''level'', SrsAmf0String ''status''), (''code'', SrsAmf0String ''NetStream.Publish.Start''),
         (''description'', SrsAmf0String ''Started publishing stream.''), (''clientid'', SrsAmf0String RTMP_SIG_CLIENT_ID)]) sid"

section \<open>Receiving\<close>

text \<open>\<open>expect_message\<close> drops messages until the packet is of the class that \<open>cast\<close> selects.\<close>

fun expect_message :: "nat \<Rightarrow> 'io ISrsProtocolReadWriter \<Rightarrow> (SrsPacket \<Rightarrow> 'a option)
    \<Rightarrow> 'io SrsProtocol \<Rightarrow> ((SrsCommonMessage \<times> 'a) \<times> 'io SrsProtocol) result" where
  "expect_message 0 io cast = fail Out_of_fuel"
| "expect_message (Suc fuel) io cast =
     bnd (recv_message (Suc fuel) io) (\<lambda>msg.
     bnd (decode_message msg) (\<lambda>packet.
       case Option.bind packet cast of
         None \<Rightarrow> expect_message fuel io cast
       | Some pkt \<Rightarrow> ret (msg, pkt)))"

fun as_connect :: "SrsPacket \<Rightarrow> (SrsUnSortedHashtable \<times> SrsUnSortedHashtable option) option" where
  "as_connect (SrsConnectAppPacket _ _ command_object args) = Some (command_object, args)"
| "as_connect _ = None"

fun as_fmle_start :: "SrsPacket \<Rightarrow> double option" where
  "as_fmle_start (SrsFMLEStartPacket _ transaction_id _) = Some transaction_id"
| "as_fmle_start _ = None"

fun as_create_stream :: "SrsPacket \<Rightarrow> double option" where
  "as_create_stream (SrsCreateStreamPacket _ transaction_id) = Some transaction_id"
| "as_create_stream _ = None"

fun as_publish :: "SrsPacket \<Rightarrow> unit option" where
  "as_publish (SrsPublishPacket _ _ _ _) = Some ()"
| "as_publish _ = None"

text \<open>The request after the connect command; \<open>None\<close> without a \<^verbatim>\<open>tcUrl\<close>.\<close>

definition connect_request :: "SrsUnSortedHashtable \<Rightarrow> SrsUnSortedHashtable option \<Rightarrow> SrsRequest \<Rightarrow> SrsRequest option" where
  "connect_request obj args req =
     (case ht_ensure_property_string ''tcUrl'' obj of
        Some (SrsAmf0String tcUrl) \<Rightarrow>
          let r1 = req\<lparr>rq_tcUrl := tcUrl\<rparr>;
              r2 = (case ht_ensure_property_string ''pageUrl'' obj of Some (SrsAmf0String s) \<Rightarrow> r1\<lparr>rq_pageUrl := s\<rparr> | _ \<Rightarrow> r1);
              r3 = (case ht_ensure_property_string ''swfUrl'' obj of Some (SrsAmf0String s) \<Rightarrow> r2\<lparr>rq_swfUrl := s\<rparr> | _ \<Rightarrow> r2);
              r4 = (case ht_ensure_property_number ''objectEncoding'' obj of Some (SrsAmf0Number d) \<Rightarrow> r3\<lparr>rq_objectEncoding := d\<rparr> | _ \<Rightarrow> r3);
              r5 = (case args of None \<Rightarrow> r4 | Some ps \<Rightarrow> r4\<lparr>rq_args := Some (ht_copy ps [])\<rparr>)
          in Some (strip (srs_discovery_tc_url r5))
      | _ \<Rightarrow> None)"

definition connect_app :: "nat \<Rightarrow> 'io ISrsProtocolReadWriter \<Rightarrow> SrsRequest \<Rightarrow> 'io SrsProtocol \<Rightarrow> (SrsRequest \<times> 'io SrsProtocol) result" where
  "connect_app fuel io req =
     bnd (expect_message fuel io as_connect) (\<lambda>(msg, obj, args).
       case connect_request obj args req of
         None \<Rightarrow> fail (Srs_error ERROR_RTMP_REQ_CONNECT)
       | Some r \<Rightarrow> ret r)"

datatype SrsRtmpConnType = SrsRtmpConnUnknown | SrsRtmpConnPlay | SrsRtmpConnFMLEPublish | SrsRtmpConnFlashPublish

definition srs_client_type_string :: "SrsRtmpConnType \<Rightarrow> string" where
  "srs_client_type_string type =
     (case type of SrsRtmpConnPlay \<Rightarrow> ''rtmp-play'' | SrsRtmpConnFlashPublish \<Rightarrow> ''flash-publish''
      | SrsRtmpConnFMLEPublish \<Rightarrow> ''fmle-publish'' | _ \<Rightarrow> ''Unknown'')"

text \<open>What the identification finds out, the reference parameters of the methods.\<close>

record client =
  cl_type :: SrsRtmpConnType
  cl_stream :: string
  cl_duration :: int

definition identify_fmle_publish_client :: "'io ISrsProtocolReadWriter \<Rightarrow> double \<Rightarrow> string \<Rightarrow> client
    \<Rightarrow> 'io SrsProtocol \<Rightarrow> (client \<times> 'io SrsProtocol) result" where
  "identify_fmle_publish_client io transaction_id stream_name cl =
     bnd (send_and_free_packet io (SrsFMLEStartResPacket RTMP_AMF0_COMMAND_RESULT transaction_id) 0) (\<lambda>_.
       ret (cl\<lparr>cl_type := SrsRtmpConnFMLEPublish, cl_stream := stream_name\<rparr>))"

definition identify_flash_publish_client :: "string \<Rightarrow> client \<Rightarrow> client" where
  "identify_flash_publish_client stream_name cl = cl\<lparr>cl_type := SrsRtmpConnFlashPublish, cl_stream := stream_name\<rparr>"

definition identify_play_client :: "string \<Rightarrow> double \<Rightarrow> client \<Rightarrow> client" where
  "identify_play_client stream_name duration cl =
     cl\<lparr>cl_type := SrsRtmpConnPlay, cl_stream := stream_name,
        cl_duration := sint (word_of_int (int64_of_double duration * 1000) :: 64 word)\<rparr>"

definition identify_skips :: "SrsMessageHeader \<Rightarrow> bool" where
  "identify_skips h \<longleftrightarrow> is_ackledgement h \<or> is_set_chunk_size h \<or> is_window_ackledgement_size h \<or> is_user_control_message h
     \<or> \<not> is_amf0_command h \<and> \<not> is_amf3_command h"

text \<open>
  The recursion of \<^verbatim>\<open>identify_create_stream_client\<close> into itself comes with \<open>depth - 1\<close>, its loop
  (\<open>identify_create_stream_loop\<close>) with less input.
\<close>

function identify_create_stream_client :: "nat \<Rightarrow> 'io ISrsProtocolReadWriter \<Rightarrow> double \<Rightarrow> 32 word \<Rightarrow> nat \<Rightarrow> client
    \<Rightarrow> 'io SrsProtocol \<Rightarrow> (client \<times> 'io SrsProtocol) result"
  and identify_create_stream_loop :: "nat \<Rightarrow> 'io ISrsProtocolReadWriter \<Rightarrow> 32 word \<Rightarrow> nat \<Rightarrow> client
    \<Rightarrow> 'io SrsProtocol \<Rightarrow> (client \<times> 'io SrsProtocol) result" where
  "identify_create_stream_client fuel io transaction_id sid depth cl =
     (if depth \<le> 0 then fail (Srs_error ERROR_RTMP_CREATE_STREAM_DEPTH)
      else bnd (send_and_free_packet io (SrsCreateStreamResPacket RTMP_AMF0_COMMAND_RESULT transaction_id (double_of_int (sint sid))) 0) (\<lambda>_.
           identify_create_stream_loop fuel io sid depth cl))"
| "identify_create_stream_loop 0 io sid depth cl = fail Out_of_fuel"
| "identify_create_stream_loop (Suc fuel) io sid depth cl =
     bnd (recv_message (Suc fuel) io) (\<lambda>msg.
       if identify_skips (cm_header msg) then identify_create_stream_loop fuel io sid depth cl
       else bnd (decode_message msg) (\<lambda>pkt.
              case pkt of
                Some (SrsPlayPacket _ _ stream_name _ duration _) \<Rightarrow> ret (identify_play_client stream_name duration cl)
              | Some (SrsPublishPacket _ _ stream_name _) \<Rightarrow> ret (identify_flash_publish_client stream_name cl)
              | Some (SrsCreateStreamPacket _ transaction_id) \<Rightarrow>
                  identify_create_stream_client fuel io transaction_id sid (depth - 1) cl
              | _ \<Rightarrow> identify_create_stream_loop fuel io sid depth cl))"
  by pat_completeness auto
termination
  by (relation "measures [\<lambda>x. case x of Inl (fuel, _) \<Rightarrow> fuel | Inr (fuel, _) \<Rightarrow> fuel, \<lambda>x. case x of Inl _ \<Rightarrow> 1 | Inr _ \<Rightarrow> 0]") auto

fun identify_loop :: "nat \<Rightarrow> 'io ISrsProtocolReadWriter \<Rightarrow> 32 word \<Rightarrow> client
    \<Rightarrow> 'io SrsProtocol \<Rightarrow> (client \<times> 'io SrsProtocol) result" where
  "identify_loop 0 io sid cl = fail Out_of_fuel"
| "identify_loop (Suc fuel) io sid cl =
     bnd (recv_message (Suc fuel) io) (\<lambda>msg.
       if identify_skips (cm_header msg) then identify_loop fuel io sid cl
       else bnd (decode_message msg) (\<lambda>pkt.
              case pkt of
                Some (SrsCreateStreamPacket _ transaction_id) \<Rightarrow>
                  identify_create_stream_client fuel io transaction_id sid 3 cl
              | Some (SrsFMLEStartPacket _ transaction_id stream_name) \<Rightarrow>
                  identify_fmle_publish_client io transaction_id stream_name cl
              | Some (SrsPlayPacket _ _ stream_name _ duration _) \<Rightarrow> ret (identify_play_client stream_name duration cl)
              | _ \<Rightarrow> identify_loop fuel io sid cl))"

definition identify_client :: "nat \<Rightarrow> 'io ISrsProtocolReadWriter \<Rightarrow> 32 word \<Rightarrow> client
    \<Rightarrow> 'io SrsProtocol \<Rightarrow> (client \<times> 'io SrsProtocol) result" where
  "identify_client fuel io sid cl = identify_loop fuel io sid (cl\<lparr>cl_type := SrsRtmpConnUnknown\<rparr>)"

definition start_fmle_publish :: "nat \<Rightarrow> 'io ISrsProtocolReadWriter \<Rightarrow> 32 word \<Rightarrow> 'io SrsProtocol \<Rightarrow> (unit \<times> 'io SrsProtocol) result" where
  "start_fmle_publish fuel io sid =
     bnd (expect_message fuel io as_fmle_start) (\<lambda>(_, fc_publish_tid).
     bnd (send_and_free_packet io (SrsFMLEStartResPacket RTMP_AMF0_COMMAND_RESULT fc_publish_tid) 0) (\<lambda>_.
     bnd (expect_message fuel io as_create_stream) (\<lambda>(_, create_stream_tid).
     bnd (send_and_free_packet io (SrsCreateStreamResPacket RTMP_AMF0_COMMAND_RESULT create_stream_tid (double_of_int (sint sid))) 0) (\<lambda>_.
     bnd (expect_message fuel io as_publish) (\<lambda>_.
     send_and_free_packet io (status_packet RTMP_AMF0_COMMAND_ON_FC_PUBLISH
        [(''code'', SrsAmf0String ''NetStream.Publish.Start''), (''description'', SrsAmf0String ''Started publishing stream.'')]) sid)))))"

definition rtmp_handshake :: "'io ISrsProtocolReadWriter \<Rightarrow> (nat \<Rightarrow> nat) \<Rightarrow> 32 word
    \<Rightarrow> SrsHandshakeBytes \<times> 'io SrsProtocol \<Rightarrow> (unit \<times> SrsHandshakeBytes \<times> 'io SrsProtocol) result" where
  "rtmp_handshake io random now = (\<lambda>(hs, p).
     case handshake_with_client io random now (hs, skt p) of
       Inl e \<Rightarrow> Inl e
     | Inr (_, hs', s) \<Rightarrow> Inr ((), hs_dispose hs', p\<lparr>skt := s\<rparr>))"

section \<open>Decoding any message\<close>

declare recv_message.simps [simp del] identify_create_stream_client.simps [simp del]

text \<open>The readers move the cursor and leave the bytes.\<close>

lemma read_marker_bytes: "read_marker m b = Inr (u, b') \<Longrightarrow> buf_bytes b' = buf_bytes b"
  by (auto simp: read_marker_def bnd_eq_Inr_iff guard_require_def read_1bytes_eq ret_def fail_def split: if_splits list.splits)

lemma read_string_bytes: "srs_amf0_read_string v b = Inr (s, b') \<Longrightarrow> buf_bytes b' = buf_bytes b"
  by (auto simp: srs_amf0_read_string_def srs_amf0_read_utf8_def bnd_eq_Inr_iff guard_require_def read_2bytes_eq read_string_eq ret_def
      dest!: read_marker_bytes split: if_splits)

lemma read_number_bytes: "srs_amf0_read_number b = Inr (d, b') \<Longrightarrow> buf_bytes b' = buf_bytes b"
  by (auto simp: srs_amf0_read_number_def bnd_eq_Inr_iff guard_require_def read_8bytes_eq dest!: read_marker_bytes split: if_splits)

text \<open>An error code, or the null dereference of a play command (\<open>play_decode_null_deref\<close>), or a result.\<close>

definition answered :: "'a result \<Rightarrow> bool" where
  "answered r \<longleftrightarrow> safe r \<or> r = Inl Srs_null_deref"

lemma answered_simps [simp]: "answered (Inr v)" "answered (Inl (Srs_error c))" "answered (Inl Srs_null_deref)"
  by (simp_all add: answered_def)

lemma answered_decode: "buf_wf b \<Longrightarrow> answered (SrsPacket_decode q b)"
proof -
  assume b: "buf_wf b"
  have "SrsPacket_decode q = SrsPlayPacket_decode" if "is_play_packet q"
    using that by (cases q) simp_all
  then show ?thesis using mostly_play b safely_safe [OF safely_decode b] by (cases "is_play_packet q") (auto simp: mostly_def answered_def)
qed

lemma answered_decode_as: "buf_wf b \<Longrightarrow> answered (decode_as q b)"
  using answered_decode [of b q] by (cases "SrsPacket_decode q b") (auto simp: decode_as_def bnd_def ret_def answered_def)

lemma stream_reset_ok:
  assumes "buf_wf b" and "buf_bytes b \<noteq> []"
  shows "\<exists>b'. stream_reset h b = Inr ((), b') \<and> buf_wf b'"
  using assms by (cases "buf_bytes b") (auto simp: stream_reset_def SrsBuffer_skip_def SrsBuffer_pos_def bnd_def ret_def buf_wf_def)

lemma answered_dispatch:
  assumes "buf_wf b"
  shows "answered (decode_command c b)" and "answered (decode_response c b)"
  using assms by (simp_all add: decode_command_def decode_response_def answered_decode_as fail_def ret_def)

lemma answered_do_decode:
  assumes "bs \<noteq> []"
  shows "answered (do_decode_message reqs h (SrsBuffer_new bs))"
proof -
  let ?skip = "if is_amf3_command h \<and> SrsBuffer_require 1 (SrsBuffer_new bs) then SrsBuffer_skip 1 else ret ()"
  let ?cont = "\<lambda>command. if command = RTMP_AMF0_COMMAND_RESULT \<or> command = RTMP_AMF0_COMMAND_ERROR
        then bnd srs_amf0_read_number (\<lambda>transactionId. bnd (stream_reset h) (\<lambda>_.
               case requests_find transactionId reqs of None \<Rightarrow> fail (Srs_error ERROR_RTMP_NO_REQUEST)
               | Some request_name \<Rightarrow> decode_response request_name))
        else bnd (stream_reset h) (\<lambda>_. decode_command command)"
  have len: "1 \<le> length bs" using assms by (cases bs) auto
  obtain b1 where b1: "?skip (SrsBuffer_new bs) = Inr ((), b1)" "buf_wf b1" "buf_bytes b1 = bs"
  proof (cases "is_amf3_command h \<and> SrsBuffer_require 1 (SrsBuffer_new bs)")
    case True
    then show ?thesis using len by (intro that [of "\<lparr>buf_bytes = bs, buf_p = 1\<rparr>"]) (simp_all add: SrsBuffer_skip_def SrsBuffer_new_def buf_wf_def)
  next
    case False
    then show ?thesis by (intro that [of "SrsBuffer_new bs"]) (auto simp: ret_def SrsBuffer_new_def buf_wf_def)
  qed
  have dispatch: "answered (?cont c b2)" if b2: "buf_wf b2" "buf_bytes b2 = bs" for c b2
  proof (cases "c = RTMP_AMF0_COMMAND_RESULT \<or> c = RTMP_AMF0_COMMAND_ERROR")
    case False
    then show ?thesis using stream_reset_ok [OF b2(1), of h] b2(2) assms answered_dispatch(1) by (auto simp: bnd_def)
  next
    case True
    show ?thesis
    proof (cases "srs_amf0_read_number b2")
      case (Inl e)
      then show ?thesis using True safelyD(1) [OF safely_number b2(1) order_refl] by (auto simp: bnd_def)
    next
      case (Inr r)
      obtain d b3 where r: "r = (d, b3)" by (cases r)
      have b3: "buf_wf b3" "buf_bytes b3 \<noteq> []"
        using safelyD(2) [OF safely_number b2(1) order_refl] read_number_bytes Inr r b2(2) assms by auto
      then show ?thesis using True Inr r stream_reset_ok [OF b3, of h] answered_dispatch(2)
        by (auto simp: bnd_def fail_def split: option.splits)
    qed
  qed
  have "answered (bnd (srs_amf0_read_string []) ?cont b1)"
  proof (cases "srs_amf0_read_string [] b1")
    case (Inl e)
    then show ?thesis using safelyD(1) [OF safely_string b1(2) order_refl, of "[]"] by (auto simp: bnd_def)
  next
    case (Inr r)
    obtain c b2 where r: "r = (c, b2)" by (cases r)
    have "buf_wf b2" "buf_bytes b2 = bs"
      using safelyD(2) [OF safely_string b1(2) order_refl, of "[]" c b2] read_string_bytes [of "[]" b1 c b2] Inr r b1(3) by auto
    from dispatch [OF this, of c] Inr r show ?thesis by (simp add: bnd_def)
  qed
  then have "answered (bnd ?skip (\<lambda>_. bnd (srs_amf0_read_string []) ?cont) (SrsBuffer_new bs))" using b1(1) by (simp add: bnd_def)
  then show ?thesis using answered_decode_as [OF buf_wf_new] by (auto simp: do_decode_message_def)
qed

lemma decode_message_answered:
  assumes "0 < cm_size msg"
  shows "answered (decode_message msg p)" and "decode_message msg p = Inr (pkt, p') \<Longrightarrow> p' = p"
proof -
  obtain bs where bs: "cm_payload msg = Some bs" "bs \<noteq> []" using assms by (auto simp: cm_size_def split: option.splits)
  show "answered (decode_message msg p)" using answered_do_decode [OF bs(2), of "requests p" "cm_header msg"] bs assms
    by (cases "do_decode_message (requests p) (cm_header msg) (SrsBuffer_new bs)") (auto simp: decode_message_def answered_def)
  show "decode_message msg p = Inr (pkt, p') \<Longrightarrow> p' = p" by (rule decode_control(1))
qed

section \<open>Any client\<close>

text \<open>
  \<open>conducts L k m\<close>: with at most \<open>L\<close> bytes to come, \<open>m\<close> is answered, and when it returns, the protocol object is in
  order and at least \<open>k\<close> bytes were consumed.
\<close>

context io_output
begin

definition conducts :: "nat \<Rightarrow> nat \<Rightarrow> ('io SrsProtocol \<Rightarrow> ('a \<times> 'io SrsProtocol) result) \<Rightarrow> bool" where
  "conducts L k m \<longleftrightarrow> (\<forall>p. proto_ok ok p \<longrightarrow> proto_inv p \<longrightarrow> length (proto_stream pending p) \<le> L \<longrightarrow>
     answered (m p) \<and> (\<forall>v p'. m p = Inr (v, p') \<longrightarrow> proto_ok ok p' \<and> proto_inv p'
        \<and> length (proto_stream pending p') + k \<le> length (proto_stream pending p)))"

lemma conducts_bnd:
  assumes "conducts L k m" and "\<And>v. k \<le> L \<Longrightarrow> conducts (L - k) j (f v)"
  shows "conducts L (k + j) (bnd m f)"
  unfolding conducts_def
proof (intro allI impI)
  fix p assume p: "proto_ok ok p" "proto_inv p" "length (proto_stream pending p) \<le> L"
  note m = assms(1) [unfolded conducts_def, rule_format, OF p]
  show "answered (bnd m f p) \<and> (\<forall>v p'. bnd m f p = Inr (v, p') \<longrightarrow> proto_ok ok p' \<and> proto_inv p'
      \<and> length (proto_stream pending p') + (k + j) \<le> length (proto_stream pending p))"
  proof (cases "m p")
    case (Inl e)
    then show ?thesis using m by (simp add: bnd_def answered_def)
  next
    case (Inr r)
    obtain v p1 where r: "r = (v, p1)" by (cases r)
    then have p1: "proto_ok ok p1" "proto_inv p1" "length (proto_stream pending p1) + k \<le> length (proto_stream pending p)"
      using m Inr by auto
    then have "k \<le> L" "length (proto_stream pending p1) \<le> L - k" using p(3) by auto
    from assms(2) [OF this(1), of v, unfolded conducts_def, rule_format, OF p1(1,2) this(2)] show ?thesis
      using Inr r p1(3) by (auto simp: bnd_def)
  qed
qed

lemma conducts_ret [simp]: "conducts L 0 (ret v)"
  by (simp add: conducts_def ret_def)

lemma conducts_fail [simp]: "conducts L k (fail (Srs_error c))"
  by (simp add: conducts_def fail_def)

lemma conducts_weaken: "conducts L k m \<Longrightarrow> k' \<le> k \<Longrightarrow> L' \<le> L \<Longrightarrow> conducts L' k' m"
  unfolding conducts_def
proof (intro allI impI)
  fix p assume c: "\<forall>p. proto_ok ok p \<longrightarrow> proto_inv p \<longrightarrow> length (proto_stream pending p) \<le> L \<longrightarrow>
      answered (m p) \<and> (\<forall>v p'. m p = Inr (v, p') \<longrightarrow> proto_ok ok p' \<and> proto_inv p'
        \<and> length (proto_stream pending p') + k \<le> length (proto_stream pending p))"
    and le: "k' \<le> k" "L' \<le> L" and p: "proto_ok ok p" "proto_inv p" "length (proto_stream pending p) \<le> L'"
  from p(3) le(2) have "length (proto_stream pending p) \<le> L" by simp
  from c [rule_format, OF p(1,2) this] le(1)
  show "answered (m p) \<and> (\<forall>v p'. m p = Inr (v, p') \<longrightarrow> proto_ok ok p' \<and> proto_inv p'
      \<and> length (proto_stream pending p') + k' \<le> length (proto_stream pending p))" by auto
qed

lemma conducts_then: "conducts L k m \<Longrightarrow> (\<And>v. conducts L 0 (f v)) \<Longrightarrow> conducts L k (bnd m f)"
proof -
  assume m: "conducts L k m" and f: "\<And>v. conducts L 0 (f v)"
  have "conducts (L - k) 0 (f v)" for v using conducts_weaken [OF f, of 0 "L - k"] by simp
  from conducts_bnd [OF m this] show ?thesis by simp
qed

lemma conducts_send:
  assumes "packet \<noteq> SrsPacketBase" and "\<And>n. packet = SrsSetChunkSizePacket n \<Longrightarrow> 0 < sint n"
  shows "conducts L 0 (send_and_free_packet io packet sid)"
  unfolding conducts_def
proof (intro allI impI)
  fix p assume p: "proto_ok ok p" "proto_inv p"
  have n: "0 < nat (out_chunk_size p)" "out_chunk_size p = int (nat (out_chunk_size p))" "ok (skt p)"
    using p by (auto simp: proto_inv_def proto_ok_def)
  obtain s where s: "do_send_and_free_packet io packet sid p = on_send_packet (packet_header packet sid) packet (p\<lparr>skt := s\<rparr>)"
      "pending s = pending (skt p)" "ok s"
    using send_packet [OF assms(1) n] by blast
  have "\<exists>p'. on_send_packet (packet_header packet sid) packet (p\<lparr>skt := s\<rparr>) = Inr ((), p') \<and> proto_ok ok p' \<and> proto_inv p'
      \<and> proto_stream pending p' = proto_stream pending p"
    using assms p s by (cases packet) (simp_all add: on_send_packet_def packet_header_def proto_ok_def proto_inv_def proto_stream_def)
  then show "answered (send_and_free_packet io packet sid p) \<and> (\<forall>v p'. send_and_free_packet io packet sid p = Inr (v, p') \<longrightarrow>
      proto_ok ok p' \<and> proto_inv p' \<and> length (proto_stream pending p') + 0 \<le> length (proto_stream pending p))"
    using s(1) by (auto simp: send_and_free_packet_def)
qed

text \<open>Receiving a message, and going on with it or with its packet.\<close>

lemma conducts_recv:
  assumes "L < fuel" and "\<And>msg. 0 < cm_size msg \<Longrightarrow> 0 < L \<Longrightarrow> conducts (L - 1) 0 (f msg)"
  shows "conducts L 1 (bnd (recv_message fuel io) f)"
  unfolding conducts_def
proof (intro allI impI)
  fix p assume p: "proto_ok ok p" "proto_inv p" "length (proto_stream pending p) \<le> L"
  then have fuel: "length (proto_stream pending p) < fuel" using assms(1) by simp
  show "answered (bnd (recv_message fuel io) f p) \<and> (\<forall>v p'. bnd (recv_message fuel io) f p = Inr (v, p') \<longrightarrow> proto_ok ok p' \<and> proto_inv p'
      \<and> length (proto_stream pending p') + 1 \<le> length (proto_stream pending p))"
    using recv_message_any [OF p(1,2) fuel]
  proof (elim disjE exE conjE)
    fix e assume "recv_message fuel io p = Inl (Srs_error e)"
    then show ?thesis by (simp add: bnd_def)
  next
    fix msg p1 xs
    assume r: "recv_message fuel io p = Inr (msg, p1)" "0 < cm_size msg" "proto_ok ok p1" "proto_inv p1"
      "xs \<noteq> []" "proto_stream pending p = xs @ proto_stream pending p1"
    have len: "length (proto_stream pending p1) + 1 \<le> length (proto_stream pending p)" using r(5,6) by (cases xs) auto
    then have "0 < L" "length (proto_stream pending p1) \<le> L - 1" using p(3) by auto
    from assms(2) [OF r(2) this(1), unfolded conducts_def, rule_format, OF r(3,4) this(2)] r(1) len show ?thesis
      by (auto simp: bnd_def)
  qed
qed

lemma conducts_decode:
  assumes "0 < cm_size msg" and "\<And>pkt. conducts L 0 (f pkt)"
  shows "conducts L 0 (bnd (decode_message msg) f)"
  unfolding conducts_def
proof (intro allI impI)
  fix p assume p: "proto_ok ok p" "proto_inv p" "length (proto_stream pending p) \<le> L"
  note d = decode_message_answered [OF assms(1), of p]
  show "answered (bnd (decode_message msg) f p) \<and> (\<forall>v p'. bnd (decode_message msg) f p = Inr (v, p') \<longrightarrow> proto_ok ok p' \<and> proto_inv p'
      \<and> length (proto_stream pending p') + 0 \<le> length (proto_stream pending p))"
  proof (cases "decode_message msg p")
    case (Inl e)
    then show ?thesis using d(1) by (simp add: bnd_def answered_def)
  next
    case (Inr r)
    obtain pkt p1 where r: "r = (pkt, p1)" by (cases r)
    then have "p1 = p" using d(2) Inr by blast
    with assms(2) [of pkt, unfolded conducts_def, rule_format, OF p] Inr r show ?thesis by (simp add: bnd_def)
  qed
qed

lemma conducts_expect: "L < fuel \<Longrightarrow> conducts L 1 (expect_message fuel io cast)"
proof (induction fuel arbitrary: L)
  case (Suc fuel)
  have "conducts (L - 1) 0 (case Option.bind packet cast of None \<Rightarrow> expect_message fuel io cast | Some pkt \<Rightarrow> ret (msg, pkt))"
    if "0 < L" for msg packet
  proof (cases "Option.bind packet cast")
    case None
    have "L - 1 < fuel" using Suc.prems that by simp
    from conducts_weaken [OF Suc.IH [OF this]] None show ?thesis by simp
  next
    case (Some a)
    then show ?thesis by simp
  qed
  then show ?case unfolding expect_message.simps by (intro conducts_recv conducts_decode Suc.prems)
qed simp

lemma conducts_fmle: "conducts L 0 (identify_fmle_publish_client io tid name cl)"
  unfolding identify_fmle_publish_client_def by (intro conducts_then conducts_send conducts_ret) simp_all

lemma conducts_create_client:
  assumes "\<And>L. L < fuel \<Longrightarrow> conducts L 1 (identify_create_stream_loop fuel io sid depth cl)" and "L < fuel"
  shows "conducts L 0 (identify_create_stream_client fuel io tid sid depth cl)"
proof -
  have "conducts L 0 (identify_create_stream_loop fuel io sid depth cl)"
    using conducts_weaken [OF assms(1) [OF assms(2)], of 0 L] by simp
  then have "conducts L 0 (bnd (send_and_free_packet io packet 0) (\<lambda>_. identify_create_stream_loop fuel io sid depth cl))"
    if "packet \<noteq> SrsPacketBase" "get_message_type packet \<noteq> RTMP_MSG_SetChunkSize" for packet
    using that by (intro conducts_then conducts_send) auto
  then show ?thesis by (subst identify_create_stream_client.simps) simp
qed

lemma conducts_create_loop: "L < fuel \<Longrightarrow> conducts L 1 (identify_create_stream_loop fuel io sid depth cl)"
proof (induction fuel arbitrary: L depth)
  case (Suc fuel)
  have fuel: "L - 1 < fuel" if "0 < L" using Suc.prems that by simp
  have loop: "conducts (L - 1) 0 (identify_create_stream_loop fuel io sid d cl)" if "0 < L" for d
    using conducts_weaken [OF Suc.IH [OF fuel [OF that]], of 0 "L - 1"] by simp
  have client: "conducts (L - 1) 0 (identify_create_stream_client fuel io tid sid d cl)" if "0 < L" for d tid
    using conducts_create_client [OF Suc.IH fuel [OF that]] .
  show ?case unfolding identify_create_stream_loop.simps
  proof (rule conducts_recv [OF Suc.prems], split if_split, intro conjI impI conducts_decode)
    fix msg pkt assume "0 < L"
    then show "conducts (L - 1) 0 (case pkt of
                Some (SrsPlayPacket _ _ stream_name _ duration _) \<Rightarrow> ret (identify_play_client stream_name duration cl)
              | Some (SrsPublishPacket _ _ stream_name _) \<Rightarrow> ret (identify_flash_publish_client stream_name cl)
              | Some (SrsCreateStreamPacket _ transaction_id) \<Rightarrow>
                  identify_create_stream_client fuel io transaction_id sid (depth - 1) cl
              | _ \<Rightarrow> identify_create_stream_loop fuel io sid depth cl)"
      using loop client by (simp split: option.split SrsPacket.split)
  qed (simp_all add: loop [simplified])
qed simp

lemma conducts_identify: "L < fuel \<Longrightarrow> conducts L 1 (identify_loop fuel io sid cl)"
proof (induction fuel arbitrary: L)
  case (Suc fuel)
  have fuel: "L - 1 < fuel" if "0 < L" using Suc.prems that by simp
  have loop: "conducts (L - 1) 0 (identify_loop fuel io sid cl)" if "0 < L"
    using conducts_weaken [OF Suc.IH [OF fuel [OF that]], of 0 "L - 1"] by simp
  have client: "conducts (L - 1) 0 (identify_create_stream_client fuel io tid sid 3 cl)" if "0 < L" for tid
    using conducts_create_client [OF conducts_create_loop fuel [OF that]] .
  show ?case unfolding identify_loop.simps
  proof (rule conducts_recv [OF Suc.prems], split if_split, intro conjI impI conducts_decode)
    fix msg pkt assume "0 < L"
    then show "conducts (L - 1) 0 (case pkt of
                Some (SrsCreateStreamPacket _ transaction_id) \<Rightarrow>
                  identify_create_stream_client fuel io transaction_id sid 3 cl
              | Some (SrsFMLEStartPacket _ transaction_id stream_name) \<Rightarrow>
                  identify_fmle_publish_client io transaction_id stream_name cl
              | Some (SrsPlayPacket _ _ stream_name _ duration _) \<Rightarrow> ret (identify_play_client stream_name duration cl)
              | _ \<Rightarrow> identify_loop fuel io sid cl)"
      using loop client conducts_fmle by (simp split: option.split SrsPacket.split)
  qed (simp_all add: loop [simplified])
qed simp

lemma conducts_expect_then:
  assumes "L < fuel" and "\<And>v. conducts L 0 (f v)"
  shows "conducts L 0 (bnd (expect_message fuel io cast) f)"
  using conducts_then [OF conducts_weaken [OF conducts_expect [OF assms(1)], of 0 L] assms(2)] by simp

lemma conducts_connect: "L < fuel \<Longrightarrow> conducts L 0 (connect_app fuel io req)"
  unfolding connect_app_def
  by (rule conducts_expect_then) (simp_all split: prod.split option.split)

lemma conducts_start_fmle: "L < fuel \<Longrightarrow> conducts L 0 (start_fmle_publish fuel io sid)"
  unfolding start_fmle_publish_def
  by (auto intro!: conducts_expect_then conducts_then [OF conducts_send] conducts_send simp del: expect_message.simps)

end

definition sample_client :: client where
  "sample_client = \<lparr>cl_type = SrsRtmpConnUnknown, cl_stream = [], cl_duration = - 1\<rparr>"

section \<open>Properties\<close>

text \<open>No client can stop the process in the dialogue, but for the play command of \<open>play_decode_null_deref\<close>: on any
  bytes that follow, \<^verbatim>\<open>connect_app\<close>, \<^verbatim>\<open>identify_client\<close> and \<^verbatim>\<open>start_fmle_publish\<close> end with a result, an error code or that
  null dereference, however many messages they drop, and a result leaves the protocol object in order.\<close>

theorem session_safe:
  assumes "io_output io ok pending sent" and "proto_ok ok p" and "proto_inv p" and "length (proto_stream pending p) < fuel"
  shows "(answered (connect_app fuel io req p) \<and> (\<forall>r p'. connect_app fuel io req p = Inr (r, p') \<longrightarrow> proto_ok ok p' \<and> proto_inv p'))
    \<and> (answered (identify_client fuel io sid cl p) \<and> (\<forall>c p'. identify_client fuel io sid cl p = Inr (c, p') \<longrightarrow> proto_ok ok p' \<and> proto_inv p'))
    \<and> (answered (start_fmle_publish fuel io sid p) \<and> (\<forall>u p'. start_fmle_publish fuel io sid p = Inr (u, p') \<longrightarrow> proto_ok ok p' \<and> proto_inv p'))"
proof -
  have le: "length (proto_stream pending p) \<le> length (proto_stream pending p)" by simp
  note D = io_output.conducts_def [OF assms(1), THEN iffD1, rule_format, OF _ assms(2,3) le]
  have "io_output.conducts ok pending (length (proto_stream pending p)) 1 (identify_client fuel io sid cl)"
    unfolding identify_client_def by (rule io_output.conducts_identify [OF assms(1,4)])
  from D [OF this] D [OF io_output.conducts_connect [OF assms(1,4), of req]] D [OF io_output.conducts_start_fmle [OF assms(1,4), of sid]]
  show ?thesis by blast
qed

theorem session_safe_witness:
  "answered (identify_client 5 (SrsStSocket_io tcp_recv tcp_send tcp_writev) 1 sample_client
     (SrsProtocol_new (SrsStSocket_new True \<lparr>tcp_in = [[0xC3, 1], [2]], tcp_room = [], tcp_out = []\<rparr>)))"
  using session_safe [OF tcp.io_output_axioms sample_ready(7) proto_inv_new, of
      "\<lparr>tcp_in = [[0xC3, 1], [2]], tcp_room = [], tcp_out = []\<rparr>" 5]
  by (simp add: sample_ready)

end
