(* ===== verification/Dialogue.thy ===== *)
theory Dialogue
  imports Session
begin

text \<open>
  What a client that follows the protocol gets: the identification of \<open>Session\<close> as a function of the commands, and
  the way of an FMLE encoder to publishing.
\<close>

section \<open>The dialogue\<close>

text \<open>The commands a client sends, and what they are on the wire.\<close>

fun is_command :: "SrsPacket \<Rightarrow> bool" where
  "is_command (SrsConnectAppPacket _ _ _ _) = True"
| "is_command (SrsCreateStreamPacket _ _) = True"
| "is_command (SrsFMLEStartPacket _ _ _) = True"
| "is_command (SrsPublishPacket _ _ _ _) = True"
| "is_command (SrsPlayPacket _ _ _ _ _ _) = True"
| "is_command _ = False"

definition sayable :: "SrsPacket \<Rightarrow> bool" where
  "sayable pk \<longleftrightarrow> is_command pk \<and> packet_wf pk \<and> length (packet_bytes pk) < 2 ^ 24"

lemma sayable_sendable:
  assumes "sayable pk"
  shows "sendable (packet_message pk sid)" and "\<not> control_type (sm_message_type (packet_message pk sid))"
    and "pk \<noteq> SrsPacketBase" and "get_message_type pk = RTMP_MSG_AMF0CommandMessage"
proof -
  show ne: "pk \<noteq> SrsPacketBase" using assms by (auto simp: sayable_def)
  show t: "get_message_type pk = RTMP_MSG_AMF0CommandMessage" using assms by (cases pk) (auto simp: sayable_def)
  have "2 \<le> get_prefer_cid pk" "get_prefer_cid pk \<le> 63" by (cases pk; use assms in \<open>simp add: sayable_def\<close>)+
  then show "sendable (packet_message pk sid)"
    using assms packet_bytes_nonempty [OF ne] by (auto simp: sendable_def packet_message_def sayable_def length_packet_bytes [symmetric])
  show "\<not> control_type (sm_message_type (packet_message pk sid))" using t by (simp add: packet_message_def control_type_def)
qed

lemma command_name_bytes:
  assumes "is_command pk" and "packet_wf pk"
  obtains n t xs where "packet_bytes pk = command_bytes n t @ xs" "n \<noteq> []" "length n < 32768"
    "n \<noteq> RTMP_AMF0_COMMAND_RESULT" "n \<noteq> RTMP_AMF0_COMMAND_ERROR" "decode_command n = decode_as pk"
  using assms that
  by (cases pk) (auto simp: decode_command_def decode_as_def simp del: amf0_bytes.simps)

lemma decode_sayable:
  assumes "sayable pk"
  shows "decode_message (received (packet_message pk sid)) p = Inr (Some pk, p)"
proof -
  have c: "is_command pk" "packet_wf pk" using assms by (auto simp: sayable_def)
  obtain n t xs where n: "packet_bytes pk = command_bytes n t @ xs" "n \<noteq> []" "length n < 32768"
    "n \<noteq> RTMP_AMF0_COMMAND_RESULT" "n \<noteq> RTMP_AMF0_COMMAND_ERROR" "decode_command n = decode_as pk"
    using command_name_bytes [OF c] .
  let ?b = "SrsBuffer_new (packet_bytes pk)" and ?h = "received_header (packet_message pk sid)"
  have h: "is_amf0_command ?h" "\<not> is_amf3_command ?h"
    using sayable_sendable(4) [OF assms] by (simp_all add: is_amf0_command_def is_amf3_command_def received_header_def packet_message_def)
  have "reads (srs_amf0_read_string []) n (amf0_bytes (SrsAmf0String n))" using n(2,3) by (intro reads_string_nonempty)
  then obtain k where k: "srs_amf0_read_string [] ?b = Inr (n, buf_adv k ?b)" "k \<le> length (packet_bytes pk)"
    using n(1) by (auto simp: reads_def command_bytes_def)
  have reset: "stream_reset ?h (buf_adv k ?b) = Inr ((), ?b)"
    using h(2) by (simp add: stream_reset_def SrsBuffer_skip_def SrsBuffer_pos_def buf_adv_def SrsBuffer_new_def bnd_def ret_def)
  have "SrsPacket_decode pk ?b = Inr (pk, buf_adv (length (packet_bytes pk)) ?b)"
    using packet_roundtrip_all [OF c(2)] by (simp add: reads_all_def)
  then have d: "\<exists>b'. decode_command n ?b = Inr (Some pk, b')" using n(6) by (simp add: decode_as_def bnd_def ret_def)
  have hd: "hd (buf_rest ?b) = 2" using n(1) by (simp add: command_bytes_def)
  have "\<exists>b'. do_decode_message (requests p) ?h ?b = Inr (Some pk, b')"
    using h k(1) reset d n(4,5) hd by (simp add: do_decode_message_def bnd_def ret_def)
  then obtain b' where "do_decode_message (requests p) ?h ?b = Inr (Some pk, b')" by blast
  moreover have "packet_bytes pk \<noteq> []" using packet_bytes_nonempty sayable_sendable(3) [OF assms] by blast
  ultimately show ?thesis by (simp add: decode_message_def received_def cm_size_def packet_message_def)
qed

text \<open>
  \<open>talking N M ys out p\<close>: between messages, with chunks of \<open>N\<close> bytes coming in and of \<open>M\<close> going out, \<open>ys\<close> still to be
  received and \<open>out\<close> sent so far.
\<close>

definition talking :: "('io \<Rightarrow> bool) \<Rightarrow> ('io \<Rightarrow> byte list) \<Rightarrow> ('io \<Rightarrow> byte list) \<Rightarrow> nat \<Rightarrow> nat \<Rightarrow> byte list \<Rightarrow> byte list \<Rightarrow> 'io SrsProtocol \<Rightarrow> bool" where
  "talking ok pending sent N M ys out p \<longleftrightarrow> joined Map.empty p \<and> proto_ok ok p \<and> in_chunk_size p = int N \<and> out_chunk_size p = int M
     \<and> window (in_ack_size p) = 0 \<and> proto_stream pending p = ys \<and> sent (skt p) = out
     \<and> 0 < N \<and> N \<le> SRS_DEFAULT_RECV_BUFFER_SIZE \<and> 0 < M"

definition said :: "nat \<Rightarrow> 32 word \<Rightarrow> SrsPacket list \<Rightarrow> byte list" where
  "said N sid pks = wire N (map (\<lambda>pk. packet_message pk sid) pks)"

lemma length_concat_map_nonempty: "\<forall>x \<in> set xs. f x \<noteq> [] \<Longrightarrow> length xs \<le> length (concat (map f xs))"
  by (induction xs) (auto simp: Suc_le_eq add_le_mono trans_le_add2 simp flip: length_greater_0_conv)

lemma said_Nil [simp]: "said N sid [] = []"
  by (simp add: said_def wire_Nil)

lemma said_Cons: "said N sid (pk # pks) = said N sid [pk] @ said N sid pks"
  by (simp add: said_def wire_Cons wire_Nil)

context io_exact
begin

abbreviation "talks \<equiv> talking ok pending sent"

lemma input_sends_nothing: "io_input io (\<lambda>s. ok s \<and> sent s = S) pending"
proof
  fix s :: 'io and n :: nat assume s: "ok s \<and> sent s = S"
  show "\<exists>bs s'. io_read io n s = Inr (bs, s') \<and> bs \<noteq> [] \<and> length bs \<le> n \<and> pending s = bs @ pending s' \<and> ok s' \<and> sent s' = S"
    if "0 < n" "pending s \<noteq> []" using read_some [of s n] read_sent [of s n] that s by fastforce
  show "\<exists>c. io_read io n s = Inl (Srs_error c)" if "pending s = []" using read_end that s by blast
qed

lemma hear:
  assumes t: "talks N M (said N sid [pk] @ ys) out p" and pk: "sayable pk"
    and fuel: "length (said N sid [pk] @ ys) < fuel"
  shows "\<exists>p'. recv_message fuel io p = Inr (received (packet_message pk sid), p') \<and> talks N M ys out p'"
proof -
  let ?m = "packet_message pk sid" and ?ok = "\<lambda>s. ok s \<and> sent s = out"
  note m = sayable_sendable(1,2) [OF pk, of sid]
  have p: "joined Map.empty p" "proto_ok ?ok p" "in_chunk_size p = int N" "0 < N" "N \<le> SRS_DEFAULT_RECV_BUFFER_SIZE" "window (in_ack_size p) = 0"
    using t by (auto simp: talking_def proto_ok_def)
  have st: "proto_stream pending p = concat (map (chunk_wire N) (chunks_from N ?m 0)) @ ys"
    using t by (simp add: talking_def said_def wire_def chunks_of_def)
  have off: "0 < length (sm_payload ?m)" using m(1) by (simp add: sendable_def)
  have len: "length (chunks_from N ?m 0) \<le> fuel"
  proof -
    have "length (chunks_from N ?m 0) \<le> length (said N sid [pk])"
      unfolding said_def by (simp add: wire_def chunks_of_def) (rule length_concat_map_nonempty, simp add: chunk_wire_def split: prod.split)
    then show ?thesis using fuel by simp
  qed
  obtain p' where p': "recv_message fuel io p = Inr (received ?m, p')" "joined (Map.empty(sm_prefer_cid ?m := None)) p'"
      "proto_ok ?ok p'" "proto_stream pending p' = ys" "input_moved (p\<lparr>chunk_streams := chunk_streams p'\<rparr>) p'"
    using io_input.recv_message_from [OF input_sends_nothing p(1) m(1) off _ p(2,3,4,5) st p(6) m(2) len] by auto
  have "talks N M ys out p'" using p' t input_movedD [OF p'(5)] by (auto simp: talking_def proto_ok_def)
  with p'(1) show ?thesis by blast
qed

lemma say:
  assumes t: "talks N M ys out p" and pk: "pk \<noteq> SrsPacketBase" "get_message_type pk \<noteq> RTMP_MSG_SetChunkSize"
  shows "\<exists>p'. send_and_free_packet io pk sid p = Inr ((), p') \<and> talks N M ys (out @ said M sid [pk]) p'"
proof -
  have p: "0 < M" "out_chunk_size p = int M" "ok (skt p)" using t by (auto simp: talking_def proto_ok_def)
  obtain s where s: "do_send_and_free_packet io pk sid p = on_send_packet (packet_header pk sid) pk (p\<lparr>skt := s\<rparr>)"
      "sent s = sent (skt p) @ wire M [packet_message pk sid]" "pending s = pending (skt p)" "ok s"
    using send_packet [OF pk(1) p] by blast
  have j: "joined Map.empty (p\<lparr>skt := s, requests := r, out_ack_size := a\<rparr>) = joined Map.empty p" for r a
    by (simp add: joined_def stream_of_def)
  have "\<exists>r a. on_send_packet (packet_header pk sid) pk (p\<lparr>skt := s\<rparr>) = Inr ((), p\<lparr>skt := s, requests := r, out_ack_size := a\<rparr>)"
  proof (cases "get_message_type pk = RTMP_MSG_WindowAcknowledgementSize")
    case True
    then obtain ack where "pk = SrsSetWindowAckSizePacket ack" using pk(1) by (cases pk) simp_all
    then show ?thesis
      by (intro exI [of _ "requests p"] exI [of _ "(out_ack_size p)\<lparr>window := ack\<rparr>"]) (simp add: on_send_packet_def packet_header_def)
  next
    case False
    have "\<exists>r. on_send_packet (packet_header pk sid) pk (p\<lparr>skt := s\<rparr>) = Inr ((), p\<lparr>skt := s, requests := r\<rparr>)"
    proof (cases "get_message_type pk = RTMP_MSG_AMF0CommandMessage")
      case True
      then show ?thesis by (cases pk) (auto simp: on_send_packet_def packet_header_def intro: exI [of _ "requests p"])
    next
      case amf: False
      have "get_message_type pk \<noteq> RTMP_MSG_AMF3CommandMessage" by (cases pk) simp_all
      then have "on_send_packet (packet_header pk sid) pk (p\<lparr>skt := s\<rparr>) = Inr ((), p\<lparr>skt := s\<rparr>)"
        using amf False pk(2) by (simp add: on_send_packet_def packet_header_def)
      moreover have "p\<lparr>skt := s, requests := requests p\<rparr> = p\<lparr>skt := s\<rparr>" by (cases p) simp
      ultimately show ?thesis by (intro exI [of _ "requests p"]) (simp only:)
    qed
    then obtain r where "on_send_packet (packet_header pk sid) pk (p\<lparr>skt := s\<rparr>) = Inr ((), p\<lparr>skt := s, requests := r\<rparr>)" by blast
    moreover have "p\<lparr>skt := s, requests := r, out_ack_size := out_ack_size p\<rparr> = p\<lparr>skt := s, requests := r\<rparr>" by (cases p) simp
    ultimately show ?thesis by (intro exI [of _ r] exI [of _ "out_ack_size p"]) (simp only:)
  qed
  then obtain r a where "on_send_packet (packet_header pk sid) pk (p\<lparr>skt := s\<rparr>) = Inr ((), p\<lparr>skt := s, requests := r, out_ack_size := a\<rparr>)"
    by blast
  moreover have "talks N M ys (out @ said M sid [pk]) (p\<lparr>skt := s, requests := r, out_ack_size := a\<rparr>)"
    using t s(2-4) by (simp add: talking_def j proto_ok_def proto_stream_def said_def)
  ultimately show ?thesis using s(1) by (auto simp: send_and_free_packet_def)
qed

end

text \<open>
  The identification as a function of the commands that come: the answers and the outcome, with the
  commands that are left; \<open>None\<close> while more are needed. The second argument is the depth left after a \<^verbatim>\<open>createStream\<close>.
\<close>

fun identify_spec :: "32 word \<Rightarrow> nat option \<Rightarrow> client \<Rightarrow> SrsPacket list
    \<Rightarrow> (SrsPacket list \<times> (failure + client \<times> SrsPacket list)) option" where
  "identify_spec sid st cl [] = None"
| "identify_spec sid st cl (pk # pks) =
     (let create = (\<lambda>d tid. if d = 0 then Some ([], Inl (Srs_error ERROR_RTMP_CREATE_STREAM_DEPTH))
          else map_option (\<lambda>(out, r). (SrsCreateStreamResPacket RTMP_AMF0_COMMAND_RESULT tid (double_of_int (sint sid)) # out, r))
                 (identify_spec sid (Some d) cl pks));
          next = identify_spec sid st cl pks
      in case pk of
           SrsPlayPacket _ _ name _ duration _ \<Rightarrow> Some ([], Inr (identify_play_client name duration cl, pks))
         | SrsCreateStreamPacket _ tid \<Rightarrow> (case st of None \<Rightarrow> create 3 tid | Some d \<Rightarrow> create (d - 1) tid)
         | SrsFMLEStartPacket _ tid name \<Rightarrow>
             if st = None then Some ([SrsFMLEStartResPacket RTMP_AMF0_COMMAND_RESULT tid],
               Inr (cl\<lparr>cl_type := SrsRtmpConnFMLEPublish, cl_stream := name\<rparr>, pks))
             else next
         | SrsPublishPacket _ _ name _ \<Rightarrow>
             if st = None then next else Some ([], Inr (identify_flash_publish_client name cl, pks))
         | _ \<Rightarrow> next)"

lemma sayable_not_skipped: "sayable pk \<Longrightarrow> \<not> identify_skips (cm_header (received (packet_message pk sid)))"
  by (simp add: identify_skips_def received_def received_header_def packet_message_def sayable_sendable(4) is_ackledgement_def
      is_set_chunk_size_def is_window_ackledgement_size_def is_user_control_message_def is_amf0_command_def)

lemma said_nonempty: "sayable pk \<Longrightarrow> 0 < N \<Longrightarrow> said N sid [pk] \<noteq> []"
  unfolding said_def
  by (frule sayable_sendable(1) [of _ sid], simp add: wire_Cons wire_Nil, subst chunks_from.simps) (auto simp: chunk_wire_def sendable_def)

context io_exact
begin

text \<open>What a call does when it gives the answers \<open>replies\<close> and the outcome \<open>r\<close>.\<close>

definition meets :: "nat \<Rightarrow> nat \<Rightarrow> 32 word \<Rightarrow> byte list \<Rightarrow> byte list \<Rightarrow> SrsPacket list \<times> (failure + 'a \<times> SrsPacket list)
    \<Rightarrow> ('a \<times> 'io SrsProtocol) result \<Rightarrow> bool" where
  "meets N M csid ys out a res \<longleftrightarrow>
     (case a of (replies, Inl e) \<Rightarrow> res = Inl e
      | (replies, Inr (v, rest)) \<Rightarrow> \<exists>p'. res = Inr (v, p') \<and> talks N M (said N csid rest @ ys) (out @ said M 0 replies) p')"

lemma say_first:
  assumes "talks N M zs out p" and "pk \<noteq> SrsPacketBase" "get_message_type pk \<noteq> RTMP_MSG_SetChunkSize"
    and "\<And>p'. talks N M zs (out @ said M 0 [pk]) p' \<Longrightarrow> meets N M csid ys (out @ said M 0 [pk]) (replies, r) (m p')"
  shows "meets N M csid ys out (pk # replies, r) (bnd (send_and_free_packet io pk 0) (\<lambda>_. m) p)"
proof -
  obtain p' where p': "send_and_free_packet io pk 0 p = Inr ((), p')" "talks N M zs (out @ said M 0 [pk]) p'"
    using say [OF assms(1-3)] by blast
  from assms(4) [OF p'(2)] p'(1) show ?thesis
    by (simp add: meets_def bnd_def said_Cons [of M 0 pk replies] split: sum.splits prod.splits)
qed

abbreviation identifies :: "nat option \<Rightarrow> nat \<Rightarrow> 32 word \<Rightarrow> client \<Rightarrow> 'io SrsProtocol \<Rightarrow> (client \<times> 'io SrsProtocol) result" where
  "identifies st fuel sid cl \<equiv> (case st of None \<Rightarrow> identify_loop fuel io sid cl | Some d \<Rightarrow> identify_create_stream_loop fuel io sid d cl)"

lemma identify_meets:
  assumes "talks N M (said N csid pks @ ys) out p" and "list_all sayable pks" and "length (said N csid pks @ ys) < fuel"
    and "identify_spec sid st cl pks = Some a"
  shows "meets N M csid ys out a (identifies st fuel sid cl p)"
  using assms
proof (induction pks arbitrary: p out fuel st a)
  case Nil
  then show ?case by simp
next
  case (Cons pk pks)
  have pk: "sayable pk" "list_all sayable pks" using Cons.prems(2) by auto
  obtain f where fuel: "fuel = Suc f" using Cons.prems(3) by (cases fuel) auto
  have f: "length (said N csid pks @ ys) < f"
    using Cons.prems(1,3) fuel said_nonempty [OF pk(1), of N csid] by (cases "said N csid [pk]") (auto simp: said_Cons [of N csid pk pks] talking_def)
  obtain p1 where p1: "recv_message (Suc f) io p = Inr (received (packet_message pk csid), p1)" "talks N M (said N csid pks @ ys) out p1"
    using hear [of N M csid pk "said N csid pks @ ys" out p "Suc f"] Cons.prems(1,3) pk(1) fuel
    by (auto simp: said_Cons [of N csid pk pks])
  note d = decode_sayable [OF pk(1), of csid p1] sayable_not_skipped [OF pk(1), of csid]
  note IH = Cons.IH [OF p1(2) pk(2) f]
  have create: "meets N M csid ys out a (identify_create_stream_client f io tid sid dep cl p1)"
    if spec: "(if dep = 0 then Some ([], Inl (Srs_error ERROR_RTMP_CREATE_STREAM_DEPTH))
          else map_option (\<lambda>(out, r). (SrsCreateStreamResPacket RTMP_AMF0_COMMAND_RESULT tid (double_of_int (sint sid)) # out, r))
                 (identify_spec sid (Some dep) cl pks)) = Some a" for dep tid
  proof (cases "dep = 0")
    case True
    then show ?thesis using spec by (subst identify_create_stream_client.simps) (auto simp: meets_def fail_def)
  next
    case False
    then obtain o' r where a: "identify_spec sid (Some dep) cl pks = Some (o', r)"
        "a = (SrsCreateStreamResPacket RTMP_AMF0_COMMAND_RESULT tid (double_of_int (sint sid)) # o', r)" using spec by (auto split: prod.splits)
    have "meets N M csid ys out a (bnd (send_and_free_packet io (SrsCreateStreamResPacket RTMP_AMF0_COMMAND_RESULT tid (double_of_int (sint sid))) 0)
        (\<lambda>_. identify_create_stream_loop f io sid dep cl) p1)"
      unfolding a(2) by (rule say_first [OF p1(2)]) (use Cons.IH [OF _ pk(2) f a(1)] in simp_all)
    then show ?thesis using False by (subst identify_create_stream_client.simps) simp
  qed
  show ?case
  proof (cases st)
    case None
    have run: "identifies st fuel sid cl p = (case pk of
                SrsCreateStreamPacket _ tid \<Rightarrow> identify_create_stream_client f io tid sid 3 cl
              | SrsFMLEStartPacket _ tid name \<Rightarrow> identify_fmle_publish_client io tid name cl
              | SrsPlayPacket _ _ name _ duration _ \<Rightarrow> ret (identify_play_client name duration cl)
              | _ \<Rightarrow> identify_loop f io sid cl) p1"
      using p1(1) d fuel None by (cases pk) (simp_all add: bnd_def)
    have fmle: "meets N M csid ys out ([SrsFMLEStartResPacket RTMP_AMF0_COMMAND_RESULT tid],
        Inr (cl\<lparr>cl_type := SrsRtmpConnFMLEPublish, cl_stream := name\<rparr>, pks)) (identify_fmle_publish_client io tid name cl p1)" for tid name
      unfolding identify_fmle_publish_client_def
      by (rule say_first [OF p1(2)]) (simp_all add: meets_def ret_def)
    show ?thesis unfolding run using Cons.prems(4) None IH [of None a] create [of 3] fmle p1(2)
      by (cases pk) (auto simp: Let_def meets_def ret_def)
  next
    case (Some dep)
    have run: "identifies st fuel sid cl p = (case pk of
                SrsPlayPacket _ _ name _ duration _ \<Rightarrow> ret (identify_play_client name duration cl)
              | SrsPublishPacket _ _ name _ \<Rightarrow> ret (identify_flash_publish_client name cl)
              | SrsCreateStreamPacket _ tid \<Rightarrow> identify_create_stream_client f io tid sid (dep - 1) cl
              | _ \<Rightarrow> identify_create_stream_loop f io sid dep cl) p1"
      using p1(1) d fuel Some by (cases pk) (simp_all add: bnd_def)
    show ?thesis
    proof (cases pk)
      case (SrsCreateStreamPacket n tid)
      with Cons.prems(4) Some have "meets N M csid ys out a (identify_create_stream_client f io tid sid (dep - 1) cl p1)"
        by (intro create) (auto simp: Let_def split: if_splits)
      then show ?thesis unfolding run by (simp add: SrsCreateStreamPacket)
    qed (use Cons.prems(4) Some IH [of "Some dep" a] p1(2) run in \<open>auto simp: Let_def meets_def ret_def\<close>)
  qed
qed

text \<open>Waiting for a command that comes next.\<close>

lemma hear_expected:
  assumes t: "talks N M (said N csid [pk] @ ys) out p" and pk: "sayable pk" and cast: "cast pk = Some v"
    and fuel: "length (said N csid [pk] @ ys) < fuel"
  shows "\<exists>p'. expect_message fuel io cast p = Inr ((received (packet_message pk csid), v), p') \<and> talks N M ys out p'"
proof -
  obtain f where f: "fuel = Suc f" using fuel by (cases fuel) auto
  obtain p' where "recv_message fuel io p = Inr (received (packet_message pk csid), p')" "talks N M ys out p'"
    using hear [OF t pk fuel] by blast
  then show ?thesis using decode_sayable [OF pk, of csid p'] cast f by (intro exI [of _ p']) (simp add: bnd_def ret_def)
qed

lemma fmle_dialogue:
  assumes t: "talks N M (said N csid [SrsFMLEStartPacket n1 t1 s1, SrsCreateStreamPacket n2 t2, SrsPublishPacket n3 t3 s3 y3] @ ys) out p"
    and pk: "sayable (SrsFMLEStartPacket n1 t1 s1)" "sayable (SrsCreateStreamPacket n2 t2)" "sayable (SrsPublishPacket n3 t3 s3 y3)"
    and fuel: "length (said N csid [SrsFMLEStartPacket n1 t1 s1, SrsCreateStreamPacket n2 t2, SrsPublishPacket n3 t3 s3 y3] @ ys) < fuel"
  shows "\<exists>p'. start_fmle_publish fuel io sid p = Inr ((), p') \<and> talks N M ys
     (out @ said M 0 [SrsFMLEStartResPacket RTMP_AMF0_COMMAND_RESULT t1,
             SrsCreateStreamResPacket RTMP_AMF0_COMMAND_RESULT t2 (double_of_int (sint sid))]
          @ said M sid [status_packet RTMP_AMF0_COMMAND_ON_FC_PUBLISH
             [(''code'', SrsAmf0String ''NetStream.Publish.Start''), (''description'', SrsAmf0String ''Started publishing stream.'')]]) p'"
proof -
  let ?a = "SrsFMLEStartPacket n1 t1 s1" and ?b = "SrsCreateStreamPacket n2 t2" and ?c = "SrsPublishPacket n3 t3 s3 y3"
  note cons = said_Cons [of N csid ?a "[?b, ?c]"] said_Cons [of N csid ?b "[?c]"]
  obtain p1 where p1: "expect_message fuel io as_fmle_start p = Inr ((received (packet_message ?a csid), t1), p1)"
      "talks N M (said N csid [?b] @ said N csid [?c] @ ys) out p1"
    using hear_expected [of N M csid ?a "said N csid [?b] @ said N csid [?c] @ ys" out p as_fmle_start t1 fuel] t pk(1) fuel
    by (auto simp: cons)
  obtain p2 where p2: "send_and_free_packet io (SrsFMLEStartResPacket RTMP_AMF0_COMMAND_RESULT t1) 0 p1 = Inr ((), p2)"
      "talks N M (said N csid [?b] @ said N csid [?c] @ ys) (out @ said M 0 [SrsFMLEStartResPacket RTMP_AMF0_COMMAND_RESULT t1]) p2"
    using say [OF p1(2)] by force
  obtain p3 where p3: "expect_message fuel io as_create_stream p2 = Inr ((received (packet_message ?b csid), t2), p3)"
      "talks N M (said N csid [?c] @ ys) (out @ said M 0 [SrsFMLEStartResPacket RTMP_AMF0_COMMAND_RESULT t1]) p3"
    using hear_expected [OF p2(2) pk(2), of as_create_stream t2 fuel] fuel by (auto simp: cons)
  obtain p4 where p4: "send_and_free_packet io (SrsCreateStreamResPacket RTMP_AMF0_COMMAND_RESULT t2 (double_of_int (sint sid))) 0 p3 = Inr ((), p4)"
      "talks N M (said N csid [?c] @ ys) ((out @ said M 0 [SrsFMLEStartResPacket RTMP_AMF0_COMMAND_RESULT t1])
         @ said M 0 [SrsCreateStreamResPacket RTMP_AMF0_COMMAND_RESULT t2 (double_of_int (sint sid))]) p4"
    using say [OF p3(2), of "SrsCreateStreamResPacket RTMP_AMF0_COMMAND_RESULT t2 (double_of_int (sint sid))" 0] by force
  obtain p5 where p5: "expect_message fuel io as_publish p4 = Inr ((received (packet_message ?c csid), ()), p5)"
      "talks N M ys ((out @ said M 0 [SrsFMLEStartResPacket RTMP_AMF0_COMMAND_RESULT t1])
         @ said M 0 [SrsCreateStreamResPacket RTMP_AMF0_COMMAND_RESULT t2 (double_of_int (sint sid))]) p5"
    using hear_expected [OF p4(2) pk(3), of as_publish "()" fuel] fuel by (auto simp: cons)
  show ?thesis
    using say [OF p5(2), of "status_packet RTMP_AMF0_COMMAND_ON_FC_PUBLISH
             [(''code'', SrsAmf0String ''NetStream.Publish.Start''), (''description'', SrsAmf0String ''Started publishing stream.'')]" sid]
      p1(1) p2(1) p3(1) p4(1) p5(1) said_Cons [of M 0 "SrsFMLEStartResPacket RTMP_AMF0_COMMAND_RESULT t1"
        "[SrsCreateStreamResPacket RTMP_AMF0_COMMAND_RESULT t2 (double_of_int (sint sid))]"]
    by (simp add: start_fmle_publish_def bnd_def)
qed

end

section \<open>Examples\<close>

lemma talking_new:
  "talking stfd_valid (\<lambda>s. concat (tcp_in (kernel s))) (\<lambda>s. tcp_out (kernel s)) 128 128 (concat (tcp_in k)) (tcp_out k)
     (SrsProtocol_new (SrsStSocket_new True k))"
  by (simp add: talking_def joined_new sample_ready) (simp add: SrsProtocol_new_def SrsStSocket_new_def)

lemma sample_sayable:
  "sayable (SrsFMLEStartPacket ''releaseStream'' double_2 ''live'')" "sayable (SrsFMLEStartPacket ''FCPublish'' double_3 ''live'')"
  "sayable (SrsCreateStreamPacket ''createStream'' double_2)" "sayable (SrsPublishPacket ''publish'' double_3 ''live'' ''live'')"
  by (simp_all add: sayable_def of_nat_less_iff [symmetric, where 'a = int] length_packet_bytes
      SrsAmf0Size_str_def SrsAmf0Size_utf8_def SrsAmf0Size_number_def SrsAmf0Size_null_def del: packet_bytes.simps of_nat_less_iff)

section \<open>Properties\<close>

text \<open>C6. The identification of a client, for every sequence of commands, however the transport cuts it into pieces:
  \<^verbatim>\<open>identify_client\<close> gives the answers and the outcome of \<open>identify_spec\<close>, consumes just the commands that this takes, and
  sends nothing else. So \<^verbatim>\<open>play\<close> makes a player, \<^verbatim>\<open>releaseStream\<close> or \<^verbatim>\<open>FCPublish\<close> an FMLE publisher, \<^verbatim>\<open>publish\<close> after
  \<^verbatim>\<open>createStream\<close> a Flash publisher; each \<^verbatim>\<open>createStream\<close> is answered with the stream id, the fourth is
  refused; other commands are skipped.\<close>

theorem identify_dialogue:
  assumes "io_exact io ok pending sent" and "talking ok pending sent N M (said N csid pks @ ys) out p"
    and "list_all sayable pks" and "length (said N csid pks @ ys) < fuel"
    and "identify_spec sid None (cl\<lparr>cl_type := SrsRtmpConnUnknown\<rparr>) pks = Some (replies, r)"
  shows "case r of
      Inl e \<Rightarrow> identify_client fuel io sid cl p = Inl e
    | Inr (cl', rest) \<Rightarrow> \<exists>p'. identify_client fuel io sid cl p = Inr (cl', p')
        \<and> talking ok pending sent N M (said N csid rest @ ys) (out @ said M 0 replies) p'"
  using io_exact.identify_meets [OF assms] unfolding io_exact.meets_def [OF assms(1)] identify_client_def
  by (simp split: sum.splits)

theorem identify_dialogue_witness:
  "let pks = [SrsFMLEStartPacket ''releaseStream'' double_2 ''live'', SrsFMLEStartPacket ''FCPublish'' double_3 ''live''];
       k = \<lparr>tcp_in = [said 128 0 pks], tcp_room = [3], tcp_out = []\<rparr>
   in \<exists>cl p'. identify_client (Suc (length (said 128 0 pks))) (SrsStSocket_io tcp_recv tcp_send tcp_writev) 1 sample_client
          (SrsProtocol_new (SrsStSocket_new True k)) = Inr (cl, p')
        \<and> cl_type cl = SrsRtmpConnFMLEPublish \<and> cl_stream cl = ''live''
        \<and> tcp_out (kernel (skt p')) = said 128 0 [SrsFMLEStartResPacket ''_result'' double_2]"
proof -
  let ?a = "SrsFMLEStartPacket ''releaseStream'' double_2 ''live''" and ?b = "SrsFMLEStartPacket ''FCPublish'' double_3 ''live''"
  let ?k = "\<lparr>tcp_in = [said 128 0 [?a, ?b]], tcp_room = [3], tcp_out = []\<rparr>"
  let ?p = "SrsProtocol_new (SrsStSocket_new True ?k)" and ?fuel = "Suc (length (said 128 0 [?a, ?b]))"
  let ?cl = "sample_client\<lparr>cl_type := SrsRtmpConnFMLEPublish, cl_stream := ''live''\<rparr>"
  have t: "talking stfd_valid (\<lambda>s. concat (tcp_in (kernel s))) (\<lambda>s. tcp_out (kernel s)) 128 128 (said 128 0 [?a, ?b] @ []) [] ?p"
    using talking_new [of ?k] by simp
  have s: "list_all sayable [?a, ?b]" using sample_sayable by simp
  have "\<exists>p'. identify_client ?fuel (SrsStSocket_io tcp_recv tcp_send tcp_writev) 1 sample_client ?p = Inr (?cl, p')
      \<and> talking stfd_valid (\<lambda>s. concat (tcp_in (kernel s))) (\<lambda>s. tcp_out (kernel s)) 128 128 (said 128 0 [?b] @ [])
          ([] @ said 128 0 [SrsFMLEStartResPacket ''_result'' double_2]) p'"
    using identify_dialogue [OF tcp.exact.io_exact_axioms t s, of ?fuel 1 sample_client "[SrsFMLEStartResPacket ''_result'' double_2]"
        "Inr (?cl, [?b])"] by simp
  then show ?thesis by (auto simp: Let_def talking_def)
qed



end
