(* ===== verification/RtmpConn.thy ===== *)
theory RtmpConn
  imports Dialogue Source
begin

text \<open>
  A connection, \<^verbatim>\<open>SrsRtmpConn\<close> of \<^verbatim>\<open>src/src/app/srs_app_rtmp_conn.cpp\<close>: handshake, connect, and then cycles of identifying
  the client and serving it as a player or as a publisher of a source. A connection runs in its own thread; the
  pool of sources is shared. Every operation on a source is atomic (it runs under the mutex of the
  source), and before each the other threads may have changed the pool: \<open>ev_others\<close> says how. The other
  parameters of \<open>conn_env\<close> are the transport, the HLS writers, what \<^verbatim>\<open>pull()\<close> and \<^verbatim>\<open>poll()\<close> answer, and the
  values of the system that go into messages. Logging is left out.
\<close>

section \<open>State and environment\<close>

record ('io, 'h, 'l) conn_env =
  ev_io :: "'io ISrsProtocolReadWriter"
  ev_set_timeouts :: "int \<Rightarrow> int \<Rightarrow> 'io \<Rightarrow> 'io"
  ev_hls :: "'h stream_handler"
  ev_llhls :: "'l stream_handler"
  ev_new_hls :: 'h
  ev_new_llhls :: 'l
  ev_others :: "nat \<Rightarrow> ('h, 'l) pool \<Rightarrow> ('h, 'l) pool"
  ev_pull :: "nat \<Rightarrow> failure option"
  ev_poll :: "nat \<Rightarrow> bool"
  ev_fresh :: "nat \<Rightarrow> byte list"
  ev_consumer :: "nat \<Rightarrow> nat"
  ev_cid :: string
  ev_pid :: int
  ev_ip :: string
  ev_local_ip :: string
  ev_random :: "nat \<Rightarrow> nat"
  ev_time :: "32 word"

record ('io, 'h, 'l) SrsRtmpConn =
  cn_type :: SrsRtmpConnType
  cn_req :: SrsRequest
  cn_stream_id :: "32 word"
  cn_hs :: SrsHandshakeBytes
  cn_rtmp :: "'io SrsProtocol"
  cn_sources :: "('h, 'l) pool"
  cn_now :: nat

definition SrsRtmpConn_new :: "'io \<Rightarrow> ('h, 'l) pool \<Rightarrow> ('io, 'h, 'l) SrsRtmpConn" where
  "SrsRtmpConn_new io sources = \<lparr>cn_type = SrsRtmpConnUnknown, cn_req = SrsRequest_new, cn_stream_id = SRS_DEFAULT_SID,
     cn_hs = SrsHandshakeBytes_new, cn_rtmp = SrsProtocol_new io, cn_sources = sources, cn_now = 0\<rparr>"

text \<open>The configuration that the connection reads.\<close>

abbreviation (input) config_chunk_size :: "32 word" where "config_chunk_size \<equiv> 60000"
abbreviation (input) config_window_ack_size :: "32 word" where "config_window_ack_size \<equiv> 2500000"
abbreviation (input) config_peer_bandwidth :: "32 word" where "config_peer_bandwidth \<equiv> 2500000"
abbreviation (input) config_gop_cache_max_frames :: int where "config_gop_cache_max_frames \<equiv> 2500"
abbreviation (input) config_mw_msgs :: int where "config_mw_msgs \<equiv> 128"
abbreviation (input) SRS_PERF_MW_SLEEP :: int where "SRS_PERF_MW_SLEEP \<equiv> 350000"
abbreviation (input) SRS_CONSTS_RTMP_TIMEOUT :: int where "SRS_CONSTS_RTMP_TIMEOUT \<equiv> 30000000"
abbreviation (input) SRS_REPUBLISH_TIMEOUT :: int where "SRS_REPUBLISH_TIMEOUT \<equiv> 180000000"
abbreviation (input) SRS_PAUSED_TIMEOUT :: int where "SRS_PAUSED_TIMEOUT \<equiv> 180000000"
abbreviation (input) SrsPeerBandwidthDynamic :: byte where "SrsPeerBandwidthDynamic \<equiv> 2"

section \<open>Steps\<close>

text \<open>
  An operation gives its error, if any, and the new state, and is composed with \<open>andthen\<close>. \<open>rtmp m f\<close> runs an operation of the protocol
  object (whose state is of no use after an error) and goes on with its value.
\<close>

definition rtmp :: "('io SrsProtocol \<Rightarrow> ('v \<times> 'io SrsProtocol) result) \<Rightarrow> ('v \<Rightarrow> ('io, 'h, 'l) SrsRtmpConn \<Rightarrow> ('io, 'h, 'l) SrsRtmpConn outcome)
    \<Rightarrow> ('io, 'h, 'l) SrsRtmpConn \<Rightarrow> ('io, 'h, 'l) SrsRtmpConn outcome" where
  "rtmp m f c = (case m (cn_rtmp c) of Inl e \<Rightarrow> (Some e, c) | Inr (v, p) \<Rightarrow> f v (c\<lparr>cn_rtmp := p\<rparr>))"

definition send :: "('io SrsProtocol \<Rightarrow> (unit \<times> 'io SrsProtocol) result) \<Rightarrow> ('io, 'h, 'l) SrsRtmpConn \<Rightarrow> ('io, 'h, 'l) SrsRtmpConn outcome" where
  "send m = rtmp m (\<lambda>_ c. (None, c))"

definition pull :: "('io, 'h, 'l) conn_env \<Rightarrow> ('io, 'h, 'l) SrsRtmpConn \<Rightarrow> ('io, 'h, 'l) SrsRtmpConn outcome" where
  "pull E c = (ev_pull E (cn_now c), c\<lparr>cn_now := Suc (cn_now c)\<rparr>)"

definition others :: "('io, 'h, 'l) conn_env \<Rightarrow> ('io, 'h, 'l) SrsRtmpConn \<Rightarrow> ('io, 'h, 'l) SrsRtmpConn" where
  "others E c = c\<lparr>cn_sources := ev_others E (cn_now c) (cn_sources c), cn_now := Suc (cn_now c)\<rparr>"

definition set_timeouts :: "('io, 'h, 'l) conn_env \<Rightarrow> int \<Rightarrow> int \<Rightarrow> ('io, 'h, 'l) SrsRtmpConn \<Rightarrow> ('io, 'h, 'l) SrsRtmpConn" where
  "set_timeouts E r s c = c\<lparr>cn_rtmp := (cn_rtmp c)\<lparr>skt := ev_set_timeouts E r s (skt (cn_rtmp c))\<rparr>\<rparr>"

text \<open>
  An operation on the source with the key \<open>url\<close>. The code holds a pointer to it; a source or consumer that is gone
  would be a dangling pointer and is an abort here.
\<close>

definition pool_update :: "string \<Rightarrow> ('h, 'l) SrsLiveSource \<Rightarrow> ('h, 'l) pool \<Rightarrow> ('h, 'l) pool" where
  "pool_update url s = map (\<lambda>(k, s0). (k, if k = url then s else s0))"

definition with_source :: "('io, 'h, 'l) conn_env \<Rightarrow> string \<Rightarrow> (('h, 'l) SrsLiveSource \<Rightarrow> ('h, 'l) SrsLiveSource outcome)
    \<Rightarrow> ('io, 'h, 'l) SrsRtmpConn \<Rightarrow> ('io, 'h, 'l) SrsRtmpConn outcome" where
  "with_source E url f c =
     (let c1 = others E c in
      case map_of (cn_sources c1) url of
        None \<Rightarrow> (Some Srs_abort, c1)
      | Some s \<Rightarrow> let (e, s') = f s in (e, c1\<lparr>cn_sources := pool_update url s' (cn_sources c1)\<rparr>))"

text \<open>The same for a consumer of the source; \<open>f\<close> gives a value.\<close>

definition with_consumer :: "('io, 'h, 'l) conn_env \<Rightarrow> string \<Rightarrow> nat \<Rightarrow> (SrsLiveConsumer \<Rightarrow> ('v \<times> SrsLiveConsumer) result)
    \<Rightarrow> ('v \<Rightarrow> ('io, 'h, 'l) SrsRtmpConn \<Rightarrow> ('io, 'h, 'l) SrsRtmpConn outcome)
    \<Rightarrow> ('io, 'h, 'l) SrsRtmpConn \<Rightarrow> ('io, 'h, 'l) SrsRtmpConn outcome" where
  "with_consumer E url a f g c =
     (let c1 = others E c in
      case map_of (cn_sources c1) url of
        None \<Rightarrow> (Some Srs_abort, c1)
      | Some s \<Rightarrow>
          (case map_of (src_consumers s) a of
             None \<Rightarrow> (Some Srs_abort, c1)
           | Some k \<Rightarrow>
               (case f k of
                  Inl e \<Rightarrow> (Some e, c1)
                | Inr (v, k') \<Rightarrow> g v (c1\<lparr>cn_sources := pool_update url
                    (s\<lparr>src_consumers := map (\<lambda>(a', k0). (a', if a' = a then k' else k0)) (src_consumers s)\<rparr>) (cn_sources c1)\<rparr>))))"

section \<open>Publishing\<close>

definition process_publish_message :: "('io, 'h, 'l) conn_env \<Rightarrow> string \<Rightarrow> SrsCommonMessage
    \<Rightarrow> ('io, 'h, 'l) SrsRtmpConn \<Rightarrow> ('io, 'h, 'l) SrsRtmpConn outcome" where
  "process_publish_message E url msg =
     (let h = cm_header msg in
      if is_audio h then with_source E url (source_on_audio (ev_hls E) (ev_llhls E) msg)
      else if is_video h then with_source E url (source_on_video (ev_hls E) (ev_llhls E) msg)
      else if is_amf0_data h
      then rtmp (decode_message msg) (\<lambda>pkt.
             case pkt of
               Some (SrsOnMetaDataPacket name md) \<Rightarrow> with_source E url (source_on_meta_data (ev_fresh E) h name md)
             | _ \<Rightarrow> (\<lambda>c. (None, c)))
      else (\<lambda>c. (None, c)))"

definition handle_publish_message :: "('io, 'h, 'l) conn_env \<Rightarrow> string \<Rightarrow> SrsCommonMessage
    \<Rightarrow> ('io, 'h, 'l) SrsRtmpConn \<Rightarrow> ('io, 'h, 'l) SrsRtmpConn outcome" where
  "handle_publish_message E url msg =
     (if is_amf0_command (cm_header msg)
      then rtmp (decode_message msg) (\<lambda>pkt c.
             case pkt of
               Some (SrsFMLEStartPacket _ tid _) \<Rightarrow>
                 andthen (send (fmle_unpublish (ev_io E) (cn_stream_id c) tid))
                   (\<lambda>c. (Some (Srs_error ERROR_CONTROL_REPUBLISH), c)) c
             | _ \<Rightarrow> (None, c))
      else process_publish_message E url msg)"

fun publish_loop :: "nat \<Rightarrow> ('io, 'h, 'l) conn_env \<Rightarrow> string \<Rightarrow> ('io, 'h, 'l) SrsRtmpConn \<Rightarrow> ('io, 'h, 'l) SrsRtmpConn outcome" where
  "publish_loop 0 E url = (\<lambda>c. (Some Out_of_fuel, c))"
| "publish_loop (Suc fuel) E url =
     andthen (pull E) (rtmp (recv_message (Suc fuel) (ev_io E)) (\<lambda>msg.
       andthen (handle_publish_message E url msg) (publish_loop fuel E url)))"

definition do_publishing :: "nat \<Rightarrow> ('io, 'h, 'l) conn_env \<Rightarrow> string \<Rightarrow> ('io, 'h, 'l) SrsRtmpConn \<Rightarrow> ('io, 'h, 'l) SrsRtmpConn outcome" where
  "do_publishing fuel E url c = andthen (send (start_publishing (ev_io E) (cn_stream_id c))) (publish_loop fuel E url) c"

definition acquire_publish :: "('io, 'h, 'l) conn_env \<Rightarrow> string \<Rightarrow> ('io, 'h, 'l) SrsRtmpConn \<Rightarrow> ('io, 'h, 'l) SrsRtmpConn outcome" where
  "acquire_publish E url =
     andthen (with_source E url (\<lambda>s. (if \<not> src_can_publish s then Some (Srs_error ERROR_SYSTEM_STREAM_BUSY) else None, s)))
       (with_source E url (source_on_publish (ev_hls E) (ev_llhls E) (ev_cid E)))"

definition release_publish :: "('io, 'h, 'l) conn_env \<Rightarrow> string \<Rightarrow> ('io, 'h, 'l) SrsRtmpConn \<Rightarrow> ('io, 'h, 'l) SrsRtmpConn" where
  "release_publish E url c = snd (with_source E url (\<lambda>s. (None, source_on_unpublish (ev_hls E) (ev_llhls E) s)) c)"

definition publishing :: "nat \<Rightarrow> ('io, 'h, 'l) conn_env \<Rightarrow> string \<Rightarrow> ('io, 'h, 'l) SrsRtmpConn \<Rightarrow> ('io, 'h, 'l) SrsRtmpConn outcome" where
  "publishing fuel E url c =
     (case acquire_publish E url c of
        (Some e, c1) \<Rightarrow> (Some e, c1)
      | (None, c1) \<Rightarrow> let (e, c2) = do_publishing fuel E url c1 in (e, release_publish E url c2))"

section \<open>Playing\<close>

definition process_play_control_msg :: "SrsCommonMessage \<Rightarrow> ('io, 'h, 'l) SrsRtmpConn \<Rightarrow> ('io, 'h, 'l) SrsRtmpConn outcome" where
  "process_play_control_msg msg =
     (if \<not> is_amf0_command (cm_header msg) then (\<lambda>c. (None, c)) else rtmp (decode_message msg) (\<lambda>_ c. (None, c)))"

text \<open>Messages of the player are read as long as the socket is readable.\<close>

fun poll_loop :: "nat \<Rightarrow> ('io, 'h, 'l) conn_env \<Rightarrow> ('io, 'h, 'l) SrsRtmpConn \<Rightarrow> ('io, 'h, 'l) SrsRtmpConn outcome" where
  "poll_loop 0 E = (\<lambda>c. (Some Out_of_fuel, c))"
| "poll_loop (Suc fuel) E = (\<lambda>c.
     let c1 = c\<lparr>cn_now := Suc (cn_now c)\<rparr> in
     if ev_poll E (cn_now c)
     then rtmp (recv_message (Suc fuel) (ev_io E)) (\<lambda>msg. andthen (process_play_control_msg msg) (poll_loop fuel E)) c1
     else (None, c1))"

text \<open>
  One round: the wait of \<open>Consumer\<close> (its two steps, with other threads between them), then what the consumer has is
  sent. The number of rounds is bounded by \<open>rounds\<close>; a player stays until it leaves.
\<close>

fun do_playing :: "nat \<Rightarrow> nat \<Rightarrow> ('io, 'h, 'l) conn_env \<Rightarrow> string \<Rightarrow> nat \<Rightarrow> ('io, 'h, 'l) SrsRtmpConn \<Rightarrow> ('io, 'h, 'l) SrsRtmpConn outcome" where
  "do_playing 0 fuel E url a = (\<lambda>c. (Some Out_of_fuel, c))"
| "do_playing (Suc rounds) fuel E url a =
     andthen (pull E) (andthen (poll_loop fuel E)
       (with_consumer E url a (\<lambda>k. case consumer_wait_begin config_mw_msgs SRS_PERF_MW_SLEEP k of (k', asleep) \<Rightarrow> Inr (asleep, k')) (\<lambda>asleep.
        andthen (if asleep then with_consumer E url a (\<lambda>k. Inr ((), consumer_wait_end k)) (\<lambda>_ c. (None, c)) else (\<lambda>c. (None, c)))
        (with_consumer E url a (consumer_dump_packets config_mw_msgs 0) (\<lambda>msgs c.
          if msgs = [] then do_playing rounds fuel E url a c
          else andthen (send (send_and_free_messages (ev_io E) (map Some msgs) (cn_stream_id c))) (do_playing rounds fuel E url a) c)))))"

definition playing :: "nat \<Rightarrow> nat \<Rightarrow> ('io, 'h, 'l) conn_env \<Rightarrow> string \<Rightarrow> ('io, 'h, 'l) SrsRtmpConn \<Rightarrow> ('io, 'h, 'l) SrsRtmpConn outcome" where
  "playing rounds fuel E url c =
     (let a = ev_consumer E (cn_now c) in
      andthen (with_source E url (\<lambda>s. (None, create_consumer a s)))
       (andthen (with_source E url (\<lambda>s. (None, consumer_dumps True True True a s)))
         (\<lambda>c1. let (e, c2) = do_playing rounds fuel E url a c1 in
               (e, snd (with_source E url (\<lambda>s. (None, on_consumer_destroy a s)) c2)))) c)"

section \<open>The service\<close>

text \<open>The request after the identification: discovered again with the name of the stream, then stripped.\<close>

definition service_request :: "client \<Rightarrow> SrsRequest \<Rightarrow> SrsRequest" where
  "service_request cl req = strip (srs_discovery_tc_url (req\<lparr>rq_stream := cl_stream cl, rq_duration := cl_duration cl\<rparr>))"

definition serve :: "nat \<Rightarrow> nat \<Rightarrow> ('io, 'h, 'l) conn_env \<Rightarrow> string \<Rightarrow> ('io, 'h, 'l) SrsRtmpConn \<Rightarrow> ('io, 'h, 'l) SrsRtmpConn outcome" where
  "serve rounds fuel E url c =
     (case cn_type c of
        SrsRtmpConnPlay \<Rightarrow> andthen (send (start_play (ev_io E) (cn_stream_id c))) (playing rounds fuel E url) c
      | SrsRtmpConnFMLEPublish \<Rightarrow> andthen (send (start_fmle_publish fuel (ev_io E) (cn_stream_id c))) (publishing fuel E url) c
      | SrsRtmpConnFlashPublish \<Rightarrow> publishing fuel E url c
      | SrsRtmpConnUnknown \<Rightarrow> (Some (Srs_error ERROR_SYSTEM_CLIENT_INVALID), c))"

definition stream_service_cycle :: "nat \<Rightarrow> nat \<Rightarrow> ('io, 'h, 'l) conn_env \<Rightarrow> ('io, 'h, 'l) SrsRtmpConn \<Rightarrow> ('io, 'h, 'l) SrsRtmpConn outcome" where
  "stream_service_cycle rounds fuel E c =
     rtmp (identify_client fuel (ev_io E) (cn_stream_id c)
            \<lparr>cl_type = cn_type c, cl_stream = rq_stream (cn_req c), cl_duration = rq_duration (cn_req c)\<rparr>) (\<lambda>cl c1.
       let req = service_request cl (cn_req c1); c2 = c1\<lparr>cn_type := cl_type cl, cn_req := req\<rparr> in
       if rq_schema req = [] \<or> rq_vhost req = [] \<or> rq_port req = 0 \<or> rq_app req = [] then (Some (Srs_error ERROR_RTMP_REQ_TCURL), c2)
       else if rq_stream req = [] then (Some (Srs_error ERROR_RTMP_STREAM_NAME_EMPTY), c2)
       else let c3 = others E (set_timeouts E SRS_CONSTS_RTMP_TIMEOUT SRS_CONSTS_RTMP_TIMEOUT c2) in
            case fetch_or_create (ev_hls E) (ev_llhls E) (ev_new_hls E) (ev_new_llhls E) req (cn_sources c3) of
              Inl e \<Rightarrow> (Some e, c3)
            | Inr (url, pool) \<Rightarrow>
                andthen (with_source E url (\<lambda>s. (None, source_set_cache True s)))
                 (andthen (with_source E url (\<lambda>s. (None, source_set_gop_cache_max_frames config_gop_cache_max_frames s)))
                   (serve rounds fuel E url)) (c3\<lparr>cn_sources := pool\<rparr>)) c"

text \<open>The loop goes on only after an error that asks for it; \<open>fuel\<close> bounds it, as every round identifies a client.\<close>

fun service_loop :: "nat \<Rightarrow> nat \<Rightarrow> nat \<Rightarrow> ('io, 'h, 'l) conn_env \<Rightarrow> ('io, 'h, 'l) SrsRtmpConn \<Rightarrow> ('io, 'h, 'l) SrsRtmpConn outcome" where
  "service_loop 0 rounds fuel E = (\<lambda>c. (Some Out_of_fuel, c))"
| "service_loop (Suc n) rounds fuel E =
     andthen (pull E) (\<lambda>c.
       case stream_service_cycle rounds fuel E c of
         (None, c1) \<Rightarrow> service_loop n rounds fuel E c1
       | (Some e, c1) \<Rightarrow>
           if \<not> srs_is_system_control_error e then (Some e, c1)
           else if e = Srs_error ERROR_CONTROL_REPUBLISH
           then service_loop n rounds fuel E (set_timeouts E SRS_REPUBLISH_TIMEOUT SRS_REPUBLISH_TIMEOUT c1)
           else if e = Srs_error ERROR_CONTROL_RTMP_CLOSE
           then service_loop n rounds fuel E (set_timeouts E SRS_PAUSED_TIMEOUT SRS_PAUSED_TIMEOUT c1)
           else (Some e, c1))"

definition service_cycle :: "nat \<Rightarrow> nat \<Rightarrow> ('io, 'h, 'l) conn_env \<Rightarrow> ('io, 'h, 'l) SrsRtmpConn \<Rightarrow> ('io, 'h, 'l) SrsRtmpConn outcome" where
  "service_cycle rounds fuel E c =
     andthen (send (set_window_ack_size (ev_io E) config_window_ack_size))
     (andthen (send (set_peer_bandwidth (ev_io E) config_peer_bandwidth SrsPeerBandwidthDynamic))
     (andthen (send (set_chunk_size (ev_io E) config_chunk_size))
     (andthen (send (response_connect_app (ev_io E) (ev_pid E) (ev_cid E) (cn_req c) (Some (ev_local_ip E))))
       (service_loop fuel rounds fuel E)))) c"

definition do_cycle :: "nat \<Rightarrow> nat \<Rightarrow> ('io, 'h, 'l) conn_env \<Rightarrow> ('io, 'h, 'l) SrsRtmpConn \<Rightarrow> ('io, 'h, 'l) SrsRtmpConn outcome" where
  "do_cycle rounds fuel E c =
     (let c1 = set_timeouts E SRS_CONSTS_RTMP_TIMEOUT SRS_CONSTS_RTMP_TIMEOUT c in
      case rtmp_handshake (ev_io E) (ev_random E) (ev_time E) (cn_hs c1, cn_rtmp c1) of
        Inl e \<Rightarrow> (Some e, c1)
      | Inr (_, hs, p) \<Rightarrow>
          rtmp (connect_app fuel (ev_io E) (cn_req c1)) (\<lambda>req c2.
            service_cycle rounds fuel E (c2\<lparr>cn_req := req\<lparr>rq_ip := ev_ip E\<rparr>\<rparr>)) (c1\<lparr>cn_hs := hs, cn_rtmp := p\<rparr>))"

text \<open>Sending messages.\<close>

lemma conducts_messages:
  assumes "io_output io ok pending sent" and "msgs \<noteq> []"
  shows "io_output.conducts ok pending L 0 (send_and_free_messages io (map Some msgs) sid)"
  unfolding io_output.conducts_def [OF assms(1)]
proof (intro allI impI)
  fix p assume p: "proto_ok ok p" "proto_inv p"
  have n: "0 < nat (out_chunk_size p)" "out_chunk_size p = int (nat (out_chunk_size p))" "ok (skt p)"
    using p by (auto simp: proto_inv_def proto_ok_def)
  obtain s where s: "do_send_messages io (map Some (checked sid msgs)) p = Inr ((), p\<lparr>skt := s\<rparr>)"
      "pending s = pending (skt p)" "ok s"
    using io_output.do_send_messages_wire [OF assms(1) n, of "checked sid msgs"] by blast
  then have "send_and_free_messages io (map Some msgs) sid p = Inr ((), p\<lparr>skt := s\<rparr>)"
    using assms(2) by (simp add: send_and_free_messages_def check_messages_checked)
  then show "answered (send_and_free_messages io (map Some msgs) sid p)
      \<and> (\<forall>v p'. send_and_free_messages io (map Some msgs) sid p = Inr (v, p') \<longrightarrow> proto_ok ok p' \<and> proto_inv p'
        \<and> length (proto_stream pending p') + 0 \<le> length (proto_stream pending p))"
    using p s(2,3) by (auto simp: proto_ok_def proto_inv_def proto_stream_def)
qed

section \<open>What the environment is relied on for\<close>

text \<open>\<open>I\<close> and \<open>J\<close> are the invariants of the two writers.\<close>

definition conn_env_ok :: "('io \<Rightarrow> bool) \<Rightarrow> ('io \<Rightarrow> byte list) \<Rightarrow> ('h \<Rightarrow> bool) \<Rightarrow> ('l \<Rightarrow> bool) \<Rightarrow> ('io, 'h, 'l) conn_env \<Rightarrow> bool" where
  "conn_env_ok ok pending I J E \<longleftrightarrow> (\<exists>N. N (ev_new_hls E) \<and> handler_safe N I (ev_hls E))
     \<and> (\<exists>N. N (ev_new_llhls E) \<and> handler_safe N J (ev_llhls E)) \<and> (\<forall>t. returns (ev_pull E t, ()))
     \<and> (\<forall>n. length (ev_fresh E n) = n)
     \<and> (\<forall>r s io. ok io \<longrightarrow> ok (ev_set_timeouts E r s io) \<and> pending (ev_set_timeouts E r s io) = pending io)"

lemma conn_env_okD:
  assumes "conn_env_ok ok pending I J E"
  shows "ev_pull E t = Some e \<Longrightarrow> \<exists>c. e = Srs_error c" "length (ev_fresh E n) = n"
    "ok io \<Longrightarrow> ok (ev_set_timeouts E r s io)" "ok io \<Longrightarrow> pending (ev_set_timeouts E r s io) = pending io"
  using assms by (auto simp: conn_env_ok_def) (metis returns_Some)

lemma conn_env_handlers:
  assumes "conn_env_ok ok pending I J E"
  obtains N N' where "N (ev_new_hls E)" "handler_safe N I (ev_hls E)" "N' (ev_new_llhls E)" "handler_safe N' J (ev_llhls E)"
  using assms unfolding conn_env_ok_def by blast

section \<open>The operations of a source return\<close>

text \<open>A source that is initialised, with its writers in order.\<close>

definition src_good :: "('h \<Rightarrow> bool) \<Rightarrow> ('l \<Rightarrow> bool) \<Rightarrow> ('h, 'l) SrsLiveSource \<Rightarrow> bool" where
  "src_good I J s \<longleftrightarrow> src_req s \<noteq> None \<and> hub_ok I J (src_hub s)"

lemma hub_on_publish_safe:
  assumes "handler_safe N I H" and "handler_safe N' J L" and "hub_ok I J hub" and "hub_on_publish H L hub = (e, hub')"
  shows "returns (e, hub') \<and> hub_ok I J hub'"
proof -
  obtain e1 h where h: "sh_on_publish H (hub_hls hub) = (e1, h)" by fastforce
  obtain e2 l where l: "sh_on_publish L (hub_llhls hub) = (e2, l)" by fastforce
  have t: "triple I (sh_on_publish H) I I" "triple J (sh_on_publish L) J J" using assms(1,2) by (simp_all add: handler_safe_def)
  have i: "I (hub_hls hub)" "J (hub_llhls hub)" "format_ok (hub_format hub)" using assms(3) by (simp_all add: hub_ok_def)
  from tripleD [OF t(1) i(1) h] tripleD [OF t(2) i(2) l] show ?thesis
    using assms(4) i by (auto simp: hub_on_publish_def h l hub_ok_def)
qed

lemma hub_on_unpublish_safe:
  "handler_safe N I H \<Longrightarrow> handler_safe N' J L \<Longrightarrow> hub_ok I J hub \<Longrightarrow> hub_ok I J (hub_on_unpublish H L hub)"
  by (auto simp: hub_on_unpublish_def hub_ok_def handler_safe_def)

lemma source_on_publish_safe:
  assumes "handler_safe N I H" and "handler_safe N' J L" and "src_good I J s" and "source_on_publish H L cid s = (e, s')"
  shows "returns (e, s') \<and> src_good I J s'"
proof -
  let ?s1 = "on_source_id_changed cid (s\<lparr>src_can_publish := False\<rparr>)"
  have s: "src_req s \<noteq> None" "hub_ok I J (src_hub s)" using assms(3) by (simp_all add: src_good_def)
  have s1: "src_hub ?s1 = src_hub s" "src_req ?s1 = src_req s" by (simp_all add: on_source_id_changed_def)
  obtain e1 hub where h: "hub_on_publish H L (src_hub s) = (e1, hub)" by fastforce
  note k = hub_on_publish_safe [OF assms(1,2) s(2) h]
  show ?thesis using assms(3,4) s(1) k s1 by (auto simp: source_on_publish_def src_good_def h Let_def split: if_splits)
qed

lemma source_on_unpublish_safe:
  "handler_safe N I H \<Longrightarrow> handler_safe N' J L \<Longrightarrow> src_good I J s \<Longrightarrow> src_good I J (source_on_unpublish H L s)"
  by (auto simp: source_on_unpublish_def src_good_def hub_on_unpublish_safe)

lemma imp_safe:
  assumes "handler_safe N I H" and "handler_safe N' J L" and "hub_ok I J (src_hub s)"
  shows "on_audio_imp H L msg s = (e, s') \<Longrightarrow> returns (e, s') \<and> hub_ok I J (src_hub s')"
    and "on_video_imp H L msg s = (e, s') \<Longrightarrow> returns (e, s') \<and> hub_ok I J (src_hub s')"
proof -
  obtain hub where a: "hub_on_audio H L msg (src_hub s) = (None, hub)" "hub_ok I J hub" using hub_frames_safe(1) [OF assms] by blast
  then show "on_audio_imp H L msg s = (e, s') \<Longrightarrow> returns (e, s') \<and> hub_ok I J (src_hub s')"
    by (auto simp: on_audio_imp_def fan_out_def Let_def split: if_splits)
  obtain hub where v: "hub_on_video H L msg (src_hub s) = (None, hub)" "hub_ok I J hub" using hub_frames_safe(2) [OF assms] by blast
  then show "on_video_imp H L msg s = (e, s') \<Longrightarrow> returns (e, s') \<and> hub_ok I J (src_hub s')"
    by (auto simp: on_video_imp_def fan_out_def Let_def split: if_splits)
qed

lemma create_msg_cases:
  "(\<exists>c. SrsSharedPtrMessage_create_msg msg = Inl (Srs_error c)) \<or> (\<exists>m msg'. SrsSharedPtrMessage_create_msg msg = Inr (m, msg'))"
  by (simp add: SrsSharedPtrMessage_create_msg_def SrsSharedPtrMessage_create_def)

lemma source_frames_safe:
  assumes "handler_safe N I H" and "handler_safe N' J L" and "hub_ok I J (src_hub s)"
  shows "source_on_audio H L msg s = (e, s') \<Longrightarrow> returns (e, s') \<and> hub_ok I J (src_hub s')"
    and "source_on_video H L msg s = (e, s') \<Longrightarrow> returns (e, s') \<and> hub_ok I J (src_hub s')"
  using create_msg_cases [of msg] imp_safe [OF assms] assms(3) by (auto simp: source_on_audio_def source_on_video_def)

lemma source_meta_data_returns: "(\<And>n. length (fresh n) = n) \<Longrightarrow> returns (source_on_meta_data fresh header name md s)"
  by (auto simp: source_on_meta_data_def update_data_def encode_all SrsSharedPtrMessage_create_def Let_def split: option.split)

lemma source_meta_data_hub: "source_on_meta_data fresh header name md s = (e, s') \<Longrightarrow> src_hub s' = src_hub s"
  by (auto simp: source_on_meta_data_def fan_out_def Let_def split: sum.splits if_splits option.splits)

lemma source_initialize_safe:
  assumes "handler_safe N I H" and "handler_safe N' J L" and "N h" and "N' l"
    and "source_initialize H L r (SrsLiveSource_new h l) = (e, s)"
  shows "returns (e, s) \<and> (e = None \<longrightarrow> src_good I J s)"
proof -
  obtain e1 h' where h: "sh_initialize H (request_copy r) h = (e1, h')" by fastforce
  obtain e2 l' where l: "sh_initialize L (request_copy r) l = (e2, l')" by fastforce
  have t: "triple N (sh_initialize H (request_copy r)) I I" "triple N' (sh_initialize L (request_copy r)) J J"
    using assms(1,2) by (simp_all add: handler_safe_def)
  from tripleD [OF t(1) assms(3) h] tripleD [OF t(2) assms(4) l] show ?thesis
    using assms(5) by (auto simp: source_initialize_def hub_initialize_def SrsLiveSource_new_def SrsOriginHub_new_def h l
      src_good_def hub_ok_def format_ok_def SrsFormat_new_def)
qed

section \<open>Running a connection\<close>

text \<open>
  \<open>S\<close> is a predicate on the time and the pool that the other threads keep. \<open>runs S F L m\<close>: with at most \<open>L\<close> bytes to
  come, the step \<open>m\<close> keeps \<open>S\<close> and the protocol object in order, whatever its outcome; its error is an error
  code or the null dereference of a play command, or, if \<open>F\<close>, the end of the bound on the rounds of a player.
\<close>

definition steady :: "('io, 'h, 'l) conn_env \<Rightarrow> (nat \<Rightarrow> ('h, 'l) pool \<Rightarrow> bool) \<Rightarrow> bool" where
  "steady E S \<longleftrightarrow> (\<forall>t pool. S t pool \<longrightarrow> S (Suc t) pool \<and> S (Suc t) (ev_others E t pool))"

definition tolerated :: "bool \<Rightarrow> failure \<Rightarrow> bool" where
  "tolerated F e \<longleftrightarrow> (\<exists>c. e = Srs_error c) \<or> e = Srs_null_deref \<or> (F \<and> e = Out_of_fuel)"

definition conn_inv :: "('io \<Rightarrow> bool) \<Rightarrow> (nat \<Rightarrow> ('h, 'l) pool \<Rightarrow> bool) \<Rightarrow> ('io, 'h, 'l) SrsRtmpConn \<Rightarrow> bool" where
  "conn_inv ok S c \<longleftrightarrow> proto_ok ok (cn_rtmp c) \<and> proto_inv (cn_rtmp c) \<and> S (cn_now c) (cn_sources c)"

abbreviation to_come :: "('io \<Rightarrow> byte list) \<Rightarrow> ('io, 'h, 'l) SrsRtmpConn \<Rightarrow> nat" where
  "to_come pending c \<equiv> length (proto_stream pending (cn_rtmp c))"

definition runs :: "('io \<Rightarrow> bool) \<Rightarrow> ('io \<Rightarrow> byte list) \<Rightarrow> (nat \<Rightarrow> ('h, 'l) pool \<Rightarrow> bool) \<Rightarrow> bool \<Rightarrow> nat
    \<Rightarrow> (('io, 'h, 'l) SrsRtmpConn \<Rightarrow> ('io, 'h, 'l) SrsRtmpConn outcome) \<Rightarrow> bool" where
  "runs ok pending S F L m \<longleftrightarrow> (\<forall>c e c'. conn_inv ok S c \<longrightarrow> to_come pending c \<le> L \<longrightarrow> m c = (e, c') \<longrightarrow>
     conn_inv ok S c' \<and> to_come pending c' \<le> to_come pending c \<and> (\<forall>x. e = Some x \<longrightarrow> tolerated F x))"

lemma runsI:
  assumes "\<And>c e c'. conn_inv ok S c \<Longrightarrow> to_come pending c \<le> L \<Longrightarrow> m c = (e, c') \<Longrightarrow>
     conn_inv ok S c' \<and> to_come pending c' \<le> to_come pending c \<and> (\<forall>x. e = Some x \<longrightarrow> tolerated F x)"
  shows "runs ok pending S F L m"
  unfolding runs_def using assms by (intro allI impI) (rule assms)

lemma runsD:
  assumes "runs ok pending S F L m" and "conn_inv ok S c" and "to_come pending c \<le> L" and "m c = (e, c')"
  shows "conn_inv ok S c'" and "to_come pending c' \<le> to_come pending c" and "e = Some x \<Longrightarrow> tolerated F x"
  using assms unfolding runs_def by (metis assms)+

lemma tolerated_simps [simp]: "tolerated F (Srs_error c)" "tolerated F Srs_null_deref" "tolerated F Out_of_fuel = F" "\<not> tolerated F Srs_abort"
  by (simp_all add: tolerated_def)

lemma tolerated_answered: "answered (Inl e) \<Longrightarrow> tolerated F e"
  by (auto simp: answered_def tolerated_def)

lemma runs_skip: "runs ok pending S F L (\<lambda>c. (None, c))"
  by (rule runsI) auto

lemma runs_error: "tolerated F e \<Longrightarrow> runs ok pending S F L (\<lambda>c. (Some e, c))"
  by (rule runsI) auto

lemma runs_andthen:
  assumes "runs ok pending S F L m" and "runs ok pending S F L f"
  shows "runs ok pending S F L (andthen m f)"
proof (rule runsI)
  fix c e c' assume c: "conn_inv ok S c" "to_come pending c \<le> L" "andthen m f c = (e, c')"
  obtain e1 c1 where m: "m c = (e1, c1)" by fastforce
  note m1 = runsD [OF assms(1) c(1,2) m]
  show "conn_inv ok S c' \<and> to_come pending c' \<le> to_come pending c \<and> (\<forall>x. e = Some x \<longrightarrow> tolerated F x)"
  proof (cases e1)
    case None
    have le: "to_come pending c1 \<le> L" using m1(2) c(2) by simp
    have "f c1 = (e, c')" using c(3) m None by (simp add: andthen_def)
    from runsD [OF assms(2) m1(1) le this] m1(2) show ?thesis by auto
  next
    case (Some x)
    then show ?thesis using c(3) m m1 by (auto simp: andthen_def)
  qed
qed

lemma conn_inv_rtmp: "conn_inv ok S c \<Longrightarrow> proto_ok ok p \<Longrightarrow> proto_inv p \<Longrightarrow> conn_inv ok S (c\<lparr>cn_rtmp := p\<rparr>)"
  by (simp add: conn_inv_def)

text \<open>An operation of the protocol object, known by what it does to that object.\<close>

lemma runs_rtmp_cases:
  assumes m: "\<And>p. proto_ok ok p \<Longrightarrow> proto_inv p \<Longrightarrow> length (proto_stream pending p) \<le> L \<Longrightarrow>
      answered (m p) \<and> (\<forall>v p'. m p = Inr (v, p') \<longrightarrow> proto_ok ok p' \<and> proto_inv p'
        \<and> length (proto_stream pending p') + k \<le> length (proto_stream pending p) \<and> good v)"
    and f: "\<And>v. k \<le> L \<Longrightarrow> good v \<Longrightarrow> runs ok pending S F (L - k) (f v)"
  shows "runs ok pending S F L (rtmp m f)"
proof (rule runsI)
  fix c e c' assume c: "conn_inv ok S c" "to_come pending c \<le> L" "rtmp m f c = (e, c')"
  from c(1) have p: "proto_ok ok (cn_rtmp c)" "proto_inv (cn_rtmp c)" by (simp_all add: conn_inv_def)
  note m1 = m [OF p c(2)]
  show "conn_inv ok S c' \<and> to_come pending c' \<le> to_come pending c \<and> (\<forall>x. e = Some x \<longrightarrow> tolerated F x)"
  proof (cases "m (cn_rtmp c)")
    case (Inl x)
    then have "e = Some x" "c' = c" using c(3) by (auto simp: rtmp_def)
    then show ?thesis using c(1) tolerated_answered [of x] Inl m1 by auto
  next
    case (Inr r)
    obtain v p' where r: "r = (v, p')" by (cases r)
    then have p': "proto_ok ok p'" "proto_inv p'" "length (proto_stream pending p') + k \<le> to_come pending c" "good v"
      using m1 Inr by auto
    have "f v (c\<lparr>cn_rtmp := p'\<rparr>) = (e, c')" using c(3) Inr r by (simp add: rtmp_def)
    moreover have "k \<le> L" "to_come pending (c\<lparr>cn_rtmp := p'\<rparr>) \<le> L - k" using p'(3) c(2) by auto
    ultimately show ?thesis using runsD [OF f [OF _ p'(4)] conn_inv_rtmp [OF c(1) p'(1,2)]] p'(3) by fastforce
  qed
qed

lemma runs_rtmp:
  assumes "io_output io ok pending sent" and "io_output.conducts ok pending L 0 m" and "\<And>v. runs ok pending S F L (f v)"
  shows "runs ok pending S F L (rtmp m f)"
proof (rule runs_rtmp_cases [where k = 0 and good = "\<lambda>_. True"])
  fix p assume "proto_ok ok p" "proto_inv p" "length (proto_stream pending p) \<le> L"
  from io_output.conducts_def [OF assms(1), THEN iffD1, rule_format, OF assms(2) this]
  show "answered (m p) \<and> (\<forall>v p'. m p = Inr (v, p') \<longrightarrow> proto_ok ok p' \<and> proto_inv p'
      \<and> length (proto_stream pending p') + 0 \<le> length (proto_stream pending p) \<and> True)" by simp
qed (use assms(3) in simp)

lemma runs_send:
  assumes "io_output io ok pending sent" and "io_output.conducts ok pending L 0 m"
  shows "runs ok pending S F L (send m)"
  unfolding send_def by (intro runs_rtmp [OF assms] runs_skip)

lemma runs_recv:
  assumes "io_output io ok pending sent" and "L < fuel" and "\<And>msg. 0 < cm_size msg \<Longrightarrow> 0 < L \<Longrightarrow> runs ok pending S F (L - 1) (f msg)"
  shows "runs ok pending S F L (rtmp (recv_message fuel io) f)"
proof (rule runs_rtmp_cases [where k = 1 and good = "\<lambda>msg. 0 < cm_size msg"])
  fix p assume p: "proto_ok ok p" "proto_inv p" "length (proto_stream pending p) \<le> L"
  then have "length (proto_stream pending p) < fuel" using assms(2) by simp
  from io_output.recv_message_any [OF assms(1) p(1,2) this]
  show "answered (recv_message fuel io p) \<and> (\<forall>v p'. recv_message fuel io p = Inr (v, p') \<longrightarrow> proto_ok ok p' \<and> proto_inv p'
      \<and> length (proto_stream pending p') + 1 \<le> length (proto_stream pending p) \<and> 0 < cm_size v)"
    by (auto simp: Suc_le_eq)
qed (use assms(3) in auto)

lemma runs_decode:
  assumes "0 < cm_size msg" and "\<And>pkt. runs ok pending S F L (f pkt)"
  shows "runs ok pending S F L (rtmp (decode_message msg) f)"
proof (rule runs_rtmp_cases [where k = 0 and good = "\<lambda>_. True"])
  fix p assume p: "proto_ok ok p" "proto_inv p" "length (proto_stream pending p) \<le> L"
  show "answered (decode_message msg p) \<and> (\<forall>v p'. decode_message msg p = Inr (v, p') \<longrightarrow> proto_ok ok p' \<and> proto_inv p'
      \<and> length (proto_stream pending p') + 0 \<le> length (proto_stream pending p) \<and> True)"
    using decode_message_answered [OF assms(1), of p] p by auto
qed (use assms(2) in auto)

lemma runs_pull:
  assumes "conn_env_ok ok pending I J E" and "steady E S"
  shows "runs ok pending S F L (pull E)"
proof (rule runsI)
  fix c e c' assume "conn_inv ok S c" "pull E c = (e, c')"
  then show "conn_inv ok S c' \<and> to_come pending c' \<le> to_come pending c \<and> (\<forall>x. e = Some x \<longrightarrow> tolerated F x)"
    using conn_env_okD(1) [OF assms(1)] assms(2) by (auto simp: pull_def conn_inv_def steady_def) (metis tolerated_simps(1))
qed

lemma conn_inv_others: "steady E S \<Longrightarrow> conn_inv ok S c \<Longrightarrow> conn_inv ok S (others E c)"
  by (simp add: others_def conn_inv_def steady_def)

lemma map_of_pool_update: "map_of (pool_update url s pool) k = (if k = url then map_option (\<lambda>_. s) (map_of pool k) else map_of pool k)"
  by (induction pool) (auto simp: pool_update_def)

lemma runs_with_source:
  assumes "steady E S"
    and "\<And>t pool. S t pool \<Longrightarrow> \<exists>s. map_of pool url = Some s \<and> (\<forall>e s'. f s = (e, s') \<longrightarrow>
      S t (pool_update url s' pool) \<and> (\<forall>x. e = Some x \<longrightarrow> tolerated F x))"
  shows "runs ok pending S F L (with_source E url f)"
proof (rule runsI)
  fix c e c' assume c: "conn_inv ok S c" "with_source E url f c = (e, c')"
  let ?c1 = "others E c"
  have inv: "conn_inv ok S ?c1" using conn_inv_others [OF assms(1) c(1)] .
  then obtain s where s: "map_of (cn_sources ?c1) url = Some s"
      "\<And>e s'. f s = (e, s') \<Longrightarrow> S (cn_now ?c1) (pool_update url s' (cn_sources ?c1)) \<and> (\<forall>x. e = Some x \<longrightarrow> tolerated F x)"
    using assms(2) [of "cn_now ?c1" "cn_sources ?c1"] unfolding conn_inv_def by blast
  obtain e' s' where "f s = (e', s')" by fastforce
  with c(2) s(1) have f: "f s = (e, s')" "c' = ?c1\<lparr>cn_sources := pool_update url s' (cn_sources ?c1)\<rparr>"
    by (simp_all add: with_source_def Let_def)
  have "to_come pending ?c1 = to_come pending c" by (simp add: others_def)
  then show "conn_inv ok S c' \<and> to_come pending c' \<le> to_come pending c \<and> (\<forall>x. e = Some x \<longrightarrow> tolerated F x)"
    using s(2) [OF f(1)] f(2) inv by (auto simp: conn_inv_def)
qed

section \<open>A publisher\<close>

text \<open>What the frames of a publisher leave as it is.\<close>

definition same_face :: "('h \<Rightarrow> bool) \<Rightarrow> ('l \<Rightarrow> bool) \<Rightarrow> ('h, 'l) SrsLiveSource \<Rightarrow> ('h, 'l) SrsLiveSource \<Rightarrow> bool" where
  "same_face I J s s' \<longleftrightarrow> src_can_publish s' = src_can_publish s \<and> src_req s' = src_req s
     \<and> map fst (src_consumers s') = map fst (src_consumers s) \<and> hub_ok I J (src_hub s')"

lemma map_fst_snd: "map fst (map (\<lambda>(a, c). (a, f a c)) xs) = map fst xs"
  by (induction xs) auto

lemma imp_consumers:
  "on_audio_imp H L m s = (e, s') \<Longrightarrow> map fst (src_consumers s') = map fst (src_consumers s)"
  "on_video_imp H L m s = (e, s') \<Longrightarrow> map fst (src_consumers s') = map fst (src_consumers s)"
  by (auto simp: on_audio_imp_def on_video_imp_def fan_out_def Let_def map_fst_snd split: prod.splits if_splits)

lemma frames_same_face:
  assumes "handler_safe N I H" and "handler_safe N' J L" and "hub_ok I J (src_hub s)"
  shows "source_on_audio H L msg s = (e, s') \<Longrightarrow> same_face I J s s' \<and> returns (e, s')"
    and "source_on_video H L msg s = (e, s') \<Longrightarrow> same_face I J s s' \<and> returns (e, s')"
proof -
  have a: "map fst (src_consumers s') = map fst (src_consumers s)" if "source_on_audio H L msg s = (e, s')"
    using that create_msg_cases [of msg] imp_consumers(1) by (auto simp: source_on_audio_def)
  have v: "map fst (src_consumers s') = map fst (src_consumers s)" if "source_on_video H L msg s = (e, s')"
    using that create_msg_cases [of msg] imp_consumers(2) by (auto simp: source_on_video_def)
  show "source_on_audio H L msg s = (e, s') \<Longrightarrow> same_face I J s s' \<and> returns (e, s')"
    "source_on_video H L msg s = (e, s') \<Longrightarrow> same_face I J s s' \<and> returns (e, s')"
    unfolding same_face_def using a v messages_can_publish(1,2) source_frames_safe [OF assms] by simp_all
qed

lemma meta_data_same_face:
  assumes "hub_ok I J (src_hub s)" and "\<And>n. length (fresh n) = n" and "source_on_meta_data fresh h name md s = (e, s')"
  shows "same_face I J s s' \<and> returns (e, s')"
proof -
  have "map fst (src_consumers s') = map fst (src_consumers s)"
    using assms(3) by (auto simp: source_on_meta_data_def fan_out_def Let_def map_fst_snd split: sum.splits if_splits option.splits)
  then show ?thesis using messages_can_publish(3) [OF assms(3)] source_meta_data_hub [OF assms(3)] assms(1)
      source_meta_data_returns [OF assms(2), of h name md s] assms(3)
    unfolding same_face_def by simp
qed

text \<open>\<open>S\<close> says that the source \<open>url\<close> is there and is kept by the frames of a publisher.\<close>

definition hosts :: "('h \<Rightarrow> bool) \<Rightarrow> ('l \<Rightarrow> bool) \<Rightarrow> ('io, 'h, 'l) conn_env \<Rightarrow> (nat \<Rightarrow> ('h, 'l) pool \<Rightarrow> bool) \<Rightarrow> string \<Rightarrow> bool" where
  "hosts I J E S url \<longleftrightarrow> steady E S \<and> (\<forall>t pool. S t pool \<longrightarrow> (\<exists>s. map_of pool url = Some s \<and> hub_ok I J (src_hub s) \<and>
     (\<forall>s'. same_face I J s s' \<longrightarrow> S t (pool_update url s' pool))))"

lemma runs_frames:
  assumes "conn_env_ok ok pending I J E" and "hosts I J E S url"
  shows "runs ok pending S F L (with_source E url (source_on_audio (ev_hls E) (ev_llhls E) msg))"
    and "runs ok pending S F L (with_source E url (source_on_video (ev_hls E) (ev_llhls E) msg))"
    and "runs ok pending S F L (with_source E url (source_on_meta_data (ev_fresh E) h name md))"
proof -
  have k: "runs ok pending S F L (with_source E url f)"
    if f: "\<And>s e s'. hub_ok I J (src_hub s) \<Longrightarrow> f s = (e, s') \<Longrightarrow> same_face I J s s' \<and> returns (e, s')" for f
  proof (rule runs_with_source)
    show "steady E S" using assms(2) by (simp add: hosts_def)
    fix t pool assume "S t pool"
    then obtain s where s: "map_of pool url = Some s" "\<And>s'. same_face I J s s' \<Longrightarrow> S t (pool_update url s' pool)" "hub_ok I J (src_hub s)"
      using assms(2) unfolding hosts_def by blast
    have "S t (pool_update url s' pool) \<and> (\<forall>x. e = Some x \<longrightarrow> tolerated F x)" if "f s = (e, s')" for e s'
      using f [OF s(3) that] s(2) by auto
    with s(1) show "\<exists>s. map_of pool url = Some s \<and> (\<forall>e s'. f s = (e, s') \<longrightarrow>
      S t (pool_update url s' pool) \<and> (\<forall>x. e = Some x \<longrightarrow> tolerated F x))" by blast
  qed
  obtain N N' where h: "handler_safe N I (ev_hls E)" "handler_safe N' J (ev_llhls E)" by (rule conn_env_handlers [OF assms(1)])
  show "runs ok pending S F L (with_source E url (source_on_audio (ev_hls E) (ev_llhls E) msg))"
    by (rule k [OF frames_same_face(1) [OF h]])
  show "runs ok pending S F L (with_source E url (source_on_video (ev_hls E) (ev_llhls E) msg))"
    by (rule k [OF frames_same_face(2) [OF h]])
  show "runs ok pending S F L (with_source E url (source_on_meta_data (ev_fresh E) h name md))"
    by (rule k [OF meta_data_same_face [OF _ conn_env_okD(2) [OF assms(1)]]])
qed

lemma runs_publish_message:
  assumes "io_output (ev_io E) ok pending sent" and "conn_env_ok ok pending I J E" and "hosts I J E S url" and "0 < cm_size msg"
  shows "runs ok pending S F L (handle_publish_message E url msg)"
proof -
  have u: "io_output.conducts ok pending L 0 (fmle_unpublish (ev_io E) sid tid)" for sid tid
    unfolding fmle_unpublish_def
    by (intro io_output.conducts_then [OF assms(1)] io_output.conducts_send [OF assms(1)]) simp_all
  have "runs ok pending S F L (\<lambda>c. case pkt of
             Some (SrsFMLEStartPacket _ tid _) \<Rightarrow>
               andthen (send (fmle_unpublish (ev_io E) (cn_stream_id c) tid))
                   (\<lambda>c. (Some (Srs_error ERROR_CONTROL_REPUBLISH), c)) c
             | _ \<Rightarrow> (None, c))" for pkt
  proof (rule runsI)
    fix c e c' assume c: "conn_inv ok S c" "to_come pending c \<le> L" "(case pkt of
             Some (SrsFMLEStartPacket _ tid _) \<Rightarrow>
               andthen (send (fmle_unpublish (ev_io E) (cn_stream_id c) tid))
                   (\<lambda>c. (Some (Srs_error ERROR_CONTROL_REPUBLISH), c)) c
             | _ \<Rightarrow> (None, c)) = (e, c')"
    have r: "runs ok pending S F L (andthen (send (fmle_unpublish (ev_io E) (cn_stream_id c) tid))
                   (\<lambda>c. (Some (Srs_error ERROR_CONTROL_REPUBLISH), c)))" for tid
      by (intro runs_andthen runs_send [OF assms(1) u] runs_error tolerated_simps)
    show "conn_inv ok S c' \<and> to_come pending c' \<le> to_come pending c \<and> (\<forall>x. e = Some x \<longrightarrow> tolerated F x)"
      using c(3) c(1) runsD [OF r c(1,2)] by (auto split: option.splits SrsPacket.splits)
  qed
  moreover have "runs ok pending S F L (case pkt of
               Some (SrsOnMetaDataPacket name md) \<Rightarrow> with_source E url (source_on_meta_data (ev_fresh E) h name md)
             | _ \<Rightarrow> (\<lambda>c. (None, c)))" for pkt h
    by (auto split: option.split SrsPacket.split intro!: runs_skip runs_frames(3) [OF assms(2,3)])
  ultimately show ?thesis
    unfolding handle_publish_message_def process_publish_message_def Let_def
    by (auto intro!: runs_decode [OF assms(4)] runs_frames [OF assms(2,3)] runs_skip)
qed

lemma runs_publish_loop:
  assumes "io_output (ev_io E) ok pending sent" and "conn_env_ok ok pending I J E" and "hosts I J E S url"
  shows "L < fuel \<Longrightarrow> runs ok pending S F L (publish_loop fuel E url)"
proof (induction fuel arbitrary: L)
  case (Suc fuel)
  have st: "steady E S" using assms(3) by (simp add: hosts_def)
  have "runs ok pending S F (L - 1) (andthen (handle_publish_message E url msg) (publish_loop fuel E url))"
    if "0 < cm_size msg" "0 < L" for msg
    by (rule runs_andthen [OF runs_publish_message [OF assms that(1)] Suc.IH]) (use that(2) Suc.prems in simp)
  then show ?case unfolding publish_loop.simps
    by (rule runs_andthen [OF runs_pull [OF assms(2) st] runs_recv [OF assms(1) Suc.prems]])
qed simp

lemma publish_loop_fails: "\<exists>e c'. publish_loop fuel E url c = (Some e, c')"
proof (induction fuel arbitrary: c)
  case (Suc fuel)
  have r: "\<exists>e c'. andthen (handle_publish_message E url msg) (publish_loop fuel E url) c1 = (Some e, c')" for msg c1
    using Suc.IH by (auto simp: andthen_def split: prod.split option.split)
  show ?case using r by (auto simp: andthen_def rtmp_def split: prod.split option.split sum.split)
qed simp

lemma runs_do_publishing:
  assumes "io_output (ev_io E) ok pending sent" and "conn_env_ok ok pending I J E" and "hosts I J E S url" and "L < fuel"
  shows "runs ok pending S F L (do_publishing fuel E url)"
proof (rule runsI)
  have u: "io_output.conducts ok pending L 0 (start_publishing (ev_io E) sid)" for sid
    unfolding start_publishing_def by (intro io_output.conducts_send [OF assms(1)]) simp_all
  fix c e c' assume c: "conn_inv ok S c" "to_come pending c \<le> L" "do_publishing fuel E url c = (e, c')"
  have r: "runs ok pending S F L (andthen (send (start_publishing (ev_io E) (cn_stream_id c))) (publish_loop fuel E url))"
    by (intro runs_andthen runs_send [OF assms(1) u] runs_publish_loop [OF assms])
  show "conn_inv ok S c' \<and> to_come pending c' \<le> to_come pending c \<and> (\<forall>x. e = Some x \<longrightarrow> tolerated F x)"
    using runsD [OF r c(1,2)] c(3) by (auto simp: do_publishing_def)
qed

lemma do_publishing_fails: "\<exists>e c'. do_publishing fuel E url c = (Some e, c')"
  using publish_loop_fails by (auto simp: do_publishing_def andthen_def split: prod.split option.split)

text \<open>Every source of the pool is initialised, with its writers in order, and other threads keep that.\<close>

definition pool_good :: "('h \<Rightarrow> bool) \<Rightarrow> ('l \<Rightarrow> bool) \<Rightarrow> ('h, 'l) pool \<Rightarrow> bool" where
  "pool_good I J pool \<longleftrightarrow> (\<forall>url s. map_of pool url = Some s \<longrightarrow> src_good I J s)"

definition others_keep :: "('h \<Rightarrow> bool) \<Rightarrow> ('l \<Rightarrow> bool) \<Rightarrow> ('io, 'h, 'l) conn_env \<Rightarrow> bool" where
  "others_keep I J E \<longleftrightarrow> (\<forall>t pool. pool_good I J pool \<longrightarrow> pool_good I J (ev_others E t pool))"

lemma others_keepD: "others_keep I J E \<Longrightarrow> pool_good I J (cn_sources c) \<Longrightarrow> pool_good I J (cn_sources (others E c))"
  by (simp add: others_keep_def others_def)

lemma pool_good_update: "pool_good I J pool \<Longrightarrow> src_good I J s \<Longrightarrow> pool_good I J (pool_update url s pool)"
  by (auto simp: pool_good_def map_of_pool_update split: if_splits)

text \<open>A source that this connection publishes, from the time \<open>t0\<close> on.\<close>

definition publishes :: "('h \<Rightarrow> bool) \<Rightarrow> ('l \<Rightarrow> bool) \<Rightarrow> nat \<Rightarrow> string \<Rightarrow> nat \<Rightarrow> ('h, 'l) pool \<Rightarrow> bool" where
  "publishes I J t0 url t pool \<longleftrightarrow> t0 \<le> t \<and> (\<exists>s. map_of pool url = Some s \<and> \<not> src_can_publish s \<and> hub_ok I J (src_hub s))"

text \<open>What the exclusion of publishers (\<open>one_publisher\<close>) gives: others do not end what this connection publishes.\<close>

definition others_leave :: "('h \<Rightarrow> bool) \<Rightarrow> ('l \<Rightarrow> bool) \<Rightarrow> ('io, 'h, 'l) conn_env \<Rightarrow> nat \<Rightarrow> string \<Rightarrow> bool" where
  "others_leave I J E t0 url \<longleftrightarrow> (\<forall>t pool. publishes I J t0 url t pool \<longrightarrow> publishes I J t0 url t (ev_others E t pool))"

lemma hosts_publishes:
  assumes "others_leave I J E t0 url"
  shows "hosts I J E (publishes I J t0 url) url"
proof -
  have "publishes I J t0 url (Suc t) pool \<and> publishes I J t0 url (Suc t) (ev_others E t pool)" if "publishes I J t0 url t pool" for t pool
    using that assms [unfolded others_leave_def, rule_format, OF that] by (simp add: publishes_def)
  moreover have "\<exists>s. map_of pool url = Some s \<and> hub_ok I J (src_hub s) \<and> (\<forall>s'. same_face I J s s' \<longrightarrow> publishes I J t0 url t (pool_update url s' pool))"
    if p: "publishes I J t0 url t pool" for t pool
  proof -
    obtain s where s: "map_of pool url = Some s" "\<not> src_can_publish s" "hub_ok I J (src_hub s)" using p by (auto simp: publishes_def)
    then have "publishes I J t0 url t (pool_update url s' pool)" if "same_face I J s s'" for s'
      using that p by (simp add: publishes_def same_face_def map_of_pool_update)
    with s(1,3) show ?thesis by blast
  qed
  ultimately show ?thesis unfolding hosts_def steady_def by blast
qed

lemma with_source_found:
  assumes "map_of (cn_sources (others E c)) url = Some s" and "f s = (e, s')"
  shows "with_source E url f c = (e, (others E c)\<lparr>cn_sources := pool_update url s' (cn_sources (others E c))\<rparr>)"
  using assms by (simp add: with_source_def Let_def)

lemma with_source_rtmp: "with_source E url f c = (e, c') \<Longrightarrow> cn_rtmp c' = cn_rtmp c \<and> cn_now c' = Suc (cn_now c)"
  by (auto simp: with_source_def others_def Let_def split: option.splits prod.splits)

lemma pool_update_absent: "url \<notin> fst ` set pool \<Longrightarrow> pool_update url s pool = pool"
  by (induction pool) (auto simp: pool_update_def)

lemma pool_update_same: "map_of pool url = Some s \<Longrightarrow> distinct (map fst pool) \<Longrightarrow> pool_update url s pool = pool"
proof (induction pool)
  case (Cons x pool)
  then show ?case using pool_update_absent [of url pool s] by (cases x) (auto simp: pool_update_def split: if_splits)
qed (simp add: pool_update_def)

text \<open>The outcome of the acquisition.\<close>

lemma acquired:
  assumes "acquire_publish E url c = (None, c1)" and "conn_env_ok ok pending I J E" and "others_keep I J E" and "pool_good I J (cn_sources c)"
  shows "publishes I J (cn_now c + 2) url (cn_now c1) (cn_sources c1)" and "cn_rtmp c1 = cn_rtmp c"
proof -
  let ?f = "\<lambda>s. (if \<not> src_can_publish s then Some (Srs_error ERROR_SYSTEM_STREAM_BUSY) else None, s)"
  obtain c0 where c0: "with_source E url ?f c = (None, c0)"
      "with_source E url (source_on_publish (ev_hls E) (ev_llhls E) (ev_cid E)) c0 = (None, c1)"
    using assms(1) by (auto simp: acquire_publish_def andthen_def split: prod.splits option.splits)
  from c0(2) obtain s s' where s: "map_of (cn_sources (others E c0)) url = Some s"
      "source_on_publish (ev_hls E) (ev_llhls E) (ev_cid E) s = (None, s')"
      "c1 = (others E c0)\<lparr>cn_sources := pool_update url s' (cn_sources (others E c0))\<rparr>"
    by (auto simp: with_source_def Let_def split: option.splits prod.splits)
  obtain s0 where s0: "map_of (cn_sources (others E c)) url = Some s0" "c0 = (others E c)\<lparr>cn_sources := pool_update url s0 (cn_sources (others E c))\<rparr>"
    using c0(1) by (auto simp: with_source_def Let_def split: option.splits prod.splits)
  have g1: "pool_good I J (cn_sources (others E c))" by (rule others_keepD [OF assms(3,4)])
  then have "src_good I J s0" using s0(1) by (simp add: pool_good_def)
  with g1 have "pool_good I J (cn_sources c0)" using s0(2) by (simp add: pool_good_update)
  then have "src_good I J s" using others_keepD [OF assms(3), of c0] s(1) by (simp add: pool_good_def)
  moreover obtain N N' where "handler_safe N I (ev_hls E)" "handler_safe N' J (ev_llhls E)" by (rule conn_env_handlers [OF assms(2)])
  ultimately have "src_good I J s'" using source_on_publish_safe s(2) by blast
  then have "hub_ok I J (src_hub s')" "\<not> src_can_publish s'" using publish_outcome(1) [OF s(2)] by (simp_all add: src_good_def)
  then show "publishes I J (cn_now c + 2) url (cn_now c1) (cn_sources c1)"
    using s(1,3) with_source_rtmp [OF c0(1)] with_source_rtmp [OF c0(2)] by (simp add: publishes_def map_of_pool_update)
  show "cn_rtmp c1 = cn_rtmp c" using with_source_rtmp [OF c0(1)] with_source_rtmp [OF c0(2)] by simp
qed

lemma released:
  assumes "publishes I J t0 url t (cn_sources (others E c))"
  shows "\<exists>s. map_of (cn_sources (release_publish E url c)) url = Some s \<and> src_can_publish s \<and> src_id s = []
    \<and> \<not> hub_is_active (src_hub s) \<and> gop_cache (src_gop s) = []"
proof -
  obtain s where s: "map_of (cn_sources (others E c)) url = Some s" "\<not> src_can_publish s"
    using assms by (auto simp: publishes_def)
  have "with_source E url (\<lambda>s. (None, source_on_unpublish (ev_hls E) (ev_llhls E) s)) c = (None, (others E c)
      \<lparr>cn_sources := pool_update url (source_on_unpublish (ev_hls E) (ev_llhls E) s) (cn_sources (others E c))\<rparr>)"
    by (rule with_source_found [OF s(1) refl])
  then have "map_of (cn_sources (release_publish E url c)) url = Some (source_on_unpublish (ev_hls E) (ev_llhls E) s)"
    using s(1) by (simp add: release_publish_def map_of_pool_update)
  then show ?thesis using s(2)
    by (simp add: source_on_unpublish_def hub_on_unpublish_def gop_clear_def)
qed

text \<open>A publisher that is refused changes nothing; one that was accepted is served until an error, however long it sends,
  and leaves a free source.\<close>


section \<open>A whole connection\<close>

text \<open>The source of this connection, and its consumer, are there.\<close>

definition holds_source :: "('h \<Rightarrow> bool) \<Rightarrow> ('l \<Rightarrow> bool) \<Rightarrow> string \<Rightarrow> nat \<Rightarrow> ('h, 'l) pool \<Rightarrow> bool" where
  "holds_source I J url t pool \<longleftrightarrow> pool_good I J pool \<and> (\<exists>s. map_of pool url = Some s)"

definition holds_consumer :: "('h \<Rightarrow> bool) \<Rightarrow> ('l \<Rightarrow> bool) \<Rightarrow> string \<Rightarrow> nat \<Rightarrow> nat \<Rightarrow> ('h, 'l) pool \<Rightarrow> bool" where
  "holds_consumer I J url a t pool \<longleftrightarrow> pool_good I J pool \<and> (\<exists>s. map_of pool url = Some s \<and> a \<in> fst ` set (src_consumers s))"

text \<open>Other threads never remove a source, nor the consumers of this connection, and initialise the sources they create.\<close>

definition others_spare :: "('h \<Rightarrow> bool) \<Rightarrow> ('l \<Rightarrow> bool) \<Rightarrow> ('io, 'h, 'l) conn_env \<Rightarrow> bool" where
  "others_spare I J E \<longleftrightarrow> others_keep I J E \<and> (\<forall>t pool. (\<forall>url s. map_of pool url = Some s \<longrightarrow> (\<exists>s'. map_of (ev_others E t pool) url = Some s'
          \<and> (\<forall>t'. ev_consumer E t' \<in> fst ` set (src_consumers s) \<longrightarrow> ev_consumer E t' \<in> fst ` set (src_consumers s')))))"

lemma others_spareD:
  assumes "others_spare I J E"
  shows "pool_good I J pool \<Longrightarrow> pool_good I J (ev_others E t pool)"
    and "map_of pool url = Some s \<Longrightarrow> \<exists>s'. map_of (ev_others E t pool) url = Some s'
          \<and> (ev_consumer E t' \<in> fst ` set (src_consumers s) \<longrightarrow> ev_consumer E t' \<in> fst ` set (src_consumers s'))"
  using assms unfolding others_spare_def others_keep_def by blast+

lemma steady_holds:
  assumes "others_spare I J E"
  shows "steady E (\<lambda>_. pool_good I J)" and "steady E (holds_source I J url)" and "steady E (holds_consumer I J url (ev_consumer E t'))"
proof -
  note o = others_spareD [OF assms]
  show "steady E (\<lambda>_. pool_good I J)" using o(1) by (simp add: steady_def)
  show "steady E (holds_source I J url)" using o unfolding steady_def holds_source_def by blast
  show "steady E (holds_consumer I J url (ev_consumer E t'))" using o unfolding steady_def holds_consumer_def by blast
qed

lemma hosts_source: "others_spare I J E \<Longrightarrow> hosts I J E (holds_source I J url) url"
proof -
  assume o: "others_spare I J E"
  have "\<exists>s. map_of pool url = Some s \<and> hub_ok I J (src_hub s) \<and> (\<forall>s'. same_face I J s s' \<longrightarrow> holds_source I J url t (pool_update url s' pool))"
    if h: "holds_source I J url t pool" for t pool
  proof -
    obtain s where s: "map_of pool url = Some s" "pool_good I J pool" "src_good I J s"
      using h unfolding holds_source_def pool_good_def by blast
    then have "holds_source I J url t (pool_update url s' pool)" if "same_face I J s s'" for s'
      using that pool_good_update [OF s(2), of s'] by (simp add: holds_source_def same_face_def src_good_def map_of_pool_update)
    with s(1,3) show ?thesis unfolding src_good_def by blast
  qed
  then show ?thesis using steady_holds(2) [OF o] unfolding hosts_def by blast
qed

text \<open>An operation of the source that gives an error code at most and keeps the request.\<close>

lemma runs_source_op:
  assumes "others_spare I J E" and "\<And>s e s'. src_good I J s \<Longrightarrow> f s = (e, s') \<Longrightarrow> src_good I J s' \<and> returns (e, s')"
  shows "runs ok pending (holds_source I J url) F L (with_source E url f)"
proof (rule runs_with_source [OF steady_holds(2) [OF assms(1)]])
  fix t pool assume h: "holds_source I J url t pool"
  then obtain s where s: "map_of pool url = Some s" "pool_good I J pool" "src_good I J s"
    unfolding holds_source_def pool_good_def by blast
  have "holds_source I J url t (pool_update url s' pool) \<and> (\<forall>x. e = Some x \<longrightarrow> tolerated F x)" if "f s = (e, s')" for e s'
    using assms(2) [OF s(3) that] pool_good_update [OF s(2), of s'] s by (auto simp: holds_source_def map_of_pool_update)
  with s(1) show "\<exists>s. map_of pool url = Some s \<and> (\<forall>e s'. f s = (e, s') \<longrightarrow>
      holds_source I J url t (pool_update url s' pool) \<and> (\<forall>x. e = Some x \<longrightarrow> tolerated F x))" by blast
qed

lemma runs_publishing:
  assumes "io_output (ev_io E) ok pending sent" and "conn_env_ok ok pending I J E" and "others_spare I J E" and "L < fuel"
  shows "runs ok pending (holds_source I J url) F L (publishing fuel E url)"
proof (rule runsI)
  fix c e c' assume c: "conn_inv ok (holds_source I J url) c" "to_come pending c \<le> L" "publishing fuel E url c = (e, c')"
  obtain N N' where h: "handler_safe N I (ev_hls E)" "handler_safe N' J (ev_llhls E)" by (rule conn_env_handlers [OF assms(2)])
  have a: "runs ok pending (holds_source I J url) F L (acquire_publish E url)" unfolding acquire_publish_def
  proof (intro runs_andthen runs_source_op [OF assms(3)])
    fix s e s'
    assume "src_good I J s" "source_on_publish (ev_hls E) (ev_llhls E) (ev_cid E) s = (e, s')"
    with source_on_publish_safe [OF h] show "src_good I J s' \<and> returns (e, s')" by blast
  qed (auto split: if_splits)
  have r: "runs ok pending (holds_source I J url) F L (with_source E url (\<lambda>s. (None, source_on_unpublish (ev_hls E) (ev_llhls E) s)))"
    by (rule runs_source_op [OF assms(3)]) (auto simp: source_on_unpublish_safe [OF h])
  obtain e1 c1 where c1: "acquire_publish E url c = (e1, c1)" by fastforce
  note k1 = runsD [OF a c(1,2) c1]
  show "conn_inv ok (holds_source I J url) c' \<and> to_come pending c' \<le> to_come pending c \<and> (\<forall>x. e = Some x \<longrightarrow> tolerated F x)"
  proof (cases e1)
    case None
    obtain e2 c2 where c2: "do_publishing fuel E url c1 = (e2, c2)" by fastforce
    obtain e3 c3 where c3: "with_source E url (\<lambda>s. (None, source_on_unpublish (ev_hls E) (ev_llhls E) s)) c2 = (e3, c3)" by fastforce
    have le1: "to_come pending c1 \<le> L" using k1(2) c(2) by simp
    note k2 = runsD [OF runs_do_publishing [OF assms(1,2) hosts_source [OF assms(3)] assms(4), where F = F] k1(1) le1 c2]
    have le2: "to_come pending c2 \<le> L" using k2(2) le1 by simp
    note k3 = runsD [OF r k2(1) le2 c3]
    have "e = e2" "c' = c3" using c(3) c1 None c2 c3 by (simp_all add: publishing_def release_publish_def)
    then show ?thesis using k1(2) k2(2,3) k3(1,2) by auto
  next
    case (Some x)
    then have "e = e1" "c' = c1" using c(3) c1 by (simp_all add: publishing_def)
    then show ?thesis using k1 by auto
  qed
qed

lemma runs_play_control:
  assumes "0 < cm_size msg"
  shows "runs ok pending S F L (process_play_control_msg msg)"
  unfolding process_play_control_msg_def using runs_decode [OF assms runs_skip] runs_skip by auto

lemma runs_poll_loop:
  assumes "io_output (ev_io E) ok pending sent" and "steady E S"
  shows "L < fuel \<Longrightarrow> runs ok pending S F L (poll_loop fuel E)"
proof (induction fuel arbitrary: L)
  case (Suc fuel)
  show ?case
  proof (rule runsI)
    fix c e c' assume c: "conn_inv ok S c" "to_come pending c \<le> L" "poll_loop (Suc fuel) E c = (e, c')"
    let ?c1 = "c\<lparr>cn_now := Suc (cn_now c)\<rparr>"
    have c1: "conn_inv ok S ?c1" using c(1) assms(2) by (simp add: conn_inv_def steady_def)
    have "runs ok pending S F (L - 1) (andthen (process_play_control_msg msg) (poll_loop fuel E))"
      if "0 < cm_size msg" "0 < L" for msg
      by (rule runs_andthen [OF runs_play_control [OF that(1)] Suc.IH]) (use that(2) Suc.prems in simp)
    then have r: "runs ok pending S F L (rtmp (recv_message (Suc fuel) (ev_io E)) (\<lambda>msg. andthen (process_play_control_msg msg) (poll_loop fuel E)))"
      by (intro runs_recv [OF assms(1) Suc.prems])
    have le: "to_come pending ?c1 \<le> L" using c(2) by simp
    show "conn_inv ok S c' \<and> to_come pending c' \<le> to_come pending c \<and> (\<forall>x. e = Some x \<longrightarrow> tolerated F x)"
    proof (cases "ev_poll E (cn_now c)")
      case True
      then have "rtmp (recv_message (Suc fuel) (ev_io E)) (\<lambda>msg. andthen (process_play_control_msg msg) (poll_loop fuel E)) ?c1 = (e, c')"
        using c(3) by (simp add: Let_def)
      from runsD [OF r c1 le this] show ?thesis by auto
    next
      case False
      then show ?thesis using c(3) c1 by (auto simp: Let_def)
    qed
  qed
qed simp

lemma holds_consumer_update:
  assumes "holds_consumer I J url a t pool" and "map_of pool url = Some s" and "src_good I J s \<Longrightarrow> src_good I J s'"
    and "a \<in> fst ` set (src_consumers s) \<Longrightarrow> a \<in> fst ` set (src_consumers s')"
  shows "holds_consumer I J url a t (pool_update url s' pool)"
proof -
  have h: "pool_good I J pool" "a \<in> fst ` set (src_consumers s)" "src_good I J s"
    using assms(1,2) unfolding holds_consumer_def pool_good_def by auto
  show ?thesis using h assms(2-4) pool_good_update [OF h(1), of s'] by (simp add: holds_consumer_def map_of_pool_update)
qed

lemma runs_with_consumer:
  assumes "steady E (holds_consumer I J url a)" and "\<And>k x. f k = Inl x \<Longrightarrow> tolerated F x"
    and "\<And>v. runs ok pending (holds_consumer I J url a) F L (g v)"
  shows "runs ok pending (holds_consumer I J url a) F L (with_consumer E url a f g)"
proof (rule runsI)
  fix c e c' assume c: "conn_inv ok (holds_consumer I J url a) c" "to_come pending c \<le> L" "with_consumer E url a f g c = (e, c')"
  let ?c1 = "others E c"
  have c1: "conn_inv ok (holds_consumer I J url a) ?c1" "to_come pending ?c1 = to_come pending c"
    using conn_inv_others [OF assms(1) c(1)] by (simp_all add: others_def)
  obtain s where s: "map_of (cn_sources ?c1) url = Some s" "a \<in> fst ` set (src_consumers s)"
    using c1(1) by (auto simp: conn_inv_def holds_consumer_def)
  then obtain k where k: "map_of (src_consumers s) a = Some k" by (metis map_of_eq_None_iff not_None_eq)
  show "conn_inv ok (holds_consumer I J url a) c' \<and> to_come pending c' \<le> to_come pending c \<and> (\<forall>x. e = Some x \<longrightarrow> tolerated F x)"
  proof (cases "f k")
    case (Inl x)
    then show ?thesis using c(3) s(1) k c1 assms(2) by (auto simp: with_consumer_def Let_def)
  next
    case (Inr r)
    obtain v k' where r: "r = (v, k')" by (cases r)
    let ?s = "s\<lparr>src_consumers := map (\<lambda>(a', k0). (a', if a' = a then k' else k0)) (src_consumers s)\<rparr>"
    let ?c2 = "?c1\<lparr>cn_sources := pool_update url ?s (cn_sources ?c1)\<rparr>"
    have "fst ` set (src_consumers ?s) = fst ` set (src_consumers s)" by force
    then have c2: "conn_inv ok (holds_consumer I J url a) ?c2"
      using c1(1) holds_consumer_update [OF _ s(1), of I J a _ ?s] by (simp add: conn_inv_def src_good_def)
    have le: "to_come pending ?c2 \<le> L" using c1(2) c(2) by simp
    have "g v ?c2 = (e, c')" using c(3) s(1) k Inr r by (simp add: with_consumer_def Let_def)
    from runsD [OF assms(3) c2 le this] c1(2) show ?thesis by auto
  qed
qed

lemma runs_at:
  assumes "\<And>c0. runs ok pending S F L (m c0)"
  shows "runs ok pending S F L (\<lambda>c. m c c)"
  by (rule runsI) (use runsD [OF assms] in blast)

lemma dump_packets_returns: "0 < n \<Longrightarrow> \<exists>msgs k'. consumer_dump_packets n 0 k = Inr (msgs, k')"
  by (auto simp: consumer_dump_packets_def queue_dump_packets_def Let_def)

lemma runs_do_playing:
  assumes "io_output (ev_io E) ok pending sent" and "conn_env_ok ok pending I J E" and "steady E (holds_consumer I J url a)" and "L < fuel"
  shows "runs ok pending (holds_consumer I J url a) True L (do_playing rounds fuel E url a)"
proof (induction rounds)
  case (Suc rounds)
  let ?r = "runs ok pending (holds_consumer I J url a) True L"
  have snd: "io_output.conducts ok pending L 0 (send_and_free_messages (ev_io E) (map Some msgs) sid)" if "msgs \<noteq> []" for msgs sid
    using that by (intro conducts_messages [OF assms(1)])
  have d: "?r (\<lambda>c. if msgs = [] then do_playing rounds fuel E url a c
          else andthen (send (send_and_free_messages (ev_io E) (map Some msgs) (cn_stream_id c))) (do_playing rounds fuel E url a) c)" for msgs
  proof (cases "msgs = []")
    case False
    have "?r (\<lambda>c. andthen (send (send_and_free_messages (ev_io E) (map Some msgs) (cn_stream_id c))) (do_playing rounds fuel E url a) c)"
      by (rule runs_at) (intro runs_andthen runs_send [OF assms(1) snd [OF False]] Suc.IH)
    with False show ?thesis by simp
  qed (use Suc.IH in simp)
  have t: "tolerated True x" if "consumer_dump_packets config_mw_msgs 0 k = Inl x" for k x
    using that dump_packets_returns [of config_mw_msgs k] by simp
  have w: "?r (andthen (if asleep then with_consumer E url a (\<lambda>k. Inr ((), consumer_wait_end k)) (\<lambda>_ c. (None, c)) else (\<lambda>c. (None, c)))
        (with_consumer E url a (consumer_dump_packets config_mw_msgs 0) (\<lambda>msgs c.
          if msgs = [] then do_playing rounds fuel E url a c
          else andthen (send (send_and_free_messages (ev_io E) (map Some msgs) (cn_stream_id c))) (do_playing rounds fuel E url a) c)))" for asleep
    using runs_with_consumer [OF assms(3), of "\<lambda>k. Inr ((), consumer_wait_end k)", OF _ runs_skip]
    by (intro runs_andthen runs_with_consumer [OF assms(3) t d]) (simp add: runs_skip)
  show ?case unfolding do_playing.simps
    by (intro runs_andthen runs_pull [OF assms(2,3)] runs_poll_loop [OF assms(1,3,4)] runs_with_consumer [OF assms(3) _ w])
      (simp split: prod.splits)
qed (simp add: runs_error)

lemma runs_playing:
  assumes "io_output (ev_io E) ok pending sent" and "conn_env_ok ok pending I J E" and "others_spare I J E" and "L < fuel"
  shows "runs ok pending (holds_source I J url) True L (playing rounds fuel E url)"
proof (rule runsI)
  fix c e c' assume c: "conn_inv ok (holds_source I J url) c" "to_come pending c \<le> L" "playing rounds fuel E url c = (e, c')"
  let ?a = "ev_consumer E (cn_now c)"
  have found: "\<exists>s. map_of (cn_sources (others E k)) url = Some s" if "conn_inv ok (holds_source I J url) k" for k
    using conn_inv_others [OF steady_holds(2) [OF assms(3)] that] by (auto simp: conn_inv_def holds_source_def)
  have weaken: "conn_inv ok (holds_source I J url) k" if "conn_inv ok (holds_consumer I J url ?a) k" for k
    using that by (auto simp: conn_inv_def holds_consumer_def holds_source_def)
  obtain s where s: "map_of (cn_sources (others E c)) url = Some s" using found [OF c(1)] by blast
  let ?s1 = "create_consumer ?a s"
  define c1 where "c1 = (others E c)\<lparr>cn_sources := pool_update url ?s1 (cn_sources (others E c))\<rparr>"
  have c1: "with_source E url (\<lambda>s. (None, create_consumer ?a s)) c = (None, c1)"
    using with_source_found [OF s, of "\<lambda>s. (None, create_consumer ?a s)"] by (simp add: c1_def)
  have i0: "conn_inv ok (holds_source I J url) (others E c)" using conn_inv_others [OF steady_holds(2) [OF assms(3)] c(1)] .
  then have good: "pool_good I J (cn_sources (others E c))" "src_good I J ?s1"
    using s by (auto simp: conn_inv_def holds_source_def pool_good_def create_consumer_def src_good_def)
  have i1: "conn_inv ok (holds_consumer I J url ?a) c1"
    using i0 s pool_good_update [OF good] by (simp add: c1_def conn_inv_def holds_consumer_def map_of_pool_update create_consumer_def)
  have i2: "conn_inv ok (holds_consumer I J url ?a) (others E c1)"
    by (rule conn_inv_others [OF steady_holds(3) [OF assms(3)] i1])
  obtain s2 where s2: "map_of (cn_sources (others E c1)) url = Some s2" using found [OF weaken [OF i1]] by blast
  let ?s3 = "consumer_dumps True True True ?a s2"
  define c2 where "c2 = (others E c1)\<lparr>cn_sources := pool_update url ?s3 (cn_sources (others E c1))\<rparr>"
  have c2: "with_source E url (\<lambda>s. (None, consumer_dumps True True True ?a s)) c1 = (None, c2)"
    using with_source_found [OF s2, of "\<lambda>s. (None, consumer_dumps True True True ?a s)"] by (simp add: c2_def)
  have keep: "fst ` set (src_consumers ?s3) = fst ` set (src_consumers s2)" by (force simp: consumer_dumps_def)
  have i3: "conn_inv ok (holds_consumer I J url ?a) c2"
    using i2 holds_consumer_update [OF _ s2, of I J ?a "cn_now (others E c1)" ?s3] keep by (simp add: c2_def conn_inv_def consumer_dumps_def src_good_def)
  have le: "to_come pending c2 = to_come pending c" by (simp add: c1_def c2_def others_def)
  obtain e3 c3 where c3: "do_playing rounds fuel E url ?a c2 = (e3, c3)" by fastforce
  have le2: "to_come pending c2 \<le> L" using le c(2) by simp
  note k3 = runsD [OF runs_do_playing [OF assms(1,2) steady_holds(3) [OF assms(3)] assms(4)] i3 le2 c3]
  have d: "runs ok pending (holds_source I J url) True L (with_source E url (\<lambda>s. (None, on_consumer_destroy ?a s)))"
    by (rule runs_source_op [OF assms(3)]) (auto simp: on_consumer_destroy_def src_good_def)
  obtain e4 c4 where c4: "with_source E url (\<lambda>s. (None, on_consumer_destroy ?a s)) c3 = (e4, c4)" by fastforce
  have le3: "to_come pending c3 \<le> L" using k3(2) le2 by simp
  note k4 = runsD [OF d weaken [OF k3(1)] le3 c4]
  have "e = e3" "c' = c4" using c(3) c1 c2 c3 c4 by (simp_all add: playing_def andthen_def Let_def)
  then show "conn_inv ok (holds_source I J url) c' \<and> to_come pending c' \<le> to_come pending c \<and> (\<forall>x. e = Some x \<longrightarrow> tolerated True x)"
    using k4(1,2) k3(2,3) le by auto
qed

lemma runs_serve:
  assumes "io_output (ev_io E) ok pending sent" and "conn_env_ok ok pending I J E" and "others_spare I J E" and "L < fuel"
  shows "runs ok pending (holds_source I J url) True L (serve rounds fuel E url)"
proof -
  let ?r = "runs ok pending (holds_source I J url) True L"
  have play: "io_output.conducts ok pending L 0 (start_play (ev_io E) sid)" for sid
    unfolding start_play_def
    by (intro io_output.conducts_then [OF assms(1)] io_output.conducts_send [OF assms(1)]) simp_all
  have p: "?r (\<lambda>c. andthen (send (start_play (ev_io E) (cn_stream_id c))) (playing rounds fuel E url) c)"
    by (rule runs_at) (intro runs_andthen runs_send [OF assms(1) play] runs_playing [OF assms])
  have f: "?r (\<lambda>c. andthen (send (start_fmle_publish fuel (ev_io E) (cn_stream_id c))) (publishing fuel E url) c)"
    by (rule runs_at) (intro runs_andthen runs_send [OF assms(1) io_output.conducts_start_fmle [OF assms(1,4)]] runs_publishing [OF assms])
  show ?thesis
  proof (rule runsI)
    fix c e c' assume c: "conn_inv ok (holds_source I J url) c" "to_come pending c \<le> L" "serve rounds fuel E url c = (e, c')"
    show "conn_inv ok (holds_source I J url) c' \<and> to_come pending c' \<le> to_come pending c \<and> (\<forall>x. e = Some x \<longrightarrow> tolerated True x)"
      using runsD [OF p c(1,2)] runsD [OF f c(1,2)] runsD [OF runs_publishing [OF assms, where F = True] c(1,2)] c
      by (cases "cn_type c") (auto simp: serve_def)
  qed
qed

lemma fetch_or_create_good:
  assumes "handler_safe N I H" and "handler_safe N' J L" and "N h" and "N' l" and "pool_good I J pool"
  shows "case fetch_or_create H L h l r pool of Inl e \<Rightarrow> \<exists>c. e = Srs_error c | Inr (url, pool') \<Rightarrow> holds_source I J url t pool'"
proof (cases "map_of pool (get_stream_url r)")
  case None
  obtain e s where i: "source_initialize H L r (SrsLiveSource_new h l) = (e, s)" by fastforce
  have e: "returns (e, s)" "e = None \<longrightarrow> src_good I J s" using source_initialize_safe [OF assms(1-4) i] by simp_all
  have m: "map_of (insort_key fst (get_stream_url r, s) pool) = (map_of pool)(get_stream_url r \<mapsto> s)"
    by (rule map_of_insort) (use None in \<open>simp add: map_of_eq_None_iff\<close>)
  have "e = None \<longrightarrow> holds_source I J (get_stream_url r) t (insort_key fst (get_stream_url r, s) pool)"
    using assms(5) e(2) by (auto simp: holds_source_def pool_good_def m)
  then show ?thesis using None i e by (cases e) (auto simp: fetch_or_create_def Let_def)
next
  case (Some s)
  then show ?thesis using assms(5) by (simp add: fetch_or_create_def holds_source_def Let_def)
qed

lemma conn_inv_set_timeouts:
  assumes "conn_env_ok ok pending I J E" and "conn_inv ok S c"
  shows "conn_inv ok S (set_timeouts E r s c)" and "to_come pending (set_timeouts E r s c) = to_come pending c"
  using conn_env_okD(3,4) [OF assms(1), of "skt (cn_rtmp c)" r s] assms(2)
  by (simp_all add: conn_inv_def set_timeouts_def proto_ok_def proto_inv_def proto_stream_def)

lemma conn_inv_fields [simp]:
  "conn_inv ok S (c\<lparr>cn_type := ty\<rparr>) = conn_inv ok S c" "conn_inv ok S (c\<lparr>cn_req := rq\<rparr>) = conn_inv ok S c"
  by (simp_all add: conn_inv_def)

lemma runs_stream_service:
  assumes "io_output (ev_io E) ok pending sent" and "conn_env_ok ok pending I J E" and "others_spare I J E" and "L < fuel"
  shows "runs ok pending (\<lambda>_. pool_good I J) True L (stream_service_cycle rounds fuel E)"
proof -
  note st = steady_holds(1) [OF assms(3)]
  obtain N N' where hr: "N (ev_new_hls E)" "handler_safe N I (ev_hls E)" "N' (ev_new_llhls E)" "handler_safe N' J (ev_llhls E)"
    by (rule conn_env_handlers [OF assms(2)])
  have src: "runs ok pending (holds_source I J url) True L (andthen (with_source E url (\<lambda>s. (None, source_set_cache True s)))
      (andthen (with_source E url (\<lambda>s. (None, source_set_gop_cache_max_frames config_gop_cache_max_frames s))) (serve rounds fuel E url)))" for url
    by (intro runs_andthen runs_source_op [OF assms(3)] runs_serve [OF assms]) (auto simp: source_set_cache_def source_set_gop_cache_max_frames_def src_good_def)
  define body where "body cl c1 =
     (let req = service_request cl (cn_req c1); c2 = c1\<lparr>cn_type := cl_type cl, cn_req := req\<rparr> in
       if rq_schema req = [] \<or> rq_vhost req = [] \<or> rq_port req = 0 \<or> rq_app req = [] then (Some (Srs_error ERROR_RTMP_REQ_TCURL), c2)
       else if rq_stream req = [] then (Some (Srs_error ERROR_RTMP_STREAM_NAME_EMPTY), c2)
       else let c3 = others E (set_timeouts E SRS_CONSTS_RTMP_TIMEOUT SRS_CONSTS_RTMP_TIMEOUT c2) in
            case fetch_or_create (ev_hls E) (ev_llhls E) (ev_new_hls E) (ev_new_llhls E) req (cn_sources c3) of
              Inl e \<Rightarrow> (Some e, c3)
            | Inr (url, pool) \<Rightarrow>
                andthen (with_source E url (\<lambda>s. (None, source_set_cache True s)))
                 (andthen (with_source E url (\<lambda>s. (None, source_set_gop_cache_max_frames config_gop_cache_max_frames s)))
                   (serve rounds fuel E url)) (c3\<lparr>cn_sources := pool\<rparr>))" for cl and c1 :: "('a, 'b, 'c) SrsRtmpConn"
  have b: "runs ok pending (\<lambda>_. pool_good I J) True L (body cl)" for cl
  proof (rule runsI)
    fix c e c' assume c: "conn_inv ok (\<lambda>_. pool_good I J) c" "to_come pending c \<le> L" "body cl c = (e, c')"
    let ?req = "service_request cl (cn_req c)"
    let ?c2 = "c\<lparr>cn_type := cl_type cl, cn_req := ?req\<rparr>"
    let ?c3 = "others E (set_timeouts E SRS_CONSTS_RTMP_TIMEOUT SRS_CONSTS_RTMP_TIMEOUT ?c2)"
    have c2: "conn_inv ok (\<lambda>_. pool_good I J) ?c2" "to_come pending ?c2 = to_come pending c" using c(1) by simp_all
    note t = conn_inv_set_timeouts [OF assms(2) c2(1), of SRS_CONSTS_RTMP_TIMEOUT SRS_CONSTS_RTMP_TIMEOUT]
    have c3: "conn_inv ok (\<lambda>_. pool_good I J) ?c3" "to_come pending ?c3 = to_come pending c"
      using conn_inv_others [OF st t(1)] t(2) c2(2) by (simp_all add: others_def)
    then have good: "pool_good I J (cn_sources ?c3)" by (simp add: conn_inv_def)
    note f = fetch_or_create_good [OF hr(2,4,1,3) good, where r = ?req and t = "cn_now ?c3"]
    show "conn_inv ok (\<lambda>_. pool_good I J) c' \<and> to_come pending c' \<le> to_come pending c \<and> (\<forall>x. e = Some x \<longrightarrow> tolerated True x)"
    proof (cases "rq_schema ?req = [] \<or> rq_vhost ?req = [] \<or> rq_port ?req = 0 \<or> rq_app ?req = [] \<or> rq_stream ?req = []")
      case True
      then have "c' = ?c2 \<and> (\<exists>x. e = Some (Srs_error x))" using c(3) by (auto simp: body_def Let_def split: if_splits)
      then show ?thesis using c2 by auto
    next
      case False
      show ?thesis
      proof (cases "fetch_or_create (ev_hls E) (ev_llhls E) (ev_new_hls E) (ev_new_llhls E) ?req (cn_sources ?c3)")
        case (Inl x)
        then show ?thesis using c(3) f c3 False by (auto simp: body_def Let_def)
      next
        case (Inr r)
        obtain url pool where r: "r = (url, pool)" by (cases r)
        let ?c4 = "?c3\<lparr>cn_sources := pool\<rparr>"
        have i4: "conn_inv ok (holds_source I J url) ?c4" using f Inr r c3(1) by (simp add: conn_inv_def)
        have le: "to_come pending ?c4 \<le> L" using c3(2) c(2) by simp
        have "andthen (with_source E url (\<lambda>s. (None, source_set_cache True s)))
                 (andthen (with_source E url (\<lambda>s. (None, source_set_gop_cache_max_frames config_gop_cache_max_frames s)))
                   (serve rounds fuel E url)) ?c4 = (e, c')"
          using c(3) False Inr r by (simp add: body_def Let_def)
        note k = runsD [OF src i4 le this]
        have "conn_inv ok (\<lambda>_. pool_good I J) c'" using k(1) by (simp add: conn_inv_def holds_source_def)
        then show ?thesis using k(2,3) c3(2) by auto
      qed
    qed
  qed
  have i: "io_output.conducts ok pending L 0 (identify_client fuel (ev_io E) sid cl)" for sid cl
    unfolding identify_client_def
    using io_output.conducts_weaken [OF assms(1) io_output.conducts_identify [OF assms(1,4)], of 0 L] by simp
  have "runs ok pending (\<lambda>_. pool_good I J) True L (\<lambda>c. rtmp (identify_client fuel (ev_io E) (cn_stream_id c)
            \<lparr>cl_type = cn_type c, cl_stream = rq_stream (cn_req c), cl_duration = rq_duration (cn_req c)\<rparr>) body c)"
    by (rule runs_at) (rule runs_rtmp [OF assms(1) i b])
  then show ?thesis unfolding stream_service_cycle_def body_def .
qed

lemma runs_service_loop:
  assumes "io_output (ev_io E) ok pending sent" and "conn_env_ok ok pending I J E" and "others_spare I J E" and "L < fuel"
  shows "runs ok pending (\<lambda>_. pool_good I J) True L (service_loop n rounds fuel E)"
proof (induction n)
  case (Suc n)
  note st = steady_holds(1) [OF assms(3)]
  define body where "body c = (case stream_service_cycle rounds fuel E c of
         (None, c1) \<Rightarrow> service_loop n rounds fuel E c1
       | (Some e, c1) \<Rightarrow>
           if \<not> srs_is_system_control_error e then (Some e, c1)
           else if e = Srs_error ERROR_CONTROL_REPUBLISH
           then service_loop n rounds fuel E (set_timeouts E SRS_REPUBLISH_TIMEOUT SRS_REPUBLISH_TIMEOUT c1)
           else if e = Srs_error ERROR_CONTROL_RTMP_CLOSE
           then service_loop n rounds fuel E (set_timeouts E SRS_PAUSED_TIMEOUT SRS_PAUSED_TIMEOUT c1)
           else (Some e, c1))" for c
  have "runs ok pending (\<lambda>_. pool_good I J) True L body"
  proof (rule runsI)
    fix c e c' assume c: "conn_inv ok (\<lambda>_. pool_good I J) c" "to_come pending c \<le> L" "body c = (e, c')"
    obtain e1 c1 where c1: "stream_service_cycle rounds fuel E c = (e1, c1)" by fastforce
    note k = runsD [OF runs_stream_service [OF assms] c(1,2) c1]
    have again: "conn_inv ok (\<lambda>_. pool_good I J) c' \<and> to_come pending c' \<le> to_come pending c \<and> (\<forall>x. e = Some x \<longrightarrow> tolerated True x)"
      if "conn_inv ok (\<lambda>_. pool_good I J) c2" "to_come pending c2 = to_come pending c1" "service_loop n rounds fuel E c2 = (e, c')" for c2
    proof -
      have "to_come pending c2 \<le> L" using that(2) k(2) c(2) by simp
      from runsD [OF Suc.IH that(1) this that(3)] that(2) k(2) show ?thesis by auto
    qed
    note t = conn_inv_set_timeouts [OF assms(2) k(1)]
    consider "service_loop n rounds fuel E c1 = (e, c')" | "e = e1" "c' = c1"
      | "service_loop n rounds fuel E (set_timeouts E SRS_REPUBLISH_TIMEOUT SRS_REPUBLISH_TIMEOUT c1) = (e, c')"
    proof (cases e1)
      case None
      then have "service_loop n rounds fuel E c1 = (e, c')" using c(3) c1 by (simp add: body_def)
      then show ?thesis by (rule that(1))
    next
      case (Some x)
      have "(e = e1 \<and> c' = c1) \<or> service_loop n rounds fuel E (set_timeouts E SRS_REPUBLISH_TIMEOUT SRS_REPUBLISH_TIMEOUT c1) = (e, c')"
        using c(3) c1 Some by (simp add: body_def split: if_split_asm)
      then show ?thesis using that(2,3) by blast
    qed
    then show "conn_inv ok (\<lambda>_. pool_good I J) c' \<and> to_come pending c' \<le> to_come pending c \<and> (\<forall>x. e = Some x \<longrightarrow> tolerated True x)"
    proof cases
      case 1
      show ?thesis by (rule again [OF k(1) refl 1])
    next
      case 2
      then show ?thesis using k by auto
    next
      case 3
      show ?thesis by (rule again [OF t 3])
    qed
  qed
  then show ?case unfolding service_loop.simps body_def [symmetric] by (intro runs_andthen runs_pull [OF assms(2) st])
qed (simp add: runs_error)

lemma service_loop_fails: "\<exists>e c'. service_loop n rounds fuel E c = (Some e, c')"
proof (induction n arbitrary: c)
  case (Suc n)
  obtain e1 c1 where c1: "pull E c = (e1, c1)" by fastforce
  obtain e2 c2 where c2: "stream_service_cycle rounds fuel E c1 = (e2, c2)" by fastforce
  show ?case using c1 c2 Suc.IH by (cases e1; cases e2) (auto simp: andthen_def)
qed simp

lemma runs_service_cycle:
  assumes "io_output (ev_io E) ok pending sent" and "conn_env_ok ok pending I J E" and "others_spare I J E" and "L < fuel"
  shows "runs ok pending (\<lambda>_. pool_good I J) True L (service_cycle rounds fuel E)"
proof -
  have r: "io_output.conducts ok pending L 0 (response_connect_app (ev_io E) pid cid req ip)" for pid cid req ip
    unfolding response_connect_app_def Let_def by (intro io_output.conducts_send [OF assms(1)]) simp_all
  have s: "io_output.conducts ok pending L 0 (set_window_ack_size (ev_io E) config_window_ack_size)"
    "io_output.conducts ok pending L 0 (set_peer_bandwidth (ev_io E) config_peer_bandwidth SrsPeerBandwidthDynamic)"
    "io_output.conducts ok pending L 0 (set_chunk_size (ev_io E) config_chunk_size)"
    unfolding set_window_ack_size_def set_peer_bandwidth_def set_chunk_size_def
    by (intro io_output.conducts_send [OF assms(1)]; simp)+
  have "runs ok pending (\<lambda>_. pool_good I J) True L (\<lambda>c. andthen (send (set_window_ack_size (ev_io E) config_window_ack_size))
     (andthen (send (set_peer_bandwidth (ev_io E) config_peer_bandwidth SrsPeerBandwidthDynamic))
     (andthen (send (set_chunk_size (ev_io E) config_chunk_size))
     (andthen (send (response_connect_app (ev_io E) (ev_pid E) (ev_cid E) (cn_req c) (Some (ev_local_ip E))))
       (service_loop fuel rounds fuel E)))) c)"
    by (rule runs_at) (intro runs_andthen runs_send [OF assms(1)] r s runs_service_loop [OF assms])
  then show ?thesis unfolding service_cycle_def .
qed

lemma andthen_fails: "(\<And>c. \<exists>e c'. f c = (Some e, c')) \<Longrightarrow> \<exists>e c'. andthen m f c = (Some e, c')"
  by (cases "m c") (auto simp: andthen_def split: option.split)

lemma service_cycle_fails: "\<exists>e c'. service_cycle rounds fuel E c = (Some e, c')"
  unfolding service_cycle_def by (intro andthen_fails service_loop_fails)

text \<open>
  A whole connection, from the handshake over connect, identification, playing and publishing to its end, over writers that keep their
  invariants: it ends with an error code, or with the null dereference of a play command (\<open>play_decode_null_deref\<close>), or when the bound on the rounds of a
  player is reached. Other threads may do anything to the pool but remove sources, or the consumers of this connection.
\<close>

lemma connection_ends:
  assumes "io_exact (ev_io E) ok pending sent" and "conn_env_ok ok pending I J E" and "others_spare I J E"
    and "pool_good I J pool" and "ok io" and "length (pending io) < fuel"
  shows "\<exists>e c'. do_cycle rounds fuel E (SrsRtmpConn_new io pool) = (Some e, c') \<and> tolerated True e
    \<and> pool_good I J (cn_sources c') \<and> proto_ok ok (cn_rtmp c') \<and> proto_inv (cn_rtmp c')"
proof -
  let ?S = "\<lambda>_::nat. pool_good I J"
  have out: "io_output (ev_io E) ok pending sent" using assms(1) by (rule io_exact.axioms(1))
  define c0 where "c0 = set_timeouts E SRS_CONSTS_RTMP_TIMEOUT SRS_CONSTS_RTMP_TIMEOUT (SrsRtmpConn_new io pool)"
  have i: "conn_inv ok ?S (SrsRtmpConn_new io pool)" "to_come pending (SrsRtmpConn_new io pool) = length (pending io)"
    using assms(4,5) proto_inv_new [of io]
    by (simp_all add: conn_inv_def SrsRtmpConn_new_def proto_ok_def proto_stream_def SrsProtocol_new_def SrsFastStream_new_def fs_wf_def
        fs_bytes_def AckWindowSize_new_def)
  note i0 = conn_inv_set_timeouts [OF assms(2) i(1), of SRS_CONSTS_RTMP_TIMEOUT SRS_CONSTS_RTMP_TIMEOUT, folded c0_def]
  have new: "cn_rtmp c0 = SrsProtocol_new (skt (cn_rtmp c0))" "cn_hs c0 = SrsHandshakeBytes_new"
    by (simp_all add: c0_def set_timeouts_def SrsRtmpConn_new_def SrsProtocol_new_def)
  have okc: "ok (skt (cn_rtmp c0))" using i0(1) by (simp add: conn_inv_def proto_ok_def)
  note h = io_exact.handshake_cases [OF assms(1) okc, of "ev_random E" "ev_time E"]
  show ?thesis
  proof (cases "handshake_with_client (ev_io E) (ev_random E) (ev_time E) (SrsHandshakeBytes_new, skt (cn_rtmp c0))")
    case (Inl x)
    then have "\<exists>y. x = Srs_error y" using h by (metis Inl_inject Inr_not_Inl linorder_not_le)
    moreover have "do_cycle rounds fuel E (SrsRtmpConn_new io pool) = (Some x, c0)"
      using Inl new(2) by (simp add: do_cycle_def Let_def rtmp_handshake_def flip: c0_def)
    ultimately show ?thesis using i0(1) by (auto simp: conn_inv_def)
  next
    case (Inr r)
    obtain u hs s where r: "r = (u, hs, s)" by (cases r)
    have s: "ok s" "length (pending s) \<le> length (pending (skt (cn_rtmp c0)))"
      using h Inr r by (cases "1537 \<le> length (pending (skt (cn_rtmp c0)))"; cases "3073 \<le> length (pending (skt (cn_rtmp c0)))";
        cases "hd (pending (skt (cn_rtmp c0))) = 3"; auto)+
    define c1 where "c1 = c0\<lparr>cn_hs := hs_dispose hs, cn_rtmp := (cn_rtmp c0)\<lparr>skt := s\<rparr>\<rparr>"
    have i1: "conn_inv ok ?S c1" "to_come pending c1 \<le> to_come pending c0"
      using i0(1) s by (simp_all add: c1_def conn_inv_def proto_ok_def proto_inv_def proto_stream_def)
    have L: "to_come pending c1 \<le> length (pending io)" "length (pending io) < fuel" using i1(2) i0(2) i(2) assms(6) by simp_all
    let ?body = "\<lambda>req c2. service_cycle rounds fuel E (c2\<lparr>cn_req := req\<lparr>rq_ip := ev_ip E\<rparr>\<rparr>)"
    have b: "runs ok pending ?S True (length (pending io)) (?body req)" for req
    proof (rule runsI)
      fix c e c' assume c: "conn_inv ok ?S c" "to_come pending c \<le> length (pending io)" "?body req c = (e, c')"
      have "conn_inv ok ?S (c\<lparr>cn_req := req\<lparr>rq_ip := ev_ip E\<rparr>\<rparr>)" "to_come pending (c\<lparr>cn_req := req\<lparr>rq_ip := ev_ip E\<rparr>\<rparr>) \<le> length (pending io)"
        using c(1,2) by simp_all
      from runsD [OF runs_service_cycle [OF out assms(2,3,6)] this c(3)]
      show "conn_inv ok ?S c' \<and> to_come pending c' \<le> to_come pending c \<and> (\<forall>x. e = Some x \<longrightarrow> tolerated True x)" by simp
    qed
    have run: "do_cycle rounds fuel E (SrsRtmpConn_new io pool) = rtmp (connect_app fuel (ev_io E) (cn_req c0)) ?body c1"
      using Inr r new(2) by (simp add: do_cycle_def Let_def rtmp_handshake_def c1_def flip: c0_def)
    have cn: "runs ok pending ?S True (length (pending io)) (rtmp (connect_app fuel (ev_io E) (cn_req c0)) ?body)"
      by (rule runs_rtmp [OF out io_output.conducts_connect [OF out L(2)] b])
    obtain e c' where f: "rtmp (connect_app fuel (ev_io E) (cn_req c0)) ?body c1 = (e, c')" by fastforce
    have "\<exists>x. e = Some x"
    proof (cases "connect_app fuel (ev_io E) (cn_req c0) (cn_rtmp c1)")
      case (Inr v)
      obtain req p where v: "v = (req, p)" by (cases v)
      obtain x c'' where "?body req (c1\<lparr>cn_rtmp := p\<rparr>) = (Some x, c'')" using service_cycle_fails by blast
      then show ?thesis using f Inr v by (auto simp: rtmp_def)
    qed (use f in \<open>auto simp: rtmp_def\<close>)
    then obtain x where x: "e = Some x" by blast
    note k = runsD [OF cn i1(1) L(1) f]
    have "tolerated True x" "conn_inv ok ?S c'" using k(1) k(3) [OF x] by simp_all
    then show ?thesis using f run x by (auto simp: conn_inv_def)
  qed
qed

definition sample_env :: "(tcp SrsStSocket, unit, unit) conn_env" where
  "sample_env = \<lparr>ev_io = SrsStSocket_io tcp_recv tcp_send tcp_writev, ev_set_timeouts = (\<lambda>r s io. io\<lparr>rtm := r, stm := s\<rparr>),
     ev_hls = disabled_handler, ev_llhls = disabled_handler, ev_new_hls = (), ev_new_llhls = (), ev_others = (\<lambda>_ pool. pool),
     ev_pull = (\<lambda>_. None), ev_poll = (\<lambda>_. False), ev_fresh = (\<lambda>n. replicate n 0), ev_consumer = id, ev_cid = ''cid'', ev_pid = 7,
     ev_ip = ''1.2.3.4'', ev_local_ip = ''10.0.0.1'', ev_random = (\<lambda>i. 7 * i), ev_time = 0\<rparr>"

definition sample_conn :: "byte list list \<Rightarrow> (unit, unit) pool \<Rightarrow> (tcp SrsStSocket, unit, unit) SrsRtmpConn" where
  "sample_conn input = SrsRtmpConn_new (SrsStSocket_new True \<lparr>tcp_in = input, tcp_room = [], tcp_out = []\<rparr>)"

lemma sample_env_ok:
  "conn_env_ok stfd_valid (\<lambda>s. concat (tcp_in (kernel s))) (\<lambda>_. True) (\<lambda>_. True) sample_env"
proof -
  have "\<exists>N. N () \<and> handler_safe N (\<lambda>_. True) disabled_handler" using disabled_handler_safe by (intro exI [of _ "\<lambda>_. True"]) simp
  then show ?thesis unfolding conn_env_ok_def by (simp add: sample_env_def)
qed

lemma sample_pool_good: "pool_good (\<lambda>_. True) (\<lambda>_. True) [(''u'', ex_source)]"
  using ex_source_ok by (auto simp: pool_good_def src_good_def ex_source_def source_initialize_def hub_initialize_def disabled_handler_def
      SrsLiveSource_new_def split: if_splits)


end
