(* ===== verification/Server.thy ===== *)
theory Server
  imports LlHlsSafe HlsSafe RtmpConn
begin

text \<open>
  The parts together: a connection of the server with the writers that it really has.
\<close>


definition server_env :: "(tcp SrsStSocket, SrsHls \<times> disk, SrsLlHls) conn_env" where
  "server_env = \<lparr>ev_io = SrsStSocket_io tcp_recv tcp_send tcp_writev, ev_set_timeouts = (\<lambda>r s io. io\<lparr>rtm := r, stm := s\<rparr>),
     ev_hls = hls_handler srs_config disk_os, ev_llhls = llhls_handler llhls_config, ev_new_hls = (SrsHls_new, \<lparr>disk_files = Map.empty, disk_faults = []\<rparr>),
     ev_new_llhls = SrsLlHls_new llhls_config, ev_others = (\<lambda>_ pool. pool), ev_pull = (\<lambda>_. None), ev_poll = (\<lambda>_. False), ev_fresh = (\<lambda>n. replicate n 0),
     ev_consumer = id, ev_cid = ''cid'', ev_pid = 7, ev_ip = ''1.2.3.4'', ev_local_ip = ''10.0.0.1'', ev_random = (\<lambda>i. 7 * i), ev_time = 0\<rparr>"


end
