(* ===== verification/Spec2Isabelle.thy ===== *)
theory Spec2Isabelle
  imports Amf0 SharedPtr Locks HlsFiles TsSegment Server
begin

text \<open>
  A verification of \<^verbatim>\<open>srs-simple\<close>, a small RTMP live streaming server (a reduction of SRS) in C++. An encoder
  publishes a stream over RTMP; players receive it over RTMP, as HLS and as low-latency HLS. This
  development models the protocol stack from the bytes of a socket up to the fan-out of a stream to
  its players and to the files and parts of HLS, and proves what makes each part correct.

  \<^bold>\<open>The program and its parts.\<close> A connection is a thread that reads and writes a socket. Bytes
  come through \<^verbatim>\<open>SrsFastStream\<close> to \<^verbatim>\<open>SrsProtocol\<close>, which joins chunks into messages and splits messages into
  chunks; commands are AMF0 values in packets. A message with audio, video or metadata goes to the
  \<^verbatim>\<open>SrsLiveSource\<close> of its stream, which parses it (\<^verbatim>\<open>SrsFormat\<close>), keeps what later players need (\<^verbatim>\<open>SrsMetaCache\<close>,
  \<^verbatim>\<open>SrsGopCache\<close>), hands it to the two HLS writers (\<^verbatim>\<open>SrsOriginHub\<close>) and to the queue of every player
  (\<^verbatim>\<open>SrsLiveConsumer\<close>), whose thread sends it. \<^verbatim>\<open>SrsHls\<close> muxes MPEG-TS segments into files beside an m3u8 playlist; \<^verbatim>\<open>SrsLlHls\<close> muxes parts of
  fragmented MP4 into memory (\<^verbatim>\<open>SrsLlHlsStorage\<close>), where the threads of the HTTP server wait for them.

  \<^bold>\<open>The theories\<close>, in the order of their imports (all paths under \<^verbatim>\<open>src/src\<close>):
  \<^item> \<open>Prelude\<close>: machine types, error codes (\<^verbatim>\<open>core/srs_kernel_error.hpp\<close>), results, the state and error monad, the
    memory image of integers.
  \<^item> \<open>Buffer\<close>: \<^verbatim>\<open>SrsBuffer\<close>, \<^verbatim>\<open>SrsBitBuffer\<close>, \<^verbatim>\<open>SrsSimpleStream\<close> (\<^verbatim>\<open>kernel/srs_kernel_buffer.cpp\<close>, \<^verbatim>\<open>srs_kernel_stream.cpp\<close>). The
    predicates \<open>writes\<close>, \<open>reads\<close> and \<open>safely\<close> with their rules carry the proofs about every codec above.
  \<^item> \<open>Amf0\<close>: the values, the ordered property table (a map, interpreted from a locale), sizes, readers and writers
    (\<^verbatim>\<open>protocol/srs_protocol_amf0.cpp\<close>).
  \<^item> \<open>Message\<close>: headers and messages in memory, chunk headers (\<^verbatim>\<open>kernel/srs_kernel_flv.cpp\<close>);
    \<open>SharedPtr\<close>: the reference counting of shared messages on a heap, alone and with two threads.
  \<^item> \<open>Socket\<close>: \<^verbatim>\<open>SrsStSocket\<close> over the system calls, and the coroutine state machine (\<^verbatim>\<open>app/srs_app_st.cpp\<close>).
  \<^item> \<open>FastStream\<close>: the receive buffer (\<^verbatim>\<open>protocol/srs_protocol_stream.cpp\<close>).
  \<^item> \<open>Packet\<close>: the packet classes (\<^verbatim>\<open>protocol/srs_protocol_rtmp_stack.cpp\<close>).
  \<^item> \<open>Protocol\<close>: \<^verbatim>\<open>SrsProtocol\<close> and \<^verbatim>\<open>SrsChunkStream\<close> (same file); \<open>Chunking\<close>: chunks and messages, the
    abstract demultiplexer and the round trip of the wire; \<open>Receiver\<close>: its invariant and safety on any input.
  \<^item> \<open>Codec\<close>: FLV tags and \<^verbatim>\<open>SrsFormat\<close> (\<^verbatim>\<open>kernel/srs_kernel_codec.cpp\<close>).
  \<^item> \<open>Consumer\<close>, \<open>Caches\<close>, \<open>Source\<close>, \<open>Locks\<close>: the stream hub (\<^verbatim>\<open>app/srs_app_source.cpp\<close>): jitter, queue and consumer;
    GOP and metadata cache; hub, source and manager; the mutexes.
  \<^item> \<open>Utility\<close>: string helpers, URLs, \<^verbatim>\<open>SrsRequest\<close> (\<^verbatim>\<open>protocol/srs_protocol_utility.cpp\<close>).
  \<^item> \<open>Handshake\<close>: the plain handshake (\<^verbatim>\<open>protocol/srs_protocol_rtmp_handshake.cpp\<close>); \<open>Session\<close>: \<^verbatim>\<open>SrsRtmpServer\<close>, the server's side
    of the commands, and its safety on any input; \<open>Dialogue\<close>: what it does with a client that sends commands;
    \<open>RtmpConn\<close>: the cycles of a connection, \<^verbatim>\<open>SrsRtmpConn\<close> (\<^verbatim>\<open>app/srs_app_rtmp_conn.cpp\<close>), on top of all of the above.
  \<^item> \<open>Text\<close>: decimal numbers and templates of paths; \<open>Triple\<close>: what operations that may fail leave of an invariant.
  \<^item> \<open>Files\<close>: \<^verbatim>\<open>SrsFileWriter\<close> over the system calls, directories, and what a file system does
    (\<^verbatim>\<open>kernel/srs_kernel_file.cpp\<close>); \<open>Fragment\<close>: a file in the making and the window of them (\<^verbatim>\<open>app/srs_app_fragment.cpp\<close>).
  \<^item> \<open>Ts\<close>: the MPEG-TS muxer (\<^verbatim>\<open>kernel/srs_kernel_ts.cpp\<close>), read back by demultiplexers that are defined beside it; \<open>TsSegment\<close>: a whole segment.
  \<^item> \<open>Hls\<close>: muxer, controller and handler of HLS (\<^verbatim>\<open>app/srs_app_hls.cpp\<close>); \<open>HlsSafe\<close>: its invariant, from a locale of what the layers keep;
    \<open>HlsFiles\<close>: what is on the disk, in the locale of a file system that may fail.
  \<^item> \<open>Mp4\<close>: the segment encoders (\<^verbatim>\<open>kernel/srs_kernel_mp4.cpp\<close>); \<open>Mp4Read\<close>, \<open>Mp4Init\<close>: a reader of boxes, and what it finds in a fragment and in the
    initialization segment.
  \<^item> \<open>LlHls\<close>: low-latency HLS (\<^verbatim>\<open>app/srs_app_llhls.cpp\<close>); \<open>LlHlsStore\<close>: its storage under any calls, and the condition variable, interpreted from a locale;
    \<open>LlHlsParts\<close>: from frames to parts; \<open>LlHlsSafe\<close>: the handler.
  \<^item> \<open>Server\<close>: a connection with both writers.

  \<^bold>\<open>How the code is translated.\<close> A class is a record, a method a function from the old to the new
  state; a \<^verbatim>\<open>char*\<close> with its length is a list of bytes; integers have their width where it matters and are
  mathematical integers with the wrap-around or the range stated elsewhere. An \<^verbatim>\<open>srs_error_t\<close> is
  a value of type \<open>failure\<close>, which also has the failed assertion and the null dereference, so that
  safety is the theorem that these do not occur. System calls, the allocator's memory content and thread ids
  are parameters; the hub and the connection are parametric in their two writers, which \<open>Server\<close> instantiates. A method that runs under a mutex is one step; interleavings
  are step relations (\<open>consumer_step\<close>, \<open>source_step\<close>, \<open>lock_step\<close>, \<open>cv_step\<close>) with invariants by rule induction.

  \<^bold>\<open>What is shown.\<close>
  \<^item> Round trips: buffers, AMF0, packets, chunks to messages, NALUs to samples, H.264 escaping, Exp-Golomb codes,
    a whole transport stream segment, ADTS frames, fragments and initialization segments of MP4.
  \<^item> Safety on untrusted bytes: AMF0, packets, the receiver, the audio and video parsers, and then a whole connection
    from the handshake to its end, with its writers, on a disk that may fail.
  \<^item> Refinement: the receiver of a demultiplexer, the receive buffer of the byte stream, a consumer of a queue, the packager of low-latency HLS of
    the list of the frames.
  \<^item> Invariants and interleavings: the receiver's state, coroutines, the GOP cache, one publisher per source, no
    lost wake-up of players and of HTTP requests, when the locks cannot deadlock, the window of HLS on the disk, the window and the playlist of low-latency HLS.
  \<^item> Behaviour of the hub: what a player sees, the overflow of a queue; where HLS cuts its segments, and low-latency HLS its parts.

  \<^bold>\<open>Loops and bounds.\<close> Loops whose measure is not structural are functions with a termination proof. The AMF0
  reader and the receiver use fuel, with the amount of input as the bound: the theorems prove that it
  is enough. The loop of the queue is a \<open>while\<close> that is proved to end.

  \<^bold>\<open>Not modelled.\<close> The HTTP server and the connection manager. Sockets, files,
  signals, the log and the start of the process are calls of the operating system; of the configuration only the options of HLS are a record, the other options are
  constants where they are used.
\<close>

end
